(* ===== verification/Prelude.thy ===== *)
theory Prelude
  imports Main "HOL-Library.Word" "HOL-Library.Monad_Syntax"
begin

text \<open>
  Shared vocabulary of the development: the machine integer types of the kernel, the
  representation of a Rust panic, checked 64-bit arithmetic, slices of byte buffers, and
  the generic list, option and bit lemmas the component theories rest on.

  A Rust computation that can panic has type \<open>'a panics\<close>: \<open>None\<close> is the panic
  (\<^verbatim>\<open>panic = "abort"\<close> in Cargo.toml: a panic ends the kernel) and, where a loop is
  defined by \<^theory_text>\<open>partial_function\<close>, also a loop that never returns. A Rust
  \<^verbatim>\<open>Option\<close> that the code returns as a value is a separate \<open>option\<close> inside.
  Unsigned integers are \<open>nat\<close> where the code's arithmetic is checked (the dev profile
  sets \<^verbatim>\<open>overflow-checks = true\<close>): the checked operations below give
  \<open>None\<close> where Rust panics. Bit-level data stays at its width, as a \<open>word\<close>.
\<close>

unbundle bit_operations_syntax

type_synonym u8 = "8 word"
type_synonym u16 = "16 word"
type_synonym u32 = "32 word"
type_synonym u64 = "64 word"
type_synonym byte = "8 word"
type_synonym 'a panics = "'a option"

named_theorems slice_simps \<open>slices of buffers: lengths and elements\<close>
named_theorems checked_simps \<open>checked 64-bit arithmetic that stays in range\<close>

section \<open>Checked 64-bit arithmetic\<close>

text \<open>The operators \<^verbatim>\<open>+ - * <<\<close> on \<^verbatim>\<open>u64\<close> and \<^verbatim>\<open>usize\<close> with overflow checks.\<close>

definition add64 :: "nat \<Rightarrow> nat \<Rightarrow> nat panics" where
  "add64 a b = (if a + b < 2 ^ 64 then Some (a + b) else None)"

definition sub64 :: "nat \<Rightarrow> nat \<Rightarrow> nat panics" where
  "sub64 a b = (if b \<le> a then Some (a - b) else None)"

definition mul64 :: "nat \<Rightarrow> nat \<Rightarrow> nat panics" where
  "mul64 a b = (if a * b < 2 ^ 64 then Some (a * b) else None)"

definition shl64 :: "nat \<Rightarrow> nat \<Rightarrow> nat panics" where
  "shl64 a n = (if n < 64 then Some ((a * 2 ^ n) mod 2 ^ 64) else None)"

text \<open>The same on \<^verbatim>\<open>u32\<close> and \<^verbatim>\<open>i64\<close>.\<close>

definition add32 :: "nat \<Rightarrow> nat \<Rightarrow> nat panics" where
  "add32 a b = (if a + b < 2 ^ 32 then Some (a + b) else None)"

definition mul32 :: "nat \<Rightarrow> nat \<Rightarrow> nat panics" where
  "mul32 a b = (if a * b < 2 ^ 32 then Some (a * b) else None)"

definition add_i64 :: "int \<Rightarrow> int \<Rightarrow> int panics" where
  "add_i64 a b = (if - (2 ^ 63) \<le> a + b \<and> a + b < 2 ^ 63 then Some (a + b) else None)"

definition assert_rust :: "bool \<Rightarrow> unit panics" where
  "assert_rust b = (if b then Some () else None)"

text \<open>\<^verbatim>\<open>usize::div_ceil\<close> and \<^verbatim>\<open>usize::next_multiple_of\<close>.\<close>

definition div_ceil :: "nat \<Rightarrow> nat \<Rightarrow> nat" where
  "div_ceil a b = (if a mod b = 0 then a div b else a div b + 1)"

definition next_multiple_of :: "nat \<Rightarrow> nat \<Rightarrow> nat" where
  "next_multiple_of a b = (if a mod b = 0 then a else a + (b - a mod b))"

lemma add64_Some [checked_simps]: "a + b < 2 ^ 64 \<Longrightarrow> add64 a b = Some (a + b)"
  by (simp add: add64_def)

lemma sub64_Some [checked_simps]: "b \<le> a \<Longrightarrow> sub64 a b = Some (a - b)"
  by (simp add: sub64_def)

lemma mul64_Some [checked_simps]: "a * b < 2 ^ 64 \<Longrightarrow> mul64 a b = Some (a * b)"
  by (simp add: mul64_def)

lemma shl64_Some [checked_simps]: "n < 64 \<Longrightarrow> a * 2 ^ n < 2 ^ 64 \<Longrightarrow> shl64 a n = Some (a * 2 ^ n)"
  by (simp add: shl64_def)

lemma add32_Some [checked_simps]: "a + b < 2 ^ 32 \<Longrightarrow> add32 a b = Some (a + b)"
  by (simp add: add32_def)

lemma mul32_Some [checked_simps]: "a * b < 2 ^ 32 \<Longrightarrow> mul32 a b = Some (a * b)"
  by (simp add: mul32_def)

lemma add_i64_Some [checked_simps]: "- (2 ^ 63) \<le> a + b \<Longrightarrow> a + b < 2 ^ 63 \<Longrightarrow> add_i64 a b = Some (a + b)"
  by (simp add: add_i64_def)

lemma add64_eq_Some: "add64 a b = Some c \<longleftrightarrow> c = a + b \<and> a + b < 2 ^ 64"
  by (auto simp: add64_def)

lemma sub64_eq_Some: "sub64 a b = Some c \<longleftrightarrow> c = a - b \<and> b \<le> a"
  by (auto simp: sub64_def)

lemma assert_rust_simps [simp]:
  "assert_rust True = Some ()" "assert_rust False = None"
  by (simp_all add: assert_rust_def)

lemma div_ceil_le_iff: "0 < b \<Longrightarrow> div_ceil a b \<le> n \<longleftrightarrow> a \<le> n * b"
proof -
  assume b: "0 < b"
  obtain q r where q: "q = a div b" and r: "r = a mod b" by blast
  have a: "a = b * q + r" and r_less: "r < b" using b by (simp_all add: q r)
  have "q + 1 \<le> n \<longleftrightarrow> a \<le> n * b" if "0 < r"
  proof
    assume "q + 1 \<le> n"
    then have "b * (q + 1) \<le> b * n" by (rule mult_le_mono2)
    then show "a \<le> n * b" using a r_less by (simp add: algebra_simps)
  next
    assume "a \<le> n * b"
    then have "b * q < b * n" using a that mult.commute [of n b] by linarith
    then show "q + 1 \<le> n" by simp
  qed
  moreover have "q \<le> n \<longleftrightarrow> a \<le> n * b" if "r = 0"
    using a b that by (simp add: mult.commute)
  ultimately show ?thesis by (cases "r = 0") (simp_all add: div_ceil_def q r)
qed

lemma div_ceil_mult_ge: "0 < b \<Longrightarrow> a \<le> div_ceil a b * b"
  using div_ceil_le_iff [of b a "div_ceil a b"] by simp

lemma next_multiple_of_ge: "a \<le> next_multiple_of a b"
  by (simp add: next_multiple_of_def)

lemma next_multiple_of_mod: "0 < b \<Longrightarrow> next_multiple_of a b mod b = 0"
proof -
  assume b: "0 < b"
  have "a mod b < b" using b by simp
  then have "a + (b - a mod b) = a - a mod b + b" by (simp add: mod_less_eq_dividend)
  moreover have "(a - a mod b + b) mod b = 0" by (simp add: minus_mod_eq_mult_div)
  ultimately show ?thesis by (simp add: next_multiple_of_def)
qed

text \<open>Running a fallible step over a list, stopping at the first panic.\<close>

primrec fold_panics :: "('b \<Rightarrow> 's \<Rightarrow> 's panics) \<Rightarrow> 'b list \<Rightarrow> 's \<Rightarrow> 's panics" where
  "fold_panics f [] s = Some s"
| "fold_panics f (b # bs) s = do { s' \<leftarrow> f b s; fold_panics f bs s' }"

text \<open>Indexing a slice or an array, with its bounds check.\<close>

definition list_get :: "'a list \<Rightarrow> nat \<Rightarrow> 'a panics" where
  "list_get xs i = (if i < length xs then Some (xs ! i) else None)"

lemma list_get_Some [checked_simps]: "i < length xs \<Longrightarrow> list_get xs i = Some (xs ! i)"
  by (simp add: list_get_def)

section \<open>Slices of buffers\<close>

text \<open>
  \<open>slice_of xs a b\<close> is the Rust slice \<^verbatim>\<open>&xs[a..b]\<close>;
  \<open>splice_at xs a ys\<close> is \<open>xs\<close> after \<^verbatim>\<open>xs[a..a + ys.len()].copy_from_slice(&ys)\<close>.
\<close>

definition slice_of :: "'a list \<Rightarrow> nat \<Rightarrow> nat \<Rightarrow> 'a list" where
  "slice_of xs a b = take (b - a) (drop a xs)"

definition splice_at :: "'a list \<Rightarrow> nat \<Rightarrow> 'a list \<Rightarrow> 'a list" where
  "splice_at xs a ys = take a xs @ ys @ drop (a + length ys) xs"

text \<open>
  The slice that \<^verbatim>\<open>alloc_boxed_slice(n)\<close> of \<^verbatim>\<open>data/mod.rs\<close> builds over the
  memory it got: a buffer of \<open>n\<close> bytes whose contents are what the memory held before, here
  the argument \<open>uninit\<close>. This is the end of the function (its last four lines). The call of the
  heap, the \<^verbatim>\<open>count.max(1)\<close> and the panics of the layout and of the null pointer are modelled
  by \<open>alloc_box\<close> of \<open>Process_Memory\<close>, where the heap is part of the state; the components
  that use \<open>alloc_boxed_slice\<close> alone are described for a heap that has room for their buffers.
\<close>

definition alloc_boxed_slice :: "u8 list \<Rightarrow> nat \<Rightarrow> u8 list" where
  "alloc_boxed_slice uninit n = take n (uninit @ replicate n 0)"

lemma length_alloc_boxed_slice [simp]: "length (alloc_boxed_slice uninit n) = n"
  by (simp add: alloc_boxed_slice_def min_def)

lemma length_slice [slice_simps]: "b \<le> length xs \<Longrightarrow> length (slice_of xs a b) = b - a"
  by (simp add: slice_of_def)

lemma nth_slice [slice_simps]:
  "i < b - a \<Longrightarrow> b \<le> length xs \<Longrightarrow> slice_of xs a b ! i = xs ! (a + i)"
  by (simp add: slice_of_def)

lemma slice_full [simp]: "slice_of xs 0 (length xs) = xs"
  by (simp add: slice_of_def)

lemma slice_append_slice: "a \<le> b \<Longrightarrow> b \<le> c \<Longrightarrow> slice_of xs a b @ slice_of xs b c = slice_of xs a c"
proof -
  assume ab: "a \<le> b" and bc: "b \<le> c"
  have "take (c - a) (drop a xs) = take ((b - a) + (c - b)) (drop a xs)"
    using ab bc by simp
  also have "\<dots> = take (b - a) (drop a xs) @ take (c - b) (drop (b - a) (drop a xs))"
    by (rule take_add)
  also have "drop (b - a) (drop a xs) = drop b xs" using ab by simp
  finally show ?thesis by (simp add: slice_of_def)
qed

lemma length_splice_at [slice_simps]:
  "a + length ys \<le> length xs \<Longrightarrow> length (splice_at xs a ys) = length xs"
  by (simp add: splice_at_def)

lemma nth_splice_at [slice_simps]:
  "a + length ys \<le> length xs \<Longrightarrow> i < length xs \<Longrightarrow>
    splice_at xs a ys ! i = (if a \<le> i \<and> i < a + length ys then ys ! (i - a) else xs ! i)"
  by (auto simp: splice_at_def nth_append min_def)

lemma slice_eq_map: "b \<le> length xs \<Longrightarrow> slice_of xs a b = map ((!) xs) [a..<b]"
  by (rule nth_equalityI) (simp_all add: slice_simps)

text \<open>The same with the bounds checks of Rust: an index out of range or a length mismatch panics.\<close>

definition slice_get :: "'a list \<Rightarrow> nat \<Rightarrow> nat \<Rightarrow> 'a list panics" where
  "slice_get xs a b = (if a \<le> b \<and> b \<le> length xs then Some (slice_of xs a b) else None)"

definition copy_from_slice :: "'a list \<Rightarrow> nat \<Rightarrow> nat \<Rightarrow> 'a list \<Rightarrow> 'a list panics" where
  "copy_from_slice dst a b src =
     (if a \<le> b \<and> b \<le> length dst \<and> length src = b - a then Some (splice_at dst a src) else None)"

lemma slice_get_Some [checked_simps]: "a \<le> b \<Longrightarrow> b \<le> length xs \<Longrightarrow> slice_get xs a b = Some (slice_of xs a b)"
  by (simp add: slice_get_def)

lemma copy_from_slice_Some [checked_simps]:
  "a \<le> b \<Longrightarrow> b \<le> length dst \<Longrightarrow> length src = b - a \<Longrightarrow> copy_from_slice dst a b src = Some (splice_at dst a src)"
  by (simp add: copy_from_slice_def)

section \<open>Little-endian encodings\<close>

text \<open>
  How the x86-64 target lays an unsigned integer out in memory: \<^verbatim>\<open>u32::from_le_bytes\<close> and
  the reads of packed structures, and their inverses.
\<close>

definition from_le_bytes :: "u8 list \<Rightarrow> 'a::len word" where
  "from_le_bytes bs = word_rcat (rev bs)"

definition to_le_bytes :: "'a::len word \<Rightarrow> u8 list" where
  "to_le_bytes w = map (\<lambda>i. ucast (drop_bit (8 * i) w)) [0..<LENGTH('a) div 8]"

lemma bit_from_le_bytes:
  "bit (from_le_bytes bs :: 'a::len word) n \<longleftrightarrow>
     n < LENGTH('a) \<and> n div 8 < length bs \<and> bit (bs ! (n div 8)) (n mod 8)"
  using bit_horner_sum_uint_exp_iff [of bs n]
  by (simp add: from_le_bytes_def word_rcat_def bit_word_of_int_iff)

lemma length_to_le_bytes [simp]: "length (to_le_bytes (w :: 'a::len word)) = LENGTH('a) div 8"
  by (simp add: to_le_bytes_def)

lemma from_to_le_bytes: "8 dvd LENGTH('a::len) \<Longrightarrow> from_le_bytes (to_le_bytes w) = (w :: 'a word)"
proof (rule bit_word_eqI)
  fix n assume d: "8 dvd LENGTH('a)" and n: "n < LENGTH('a)"
  have len: "n div 8 < LENGTH('a) div 8" using d n by (auto simp: dvd_def div_less_iff_less_mult mult.commute)
  then have "bit (to_le_bytes w ! (n div 8)) (n mod 8) \<longleftrightarrow> bit w n"
    by (simp add: to_le_bytes_def bit_simps)
  then show "bit (from_le_bytes (to_le_bytes w) :: 'a word) n \<longleftrightarrow> bit w n"
    using n len by (simp add: bit_from_le_bytes)
qed

lemma to_from_le_bytes:
  assumes "length bs = LENGTH('a::len) div 8" "8 dvd LENGTH('a)"
  shows "to_le_bytes (from_le_bytes bs :: 'a word) = bs"
proof (rule nth_equalityI)
  fix i assume "i < length (to_le_bytes (from_le_bytes bs :: 'a word))"
  then have i: "i < LENGTH('a) div 8" by simp
  show "to_le_bytes (from_le_bytes bs :: 'a word) ! i = bs ! i"
  proof (rule bit_word_eqI)
    fix n assume "n < LENGTH(8)"
    then have n: "n < 8" by simp
    then have "8 * i + n < LENGTH('a)" using i assms(2) by (auto simp: dvd_def)
    then show "bit (to_le_bytes (from_le_bytes bs :: 'a word) ! i) n \<longleftrightarrow> bit (bs ! i) n"
      using i n assms(1) by (simp add: to_le_bytes_def bit_simps bit_from_le_bytes)
  qed
qed (simp add: assms)

lemma le_bytes_lengths [simp]:
  "length (to_le_bytes (a :: u16)) = 2" "length (to_le_bytes (b :: u32)) = 4" "length (to_le_bytes (c :: u64)) = 8"
  by simp_all

lemma from_to_le [simp]:
  "from_le_bytes (to_le_bytes a) = (a :: u16)" "from_le_bytes (to_le_bytes b) = (b :: u32)"
  "from_le_bytes (to_le_bytes c) = (c :: u64)"
  by (simp_all add: from_to_le_bytes)

text \<open>Slicing a field out of a concatenation of fields.\<close>

lemma slice_append_left: "length xs = n \<Longrightarrow> n \<le> a \<Longrightarrow> slice_of (xs @ ys) a b = slice_of ys (a - n) (b - n)"
  by (simp add: slice_of_def)

lemma slice_append_first: "length xs = b \<Longrightarrow> slice_of (xs @ ys) 0 b = xs"
  by (simp add: slice_of_def)

lemma slice_whole: "length xs = b \<Longrightarrow> slice_of xs 0 b = xs"
  by (simp add: slice_of_def)

section \<open>Options, sums and lists\<close>

lemma bind_eq_Some_iff [simp]:
  "Option.bind m f = Some y \<longleftrightarrow> (\<exists>x. m = Some x \<and> f x = Some y)"
  by (cases m) auto

lemma list_eq_replicate_iff: "xs = replicate (length xs) x \<longleftrightarrow> (\<forall>y \<in> set xs. y = x)"
  by (induction xs) auto

lemma upt_split: "a \<le> b \<Longrightarrow> b \<le> c \<Longrightarrow> [a..<c] = [a..<b] @ [b..<c]"
  using upt_add_eq_append [of a b "c - b"] by simp

section \<open>Ordered maps\<close>

text \<open>
  \<^verbatim>\<open>BTreeMap\<close>: an association list sorted by key, so that iteration has the order of the
  keys. Lookup is \<open>map_of\<close>.
\<close>

fun btree_insert :: "'k::linorder \<Rightarrow> 'v \<Rightarrow> ('k \<times> 'v) list \<Rightarrow> ('k \<times> 'v) list" where
  "btree_insert k v [] = [(k, v)]"
| "btree_insert k v ((j, w) # xs) =
     (if k < j then (k, v) # (j, w) # xs
      else if k = j then (k, v) # xs
      else (j, w) # btree_insert k v xs)"

definition btree_remove :: "'k \<Rightarrow> ('k \<times> 'v) list \<Rightarrow> ('k \<times> 'v) list" where
  "btree_remove k xs = filter (\<lambda>(j, w). j \<noteq> k) xs"

lemma map_of_btree_insert: "sorted (map fst xs) \<Longrightarrow> map_of (btree_insert k v xs) = (map_of xs)(k \<mapsto> v)"
  by (induction k v xs rule: btree_insert.induct) (auto simp: fun_eq_iff)

lemma map_of_btree_remove: "map_of (btree_remove k xs) = (map_of xs)(k := None)"
  by (induction xs) (auto simp: btree_remove_def fun_eq_iff)

lemma set_btree_insert: "fst ` set (btree_insert k v xs) = insert k (fst ` set xs)"
  by (induction k v xs rule: btree_insert.induct) auto

lemma sorted_btree_insert: "sorted (map fst xs) \<Longrightarrow> sorted (map fst (btree_insert k v xs))"
proof (induction k v xs rule: btree_insert.induct)
  case (2 k v j w xs)
  have "set (map fst (btree_insert k v xs)) = insert k (set (map fst xs))" using set_btree_insert [of k v xs] by simp
  then show ?case using 2 by (auto simp del: set_map)
qed simp

lemma sorted_btree_remove: "sorted (map fst xs) \<Longrightarrow> sorted (map fst (btree_remove k xs))"
  by (induction xs) (auto simp: btree_remove_def)

end
