(* ===== verification/Buddy.thy ===== *)
theory Buddy
  imports Prelude
begin

text \<open>
  The page allocator of \<^verbatim>\<open>memory/buddy_alloc.rs\<close>. Free blocks form one intrusive
  singly linked list per order: the list node of a block is stored in the first bytes of the
  block itself. The model keeps that representation: \<open>memory\<close> maps an address to the
  \<open>FreeBlock\<close> stored there, and \<open>free_lists\<close> holds the head pointer of every order.
  Raw pointers are addresses; \<^verbatim>\<open>Option<NonNull<FreeBlock>>\<close> is an optional address.
\<close>

section \<open>The allocator\<close>

definition PAGE_SIZE :: nat where
  "PAGE_SIZE = 4096"

definition MAX_ORDER :: nat where
  "MAX_ORDER = 28"

record FreeBlock =
  fb_next :: "nat option"
  fb_order :: nat

record BuddyPageAllocator =
  base_addr :: nat
  page_count :: nat
  free_lists :: "nat option list"
  allocated_pages :: nat
  memory :: "nat \<Rightarrow> FreeBlock"

definition nonnull_new :: "nat \<Rightarrow> nat option" where
  "nonnull_new a = (if a = 0 then None else Some a)"

partial_function (option) required_order_loop :: "nat \<Rightarrow> nat \<Rightarrow> nat \<Rightarrow> nat panics" where
  "required_order_loop num_pages total_size order =
     (if total_size < num_pages
      then do { t \<leftarrow> mul64 total_size 2; required_order_loop num_pages t (order + 1) }
      else Some order)"

definition required_order :: "nat \<Rightarrow> nat panics" where
  "required_order num_pages = required_order_loop num_pages 1 0"

definition find_buddy :: "nat \<Rightarrow> nat \<Rightarrow> nat panics" where
  "find_buddy addr order = do { w \<leftarrow> shl64 PAGE_SIZE order; Some (addr XOR w) }"

fun init_loop :: "nat list \<Rightarrow> nat \<Rightarrow> BuddyPageAllocator \<Rightarrow> BuddyPageAllocator panics" where
  "init_loop [] curr_page s = Some s"
| "init_loop (i # is) curr_page s = do {
     remaining \<leftarrow> sub64 (page_count s) curr_page;
     width \<leftarrow> shl64 1 i;
     if remaining < width then init_loop is curr_page s
     else do {
       offset \<leftarrow> mul64 curr_page PAGE_SIZE;
       free_block \<leftarrow> add64 (base_addr s) offset;
       next_page \<leftarrow> add64 curr_page width;
       init_loop is next_page
         (s\<lparr>memory := (memory s)(free_block := \<lparr>fb_next = None, fb_order = i\<rparr>),
            free_lists := (free_lists s)[i := nonnull_new free_block]\<rparr>)
     }
   }"

definition buddy_init :: "BuddyPageAllocator \<Rightarrow> BuddyPageAllocator panics" where
  "buddy_init s = init_loop (rev [0..<MAX_ORDER + 1]) 0 s"

definition buddy_new ::
    "(nat \<Rightarrow> FreeBlock) \<Rightarrow> nat \<Rightarrow> nat \<Rightarrow> BuddyPageAllocator panics" where
  "buddy_new mem base count = do {
     assert_rust ((base AND (PAGE_SIZE - 1)) = 0 \<and> count > 0);
     buddy_init \<lparr>base_addr = base, page_count = count,
       free_lists = replicate (MAX_ORDER + 1) None, allocated_pages = 0, memory = mem\<rparr>
   }"

definition add_free_block ::
    "BuddyPageAllocator \<Rightarrow> nat \<Rightarrow> nat \<Rightarrow> BuddyPageAllocator panics" where
  "add_free_block s addr order = do {
     offset \<leftarrow> sub64 addr (base_addr s);
     width \<leftarrow> shl64 PAGE_SIZE order;
     assert_rust (offset mod width = 0);
     head \<leftarrow> list_get (free_lists s) order;
     Some (s\<lparr>memory := (memory s)(addr := \<lparr>fb_next = head, fb_order = order\<rparr>),
             free_lists := (free_lists s)[order := nonnull_new addr]\<rparr>)
   }"

definition consume ::
    "BuddyPageAllocator \<Rightarrow> nat \<Rightarrow> (nat option \<times> BuddyPageAllocator) panics" where
  "consume s order = do {
     head \<leftarrow> list_get (free_lists s) order;
     case head of
       None \<Rightarrow> Some (None, s)
     | Some block \<Rightarrow> do {
         assert_rust (order = fb_order (memory s block));
         Some (Some block,
               s\<lparr>free_lists := (free_lists s)[order := fb_next (memory s block)]\<rparr>)
       }
   }"

function find_free_order :: "BuddyPageAllocator \<Rightarrow> nat \<Rightarrow> nat panics" where
  "find_free_order s current_order =
     (if current_order \<le> MAX_ORDER
      then (case list_get (free_lists s) current_order of
              None \<Rightarrow> None
            | Some None \<Rightarrow> find_free_order s (current_order + 1)
            | Some (Some _) \<Rightarrow> Some current_order)
      else Some current_order)"
  by pat_completeness auto
termination
  by (relation "measure (\<lambda>(s, c). MAX_ORDER + 1 - c)") auto

definition split_step ::
    "BuddyPageAllocator \<Rightarrow> nat \<Rightarrow> BuddyPageAllocator panics" where
  "split_step s current_order = do {
     (b, s1) \<leftarrow> consume s current_order;
     case b of
       None \<Rightarrow> Some s1
     | Some block_addr \<Rightarrow> do {
         half_size \<leftarrow> shl64 PAGE_SIZE (current_order - 1);
         buddy2 \<leftarrow> add64 block_addr half_size;
         s2 \<leftarrow> add_free_block s1 buddy2 (current_order - 1);
         add_free_block s2 block_addr (current_order - 1)
       }
   }"

function split_loop ::
    "BuddyPageAllocator \<Rightarrow> nat \<Rightarrow> nat \<Rightarrow> BuddyPageAllocator panics" where
  "split_loop s current_order order =
     (if current_order > order
      then (case split_step s current_order of
              None \<Rightarrow> None
            | Some s' \<Rightarrow> split_loop s' (current_order - 1) order)
      else Some s)"
  by pat_completeness auto
termination
  by (relation "measure (\<lambda>(s, c, ord). c - ord)") auto

definition buddy_alloc ::
    "BuddyPageAllocator \<Rightarrow> nat \<Rightarrow> ((nat \<times> nat) option \<times> BuddyPageAllocator) panics" where
  "buddy_alloc s num_pages =
     (if num_pages = 0 then Some (None, s)
      else do {
        order \<leftarrow> required_order num_pages;
        if order > MAX_ORDER then Some (None, s)
        else do {
          current_order \<leftarrow> find_free_order s order;
          if current_order > MAX_ORDER then Some (None, s)
          else do {
            s1 \<leftarrow> split_loop s current_order order;
            (b, s2) \<leftarrow> consume s1 order;
            case b of
              None \<Rightarrow> Some (None, s2)
            | Some block_addr \<Rightarrow> do {
                width \<leftarrow> shl64 1 order;
                total \<leftarrow> add64 (allocated_pages s2) width;
                Some (Some (block_addr, order), s2\<lparr>allocated_pages := total\<rparr>)
              }
          }
        }
      })"

partial_function (option) remove_walk ::
    "BuddyPageAllocator \<Rightarrow> nat \<Rightarrow> nat \<Rightarrow> (bool \<times> BuddyPageAllocator) panics" where
  "remove_walk s prev addr =
     (case fb_next (memory s prev) of
        None \<Rightarrow> Some (False, s)
      | Some block \<Rightarrow>
          (if block = addr
           then Some (True, s\<lparr>memory := (memory s)
                  (block := (memory s block)\<lparr>fb_next := None\<rparr>,
                   prev := (memory s prev)\<lparr>fb_next := fb_next (memory s block)\<rparr>)\<rparr>)
           else remove_walk s block addr))"

definition remove_free_block ::
    "BuddyPageAllocator \<Rightarrow> nat \<Rightarrow> nat \<Rightarrow> (bool \<times> BuddyPageAllocator) panics" where
  "remove_free_block s addr order = do {
     head \<leftarrow> list_get (free_lists s) order;
     case head of
       None \<Rightarrow> Some (False, s)
     | Some block \<Rightarrow>
         (if block = addr
          then Some (True, s\<lparr>memory := (memory s)(block := (memory s block)\<lparr>fb_next := None\<rparr>),
                 free_lists := (free_lists s)[order := fb_next (memory s block)]\<rparr>)
          else remove_walk s block addr)
   }"

function free_loop :: "BuddyPageAllocator \<Rightarrow> nat \<Rightarrow> nat \<Rightarrow> BuddyPageAllocator panics" where
  "free_loop s addr order =
     (case sub64 addr (base_addr s) of None \<Rightarrow> None | Some rel \<Rightarrow>
      (case find_buddy rel order of None \<Rightarrow> None | Some rel_buddy \<Rightarrow>
       (case add64 rel_buddy (base_addr s) of None \<Rightarrow> None | Some buddy_addr \<Rightarrow>
        (case remove_free_block s buddy_addr order of None \<Rightarrow> None | Some (removed, s1) \<Rightarrow>
          (if \<not> removed then add_free_block s1 addr order
           else if order + 1 > MAX_ORDER then Some s1
           else free_loop s1 (min addr buddy_addr) (order + 1))))))"
  by pat_completeness auto
termination
  by (relation "measure (\<lambda>(s, a, ord). MAX_ORDER + 1 - ord)") auto

definition buddy_free ::
    "BuddyPageAllocator \<Rightarrow> nat \<Rightarrow> nat \<Rightarrow> BuddyPageAllocator panics" where
  "buddy_free s addr order = do {
     width \<leftarrow> shl64 1 order;
     total \<leftarrow> sub64 (allocated_pages s) width;
     free_loop (s\<lparr>allocated_pages := total\<rparr>) addr order
   }"

definition get_allocated_page_count :: "BuddyPageAllocator \<Rightarrow> nat" where
  "get_allocated_page_count s = allocated_pages s"

definition get_page_count :: "BuddyPageAllocator \<Rightarrow> nat" where
  "get_page_count s = page_count s"

definition get_free_page_count :: "BuddyPageAllocator \<Rightarrow> nat panics" where
  "get_free_page_count s = sub64 (page_count s) (allocated_pages s)"

definition get_base_addr :: "BuddyPageAllocator \<Rightarrow> nat" where
  "get_base_addr s = base_addr s"

declare find_free_order.simps [simp del] split_loop.simps [simp del] free_loop.simps [simp del]

section \<open>Free lists in the heap\<close>

primrec flist :: "(nat \<Rightarrow> FreeBlock) \<Rightarrow> nat \<Rightarrow> nat option \<Rightarrow> nat list \<Rightarrow> bool" where
  "flist m k p [] \<longleftrightarrow> p = None"
| "flist m k p (a # as) \<longleftrightarrow> p = Some a \<and> fb_order (m a) = k \<and> flist m k (fb_next (m a)) as"

definition heap_lists :: "BuddyPageAllocator \<Rightarrow> (nat \<Rightarrow> nat list) \<Rightarrow> bool" where
  "heap_lists s A \<longleftrightarrow> length (free_lists s) = MAX_ORDER + 1 \<and>
     (\<forall>k \<le> MAX_ORDER. flist (memory s) k (free_lists s ! k) (A k) \<and> distinct (A k) \<and> 0 \<notin> set (A k)) \<and>
     (\<forall>j \<le> MAX_ORDER. \<forall>k \<le> MAX_ORDER. j \<noteq> k \<longrightarrow> set (A j) \<inter> set (A k) = {})"

lemma flist_frame: "(\<And>a. a \<in> set as \<Longrightarrow> m' a = m a) \<Longrightarrow> flist m k p as \<Longrightarrow> flist m' k p as"
  by (induction as arbitrary: p) auto

lemma flist_upd: "b \<notin> set as \<Longrightarrow> flist (m(b := x)) k p as = flist m k p as"
  by (induction as arbitrary: p) auto

lemma heap_lists_memory:
  "heap_lists s A \<Longrightarrow> (\<And>k a. k \<le> MAX_ORDER \<Longrightarrow> a \<in> set (A k) \<Longrightarrow> m a = memory s a) \<Longrightarrow>
    heap_lists (s\<lparr>memory := m\<rparr>) A"
  unfolding heap_lists_def by (auto intro: flist_frame [of _ m "memory s"])

lemma heap_lists_cong:
  "free_lists s' = free_lists s \<Longrightarrow> memory s' = memory s \<Longrightarrow> heap_lists s' A = heap_lists s A"
  by (simp add: heap_lists_def)

lemma nonnull_new_Some [simp]: "a \<noteq> 0 \<Longrightarrow> nonnull_new a = Some a"
  by (simp add: nonnull_new_def)

lemma heap_lists_disjoint:
  "heap_lists s A \<Longrightarrow> j \<le> MAX_ORDER \<Longrightarrow> k \<le> MAX_ORDER \<Longrightarrow> j \<noteq> k \<Longrightarrow> x \<in> set (A j) \<Longrightarrow> x \<notin> set (A k)"
  unfolding heap_lists_def by blast

lemma heap_lists_update:
  assumes "heap_lists s A" "k \<le> MAX_ORDER" "length fl = length (free_lists s)"
    and "\<forall>j. j \<noteq> k \<longrightarrow> fl ! j = free_lists s ! j" "flist m k (fl ! k) as" "distinct as" "0 \<notin> set as"
    and new: "\<And>j x. j \<le> MAX_ORDER \<Longrightarrow> j \<noteq> k \<Longrightarrow> x \<in> set (A j) \<Longrightarrow> x \<notin> set as \<and> m x = memory s x"
  shows "heap_lists (s\<lparr>memory := m, free_lists := fl\<rparr>) (A(k := as))"
proof -
  have "flist m j (free_lists s ! j) (A j)" if "j \<le> MAX_ORDER" "j \<noteq> k" for j
    using assms(1) that new by (intro flist_frame [of "A j" m "memory s"]) (auto simp: heap_lists_def)
  then show ?thesis using assms unfolding heap_lists_def by auto
qed

lemma add_free_block_heap:
  assumes "heap_lists s A" "k \<le> MAX_ORDER" "a \<noteq> 0" "\<forall>j \<le> MAX_ORDER. a \<notin> set (A j)"
    and "base_addr s \<le> a" "(a - base_addr s) mod (PAGE_SIZE * 2 ^ k) = 0"
  shows "\<exists>m fl. add_free_block s a k = Some (s\<lparr>memory := m, free_lists := fl\<rparr>) \<and>
      (\<forall>x. x \<noteq> a \<longrightarrow> m x = memory s x) \<and>
      heap_lists (s\<lparr>memory := m, free_lists := fl\<rparr>) (A(k := a # A k))"
proof -
  have k: "k < 64" "k < length (free_lists s)" and w: "PAGE_SIZE * 2 ^ k < 2 ^ 64"
  proof -
    have "(2::nat) ^ k \<le> 2 ^ 28" using assms(2) by (intro power_increasing) (simp_all add: MAX_ORDER_def)
    then show "PAGE_SIZE * 2 ^ k < 2 ^ 64" by (simp add: PAGE_SIZE_def)
  qed (use assms in \<open>auto simp: MAX_ORDER_def heap_lists_def\<close>)
  let ?m = "(memory s)(a := \<lparr>fb_next = free_lists s ! k, fb_order = k\<rparr>)"
  let ?fl = "(free_lists s)[k := Some a]"
  have "add_free_block s a k = Some (s\<lparr>memory := ?m, free_lists := ?fl\<rparr>)"
    using assms k w by (simp add: add_free_block_def checked_simps)
  moreover have "heap_lists (s\<lparr>memory := ?m, free_lists := ?fl\<rparr>) (A(k := a # A k))"
    using assms k by (auto simp: heap_lists_def flist_upd nth_list_update)
  ultimately show ?thesis by fastforce
qed

lemma consume_heap_Nil:
  assumes "heap_lists s A" "k \<le> MAX_ORDER" "A k = []"
  shows "consume s k = Some (None, s)"
  using assms by (auto simp: consume_def heap_lists_def list_get_def)

lemma consume_heap_Cons:
  assumes "heap_lists s A" "k \<le> MAX_ORDER" "A k = a # as"
  shows "\<exists>fl. consume s k = Some (Some a, s\<lparr>free_lists := fl\<rparr>) \<and>
      heap_lists (s\<lparr>free_lists := fl\<rparr>) (A(k := as))"
proof -
  let ?fl = "(free_lists s)[k := fb_next (memory s a)]"
  have f: "flist (memory s) k (free_lists s ! k) (a # as)"
    using assms by (metis heap_lists_def)
  then have "consume s k = Some (Some a, s\<lparr>free_lists := ?fl\<rparr>)"
    using assms by (auto simp: consume_def heap_lists_def list_get_def)
  moreover have "heap_lists (s\<lparr>memory := memory s, free_lists := ?fl\<rparr>) (A(k := as))"
  proof (rule heap_lists_update [OF assms(1,2)])
    show "flist (memory s) k (?fl ! k) as" "distinct as" "0 \<notin> set as"
      using assms f by (auto simp: heap_lists_def dest: spec [of _ k])
    show "x \<notin> set as \<and> memory s x = memory s x" if "j \<le> MAX_ORDER" "j \<noteq> k" "x \<in> set (A j)" for j x
      using heap_lists_disjoint [OF assms(1) that(1) assms(2) that(2,3)] assms(3) by simp
  qed simp_all
  ultimately show ?thesis by auto
qed

lemma remove_walk_heap:
  "flist (memory s) k (Some p) (p # as) \<Longrightarrow> distinct (p # as) \<Longrightarrow> a \<noteq> p \<Longrightarrow>
   \<exists>m. remove_walk s p a = Some (a \<in> set as, s\<lparr>memory := m\<rparr>) \<and>
       (\<forall>x. x \<notin> set (p # as) \<longrightarrow> m x = memory s x) \<and>
       (\<forall>x. fb_order (m x) = fb_order (memory s x)) \<and>
       flist m k (Some p) (p # remove1 a as)"
proof (induction as arbitrary: p)
  case Nil
  then show ?case
    by (subst remove_walk.simps) (auto intro: exI [of _ "memory s"])
next
  case (Cons b as)
  show ?case
  proof (cases "b = a")
    case True
    define m where "m = (memory s)(b := (memory s b)\<lparr>fb_next := None\<rparr>,
                   p := (memory s p)\<lparr>fb_next := fb_next (memory s b)\<rparr>)"
    have "remove_walk s p a = Some (True, s\<lparr>memory := m\<rparr>)"
      using Cons.prems True by (subst remove_walk.simps) (auto simp: m_def)
    moreover have "flist m k (Some p) (p # as)"
      using Cons.prems True by (auto simp: flist_upd m_def)
    moreover have "\<forall>x. x \<notin> set (p # b # as) \<longrightarrow> m x = memory s x"
      and "\<forall>x. fb_order (m x) = fb_order (memory s x)" by (simp_all add: m_def)
    ultimately show ?thesis using True by (intro exI [of _ m]) simp
  next
    case False
    obtain m where m: "remove_walk s b a = Some (a \<in> set as, s\<lparr>memory := m\<rparr>)"
       "\<forall>x. x \<notin> set (b # as) \<longrightarrow> m x = memory s x" "\<forall>x. fb_order (m x) = fb_order (memory s x)"
       "flist m k (Some b) (b # remove1 a as)"
      using Cons.IH [of b] Cons.prems False by auto
    have "remove_walk s p a = remove_walk s b a"
      using Cons.prems False by (subst remove_walk.simps) auto
    moreover have "m p = memory s p" using m(2) Cons.prems by auto
    ultimately show ?thesis using m False Cons.prems by (intro exI [of _ m]) auto
  qed
qed

lemma remove_free_block_heap:
  assumes A: "heap_lists s A" and k: "k \<le> MAX_ORDER"
  shows "\<exists>m fl. remove_free_block s a k = Some (a \<in> set (A k), s\<lparr>memory := m, free_lists := fl\<rparr>) \<and>
      (\<forall>x. x \<notin> set (A k) \<longrightarrow> m x = memory s x) \<and>
      heap_lists (s\<lparr>memory := m, free_lists := fl\<rparr>) (A(k := remove1 a (A k)))"
proof -
  have len: "k < length (free_lists s)" and f: "flist (memory s) k (free_lists s ! k) (A k)"
    and d: "distinct (A k)" using A k by (auto simp: heap_lists_def)
  have upd: "heap_lists (s\<lparr>memory := m, free_lists := fl\<rparr>) (A(k := remove1 a (A k)))"
    if "\<forall>x. x \<notin> set (A k) \<longrightarrow> m x = memory s x" "flist m k (fl ! k) (remove1 a (A k))"
      "length fl = length (free_lists s)" "\<forall>j. j \<noteq> k \<longrightarrow> fl ! j = free_lists s ! j" for m fl
  proof (rule heap_lists_update [OF A k that(3,4,2)])
    have sub: "set (remove1 a (A k)) \<subseteq> set (A k)" by (rule set_remove1_subset)
    show "distinct (remove1 a (A k))" using d by simp
    show "0 \<notin> set (remove1 a (A k))" using sub A k by (auto simp: heap_lists_def)
    show "x \<notin> set (remove1 a (A k)) \<and> m x = memory s x"
      if "j \<le> MAX_ORDER" "j \<noteq> k" "x \<in> set (A j)" for j x
      using heap_lists_disjoint [OF A that(1) k that(2,3)] sub \<open>\<forall>x. _ \<longrightarrow> m x = _\<close> by blast
  qed
  show ?thesis
  proof (cases "A k")
    case Nil
    then have "remove_free_block s a k = Some (False, s\<lparr>memory := memory s, free_lists := free_lists s\<rparr>)"
      using f len by (simp add: remove_free_block_def list_get_def)
    then show ?thesis using upd [of "memory s" "free_lists s"] f Nil
      by (intro exI [of _ "memory s"] exI [of _ "free_lists s"]) simp
  next
    case (Cons b as)
    show ?thesis
    proof (cases "b = a")
      case True
      let ?m = "(memory s)(b := (memory s b)\<lparr>fb_next := None\<rparr>)"
      let ?fl = "(free_lists s)[k := fb_next (memory s b)]"
      have "remove_free_block s a k = Some (True, s\<lparr>memory := ?m, free_lists := ?fl\<rparr>)"
        using f len Cons True by (simp add: remove_free_block_def list_get_def)
      moreover have "heap_lists (s\<lparr>memory := ?m, free_lists := ?fl\<rparr>) (A(k := remove1 a (A k)))"
        using f d Cons True len by (intro upd) (auto simp: flist_upd)
      ultimately show ?thesis using Cons True by (intro exI [of _ ?m] exI [of _ ?fl]) simp
    next
      case False
      obtain m where m: "remove_walk s b a = Some (a \<in> set as, s\<lparr>memory := m\<rparr>)"
        "\<forall>x. x \<notin> set (b # as) \<longrightarrow> m x = memory s x" "flist m k (Some b) (b # remove1 a as)"
        using remove_walk_heap [of s k b as a] f d Cons False by auto
      have "remove_free_block s a k =
          Some (a \<in> set (A k), s\<lparr>memory := m, free_lists := free_lists s\<rparr>)"
        using m f len Cons False by (auto simp: remove_free_block_def list_get_def)
      moreover have "heap_lists (s\<lparr>memory := m, free_lists := free_lists s\<rparr>) (A(k := remove1 a (A k)))"
        using m f Cons False by (intro upd) auto
      ultimately show ?thesis using m(2) Cons by (intro exI [of _ m] exI [of _ "free_lists s"]) simp
    qed
  qed
qed

end
