(* ===== verification/Buddy_Tiling.thy ===== *)
theory Buddy_Tiling
  imports Buddy
begin

text \<open>
  The abstract view of the buddy allocator of \<^theory_text>\<open>Buddy\<close> and the proof that every
  operation preserves it. A block is a pair \<open>(q, k)\<close>: the \<open>q\<close>-th aligned run of
  \<open>2 ^ k\<close> pages. The free blocks (the contents of the heap lists) and the blocks handed
  out tile the managed pages exactly; splitting a block and merging two buddies keep the tiling,
  and no two free buddies are ever left side by side.
\<close>

section \<open>Blocks and tilings\<close>

type_synonym block = "nat \<times> nat"

definition covers :: "block \<Rightarrow> nat \<Rightarrow> bool" where
  "covers b p \<longleftrightarrow> p div 2 ^ snd b = fst b"

definition tiling :: "nat \<Rightarrow> block set \<Rightarrow> bool" where
  "tiling M B \<longleftrightarrow> (\<forall>b \<in> B. snd b \<le> MAX_ORDER \<and> (fst b + 1) * 2 ^ snd b \<le> M) \<and>
     (\<forall>p < M. \<exists>b \<in> B. covers b p) \<and>
     (\<forall>b \<in> B. \<forall>c \<in> B. \<forall>p. covers b p \<and> covers c p \<longrightarrow> b = c)"

lemma covers_iff: "covers (q, k) p \<longleftrightarrow> q * 2 ^ k \<le> p \<and> p < (q + 1) * 2 ^ k"
proof -
  have "p div 2 ^ k = q \<longleftrightarrow> q \<le> p div 2 ^ k \<and> p div 2 ^ k < q + 1" by auto
  then show ?thesis
    by (simp add: covers_def less_eq_div_iff_mult_less_eq div_less_iff_less_mult del: Suc_eq_plus1)
qed

lemma covers_first: "covers (q, k) (q * 2 ^ k)"
  by (simp add: covers_def)

lemma covers_split: "covers (q, Suc k) p \<longleftrightarrow> covers (2 * q, k) p \<or> covers (2 * q + 1, k) p"
proof -
  have "p div 2 ^ Suc k = (p div 2 ^ k) div 2" using div_mult2_eq [of p "2 ^ k" 2] by (simp add: mult.commute)
  then show ?thesis unfolding covers_def by auto
qed

lemma covers_halves_disjoint: "\<not> (covers (2 * q, k) p \<and> covers (Suc (2 * q), k) p)"
  by (auto simp: covers_def)

lemma tiling_unique: "tiling M B \<Longrightarrow> b \<in> B \<Longrightarrow> c \<in> B \<Longrightarrow> covers b p \<Longrightarrow> covers c p \<Longrightarrow> b = c"
  unfolding tiling_def by blast

lemma tiling_bound: "tiling M B \<Longrightarrow> (q, k) \<in> B \<Longrightarrow> k \<le> MAX_ORDER \<and> (q + 1) * 2 ^ k \<le> M"
  unfolding tiling_def by fastforce

lemma tiling_split:
  assumes "tiling M (insert (q, Suc k) B)" "(q, Suc k) \<notin> B"
  shows "tiling M (insert (2 * q, k) (insert (2 * q + 1, k) B))"
    and "(2 * q, k) \<notin> B" and "(2 * q + 1, k) \<notin> B"
proof -
  let ?b = "(q, Suc k)"
  have hit: "c = ?b" if "c \<in> insert ?b B" "covers c p" "covers (2 * q, k) p \<or> covers (2 * q + 1, k) p" for c p
    using tiling_unique [OF assms(1) that(1), of ?b p] that covers_split by blast
  show n1: "(2 * q, k) \<notin> B" using hit [of "(2 * q, k)" "2 * q * 2 ^ k"] covers_first [of "2 * q" k] by auto
  show n2: "(2 * q + 1, k) \<notin> B" using hit [of "(2 * q + 1, k)" "(2 * q + 1) * 2 ^ k"] covers_first [of "2 * q + 1" k] by auto
  have b: "Suc k \<le> MAX_ORDER" "(q + 1) * 2 ^ Suc k \<le> M" using tiling_bound [OF assms(1), of q "Suc k"] by auto
  have "\<forall>c \<in> insert (2 * q, k) (insert (2 * q + 1, k) B). snd c \<le> MAX_ORDER \<and> (fst c + 1) * 2 ^ snd c \<le> M"
    using assms(1) b unfolding tiling_def by (auto simp: algebra_simps)
  moreover have "\<forall>p < M. \<exists>c \<in> insert (2 * q, k) (insert (2 * q + 1, k) B). covers c p"
    using assms(1) covers_split [of q k] unfolding tiling_def by (metis insert_iff)
  moreover have "c = d" if "c \<in> insert (2 * q, k) (insert (2 * q + 1, k) B)"
    "d \<in> insert (2 * q, k) (insert (2 * q + 1, k) B)" "covers c p" "covers d p" for c d p
    using that hit [of c p] hit [of d p] assms(2) covers_halves_disjoint [of q k p]
      tiling_unique [OF assms(1), of c d p] by auto
  ultimately show "tiling M (insert (2 * q, k) (insert (2 * q + 1, k) B))" unfolding tiling_def by blast
qed

lemma tiling_merge:
  assumes "tiling M (insert (2 * q, k) (insert (2 * q + 1, k) B))" "k < MAX_ORDER"
    and "(2 * q, k) \<notin> B" "(2 * q + 1, k) \<notin> B"
  shows "tiling M (insert (q, Suc k) B)" and "(q, Suc k) \<notin> B"
proof -
  have hit: "c \<notin> B" if "covers c p" "covers (q, Suc k) p" for c p
    using tiling_unique [OF assms(1), of c _ p] that assms(3,4) covers_split [of q k p] by blast
  show "(q, Suc k) \<notin> B" using hit covers_first by blast
  have "(q + 1) * 2 ^ Suc k \<le> M" using tiling_bound [OF assms(1), of "2 * q + 1" k] by (simp add: algebra_simps)
  then have "\<forall>c \<in> insert (q, Suc k) B. snd c \<le> MAX_ORDER \<and> (fst c + 1) * 2 ^ snd c \<le> M"
    using assms(1,2) unfolding tiling_def by auto
  moreover have "\<forall>p < M. \<exists>c \<in> insert (q, Suc k) B. covers c p"
    using assms(1) covers_split [of q k] unfolding tiling_def by (metis insert_iff)
  moreover have "c = d" if "c \<in> insert (q, Suc k) B" "d \<in> insert (q, Suc k) B" "covers c p" "covers d p" for c d p
    using that hit [of c p] hit [of d p] tiling_unique [OF assms(1), of c d p] by auto
  ultimately show "tiling M (insert (q, Suc k) B)" unfolding tiling_def by blast
qed

section \<open>The allocator against its tiling\<close>

definition baddr :: "BuddyPageAllocator \<Rightarrow> nat \<Rightarrow> nat \<Rightarrow> nat" where
  "baddr s k q = base_addr s + PAGE_SIZE * (q * 2 ^ k)"

definition managed :: "BuddyPageAllocator \<Rightarrow> nat" where
  "managed s = min (page_count s) (2 ^ (MAX_ORDER + 1) - 1)"

definition FB :: "(nat \<Rightarrow> nat list) \<Rightarrow> block set" where
  "FB L = {(q, k). k \<le> MAX_ORDER \<and> q \<in> set (L k)}"

definition layout_ok :: "BuddyPageAllocator \<Rightarrow> bool" where
  "layout_ok s \<longleftrightarrow> 0 < base_addr s \<and> base_addr s mod PAGE_SIZE = 0 \<and> base_addr s + page_count s * PAGE_SIZE < 2 ^ 64"

definition buddy_ok :: "BuddyPageAllocator \<Rightarrow> (nat \<Rightarrow> nat list) \<Rightarrow> block set \<Rightarrow> bool" where
  "buddy_ok s L U \<longleftrightarrow> layout_ok s \<and> heap_lists s (\<lambda>k. map (baddr s k) (L k)) \<and>
     tiling (managed s) (FB L \<union> U) \<and> FB L \<inter> U = {}"

definition in_block :: "BuddyPageAllocator \<Rightarrow> block \<Rightarrow> nat \<Rightarrow> bool" where
  "in_block s b x \<longleftrightarrow> base_addr s \<le> x \<and> covers b ((x - base_addr s) div PAGE_SIZE)"

definition keeps :: "BuddyPageAllocator \<Rightarrow> block set \<Rightarrow> BuddyPageAllocator \<Rightarrow> bool" where
  "keeps s U s' \<longleftrightarrow> base_addr s' = base_addr s \<and> page_count s' = page_count s \<and>
     allocated_pages s' = allocated_pages s \<and>
     (\<forall>b \<in> U. \<forall>x. in_block s b x \<longrightarrow> memory s' x = memory s x)"

lemma keeps_refl [simp]: "keeps s U s"
  by (simp add: keeps_def)

lemma keeps_mono: "keeps s V s' \<Longrightarrow> U \<subseteq> V \<Longrightarrow> keeps s U s'"
  unfolding keeps_def by blast

lemma keeps_trans: "keeps s U s' \<Longrightarrow> keeps s' U s'' \<Longrightarrow> keeps s U s''"
  unfolding keeps_def in_block_def by auto

lemma in_block_baddr: "in_block s (q, k) (baddr s k q)"
  by (simp add: in_block_def baddr_def covers_def PAGE_SIZE_def)

lemma in_block_baddr_iff: "in_block s b (baddr s k q) \<longleftrightarrow> covers b (q * 2 ^ k)"
  by (simp add: in_block_def baddr_def PAGE_SIZE_def)

lemma baddr_inj: "baddr s k q = baddr s k q' \<longleftrightarrow> q = q'"
  by (simp add: baddr_def PAGE_SIZE_def)

lemma baddr_inj_on [simp]: "inj_on (baddr s k) S"
  by (simp add: inj_on_def baddr_inj)

lemma baddr_nonzero: "layout_ok s \<Longrightarrow> 0 < baddr s k q"
  by (simp add: layout_ok_def baddr_def)

lemma FB_iff: "(q, k) \<in> FB L \<longleftrightarrow> k \<le> MAX_ORDER \<and> q \<in> set (L k)"
  by (simp add: FB_def)

lemma FB_upd: "k \<le> MAX_ORDER \<Longrightarrow>
    FB (L(k := qs)) = {b \<in> FB L. snd b \<noteq> k} \<union> (\<lambda>q. (q, k)) ` set qs"
  by (auto simp: FB_def split: if_splits)

lemma remove1_map_inj: "inj f \<Longrightarrow> remove1 (f x) (map f xs) = map f (remove1 x xs)"
  by (induction xs) (auto simp: inj_eq)

lemma map_baddr_upd:
  "(\<lambda>j. map (baddr s j) ((L(k := qs)) j)) = (\<lambda>j. map (baddr s j) (L j))(k := map (baddr s k) qs)"
  by auto

lemma baddr_block_eq:
  assumes "tiling M B" "(q, k) \<in> B" "(q', k') \<in> B" "baddr s k q = baddr s k' q'"
  shows "q = q' \<and> k = k'"
proof -
  have "q * 2 ^ k = q' * 2 ^ k'" using assms(4) by (simp add: baddr_def PAGE_SIZE_def)
  then have "covers (q', k') (q * 2 ^ k)" using covers_first by metis
  then show ?thesis using tiling_unique [OF assms(1-3) covers_first] by simp
qed

lemma buddy_ok_distinct: "buddy_ok s L U \<Longrightarrow> k \<le> MAX_ORDER \<Longrightarrow> distinct (L k)"
  unfolding buddy_ok_def heap_lists_def by (meson distinct_map)

lemma keeps_intro:
  assumes "tiling M B" "U \<subseteq> B" "\<And>x. memory s' x \<noteq> memory s x \<Longrightarrow> \<exists>q k. (q, k) \<in> B - U \<and> x = baddr s k q"
    and "base_addr s' = base_addr s" "page_count s' = page_count s" "allocated_pages s' = allocated_pages s"
  shows "keeps s U s'"
proof -
  have "memory s' x = memory s x" if b: "b \<in> U" "in_block s b x" for b x
  proof (rule ccontr)
    assume "memory s' x \<noteq> memory s x"
    then obtain q k where q: "(q, k) \<in> B - U" "x = baddr s k q" using assms(3) by blast
    then have "covers b (q * 2 ^ k)" using b(2) in_block_baddr_iff by simp
    then have "b = (q, k)" using tiling_unique [OF assms(1) _ _ _ covers_first, of b q k] q b(1) assms(2) by blast
    then show False using q b by simp
  qed
  then show ?thesis using assms(4-6) by (simp add: keeps_def)
qed

lemma add_free_block_ok:
  assumes ok: "buddy_ok s L (insert (q, k) U)" and "(q, k) \<notin> U"
  shows "\<exists>s'. add_free_block s (baddr s k q) k = Some s' \<and> buddy_ok s' (L(k := q # L k)) U \<and> keeps s U s'"
proof -
  let ?a = "baddr s k q"
  have tl: "tiling (managed s) (FB L \<union> insert (q, k) U)" and H: "heap_lists s (\<lambda>k. map (baddr s k) (L k))"
    and lay: "layout_ok s" and dj: "FB L \<inter> insert (q, k) U = {}" using ok by (auto simp: buddy_ok_def)
  have k: "k \<le> MAX_ORDER" using tiling_bound [OF tl, of q k] by simp
  have fresh: "\<forall>j \<le> MAX_ORDER. ?a \<notin> set (map (baddr s j) (L j))"
  proof (intro allI impI notI)
    fix j assume j: "j \<le> MAX_ORDER" "?a \<in> set (map (baddr s j) (L j))"
    then obtain q' where q': "q' \<in> set (L j)" "?a = baddr s j q'" by auto
    then have "(q', j) \<in> FB L" using j by (simp add: FB_iff)
    then show False using baddr_block_eq [OF tl, of q k q' j s] q' dj by auto
  qed
  have al: "base_addr s \<le> ?a" "(?a - base_addr s) mod (PAGE_SIZE * 2 ^ k) = 0"
    by (simp_all add: baddr_def)
  obtain m fl where m: "add_free_block s ?a k = Some (s\<lparr>memory := m, free_lists := fl\<rparr>)"
      "\<forall>x. x \<noteq> ?a \<longrightarrow> m x = memory s x"
      "heap_lists (s\<lparr>memory := m, free_lists := fl\<rparr>) ((\<lambda>k. map (baddr s k) (L k))(k := ?a # map (baddr s k) (L k)))"
    using add_free_block_heap [OF H k _ fresh al] baddr_nonzero [OF lay] by blast
  let ?s = "s\<lparr>memory := m, free_lists := fl\<rparr>"
  have [simp]: "baddr ?s = baddr s" "managed ?s = managed s" "layout_ok ?s = layout_ok s"
    by (auto simp: baddr_def managed_def layout_ok_def fun_eq_iff)
  have F: "FB (L(k := q # L k)) = insert (q, k) (FB L)" using k by (auto simp: FB_def)
  have "buddy_ok ?s (L(k := q # L k)) U"
    using m(3) tl lay dj assms(2) F unfolding buddy_ok_def map_baddr_upd by auto
  moreover have "keeps s U ?s"
    using m(2) assms(2) by (intro keeps_intro [OF tl, of U]) auto
  ultimately show ?thesis using m(1) by blast
qed

lemma consume_ok:
  assumes ok: "buddy_ok s L U" and k: "k \<le> MAX_ORDER" and L: "L k = q # qs"
  shows "\<exists>s'. consume s k = Some (Some (baddr s k q), s') \<and>
      buddy_ok s' (L(k := qs)) (insert (q, k) U) \<and> (q, k) \<notin> U \<and> memory s' = memory s \<and> keeps s UNIV s'"
proof -
  have tl: "tiling (managed s) (FB L \<union> U)" and H: "heap_lists s (\<lambda>k. map (baddr s k) (L k))"
    and lay: "layout_ok s" and dj: "FB L \<inter> U = {}" using ok by (auto simp: buddy_ok_def)
  have d: "q \<notin> set qs" using buddy_ok_distinct [OF ok k] L by simp
  obtain fl where m: "consume s k = Some (Some (baddr s k q), s\<lparr>free_lists := fl\<rparr>)"
      "heap_lists (s\<lparr>free_lists := fl\<rparr>) ((\<lambda>k. map (baddr s k) (L k))(k := map (baddr s k) qs))"
    using consume_heap_Cons [OF H k, of "baddr s k q" "map (baddr s k) qs"] L by auto
  let ?s = "s\<lparr>free_lists := fl\<rparr>"
  have [simp]: "baddr ?s = baddr s" "managed ?s = managed s" "layout_ok ?s = layout_ok s"
    by (auto simp: baddr_def managed_def layout_ok_def fun_eq_iff)
  have F: "FB L = insert (q, k) (FB (L(k := qs)))" "(q, k) \<notin> FB (L(k := qs))"
    using k L d by (auto simp: FB_def split: if_splits)
  then have "buddy_ok ?s (L(k := qs)) (insert (q, k) U)" "(q, k) \<notin> U"
    using m(2) tl lay dj unfolding buddy_ok_def map_baddr_upd by auto
  then show ?thesis using m(1) by (auto simp: keeps_def)
qed

lemma remove_free_block_ok:
  assumes ok: "buddy_ok s L U" and k: "k \<le> MAX_ORDER"
  shows "\<exists>s'. remove_free_block s (baddr s k q) k = Some (q \<in> set (L k), s') \<and> keeps s U s' \<and>
      buddy_ok s' (L(k := remove1 q (L k))) (if q \<in> set (L k) then insert (q, k) U else U) \<and>
      (q \<in> set (L k) \<longrightarrow> (q, k) \<notin> U)"
proof -
  have tl: "tiling (managed s) (FB L \<union> U)" and H: "heap_lists s (\<lambda>k. map (baddr s k) (L k))"
    and lay: "layout_ok s" and dj: "FB L \<inter> U = {}" using ok by (auto simp: buddy_ok_def)
  have mem: "baddr s k q \<in> set (map (baddr s k) (L k)) \<longleftrightarrow> q \<in> set (L k)" by (auto simp: baddr_inj)
  have rem: "remove1 (baddr s k q) (map (baddr s k) (L k)) = map (baddr s k) (remove1 q (L k))"
    by (rule remove1_map_inj) simp
  obtain m fl where m: "remove_free_block s (baddr s k q) k = Some (q \<in> set (L k), s\<lparr>memory := m, free_lists := fl\<rparr>)"
      "\<forall>x. x \<notin> set (map (baddr s k) (L k)) \<longrightarrow> m x = memory s x"
      "heap_lists (s\<lparr>memory := m, free_lists := fl\<rparr>)
         ((\<lambda>k. map (baddr s k) (L k))(k := map (baddr s k) (remove1 q (L k))))"
    using remove_free_block_heap [OF H k, of "baddr s k q"] unfolding mem rem by blast
  let ?s = "s\<lparr>memory := m, free_lists := fl\<rparr>"
  have [simp]: "baddr ?s = baddr s" "managed ?s = managed s" "layout_ok ?s = layout_ok s"
    by (auto simp: baddr_def managed_def layout_ok_def fun_eq_iff)
  have rs: "set (remove1 q (L k)) = set (L k) - {q}" using buddy_ok_distinct [OF ok k] by simp
  have F: "FB (L(k := remove1 q (L k))) = FB L - {(q, k)}"
    using k rs by (auto simp: FB_def split: if_splits)
  have F': "q \<in> set (L k) \<longleftrightarrow> (q, k) \<in> FB L" using k by (simp add: FB_iff)
  have un: "FB L - {(q, k)} \<union> (if (q, k) \<in> FB L then insert (q, k) U else U) = FB L \<union> U" by auto
  have "buddy_ok ?s (L(k := remove1 q (L k))) (if q \<in> set (L k) then insert (q, k) U else U)"
    using m(3) tl lay dj un unfolding buddy_ok_def map_baddr_upd F F' by auto
  moreover have "keeps s U ?s"
  proof (rule keeps_intro [OF tl])
    fix x assume "memory ?s x \<noteq> memory s x"
    then obtain q' where "q' \<in> set (L k)" "x = baddr s k q'" using m(2) by auto
    then show "\<exists>q k. (q, k) \<in> FB L \<union> U - U \<and> x = baddr s k q" using dj k by (auto simp: FB_def)
  qed auto
  moreover have "q \<in> set (L k) \<longrightarrow> (q, k) \<notin> U" using F' dj by blast
  ultimately show ?thesis using m(1) by blast
qed

lemma buddy_ok_split:
  assumes "buddy_ok s L (insert (q, Suc k) U)" "(q, Suc k) \<notin> U"
  shows "buddy_ok s L (insert (2 * q, k) (insert (2 * q + 1, k) U))"
    and "(2 * q, k) \<notin> U" and "(2 * q + 1, k) \<notin> U"
proof -
  have t: "tiling (managed s) (insert (q, Suc k) (FB L \<union> U))" and n: "(q, Suc k) \<notin> FB L \<union> U"
    using assms by (auto simp: buddy_ok_def)
  show "buddy_ok s L (insert (2 * q, k) (insert (2 * q + 1, k) U))"
    using assms(1) tiling_split [OF t n] by (auto simp: buddy_ok_def)
  show "(2 * q, k) \<notin> U" "(2 * q + 1, k) \<notin> U" using tiling_split [OF t n] by auto
qed

lemma buddy_ok_merge:
  assumes "buddy_ok s L (insert (2 * q, k) (insert (2 * q + 1, k) U))" "k < MAX_ORDER"
    and "(2 * q, k) \<notin> U" "(2 * q + 1, k) \<notin> U"
  shows "buddy_ok s L (insert (q, Suc k) U)" and "(q, Suc k) \<notin> U"
proof -
  have t: "tiling (managed s) (insert (2 * q, k) (insert (2 * q + 1, k) (FB L \<union> U)))"
    and n: "(2 * q, k) \<notin> FB L \<union> U" "(2 * q + 1, k) \<notin> FB L \<union> U"
    using assms by (auto simp: buddy_ok_def)
  show "buddy_ok s L (insert (q, Suc k) U)" "(q, Suc k) \<notin> U"
    using assms(1) tiling_merge [OF t assms(2) n] by (auto simp: buddy_ok_def)
qed

lemma baddr_keeps: "keeps s U s' \<Longrightarrow> baddr s' = baddr s"
  by (simp add: keeps_def baddr_def fun_eq_iff)

lemma pow2_order: "k \<le> MAX_ORDER \<Longrightarrow> (2::nat) ^ k \<le> 268435456"
  using power_increasing [of k 28 "2::nat"] by (simp add: MAX_ORDER_def)

lemma page_width: "k \<le> MAX_ORDER \<Longrightarrow> k < 64 \<and> PAGE_SIZE * 2 ^ k < 2 ^ 64"
  using pow2_order [of k] by (simp add: PAGE_SIZE_def MAX_ORDER_def)

lemma shl64_page [checked_simps]: "k \<le> MAX_ORDER \<Longrightarrow> shl64 PAGE_SIZE k = Some (PAGE_SIZE * 2 ^ k)"
  using page_width [of k] by (simp add: shl64_def)

lemma shl64_one [checked_simps]: "k \<le> MAX_ORDER \<Longrightarrow> shl64 1 k = Some (2 ^ k)"
  using pow2_order [of k] by (simp add: shl64_def MAX_ORDER_def)

lemma block_end_bound:
  assumes "buddy_ok s L U" "(q, k) \<in> FB L \<union> U"
  shows "baddr s k (q + 1) < 2 ^ 64"
proof -
  have "(q + 1) * 2 ^ k \<le> page_count s"
    using assms tiling_bound [of "managed s" "FB L \<union> U" q k] by (auto simp: buddy_ok_def managed_def)
  then have "PAGE_SIZE * ((q + 1) * 2 ^ k) \<le> page_count s * PAGE_SIZE"
    by (metis mult.commute mult_le_mono1)
  moreover have "base_addr s + page_count s * PAGE_SIZE < 2 ^ 64"
    using assms(1) by (simp add: buddy_ok_def layout_ok_def)
  ultimately show ?thesis unfolding baddr_def by linarith
qed

lemma split_step_ok:
  assumes ok: "buddy_ok s L U" and c: "Suc k \<le> MAX_ORDER" and L: "L (Suc k) = q # qs"
  shows "\<exists>s'. split_step s (Suc k) = Some s' \<and> keeps s U s' \<and>
      buddy_ok s' (L(Suc k := qs, k := 2 * q # (2 * q + 1) # L k)) U"
proof -
  obtain s1 where s1: "consume s (Suc k) = Some (Some (baddr s (Suc k) q), s1)"
      "buddy_ok s1 (L(Suc k := qs)) (insert (q, Suc k) U)" "(q, Suc k) \<notin> U" "keeps s UNIV s1"
    using consume_ok [OF ok c L] by blast
  note sp = buddy_ok_split [OF s1(2,3)]
  have sp1: "buddy_ok s1 (L(Suc k := qs)) (insert (2 * q + 1, k) (insert (2 * q, k) U))"
    using sp(1) by (simp add: insert_commute)
  have ba: "baddr s1 = baddr s" using baddr_keeps [OF s1(4)] .
  obtain s2 where s2: "add_free_block s1 (baddr s k (2 * q + 1)) k = Some s2"
      "buddy_ok s2 (L(Suc k := qs, k := (2 * q + 1) # L k)) (insert (2 * q, k) U)"
      "keeps s1 (insert (2 * q, k) U) s2"
    using add_free_block_ok [OF sp1] sp(3) unfolding ba by fastforce
  have ba2: "baddr s2 = baddr s" using baddr_keeps [OF s2(3)] ba by simp
  obtain s3 where s3: "add_free_block s2 (baddr s k (2 * q)) k = Some s3"
      "buddy_ok s3 (L(Suc k := qs, k := 2 * q # (2 * q + 1) # L k)) U" "keeps s2 U s3"
    using add_free_block_ok [OF s2(2) sp(2)] unfolding ba2 by fastforce
  have "baddr s1 k (2 * q + 1 + 1) < 2 ^ 64"
    using block_end_bound [OF sp(1), of "2 * q + 1" k] by simp
  then have b2: "add64 (baddr s (Suc k) q) (PAGE_SIZE * 2 ^ k) = Some (baddr s k (2 * q + 1))"
    and b1: "baddr s (Suc k) q = baddr s k (2 * q)"
    unfolding ba by (auto simp: add64_def baddr_def algebra_simps)
  have "split_step s (Suc k) = Some s3"
    using s1(1) s2(1) s3(1) b1 b2 c by (simp add: split_step_def checked_simps)
  moreover have "keeps s U s3"
    by (rule keeps_trans [OF keeps_trans [OF keeps_mono [OF s1(4)] keeps_mono [OF s2(3)]] s3(3)]) auto
  ultimately show ?thesis using s3(2) by blast
qed

definition buddy_of :: "nat \<Rightarrow> nat" where
  "buddy_of q = (if even q then q + 1 else q - 1)"

definition coalesced :: "(nat \<Rightarrow> nat list) \<Rightarrow> bool" where
  "coalesced L \<longleftrightarrow> (\<forall>k \<le> MAX_ORDER. \<forall>q \<in> set (L k). buddy_of q \<notin> set (L k))"

lemma xor_page_block: "(PAGE_SIZE * (q * 2 ^ k)) XOR (PAGE_SIZE * 2 ^ k) = PAGE_SIZE * (buddy_of q * 2 ^ k)"
proof -
  have s: "PAGE_SIZE * (x * 2 ^ k) = push_bit (12 + k) x" for x
    by (simp add: push_bit_eq_mult PAGE_SIZE_def power_add)
  have "PAGE_SIZE * 2 ^ k = push_bit (12 + k) 1" using s [of 1] by simp
  moreover have "q XOR 1 = buddy_of q"
    using xor_Suc_0_eq [of q] by (auto simp: buddy_of_def of_bool_def elim: oddE evenE)
  ultimately show ?thesis unfolding s by (metis push_bit_xor)
qed

lemma buddy_of_pair: "{q, buddy_of q} = {2 * (q div 2), 2 * (q div 2) + 1}"
  by (cases "even q") (auto simp: buddy_of_def elim!: evenE oddE)

lemma buddy_of_cases:
  obtains "q = 2 * (q div 2)" "buddy_of q = 2 * (q div 2) + 1"
  | "q = 2 * (q div 2) + 1" "buddy_of q = 2 * (q div 2)"
  by (cases "even q") (auto simp: buddy_of_def elim!: evenE oddE)

lemma find_buddy_eq:
  "k \<le> MAX_ORDER \<Longrightarrow> find_buddy (PAGE_SIZE * (q * 2 ^ k)) k = Some (PAGE_SIZE * (buddy_of q * 2 ^ k))"
  by (simp add: find_buddy_def checked_simps xor_page_block)

lemma min_baddr: "min (baddr s k q) (baddr s k (buddy_of q)) = baddr s (Suc k) (q div 2)"
  by (rule buddy_of_cases [of q]) (auto simp: baddr_def algebra_simps)

lemma buddy_in_range:
  assumes "buddy_ok s L U" "(q, k) \<in> FB L \<union> U"
  shows "baddr s k (buddy_of q) < 2 ^ 64"
proof -
  have "buddy_of q \<le> q + 1" by (auto simp: buddy_of_def)
  then have "baddr s k (buddy_of q) \<le> baddr s k (q + 1)" unfolding baddr_def
    by (intro add_left_mono mult_le_mono2 mult_le_mono1)
  then show ?thesis using block_end_bound [OF assms] by simp
qed

lemma top_order_no_buddy:
  assumes "tiling (managed s) B" "(q, MAX_ORDER) \<in> B" "(buddy_of q, MAX_ORDER) \<in> B"
  shows False
proof -
  have "(q + 1) * 2 ^ MAX_ORDER \<le> managed s" "(buddy_of q + 1) * 2 ^ MAX_ORDER \<le> managed s"
    using tiling_bound [OF assms(1)] assms(2,3) by auto
  moreover have "1 \<le> q \<or> 1 \<le> buddy_of q" by (auto simp: buddy_of_def odd_pos Suc_leI)
  ultimately show False by (auto simp: managed_def MAX_ORDER_def)
qed

lemma free_loop_unfold:
  assumes "buddy_ok s L (insert (q, k) U)"
  shows "free_loop s (baddr s k q) k =
      (case remove_free_block s (baddr s k (buddy_of q)) k of None \<Rightarrow> None | Some (removed, s1) \<Rightarrow>
          (if \<not> removed then add_free_block s1 (baddr s k q) k
           else if k + 1 > MAX_ORDER then Some s1
           else free_loop s1 (baddr s (Suc k) (q div 2)) (k + 1)))"
proof -
  have "k \<le> MAX_ORDER" using assms tiling_bound by (fastforce simp: buddy_ok_def)
  moreover have "sub64 (baddr s k q) (base_addr s) = Some (PAGE_SIZE * (q * 2 ^ k))"
    by (simp add: sub64_def baddr_def)
  moreover have "add64 (PAGE_SIZE * (buddy_of q * 2 ^ k)) (base_addr s) = Some (baddr s k (buddy_of q))"
    using buddy_in_range [OF assms, of q k] by (simp add: add64_def baddr_def add.commute)
  ultimately show ?thesis
    by (subst free_loop.simps) (simp add: find_buddy_eq min_baddr split: option.splits)
qed

lemma buddy_ok_join:
  assumes "buddy_ok s L (insert (buddy_of q, k) (insert (q, k) U))" "k < MAX_ORDER"
    and "(buddy_of q, k) \<notin> insert (q, k) U" "(q, k) \<notin> U"
  shows "buddy_ok s L (insert (q div 2, Suc k) U)" and "(q div 2, Suc k) \<notin> U"
proof -
  have "insert (buddy_of q, k) (insert (q, k) U) =
      insert (2 * (q div 2), k) (insert (2 * (q div 2) + 1, k) U)"
    by (rule buddy_of_cases [of q]) (metis insert_commute)+
  moreover have "(2 * (q div 2), k) \<notin> U" "(2 * (q div 2) + 1, k) \<notin> U"
    using assms(3,4) by (metis buddy_of_cases insertCI)+
  ultimately show "buddy_ok s L (insert (q div 2, Suc k) U)" "(q div 2, Suc k) \<notin> U"
    using buddy_ok_merge [of s L "q div 2" k U] assms(1,2) by simp_all
qed

lemma buddy_of_invol [simp]: "buddy_of (buddy_of q) = q"
  by (auto simp: buddy_of_def odd_pos)

lemma buddy_of_neq [simp]: "buddy_of q \<noteq> q"
  by (auto simp: buddy_of_def dest: odd_pos)

lemma coalesced_Cons: "coalesced L \<Longrightarrow> buddy_of q \<notin> set (L k) \<Longrightarrow> coalesced (L(k := q # L k))"
  unfolding coalesced_def by (simp add: ball_Un) (metis buddy_of_invol)

lemma coalesced_subset:
  "coalesced L \<Longrightarrow> (\<And>k. set (L' k) \<subseteq> set (L k)) \<Longrightarrow> coalesced L'"
  unfolding coalesced_def by blast

lemma free_loop_ok:
  assumes "buddy_ok s L (insert (q, k) U)" "(q, k) \<notin> U" "coalesced L"
  shows "\<exists>s' L'. free_loop s (baddr s k q) k = Some s' \<and> buddy_ok s' L' U \<and> keeps s U s' \<and> coalesced L'"
  using assms
proof (induction "MAX_ORDER - k" arbitrary: s L q k rule: less_induct)
  case less
  note ok = less.prems(1)
  have tl: "tiling (managed s) (FB L \<union> insert (q, k) U)" using ok by (simp add: buddy_ok_def)
  then have k: "k \<le> MAX_ORDER" using tiling_bound [of _ _ q k] by simp
  let ?b = "buddy_of q"
  let ?L = "L(k := remove1 ?b (L k))"
  obtain s1 where s1: "remove_free_block s (baddr s k ?b) k = Some (?b \<in> set (L k), s1)"
      "keeps s (insert (q, k) U) s1"
      "buddy_ok s1 ?L (if ?b \<in> set (L k) then insert (?b, k) (insert (q, k) U) else insert (q, k) U)"
      "?b \<in> set (L k) \<longrightarrow> (?b, k) \<notin> insert (q, k) U"
    using remove_free_block_ok [OF ok k, of ?b] by blast
  have kU: "keeps s U s1" by (rule keeps_mono [OF s1(2)]) blast
  have ba: "baddr s1 = baddr s" using baddr_keeps [OF s1(2)] .
  show ?case
  proof (cases "?b \<in> set (L k)")
    case False
    then have L: "?L = L" by (simp add: remove1_idem)
    obtain s2 where s2: "add_free_block s1 (baddr s k q) k = Some s2" "buddy_ok s2 (L(k := q # L k)) U" "keeps s1 U s2"
      using add_free_block_ok [of s1 L q k U] s1(3) False less.prems(2) L ba by auto
    have "free_loop s (baddr s k q) k = Some s2"
      using free_loop_unfold [OF ok] s1(1) s2(1) False by simp
    then show ?thesis using s2(2) keeps_trans [OF kU s2(3)] coalesced_Cons [OF less.prems(3) False] by blast
  next
    case True
    have "(?b, k) \<in> FB L" using True k by (simp add: FB_iff)
    then have top: "k < MAX_ORDER" using top_order_no_buddy [OF tl, of q] k by (cases "k = MAX_ORDER") auto
    have s1': "buddy_ok s1 ?L (insert (?b, k) (insert (q, k) U))" using s1(3) True by simp
    note jn = buddy_ok_join [OF s1' top _ less.prems(2)]
    have co: "coalesced ?L" by (rule coalesced_subset [OF less.prems(3)]) (auto intro: subsetD [OF set_remove1_subset])
    have dec: "MAX_ORDER - Suc k < MAX_ORDER - k" using top by simp
    obtain s2 L2 where s2: "free_loop s1 (baddr s1 (Suc k) (q div 2)) (Suc k) = Some s2"
        "buddy_ok s2 L2 U" "keeps s1 U s2" "coalesced L2"
      using less.hyps [OF dec jn co] s1(4) True by blast
    then have "free_loop s (baddr s k q) k = Some s2"
      using free_loop_unfold [OF ok] s1(1) True top ba by simp
    then show ?thesis using s2 keeps_trans [OF kU s2(3)] by blast
  qed
qed

section \<open>Allocation\<close>

lemma required_order_loop_ok:
  assumes "t < n \<longrightarrow> t * 2 ^ d \<ge> n" "t * 2 ^ d < 2 ^ 64" "0 < t"
  shows "\<exists>k. required_order_loop n t ord = Some (ord + k) \<and> n \<le> t * 2 ^ k \<and> (\<forall>j < k. t * 2 ^ j < n)"
  using assms
proof (induction d arbitrary: t ord)
  case 0
  then show ?case by (subst required_order_loop.simps) (auto intro!: exI [of _ 0])
next
  case (Suc d)
  show ?case
  proof (cases "t < n")
    case False
    then show ?thesis by (subst required_order_loop.simps) (auto intro!: exI [of _ 0])
  next
    case True
    have "t * 2 * 1 \<le> t * 2 * 2 ^ d" by (intro mult_le_mono2) simp
    moreover have "t * 2 * 2 ^ d < 2 ^ 64" using Suc.prems(2) by (simp only: mult.assoc power_Suc)
    ultimately have "t * 2 < 2 ^ 64" by linarith
    then have t2: "mul64 t 2 = Some (t * 2)" by (simp add: mul64_def)
    obtain k where k: "required_order_loop n (t * 2) (ord + 1) = Some (ord + 1 + k)" "n \<le> t * 2 * 2 ^ k"
        "\<forall>j < k. t * 2 * 2 ^ j < n"
      using Suc.IH [of "t * 2" "ord + 1"] Suc.prems True by (auto simp: mult.assoc)
    have "t * 2 ^ j < n" if "j < Suc k" for j
      using that k(3) True by (cases j) (auto simp: mult.assoc)
    then show ?thesis using k True t2
      by (subst required_order_loop.simps) (auto intro!: exI [of _ "Suc k"] simp: mult.assoc)
  qed
qed

lemma required_order_ok:
  assumes "0 < n" "n \<le> 2 ^ 63"
  shows "\<exists>k. required_order n = Some k \<and> n \<le> 2 ^ k \<and> (\<forall>j < k. 2 ^ j < n)"
  using required_order_loop_ok [of 1 n 63 0] assms by (simp add: required_order_def)

lemma find_free_order_ok:
  assumes "heap_lists s A"
  shows "\<exists>c. find_free_order s k = Some c \<and> k \<le> c \<and> (\<forall>j. k \<le> j \<and> j < c \<longrightarrow> j \<le> MAX_ORDER \<and> A j = []) \<and>
      (c \<le> MAX_ORDER \<longrightarrow> A c \<noteq> [])"
proof (induction "MAX_ORDER + 1 - k" arbitrary: k rule: less_induct)
  case less
  show ?case
  proof (cases "k \<le> MAX_ORDER")
    case False
    then show ?thesis by (subst find_free_order.simps) auto
  next
    case True
    then have h: "list_get (free_lists s) k = Some (free_lists s ! k)" "flist (memory s) k (free_lists s ! k) (A k)"
      using assms by (auto simp: heap_lists_def list_get_def)
    show ?thesis
    proof (cases "A k")
      case Nil
      obtain c where c: "find_free_order s (k + 1) = Some c" "k + 1 \<le> c"
          "\<forall>j. k + 1 \<le> j \<and> j < c \<longrightarrow> j \<le> MAX_ORDER \<and> A j = []" "c \<le> MAX_ORDER \<longrightarrow> A c \<noteq> []"
        using less [of "k + 1", OF diff_less_mono2] True by auto
      have "\<forall>j. k \<le> j \<and> j < c \<longrightarrow> j \<le> MAX_ORDER \<and> A j = []"
        using c(3) Nil True by (metis Suc_eq_plus1 not_less_eq_eq order_antisym)
      then show ?thesis using c h Nil True by (subst find_free_order.simps) auto
    next
      case (Cons a as)
      then show ?thesis using h True by (subst find_free_order.simps) auto
    qed
  qed
qed

lemma coalesced_step:
  assumes "coalesced (L(c := qs))" "k < c"
  shows "coalesced (L(c := qs, k := [2 * q + 1]))"
  using assms unfolding coalesced_def by (auto simp: buddy_of_def)

lemma split_loop_ok:
  assumes "buddy_ok s L U" "k \<le> c" "c \<le> MAX_ORDER" "L c \<noteq> []"
    and "\<forall>j. k \<le> j \<and> j < c \<longrightarrow> L j = []" "coalesced (L(c := tl (L c)))"
  shows "\<exists>s' L'. split_loop s c k = Some s' \<and> buddy_ok s' L' U \<and> keeps s U s' \<and> L' k \<noteq> [] \<and>
      coalesced (L'(k := tl (L' k)))"
  using assms
proof (induction "c - k" arbitrary: s L c)
  case 0
  then have "split_loop s c k = Some s" "c = k" by (simp_all add: split_loop.simps)
  then show ?case using 0 by (intro exI [of _ s] exI [of _ L]) simp
next
  case (Suc x)
  then obtain c' where c': "c = Suc c'" "k \<le> c'" by (cases c) auto
  obtain q qs where q: "L c = q # qs" using Suc.prems(4) by (cases "L c") auto
  let ?L = "L(c := qs, c' := [2 * q, 2 * q + 1])"
  have e: "L c' = []" using Suc.prems(5) c' by simp
  obtain s1 where s1: "split_step s c = Some s1" "keeps s U s1" "buddy_ok s1 ?L U"
    using split_step_ok [OF Suc.prems(1), of c' q qs] Suc.prems(3) q c' e by auto
  have co: "coalesced (?L(c' := tl (?L c')))"
    using coalesced_step [of L c qs c' q] Suc.prems(6) q c' by simp
  obtain s2 L2 where s2: "split_loop s1 c' k = Some s2" "buddy_ok s2 L2 U" "keeps s1 U s2" "L2 k \<noteq> []"
      "coalesced (L2(k := tl (L2 k)))"
  proof -
    have "x = c' - k" "c' \<le> MAX_ORDER" "?L c' \<noteq> []" "\<forall>j. k \<le> j \<and> j < c' \<longrightarrow> ?L j = []"
      using Suc.hyps(2) Suc.prems(3,5) c' by auto
    then show ?thesis using Suc.hyps(1) [OF _ s1(3) c'(2) _ _ _ co] that by blast
  qed
  have "split_loop s c k = Some s2" using s1(1) s2(1) c' by (subst split_loop.simps) simp
  then show ?case using s2 keeps_trans [OF s1(2) s2(3)] by blast
qed

section \<open>Accounting\<close>

definition block_pages :: "block set \<Rightarrow> nat" where
  "block_pages B = (\<Sum>b \<in> B. 2 ^ snd b)"

lemma covers_set: "{p. covers (q, k) p} = {q * 2 ^ k ..< (q + 1) * 2 ^ k}"
  by (auto simp: covers_iff)

lemma card_covers: "card {p. covers b p} = 2 ^ snd b"
  by (cases b) (simp add: covers_set)

lemma tiling_finite: "tiling M B \<Longrightarrow> finite B"
proof -
  assume t: "tiling M B"
  have "b \<in> {..M} \<times> {..MAX_ORDER}" if b: "b \<in> B" for b
  proof -
    have "(fst b + 1) * 1 \<le> (fst b + 1) * 2 ^ snd b" by (intro mult_le_mono2) simp
    then show ?thesis using tiling_bound [OF t, of "fst b" "snd b"] b by (auto simp: mem_Times_iff)
  qed
  then show ?thesis by (meson finite_SigmaI finite_atMost finite_subset subsetI)
qed

lemma tiling_pages: "tiling M B \<Longrightarrow> block_pages B = M"
proof -
  assume t: "tiling M B"
  have "(\<Union>b \<in> B. {p. covers b p}) = {..<M}"
  proof
    show "(\<Union>b \<in> B. {p. covers b p}) \<subseteq> {..<M}"
      using tiling_bound [OF t] by (fastforce simp: covers_iff)
    show "{..<M} \<subseteq> (\<Union>b \<in> B. {p. covers b p})" using t by (auto simp: tiling_def)
  qed
  moreover have "card (\<Union>b \<in> B. {p. covers b p}) = (\<Sum>b \<in> B. card {p. covers b p})"
    using tiling_finite [OF t] tiling_unique [OF t]
    by (intro card_UN_disjoint) (auto simp: card_covers intro: card_ge_0_finite)
  ultimately show ?thesis by (simp add: card_covers block_pages_def)
qed

definition buddy_inv :: "BuddyPageAllocator \<Rightarrow> block set \<Rightarrow> bool" where
  "buddy_inv s U \<longleftrightarrow> (\<exists>L. buddy_ok s L U \<and> coalesced L) \<and> allocated_pages s = block_pages U"

lemma buddy_ok_finite: "buddy_ok s L U \<Longrightarrow> finite U"
  unfolding buddy_ok_def by (auto dest: tiling_finite)

lemma buddy_ok_accounts:
  assumes "buddy_ok s L U"
  shows "block_pages (FB L) + block_pages U = managed s"
  using assms tiling_pages [of "managed s" "FB L \<union> U"] tiling_finite [of "managed s" "FB L \<union> U"]
  by (simp add: buddy_ok_def block_pages_def sum.union_disjoint)

lemma buddy_ok_cong:
  "base_addr s' = base_addr s \<Longrightarrow> page_count s' = page_count s \<Longrightarrow> free_lists s' = free_lists s \<Longrightarrow>
   memory s' = memory s \<Longrightarrow> buddy_ok s' L U = buddy_ok s L U"
proof -
  assume *: "base_addr s' = base_addr s" "page_count s' = page_count s"
    and h: "free_lists s' = free_lists s" "memory s' = memory s"
  have "baddr s' = baddr s" by (simp add: baddr_def fun_eq_iff *)
  then show ?thesis
    unfolding buddy_ok_def heap_lists_cong [OF h] by (simp add: layout_ok_def managed_def *)
qed

lemma block_pages_insert: "finite U \<Longrightarrow> (q, k) \<notin> U \<Longrightarrow> block_pages (insert (q, k) U) = 2 ^ k + block_pages U"
  by (simp add: block_pages_def)

lemma block_pages_remove:
  "finite U \<Longrightarrow> (q, k) \<in> U \<Longrightarrow> block_pages (U - {(q, k)}) = block_pages U - 2 ^ k \<and> 2 ^ k \<le> block_pages U"
  using sum.remove [of U "(q, k)" "\<lambda>b. (2::nat) ^ snd b"] by (simp add: block_pages_def)

lemma div_pow_split: "j \<le> c \<Longrightarrow> (p::nat) div 2 ^ c = p div 2 ^ j div 2 ^ (c - j)"
  by (simp add: div_mult2_eq [symmetric] power_add [symmetric])

lemma covers_buddy_parent:
  assumes "covers (q, j) p" "covers (buddy_of q, j) p'" "j < c"
  shows "p div 2 ^ c = p' div 2 ^ c"
proof -
  have e: "x div 2 ^ c = x div 2 ^ j div 2 div 2 ^ (c - Suc j)" for x :: nat
    using div_pow_split [of j c x] div_pow_split [of 1 "c - j" "x div 2 ^ j"] assms(3) by (simp add: Suc_diff_Suc)
  have "buddy_of q div 2 = q div 2" by (rule buddy_of_cases [of q]) presburger+
  then show ?thesis using assms(1,2) e [of p] e [of p'] by (simp add: covers_def)
qed

lemma free_run_has_block:
  assumes t: "tiling M (FB L \<union> U)" and co: "coalesced L"
    and cov: "\<And>p. covers (q, k) p \<Longrightarrow> \<exists>b \<in> FB L. covers b p"
  shows "\<exists>c. k \<le> c \<and> c \<le> MAX_ORDER \<and> L c \<noteq> []"
proof (rule ccontr)
  assume none: "\<not> ?thesis"
  have small: "j < k" if "(x, j) \<in> FB L" for x j
    using none that by (metis FB_iff empty_iff list.set(1) not_less)
  let ?S = "\<lambda>j. \<exists>x p. (x, j) \<in> FB L \<and> covers (x, j) p \<and> covers (q, k) p"
  obtain j0 where "?S j0" using cov [OF covers_first] covers_first by (metis surj_pair)
  then obtain j where j: "?S j" "\<And>i. ?S i \<Longrightarrow> j \<le> i" using ex_has_least_nat [of ?S j0 id] by auto
  then obtain x p where x: "(x, j) \<in> FB L" "covers (x, j) p" "covers (q, k) p" by blast
  let ?p = "buddy_of x * 2 ^ j"
  have parent: "p div 2 ^ c = ?p div 2 ^ c" if "j < c" for c
    using covers_buddy_parent [OF x(2) covers_first that] .
  have p: "covers (q, k) ?p" using parent [OF small [OF x(1)]] x(3) by (simp add: covers_def)
  then obtain y i where y: "(y, i) \<in> FB L" "covers (y, i) ?p" using cov [OF p] by auto
  have "j \<le> i" using j(2) y p by blast
  then consider "i = j" | "j < i" by linarith
  then show False
  proof cases
    case 1
    then have "y = buddy_of x" using y(2) by (simp add: covers_def)
    then show False using co x(1) y(1) 1 by (auto simp: coalesced_def FB_iff)
  next
    case 2
    then have "covers (y, i) p" using parent [OF 2] y(2) by (simp add: covers_def)
    then show False using tiling_unique [OF t _ _ x(2)] x(1) y(1) 2 by blast
  qed
qed

definition untouched :: "BuddyPageAllocator \<Rightarrow> block set \<Rightarrow> BuddyPageAllocator \<Rightarrow> bool" where
  "untouched s U s' \<longleftrightarrow> base_addr s' = base_addr s \<and> page_count s' = page_count s \<and>
     (\<forall>b \<in> U. \<forall>x. in_block s b x \<longrightarrow> memory s' x = memory s x)"

definition no_free_run :: "BuddyPageAllocator \<Rightarrow> block set \<Rightarrow> nat \<Rightarrow> bool" where
  "no_free_run s U n \<longleftrightarrow> (\<forall>q k. n \<le> 2 ^ k \<and> k \<le> MAX_ORDER \<and> (q + 1) * 2 ^ k \<le> managed s \<longrightarrow>
     (\<exists>b \<in> U. \<exists>p. covers (q, k) p \<and> covers b p))"

lemma no_free_runI:
  assumes "buddy_ok s L U" "coalesced L" "\<And>c. n \<le> 2 ^ c \<Longrightarrow> c \<le> MAX_ORDER \<Longrightarrow> L c = []"
  shows "no_free_run s U n"
  unfolding no_free_run_def
proof (intro allI impI, elim conjE, rule ccontr)
  fix q k assume k: "n \<le> 2 ^ k" "k \<le> MAX_ORDER" "(q + 1) * 2 ^ k \<le> managed s"
    and none: "\<not> (\<exists>b \<in> U. \<exists>p. covers (q, k) p \<and> covers b p)"
  have t: "tiling (managed s) (FB L \<union> U)" using assms(1) by (simp add: buddy_ok_def)
  have "\<exists>b \<in> FB L. covers b p" if p: "covers (q, k) p" for p
  proof -
    have "p < managed s" using p k(3) by (simp add: covers_iff)
    then obtain b where "b \<in> FB L \<union> U" "covers b p" using t unfolding tiling_def by blast
    then show ?thesis using none p by blast
  qed
  then obtain c where c: "k \<le> c" "c \<le> MAX_ORDER" "L c \<noteq> []"
    using free_run_has_block [OF t assms(2)] by blast
  then have "n \<le> 2 ^ c" using k(1) power_increasing [of k c "2::nat"] by linarith
  then show False using assms(3) c by blast
qed

lemma buddy_alloc_inv:
  assumes inv: "buddy_inv s U" and n: "n \<le> 2 ^ 63"
  shows "(buddy_alloc s n = Some (None, s) \<and> (n = 0 \<or> no_free_run s U n)) \<or>
    (\<exists>q k s'. buddy_alloc s n = Some (Some (baddr s k q, k), s') \<and> (q, k) \<notin> U \<and>
       buddy_inv s' (insert (q, k) U) \<and> untouched s U s' \<and> 0 < n \<and> n \<le> 2 ^ k \<and> (\<forall>j < k. 2 ^ j < n))"
proof -
  obtain L where ok: "buddy_ok s L U" and co: "coalesced L" and al: "allocated_pages s = block_pages U"
    using inv by (auto simp: buddy_inv_def)
  have H: "heap_lists s (\<lambda>k. map (baddr s k) (L k))" using ok by (simp add: buddy_ok_def)
  show ?thesis
  proof (cases "n = 0")
    case True
    then show ?thesis by (simp add: buddy_alloc_def)
  next
    case False
    then obtain k where k: "required_order n = Some k" "n \<le> 2 ^ k" "\<forall>j < k. 2 ^ j < n"
      using required_order_ok n by blast
    have k_le: "k \<le> c" if "n \<le> 2 ^ c" for c using k(3) that by (meson not_le)
    obtain c where c: "find_free_order s k = Some c" "k \<le> c"
      "\<forall>j. k \<le> j \<and> j < c \<longrightarrow> j \<le> MAX_ORDER \<and> map (baddr s j) (L j) = []"
      "c \<le> MAX_ORDER \<longrightarrow> map (baddr s c) (L c) \<noteq> []"
      using find_free_order_ok [OF H] by blast
    show ?thesis
    proof (cases "c \<le> MAX_ORDER")
      case False
      then have "buddy_alloc s n = Some (None, s)"
        using \<open>n \<noteq> 0\<close> k c(1) by (simp add: buddy_alloc_def)
      moreover have "no_free_run s U n"
        by (rule no_free_runI [OF ok co]) (use c(3) k_le False in auto)
      ultimately show ?thesis by blast
    next
      case True
      have "coalesced (L(c := tl (L c)))"
        by (rule coalesced_subset [OF co]) (auto dest: list.set_sel(2) intro: list.set_sel(2))
      then obtain s1 L1 where s1: "split_loop s c k = Some s1" "buddy_ok s1 L1 U" "keeps s U s1"
          "L1 k \<noteq> []" "coalesced (L1(k := tl (L1 k)))"
        using split_loop_ok [OF ok c(2) True] c(3,4) True by auto
      obtain q qs where q: "L1 k = q # qs" using s1(4) by (cases "L1 k") auto
      have k28: "k \<le> MAX_ORDER" using c(2) True by simp
      obtain s2 where s2: "consume s1 k = Some (Some (baddr s k q), s2)" "(q, k) \<notin> U"
          "buddy_ok s2 (L1(k := qs)) (insert (q, k) U)" "keeps s1 UNIV s2"
        using consume_ok [OF s1(2) k28 q] baddr_keeps [OF s1(3)] by auto
      have kp: "keeps s U s2" by (rule keeps_trans [OF s1(3) keeps_mono [OF s2(4)]]) simp
      have fin: "finite U" using buddy_ok_finite [OF ok] .
      have sum: "allocated_pages s2 + 2 ^ k = block_pages (insert (q, k) U)"
        using al kp block_pages_insert [OF fin s2(2)] by (simp add: keeps_def)
      have "allocated_pages s2 + 2 ^ k < 2 ^ 64"
        using buddy_ok_accounts [OF s2(3)] sum by (simp add: managed_def MAX_ORDER_def)
      then have "buddy_alloc s n = Some (Some (baddr s k q, k), s2\<lparr>allocated_pages := allocated_pages s2 + 2 ^ k\<rparr>)"
        using \<open>n \<noteq> 0\<close> k(1) c(1) True s1(1) s2(1) k28
        by (simp add: buddy_alloc_def checked_simps shl64_one [simplified])
      moreover have "buddy_inv (s2\<lparr>allocated_pages := allocated_pages s2 + 2 ^ k\<rparr>) (insert (q, k) U)"
        using s2(3) s1(5) q sum buddy_ok_cong [of "s2\<lparr>allocated_pages := allocated_pages s2 + 2 ^ k\<rparr>" s2]
        unfolding buddy_inv_def by fastforce
      moreover have "untouched s U (s2\<lparr>allocated_pages := allocated_pages s2 + 2 ^ k\<rparr>)"
        using kp by (simp add: keeps_def untouched_def)
      ultimately show ?thesis using s2(2) k \<open>n \<noteq> 0\<close> by blast
    qed
  qed
qed

lemma buddy_free_inv:
  assumes inv: "buddy_inv s U" and q: "(q, k) \<in> U"
  shows "\<exists>s'. buddy_free s (baddr s k q) k = Some s' \<and> buddy_inv s' (U - {(q, k)}) \<and>
    untouched s (U - {(q, k)}) s'"
proof -
  obtain L where ok: "buddy_ok s L U" and co: "coalesced L" and al: "allocated_pages s = block_pages U"
    using inv by (auto simp: buddy_inv_def)
  have fin: "finite U" using buddy_ok_finite [OF ok] .
  let ?s = "s\<lparr>allocated_pages := allocated_pages s - 2 ^ k\<rparr>"
  have "buddy_ok ?s L U" using ok buddy_ok_cong [of ?s s] by simp
  then have ok': "buddy_ok ?s L (insert (q, k) (U - {(q, k)}))" using q by (simp add: insert_absorb)
  have k: "k \<le> MAX_ORDER" using ok q tiling_bound [of "managed s" "FB L \<union> U" q k] by (simp add: buddy_ok_def)
  have ba: "baddr ?s = baddr s" by (simp add: baddr_def fun_eq_iff)
  obtain s' L' where s': "free_loop ?s (baddr s k q) k = Some s'" "buddy_ok s' L' (U - {(q, k)})"
      "keeps ?s (U - {(q, k)}) s'" "coalesced L'"
    using free_loop_ok [OF ok' _ co] ba by auto
  note rm = block_pages_remove [OF fin q]
  have "buddy_free s (baddr s k q) k = Some s'"
    using s'(1) rm al k by (simp add: buddy_free_def checked_simps shl64_one [simplified])
  moreover have "buddy_inv s' (U - {(q, k)})"
    using s' rm al by (auto simp: buddy_inv_def keeps_def)
  moreover have "untouched s (U - {(q, k)}) s'"
    using s'(3) by (simp add: keeps_def untouched_def in_block_def)
  ultimately show ?thesis by blast
qed

section \<open>Initialisation\<close>

lemma tiling_extend:
  assumes t: "tiling c B" and d: "2 ^ k dvd c" and k: "k \<le> MAX_ORDER"
  shows "tiling (c + 2 ^ k) (insert (c div 2 ^ k, k) B)"
proof -
  obtain q where c: "c = q * 2 ^ k" using d by (auto simp: dvd_def mult.commute)
  have old: "p < c" if "b \<in> B" "covers b p" for b p
    using that tiling_bound [OF t, of "fst b" "snd b"] by (cases b) (auto simp: covers_iff)
  have new: "covers (q, k) p \<longleftrightarrow> c \<le> p \<and> p < c + 2 ^ k" for p by (simp add: covers_iff c algebra_simps)
  have "\<forall>b \<in> insert (q, k) B. snd b \<le> MAX_ORDER \<and> (fst b + 1) * 2 ^ snd b \<le> c + 2 ^ k"
    using t k unfolding tiling_def by (fastforce simp: c)
  moreover have "\<exists>b \<in> insert (q, k) B. covers b p" if "p < c + 2 ^ k" for p
    using that t new [of p] unfolding tiling_def by (meson insertI1 insertI2 not_le)
  moreover have "b = b'" if "b \<in> insert (q, k) B" "b' \<in> insert (q, k) B" "covers b p" "covers b' p" for b b' p
    using that old [of b p] old [of b' p] new [of p] tiling_unique [OF t, of b b' p] by auto
  moreover have "c div 2 ^ k = q" by (simp add: c)
  ultimately show ?thesis unfolding tiling_def by blast
qed

lemma init_block_heap:
  assumes H: "heap_lists s (\<lambda>k. map (baddr s k) (L k))" and t: "tiling c (FB L)" and d: "2 ^ k dvd c"
    and k: "k \<le> MAX_ORDER" and e: "L k = []" and lay: "layout_ok s"
  shows "heap_lists (s\<lparr>memory := (memory s)(baddr s k (c div 2 ^ k) := \<lparr>fb_next = None, fb_order = k\<rparr>),
      free_lists := (free_lists s)[k := Some (baddr s k (c div 2 ^ k))]\<rparr>)
     (\<lambda>j. map (baddr s j) ((L(k := [c div 2 ^ k])) j))"
  unfolding map_baddr_upd
proof (rule heap_lists_update [OF H k])
  let ?q = "c div 2 ^ k" let ?a = "baddr s k (c div 2 ^ k)"
  have q: "?q * 2 ^ k = c" using d by simp
  show "x \<notin> set (map (baddr s k) [?q]) \<and>
      ((memory s)(?a := \<lparr>fb_next = None, fb_order = k\<rparr>)) x = memory s x"
    if j: "j \<le> MAX_ORDER" "j \<noteq> k" "x \<in> set (map (baddr s j) (L j))" for j x
  proof -
    obtain y where y: "y \<in> set (L j)" "x = baddr s j y" using j(3) by auto
    then have "(y + 1) * 2 ^ j \<le> c" using tiling_bound [OF t, of y j] j(1) by (simp add: FB_iff)
    moreover have "y * 2 ^ j < (y + 1) * 2 ^ j" by simp
    ultimately have "y * 2 ^ j \<noteq> c" by linarith
    then show ?thesis using y(2) q by (simp add: baddr_def PAGE_SIZE_def)
  qed
  show "flist ((memory s)(?a := \<lparr>fb_next = None, fb_order = k\<rparr>)) k
      ((free_lists s)[k := Some ?a] ! k) (map (baddr s k) [?q])"
    using H k by (simp add: heap_lists_def)
qed (use baddr_nonzero [OF lay] in auto)

definition init_ok :: "BuddyPageAllocator \<Rightarrow> (nat \<Rightarrow> nat list) \<Rightarrow> nat \<Rightarrow> nat \<Rightarrow> bool" where
  "init_ok s L n c \<longleftrightarrow> layout_ok s \<and> heap_lists s (\<lambda>k. map (baddr s k) (L k)) \<and> tiling c (FB L) \<and>
     (\<forall>j < n. L j = []) \<and> (\<forall>j. length (L j) \<le> 1) \<and> 2 ^ n dvd c \<and> n \<le> MAX_ORDER + 1 \<and> c \<le> page_count s \<and>
     c + min (page_count s - c) (2 ^ n - 1) = managed s"

definition init_put :: "BuddyPageAllocator \<Rightarrow> nat \<Rightarrow> nat \<Rightarrow> BuddyPageAllocator" where
  "init_put s n c = (s\<lparr>memory := (memory s)(baddr s n (c div 2 ^ n) := \<lparr>fb_next = None, fb_order = n\<rparr>),
         free_lists := (free_lists s)[n := Some (baddr s n (c div 2 ^ n))]\<rparr>)"

lemma init_step_ok:
  assumes ok: "init_ok s L (Suc n) c" and big: "2 ^ n \<le> page_count s - c"
  shows "init_loop (n # ns) c s = init_loop ns (c + 2 ^ n) (init_put s n c)"
    and "init_ok (init_put s n c) (L(n := [c div 2 ^ n])) n (c + 2 ^ n)"
proof -
  let ?s = "init_put s n c"
  have n: "n \<le> MAX_ORDER" and d: "2 ^ n dvd c" and e: "L n = []" and c: "c \<le> page_count s"
    using ok by (auto simp: init_ok_def elim: power_le_dvd)
  have q: "c div 2 ^ n * 2 ^ n = c" using d by simp
  have pb: "c * PAGE_SIZE \<le> page_count s * PAGE_SIZE" using c by simp
  have lay: "base_addr s + page_count s * PAGE_SIZE < 2 ^ 64" using ok by (simp add: init_ok_def layout_ok_def)
  have pc: "page_count s \<le> page_count s * PAGE_SIZE" by (simp add: PAGE_SIZE_def)
  have a: "add64 (base_addr s) (c * PAGE_SIZE) = Some (baddr s n (c div 2 ^ n))"
  proof -
    have "base_addr s + c * PAGE_SIZE < 2 ^ 64" using pb lay by linarith
    then show ?thesis unfolding add64_def baddr_def q by (simp add: mult.commute)
  qed
  have "c * PAGE_SIZE < 2 ^ 64" "c + 2 ^ n < 2 ^ 64" using pb lay pc big c by linarith+
  then have "mul64 c PAGE_SIZE = Some (c * PAGE_SIZE)" "add64 c (2 ^ n) = Some (c + 2 ^ n)"
    by (simp_all add: mul64_def add64_def)
  moreover have "baddr s n (c div 2 ^ n) \<noteq> 0"
    using baddr_nonzero [of s] ok by (simp add: init_ok_def)
  ultimately show "init_loop (n # ns) c s = init_loop ns (c + 2 ^ n) ?s"
    using a big n c by (simp add: checked_simps shl64_one [simplified] init_put_def)
  have [simp]: "baddr ?s = baddr s" "managed ?s = managed s" "layout_ok ?s = layout_ok s" "page_count ?s = page_count s"
    by (auto simp: baddr_def managed_def layout_ok_def fun_eq_iff init_put_def)
  have c': "c + 2 ^ n \<le> page_count s" using big c by linarith
  have F: "FB (L(n := [c div 2 ^ n])) = insert (c div 2 ^ n, n) (FB L)"
    using n e by (auto simp: FB_def)
  have "heap_lists ?s (\<lambda>j. map (baddr s j) ((L(n := [c div 2 ^ n])) j))"
    unfolding init_put_def using ok n d e by (intro init_block_heap) (auto simp: init_ok_def)
  moreover have "tiling (c + 2 ^ n) (FB (L(n := [c div 2 ^ n])))"
    unfolding F using ok n d by (intro tiling_extend) (auto simp: init_ok_def)
  moreover have "c + 2 ^ n + min (page_count s - (c + 2 ^ n)) (2 ^ n - 1) = c + min (page_count s - c) (2 ^ Suc n - 1)"
    using big by (auto simp: min_def)
  ultimately show "init_ok ?s (L(n := [c div 2 ^ n])) n (c + 2 ^ n)"
    using ok d n c' by (simp add: init_ok_def)
qed

lemma init_loop_ok:
  assumes "init_ok s L n c"
  shows "\<exists>s' L'. init_loop (rev [0..<n]) c s = Some s' \<and> init_ok s' L' 0 (managed s) \<and>
      base_addr s' = base_addr s \<and> page_count s' = page_count s \<and> allocated_pages s' = allocated_pages s"
  using assms
proof (induction n arbitrary: s L c)
  case 0
  then have "c = managed s" by (simp add: init_ok_def)
  then show ?case using 0 by auto
next
  case (Suc n)
  show ?case
  proof (cases "page_count s - c < 2 ^ n")
    case True
    have "2 ^ n dvd c" using Suc.prems by (auto simp: init_ok_def elim: power_le_dvd)
    moreover have "min (page_count s - c) (2 ^ n - 1) = min (page_count s - c) (2 ^ Suc n - 1)"
      using True by auto
    ultimately have "init_ok s L n c" using Suc.prems by (auto simp: init_ok_def)
    moreover have "init_loop (rev [0..<Suc n]) c s = init_loop (rev [0..<n]) c s"
      using True Suc.prems by (simp add: init_ok_def checked_simps shl64_one [simplified])
    ultimately show ?thesis using Suc.IH by simp
  next
    case False
    then have big: "2 ^ n \<le> page_count s - c" by simp
    show ?thesis
      using Suc.IH [OF init_step_ok(2) [OF Suc.prems big]] init_step_ok(1) [OF Suc.prems big, of "rev [0..<n]"]
      by (auto simp: managed_def init_put_def)
  qed
qed

lemma singletons_coalesced: "(\<And>j. length (L j) \<le> 1) \<Longrightarrow> coalesced L"
proof -
  assume *: "\<And>j. length (L j) \<le> 1"
  have "buddy_of q \<notin> set (L k)" if "q \<in> set (L k)" for q k
    using * [of k] that buddy_of_neq [of q] by (cases "L k") auto
  then show ?thesis by (simp add: coalesced_def)
qed

lemma buddy_new_inv:
  assumes "0 < base" "base mod PAGE_SIZE = 0" "0 < count" "base + count * PAGE_SIZE < 2 ^ 64"
  shows "\<exists>s. buddy_new m base count = Some s \<and> buddy_inv s {} \<and> base_addr s = base \<and> page_count s = count"
proof -
  let ?s = "\<lparr>base_addr = base, page_count = count, free_lists = replicate (MAX_ORDER + 1) None,
      allocated_pages = 0, memory = m\<rparr>"
  have "base AND (PAGE_SIZE - 1) = 0"
    using assms(2) take_bit_eq_mask [of 12 base] by (simp add: PAGE_SIZE_def take_bit_eq_mod mask_eq_exp_minus_1)
  moreover have "init_ok ?s (\<lambda>_. []) (MAX_ORDER + 1) 0"
    using assms by (auto simp: init_ok_def layout_ok_def heap_lists_def tiling_def FB_def managed_def
        simp del: replicate_Suc)
  ultimately obtain s L where s: "buddy_new m base count = Some s" "init_ok s L 0 (managed ?s)"
      "base_addr s = base" "page_count s = count" "allocated_pages s = 0"
    using init_loop_ok [of ?s "\<lambda>_. []" "MAX_ORDER + 1" 0] assms(3)
    by (auto simp: buddy_new_def buddy_init_def simp del: upt_Suc)
  have "managed ?s = managed s" using s by (simp add: managed_def)
  then have "buddy_ok s L {}" "coalesced L"
    using s(2) singletons_coalesced by (auto simp: init_ok_def buddy_ok_def)
  then show ?thesis using s by (auto simp: buddy_inv_def block_pages_def)
qed

end
