(* ===== verification/Buddy_Spec.thy ===== *)
theory Buddy_Spec
  imports Buddy_Tiling
begin

text \<open>
  What \<^verbatim>\<open>BuddyPageAllocator\<close> promises to its clients, over addresses: the interface
  \<open>page_allocator\<close>, its interpretation on the model, the states that \<^verbatim>\<open>new\<close>,
  \<^verbatim>\<open>alloc\<close>, \<^verbatim>\<open>free\<close> and the clients' own writes can reach, and the
  correctness theorems of the allocator in those states.
\<close>

section \<open>Address ranges and reachable allocators\<close>

definition addr_span :: "nat \<times> nat \<Rightarrow> nat set" where
  "addr_span b = {fst b ..< fst b + PAGE_SIZE * 2 ^ snd b}"

definition blk_addr :: "BuddyPageAllocator \<Rightarrow> block \<Rightarrow> nat \<times> nat" where
  "blk_addr s b = (baddr s (snd b) (fst b), snd b)"

definition alloc_inv :: "BuddyPageAllocator \<Rightarrow> (nat \<times> nat) set \<Rightarrow> bool" where
  "alloc_inv s V \<longleftrightarrow> (\<exists>U. buddy_inv s U \<and> V = blk_addr s ` U)"

lemma required_order_loop_overflow:
  "i \<le> 63 \<Longrightarrow> 2 ^ 63 < n \<Longrightarrow> required_order_loop n (2 ^ i) ord = None"
proof (induction "63 - i" arbitrary: i ord)
  case 0
  then show ?case by (subst required_order_loop.simps) (simp add: mul64_def)
next
  case (Suc x)
  then have "required_order_loop n (2 ^ Suc i) (ord + 1) = None" by (intro Suc.hyps(1)) auto
  moreover have "(2::nat) ^ i < 2 ^ 63" using Suc by (intro power_strict_increasing) auto
  ultimately show ?case using Suc.prems by (subst required_order_loop.simps) (simp add: mul64_def mult.commute)
qed

lemma buddy_alloc_overflow: "2 ^ 63 < n \<Longrightarrow> buddy_alloc s n = None"
  using required_order_loop_overflow [of 0 n 0] by (simp add: buddy_alloc_def required_order_def)

lemma buddy_alloc_le: "buddy_alloc s n = Some r \<Longrightarrow> n \<le> 2 ^ 63"
  by (rule ccontr) (simp add: buddy_alloc_overflow not_le)

lemma blk_addr_inj: "blk_addr s b = blk_addr s c \<longleftrightarrow> b = c"
  by (cases b; cases c) (auto simp: blk_addr_def baddr_inj)

lemma blk_addr_cong: "base_addr s' = base_addr s \<Longrightarrow> blk_addr s' = blk_addr s"
  by (simp add: blk_addr_def baddr_def fun_eq_iff)

lemma addr_span_blk: "x \<in> addr_span (blk_addr s b) \<longleftrightarrow> in_block s b x"
proof (cases b)
  case (Pair q k)
  let ?y = "x - base_addr s"
  have "covers (q, k) (?y div PAGE_SIZE) \<longleftrightarrow> ?y div (PAGE_SIZE * 2 ^ k) = q"
    by (simp add: covers_def div_mult2_eq)
  also have "\<dots> \<longleftrightarrow> q \<le> ?y div (PAGE_SIZE * 2 ^ k) \<and> ?y div (PAGE_SIZE * 2 ^ k) < q + 1" by auto
  also have "\<dots> \<longleftrightarrow> q * (PAGE_SIZE * 2 ^ k) \<le> ?y \<and> ?y < (q + 1) * (PAGE_SIZE * 2 ^ k)"
    by (simp add: less_eq_div_iff_mult_less_eq div_less_iff_less_mult PAGE_SIZE_def del: Suc_eq_plus1)
  finally show ?thesis
    by (auto simp: Pair addr_span_def blk_addr_def baddr_def in_block_def algebra_simps)
qed

lemma span_disjoint:
  assumes "buddy_inv s U" "b \<in> U" "c \<in> U" "b \<noteq> c"
  shows "addr_span (blk_addr s b) \<inter> addr_span (blk_addr s c) = {}"
proof -
  obtain L where "tiling (managed s) (FB L \<union> U)" using assms(1) by (auto simp: buddy_inv_def buddy_ok_def)
  then have "\<not> (in_block s b x \<and> in_block s c x)" for x
    using assms(2-4) tiling_unique by (fastforce simp: in_block_def)
  then show ?thesis using addr_span_blk by blast
qed

lemma span_range:
  assumes "buddy_inv s U" "b \<in> U"
  shows "addr_span (blk_addr s b) \<subseteq> {base_addr s ..< base_addr s + page_count s * PAGE_SIZE}"
    and "(fst (blk_addr s b) - base_addr s) mod (PAGE_SIZE * 2 ^ snd b) = 0"
proof -
  obtain L where "tiling (managed s) (FB L \<union> U)" using assms(1) by (auto simp: buddy_inv_def buddy_ok_def)
  then have "(fst b + 1) * 2 ^ snd b \<le> page_count s"
    using tiling_bound [of "managed s" "FB L \<union> U" "fst b" "snd b"] assms(2) by (simp add: managed_def)
  then have "PAGE_SIZE * ((fst b + 1) * 2 ^ snd b) \<le> page_count s * PAGE_SIZE"
    by (metis mult.commute mult_le_mono1)
  then show "addr_span (blk_addr s b) \<subseteq> {base_addr s ..< base_addr s + page_count s * PAGE_SIZE}"
    by (auto simp: addr_span_def blk_addr_def baddr_def algebra_simps)
  show "(fst (blk_addr s b) - base_addr s) mod (PAGE_SIZE * 2 ^ snd b) = 0"
    by (simp add: blk_addr_def baddr_def)
qed

lemma sum_blk_addr: "(\<Sum>b \<in> blk_addr s ` U. 2 ^ snd b) = block_pages U"
  unfolding block_pages_def
  by (subst sum.reindex) (auto simp: inj_on_def blk_addr_inj, simp add: blk_addr_def)

lemma alloc_inv_write:
  assumes "alloc_inv s V" "\<And>x. x \<notin> \<Union> (addr_span ` V) \<Longrightarrow> m x = memory s x"
  shows "alloc_inv (s\<lparr>memory := m\<rparr>) V"
proof -
  let ?s = "s\<lparr>memory := m\<rparr>"
  obtain U L where U: "V = blk_addr s ` U" "buddy_ok s L U" "coalesced L" "allocated_pages s = block_pages U"
    using assms(1) by (auto simp: alloc_inv_def buddy_inv_def)
  have [simp]: "baddr ?s = baddr s" "managed ?s = managed s" "layout_ok ?s = layout_ok s" "blk_addr ?s = blk_addr s"
    by (auto simp: baddr_def managed_def layout_ok_def blk_addr_def fun_eq_iff)
  have "m (baddr s k q) = memory s (baddr s k q)" if "(q, k) \<in> FB L" for q k
  proof (rule assms(2))
    have "\<not> in_block s b (baddr s k q)" if "b \<in> U" for b
      using U(2) that \<open>(q, k) \<in> FB L\<close> tiling_unique [OF _ _ _ covers_first, of _ "FB L \<union> U" q k b]
      by (auto simp: in_block_baddr_iff buddy_ok_def)
    then show "baddr s k q \<notin> \<Union> (addr_span ` V)" by (auto simp: U(1) addr_span_blk)
  qed
  then have "heap_lists ?s (\<lambda>k. map (baddr s k) (L k))"
    using U(2) by (intro heap_lists_memory) (auto simp: buddy_ok_def FB_iff)
  then have "buddy_ok ?s L U" using U(2) by (simp add: buddy_ok_def)
  then show ?thesis using U by (auto simp: alloc_inv_def buddy_inv_def)
qed

section \<open>The interface of a page allocator\<close>

locale page_allocator =
  fixes palloc :: "'s \<Rightarrow> nat \<Rightarrow> ((nat \<times> nat) option \<times> 's) panics"
    and pfree :: "'s \<Rightarrow> nat \<Rightarrow> nat \<Rightarrow> 's panics"
    and inv :: "'s \<Rightarrow> (nat \<times> nat) set \<Rightarrow> bool"
    and contents :: "'s \<Rightarrow> nat \<Rightarrow> 'c"
  assumes alloc_total: "inv s V \<Longrightarrow> n \<le> 2 ^ 63 \<Longrightarrow> \<exists>r s'. palloc s n = Some (r, s')"
    and alloc_None: "inv s V \<Longrightarrow> palloc s n = Some (None, s') \<Longrightarrow> s' = s"
    and alloc_Some: "inv s V \<Longrightarrow> palloc s n = Some (Some (a, k), s') \<Longrightarrow>
      (a, k) \<notin> V \<and> inv s' (insert (a, k) V) \<and> n \<le> 2 ^ k"
    and alloc_frame: "inv s V \<Longrightarrow> palloc s n = Some (Some r, s') \<Longrightarrow> b \<in> V \<Longrightarrow> x \<in> addr_span b \<Longrightarrow>
      contents s' x = contents s x"
    and free_total: "inv s V \<Longrightarrow> (a, k) \<in> V \<Longrightarrow> \<exists>s'. pfree s a k = Some s' \<and> inv s' (V - {(a, k)})"
    and free_frame: "inv s V \<Longrightarrow> (a, k) \<in> V \<Longrightarrow> pfree s a k = Some s' \<Longrightarrow> b \<in> V - {(a, k)} \<Longrightarrow>
      x \<in> addr_span b \<Longrightarrow> contents s' x = contents s x"
    and disjoint_law: "inv s V \<Longrightarrow> b \<in> V \<Longrightarrow> c \<in> V \<Longrightarrow> b \<noteq> c \<Longrightarrow> addr_span b \<inter> addr_span c = {}"
begin

lemma alloc_fresh:
  assumes "inv s V" "palloc s n = Some (Some (a, k), s')" "b \<in> V"
  shows "addr_span (a, k) \<inter> addr_span b = {}"
  using disjoint_law [of s' "insert (a, k) V" "(a, k)" b] alloc_Some [OF assms(1,2)] assms(3) by auto

lemma alloc_then_free:
  assumes "inv s V" "palloc s n = Some (Some (a, k), s')"
  shows "\<exists>s''. pfree s' a k = Some s'' \<and> inv s'' V"
  using free_total [of s' "insert (a, k) V" a k] alloc_Some [OF assms] by auto

lemma free_all_total:
  "inv s V \<Longrightarrow> set bs = V \<Longrightarrow> distinct bs \<Longrightarrow> 
    \<exists>s'. fold_panics (\<lambda>b s. pfree s (fst b) (snd b)) bs s = Some s' \<and> inv s' {}"
proof (induction bs arbitrary: s V)
  case Nil
  then show ?case by simp
next
  case (Cons b bs)
  obtain s1 where s1: "pfree s (fst b) (snd b) = Some s1" "inv s1 (V - {b})"
    using free_total [OF Cons.prems(1), of "fst b" "snd b"] Cons.prems(2) by auto
  have "V - {b} = set bs" using Cons.prems(2,3) by auto
  then show ?case using Cons.IH [OF s1(2)] s1(1) Cons.prems(3) by simp
qed

end

lemma buddy_alloc_cases:
  assumes "alloc_inv s V" "n \<le> 2 ^ 63"
  obtains (fails) U where "buddy_inv s U" "V = blk_addr s ` U" "buddy_alloc s n = Some (None, s)"
      "n = 0 \<or> no_free_run s U n"
  | (succeeds) U q k s' where "buddy_inv s U" "V = blk_addr s ` U"
      "buddy_alloc s n = Some (Some (baddr s k q, k), s')" "(q, k) \<notin> U" "buddy_inv s' (insert (q, k) U)"
      "untouched s U s'" "0 < n" "n \<le> 2 ^ k" "\<forall>j < k. 2 ^ j < n"
proof -
  obtain U where U: "buddy_inv s U" "V = blk_addr s ` U" using assms(1) unfolding alloc_inv_def by blast
  show thesis using buddy_alloc_inv [OF U(1) assms(2)] U that by blast
qed

lemma buddy_alloc_Some:
  assumes "alloc_inv s V" "buddy_alloc s n = Some (Some (a, k), s')"
  shows "(a, k) \<notin> V \<and> alloc_inv s' (insert (a, k) V) \<and> n \<le> 2 ^ k \<and> (\<forall>j < k. 2 ^ j < n) \<and>
    base_addr s' = base_addr s \<and> page_count s' = page_count s \<and>
    (\<forall>b \<in> V. \<forall>x \<in> addr_span b. memory s' x = memory s x)"
proof (rule buddy_alloc_cases [OF assms(1) buddy_alloc_le [OF assms(2)]])
  fix U q k1 s1
  assume U: "buddy_inv s U" "V = blk_addr s ` U" and r: "buddy_alloc s n = Some (Some (baddr s k1 q, k1), s1)"
    and q: "(q, k1) \<notin> U" "buddy_inv s1 (insert (q, k1) U)" "untouched s U s1"
      "n \<le> 2 ^ k1" "\<forall>j < k1. 2 ^ j < n"
  have e: "a = baddr s k q" "k1 = k" "s1 = s'" using trans [OF assms(2) [symmetric] r] by simp_all
  have ba: "blk_addr s' = blk_addr s" "base_addr s' = base_addr s" "page_count s' = page_count s"
    using q(3) by (auto simp: untouched_def e blk_addr_cong [of s' s])
  have ak: "(a, k) = blk_addr s (q, k)" by (simp add: blk_addr_def e)
  have "(a, k) \<notin> V" unfolding ak U(2) using q(1) by (auto simp: blk_addr_inj e)
  moreover have "insert (a, k) V = blk_addr s' ` insert (q, k) U" by (simp add: ak U(2) ba)
  then have "alloc_inv s' (insert (a, k) V)" using q(2) unfolding alloc_inv_def e by blast
  moreover have "\<forall>b \<in> V. \<forall>x \<in> addr_span b. memory s' x = memory s x"
    using q(3) by (auto simp: U(2) addr_span_blk untouched_def e)
  ultimately show ?thesis using q(4,5) ba unfolding e by blast
next
  assume "buddy_alloc s n = Some (None, s)"
  from trans [OF assms(2) [symmetric] this] show ?thesis by simp
qed

lemma buddy_alloc_None:
  assumes "alloc_inv s V" "buddy_alloc s n = Some (None, s')"
  shows "s' = s"
proof (rule buddy_alloc_cases [OF assms(1) buddy_alloc_le [OF assms(2)]])
  assume "buddy_alloc s n = Some (None, s)"
  from trans [OF assms(2) [symmetric] this] show ?thesis by simp
next
  fix q k s1 assume "buddy_alloc s n = Some (Some (baddr s k q, k), s1)"
  from trans [OF assms(2) [symmetric] this] show ?thesis by simp
qed

lemma buddy_free_total:
  assumes "alloc_inv s V" "(a, k) \<in> V"
  shows "\<exists>s'. buddy_free s a k = Some s' \<and> alloc_inv s' (V - {(a, k)}) \<and>
    base_addr s' = base_addr s \<and> page_count s' = page_count s \<and>
    (\<forall>b \<in> V - {(a, k)}. \<forall>x \<in> addr_span b. memory s' x = memory s x)"
proof -
  obtain U where U: "buddy_inv s U" "V = blk_addr s ` U" using assms(1) by (auto simp: alloc_inv_def)
  then obtain q where q: "(q, k) \<in> U" "a = baddr s k q" using assms(2) by (auto simp: blk_addr_def)
  obtain s' where s': "buddy_free s a k = Some s'" "buddy_inv s' (U - {(q, k)})" "untouched s (U - {(q, k)}) s'"
    using buddy_free_inv [OF U(1) q(1)] q(2) by blast
  have ba: "blk_addr s' = blk_addr s" "base_addr s' = base_addr s" "page_count s' = page_count s"
    using s'(3) by (auto simp: untouched_def blk_addr_cong [of s' s])
  have ak: "(a, k) = blk_addr s (q, k)" by (simp add: blk_addr_def q(2))
  have V: "V - {(a, k)} = blk_addr s ` (U - {(q, k)})" unfolding ak U(2) by (auto simp: blk_addr_inj)
  then have "alloc_inv s' (V - {(a, k)})" using s'(2) ba(1) alloc_inv_def by metis
  moreover have "\<forall>b \<in> V - {(a, k)}. \<forall>x \<in> addr_span b. memory s' x = memory s x"
    using s'(3) unfolding V by (auto simp: addr_span_blk untouched_def)
  ultimately show ?thesis using s'(1) ba by blast
qed

interpretation bpa: page_allocator buddy_alloc buddy_free alloc_inv memory
proof (unfold_locales)
  show "\<exists>r s'. buddy_alloc s n = Some (r, s')" if inv: "alloc_inv s V" "n \<le> 2 ^ 63" for s V n
    by (rule buddy_alloc_cases [OF inv]) blast+
  show "addr_span b \<inter> addr_span c = {}" if "alloc_inv s V" "b \<in> V" "c \<in> V" "b \<noteq> c" for s V b c
    using that span_disjoint by (fastforce simp: alloc_inv_def)
qed (use buddy_alloc_Some buddy_alloc_None buddy_free_total in \<open>(blast | fastforce)+\<close>)

section \<open>Reachable states\<close>

inductive buddy_reachable :: "nat \<Rightarrow> nat \<Rightarrow> BuddyPageAllocator \<Rightarrow> (nat \<times> nat) set \<Rightarrow> bool"
  for base count where
  new: "buddy_new m base count = Some s \<Longrightarrow> buddy_reachable base count s {}"
| alloc: "buddy_reachable base count s V \<Longrightarrow> buddy_alloc s n = Some (Some (a, k), s') \<Longrightarrow>
    buddy_reachable base count s' (insert (a, k) V)"
| alloc_fails: "buddy_reachable base count s V \<Longrightarrow> buddy_alloc s n = Some (None, s') \<Longrightarrow>
    buddy_reachable base count s' V"
| free: "buddy_reachable base count s V \<Longrightarrow> (a, k) \<in> V \<Longrightarrow> buddy_free s a k = Some s' \<Longrightarrow>
    buddy_reachable base count s' (V - {(a, k)})"
| client_write: "buddy_reachable base count s V \<Longrightarrow>
    (\<And>x. x \<notin> \<Union> (addr_span ` V) \<Longrightarrow> m x = memory s x) \<Longrightarrow>
    buddy_reachable base count (s\<lparr>memory := m\<rparr>) V"

definition region_ok :: "nat \<Rightarrow> nat \<Rightarrow> bool" where
  "region_ok base count \<longleftrightarrow> 0 < base \<and> base mod PAGE_SIZE = 0 \<and> 0 < count \<and> base + count * PAGE_SIZE < 2 ^ 64"

lemma reachable_inv:
  "buddy_reachable base count s V \<Longrightarrow> region_ok base count \<Longrightarrow>
    alloc_inv s V \<and> base_addr s = base \<and> page_count s = count"
proof (induction rule: buddy_reachable.induct)
  case (new m s)
  then show ?case using buddy_new_inv [of base count m] by (auto simp: alloc_inv_def region_ok_def)
next
  case (alloc s V n a k s')
  then show ?case using buddy_alloc_Some by blast
next
  case (alloc_fails s V n s')
  then show ?case using buddy_alloc_None by blast
next
  case (free s V a k s')
  then show ?case using buddy_free_total by (metis option.inject)
next
  case (client_write s V m)
  then show ?case using alloc_inv_write by simp
qed

lemma in_span_iff: "addr_span (blk_addr s b) \<inter> addr_span (blk_addr s c) \<noteq> {} \<longleftrightarrow> (\<exists>p. covers b p \<and> covers c p)"
proof
  assume "\<exists>p. covers b p \<and> covers c p"
  then obtain p where "covers b p" "covers c p" by blast
  then have "in_block s b (base_addr s + PAGE_SIZE * p)" "in_block s c (base_addr s + PAGE_SIZE * p)"
    by (simp_all add: in_block_def PAGE_SIZE_def)
  then show "addr_span (blk_addr s b) \<inter> addr_span (blk_addr s c) \<noteq> {}" using addr_span_blk by blast
next
  assume "addr_span (blk_addr s b) \<inter> addr_span (blk_addr s c) \<noteq> {}"
  then show "\<exists>p. covers b p \<and> covers c p" using addr_span_blk unfolding in_block_def by blast
qed

lemma no_free_run_span:
  assumes "no_free_run s U n" "n \<le> 2 ^ k" "k \<le> MAX_ORDER" "(q + 1) * 2 ^ k \<le> managed s"
  shows "\<exists>b \<in> blk_addr s ` U. addr_span (baddr s k q, k) \<inter> addr_span b \<noteq> {}"
proof -
  obtain b p where "b \<in> U" "covers (q, k) p" "covers b p" using assms unfolding no_free_run_def by blast
  then have "addr_span (blk_addr s (q, k)) \<inter> addr_span (blk_addr s b) \<noteq> {}" using in_span_iff by blast
  then show ?thesis using \<open>b \<in> U\<close> by (auto simp: blk_addr_def)
qed

lemma alloc_inv_accounts: "alloc_inv s V \<Longrightarrow> allocated_pages s = (\<Sum>b \<in> V. 2 ^ snd b)"
  by (auto simp: alloc_inv_def buddy_inv_def sum_blk_addr)

lemma alloc_inv_range:
  "alloc_inv s V \<Longrightarrow> (a, k) \<in> V \<Longrightarrow> addr_span (a, k) \<subseteq> {base_addr s ..< base_addr s + page_count s * PAGE_SIZE} \<and>
    (a - base_addr s) mod (PAGE_SIZE * 2 ^ k) = 0"
proof -
  assume "alloc_inv s V" "(a, k) \<in> V"
  then obtain U b where b: "buddy_inv s U" "b \<in> U" "(a, k) = blk_addr s b" unfolding alloc_inv_def by blast
  then have "a = fst (blk_addr s b)" "k = snd b" by (auto simp: blk_addr_def)
  then show ?thesis using span_range [OF b(1,2)] b(3) by simp
qed

lemma alloc_inv_bound: "alloc_inv s V \<Longrightarrow> allocated_pages s \<le> managed s"
  unfolding alloc_inv_def buddy_inv_def using buddy_ok_accounts by (metis le_add2)

lemma alloc_inv_region: "alloc_inv s V \<Longrightarrow> layout_ok s"
  unfolding alloc_inv_def buddy_inv_def buddy_ok_def by blast

interpretation bpr: page_allocator buddy_alloc buddy_free
    "\<lambda>s V. region_ok base count \<and> buddy_reachable base count s V" memory for base count
proof (unfold_locales, goal_cases)
  case (1 s V n)
  then show ?case using bpa.alloc_total reachable_inv by blast
next
  case (2 s V n s')
  then show ?case using bpa.alloc_None reachable_inv by blast
next
  case (3 s V n a k s')
  then show ?case using bpa.alloc_Some reachable_inv buddy_reachable.alloc by blast
next
  case (4 s V n r s' b x)
  then show ?case using bpa.alloc_frame reachable_inv by blast
next
  case (5 s V a k)
  then show ?case using bpa.free_total reachable_inv buddy_reachable.free by blast
next
  case (6 s V a k s' b x)
  then show ?case using bpa.free_frame reachable_inv by blast
next
  case (7 s V b c)
  then show ?case using bpa.disjoint_law reachable_inv by blast
qed

lemma alloc_when_empty:
  assumes "alloc_inv s {}" "0 < n" "n \<le> 2 ^ k" "k \<le> MAX_ORDER" "2 ^ k \<le> page_count s"
  shows "\<exists>a j s'. buddy_alloc s n = Some (Some (a, j), s')"
proof -
  have p: "(2::nat) ^ k \<le> 268435456" using pow2_order [OF assms(4)] .
  have n: "n \<le> 2 ^ 63" using assms(3) p by simp
  have m: "2 ^ k \<le> managed s" using p assms(5) by (simp add: managed_def MAX_ORDER_def)
  show ?thesis
  proof (rule buddy_alloc_cases [OF assms(1) n])
    fix U assume "{} = blk_addr s ` U" "n = 0 \<or> no_free_run s U n"
    then have "no_free_run s {} n" using assms(2) by simp
    then show ?thesis using no_free_run_span [of s "{}" n k 0] assms(3,4) m by simp
  qed blast
qed

text \<open>
  C2: In every state reachable by new, alloc, free and writes of clients to their own blocks, over
  a region that meets the documented safety contract of new, the blocks handed out are
  pairwise disjoint, aligned and inside the region, and the counters are exact.
\<close>

theorem buddy_blocks_disjoint:
  assumes "region_ok base count" "buddy_reachable base count s V"
  shows "(\<forall>b \<in> V. \<forall>c \<in> V. b \<noteq> c \<longrightarrow> addr_span b \<inter> addr_span c = {}) \<and>
    (\<forall>(a, k) \<in> V. addr_span (a, k) \<subseteq> {base ..< base + count * PAGE_SIZE} \<and>
       (a - base) mod (PAGE_SIZE * 2 ^ k) = 0) \<and>
    get_allocated_page_count s = (\<Sum>b \<in> V. 2 ^ snd b) \<and>
    get_free_page_count s = Some (count - (\<Sum>b \<in> V. 2 ^ snd b))"
proof -
  have inv: "alloc_inv s V" "base_addr s = base" "page_count s = count" using reachable_inv assms by auto
  have "allocated_pages s \<le> count" using alloc_inv_bound [OF inv(1)] inv(3) by (simp add: managed_def)
  then have "get_allocated_page_count s = (\<Sum>b \<in> V. 2 ^ snd b)"
    "get_free_page_count s = Some (count - (\<Sum>b \<in> V. 2 ^ snd b))"
    using alloc_inv_accounts [OF inv(1)] inv(3)
    by (auto simp: get_allocated_page_count_def get_free_page_count_def sub64_def)
  moreover have "\<forall>(a, k) \<in> V. addr_span (a, k) \<subseteq> {base ..< base + count * PAGE_SIZE} \<and>
       (a - base) mod (PAGE_SIZE * 2 ^ k) = 0"
    using alloc_inv_range [OF inv(1)] unfolding inv(2,3) by blast
  ultimately show ?thesis using bpa.disjoint_law [OF inv(1)] by blast
qed

lemma buddy_alloc_returns:
  assumes "region_ok base count" "buddy_reachable base count s V" "n \<le> 2 ^ 63"
  shows "\<exists>r s'. buddy_alloc s n = Some (r, s') \<and>
    (case r of
       None \<Rightarrow> s' = s \<and> (n = 0 \<or> (\<forall>q k. n \<le> 2 ^ k \<and> k \<le> MAX_ORDER \<and> (q + 1) * 2 ^ k \<le> min count (2 ^ 29 - 1) \<longrightarrow>
         (\<exists>b \<in> V. addr_span (base + PAGE_SIZE * (q * 2 ^ k), k) \<inter> addr_span b \<noteq> {})))
     | Some (a, k) \<Rightarrow> n \<le> 2 ^ k \<and> (\<forall>j < k. 2 ^ j < n) \<and> (a - base) mod (PAGE_SIZE * 2 ^ k) = 0 \<and>
         addr_span (a, k) \<subseteq> {base ..< base + count * PAGE_SIZE} \<and>
         (\<forall>b \<in> V. addr_span (a, k) \<inter> addr_span b = {}) \<and>
         (\<forall>b \<in> V. \<forall>x \<in> addr_span b. memory s' x = memory s x) \<and>
         allocated_pages s' = allocated_pages s + 2 ^ k)"
proof -
  have inv: "alloc_inv s V" and b: "base_addr s = base" "page_count s = count" using reachable_inv assms by auto
  have m: "managed s = min count (2 ^ 29 - 1)" by (simp add: managed_def b MAX_ORDER_def)
  show ?thesis
  proof (rule buddy_alloc_cases [OF inv assms(3)])
    fix U assume U: "V = blk_addr s ` U" "buddy_alloc s n = Some (None, s)" "n = 0 \<or> no_free_run s U n"
    have "n = 0 \<or> (\<forall>q k. n \<le> 2 ^ k \<and> k \<le> MAX_ORDER \<and> (q + 1) * 2 ^ k \<le> min count (2 ^ 29 - 1) \<longrightarrow>
         (\<exists>b \<in> V. addr_span (base + PAGE_SIZE * (q * 2 ^ k), k) \<inter> addr_span b \<noteq> {}))"
      using U(1,3) no_free_run_span [of s U n] unfolding baddr_def b m by blast
    then show ?thesis using U(2) by (intro exI [of _ None] exI [of _ s]) simp
  next
    fix U q k s' assume r: "buddy_alloc s n = Some (Some (baddr s k q, k), s')"
    let ?a = "baddr s k q"
    note S = buddy_alloc_Some [OF inv r]
    have inv': "alloc_inv s' (insert (?a, k) V)" using S by blast
    have fin: "finite V" using inv buddy_ok_finite unfolding alloc_inv_def buddy_inv_def by blast
    have "allocated_pages s' = allocated_pages s + 2 ^ k"
      using alloc_inv_accounts [OF inv] alloc_inv_accounts [OF inv'] fin S by simp
    moreover have "(?a - base) mod (PAGE_SIZE * 2 ^ k) = 0" "addr_span (?a, k) \<subseteq> {base ..< base + count * PAGE_SIZE}"
      using alloc_inv_range [OF inv', of ?a k] S b by auto
    moreover have "\<forall>b \<in> V. addr_span (?a, k) \<inter> addr_span b = {}" using bpa.alloc_fresh [OF inv r] by blast
    ultimately show ?thesis using r S by (intro exI [of _ "Some (?a, k)"] exI [of _ s']) simp
  qed
qed

text \<open>
  C1: In every state reachable by new, alloc, free and writes of clients to their own blocks, over
  a region that meets the documented safety contract of new, alloc(n) panics exactly when n is
  above 2^63 (the shift of required_order overflows) and otherwise returns: either a block of
  the least order with room for n pages, aligned, inside the region, disjoint from every block
  handed out, with the other blocks' contents untouched and the page counter raised by its
  size; or None with the state unchanged, and then n is 0 or every aligned run of sufficient
  order among the pages the allocator manages meets a block handed out. The pages managed are
  the first min(count, 2^29 - 1) of the region: init puts at most one block of each order 0 to
  28 on the lists, so pages after them are never handed out.
\<close>

theorem buddy_alloc_correct:
  assumes "region_ok base count" "buddy_reachable base count s V"
  shows "if 2 ^ 63 < n then buddy_alloc s n = None else \<exists>r s'. buddy_alloc s n = Some (r, s') \<and>
    (case r of
       None \<Rightarrow> s' = s \<and> (n = 0 \<or> (\<forall>q k. n \<le> 2 ^ k \<and> k \<le> MAX_ORDER \<and> (q + 1) * 2 ^ k \<le> min count (2 ^ 29 - 1) \<longrightarrow>
         (\<exists>b \<in> V. addr_span (base + PAGE_SIZE * (q * 2 ^ k), k) \<inter> addr_span b \<noteq> {})))
     | Some (a, k) \<Rightarrow> n \<le> 2 ^ k \<and> (\<forall>j < k. 2 ^ j < n) \<and> (a - base) mod (PAGE_SIZE * 2 ^ k) = 0 \<and>
         addr_span (a, k) \<subseteq> {base ..< base + count * PAGE_SIZE} \<and>
         (\<forall>b \<in> V. addr_span (a, k) \<inter> addr_span b = {}) \<and>
         (\<forall>b \<in> V. \<forall>x \<in> addr_span b. memory s' x = memory s x) \<and>
         allocated_pages s' = allocated_pages s + 2 ^ k)"
proof (cases "2 ^ 63 < n")
  case True
  then show ?thesis by (simp add: buddy_alloc_overflow)
next
  case False
  then show ?thesis using buddy_alloc_returns [OF assms, of n] by simp
qed

text \<open>
  C3: In a reachable state of an allocator over a region that meets the safety contract of new,
  freeing a block that was handed out, with its order, never panics, however the merges go,
  lowers the page counter by its size and leaves the contents of the other blocks untouched.
\<close>

theorem buddy_free_correct:
  assumes "region_ok base count" "buddy_reachable base count s V" "(a, k) \<in> V"
  shows "\<exists>s'. buddy_free s a k = Some s' \<and> buddy_reachable base count s' (V - {(a, k)}) \<and>
    allocated_pages s' + 2 ^ k = allocated_pages s \<and>
    (\<forall>b \<in> V - {(a, k)}. \<forall>x \<in> addr_span b. memory s' x = memory s x)"
proof -
  have inv: "alloc_inv s V" using reachable_inv assms by auto
  obtain s' where s': "buddy_free s a k = Some s'" "alloc_inv s' (V - {(a, k)})"
      "\<forall>b \<in> V - {(a, k)}. \<forall>x \<in> addr_span b. memory s' x = memory s x"
    using buddy_free_total [OF inv assms(3)] by blast
  have fin: "finite V" using inv buddy_ok_finite unfolding alloc_inv_def buddy_inv_def by blast
  have "allocated_pages s' + 2 ^ k = allocated_pages s"
    using alloc_inv_accounts [OF inv] alloc_inv_accounts [OF s'(2)]
      sum.remove [OF fin assms(3), of "\<lambda>b. (2::nat) ^ snd b"] by simp
  then show ?thesis using s' buddy_reachable.free [OF assms(2,3) s'(1)] by blast
qed

text \<open>
  C4: From a reachable state, freeing all blocks in any order succeeds and merges them back: every
  request of n > 0 pages that fits in an order up to 28 whose blocks fit in the region then
  succeeds.
\<close>

theorem buddy_free_all_restores:
  assumes "region_ok base count" "buddy_reachable base count s V" "set bs = V" "distinct bs"
    and "0 < n" "n \<le> 2 ^ k" "k \<le> MAX_ORDER" "2 ^ k \<le> count"
  shows "\<exists>s'. fold_panics (\<lambda>b s. buddy_free s (fst b) (snd b)) bs s = Some s' \<and> allocated_pages s' = 0 \<and>
    (\<exists>a j s''. buddy_alloc s' n = Some (Some (a, j), s''))"
proof -
  obtain s' where s': "fold_panics (\<lambda>b s. buddy_free s (fst b) (snd b)) bs s = Some s'"
      "buddy_reachable base count s' {}"
    using bpr.free_all_total [of base count s V bs] assms(1-4) by blast
  have inv: "alloc_inv s' {}" "page_count s' = count" using reachable_inv [OF s'(2) assms(1)] by auto
  have "allocated_pages s' = 0" using alloc_inv_accounts [OF inv(1)] by simp
  then show ?thesis using s'(1) alloc_when_empty [OF inv(1) assms(5-7)] assms(8) inv(2) by blast
qed

lemma demo_new: "\<exists>s. buddy_reachable 4096 3 s {} \<and> region_ok 4096 3 \<and> page_count s = 3"
proof -
  have "region_ok 4096 3" by (simp add: region_ok_def PAGE_SIZE_def)
  then show ?thesis using buddy_new_inv [of 4096 3 "\<lambda>_. \<lparr>fb_next = None, fb_order = 0\<rparr>"] buddy_reachable.new
    by (fastforce simp: region_ok_def)
qed

lemma demo_alloc: "\<exists>s a k s'. buddy_reachable 4096 3 s {} \<and> region_ok 4096 3 \<and> buddy_alloc s 2 = Some (Some (a, k), s')"
proof -
  obtain s where s: "buddy_reachable 4096 3 s {}" "region_ok 4096 3" "page_count s = 3" using demo_new by blast
  then have "\<exists>a j s'. buddy_alloc s 2 = Some (Some (a, j), s')"
    using alloc_when_empty [of s 2 1] reachable_inv by (auto simp: MAX_ORDER_def)
  then show ?thesis using s by blast
qed

theorem buddy_blocks_disjoint_witness: "\<exists>s a k. buddy_reachable 4096 3 s {(a, k)} \<and> 4096 \<le> a \<and> get_allocated_page_count s = 2 ^ k"
proof -
  obtain s a k s' where s: "buddy_reachable 4096 3 s {}" "region_ok 4096 3" "buddy_alloc s 2 = Some (Some (a, k), s')"
    using demo_alloc by blast
  have r: "buddy_reachable 4096 3 s' {(a, k)}" using buddy_reachable.alloc [OF s(1,3)] by simp
  have "a \<in> addr_span (a, k)" by (simp add: addr_span_def PAGE_SIZE_def)
  then show ?thesis using buddy_blocks_disjoint [OF s(2) r] r by fastforce
qed

theorem buddy_alloc_correct_witness:
  "\<exists>s r s'. buddy_reachable 4096 3 s {} \<and> buddy_alloc s 2 = Some (r, s') \<and> buddy_alloc s (2 ^ 63 + 1) = None"
proof -
  obtain s where s: "buddy_reachable 4096 3 s {}" "region_ok 4096 3" using demo_new by blast
  then show ?thesis using buddy_alloc_correct [OF s(2,1), of 2] buddy_alloc_correct [OF s(2,1), of "2 ^ 63 + 1"] by auto
qed

theorem buddy_free_correct_witness:
  "\<exists>s a k s'. buddy_reachable 4096 3 s {(a, k)} \<and> buddy_free s a k = Some s' \<and> allocated_pages s' + 2 ^ k = allocated_pages s"
proof -
  obtain s a k s' where s: "buddy_reachable 4096 3 s {}" "region_ok 4096 3" "buddy_alloc s 2 = Some (Some (a, k), s')"
    using demo_alloc by blast
  have r: "buddy_reachable 4096 3 s' {(a, k)}" using buddy_reachable.alloc [OF s(1,3)] by simp
  then show ?thesis using buddy_free_correct [OF s(2) r, of a k] by auto
qed

theorem buddy_free_all_restores_witness:
  "\<exists>s a k s' s''. buddy_reachable 4096 3 s {(a, k)} \<and> buddy_free s a k = Some s' \<and> (\<exists>b. buddy_alloc s' 2 = Some (Some b, s''))"
proof -
  obtain s a k s' where s: "buddy_reachable 4096 3 s {}" "region_ok 4096 3" "buddy_alloc s 2 = Some (Some (a, k), s')"
    using demo_alloc by blast
  have r: "buddy_reachable 4096 3 s' {(a, k)}" using buddy_reachable.alloc [OF s(1,3)] by simp
  have "\<exists>s2. fold_panics (\<lambda>b s. buddy_free s (fst b) (snd b)) [(a, k)] s' = Some s2 \<and> allocated_pages s2 = 0 \<and>
      (\<exists>a j s''. buddy_alloc s2 2 = Some (Some (a, j), s''))"
    by (rule buddy_free_all_restores [OF s(2) r, where n = 2 and k = 1]) (simp_all add: MAX_ORDER_def)
  then show ?thesis using r by (fastforce split: option.splits)
qed

end
