(* ===== verification/Mem.thy ===== *)
theory Mem
  imports Buddy_Spec
begin

text \<open>
  The kernel heap of \<^verbatim>\<open>memory/mem.rs\<close>: \<open>ExtendedBuddyPageAllocator\<close> puts a
  table of one byte per page in the first block it allocates and remembers there the order of
  every block handed out, so that a block can be freed from its address alone. The global
  allocator and the choice of the memory region at boot sit on top of it.

  The bytes of the blocks handed out (the order table among them) are \<open>bytes\<close>; the list
  nodes of free blocks are the \<open>memory\<close> of the buddy allocator. The two views never meet:
  the buddy allocator writes to free blocks only (\<open>buddy_alloc_correct\<close>,
  \<open>buddy_free_correct\<close>).
\<close>

section \<open>The extended allocator\<close>

record ExtendedBuddyPageAllocator =
  allocator :: BuddyPageAllocator
  orders :: nat
  bytes :: "nat \<Rightarrow> u8"

definition write_bytes :: "(nat \<Rightarrow> u8) \<Rightarrow> nat \<Rightarrow> u8 \<Rightarrow> nat \<Rightarrow> (nat \<Rightarrow> u8)" where
  "write_bytes m p v n = (\<lambda>x. if p \<le> x \<and> x < p + n then v else m x)"

definition page_index :: "BuddyPageAllocator \<Rightarrow> nat \<Rightarrow> nat panics" where
  "page_index b addr = do { off \<leftarrow> sub64 addr (get_base_addr b); Some (off div PAGE_SIZE) }"

definition mark_used ::
    "ExtendedBuddyPageAllocator \<Rightarrow> nat \<Rightarrow> nat \<Rightarrow> ExtendedBuddyPageAllocator panics" where
  "mark_used x addr order = do {
     i \<leftarrow> page_index (allocator x) addr;
     Some (x\<lparr>bytes := (bytes x)(orders x + i := of_nat order)\<rparr>)
   }"

definition mark_free ::
    "ExtendedBuddyPageAllocator \<Rightarrow> nat \<Rightarrow> ExtendedBuddyPageAllocator panics" where
  "mark_free x addr = do {
     i \<leftarrow> page_index (allocator x) addr;
     Some (x\<lparr>bytes := (bytes x)(orders x + i := 0xFF)\<rparr>)
   }"

definition get_order :: "ExtendedBuddyPageAllocator \<Rightarrow> nat \<Rightarrow> u8 option panics" where
  "get_order x addr = do {
     i \<leftarrow> page_index (allocator x) addr;
     (let v = bytes x (orders x + i) in Some (if v = 0xFF then None else Some v))
   }"

definition is_in_range :: "ExtendedBuddyPageAllocator \<Rightarrow> nat \<Rightarrow> bool panics" where
  "is_in_range x addr = do {
     i \<leftarrow> page_index (allocator x) addr;
     Some (i < get_page_count (allocator x))
   }"

definition ext_new ::
    "(nat \<Rightarrow> u8) \<Rightarrow> BuddyPageAllocator \<Rightarrow> ExtendedBuddyPageAllocator option panics" where
  "ext_new m b = do {
     (r, b1) \<leftarrow> buddy_alloc b (div_ceil (get_page_count b) PAGE_SIZE);
     case r of
       None \<Rightarrow> Some None
     | Some (ord, o1) \<Rightarrow> do {
         x \<leftarrow> mark_used \<lparr>allocator = b1, orders = ord,
                 bytes = write_bytes m ord 0xFF (get_page_count b1)\<rparr> ord o1;
         Some (Some x)
       }
   }"

definition ext_alloc ::
    "ExtendedBuddyPageAllocator \<Rightarrow> nat \<Rightarrow> (nat option \<times> ExtendedBuddyPageAllocator) panics" where
  "ext_alloc x sz = do {
     (r, b1) \<leftarrow> buddy_alloc (allocator x) (div_ceil sz PAGE_SIZE);
     case r of
       None \<Rightarrow> Some (None, x\<lparr>allocator := b1\<rparr>)
     | Some (addr, order) \<Rightarrow> do {
         x1 \<leftarrow> mark_used (x\<lparr>allocator := b1\<rparr>) addr order;
         Some (Some addr, x1)
       }
   }"

definition ext_calloc ::
    "ExtendedBuddyPageAllocator \<Rightarrow> nat \<Rightarrow> (nat option \<times> ExtendedBuddyPageAllocator) panics" where
  "ext_calloc x sz = do {
     (r, x1) \<leftarrow> ext_alloc x sz;
     case r of
       None \<Rightarrow> Some (None, x1)
     | Some addr \<Rightarrow> Some (Some addr, x1\<lparr>bytes := write_bytes (bytes x1) addr 0 sz\<rparr>)
   }"

definition ext_free ::
    "ExtendedBuddyPageAllocator \<Rightarrow> nat \<Rightarrow> ExtendedBuddyPageAllocator panics" where
  "ext_free x addr = do {
     in_range \<leftarrow> is_in_range x addr;
     if \<not> in_range then Some x
     else do {
       ord \<leftarrow> get_order x addr;
       case ord of
         None \<Rightarrow> Some x
       | Some order \<Rightarrow> do {
           b1 \<leftarrow> buddy_free (allocator x) addr (unat order);
           mark_free (x\<lparr>allocator := b1\<rparr>) addr
         }
     }
   }"

section \<open>The global allocator\<close>

record Layout =
  layout_size :: nat
  layout_align :: nat

type_synonym main_allocator = "ExtendedBuddyPageAllocator option"

definition global_alloc :: "main_allocator \<Rightarrow> Layout \<Rightarrow> (nat \<times> main_allocator) panics" where
  "global_alloc g layout =
     (if layout_align layout > 4096 then Some (0, g)
      else case g of
        None \<Rightarrow> None
      | Some x \<Rightarrow> do {
          (r, x1) \<leftarrow> ext_alloc x (max (layout_size layout) 1);
          Some (case r of None \<Rightarrow> 0 | Some addr \<Rightarrow> addr, Some x1)
        })"

definition global_dealloc :: "main_allocator \<Rightarrow> nat \<Rightarrow> Layout \<Rightarrow> main_allocator panics" where
  "global_dealloc g ptr layout =
     (if layout_size layout = 0 then Some g
      else if layout_align layout > 4096 then Some g
      else case g of
        None \<Rightarrow> Some None
      | Some x \<Rightarrow> do { x1 \<leftarrow> ext_free x ptr; Some (Some x1) })"

section \<open>Choosing the region at boot\<close>

record OsMemoryRegion =
  region_start :: nat
  region_end :: nat
  region_usable :: nat

definition DIRECT_MAPPING_OFFSET :: nat where
  "DIRECT_MAPPING_OFFSET = 0xFFFFA00000000000"

definition physical_to_virtual :: "nat \<Rightarrow> nat panics" where
  "physical_to_virtual phys = add64 phys DIRECT_MAPPING_OFFSET"

definition MB2 :: nat where
  "MB2 = 2 * 1024 * 1024"

definition align_down :: "nat \<Rightarrow> nat \<Rightarrow> nat panics" where
  "align_down addr align = do { m \<leftarrow> sub64 align 1; Some (addr AND (2 ^ 64 - 1 - m)) }"

definition align_up :: "nat \<Rightarrow> nat \<Rightarrow> nat panics" where
  "align_up addr align = do {
     t \<leftarrow> add64 addr align;
     t1 \<leftarrow> sub64 t 1;
     m \<leftarrow> sub64 align 1;
     Some (t1 AND (2 ^ 64 - 1 - m))
   }"

fun mem_init ::
    "(nat \<Rightarrow> FreeBlock) \<Rightarrow> (nat \<Rightarrow> u8) \<Rightarrow> nat \<Rightarrow> nat \<Rightarrow> OsMemoryRegion list \<Rightarrow> main_allocator
      \<Rightarrow> main_allocator panics" where
  "mem_init fm m pml4_ptr_phys begin_usable_memory [] g = Some g"
| "mem_init fm m pml4_ptr_phys begin_usable_memory (region # regions) g =
     (if region_usable region = 0 \<or> region_start region < 0x10000 \<or> region_end region < 0x10000
      then mem_init fm m pml4_ptr_phys begin_usable_memory regions g
      else do {
        s \<leftarrow> (if region_start region = pml4_ptr_phys then align_up begin_usable_memory MB2
              else Some (region_start region));
        start \<leftarrow> physical_to_virtual s;
        end_virt \<leftarrow> physical_to_virtual (region_end region);
        case g of
          None \<Rightarrow> do {
            len \<leftarrow> sub64 end_virt start;
            b \<leftarrow> buddy_new fm start (len div 4096);
            r \<leftarrow> ext_new m b;
            case r of
              None \<Rightarrow> None
            | Some x \<Rightarrow> mem_init fm m pml4_ptr_phys begin_usable_memory regions (Some x)
          }
        | Some _ \<Rightarrow> None
      })"

section \<open>The order table\<close>

definition table_ok :: "ExtendedBuddyPageAllocator \<Rightarrow> (nat \<times> nat) set \<Rightarrow> bool" where
  "table_ok x B \<longleftrightarrow> (\<forall>i k. (base_addr (allocator x) + PAGE_SIZE * i, k) \<in> B \<longrightarrow> bytes x (orders x + i) = of_nat k) \<and>
     (\<forall>i < page_count (allocator x). (\<forall>k. (base_addr (allocator x) + PAGE_SIZE * i, k) \<notin> B) \<longrightarrow>
        bytes x (orders x + i) = 0xFF)"

definition ext_inv :: "ExtendedBuddyPageAllocator \<Rightarrow> (nat \<times> nat) set \<Rightarrow> bool" where
  "ext_inv x V \<longleftrightarrow> (\<exists>k0. (orders x, k0) \<notin> V \<and> alloc_inv (allocator x) (insert (orders x, k0) V) \<and>
     page_count (allocator x) \<le> PAGE_SIZE * 2 ^ k0 \<and> table_ok x (insert (orders x, k0) V))"

definition table_block :: "ExtendedBuddyPageAllocator \<Rightarrow> nat \<times> nat" where
  "table_block x =
     (orders x, unat (bytes x (orders x + (orders x - base_addr (allocator x)) div PAGE_SIZE)))"

definition no_room :: "ExtendedBuddyPageAllocator \<Rightarrow> (nat \<times> nat) set \<Rightarrow> nat \<Rightarrow> bool" where
  "no_room x V sz \<longleftrightarrow>
     (\<forall>q k. sz \<le> PAGE_SIZE * 2 ^ k \<and> k \<le> MAX_ORDER \<and>
        (q + 1) * 2 ^ k \<le> min (page_count (allocator x)) (2 ^ 29 - 1) \<longrightarrow>
        (\<exists>b \<in> insert (table_block x) V.
           addr_span (base_addr (allocator x) + PAGE_SIZE * (q * 2 ^ k), k) \<inter> addr_span b \<noteq> {}))"

lemma alloc_inv_page:
  assumes "alloc_inv b B" "(a, k) \<in> B"
  shows "\<exists>i. a = base_addr b + PAGE_SIZE * i \<and> i < page_count b \<and> page_index b a = Some i \<and> k \<le> MAX_ORDER"
proof -
  obtain U q where U: "buddy_inv b U" "(q, k) \<in> U" "a = baddr b k q"
    using assms unfolding alloc_inv_def blk_addr_def by auto
  obtain L where t: "tiling (managed b) (FB L \<union> U)" using U(1) unfolding buddy_inv_def buddy_ok_def by blast
  have "k \<le> MAX_ORDER" "(q + 1) * 2 ^ k \<le> page_count b"
    using tiling_bound [OF t, of q k] U(2) by (simp_all add: managed_def)
  moreover have "q * 2 ^ k < (q + 1) * 2 ^ k" by simp
  ultimately have "q * 2 ^ k < page_count b" "k \<le> MAX_ORDER" by linarith+
  then show ?thesis using U(3)
    by (intro exI [of _ "q * 2 ^ k"]) (simp add: baddr_def page_index_def sub64_def get_base_addr_def PAGE_SIZE_def)
qed

lemma alloc_inv_same_addr:
  assumes "alloc_inv b B" "(a, k) \<in> B" "(a, j) \<in> B"
  shows "k = j"
proof (rule ccontr)
  assume "k \<noteq> j"
  then have "addr_span (a, k) \<inter> addr_span (a, j) = {}" using bpa.disjoint_law [OF assms] by simp
  moreover have "a \<in> addr_span (a, k)" "a \<in> addr_span (a, j)" by (simp_all add: addr_span_def PAGE_SIZE_def)
  ultimately show False by blast
qed

lemma order_byte: "k \<le> MAX_ORDER \<Longrightarrow> unat (of_nat k :: u8) = k \<and> (of_nat k :: u8) \<noteq> 0xFF"
proof -
  assume k: "k \<le> MAX_ORDER"
  then have "unat (of_nat k :: u8) = k" by (simp add: MAX_ORDER_def unat_of_nat)
  moreover have "unat (0xFF :: u8) = 255" by simp
  ultimately show ?thesis using k by (auto simp: MAX_ORDER_def)
qed

lemma table_byte_in_orders:
  assumes "ext_inv x V" "b \<in> V" "y \<in> addr_span b" "i < page_count (allocator x)"
  shows "y \<noteq> orders x + i"
proof
  assume y: "y = orders x + i"
  obtain k0 where k0: "(orders x, k0) \<notin> V" "alloc_inv (allocator x) (insert (orders x, k0) V)"
      "page_count (allocator x) \<le> PAGE_SIZE * 2 ^ k0" using assms(1) unfolding ext_inv_def by blast
  have "addr_span (orders x, k0) \<inter> addr_span b = {}"
    using bpa.disjoint_law [OF k0(2), of "(orders x, k0)" b] k0(1) assms(2) by blast
  moreover have "y \<in> addr_span (orders x, k0)" using y assms(4) k0(3) by (simp add: addr_span_def)
  ultimately show False using assms(3) by blast
qed

lemma table_ok_mark:
  assumes "table_ok x B" "(a, k) \<notin> B" "a = base_addr b + PAGE_SIZE * i" "\<forall>j. j \<noteq> k \<longrightarrow> (a, j) \<notin> B"
    and "base_addr b = base_addr (allocator x)" "page_count b = page_count (allocator x)"
  shows "table_ok (x\<lparr>allocator := b, bytes := (bytes x)(orders x + i := of_nat k)\<rparr>) (insert (a, k) B)"
  using assms unfolding table_ok_def by (auto simp: PAGE_SIZE_def)

lemma table_ok_unmark:
  assumes "table_ok x B" "(a, k) \<in> B" "a = base_addr b + PAGE_SIZE * i" "\<forall>j. j \<noteq> k \<longrightarrow> (a, j) \<notin> B"
    and "base_addr b = base_addr (allocator x)" "page_count b = page_count (allocator x)"
  shows "table_ok (x\<lparr>allocator := b, bytes := (bytes x)(orders x + i := 0xFF)\<rparr>) (B - {(a, k)})"
  using assms unfolding table_ok_def by (auto simp: PAGE_SIZE_def)

lemma pages_of_size: "sz < 2 ^ 64 \<Longrightarrow> div_ceil sz PAGE_SIZE \<le> 2 ^ 63"
  by (simp add: div_ceil_le_iff PAGE_SIZE_def)

lemma table_block_order:
  assumes "alloc_inv (allocator x) (insert (orders x, k0) V)" "table_ok x (insert (orders x, k0) V)"
  shows "table_block x = (orders x, k0)"
proof -
  obtain i where i: "orders x = base_addr (allocator x) + PAGE_SIZE * i" "k0 \<le> MAX_ORDER"
    using alloc_inv_page [OF assms(1), of "orders x" k0] by blast
  have "(base_addr (allocator x) + PAGE_SIZE * i, k0) \<in> insert (orders x, k0) V" using i(1) by simp
  then have "bytes x (orders x + i) = of_nat k0" using assms(2) unfolding table_ok_def by blast
  moreover have "(orders x - base_addr (allocator x)) div PAGE_SIZE = i" using i(1) by (simp add: PAGE_SIZE_def)
  ultimately show ?thesis using order_byte [OF i(2)] by (simp add: table_block_def)
qed

lemma refused_no_room:
  assumes "alloc_inv (allocator x) (insert (orders x, k0) V)" "table_ok x (insert (orders x, k0) V)"
    and "buddy_alloc (allocator x) (div_ceil sz PAGE_SIZE) = Some (None, b)" "sz < 2 ^ 64"
  shows "sz = 0 \<or> no_room x V sz"
proof (rule buddy_alloc_cases [OF assms(1) pages_of_size [OF assms(4)]])
  fix U assume U: "insert (orders x, k0) V = blk_addr (allocator x) ` U"
    and n: "div_ceil sz PAGE_SIZE = 0 \<or> no_free_run (allocator x) U (div_ceil sz PAGE_SIZE)"
  have le: "div_ceil sz PAGE_SIZE \<le> m \<longleftrightarrow> sz \<le> PAGE_SIZE * m" for m
    using div_ceil_le_iff [of PAGE_SIZE sz m] by (simp add: PAGE_SIZE_def mult.commute)
  have m: "managed (allocator x) = min (page_count (allocator x)) (2 ^ 29 - 1)"
    by (simp add: managed_def MAX_ORDER_def)
  show ?thesis
  proof (cases "sz = 0")
    case False
    then have "no_free_run (allocator x) U (div_ceil sz PAGE_SIZE)" using n le [of 0] by simp
    from no_free_run_span [OF this] have "no_room x V sz"
      unfolding no_room_def table_block_order [OF assms(1,2)] U le m baddr_def by blast
    then show ?thesis ..
  qed simp
next
  fix q k s' assume "buddy_alloc (allocator x) (div_ceil sz PAGE_SIZE) = Some (Some (baddr (allocator x) k q, k), s')"
  with assms(3) show ?thesis by simp
qed

lemma ext_alloc_inv:
  assumes inv: "ext_inv x V" and sz: "sz < 2 ^ 64"
  shows "ext_alloc x sz = Some (None, x) \<and> (sz = 0 \<or> no_room x V sz) \<or>
    (\<exists>a k x'. ext_alloc x sz = Some (Some a, x') \<and> (a, k) \<notin> V \<and> ext_inv x' (insert (a, k) V) \<and>
       sz \<le> PAGE_SIZE * 2 ^ k \<and> (\<forall>j < k. 2 ^ j < div_ceil sz PAGE_SIZE) \<and>
       page_count (allocator x') = page_count (allocator x) \<and> base_addr (allocator x') = base_addr (allocator x) \<and>
       (\<forall>b \<in> V. \<forall>y \<in> addr_span b. bytes x' y = bytes x y) \<and>
       bytes x' = (bytes x)(orders x + (a - base_addr (allocator x)) div PAGE_SIZE := of_nat k))"
proof -
  let ?b = "allocator x" let ?n = "div_ceil sz PAGE_SIZE"
  obtain k0 where k0: "(orders x, k0) \<notin> V" "alloc_inv ?b (insert (orders x, k0) V)"
      "page_count ?b \<le> PAGE_SIZE * 2 ^ k0" "table_ok x (insert (orders x, k0) V)"
    using inv unfolding ext_inv_def by blast
  obtain r b1 where r: "buddy_alloc ?b ?n = Some (r, b1)"
    using bpa.alloc_total [OF k0(2) pages_of_size [OF sz]] by blast
  show ?thesis
  proof (cases r)
    case None
    then have "b1 = ?b" using bpa.alloc_None [OF k0(2)] r by blast
    moreover have "sz = 0 \<or> no_room x V sz" using refused_no_room [OF k0(2,4) _ sz] r None by simp
    ultimately show ?thesis using r None by (simp add: ext_alloc_def)
  next
    case (Some p)
    obtain a k where p: "p = (a, k)" by (cases p)
    have r': "buddy_alloc ?b ?n = Some (Some (a, k), b1)" using r Some p by simp
    note S = buddy_alloc_Some [OF k0(2) r']
    have inv1: "alloc_inv b1 (insert (a, k) (insert (orders x, k0) V))" using S by blast
    obtain i where i: "a = base_addr b1 + PAGE_SIZE * i" "i < page_count b1" "page_index b1 a = Some i"
      using alloc_inv_page [OF inv1, of a k] by blast
    let ?x = "x\<lparr>allocator := b1, bytes := (bytes x)(orders x + i := of_nat k)\<rparr>"
    have e: "ext_alloc x sz = Some (Some a, ?x)"
      using r' i(3) by (simp add: ext_alloc_def mark_used_def)
    have uniq: "\<forall>j. j \<noteq> k \<longrightarrow> (a, j) \<notin> insert (orders x, k0) V"
      using alloc_inv_same_addr [OF inv1, of a k] by blast
    have bp: "base_addr b1 = base_addr ?b" "page_count b1 = page_count ?b" using S by blast+
    have tb: "table_ok ?x (insert (a, k) (insert (orders x, k0) V))"
      using S by (intro table_ok_mark [OF k0(4) _ i(1) uniq bp]) blast
    have "ext_inv ?x (insert (a, k) V)"
      unfolding ext_inv_def using k0(1,3) S inv1 tb bp
      by (intro exI [of _ k0]) (auto simp: insert_commute)
    moreover have "sz \<le> PAGE_SIZE * 2 ^ k"
      using S div_ceil_le_iff [of PAGE_SIZE sz "2 ^ k"] by (simp add: PAGE_SIZE_def mult.commute)
    moreover have "\<forall>b \<in> V. \<forall>y \<in> addr_span b. bytes ?x y = bytes x y"
      using table_byte_in_orders [OF inv] i(2) bp by simp
    moreover have "(a, k) \<notin> V" "page_count (allocator ?x) = page_count ?b" "base_addr (allocator ?x) = base_addr ?b"
      "\<forall>j < k. 2 ^ j < ?n" using S bp by simp_all
    moreover have "bytes ?x = (bytes x)(orders x + (a - base_addr ?b) div PAGE_SIZE := of_nat k)"
      using i(1) bp by (simp add: PAGE_SIZE_def)
    ultimately show ?thesis using e by blast
  qed
qed

lemma ext_free_inv:
  assumes inv: "ext_inv x V" and a: "(a, k) \<in> V"
  shows "\<exists>x'. ext_free x a = Some x' \<and> ext_inv x' (V - {(a, k)}) \<and> orders x' = orders x \<and>
    base_addr (allocator x') = base_addr (allocator x) \<and> page_count (allocator x') = page_count (allocator x) \<and>
    (\<forall>b \<in> V - {(a, k)}. \<forall>y \<in> addr_span b. bytes x' y = bytes x y)"
proof -
  let ?b = "allocator x"
  obtain k0 where k0: "(orders x, k0) \<notin> V" "alloc_inv ?b (insert (orders x, k0) V)"
      "page_count ?b \<le> PAGE_SIZE * 2 ^ k0" "table_ok x (insert (orders x, k0) V)"
    using inv unfolding ext_inv_def by blast
  let ?B = "insert (orders x, k0) V"
  have aB: "(a, k) \<in> ?B" using a by blast
  obtain i where i: "a = base_addr ?b + PAGE_SIZE * i" "i < page_count ?b" "page_index ?b a = Some i" "k \<le> MAX_ORDER"
    using alloc_inv_page [OF k0(2) aB] by blast
  obtain b1 where b1: "buddy_free ?b a k = Some b1" "alloc_inv b1 (?B - {(a, k)})"
      "base_addr b1 = base_addr ?b" "page_count b1 = page_count ?b"
    using buddy_free_total [OF k0(2) aB] by blast
  have byte: "bytes x (orders x + i) = of_nat k" using k0(4) i(1) aB unfolding table_ok_def by blast
  have pi: "page_index b1 a = Some i" using i(3) b1(3) by (simp add: page_index_def get_base_addr_def)
  let ?x = "x\<lparr>allocator := b1, bytes := (bytes x)(orders x + i := 0xFF)\<rparr>"
  have e: "ext_free x a = Some ?x"
    using i(2,3) byte b1(1) pi order_byte [OF i(4)]
    by (simp add: ext_free_def is_in_range_def get_order_def mark_free_def get_page_count_def)
  have uniq: "\<forall>j. j \<noteq> k \<longrightarrow> (a, j) \<notin> ?B" using alloc_inv_same_addr [OF k0(2) aB] by blast
  have "a = base_addr b1 + PAGE_SIZE * i" using i(1) b1(3) by simp
  then have tb: "table_ok ?x (?B - {(a, k)})" by (rule table_ok_unmark [OF k0(4) aB _ uniq b1(3,4)])
  have "?B - {(a, k)} = insert (orders x, k0) (V - {(a, k)})" using k0(1) a by blast
  then have "ext_inv ?x (V - {(a, k)})"
    unfolding ext_inv_def using k0(1,3) b1 tb by (intro exI [of _ k0]) auto
  moreover have "\<forall>b \<in> V - {(a, k)}. \<forall>y \<in> addr_span b. bytes ?x y = bytes x y"
    using table_byte_in_orders [OF inv, of _ "orders x + i" i] i(2) by auto
  moreover have "orders ?x = orders x" "base_addr (allocator ?x) = base_addr ?b" "page_count (allocator ?x) = page_count ?b"
    using b1(3,4) by simp_all
  ultimately show ?thesis using e by blast
qed

lemma ext_free_ignored:
  assumes inv: "ext_inv x V" and a: "a = base_addr (allocator x) + PAGE_SIZE * i"
    and free: "\<forall>k. (a, k) \<notin> V" "a \<noteq> orders x"
  shows "ext_free x a = Some x"
proof -
  obtain k0 where k0: "table_ok x (insert (orders x, k0) V)" using inv unfolding ext_inv_def by blast
  have pi: "page_index (allocator x) a = Some i"
    using a by (simp add: page_index_def sub64_def get_base_addr_def PAGE_SIZE_def)
  have "bytes x (orders x + i) = 0xFF" if "i < page_count (allocator x)"
    using k0 a free that unfolding table_ok_def by blast
  then show ?thesis
    using pi by (auto simp: ext_free_def is_in_range_def get_order_def get_page_count_def)
qed

lemma ext_double_free:
  assumes inv: "ext_inv x V" and a: "(a, k) \<in> V" and f: "ext_free x a = Some x'"
  shows "ext_free x' a = Some x'"
proof -
  obtain k0 where k0: "(orders x, k0) \<notin> V" "alloc_inv (allocator x) (insert (orders x, k0) V)"
    using inv unfolding ext_inv_def by blast
  obtain i where i: "a = base_addr (allocator x) + PAGE_SIZE * i" using alloc_inv_page [OF k0(2), of a k] a by blast
  have x': "ext_inv x' (V - {(a, k)})" "orders x' = orders x" "base_addr (allocator x') = base_addr (allocator x)"
    using ext_free_inv [OF inv a] f by auto
  have "j = k" if "(a, j) \<in> insert (orders x, k0) V" for j using alloc_inv_same_addr [OF k0(2) that, of k] a by blast
  then have "\<forall>j. (a, j) \<notin> V - {(a, k)}" "a \<noteq> orders x'" using k0(1) a x'(2) by auto
  then show ?thesis using ext_free_ignored [OF x'(1), of a i] i x'(3) by simp
qed

section \<open>A heap that frees by address\<close>

locale addr_heap =
  fixes halloc :: "'s \<Rightarrow> nat \<Rightarrow> (nat option \<times> 's) panics"
    and hfree :: "'s \<Rightarrow> nat \<Rightarrow> 's panics"
    and hinv :: "'s \<Rightarrow> (nat \<times> nat) set \<Rightarrow> bool"
    and hbytes :: "'s \<Rightarrow> nat \<Rightarrow> u8"
    and hfull :: "'s \<Rightarrow> (nat \<times> nat) set \<Rightarrow> nat \<Rightarrow> bool"
  assumes halloc_law: "hinv s V \<Longrightarrow> sz < 2 ^ 64 \<Longrightarrow>
      halloc s sz = Some (None, s) \<and> (sz = 0 \<or> hfull s V sz) \<or>
      (\<exists>a k s'. halloc s sz = Some (Some a, s') \<and> (a, k) \<notin> V \<and> hinv s' (insert (a, k) V) \<and>
         sz \<le> PAGE_SIZE * 2 ^ k \<and> (\<forall>b \<in> V. \<forall>y \<in> addr_span b. hbytes s' y = hbytes s y))"
    and hfree_law: "hinv s V \<Longrightarrow> (a, k) \<in> V \<Longrightarrow> \<exists>s'. hfree s a = Some s' \<and> hinv s' (V - {(a, k)}) \<and>
      (\<forall>b \<in> V - {(a, k)}. \<forall>y \<in> addr_span b. hbytes s' y = hbytes s y)"
    and hdisjoint: "hinv s V \<Longrightarrow> b \<in> V \<Longrightarrow> c \<in> V \<Longrightarrow> b \<noteq> c \<Longrightarrow> addr_span b \<inter> addr_span c = {}"
begin

lemma halloc_cases:
  assumes "hinv s V" "sz < 2 ^ 64"
  obtains "halloc s sz = Some (None, s)" "sz = 0 \<or> hfull s V sz"
  | a k s' where "halloc s sz = Some (Some a, s')" "(a, k) \<notin> V" "hinv s' (insert (a, k) V)"
      "sz \<le> PAGE_SIZE * 2 ^ k" "\<And>b y. b \<in> V \<Longrightarrow> y \<in> addr_span b \<Longrightarrow> hbytes s' y = hbytes s y"
      "\<And>b. b \<in> V \<Longrightarrow> addr_span (a, k) \<inter> addr_span b = {}"
proof -
  consider "halloc s sz = Some (None, s)" "sz = 0 \<or> hfull s V sz"
    | a k s' where "halloc s sz = Some (Some a, s')" "(a, k) \<notin> V" "hinv s' (insert (a, k) V)"
      "sz \<le> PAGE_SIZE * 2 ^ k" "\<forall>b \<in> V. \<forall>y \<in> addr_span b. hbytes s' y = hbytes s y"
    using halloc_law [OF assms] by blast
  then show thesis
  proof cases
    case (2 a k s')
    have "addr_span (a, k) \<inter> addr_span b = {}" if "b \<in> V" for b
      using hdisjoint [OF 2(3), of "(a, k)" b] that 2(2) by blast
    then show thesis using 2 that(2) by blast
  qed (use that(1) in blast)
qed

lemma halloc_hfree:
  assumes "hinv s V" "halloc s sz = Some (Some a, s')" "sz < 2 ^ 64"
  shows "\<exists>s''. hfree s' a = Some s'' \<and> hinv s'' V"
proof (rule halloc_cases [OF assms(1,3)])
  fix b k t assume h: "halloc s sz = Some (Some b, t)" "(b, k) \<notin> V" "hinv t (insert (b, k) V)"
  have e: "b = a" "t = s'" using trans [OF assms(2) [symmetric] h(1)] by simp_all
  have "insert (b, k) V - {(b, k)} = V" using h(2) by simp
  then show ?thesis using hfree_law [OF h(3), of b k] unfolding e by auto
qed (use assms(2) in simp)

end

lemma ext_inv_alloc: "ext_inv x V \<Longrightarrow> b \<in> V \<Longrightarrow> c \<in> V \<Longrightarrow> b \<noteq> c \<Longrightarrow> addr_span b \<inter> addr_span c = {}"
  unfolding ext_inv_def using bpa.disjoint_law by blast

interpretation ext: addr_heap ext_alloc ext_free ext_inv bytes no_room
proof (unfold_locales, goal_cases)
  case (1 s V sz)
  then show ?case using ext_alloc_inv [OF 1] by blast
next
  case (2 s V a k)
  then show ?case using ext_free_inv by blast
next
  case (3 s V b c)
  then show ?case by (rule ext_inv_alloc)
qed

lemma one_page_alloc:
  assumes inv: "alloc_inv s V" and room: "allocated_pages s < managed s"
  shows "\<exists>a k s'. buddy_alloc s 1 = Some (Some (a, k), s')"
proof (rule buddy_alloc_cases [OF inv, of 1])
  fix U assume U: "buddy_inv s U" and none: "(1::nat) = 0 \<or> no_free_run s U 1"
  obtain L where L: "buddy_ok s L U" "allocated_pages s = block_pages U" using U unfolding buddy_inv_def by blast
  have t: "tiling (managed s) (FB L \<union> U)" "FB L \<inter> U = {}" using L(1) unfolding buddy_ok_def by blast+
  have "block_pages (FB L) \<noteq> 0" using buddy_ok_accounts [OF L(1)] L(2) room by simp
  then have "FB L \<noteq> {}" by (auto simp: block_pages_def)
  then obtain q k where b: "(q, k) \<in> FB L" by fastforce
  let ?p = "q * 2 ^ k"
  have "?p + 1 \<le> managed s"
  proof -
    have "q * 2 ^ k + 2 ^ k \<le> managed s" using tiling_bound [OF t(1), of q k] b by (simp add: algebra_simps)
    moreover have "(1::nat) \<le> 2 ^ k" by simp
    ultimately show ?thesis by linarith
  qed
  then obtain c p where c: "c \<in> U" "covers (?p, 0) p" "covers c p"
    using none unfolding no_free_run_def by (force dest: spec [of _ ?p] spec [of _ 0])
  then have "p = ?p" by (simp add: covers_def)
  then have "c = (q, k)" using tiling_unique [OF t(1) _ _ c(3), of "(q, k)"] b c(1) covers_first by blast
  then show ?thesis using b c(1) t(2) by blast
qed (simp, blast)

lemma ext_inv_write:
  assumes inv: "ext_inv x V" and m: "\<And>y. y \<notin> \<Union> (addr_span ` V) \<Longrightarrow> m y = bytes x y"
  shows "ext_inv (x\<lparr>bytes := m\<rparr>) V"
proof -
  obtain k0 where k0: "(orders x, k0) \<notin> V" "alloc_inv (allocator x) (insert (orders x, k0) V)"
      "page_count (allocator x) \<le> PAGE_SIZE * 2 ^ k0" "table_ok x (insert (orders x, k0) V)"
    using inv unfolding ext_inv_def by blast
  have same: "m (orders x + i) = bytes x (orders x + i)" if "i < page_count (allocator x)" for i
    using table_byte_in_orders [OF inv _ _ that] by (intro m) blast
  have "i < page_count (allocator x)" if "(base_addr (allocator x) + PAGE_SIZE * i, k) \<in> insert (orders x, k0) V" for i k
    using alloc_inv_page [OF k0(2) that] by (auto simp: PAGE_SIZE_def)
  then have "table_ok (x\<lparr>bytes := m\<rparr>) (insert (orders x, k0) V)"
    using k0(4) same unfolding table_ok_def by simp
  then show ?thesis unfolding ext_inv_def using k0 by (intro exI [of _ k0]) simp
qed

lemma ext_alloc_aligned:
  assumes "ext_inv x V" "(a, k) \<in> V"
  shows "0 < a \<and> a mod PAGE_SIZE = 0"
proof -
  obtain k0 where k0: "alloc_inv (allocator x) (insert (orders x, k0) V)" using assms(1) unfolding ext_inv_def by blast
  obtain i where "a = base_addr (allocator x) + PAGE_SIZE * i" using alloc_inv_page [OF k0, of a k] assms(2) by blast
  then show ?thesis using alloc_inv_region [OF k0] by (auto simp: layout_ok_def mod_add_eq)
qed

lemma order_table_fits:
  assumes "0 < pc" "pc \<le> 2 ^ 40"
  obtains k where "div_ceil pc PAGE_SIZE \<le> 2 ^ k" "k \<le> MAX_ORDER" "2 ^ k \<le> pc"
proof -
  let ?n = "div_ceil pc PAGE_SIZE"
  have n28: "?n \<le> 2 ^ 28" using assms(2) by (simp add: div_ceil_le_iff PAGE_SIZE_def)
  define k where "k = (LEAST k. ?n \<le> 2 ^ k)"
  have k: "?n \<le> 2 ^ k" unfolding k_def using n28 by (rule LeastI)
  have k28: "k \<le> 28" unfolding k_def using n28 by (rule Least_le)
  have "2 ^ k \<le> pc"
  proof (cases k)
    case 0
    then show ?thesis using assms(1) by simp
  next
    case (Suc j)
    then have "\<not> ?n \<le> 2 ^ j" unfolding k_def by (intro not_less_Least) simp
    moreover have "\<not> ?n \<le> ?n - 1" if "0 < ?n" using that by simp
    ultimately have "2 ^ j \<le> ?n - 1" "\<not> pc \<le> (?n - 1) * PAGE_SIZE"
      using div_ceil_le_iff [of PAGE_SIZE pc "?n - 1"] by (auto simp: PAGE_SIZE_def)
    then show ?thesis using Suc by (simp add: PAGE_SIZE_def)
  qed
  then show thesis using k k28 that by (simp add: MAX_ORDER_def)
qed

lemma ext_new_inv:
  assumes inv: "alloc_inv b {}" and pc: "0 < page_count b" "page_count b \<le> 2 ^ 40"
  shows "\<exists>x. ext_new m b = Some (Some x) \<and> ext_inv x {} \<and> page_count (allocator x) = page_count b \<and>
    base_addr (allocator x) = base_addr b \<and> (\<exists>j. allocated_pages (allocator x) = 2 ^ j \<and> (\<forall>i < j. 2 ^ i < div_ceil (page_count b) PAGE_SIZE))"
proof -
  let ?pc = "page_count b" let ?n = "div_ceil ?pc PAGE_SIZE"
  obtain k where k: "?n \<le> 2 ^ k" "k \<le> MAX_ORDER" "2 ^ k \<le> ?pc" using order_table_fits [OF pc] .
  have "\<not> ?pc \<le> 0 * PAGE_SIZE" using pc(1) by simp
  then have "0 < ?n" using div_ceil_le_iff [of PAGE_SIZE ?pc 0] by (simp add: PAGE_SIZE_def)
  then obtain a j b1 where r: "buddy_alloc b ?n = Some (Some (a, j), b1)"
    using alloc_when_empty [OF inv _ k] by blast
  note S = buddy_alloc_Some [OF inv r]
  have inv1: "alloc_inv b1 {(a, j)}" using S by simp
  obtain i where i: "a = base_addr b1 + PAGE_SIZE * i" "i < page_count b1" "page_index b1 a = Some i"
    using alloc_inv_page [OF inv1, of a j] by blast
  let ?x = "\<lparr>allocator = b1, orders = a, bytes = write_bytes m a 0xFF (page_count b1)\<rparr>"
  let ?y = "?x\<lparr>allocator := b1, bytes := (bytes ?x)(orders ?x + i := of_nat j)\<rparr>"
  have e: "ext_new m b = Some (Some ?y)"
    using r i(3) by (simp add: ext_new_def get_page_count_def mark_used_def)
  have t0: "table_ok ?x {}" by (simp add: table_ok_def write_bytes_def)
  have "table_ok ?y {(a, j)}" by (rule table_ok_mark [OF t0 _ i(1)]) simp_all
  moreover have "page_count b1 \<le> PAGE_SIZE * 2 ^ j"
    using S div_ceil_le_iff [of PAGE_SIZE ?pc "2 ^ j"] by (simp add: PAGE_SIZE_def mult.commute)
  ultimately have "ext_inv ?y {}" using inv1 unfolding ext_inv_def by (intro exI [of _ j]) simp
  moreover have "allocated_pages (allocator ?y) = 2 ^ j" using alloc_inv_accounts [OF inv1] by simp
  moreover have "page_count (allocator ?y) = page_count b" "base_addr (allocator ?y) = base_addr b" "\<forall>i < j. 2 ^ i < ?n" using S by auto
  ultimately show ?thesis using e by blast
qed

lemma page_aligned_power:
  assumes "(2::nat) ^ e \<le> 4096"
  shows "2 ^ e dvd PAGE_SIZE"
proof -
  have "(2::nat) ^ e \<le> 2 ^ 12" using assms by simp
  then have "e \<le> 12" by (rule power_le_imp_le_exp [rotated]) simp
  then have "(2::nat) ^ e dvd 2 ^ 12" by (rule le_imp_power_dvd)
  then show ?thesis by (simp add: PAGE_SIZE_def)
qed

section \<open>The kernel heap\<close>

definition demo_heap :: "ExtendedBuddyPageAllocator option panics" where
  "demo_heap = do {
     b \<leftarrow> buddy_new (\<lambda>_. \<lparr>fb_next = None, fb_order = 0\<rparr>) 4096 7;
     ext_new (\<lambda>_. 0) b
   }"

lemma demo_heap_inv:
  "\<exists>x. demo_heap = Some (Some x) \<and> ext_inv x {} \<and> (\<exists>a k b. buddy_alloc (allocator x) 1 = Some (Some (a, k), b))"
proof -
  obtain b where b: "buddy_new (\<lambda>_. \<lparr>fb_next = None, fb_order = 0\<rparr>) 4096 7 = Some b" "buddy_inv b {}" "page_count b = 7"
    using buddy_new_inv [of 4096 7 "\<lambda>_. \<lparr>fb_next = None, fb_order = 0\<rparr>"] by (auto simp: PAGE_SIZE_def)
  have "alloc_inv b {}" unfolding alloc_inv_def using b(2) by blast
  then obtain x j where x: "ext_new (\<lambda>_. 0) b = Some (Some x)" "ext_inv x {}" "page_count (allocator x) = 7"
      "allocated_pages (allocator x) = 2 ^ j" "\<forall>i < j. 2 ^ i < div_ceil 7 PAGE_SIZE"
    using ext_new_inv [of b "\<lambda>_. 0"] b by auto
  have "j = 0" using x(5) by (cases j) (auto simp: div_ceil_def PAGE_SIZE_def)
  then have "allocated_pages (allocator x) < managed (allocator x)" using x(3,4) by (simp add: managed_def MAX_ORDER_def)
  then have "\<exists>a k b. buddy_alloc (allocator x) 1 = Some (Some (a, k), b)"
    using one_page_alloc x(2) unfolding ext_inv_def by blast
  then show ?thesis using x(1,2) b by (simp add: demo_heap_def)
qed

text \<open>
  C5: In a state of the kernel heap that keeps its invariant (which new establishes and every
  operation keeps), a request of fewer than 2^64 bytes either fails with the heap unchanged,
  and then asks for 0 bytes or meets no free aligned run of pages of sufficient order among
  the managed pages, or returns a block with room for it, disjoint from all live blocks, with
  their bytes unchanged; freeing by address then finds the order in the table and restores the
  heap, and a second free of the same address changes nothing.
\<close>

theorem ext_alloc_free_correct:
  assumes "ext_inv x V" "sz < 2 ^ 64"
  shows "ext_alloc x sz = Some (None, x) \<and> (sz = 0 \<or> no_room x V sz) \<or>
    (\<exists>a k x'. ext_alloc x sz = Some (Some a, x') \<and> ext_inv x' (insert (a, k) V) \<and>
       sz \<le> PAGE_SIZE * 2 ^ k \<and> (\<forall>b \<in> V. addr_span (a, k) \<inter> addr_span b = {}) \<and>
       (\<forall>b \<in> V. \<forall>y \<in> addr_span b. bytes x' y = bytes x y) \<and>
       (\<exists>x''. ext_free x' a = Some x'' \<and> ext_inv x'' V \<and>
          (\<forall>b \<in> V. \<forall>y \<in> addr_span b. bytes x'' y = bytes x y) \<and> ext_free x'' a = Some x''))"
proof (rule ext.halloc_cases [OF assms])
  fix a k x'
  assume h: "ext_alloc x sz = Some (Some a, x')" "(a, k) \<notin> V" "ext_inv x' (insert (a, k) V)"
    "sz \<le> PAGE_SIZE * 2 ^ k" "\<And>b y. b \<in> V \<Longrightarrow> y \<in> addr_span b \<Longrightarrow> bytes x' y = bytes x y"
    "\<And>b. b \<in> V \<Longrightarrow> addr_span (a, k) \<inter> addr_span b = {}"
  have V: "insert (a, k) V - {(a, k)} = V" using h(2) by simp
  obtain x'' where x'': "ext_free x' a = Some x''" "ext_inv x'' V" "\<forall>b \<in> V. \<forall>y \<in> addr_span b. bytes x'' y = bytes x' y"
    using ext_free_inv [OF h(3), of a k] unfolding V by blast
  have "ext_free x'' a = Some x''" by (rule ext_double_free [OF h(3) _ x''(1), of k]) simp
  moreover have "\<forall>b \<in> V. \<forall>y \<in> addr_span b. bytes x'' y = bytes x y" using h(5) x''(3) by simp
  ultimately show ?thesis using h x''(1,2) by blast
qed blast

theorem ext_alloc_free_correct_witness:
  "\<exists>x. demo_heap = Some (Some x) \<and> (\<exists>r x'. ext_alloc x 5000 = Some (r, x'))"
proof -
  obtain x where "demo_heap = Some (Some x)" "ext_inv x {}" using demo_heap_inv by blast
  then show ?thesis using ext_alloc_free_correct [of x "{}" 5000] by auto
qed



text \<open>
  C7: For a layout whose alignment is a power of two: above 4096 alloc returns null and dealloc
  does nothing; otherwise alloc panics before the heap exists, and with a heap returns null
  with the heap unchanged, only when there is no free run for the size, or an address aligned
  as the layout asks, with room for it, disjoint from all live blocks, with their bytes
  unchanged. Deallocating it with the same layout restores the heap when the size is not 0; a
  layout of size 0 has been given a block, and its deallocation returns without freeing it.
\<close>

theorem global_alloc_correct:
  assumes "ext_inv x V" "layout_size l < 2 ^ 64" "layout_align l = 2 ^ e"
  shows "if 4096 < layout_align l
    then global_alloc (Some x) l = Some (0, Some x) \<and> (\<forall>p. global_dealloc (Some x) p l = Some (Some x))
    else global_alloc None l = None \<and>
      (\<exists>p g'. global_alloc (Some x) l = Some (p, g') \<and>
        (p = 0 \<and> g' = Some x \<and> no_room x V (max (layout_size l) 1) \<or>
         (\<exists>k x'. p \<noteq> 0 \<and> p mod layout_align l = 0 \<and> g' = Some x' \<and> ext_inv x' (insert (p, k) V) \<and>
            layout_size l \<le> PAGE_SIZE * 2 ^ k \<and> (\<forall>b \<in> V. addr_span (p, k) \<inter> addr_span b = {}) \<and>
            (\<forall>b \<in> V. \<forall>y \<in> addr_span b. bytes x' y = bytes x y) \<and>
            (if layout_size l = 0 then global_dealloc g' p l = Some g'
             else \<exists>x''. global_dealloc g' p l = Some (Some x'') \<and> ext_inv x'' V \<and>
                (\<forall>b \<in> V. \<forall>y \<in> addr_span b. bytes x'' y = bytes x y)))))"
proof (cases "4096 < layout_align l")
  case True
  then show ?thesis by (simp add: global_alloc_def global_dealloc_def)
next
  case al: False
  let ?n = "max (layout_size l) 1"
  have n: "?n < 2 ^ 64" using assms(2) by simp
  have "\<exists>p g'. global_alloc (Some x) l = Some (p, g') \<and>
        (p = 0 \<and> g' = Some x \<and> no_room x V ?n \<or>
         (\<exists>k x'. p \<noteq> 0 \<and> p mod layout_align l = 0 \<and> g' = Some x' \<and> ext_inv x' (insert (p, k) V) \<and>
            layout_size l \<le> PAGE_SIZE * 2 ^ k \<and> (\<forall>b \<in> V. addr_span (p, k) \<inter> addr_span b = {}) \<and>
            (\<forall>b \<in> V. \<forall>y \<in> addr_span b. bytes x' y = bytes x y) \<and>
            (if layout_size l = 0 then global_dealloc g' p l = Some g'
             else \<exists>x''. global_dealloc g' p l = Some (Some x'') \<and> ext_inv x'' V \<and>
                (\<forall>b \<in> V. \<forall>y \<in> addr_span b. bytes x'' y = bytes x y))))"
  proof (rule ext.halloc_cases [OF assms(1) n])
    assume "ext_alloc x ?n = Some (None, x)" "?n = 0 \<or> no_room x V ?n"
    then show ?thesis using al by (simp add: global_alloc_def)
  next
    fix p k x'
    assume h: "ext_alloc x ?n = Some (Some p, x')" "(p, k) \<notin> V" "ext_inv x' (insert (p, k) V)" "?n \<le> PAGE_SIZE * 2 ^ k"
      "\<And>b y. b \<in> V \<Longrightarrow> y \<in> addr_span b \<Longrightarrow> bytes x' y = bytes x y"
      "\<And>b. b \<in> V \<Longrightarrow> addr_span (p, k) \<inter> addr_span b = {}"
    have g: "global_alloc (Some x) l = Some (p, Some x')" using h(1) al by (simp add: global_alloc_def)
    have p: "0 < p" "PAGE_SIZE dvd p" using ext_alloc_aligned [OF h(3), of p k] by auto
    have "2 ^ e dvd PAGE_SIZE" using page_aligned_power [of e] al assms(3) by simp
    from dvd_trans [OF this p(2)] have a: "p mod layout_align l = 0" by (simp only: assms(3) mod_eq_0_iff_dvd)
    have V: "insert (p, k) V - {(p, k)} = V" using h(2) by simp
    obtain x'' where "ext_free x' p = Some x''" "ext_inv x'' V" "\<forall>b \<in> V. \<forall>y \<in> addr_span b. bytes x'' y = bytes x' y"
      using ext_free_inv [OF h(3), of p k] unfolding V by blast
    then have "if layout_size l = 0 then global_dealloc (Some x') p l = Some (Some x')
        else \<exists>x''. global_dealloc (Some x') p l = Some (Some x'') \<and> ext_inv x'' V \<and>
          (\<forall>b \<in> V. \<forall>y \<in> addr_span b. bytes x'' y = bytes x y)"
      using al h(5) by (auto simp: global_dealloc_def)
    then show ?thesis using g p(1) a h(3-6)
      by (intro exI [of _ p] exI [of _ "Some x'"] conjI disjI2 exI [of _ k] exI [of _ x']) auto
  qed
  then show ?thesis using al by (simp add: global_alloc_def)
qed

theorem global_alloc_correct_witness:
  "\<exists>x p g'. demo_heap = Some (Some x) \<and> global_alloc (Some x) \<lparr>layout_size = 24, layout_align = 8\<rparr> = Some (p, g') \<and> p mod 8 = 0 \<and>
     global_alloc (Some x) \<lparr>layout_size = 24, layout_align = 8192\<rparr> = Some (0, Some x)"
proof -
  obtain x where x: "demo_heap = Some (Some x)" "ext_inv x {}" using demo_heap_inv by blast
  have "global_alloc (Some x) \<lparr>layout_size = 24, layout_align = 8192\<rparr> = Some (0, Some x)"
    using global_alloc_correct [OF x(2), of "\<lparr>layout_size = 24, layout_align = 8192\<rparr>" 13] by simp
  then show ?thesis
    using x(1) global_alloc_correct [OF x(2), of "\<lparr>layout_size = 24, layout_align = 8\<rparr>" 3] by fastforce
qed

definition region_skipped :: "OsMemoryRegion \<Rightarrow> bool" where
  "region_skipped r \<longleftrightarrow> region_usable r = 0 \<or> region_start r < 0x10000 \<or> region_end r < 0x10000"

definition heap_start :: "nat \<Rightarrow> nat \<Rightarrow> OsMemoryRegion \<Rightarrow> nat" where
  "heap_start p u r = (if region_start r = p then MB2 * div_ceil u MB2 else region_start r)"

definition region_fits :: "nat \<Rightarrow> nat \<Rightarrow> OsMemoryRegion \<Rightarrow> bool" where
  "region_fits p u r \<longleftrightarrow> heap_start p u r mod PAGE_SIZE = 0 \<and> heap_start p u r + PAGE_SIZE \<le> region_end r \<and>
     region_end r + DIRECT_MAPPING_OFFSET < 2 ^ 64"

lemma mem_init_filter:
  "mem_init fm m p u rs g = mem_init fm m p u (filter (\<lambda>r. \<not> region_skipped r) rs) g"
proof (induction rs arbitrary: g)
  case (Cons r rs)
  show ?case
  proof (cases "region_skipped r")
    case True
    then have "mem_init fm m p u (r # rs) g = mem_init fm m p u rs g" by (simp add: region_skipped_def)
    then show ?thesis using Cons.IH [of g] True by simp
  next
    case False
    then have f: "filter (\<lambda>r. \<not> region_skipped r) (r # rs) = r # filter (\<lambda>r. \<not> region_skipped r) rs" by simp
    show ?thesis unfolding f mem_init.simps Cons.IH [symmetric] ..
  qed
qed simp

lemma and_high_mask:
  assumes "t < (2::nat) ^ 64" "n \<le> 64"
  shows "t AND (2 ^ 64 - 2 ^ n) = 2 ^ n * (t div 2 ^ n)"
proof -
  have "t AND push_bit n (mask (64 - n)) = push_bit n (drop_bit n t)"
  proof (rule bit_eqI)
    fix k
    have "take_bit 64 t = t" using assms(1) by (simp add: take_bit_nat_eq_self)
    then have "bit t k \<Longrightarrow> k < 64" by (metis bit_take_bit_iff)
    then show "bit (t AND push_bit n (mask (64 - n))) k = bit (push_bit n (drop_bit n t)) k"
      by (auto simp: bit_simps)
  qed
  moreover have "push_bit n (mask (64 - n)) = (2 ^ 64 - 2 ^ n :: nat)"
    using assms(2) by (simp add: push_bit_eq_mult mask_eq_exp_minus_1 diff_mult_distrib flip: power_add)
  ultimately show ?thesis by (simp add: push_bit_eq_mult drop_bit_eq_div mult.commute)
qed

lemma div_ceil_round:
  assumes "0 < b"
  shows "(a + b - 1) div b = div_ceil a b"
proof -
  have "div_ceil a b \<le> n \<longleftrightarrow> (a + b - 1) div b \<le> n" for n
  proof -
    have "(a + b - 1) div b \<le> n \<longleftrightarrow> a + b - 1 < Suc n * b" using div_less_iff_less_mult [OF assms, of "a + b - 1" "Suc n"] by linarith
    also have "\<dots> \<longleftrightarrow> a \<le> n * b" using assms by auto
    finally show ?thesis using div_ceil_le_iff [OF assms] by simp
  qed
  from this [of "div_ceil a b"] this [of "(a + b - 1) div b"] show ?thesis by simp
qed

lemma align_up_MB2: "align_up u MB2 = (if u + MB2 < 2 ^ 64 then Some (MB2 * div_ceil u MB2) else None)"
proof (cases "u + MB2 < 2 ^ 64")
  case True
  then have "(u + MB2 - 1) AND (2 ^ 64 - 2 ^ 21) = 2 ^ 21 * ((u + MB2 - 1) div 2 ^ 21)" by (intro and_high_mask) simp_all
  moreover have "(u + MB2 - 1) div MB2 = div_ceil u MB2" by (rule div_ceil_round) (simp add: MB2_def)
  ultimately show ?thesis using True by (simp add: align_up_def add64_def sub64_def MB2_def)
qed (simp add: align_up_def add64_def)

lemma heap_start_physical:
  "(do { s \<leftarrow> if region_start r = p then align_up u MB2 else Some (region_start r); physical_to_virtual s }) =
    add64 (heap_start p u r) DIRECT_MAPPING_OFFSET"
proof -
  have "u \<le> MB2 * div_ceil u MB2" using div_ceil_mult_ge [of MB2 u] by (simp add: MB2_def mult.commute)
  then have "add64 (MB2 * div_ceil u MB2) DIRECT_MAPPING_OFFSET = None" if "\<not> u + MB2 < 2 ^ 64"
    using that by (simp add: add64_def DIRECT_MAPPING_OFFSET_def MB2_def)
  then show ?thesis by (simp add: heap_start_def align_up_MB2 physical_to_virtual_def)
qed

lemma mem_init_region:
  assumes "\<not> region_skipped r" "region_fits p u r"
  shows "\<exists>x. (\<forall>rs. mem_init fm m p u (r # rs) None = mem_init fm m p u rs (Some x)) \<and> ext_inv x {} \<and>
    base_addr (allocator x) = heap_start p u r + DIRECT_MAPPING_OFFSET \<and>
    page_count (allocator x) = (region_end r - heap_start p u r) div 4096"
proof -
  let ?h = "heap_start p u r"
  let ?s = "?h + DIRECT_MAPPING_OFFSET" let ?e = "region_end r + DIRECT_MAPPING_OFFSET"
  let ?n = "(region_end r - ?h) div 4096"
  note fit = assms(2) [unfolded region_fits_def]
  have al: "?s mod PAGE_SIZE = 0" using fit by (simp add: DIRECT_MAPPING_OFFSET_def PAGE_SIZE_def mod_add_eq [symmetric])
  have n: "0 < ?n" "?s + ?n * PAGE_SIZE \<le> ?e" "?n \<le> 2 ^ 40"
  proof -
    have "1 * 4096 \<le> region_end r - ?h" using fit by (intro le_diff_conv2 [THEN iffD2]) (auto simp: PAGE_SIZE_def)
    then show "0 < ?n" by (simp add: div_greater_zero_iff)
    have "?n * 4096 \<le> region_end r - ?h" "?h \<le> region_end r" using fit by auto
    then show "?s + ?n * PAGE_SIZE \<le> ?e" by (simp add: PAGE_SIZE_def)
    have "region_end r - ?h < 2 ^ 52" using fit by (auto simp: DIRECT_MAPPING_OFFSET_def)
    then show "?n \<le> 2 ^ 40" by simp
  qed
  obtain b where b: "buddy_new fm ?s ?n = Some b" "buddy_inv b {}" "base_addr b = ?s" "page_count b = ?n"
    using buddy_new_inv [of ?s ?n fm] al n fit by (auto simp: DIRECT_MAPPING_OFFSET_def)
  have "alloc_inv b {}" unfolding alloc_inv_def using b(2) by blast
  then obtain x where x: "ext_new m b = Some (Some x)" "ext_inv x {}" "page_count (allocator x) = ?n"
    "base_addr (allocator x) = ?s"
    using ext_new_inv [of b m] b n by auto
  have v: "add64 ?h DIRECT_MAPPING_OFFSET = Some ?s" "physical_to_virtual (region_end r) = Some ?e"
      "sub64 ?e ?s = Some (region_end r - ?h)"
    using fit by (simp_all add: physical_to_virtual_def add64_def sub64_def)
  obtain s where "(if region_start r = p then align_up u MB2 else Some (region_start r)) = Some s"
      "physical_to_virtual s = Some ?s"
    using heap_start_physical [of r p u] unfolding v(1) by (auto split: if_splits)
  then have "mem_init fm m p u (r # rs) None = mem_init fm m p u rs (Some x)" for rs
    using assms(1) by (simp add: region_skipped_def v b(1) x(1))
  then show ?thesis using x by blast
qed

lemma mem_init_misfit:
  assumes "\<not> region_skipped r" "\<not> region_fits p u r"
  shows "mem_init fm m p u (r # rs) None = None"
proof (rule ccontr)
  assume "mem_init fm m p u (r # rs) None \<noteq> None"
  then obtain s start e len b where
      s: "(if region_start r = p then align_up u MB2 else Some (region_start r)) = Some s" "physical_to_virtual s = Some start"
      "physical_to_virtual (region_end r) = Some e" "sub64 e start = Some len" "buddy_new fm start (len div 4096) = Some b"
    using assms(1) by (auto simp: region_skipped_def split: option.splits bind_splits)
  have "add64 (heap_start p u r) DIRECT_MAPPING_OFFSET = Some start"
    unfolding heap_start_physical [symmetric] s(1) using s(2) by simp
  then have st: "start = heap_start p u r + DIRECT_MAPPING_OFFSET" by (simp add: add64_def split: if_splits)
  have "start AND (PAGE_SIZE - 1) = 0" "0 < len div 4096"
    using s(5) by (simp_all add: buddy_new_def assert_rust_def split: if_splits bind_splits)
  then have "start mod PAGE_SIZE = 0" "4096 \<le> len"
    using take_bit_eq_mask [of 12 start] by (simp_all add: PAGE_SIZE_def take_bit_eq_mod mask_eq_exp_minus_1 div_greater_zero_iff)
  moreover have "heap_start p u r mod PAGE_SIZE = start mod PAGE_SIZE"
    by (simp add: st DIRECT_MAPPING_OFFSET_def PAGE_SIZE_def mod_add_eq [symmetric])
  ultimately show False using assms(2) s(3,4) st
    by (auto simp: region_fits_def physical_to_virtual_def add64_def sub64_def PAGE_SIZE_def split: if_splits)
qed

text \<open>
  C8: For every memory map: with no usable region (usable, and above 64 KiB) init leaves no heap;
  with one, init builds a heap over its whole pages when its start is page aligned, it holds a
  page and its end can be mapped, and panics otherwise; with more than one, wherever they
  stand in the map, init panics. The start is the region's, except that of the region at the
  boot page tables, where it is the begin of usable memory rounded up to 2 MiB.
\<close>

theorem mem_init_boots:
  "case filter (\<lambda>r. \<not> region_skipped r) regions of
     [] \<Rightarrow> mem_init fm m p u regions None = Some None
   | [r] \<Rightarrow>
       if region_fits p u r
       then \<exists>x. mem_init fm m p u regions None = Some (Some x) \<and> ext_inv x {} \<and>
         base_addr (allocator x) = heap_start p u r + DIRECT_MAPPING_OFFSET \<and>
         page_count (allocator x) = (region_end r - heap_start p u r) div 4096
       else mem_init fm m p u regions None = None
   | _ \<Rightarrow> mem_init fm m p u regions None = None"
proof -
  let ?us = "filter (\<lambda>r. \<not> region_skipped r) regions"
  have sk: "\<not> region_skipped r" if "r \<in> set ?us" for r using that by simp
  have second: "mem_init fm m p u (r # rs) (Some x) = None" if "r \<in> set ?us" for r rs x
    using sk [OF that] by (auto simp: region_skipped_def split: bind_splits)
  note e = mem_init_filter [of fm m p u regions None]
  show ?thesis
  proof (cases ?us)
    case Nil
    then show ?thesis by (simp add: e del: filter_empty_conv)
  next
    case r: (Cons r rs)
    then have nr: "\<not> region_skipped r" using sk [of r] by simp
    show ?thesis
    proof (cases "region_fits p u r")
      case True
      obtain x where x: "\<And>rs. mem_init fm m p u (r # rs) None = mem_init fm m p u rs (Some x)" "ext_inv x {}"
          "base_addr (allocator x) = heap_start p u r + DIRECT_MAPPING_OFFSET"
          "page_count (allocator x) = (region_end r - heap_start p u r) div 4096"
        using mem_init_region [OF nr True, of fm m] by blast
      show ?thesis
      proof (cases rs)
        case Nil
        then show ?thesis using x True by (simp add: e r del: mem_init.simps(2))
      next
        case (Cons r' rs')
        then show ?thesis using x(1) second [of r' rs' x] by (simp add: e r del: mem_init.simps(2))
      qed
    next
      case False
      then show ?thesis using mem_init_misfit [OF nr False]
        by (simp add: e r del: mem_init.simps(2) split: list.splits)
    qed
  qed
qed

definition demo_regions :: "OsMemoryRegion list" where
  "demo_regions = [\<lparr>region_start = 0, region_end = 0x9FC00, region_usable = 1\<rparr>,
     \<lparr>region_start = 0x100000, region_end = 0x7FE0000, region_usable = 1\<rparr>]"

text \<open>
  The two shapes of a usable region: an ordinary one, and the one that starts with the boot page
  tables, of which only what follows the kernel is used.
\<close>

theorem mem_init_boots_witness:
  "(\<exists>x. mem_init (\<lambda>_. \<lparr>fb_next = None, fb_order = 0\<rparr>) (\<lambda>_. 0) 0x1000 0x345678 demo_regions None = Some (Some x) \<and>
      page_count (allocator x) = 32480) \<and>
   (\<exists>x. mem_init (\<lambda>_. \<lparr>fb_next = None, fb_order = 0\<rparr>) (\<lambda>_. 0) 0x100000 0x345678 demo_regions None = Some (Some x) \<and>
      page_count (allocator x) = 31712)"
  using mem_init_boots [where regions = demo_regions and fm = "\<lambda>_. \<lparr>fb_next = None, fb_order = 0\<rparr>" and m = "\<lambda>_. 0" and p = "0x1000" and u = "0x345678"]
    mem_init_boots [where regions = demo_regions and fm = "\<lambda>_. \<lparr>fb_next = None, fb_order = 0\<rparr>" and m = "\<lambda>_. 0" and p = "0x100000" and u = "0x345678"]
  by (auto simp: demo_regions_def region_skipped_def region_fits_def heap_start_def MB2_def div_ceil_def PAGE_SIZE_def DIRECT_MAPPING_OFFSET_def
      simp del: mem_init.simps)

end
