(* ===== verification/Bitmap.thy ===== *)
theory Bitmap
  imports Prelude
begin

text \<open>
  The bitmap of \<^verbatim>\<open>data/bitmap.rs\<close>: bits packed in bytes, the first bit in bit 0 of
  byte 0. The two searches walk the bytes in three parts, as \<^verbatim>\<open>slice::align_to::<usize>\<close>
  splits them: a head of bytes, a body of 64-bit words, a tail of bytes. How long the parts are
  depends on the address of the buffer, so the head length \<open>h\<close> and the number of words
  \<open>w\<close> are arguments of the searches; the theorems hold for every split.
\<close>

section \<open>The data structure\<close>

record Bitmap =
  bm_data :: "u8 list"
  bm_size :: nat

definition clear :: "Bitmap \<Rightarrow> Bitmap" where
  "clear b = b\<lparr>bm_data := replicate (length (bm_data b)) 0\<rparr>"

definition bitmap_new :: "u8 list \<Rightarrow> nat \<Rightarrow> Bitmap" where
  "bitmap_new uninit sz = clear \<lparr>bm_data = alloc_boxed_slice uninit (div_ceil sz 8), bm_size = sz\<rparr>"

definition new_with_data :: "nat \<Rightarrow> u8 list \<Rightarrow> Bitmap" where
  "new_with_data sz data = \<lparr>bm_data = data, bm_size = sz\<rparr>"

text \<open>
  \<^verbatim>\<open>next_multiple_of\<close> panics for a multiple of 0 and when the result does not fit; a buffer of more than
  \<^verbatim>\<open>isize::MAX\<close> bytes has no layout.
\<close>

definition new_with_size_multiple :: "u8 list \<Rightarrow> nat \<Rightarrow> nat \<Rightarrow> Bitmap panics" where
  "new_with_size_multiple uninit sz multiple = do {
     _ \<leftarrow> assert_rust (multiple \<noteq> 0);
     let data_size = next_multiple_of (div_ceil sz 8) multiple;
     _ \<leftarrow> assert_rust (data_size < 2 ^ 63);
     Some \<lparr>bm_data = alloc_boxed_slice uninit data_size, bm_size = sz\<rparr>
   }"

definition get_bit :: "Bitmap \<Rightarrow> nat \<Rightarrow> bool option panics" where
  "get_bit b idx =
     (if idx < bm_size b
      then do { v \<leftarrow> list_get (bm_data b) (idx div 8);
                Some (Some ((v AND push_bit (idx mod 8) 1) \<noteq> 0)) }
      else Some None)"

definition set_bit :: "Bitmap \<Rightarrow> nat \<Rightarrow> bool \<Rightarrow> Bitmap panics" where
  "set_bit b idx enabled =
     (if idx < bm_size b
      then do {
        v \<leftarrow> list_get (bm_data b) (idx div 8);
        (let mask = push_bit (idx mod 8) 1
         in Some (b\<lparr>bm_data := (bm_data b)[idx div 8 := if enabled then v OR mask else v AND (NOT mask)]\<rparr>))
      }
      else Some b)"

definition toggle_bit :: "Bitmap \<Rightarrow> nat \<Rightarrow> Bitmap panics" where
  "toggle_bit b idx =
     (if idx < bm_size b
      then do {
        v \<leftarrow> list_get (bm_data b) (idx div 8);
        Some (b\<lparr>bm_data := (bm_data b)[idx div 8 := v XOR push_bit (idx mod 8) 1]\<rparr>)
      }
      else Some b)"

definition bitmap_len :: "Bitmap \<Rightarrow> nat" where
  "bitmap_len b = bm_size b"

definition bitmap_is_empty :: "Bitmap \<Rightarrow> bool" where
  "bitmap_is_empty b \<longleftrightarrow> bm_size b = 0"

section \<open>Searching\<close>

datatype scan = Return "nat option" | Continue nat

fun scan_bits :: "(nat \<Rightarrow> bool) \<Rightarrow> nat list \<Rightarrow> nat \<Rightarrow> nat \<Rightarrow> scan" where
  "scan_bits hit [] sz bit_index = Continue bit_index"
| "scan_bits hit (i # is) sz bit_index =
     (if bit_index \<ge> sz then Return None
      else if hit i then Return (Some bit_index)
      else scan_bits hit is sz (bit_index + 1))"

fun scan_units :: "nat \<Rightarrow> ('u \<Rightarrow> bool) \<Rightarrow> ('u \<Rightarrow> nat \<Rightarrow> bool) \<Rightarrow> 'u list \<Rightarrow> nat \<Rightarrow> nat \<Rightarrow> scan" where
  "scan_units width skip hit [] sz bit_index = Continue bit_index"
| "scan_units width skip hit (u # us) sz bit_index =
     (if \<not> skip u
      then (case scan_bits (hit u) [0..<width] sz bit_index of
              Return r \<Rightarrow> Return r
            | Continue bit_index' \<Rightarrow> scan_units width skip hit us sz bit_index')
      else scan_units width skip hit us sz (bit_index + width))"

definition words_of :: "nat \<Rightarrow> u8 list \<Rightarrow> u64 list" where
  "words_of w bs = map (\<lambda>j. from_le_bytes (slice_of bs (8 * j) (8 * j + 8))) [0..<w]"

definition align_to :: "nat \<Rightarrow> nat \<Rightarrow> u8 list \<Rightarrow> u8 list \<times> u64 list \<times> u8 list" where
  "align_to h w bs = (take h bs, words_of w (drop h bs), drop (h + 8 * w) bs)"

definition find_first_unset :: "nat \<Rightarrow> nat \<Rightarrow> Bitmap \<Rightarrow> nat option" where
  "find_first_unset h w b =
     (case align_to h w (bm_data b) of (head, body, tail) \<Rightarrow>
        (case scan_units 8 (\<lambda>byte. byte = 0xFF) (\<lambda>byte i. (byte AND push_bit i 1) = 0) head (bm_size b) 0 of
           Return r \<Rightarrow> r
         | Continue bit_index \<Rightarrow>
             (case scan_units 64 (\<lambda>word. word = -1) (\<lambda>word i. (word AND push_bit i 1) = 0) body (bm_size b) bit_index of
                Return r \<Rightarrow> r
              | Continue bit_index' \<Rightarrow>
                  (case scan_units 8 (\<lambda>byte. byte = 0xFF) (\<lambda>byte i. (byte AND push_bit i 1) = 0) tail (bm_size b) bit_index' of
                     Return r \<Rightarrow> r
                   | Continue _ \<Rightarrow> None))))"

definition find_first_set :: "nat \<Rightarrow> nat \<Rightarrow> Bitmap \<Rightarrow> nat option" where
  "find_first_set h w b =
     (case align_to h w (bm_data b) of (head, body, tail) \<Rightarrow>
        (case scan_units 8 (\<lambda>byte. byte = 0) (\<lambda>byte i. (byte AND push_bit i 1) \<noteq> 0) head (bm_size b) 0 of
           Return r \<Rightarrow> r
         | Continue bit_index \<Rightarrow>
             (case scan_units 64 (\<lambda>word. word = 0) (\<lambda>word i. (word AND push_bit i 1) \<noteq> 0) body (bm_size b) bit_index of
                Return r \<Rightarrow> r
              | Continue bit_index' \<Rightarrow>
                  (case scan_units 8 (\<lambda>byte. byte = 0) (\<lambda>byte i. (byte AND push_bit i 1) \<noteq> 0) tail (bm_size b) bit_index' of
                     Return r \<Rightarrow> r
                   | Continue _ \<Rightarrow> None))))"

section \<open>The debug output\<close>

text \<open>The runs of set bits that \<^verbatim>\<open>Debug::fmt\<close> prints, as pairs of first and last bit.\<close>

function debug_run_end :: "Bitmap \<Rightarrow> nat \<Rightarrow> nat panics" where
  "debug_run_end b n =
     (case get_bit b n of
        None \<Rightarrow> None
      | Some r \<Rightarrow> if r = Some True then debug_run_end b (n + 1) else Some n)"
  by pat_completeness auto
termination
  by (relation "measure (\<lambda>(b, n). bm_size b - n)") (auto simp: get_bit_def split: if_splits)

declare debug_run_end.simps [simp del]

lemma debug_run_end_ge: "debug_run_end b n = Some e \<Longrightarrow> n \<le> e"
  by (induction b n arbitrary: e rule: debug_run_end.induct)
    (subst (asm) debug_run_end.simps, fastforce split: option.splits if_splits)

function debug_ranges :: "Bitmap \<Rightarrow> nat \<Rightarrow> (nat \<times> nat) list panics" where
  "debug_ranges b start =
     (if start < bm_size b
      then (case debug_run_end b start of
              None \<Rightarrow> None
            | Some e \<Rightarrow>
                (case debug_ranges b (e + 1) of
                   None \<Rightarrow> None
                 | Some rest \<Rightarrow> Some (if e = start + 1 then (start, start) # rest
                                      else if e > start + 1 then (start, e - 1) # rest
                                      else rest)))
      else Some [])"
  by pat_completeness auto
termination
  by (relation "measure (\<lambda>(b, n). bm_size b - n)") (auto dest: debug_run_end_ge)

declare debug_ranges.simps [simp del]

section \<open>Bits\<close>

definition bit_at :: "u8 list \<Rightarrow> nat \<Rightarrow> bool" where
  "bit_at bs n \<longleftrightarrow> bit (bs ! (n div 8)) (n mod 8)"

definition bitmap_ok :: "Bitmap \<Rightarrow> bool" where
  "bitmap_ok b \<longleftrightarrow> bm_size b \<le> 8 * length (bm_data b)"

lemma bitmap_ok_index: "bitmap_ok b \<Longrightarrow> n < bm_size b \<Longrightarrow> n div 8 < length (bm_data b)"
  by (simp add: bitmap_ok_def div_less_iff_less_mult)

lemma get_bit_eq: "bitmap_ok b \<Longrightarrow> get_bit b n = Some (if n < bm_size b then Some (bit_at (bm_data b) n) else None)"
  using bitmap_ok_index [of b n] by (auto simp: get_bit_def list_get_def bit_at_def and_exp_eq_0_iff_not_bit)

lemma nth_update_bit:
  assumes "i div 8 < length bs" "\<And>j. j < 8 \<Longrightarrow> bit v j \<longleftrightarrow> (if j = i mod 8 then x else bit (bs ! (i div 8)) j)"
  shows "bit_at (bs[i div 8 := v]) n \<longleftrightarrow> (if n = i then x else bit_at bs n)"
proof (cases "n div 8 = i div 8")
  case True
  then have "n = i \<longleftrightarrow> n mod 8 = i mod 8" by (metis div_mult_mod_eq)
  then show ?thesis using assms(1) assms(2) [of "n mod 8"] True by (simp add: bit_at_def)
next
  case False
  then show ?thesis by (auto simp: bit_at_def nth_list_update)
qed

lemma set_bit_ok:
  assumes "bitmap_ok b"
  shows "\<exists>b'. set_bit b i x = Some b' \<and> bitmap_ok b' \<and> bm_size b' = bm_size b \<and> length (bm_data b') = length (bm_data b) \<and>
    (\<forall>n. bit_at (bm_data b') n \<longleftrightarrow> (if n = i \<and> i < bm_size b then x else bit_at (bm_data b) n))"
proof (cases "i < bm_size b")
  case True
  let ?v = "bm_data b ! (i div 8)"
  let ?u = "if x then ?v OR push_bit (i mod 8) 1 else ?v AND (NOT (push_bit (i mod 8) 1))"
  have i: "i div 8 < length (bm_data b)" using bitmap_ok_index [OF assms True] .
  have "bit ?u j \<longleftrightarrow> (if j = i mod 8 then x else bit ?v j)" if "j < 8" for j
    using that by (auto simp: bit_simps)
  then have "\<forall>n. bit_at ((bm_data b)[i div 8 := ?u]) n \<longleftrightarrow> (if n = i then x else bit_at (bm_data b) n)"
    using nth_update_bit [OF i] by blast
  moreover have "set_bit b i x = Some (b\<lparr>bm_data := (bm_data b)[i div 8 := ?u]\<rparr>)"
    using True i by (simp add: set_bit_def list_get_def)
  ultimately show ?thesis using assms True by (simp add: bitmap_ok_def)
qed (use assms in \<open>simp add: set_bit_def\<close>)

lemma toggle_bit_ok:
  assumes "bitmap_ok b"
  shows "\<exists>b'. toggle_bit b i = Some b' \<and> bitmap_ok b' \<and> bm_size b' = bm_size b \<and> length (bm_data b') = length (bm_data b) \<and>
    (\<forall>n. bit_at (bm_data b') n \<longleftrightarrow> (if n = i \<and> i < bm_size b then \<not> bit_at (bm_data b) n else bit_at (bm_data b) n))"
proof (cases "i < bm_size b")
  case True
  let ?v = "bm_data b ! (i div 8)"
  have i: "i div 8 < length (bm_data b)" using bitmap_ok_index [OF assms True] .
  have "bit (?v XOR push_bit (i mod 8) 1) j \<longleftrightarrow> (if j = i mod 8 then \<not> bit ?v (i mod 8) else bit ?v j)" if "j < 8" for j
    using that by (auto simp: bit_simps)
  then have "\<forall>n. bit_at ((bm_data b)[i div 8 := ?v XOR push_bit (i mod 8) 1]) n \<longleftrightarrow>
      (if n = i then \<not> bit ?v (i mod 8) else bit_at (bm_data b) n)"
    using nth_update_bit [OF i] by blast
  moreover have "toggle_bit b i = Some (b\<lparr>bm_data := (bm_data b)[i div 8 := ?v XOR push_bit (i mod 8) 1]\<rparr>)"
    using True i by (simp add: toggle_bit_def list_get_def)
  ultimately show ?thesis using assms True by (auto simp: bitmap_ok_def bit_at_def)
qed (use assms in \<open>simp add: toggle_bit_def\<close>)

lemma clear_ok: "bitmap_ok b \<Longrightarrow> bitmap_ok (clear b)"
  by (simp add: bitmap_ok_def clear_def)

lemma clear_bit: "n < 8 * length (bm_data b) \<Longrightarrow> \<not> bit_at (bm_data (clear b)) n"
  by (simp add: clear_def bit_at_def div_less_iff_less_mult)

lemma bitmap_new_ok: "bitmap_ok (bitmap_new u sz) \<and> bm_size (bitmap_new u sz) = sz \<and>
    length (bm_data (bitmap_new u sz)) = div_ceil sz 8"
  using div_ceil_mult_ge [of 8 sz] by (simp add: bitmap_new_def clear_def bitmap_ok_def mult.commute)

lemma new_with_size_multiple_ok:
  assumes "new_with_size_multiple u sz m = Some b"
  shows "bitmap_ok b \<and> bm_size b = sz \<and> length (bm_data b) = next_multiple_of (div_ceil sz 8) m"
proof -
  have "sz \<le> div_ceil sz 8 * 8" using div_ceil_mult_ge [of 8 sz] by simp
  also have "\<dots> \<le> next_multiple_of (div_ceil sz 8) m * 8" using next_multiple_of_ge by (rule mult_le_mono1)
  finally show ?thesis using assms by (auto simp: new_with_size_multiple_def bitmap_ok_def Let_def mult.commute assert_rust_def split: if_splits)
qed

lemma new_with_size_multiple_Some:
  "0 < m \<Longrightarrow> next_multiple_of (div_ceil sz 8) m < 2 ^ 63 \<Longrightarrow>
    new_with_size_multiple u sz m = Some \<lparr>bm_data = alloc_boxed_slice u (next_multiple_of (div_ceil sz 8) m), bm_size = sz\<rparr>"
  by (simp add: new_with_size_multiple_def)

section \<open>The searches\<close>

fun first_hit :: "bool list \<Rightarrow> nat \<Rightarrow> nat \<Rightarrow> nat option" where
  "first_hit [] sz i = None"
| "first_hit (x # xs) sz i = (if x then (if i < sz then Some i else None) else first_hit xs sz (i + 1))"

definition scan_sound :: "bool list \<Rightarrow> nat \<Rightarrow> nat \<Rightarrow> scan \<Rightarrow> bool" where
  "scan_sound hits sz i r \<longleftrightarrow> (\<forall>rest. first_hit (hits @ rest) sz i =
     (case r of Return x \<Rightarrow> x | Continue j \<Rightarrow> first_hit rest sz j))"

lemma first_hit_past: "sz \<le> i \<Longrightarrow> first_hit xs sz i = None"
  by (induction xs arbitrary: i) auto

lemma first_hit_misses: "\<forall>x \<in> set xs. \<not> x \<Longrightarrow> first_hit (xs @ ys) sz i = first_hit ys sz (i + length xs)"
  by (induction xs arbitrary: i) auto

lemma scan_bits_sound: "scan_sound (map hit is) sz i (scan_bits hit is sz i)"
  by (induction hit "is" sz i rule: scan_bits.induct) (auto simp: scan_sound_def first_hit_past)

lemma scan_sound_append:
  "scan_sound xs sz i (Continue j) \<Longrightarrow> scan_sound ys sz j r \<Longrightarrow> scan_sound (xs @ ys) sz i r"
  by (simp add: scan_sound_def)

lemma scan_sound_Return: "scan_sound xs sz i (Return r) \<Longrightarrow> scan_sound (xs @ ys) sz i (Return r)"
  by (simp add: scan_sound_def)

lemma scan_units_sound:
  assumes "\<And>u k. skip u \<Longrightarrow> k < width \<Longrightarrow> \<not> hit u k"
  shows "scan_sound (concat (map (\<lambda>u. map (hit u) [0..<width]) us)) sz i (scan_units width skip hit us sz i)"
proof (induction us arbitrary: i)
  case Nil
  then show ?case by (simp add: scan_sound_def)
next
  case (Cons u us)
  show ?case
  proof (cases "skip u")
    case True
    have "scan_sound (map (hit u) [0..<width]) sz i (Continue (i + width))"
      using assms [OF True] by (simp add: scan_sound_def first_hit_misses)
    then show ?thesis using scan_sound_append Cons [of "i + width"] True by simp
  next
    case False
    show ?thesis using scan_bits_sound [of "hit u" "[0..<width]" sz i] Cons False
      by (auto split: scan.splits intro: scan_sound_append scan_sound_Return)
  qed
qed

lemma first_hit_eq_Some:
  "first_hit xs sz i = Some n \<longleftrightarrow> i \<le> n \<and> n < sz \<and> n - i < length xs \<and> xs ! (n - i) \<and> (\<forall>m < n - i. \<not> xs ! m)"
proof (induction xs arbitrary: i)
  case Nil
  then show ?case by simp
next
  case (Cons x xs)
  show ?case
  proof (cases "n = i")
    case True
    then show ?thesis using Cons [of "i + 1"] by auto
  next
    case False
    show ?thesis
    proof (cases "i < n")
      case True
      then obtain k where k: "n = i + 1 + k" by (auto dest: less_imp_Suc_add)
      show ?thesis using Cons [of "i + 1"] by (simp add: k All_less_Suc2)
    next
      case False
      then show ?thesis using Cons [of "i + 1"] \<open>n \<noteq> i\<close> by simp
    qed
  qed
qed


lemma concat_map_upt:
  "concat (map (\<lambda>j. map (f j) [0..<w]) [0..<m]) = map (\<lambda>n. f (n div w) (n mod w)) [0..<m * w]"
proof (induction m)
  case 0
  then show ?case by simp
next
  case (Suc m)
  have "map (f m) [0..<w] = map (\<lambda>n. f (n div w) (n mod w)) [m * w..<m * w + w]"
    by (rule nth_equalityI) auto
  moreover have "[0..<Suc m * w] = [0..<m * w] @ [m * w..<m * w + w]"
    using upt_split [of 0 "m * w" "Suc m * w"] by (simp add: add.commute)
  ultimately show ?case using Suc by simp
qed

lemma hits_bytes:
  "concat (map (\<lambda>u. map (\<lambda>i. P (bit u i)) [0..<8]) bs) = map (\<lambda>n. P (bit_at bs n)) [0..<8 * length bs]"
proof -
  have "concat (map (\<lambda>u. map (\<lambda>i. P (bit u i)) [0..<8]) bs) =
      concat (map (\<lambda>j. map (\<lambda>i. P (bit (bs ! j) i)) [0..<8]) [0..<length bs])"
    by (subst (1) map_nth [of bs, symmetric]) (simp only: map_map comp_def)
  then show ?thesis by (simp add: concat_map_upt bit_at_def mult.commute)
qed

lemma hits_words:
  assumes "8 * w \<le> length bs"
  shows "concat (map (\<lambda>u. map (\<lambda>i. P (bit u i)) [0..<64]) (words_of w bs)) = map (\<lambda>n. P (bit_at bs n)) [0..<8 * (8 * w)]"
proof -
  have "bit (from_le_bytes (slice_of bs (8 * (n div 64)) (8 * (n div 64) + 8)) :: u64) (n mod 64) = bit_at bs n"
    if "n < 64 * w" for n
  proof -
    have "n div 64 < w" using that by (simp add: div_less_iff_less_mult mult.commute)
    then have j: "8 * (n div 64) + 8 \<le> length bs" using assms by linarith
    have m: "n mod 64 = 8 * (n div 8 mod 8) + n mod 8" "n div 64 = n div 8 div 8"
      using mod_mult2_eq [of n 8 8] div_mult2_eq [of n 8 8] by simp_all
    have "8 * (n div 64) + (n mod 64) div 8 = n div 8" "(n mod 64) mod 8 = n mod 8" unfolding m by simp_all
    then show ?thesis
      using j by (simp add: bit_from_le_bytes length_slice nth_slice bit_at_def div_less_iff_less_mult)
  qed
  then show ?thesis by (simp add: words_of_def comp_def concat_map_upt mult.commute)
qed

lemma bit_at_drop: "h \<le> length bs \<Longrightarrow> n div 8 < length bs - h \<Longrightarrow> bit_at (drop h bs) n = bit_at bs (8 * h + n)"
  by (simp add: bit_at_def)

lemma div_mod_8_shift: "8 * h \<le> i \<Longrightarrow> h + (i - 8 * h) div 8 = i div 8 \<and> (i - 8 * h) mod 8 = i mod (8::nat)"
  by (metis le_add_diff_inverse div_mult_self4 mod_mult_self4 zero_neq_numeral mult.commute add.commute)

lemma map_bit_at_drop:
  assumes "h \<le> length bs"
  shows "map (\<lambda>n. P (bit_at (drop h bs) n)) [0..<m] = map (\<lambda>n. P (bit_at bs n)) [8 * h..<8 * h + m]"
  using assms by (intro nth_equalityI) (simp_all add: bit_at_def)

lemma hits_split:
  assumes "h + 8 * w \<le> length bs"
  shows "map (\<lambda>n. P (bit_at (take h bs) n)) [0..<8 * h] @
     (map (\<lambda>n. P (bit_at (drop h bs) n)) [0..<8 * (8 * w)] @
      map (\<lambda>n. P (bit_at (drop (h + 8 * w) bs) n)) [0..<8 * (length bs - (h + 8 * w))]) =
     map (\<lambda>n. P (bit_at bs n)) [0..<8 * length bs]"
proof -
  have "map (\<lambda>n. P (bit_at (take h bs) n)) [0..<8 * h] = map (\<lambda>n. P (bit_at bs n)) [0..<8 * h]"
    by (rule map_cong) (auto simp: bit_at_def div_less_iff_less_mult)
  moreover have e: "8 * (h + 8 * w) + 8 * (length bs - (h + 8 * w)) = 8 * length bs" using assms by simp
  have "[0..<8 * length bs] = [0..<8 * h] @ [8 * h..<8 * h + 8 * (8 * w)] @
      [8 * (h + 8 * w)..<8 * (h + 8 * w) + 8 * (length bs - (h + 8 * w))]"
    using assms upt_split [of 0 "8 * h" "8 * length bs"] upt_split [of "8 * h" "8 * (h + 8 * w)" "8 * length bs"]
    unfolding e by simp
  ultimately show ?thesis using assms by (simp add: map_bit_at_drop)
qed

lemma scan_three:
  assumes "scan_sound xs sz 0 r" "\<And>i. scan_sound ys sz i (g i)" "\<And>i. scan_sound zs sz i (k i)"
  shows "(case r of Return x \<Rightarrow> x | Continue i \<Rightarrow> (case g i of Return x \<Rightarrow> x | Continue j \<Rightarrow>
      (case k j of Return x \<Rightarrow> x | Continue _ \<Rightarrow> None))) = first_hit (xs @ ys @ zs) sz 0"
proof -
  have z: "first_hit zs sz i = (case k i of Return x \<Rightarrow> x | Continue _ \<Rightarrow> None)" for i
    using assms(3) [of i] by (auto simp: scan_sound_def split: scan.splits dest: spec [of _ "[]"])
  have y: "first_hit (ys @ zs) sz i = (case g i of Return x \<Rightarrow> x | Continue j \<Rightarrow> first_hit zs sz j)" for i
    using assms(2) [of i] by (simp add: scan_sound_def)
  show ?thesis using assms(1) by (simp add: scan_sound_def y z split: scan.splits)
qed

lemma bit_full_byte: "k < 8 \<Longrightarrow> bit (0xFF :: u8) k"
proof -
  assume "k < 8"
  moreover have "(0xFF :: u8) = - 1" by simp
  ultimately show ?thesis by (simp only: bit_minus_1_iff) simp
qed

lemma find_first_unset_hits:
  assumes "h + 8 * w \<le> length (bm_data b)"
  shows "find_first_unset h w b = first_hit (map (\<lambda>n. \<not> bit_at (bm_data b) n) [0..<8 * length (bm_data b)]) (bm_size b) 0"
proof -
  let ?byte = "scan_units 8 (\<lambda>byte. byte = (0xFF :: u8)) (\<lambda>byte i. (byte AND push_bit i 1) = 0)"
  let ?word = "scan_units 64 (\<lambda>word. word = -1) (\<lambda>word i. (word AND push_bit i 1) = 0) :: u64 list \<Rightarrow> _"
  have h: "(\<lambda>(u::'w::len word) i. (u AND push_bit i 1) = 0) = (\<lambda>u i. \<not> bit u i)"
    by (simp add: fun_eq_iff and_exp_eq_0_iff_not_bit)
  have byte: "scan_sound (map (\<lambda>n. \<not> bit_at bs n) [0..<8 * length bs]) sz i (?byte bs sz i)" for bs :: "u8 list" and sz i
    unfolding h hits_bytes [symmetric] by (rule scan_units_sound) (simp only: bit_full_byte not_not)
  have word: "scan_sound (map (\<lambda>n. \<not> bit_at bs n) [0..<8 * (8 * w)]) sz i (?word (words_of w bs) sz i)"
    if "8 * w \<le> length bs" for bs sz i
    unfolding h hits_words [OF that, symmetric] by (rule scan_units_sound) simp
  show ?thesis
    unfolding find_first_unset_def align_to_def prod.case hits_split [OF assms, symmetric]
    using byte [of "take h (bm_data b)"] byte [of "drop (h + 8 * w) (bm_data b)"] word [of "drop h (bm_data b)"] assms
    by (intro scan_three) simp_all
qed

lemma find_first_set_hits:
  assumes "h + 8 * w \<le> length (bm_data b)"
  shows "find_first_set h w b = first_hit (map (bit_at (bm_data b)) [0..<8 * length (bm_data b)]) (bm_size b) 0"
proof -
  let ?byte = "scan_units 8 (\<lambda>byte. byte = 0) (\<lambda>byte i. (byte AND push_bit i 1) \<noteq> 0)"
  let ?word = "scan_units 64 (\<lambda>word. word = 0) (\<lambda>word i. (word AND push_bit i 1) \<noteq> 0) :: u64 list \<Rightarrow> _"
  have h: "(\<lambda>(u::'w::len word) i. (u AND push_bit i 1) \<noteq> 0) = (\<lambda>u i. bit u i)"
    by (simp add: fun_eq_iff and_exp_eq_0_iff_not_bit)
  have byte: "scan_sound (map (bit_at bs) [0..<8 * length bs]) sz i (?byte bs sz i)" for bs :: "u8 list" and sz i
    unfolding h hits_bytes [of "\<lambda>x. x", symmetric] by (rule scan_units_sound) simp
  have word: "scan_sound (map (bit_at bs) [0..<8 * (8 * w)]) sz i (?word (words_of w bs) sz i)"
    if "8 * w \<le> length bs" for bs sz i
    unfolding h hits_words [OF that, of "\<lambda>x. x", symmetric] by (rule scan_units_sound) simp
  show ?thesis
    unfolding find_first_set_def align_to_def prod.case hits_split [OF assms, of "\<lambda>x. x", symmetric]
    using byte [of "take h (bm_data b)"] byte [of "drop (h + 8 * w) (bm_data b)"] word [of "drop h (bm_data b)"] assms
    by (intro scan_three) simp_all
qed

lemma first_hit_eq_None:
  "first_hit xs sz 0 = None \<longleftrightarrow> (\<forall>n. n < sz \<and> n < length xs \<longrightarrow> \<not> xs ! n)"
proof
  assume none: "first_hit xs sz 0 = None"
  show "\<forall>n. n < sz \<and> n < length xs \<longrightarrow> \<not> xs ! n"
  proof (rule ccontr)
    assume "\<not> ?thesis"
    then have ex: "\<exists>n. n < sz \<and> n < length xs \<and> xs ! n" by blast
    define n where "n = (LEAST n. n < sz \<and> n < length xs \<and> xs ! n)"
    have n: "n < sz \<and> n < length xs \<and> xs ! n" unfolding n_def by (rule LeastI_ex [OF ex])
    have "\<not> xs ! m" if "m < n" for m using not_less_Least [of m] that n unfolding n_def by fastforce
    then have "first_hit xs sz 0 = Some n" using n by (simp add: first_hit_eq_Some)
    then show False using none by simp
  qed
next
  assume "\<forall>n. n < sz \<and> n < length xs \<longrightarrow> \<not> xs ! n"
  then show "first_hit xs sz 0 = None"
    using first_hit_eq_Some [of xs sz 0] by (cases "first_hit xs sz 0") auto
qed

lemma first_hit_map_upt:
  assumes "sz \<le> m"
  shows "first_hit (map f [0..<m]) sz 0 = Some n \<longleftrightarrow> n < sz \<and> f n \<and> (\<forall>k < n. \<not> f k)"
    and "first_hit (map f [0..<m]) sz 0 = None \<longleftrightarrow> (\<forall>n < sz. \<not> f n)"
  using assms by (auto simp: first_hit_eq_Some first_hit_eq_None)

lemma find_first_unset_spec:
  assumes "bitmap_ok b" "h + 8 * w \<le> length (bm_data b)"
  shows "find_first_unset h w b = Some n \<longleftrightarrow> n < bm_size b \<and> \<not> bit_at (bm_data b) n \<and> (\<forall>k < n. bit_at (bm_data b) k)"
    and "find_first_unset h w b = None \<longleftrightarrow> (\<forall>n < bm_size b. bit_at (bm_data b) n)"
  using assms(1) by (simp_all add: find_first_unset_hits [OF assms(2)] first_hit_map_upt bitmap_ok_def)

lemma find_first_set_spec:
  assumes "bitmap_ok b" "h + 8 * w \<le> length (bm_data b)"
  shows "find_first_set h w b = Some n \<longleftrightarrow> n < bm_size b \<and> bit_at (bm_data b) n \<and> (\<forall>k < n. \<not> bit_at (bm_data b) k)"
    and "find_first_set h w b = None \<longleftrightarrow> (\<forall>n < bm_size b. \<not> bit_at (bm_data b) n)"
  using assms(1) by (simp_all add: find_first_set_hits [OF assms(2)] first_hit_map_upt bitmap_ok_def)

section \<open>Debug runs\<close>

lemma debug_run_end_ok:
  assumes "bitmap_ok b"
  shows "\<exists>e. debug_run_end b n = Some e \<and> n \<le> e \<and> (\<forall>k. n \<le> k \<and> k < e \<longrightarrow> k < bm_size b \<and> bit_at (bm_data b) k) \<and>
    \<not> (e < bm_size b \<and> bit_at (bm_data b) e)"
proof (induction "bm_size b - n" arbitrary: n rule: less_induct)
  case less
  show ?case
  proof (cases "n < bm_size b \<and> bit_at (bm_data b) n")
    case True
    then have dec: "bm_size b - (n + 1) < bm_size b - n" by linarith
    obtain e where e: "debug_run_end b (n + 1) = Some e" "n + 1 \<le> e"
        "\<forall>k. n + 1 \<le> k \<and> k < e \<longrightarrow> k < bm_size b \<and> bit_at (bm_data b) k" "\<not> (e < bm_size b \<and> bit_at (bm_data b) e)"
      using less [OF dec] by blast
    have "debug_run_end b n = Some e" using e(1) True get_bit_eq [OF assms] by (subst debug_run_end.simps) simp
    moreover have "k < bm_size b \<and> bit_at (bm_data b) k" if "n \<le> k \<and> k < e" for k
      using that True e(3) by (cases "k = n") auto
    ultimately show ?thesis using e(2,4) by auto
  next
    case False
    have "debug_run_end b n = Some n" using False get_bit_eq [OF assms] by (subst debug_run_end.simps) auto
    then show ?thesis using False by auto
  qed
qed

lemma debug_ranges_ok:
  assumes "bitmap_ok b"
  shows "\<exists>rs. debug_ranges b n = Some rs \<and>
    (\<forall>k. (\<exists>(x, y) \<in> set rs. x \<le> k \<and> k \<le> y) \<longleftrightarrow> n \<le> k \<and> k < bm_size b \<and> bit_at (bm_data b) k)"
proof (induction "bm_size b - n" arbitrary: n rule: less_induct)
  case less
  show ?case
  proof (cases "n < bm_size b")
    case False
    then show ?thesis by (subst debug_ranges.simps) auto
  next
    case True
    obtain e where e: "debug_run_end b n = Some e" "n \<le> e"
        "\<forall>k. n \<le> k \<and> k < e \<longrightarrow> k < bm_size b \<and> bit_at (bm_data b) k" "\<not> (e < bm_size b \<and> bit_at (bm_data b) e)"
      using debug_run_end_ok [OF assms] by blast
    have dec: "bm_size b - (e + 1) < bm_size b - n" using True e(2) by simp
    obtain rs where rs: "debug_ranges b (e + 1) = Some rs"
        "\<forall>k. (\<exists>(x, y) \<in> set rs. x \<le> k \<and> k \<le> y) \<longleftrightarrow> e + 1 \<le> k \<and> k < bm_size b \<and> bit_at (bm_data b) k"
      using less [OF dec] by blast
    let ?rs = "(if e = n + 1 then (n, n) # rs else if e > n + 1 then (n, e - 1) # rs else rs)"
    have "debug_ranges b n = Some ?rs" using True e(1) rs(1) by (subst debug_ranges.simps) simp
    moreover have "(\<exists>(x, y) \<in> set ?rs. x \<le> k \<and> k \<le> y) \<longleftrightarrow> n \<le> k \<and> k < e \<or> (\<exists>(x, y) \<in> set rs. x \<le> k \<and> k \<le> y)" for k
      using e(2) by auto
    moreover have "n \<le> k \<and> k < e \<or> e + 1 \<le> k \<and> k < bm_size b \<and> bit_at (bm_data b) k \<longleftrightarrow>
        n \<le> k \<and> k < bm_size b \<and> bit_at (bm_data b) k" for k
      using e(2-4) by (cases "k = e"; cases "k < e") auto
    ultimately show ?thesis using rs(2) by auto
  qed
qed

section \<open>Properties\<close>

text \<open>
  C9: However align_to splits the buffer, on a bitmap whose buffer has room for its size the word-
  wise searches return the least unset (set) bit below the size, and None exactly when there
  is none.
\<close>

theorem bitmap_searches_correct:
  assumes "bitmap_ok b" "h + 8 * w \<le> length (bm_data b)"
  shows "(find_first_unset h w b = Some n \<longleftrightarrow>
       get_bit b n = Some (Some False) \<and> (\<forall>k < n. get_bit b k = Some (Some True))) \<and>
    (find_first_unset h w b = None \<longleftrightarrow> (\<forall>k < bm_size b. get_bit b k = Some (Some True))) \<and>
    (find_first_set h w b = Some n \<longleftrightarrow>
       get_bit b n = Some (Some True) \<and> (\<forall>k < n. get_bit b k = Some (Some False))) \<and>
    (find_first_set h w b = None \<longleftrightarrow> (\<forall>k < bm_size b. get_bit b k = Some (Some False)))"
  using find_first_unset_spec [OF assms] find_first_set_spec [OF assms] get_bit_eq [OF assms(1)]
  by (auto dest: less_trans)

definition demo_bitmap :: Bitmap where
  "demo_bitmap = \<lparr>bm_data = [0xFF, 0xFF, 0xFF, 0xFF, 0xFF, 0xFF, 0xFF, 0xFF, 0x7F, 0], bm_size = 80\<rparr>"

theorem bitmap_searches_correct_witness:
  "find_first_unset 1 1 demo_bitmap = Some 71 \<and> get_bit demo_bitmap 71 = Some (Some False) \<and>
   get_bit demo_bitmap 70 = Some (Some True)"
proof -
  have ok: "bitmap_ok demo_bitmap" "1 + 8 * 1 \<le> length (bm_data demo_bitmap)"
    by (simp_all add: bitmap_ok_def demo_bitmap_def)
  have f: "find_first_unset 1 1 demo_bitmap = Some 71" by code_simp
  then show ?thesis using bitmap_searches_correct [OF ok, of 71] by simp
qed

text \<open>Without any assumption: which bytes are there decides whether an operation panics.\<close>

lemma get_bit_raw:
  "get_bit b n = (if n < bm_size b then if n div 8 < length (bm_data b) then Some (Some (bit_at (bm_data b) n)) else None else Some None)"
  by (auto simp: get_bit_def list_get_def bit_at_def and_exp_eq_0_iff_not_bit)

lemma update_bit_raw:
  assumes "i div 8 < length (bm_data b)" "i < bm_size b" "\<And>j. j < 8 \<Longrightarrow> bit v j \<longleftrightarrow> (if j = i mod 8 then x else bit (bm_data b ! (i div 8)) j)"
  shows "get_bit (b\<lparr>bm_data := (bm_data b)[i div 8 := v]\<rparr>) k = (if k = i then Some (Some x) else get_bit b k)"
  using nth_update_bit [OF assms(1,3), of k] assms(1,2) by (auto simp: get_bit_raw)

lemma set_bit_raw:
  "set_bit b i x = (if i < bm_size b
     then if i div 8 < length (bm_data b)
          then Some (b\<lparr>bm_data := (bm_data b)[i div 8 :=
            if x then bm_data b ! (i div 8) OR push_bit (i mod 8) 1 else bm_data b ! (i div 8) AND NOT (push_bit (i mod 8) 1)]\<rparr>)
          else None
     else Some b)"
  by (simp add: set_bit_def list_get_def Let_def)

lemma toggle_bit_raw:
  "toggle_bit b i = (if i < bm_size b
     then if i div 8 < length (bm_data b) then Some (b\<lparr>bm_data := (bm_data b)[i div 8 := bm_data b ! (i div 8) XOR push_bit (i mod 8) 1]\<rparr>) else None
     else Some b)"
  by (simp add: toggle_bit_def list_get_def)

lemma set_bit_get:
  assumes "set_bit b i x = Some b'"
  shows "get_bit b' k = (if k = i \<and> k < bm_size b then Some (Some x) else get_bit b k)"
proof (cases "i < bm_size b")
  case True
  let ?v = "if x then bm_data b ! (i div 8) OR push_bit (i mod 8) 1 else bm_data b ! (i div 8) AND NOT (push_bit (i mod 8) 1)"
  have i: "i div 8 < length (bm_data b)" "b' = b\<lparr>bm_data := (bm_data b)[i div 8 := ?v]\<rparr>"
    using assms True by (auto simp: set_bit_raw split: if_splits)
  have "bit ?v j \<longleftrightarrow> (if j = i mod 8 then x else bit (bm_data b ! (i div 8)) j)" if "j < 8" for j
    using that by (auto simp: bit_simps)
  from update_bit_raw [OF i(1) True this] show ?thesis using i True by auto
qed (use assms in \<open>auto simp: set_bit_raw\<close>)

lemma toggle_bit_get:
  assumes "toggle_bit b i = Some b'"
  shows "get_bit b' k = (if k = i \<and> k < bm_size b then Some (Some (get_bit b k \<noteq> Some (Some True))) else get_bit b k)"
proof (cases "i < bm_size b")
  case True
  let ?v = "bm_data b ! (i div 8) XOR push_bit (i mod 8) 1"
  have i: "i div 8 < length (bm_data b)" "b' = b\<lparr>bm_data := (bm_data b)[i div 8 := ?v]\<rparr>"
    using assms True by (auto simp: toggle_bit_raw split: if_splits)
  have "bit ?v j \<longleftrightarrow> (if j = i mod 8 then \<not> bit_at (bm_data b) i else bit (bm_data b ! (i div 8)) j)" if "j < 8" for j
    using that by (auto simp: bit_simps bit_at_def)
  from update_bit_raw [OF i(1) True this] show ?thesis using i True by (auto simp: get_bit_raw)
qed (use assms in \<open>auto simp: toggle_bit_raw\<close>)

text \<open>
  C10: set_bit and toggle_bit panic exactly when the index is below the size and its byte is
  outside the buffer; otherwise they keep the size, give the one bit its new value, leave
  every other bit as it was, and do nothing for an index past the size. The bitmaps made by
  new and new_with_size_multiple never panic; one made by new_with_data with a buffer too
  short for its size does.
\<close>

theorem bitmap_get_set:
  "(set_bit b i x = None \<longleftrightarrow> i < bm_size b \<and> length (bm_data b) \<le> i div 8) \<and>
   (toggle_bit b i = None \<longleftrightarrow> i < bm_size b \<and> length (bm_data b) \<le> i div 8) \<and>
   (\<forall>b'. set_bit b i x = Some b' \<longrightarrow> bm_size b' = bm_size b \<and>
      (\<forall>k. get_bit b' k = (if k = i \<and> k < bm_size b then Some (Some x) else get_bit b k))) \<and>
   (\<forall>b'. toggle_bit b i = Some b' \<longrightarrow> bm_size b' = bm_size b \<and>
      (\<forall>k. get_bit b' k = (if k = i \<and> k < bm_size b then Some (Some (get_bit b k \<noteq> Some (Some True))) else get_bit b k))) \<and>
   set_bit (bitmap_new u sz) i x \<noteq> None \<and> toggle_bit (bitmap_new u sz) i \<noteq> None \<and>
   (\<forall>c. new_with_size_multiple u sz m = Some c \<longrightarrow> set_bit c i x \<noteq> None \<and> toggle_bit c i \<noteq> None)"
proof -
  have none: "set_bit c i x = None \<longleftrightarrow> i < bm_size c \<and> length (bm_data c) \<le> i div 8"
    "toggle_bit c i = None \<longleftrightarrow> i < bm_size c \<and> length (bm_data c) \<le> i div 8" for c
    by (simp_all add: set_bit_raw toggle_bit_raw not_less)
  have "set_bit c i x \<noteq> None \<and> toggle_bit c i \<noteq> None" if "bitmap_ok c" for c
    using bitmap_ok_index [OF that, of i] by (simp add: none not_le)
  then have "set_bit (bitmap_new u sz) i x \<noteq> None \<and> toggle_bit (bitmap_new u sz) i \<noteq> None"
    "\<forall>c. new_with_size_multiple u sz m = Some c \<longrightarrow> set_bit c i x \<noteq> None \<and> toggle_bit c i \<noteq> None"
    using bitmap_new_ok new_with_size_multiple_ok by blast+
  moreover have "set_bit b i x = Some b' \<Longrightarrow> bm_size b' = bm_size b" "toggle_bit b i = Some b' \<Longrightarrow> bm_size b' = bm_size b" for b'
    by (auto simp: set_bit_raw toggle_bit_raw split: if_splits)
  ultimately show ?thesis using none [of b] set_bit_get toggle_bit_get by blast
qed

theorem bitmap_get_set_witness:
  "get_bit (the (set_bit \<lparr>bm_data = [0, 0], bm_size = 12\<rparr> 9 True)) 9 = Some (Some True) \<and>
   set_bit (new_with_data 8 []) 0 True = None \<and> set_bit (bitmap_new [] 8) 0 True \<noteq> None"
proof -
  let ?b = "\<lparr>bm_data = [0, 0], bm_size = 12\<rparr>"
  obtain b' where b': "set_bit ?b 9 True = Some b'" using bitmap_get_set [of ?b 9 True] by (cases "set_bit ?b 9 True") auto
  moreover have "get_bit b' 9 = Some (Some True)" using bitmap_get_set [of ?b 9 True] b' by simp
  moreover have "set_bit (new_with_data 8 []) 0 True = None" using bitmap_get_set [of "new_with_data 8 []" 0 True] by (simp add: new_with_data_def)
  moreover have "set_bit (bitmap_new [] 8) 0 True \<noteq> None" using bitmap_get_set [where b = ?b and i = 0 and x = True and u = "[]" and sz = 8 and m = 1] by blast
  ultimately show ?thesis by simp
qed

text \<open>
  C11: On a bitmap whose buffer has room for its size, the runs the debug output prints cover
  exactly the set bits.
\<close>

theorem bitmap_debug_runs_cover:
  assumes "bitmap_ok b"
  shows "\<exists>rs. debug_ranges b 0 = Some rs \<and>
    (\<forall>k. (\<exists>(x, y) \<in> set rs. x \<le> k \<and> k \<le> y) \<longleftrightarrow> get_bit b k = Some (Some True))"
proof -
  from debug_ranges_ok [OF assms, of 0] obtain rs where rs: "debug_ranges b 0 = Some rs \<and>
      (\<forall>k. (\<exists>(x, y) \<in> set rs. x \<le> k \<and> k \<le> y) \<longleftrightarrow> 0 \<le> k \<and> k < bm_size b \<and> bit_at (bm_data b) k)" ..
  moreover have "get_bit b k = Some (Some True) \<longleftrightarrow> 0 \<le> k \<and> k < bm_size b \<and> bit_at (bm_data b) k" for k
    by (simp add: get_bit_eq [OF assms])
  ultimately show ?thesis by (intro exI [of _ rs] conjI) simp_all
qed

theorem bitmap_debug_runs_cover_witness:
  "\<exists>rs. debug_ranges demo_bitmap 0 = Some rs \<and> (\<exists>(x, y) \<in> set rs. x \<le> 70 \<and> 70 \<le> y)"
proof -
  have "bitmap_ok demo_bitmap" by (simp add: bitmap_ok_def demo_bitmap_def)
  moreover have "get_bit demo_bitmap 70 = Some (Some True)" by code_simp
  ultimately show ?thesis using bitmap_debug_runs_cover [of demo_bitmap] by blast
qed

end
