(* ===== verification/Pool.thy ===== *)
theory Pool
  imports Prelude
begin

text \<open>
  The contract shared by the allocators of numbered resources of the kernel: file descriptors
  (\<^verbatim>\<open>process/io/file_table.rs\<close>), blocks and inodes of an ext2 block group
  (\<^verbatim>\<open>drivers/fs/phys/ext2/balloc.rs\<close>, \<^verbatim>\<open>ialloc.rs\<close>). The lemmas are proved here
  once; every allocator interprets the locale in its own theory.
\<close>

fun take_many :: "('s \<Rightarrow> (nat option \<times> 's) panics) \<Rightarrow> nat \<Rightarrow> 's \<Rightarrow> (nat list \<times> 's) panics" where
  "take_many acquire 0 s = Some ([], s)"
| "take_many acquire (Suc n) s = do {
     (r, s1) \<leftarrow> acquire s;
     case r of
       None \<Rightarrow> Some ([], s1)
     | Some x \<Rightarrow> do { (xs, s2) \<leftarrow> take_many acquire n s1; Some (x # xs, s2) }
   }"

locale resource_pool =
  fixes acquire :: "'s \<Rightarrow> (nat option \<times> 's) panics"
    and release :: "'s \<Rightarrow> nat \<Rightarrow> 's panics"
    and pool_inv :: "'s \<Rightarrow> nat set \<Rightarrow> bool"
    and universe :: "'s \<Rightarrow> nat set"
  assumes acquire_law: "pool_inv s H \<Longrightarrow> \<exists>r s'. acquire s = Some (r, s') \<and> universe s' = universe s \<and>
      (case r of None \<Rightarrow> s' = s \<and> H = universe s | Some x \<Rightarrow> x \<in> universe s \<and> x \<notin> H \<and> pool_inv s' (insert x H))"
    and release_law: "pool_inv s H \<Longrightarrow> x \<in> H \<Longrightarrow>
      \<exists>s'. release s x = Some s' \<and> universe s' = universe s \<and> pool_inv s' (H - {x})"
    and held_subset: "pool_inv s H \<Longrightarrow> H \<subseteq> universe s"
    and finite_universe: "finite (universe s)"
begin

lemma acquire_cases:
  assumes "pool_inv s H"
  obtains "acquire s = Some (None, s)" "H = universe s"
  | x s' where "acquire s = Some (Some x, s')" "x \<in> universe s" "x \<notin> H" "pool_inv s' (insert x H)" "universe s' = universe s"
proof -
  obtain r s' where a: "acquire s = Some (r, s')" "universe s' = universe s"
      "case r of None \<Rightarrow> s' = s \<and> H = universe s | Some x \<Rightarrow> x \<in> universe s \<and> x \<notin> H \<and> pool_inv s' (insert x H)"
    using acquire_law [OF assms] by blast
  then show thesis using that by (cases r) auto
qed

lemma take_many_spec:
  "pool_inv s H \<Longrightarrow> \<exists>xs s'. take_many acquire n s = Some (xs, s') \<and> distinct xs \<and> set xs \<inter> H = {} \<and>
    set xs \<subseteq> universe s \<and> pool_inv s' (H \<union> set xs) \<and> length xs = min n (card (universe s - H))"
proof (induction n arbitrary: s H)
  case 0
  then show ?case by simp
next
  case (Suc n)
  from Suc.prems show ?case
  proof (rule acquire_cases)
    assume "acquire s = Some (None, s)" "H = universe s"
    then show ?thesis using Suc.prems by simp
  next
    fix x s1
    assume a: "acquire s = Some (Some x, s1)" "x \<in> universe s" "x \<notin> H" "pool_inv s1 (insert x H)" "universe s1 = universe s"
    obtain xs s2 where r: "take_many acquire n s1 = Some (xs, s2)" "distinct xs" "set xs \<inter> insert x H = {}"
        "set xs \<subseteq> universe s" "pool_inv s2 (insert x H \<union> set xs)" "length xs = min n (card (universe s - insert x H))"
      using Suc.IH [OF a(4)] unfolding a(5) by blast
    have e: "universe s - H = insert x (universe s - insert x H)" using a(2,3) by blast
    have "card (insert x (universe s - insert x H)) = Suc (card (universe s - insert x H))"
      by (rule card_insert_disjoint) (simp_all add: finite_universe)
    then have "card (universe s - H) = Suc (card (universe s - insert x H))" by (simp only: e [symmetric])
    moreover have "H \<union> set (x # xs) = insert x H \<union> set xs" by simp
    moreover have "take_many acquire (Suc n) s = Some (x # xs, s2)" using a(1) r(1) by simp
    ultimately show ?thesis using a(2,3) r(2-6) by (intro exI [of _ "x # xs"] exI [of _ s2]) simp
  qed
qed

lemma acquire_release:
  assumes "pool_inv s H" "acquire s = Some (Some x, s')"
  shows "\<exists>s''. release s' x = Some s'' \<and> pool_inv s'' H"
  using assms(1)
proof (rule acquire_cases)
  fix y t assume "acquire s = Some (Some y, t)" "y \<notin> H" "pool_inv t (insert y H)"
  moreover from this(1) have "y = x" "t = s'" using assms(2) by simp_all
  ultimately show ?thesis using release_law [of s' "insert x H" x] by auto
qed (use assms(2) in simp)

end

end
