(* ===== verification/FileTable.thy ===== *)
theory FileTable
  imports Pool
begin

text \<open>
  The table of file descriptors of a process, \<^verbatim>\<open>process/io/file_table.rs\<close>: a fixed vector
  of slots, a stack of descriptors that were given back and a high-water mark. A slot holds the
  file system and the handle of an open file (\<^verbatim>\<open>Fd\<close>).
\<close>

section \<open>The table\<close>

definition MAX_FILES :: nat where
  "MAX_FILES = 4096"

type_synonym Fd = "nat \<times> nat"

record FileTable =
  ft_files :: "Fd option list"
  ft_max_allocated_fd :: nat
  ft_available_fds :: "nat list"

definition file_table_new :: FileTable where
  "file_table_new = \<lparr>ft_files = replicate MAX_FILES None, ft_max_allocated_fd = 0, ft_available_fds = []\<rparr>"

definition alloc_fd :: "FileTable \<Rightarrow> (nat option \<times> FileTable) panics" where
  "alloc_fd t =
     (if ft_available_fds t \<noteq> [] then
        (let fd = last (ft_available_fds t) in do {
           _ \<leftarrow> list_get (ft_files t) fd;
           Some (Some fd, t\<lparr>ft_available_fds := butlast (ft_available_fds t)\<rparr>)
         })
      else if ft_max_allocated_fd t < MAX_FILES then
        (let fd = ft_max_allocated_fd t in do {
           _ \<leftarrow> list_get (ft_files t) fd;
           Some (Some fd, t\<lparr>ft_max_allocated_fd := fd + 1\<rparr>)
         })
      else Some (None, t))"

definition free_fd :: "FileTable \<Rightarrow> nat \<Rightarrow> Fd option \<times> FileTable" where
  "free_fd t idx =
     (if idx \<ge> length (ft_files t) then (None, t)
      else (ft_files t ! idx,
            t\<lparr>ft_available_fds := ft_available_fds t @ [idx], ft_files := (ft_files t)[idx := None]\<rparr>))"

fun alloc_fds_loop :: "nat \<Rightarrow> nat list \<Rightarrow> FileTable \<Rightarrow> (nat list option \<times> FileTable) panics" where
  "alloc_fds_loop 0 fds t = Some (Some fds, t)"
| "alloc_fds_loop (Suc n) fds t = do {
     (r, t1) \<leftarrow> alloc_fd t;
     case r of
       Some fd \<Rightarrow> alloc_fds_loop n (fds @ [fd]) t1
     | None \<Rightarrow> Some (None, fold (\<lambda>idx t. snd (free_fd t idx)) fds t1)
   }"

text \<open>\<^verbatim>\<open>Vec::with_capacity(count)\<close> panics when the indices take more than \<^verbatim>\<open>isize::MAX\<close> bytes.\<close>

definition alloc_fds :: "FileTable \<Rightarrow> nat \<Rightarrow> (nat list option \<times> FileTable) panics" where
  "alloc_fds t count = do { _ \<leftarrow> assert_rust (8 * count < 2 ^ 63); alloc_fds_loop count [] t }"

definition get_fd :: "FileTable \<Rightarrow> nat \<Rightarrow> Fd option option" where
  "get_fd t idx = (if idx < length (ft_files t) then Some (ft_files t ! idx) else None)"

definition set_fd :: "FileTable \<Rightarrow> nat \<Rightarrow> Fd option \<Rightarrow> FileTable" where
  "set_fd t idx v = t\<lparr>ft_files := (ft_files t)[idx := v]\<rparr>"

definition new_with_stdio :: "Fd \<Rightarrow> Fd \<Rightarrow> Fd \<Rightarrow> FileTable" where
  "new_with_stdio stdin_read stdout_write stderr_write =
     (let ft = file_table_new\<lparr>ft_max_allocated_fd := 3\<rparr>
      in set_fd (set_fd (set_fd ft 0 (Some stdin_read)) 1 (Some stdout_write)) 2 (Some stderr_write))"

section \<open>Descriptors in use\<close>

definition table_inv :: "FileTable \<Rightarrow> nat set \<Rightarrow> bool" where
  "table_inv t held \<longleftrightarrow> length (ft_files t) = MAX_FILES \<and> ft_max_allocated_fd t \<le> MAX_FILES \<and>
     distinct (ft_available_fds t) \<and> set (ft_available_fds t) \<inter> held = {} \<and>
     set (ft_available_fds t) \<union> held = {..<ft_max_allocated_fd t}"

lemma table_inv_new: "table_inv file_table_new {}"
  by (simp add: table_inv_def file_table_new_def)

lemma table_inv_stdio: "table_inv (new_with_stdio i out err) {0, 1, 2}"
  by (auto simp: table_inv_def new_with_stdio_def file_table_new_def set_fd_def MAX_FILES_def Let_def)

lemma table_inv_set: "table_inv t held \<Longrightarrow> table_inv (set_fd t i v) held"
  by (simp add: table_inv_def set_fd_def)

lemma alloc_fd_inv:
  assumes inv: "table_inv t held"
  shows "\<exists>r t'. alloc_fd t = Some (r, t') \<and> ft_files t' = ft_files t \<and>
    (case r of None \<Rightarrow> t' = t \<and> held = {..<MAX_FILES}
     | Some fd \<Rightarrow> fd < MAX_FILES \<and> fd \<notin> held \<and> table_inv t' (insert fd held))"
proof (cases "ft_available_fds t = []")
  case True
  then show ?thesis using inv
    by (auto simp: alloc_fd_def table_inv_def list_get_def Let_def)
next
  case False
  let ?fd = "last (ft_available_fds t)" let ?rest = "butlast (ft_available_fds t)"
  have av: "ft_available_fds t = ?rest @ [?fd]" using False by simp
  have s: "set (ft_available_fds t) = insert ?fd (set ?rest)" by (subst av) simp
  have d: "distinct ?rest" "?fd \<notin> set ?rest" using inv av unfolding table_inv_def
    by (metis distinct_append, metis av distinct_append disjoint_iff list.set_intros(1) table_inv_def)
  have m: "?fd < ft_max_allocated_fd t" "ft_max_allocated_fd t \<le> MAX_FILES" "length (ft_files t) = MAX_FILES" "?fd \<notin> held"
    using inv s unfolding table_inv_def by auto
  have "alloc_fd t = Some (Some ?fd, t\<lparr>ft_available_fds := ?rest\<rparr>)"
    using False m by (simp add: alloc_fd_def list_get_def Let_def)
  moreover have "table_inv (t\<lparr>ft_available_fds := ?rest\<rparr>) (insert ?fd held)"
    using inv s d unfolding table_inv_def by auto
  ultimately show ?thesis using m by auto
qed

lemma free_fd_inv:
  assumes "table_inv t held" "fd \<in> held"
  shows "table_inv (snd (free_fd t fd)) (held - {fd})" "fst (free_fd t fd) = ft_files t ! fd"
    "get_fd (snd (free_fd t fd)) fd = Some None"
  using assms unfolding table_inv_def free_fd_def get_fd_def by auto

definition release_fd :: "FileTable \<Rightarrow> nat \<Rightarrow> FileTable panics" where
  "release_fd t fd = Some (snd (free_fd t fd))"

interpretation fdp: resource_pool alloc_fd release_fd table_inv "\<lambda>_. {..<MAX_FILES}"
proof (unfold_locales, goal_cases)
  case (1 t held)
  then show ?case using alloc_fd_inv [OF 1] by (fastforce split: option.splits)
next
  case (2 t held fd)
  then show ?case using free_fd_inv(1) by (simp add: release_fd_def)
next
  case (3 t held)
  then show ?case unfolding table_inv_def by auto
qed simp

lemma fold_free_inv:
  "table_inv t (held \<union> set fds) \<Longrightarrow> distinct fds \<Longrightarrow> set fds \<inter> held = {} \<Longrightarrow>
    table_inv (fold (\<lambda>idx t. snd (free_fd t idx)) fds t) held"
proof (induction fds arbitrary: t)
  case (Cons fd fds)
  have "(held \<union> set (fd # fds)) - {fd} = held \<union> set fds" using Cons.prems(2,3) by auto
  then have "table_inv (snd (free_fd t fd)) (held \<union> set fds)"
    using free_fd_inv(1) [OF Cons.prems(1), of fd] by simp
  then show ?case using Cons by simp
qed simp

lemma alloc_fds_loop_inv:
  assumes "table_inv t (held \<union> set fds)" "distinct fds" "set fds \<inter> held = {}" "finite held" "held \<subseteq> {..<MAX_FILES}"
  shows "\<exists>r t'. alloc_fds_loop n fds t = Some (r, t') \<and>
    (case r of None \<Rightarrow> table_inv t' held \<and> MAX_FILES < card held + length fds + n
     | Some xs \<Rightarrow> length xs = length fds + n \<and> distinct xs \<and> set xs \<inter> held = {} \<and> table_inv t' (held \<union> set xs))"
  using assms(1-3)
proof (induction n arbitrary: fds t)
  case 0
  then show ?case by simp
next
  case (Suc n)
  from Suc.prems(1) show ?case
  proof (rule fdp.acquire_cases)
    assume a: "alloc_fd t = Some (None, t)" "held \<union> set fds = {..<MAX_FILES}"
    have "card (held \<union> set fds) = card held + length fds"
      using Suc.prems(2,3) assms(4) by (simp add: card_Un_disjoint distinct_card Int_commute)
    then have "MAX_FILES = card held + length fds" using a(2) by simp
    then show ?thesis using a(1) fold_free_inv [OF Suc.prems] by simp
  next
    fix fd t1
    assume a: "alloc_fd t = Some (Some fd, t1)" "fd \<notin> held \<union> set fds" "table_inv t1 (insert fd (held \<union> set fds))"
    then have "table_inv t1 (held \<union> set (fds @ [fd]))" "distinct (fds @ [fd])" "set (fds @ [fd]) \<inter> held = {}"
      using Suc.prems by auto
    from Suc.IH [OF this] obtain r t' where "alloc_fds_loop n (fds @ [fd]) t1 = Some (r, t')"
        "case r of None \<Rightarrow> table_inv t' held \<and> MAX_FILES < card held + length (fds @ [fd]) + n
         | Some xs \<Rightarrow> length xs = length (fds @ [fd]) + n \<and> distinct xs \<and> set xs \<inter> held = {} \<and> table_inv t' (held \<union> set xs)"
      by blast
    then show ?thesis using a(1) by (auto split: option.splits)
  qed
qed

inductive fd_reachable :: "FileTable \<Rightarrow> nat set \<Rightarrow> bool" where
  new: "fd_reachable file_table_new {}"
| stdio: "fd_reachable (new_with_stdio i out err) {0, 1, 2}"
| alloc: "fd_reachable t held \<Longrightarrow> alloc_fd t = Some (Some fd, t') \<Longrightarrow> fd_reachable t' (insert fd held)"
| alloc_fails: "fd_reachable t held \<Longrightarrow> alloc_fd t = Some (None, t') \<Longrightarrow> fd_reachable t' held"
| allocs: "fd_reachable t held \<Longrightarrow> alloc_fds t n = Some (Some xs, t') \<Longrightarrow> fd_reachable t' (held \<union> set xs)"
| allocs_fails: "fd_reachable t held \<Longrightarrow> alloc_fds t n = Some (None, t') \<Longrightarrow> fd_reachable t' held"
| store: "fd_reachable t held \<Longrightarrow> fd \<in> held \<Longrightarrow> fd_reachable (set_fd t fd v) held"
| free: "fd_reachable t held \<Longrightarrow> fd \<in> held \<Longrightarrow> free_fd t fd = (v, t') \<Longrightarrow> fd_reachable t' (held - {fd})"

lemma alloc_fds_inv:
  assumes "table_inv t held" "8 * n < 2 ^ 63"
  shows "\<exists>r t'. alloc_fds t n = Some (r, t') \<and>
    (case r of None \<Rightarrow> table_inv t' held \<and> MAX_FILES < card held + n
     | Some xs \<Rightarrow> length xs = n \<and> distinct xs \<and> set xs \<inter> held = {} \<and> table_inv t' (held \<union> set xs))"
proof -
  have "held \<subseteq> {..<MAX_FILES}" using fdp.held_subset [OF assms(1)] .
  moreover from this have "finite held" by (rule finite_subset) simp
  moreover have "alloc_fds t n = alloc_fds_loop n [] t" using assms(2) by (simp add: alloc_fds_def)
  ultimately show ?thesis using alloc_fds_loop_inv [of t held "[]" n] assms(1) by (simp cong: option.case_cong)
qed

lemma alloc_fds_small: "alloc_fds t n = Some r \<Longrightarrow> 8 * n < 2 ^ 63"
  by (auto simp: alloc_fds_def assert_rust_def split: if_splits)

lemma fd_reachable_inv: "fd_reachable t held \<Longrightarrow> table_inv t held"
proof (induction rule: fd_reachable.induct)
  case (alloc t held fd t')
  then show ?case using alloc_fd_inv [OF alloc(3)] by auto
next
  case (alloc_fails t held t')
  then show ?case using alloc_fd_inv [OF alloc_fails(3)] by auto
next
  case (allocs t held n xs t')
  then show ?case using alloc_fds_inv [OF allocs(3) alloc_fds_small [OF allocs(2)]] by auto
next
  case (allocs_fails t held n t')
  then show ?case using alloc_fds_inv [OF allocs_fails(3) alloc_fds_small [OF allocs_fails(2)]] by auto
next
  case (free t held fd v t')
  then show ?case using free_fd_inv(1) [OF free(4,2)] by simp
next
  case (stdio i out err)
  then show ?case by (rule table_inv_stdio)
qed (auto intro: table_inv_new table_inv_set)

text \<open>
  C15: As long as only held descriptors are freed, a new descriptor is in range and never one in
  use, the table is refused only when all 4096 are taken, and a batch allocation is all or
  nothing, in that its failure leaves the held descriptors as they were and happens only when
  too few are free; a batch whose vector would exceed isize::MAX bytes panics.
\<close>

theorem file_descriptors_unique:
  assumes "fd_reachable t held"
  shows "(\<exists>r t'. alloc_fd t = Some (r, t') \<and>
      (case r of None \<Rightarrow> held = {..<MAX_FILES} | Some fd \<Rightarrow> fd < MAX_FILES \<and> fd \<notin> held \<and> get_fd t' fd \<noteq> None)) \<and>
    (if 8 * n < 2 ^ 63 then
      (\<exists>r t'. alloc_fds t n = Some (r, t') \<and>
        (case r of None \<Rightarrow> MAX_FILES < card held + n \<and> fd_reachable t' held
         | Some xs \<Rightarrow> length xs = n \<and> distinct xs \<and> set xs \<inter> held = {} \<and> set xs \<subseteq> {..<MAX_FILES}))
     else alloc_fds t n = None)"
proof -
  have inv: "table_inv t held" using fd_reachable_inv [OF assms] .
  obtain r t' where a: "alloc_fd t = Some (r, t')" "ft_files t' = ft_files t"
     "case r of None \<Rightarrow> t' = t \<and> held = {..<MAX_FILES} | Some fd \<Rightarrow> fd < MAX_FILES \<and> fd \<notin> held \<and> table_inv t' (insert fd held)"
    using alloc_fd_inv [OF inv] by blast
  have b: "\<exists>q u. alloc_fds t n = Some (q, u) \<and> (case q of None \<Rightarrow> MAX_FILES < card held + n \<and> fd_reachable u held
       | Some xs \<Rightarrow> length xs = n \<and> distinct xs \<and> set xs \<inter> held = {} \<and> set xs \<subseteq> {..<MAX_FILES})" if n: "8 * n < 2 ^ 63"
  proof -
    obtain q u where q: "alloc_fds t n = Some (q, u)"
       "case q of None \<Rightarrow> table_inv u held \<and> MAX_FILES < card held + n
        | Some xs \<Rightarrow> length xs = n \<and> distinct xs \<and> set xs \<inter> held = {} \<and> table_inv u (held \<union> set xs)"
      using alloc_fds_inv [OF inv n] by blast
    then have "case q of None \<Rightarrow> MAX_FILES < card held + n \<and> fd_reachable u held
       | Some xs \<Rightarrow> length xs = n \<and> distinct xs \<and> set xs \<inter> held = {} \<and> set xs \<subseteq> {..<MAX_FILES}"
      using fdp.held_subset fd_reachable.allocs_fails [OF assms] by (auto split: option.splits)
    then show ?thesis using q(1) by blast
  qed
  have "length (ft_files t) = MAX_FILES" using inv by (simp add: table_inv_def)
  then have "case r of None \<Rightarrow> held = {..<MAX_FILES} | Some fd \<Rightarrow> fd < MAX_FILES \<and> fd \<notin> held \<and> get_fd t' fd \<noteq> None"
    using a(2,3) by (auto simp: get_fd_def split: option.splits)
  moreover have "alloc_fds t n = None" if "\<not> 8 * n < 2 ^ 63" using that by (simp add: alloc_fds_def)
  ultimately show ?thesis using a(1) b by auto
qed

theorem file_descriptors_unique_witness:
  "\<exists>r t'. alloc_fd (new_with_stdio (1, 10) (1, 11) (1, 12)) = Some (r, t') \<and> r \<noteq> Some 0 \<and> r \<noteq> Some 1 \<and> r \<noteq> Some 2"
  using file_descriptors_unique [OF fd_reachable.stdio [of "(1, 10)" "(1, 11)" "(1, 12)"], of 0]
  by (auto split: option.splits)

text \<open>
  C16: In every table reachable while only held descriptors are freed, and for every descriptor in
  range: after it is freed twice in a row the next two allocations both return it, so that it
  has two owners.
\<close>

theorem double_free_fd_duplicates:
  assumes "fd_reachable t held" "fd < MAX_FILES"
  shows "\<exists>t1 t2. alloc_fd (snd (free_fd (snd (free_fd t fd)) fd)) = Some (Some fd, t1) \<and> alloc_fd t1 = Some (Some fd, t2)"
proof -
  have "length (ft_files t) = MAX_FILES" using fd_reachable_inv [OF assms(1)] by (simp add: table_inv_def)
  then show ?thesis using assms(2) by (simp add: alloc_fd_def free_fd_def list_get_def Let_def butlast_append)
qed

theorem double_free_fd_duplicates_witness:
  "\<exists>t1 t2. alloc_fd (snd (free_fd (snd (free_fd (new_with_stdio (1, 10) (1, 11) (1, 12)) 2)) 2)) = Some (Some 2, t1) \<and> alloc_fd t1 = Some (Some 2, t2)"
  using double_free_fd_duplicates [OF fd_reachable.stdio [of "(1, 10)" "(1, 11)" "(1, 12)"], of 2] by (simp add: MAX_FILES_def)

end
