(* ===== verification/Vfs_Types.thy ===== *)
theory Vfs_Types
  imports Prelude
begin

text \<open>
  The vocabulary of \<^verbatim>\<open>drivers/vfs.rs\<close>: the error type, files and their kinds, file
  statistics, open modes and seek positions, and the allocator of file handles that the virtual
  file systems share. References (\<^verbatim>\<open>Arc\<close>) to devices, file systems and pipes are
  identifiers; the data a driver attaches to a file (\<^verbatim>\<open>dyn FsSpecificFileData\<close>) is one
  datatype with a constructor per driver, and a failed \<^verbatim>\<open>downcast_ref\<close> is another
  constructor. Paths are strings (\<^verbatim>\<open>[char]\<close> slices).
\<close>

datatype VfsError =
    FileSystemMismatch
  | ActionNotAllowed
  | PathNotFound
  | ReadOnly
  | FileSystemNotMounted
  | BadBufferSize
  | NotDirectory
  | NotFile
  | NotMountPoint
  | OutOfBounds
  | UnknownError
  | InvalidOpenMode
  | InvalidSeekPosition
  | BadHandle
  | AlreadyMounted
  | OutOfSpace
  | InvalidArgument
  | MaximumSizeReached
  | EntryNotFound
  | FileAlreadyExists
  | InvalidDataStructure
  | DirectoryNotEmpty
  | NameTooLong
  | ShortRead
  | Done
  | WouldBlock
  | BrokenPipe
  | DriverError string

text \<open>\<^verbatim>\<open>Result<T, VfsError>\<close>: \<open>Inl\<close> is the error.\<close>

type_synonym 'a vresult = "VfsError + 'a"

definition ok_or :: "'a option \<Rightarrow> VfsError \<Rightarrow> 'a vresult" where
  "ok_or x e = (case x of None \<Rightarrow> Inl e | Some v \<Rightarrow> Inr v)"

definition result_bind :: "'a vresult \<Rightarrow> ('a \<Rightarrow> 'b vresult) \<Rightarrow> 'b vresult" where
  "result_bind x f = (case x of Inl e \<Rightarrow> Inl e | Inr v \<Rightarrow> f v)"

datatype PipeMode = PipeRead | PipeWrite

datatype VfsFileKind =
    KFile
  | KDirectory
  | KBlockDevice nat
  | KCharacterDevice nat
  | KMountPoint nat
  | KPipe nat PipeMode nat

datatype PipeFsSpecificFileData = PipefsRoot | PipefsDir nat | PipefsRead nat | PipefsWrite nat

datatype FsSpecificFileData =
    VfsSpecific
  | PipeSpecific PipeFsSpecificFileData
  | OtherSpecific nat

record VfsFile =
  vf_kind :: VfsFileKind
  vf_name :: string
  vf_size :: nat
  vf_parent_fs :: nat
  vf_fs :: nat
  vf_specific :: FsSpecificFileData

definition get_mounted_fs :: "VfsFile \<Rightarrow> nat option" where
  "get_mounted_fs f = (case vf_kind f of KMountPoint fs \<Rightarrow> Some fs | _ \<Rightarrow> None)"

definition get_block_device :: "VfsFile \<Rightarrow> nat option" where
  "get_block_device f = (case vf_kind f of KBlockDevice d \<Rightarrow> Some d | _ \<Rightarrow> None)"

definition get_char_device :: "VfsFile \<Rightarrow> nat option" where
  "get_char_device f = (case vf_kind f of KCharacterDevice d \<Rightarrow> Some d | _ \<Rightarrow> None)"

definition get_pipe :: "VfsFile \<Rightarrow> (nat \<times> PipeMode \<times> nat) option" where
  "get_pipe f = (case vf_kind f of KPipe p m i \<Rightarrow> Some (p, m, i) | _ \<Rightarrow> None)"

definition is_directory :: "VfsFile \<Rightarrow> bool" where
  "is_directory f \<longleftrightarrow> vf_kind f = KDirectory"

definition is_file :: "VfsFile \<Rightarrow> bool" where
  "is_file f \<longleftrightarrow> vf_kind f = KFile"

definition is_mount_point :: "VfsFile \<Rightarrow> bool" where
  "is_mount_point f \<longleftrightarrow> get_mounted_fs f \<noteq> None"

definition OPEN_MODE_READ :: u64 where "OPEN_MODE_READ = push_bit 0 1"

definition OPEN_MODE_WRITE :: u64 where "OPEN_MODE_WRITE = push_bit 1 1"

definition OPEN_MODE_APPEND :: u64 where "OPEN_MODE_APPEND = push_bit 2 1"

definition OPEN_MODE_NO_RESIZE :: u64 where "OPEN_MODE_NO_RESIZE = push_bit 3 1"

definition OPEN_MODE_CREATE :: u64 where "OPEN_MODE_CREATE = push_bit 4 1"

definition OPEN_MODE_FAIL_IF_EXISTS :: u64 where "OPEN_MODE_FAIL_IF_EXISTS = push_bit 5 1"

datatype SeekPosition = FromStart nat | FromCurrent int | FromEnd nat

definition FLAG_VIRTUAL :: u64 where "FLAG_VIRTUAL = push_bit 0 1"

definition FLAG_SYSTEM :: u64 where "FLAG_SYSTEM = push_bit 3 1"

record FileStat =
  st_size :: nat
  st_created_at :: nat
  st_modified_at :: nat
  st_permissions :: u64
  st_is_file :: bool
  st_is_directory :: bool
  st_is_symlink :: bool
  st_owner_id :: nat
  st_group_id :: nat
  st_flags :: u64

section \<open>File handles\<close>

text \<open>
  A file handle is the address of a heap block that holds the handle's data; the set of live
  handles and the data behind them are one partial map. The address of a new handle comes from
  the kernel heap and is an argument.
\<close>

type_synonym 'd FileHandleAllocator = "nat \<rightharpoonup> 'd"

definition alloc_file_handle :: "'d FileHandleAllocator \<Rightarrow> nat \<Rightarrow> 'd \<Rightarrow> nat \<times> 'd FileHandleAllocator" where
  "alloc_file_handle hs addr d = (addr, hs(addr \<mapsto> d))"

definition get_handle_data :: "'d FileHandleAllocator \<Rightarrow> nat \<Rightarrow> 'd option" where
  "get_handle_data hs h = hs h"

definition dealloc_file_handle :: "'d FileHandleAllocator \<Rightarrow> nat \<Rightarrow> bool \<times> 'd FileHandleAllocator" where
  "dealloc_file_handle hs h = (if hs h \<noteq> None then (True, hs(h := None)) else (False, hs))"

lemma result_bind_simps [simp]:
  "result_bind (Inl e) f = Inl e" "result_bind (Inr v) f = f v"
  by (simp_all add: result_bind_def)

lemma ok_or_simps [simp]: "ok_or None e = Inl e" "ok_or (Some v) e = Inr v"
  by (simp_all add: ok_or_def)

end
