(* ===== verification/Vfs_Path.thy ===== *)
theory Vfs_Path
  imports Vfs_Types "HOL-Library.Char_ord" "HOL-Library.List_Lexorder"
begin

text \<open>
  \<^verbatim>\<open>PathSplitter\<close> of \<^verbatim>\<open>drivers/vfs.rs\<close>: a cursor into a path that skips runs of
  slashes. The specification is \<open>components\<close>, the list of the non-empty parts of a path;
  the main lemma says that a cursor enumerates them and always moves forward, which is what makes
  every loop over a path end.
\<close>

record PathSplitter =
  ps_path :: string
  ps_idx :: nat
  ps_last :: "string option"

text \<open>The three scanning loops of \<^verbatim>\<open>new\<close> and \<^verbatim>\<open>peek\<close>, with their test as an argument.\<close>

function skip_while :: "(char \<Rightarrow> bool) \<Rightarrow> string \<Rightarrow> nat \<Rightarrow> nat" where
  "skip_while test path idx =
     (if idx < length path \<and> test (path ! idx) then skip_while test path (idx + 1) else idx)"
  by pat_completeness auto
termination
  by (relation "measure (\<lambda>(_, path, idx). length path - idx)") auto

declare skip_while.simps [simp del]

abbreviation is_slash :: "char \<Rightarrow> bool" where
  "is_slash c \<equiv> c = CHR ''/''"

definition ps_new :: "string \<Rightarrow> PathSplitter" where
  "ps_new path = \<lparr>ps_path = path, ps_idx = skip_while is_slash path 0, ps_last = None\<rparr>"

definition ps_is_done :: "PathSplitter \<Rightarrow> bool" where
  "ps_is_done s \<longleftrightarrow> length (ps_path s) \<le> ps_idx s"

text \<open>\<^verbatim>\<open>peek\<close>: the next part and the index behind it; \<^verbatim>\<open>apply\<close> moves the cursor there.\<close>

definition ps_peek :: "PathSplitter \<Rightarrow> (string \<times> nat) option" where
  "ps_peek s =
     (if ps_is_done s then None
      else let idx = skip_while (\<lambda>c. \<not> is_slash c) (ps_path s) (ps_idx s)
           in Some (slice_of (ps_path s) (ps_idx s) idx, skip_while is_slash (ps_path s) idx))"

definition ps_apply :: "PathSplitter \<Rightarrow> string \<times> nat \<Rightarrow> string \<times> PathSplitter" where
  "ps_apply s peek = (fst peek, s\<lparr>ps_last := Some (fst peek), ps_idx := snd peek\<rparr>)"

definition ps_next_part :: "PathSplitter \<Rightarrow> string \<times> PathSplitter" where
  "ps_next_part s =
     (case ps_peek s of
        None \<Rightarrow> (drop (ps_idx s) (ps_path s), s)
      | Some peek \<Rightarrow> ps_apply s peek)"

section \<open>The specification\<close>

fun split_slash :: "string \<Rightarrow> string list" where
  "split_slash [] = [[]]"
| "split_slash (c # cs) =
     (if is_slash c then [] # split_slash cs
      else (c # hd (split_slash cs)) # tl (split_slash cs))"

definition components :: "string \<Rightarrow> string list" where
  "components path = filter (\<lambda>p. p \<noteq> []) (split_slash path)"

definition ps_rest :: "PathSplitter \<Rightarrow> string list" where
  "ps_rest s = components (drop (ps_idx s) (ps_path s))"

definition ps_ok :: "PathSplitter \<Rightarrow> bool" where
  "ps_ok s \<longleftrightarrow> ps_idx s \<le> length (ps_path s) \<and>
     (ps_idx s < length (ps_path s) \<longrightarrow> \<not> is_slash (ps_path s ! ps_idx s))"

section \<open>Lemmas on components\<close>

lemma split_slash_nonempty [simp]: "split_slash xs \<noteq> []"
  by (cases xs) auto

lemma split_slash_append:
  "split_slash (xs @ CHR ''/'' # ys) = split_slash xs @ split_slash ys"
  by (induction xs) simp_all

lemma split_slash_no_slash: "CHR ''/'' \<notin> set xs \<Longrightarrow> split_slash xs = [xs]"
  by (induction xs) auto

lemma components_slash [simp]: "components (CHR ''/'' # xs) = components xs"
  by (simp add: components_def)

lemma components_Nil [simp]: "components [] = []"
  by (simp add: components_def)

lemma components_append_slash: "components (xs @ CHR ''/'' # ys) = components xs @ components ys"
  by (simp add: components_def split_slash_append)

lemma components_part: "CHR ''/'' \<notin> set xs \<Longrightarrow> xs \<noteq> [] \<Longrightarrow> components xs = [xs]"
  by (simp add: components_def split_slash_no_slash)

lemma split_slash_parts: "p \<in> set (split_slash xs) \<Longrightarrow> CHR ''/'' \<notin> set p"
proof (induction xs arbitrary: p)
  case (Cons c cs)
  have "hd (split_slash cs) \<in> set (split_slash cs)" by simp
  moreover have "p \<in> set (tl (split_slash cs)) \<Longrightarrow> p \<in> set (split_slash cs)" by (meson list.set_sel(2) split_slash_nonempty)
  ultimately show ?case using Cons by (auto split: if_splits)
qed simp

lemma components_parts: "p \<in> set (components xs) \<Longrightarrow> p \<noteq> [] \<and> CHR ''/'' \<notin> set p"
  using split_slash_parts by (auto simp: components_def)

section \<open>The scanning loop\<close>

lemma skip_while_bounds: "idx \<le> length path \<Longrightarrow> idx \<le> skip_while t path idx \<and> skip_while t path idx \<le> length path"
proof (induction t path idx rule: skip_while.induct)
  case (1 t path idx)
  then show ?case by (subst (1 2) skip_while.simps) (auto intro: order_trans [OF _ conjunct1])
qed

lemma skip_while_stops:
  "skip_while t path idx < length path \<Longrightarrow> \<not> t (path ! skip_while t path idx)"
proof (induction t path idx rule: skip_while.induct)
  case (1 t path idx)
  show ?case
  proof (cases "idx < length path \<and> t (path ! idx)")
    case True
    then have "skip_while t path idx = skip_while t path (idx + 1)" by (subst skip_while.simps) simp
    then show ?thesis using 1 True by simp
  next
    case False
    then have "skip_while t path idx = idx" by (subst skip_while.simps) auto
    then show ?thesis using False 1 by auto
  qed
qed

lemma skip_while_covers: "idx \<le> i \<Longrightarrow> i < skip_while t path idx \<Longrightarrow> t (path ! i)"
proof (induction t path idx rule: skip_while.induct)
  case (1 t path idx)
  show ?case
  proof (cases "idx < length path \<and> t (path ! idx)")
    case True
    then have "skip_while t path idx = skip_while t path (idx + 1)" by (subst skip_while.simps) simp
    then show ?thesis using 1 True by (cases "i = idx") auto
  next
    case False
    then have "skip_while t path idx = idx" by (subst skip_while.simps) auto
    then show ?thesis using 1 by simp
  qed
qed

lemma skip_slashes_components:
  assumes "idx \<le> length path"
  shows "components (drop (skip_while is_slash path idx) path) = components (drop idx path)"
  using assms
proof (induction is_slash path idx rule: skip_while.induct)
  case (1 path idx)
  show ?case
  proof (cases "idx < length path \<and> is_slash (path ! idx)")
    case True
    then have "drop idx path = CHR ''/'' # drop (idx + 1) path" using Cons_nth_drop_Suc [of idx path] by simp
    moreover have "skip_while is_slash path idx = skip_while is_slash path (idx + 1)" using True by (subst skip_while.simps) simp
    ultimately show ?thesis using 1 True by simp
  next
    case False
    then have "skip_while is_slash path idx = idx" by (subst skip_while.simps) auto
    then show ?thesis by simp
  qed
qed

lemma ps_new_ok: "ps_ok (ps_new path)" and ps_new_rest: "ps_rest (ps_new path) = components path"
  using skip_while_bounds [of 0 path is_slash] skip_while_stops [of is_slash path 0] skip_slashes_components [of 0 path]
  by (auto simp: ps_ok_def ps_new_def ps_rest_def)

text \<open>The cursor moves forward from any position, whatever the path holds: loops over it end.\<close>

lemma ps_next_part_progress:
  assumes "\<not> ps_is_done s"
  shows "ps_path (snd (ps_next_part s)) = ps_path s" and "ps_idx s < ps_idx (snd (ps_next_part s))"
proof -
  let ?path = "ps_path s" and ?i = "ps_idx s"
  let ?j = "skip_while (\<lambda>c. \<not> is_slash c) ?path ?i"
  have i: "?i < length ?path" using assms by (simp add: ps_is_done_def)
  have eq: "ps_idx (snd (ps_next_part s)) = skip_while is_slash ?path ?j" "ps_path (snd (ps_next_part s)) = ?path"
    using assms by (simp_all add: ps_next_part_def ps_peek_def ps_apply_def Let_def)
  have j: "?i \<le> ?j" "?j \<le> length ?path" using skip_while_bounds [of ?i ?path] i by simp_all
  show "ps_idx s < ps_idx (snd (ps_next_part s))"
  proof (cases "is_slash (?path ! ?i)")
    case True
    then have "?j = ?i" using i by (subst skip_while.simps) simp
    then have "skip_while is_slash ?path ?j = skip_while is_slash ?path (?i + 1)" using True i by (subst skip_while.simps) simp
    then show ?thesis using skip_while_bounds [of "?i + 1" ?path is_slash] i by (simp add: eq)
  next
    case False
    then have "?j = skip_while (\<lambda>c. \<not> is_slash c) ?path (?i + 1)" using i by (subst skip_while.simps) simp
    then have "?i < ?j" using skip_while_bounds [of "?i + 1" ?path "\<lambda>c. \<not> is_slash c"] i by simp
    then show ?thesis using skip_while_bounds [of ?j ?path is_slash] j by (simp add: eq)
  qed
  show "ps_path (snd (ps_next_part s)) = ps_path s" by (rule eq(2))
qed

lemma ps_done_iff:
  assumes "ps_ok s"
  shows "ps_is_done s \<longleftrightarrow> ps_rest s = []"
proof
  assume "ps_rest s = []"
  show "ps_is_done s"
  proof (rule ccontr)
    assume n: "\<not> ps_is_done s"
    then have i: "ps_idx s < length (ps_path s)" by (simp add: ps_is_done_def)
    then have "drop (ps_idx s) (ps_path s) = ps_path s ! ps_idx s # drop (Suc (ps_idx s)) (ps_path s)"
      by (rule Cons_nth_drop_Suc [symmetric])
    then show False using \<open>ps_rest s = []\<close> assms i by (simp add: ps_rest_def components_def ps_ok_def)
  qed
qed (use assms in \<open>simp add: ps_is_done_def ps_rest_def\<close>)

lemma ps_next_part_step:
  assumes ok: "ps_ok s" and rest: "ps_rest s = p # ps"
  obtains s' where "ps_next_part s = (p, s')" "ps_ok s'" "ps_rest s' = ps" "ps_last s' = Some p"
proof -
  let ?path = "ps_path s" and ?i = "ps_idx s"
  define j where "j = skip_while (\<lambda>c. \<not> is_slash c) ?path ?i"
  define k where "k = skip_while is_slash ?path j"
  have nd: "\<not> ps_is_done s" using ps_done_iff [OF ok] rest by simp
  then have i: "?i < length ?path" "\<not> is_slash (?path ! ?i)" using ok by (simp_all add: ps_is_done_def ps_ok_def)
  have "j = skip_while (\<lambda>c. \<not> is_slash c) ?path (?i + 1)" unfolding j_def using i by (subst skip_while.simps) simp
  then have ij: "?i < j" and jl: "j \<le> length ?path"
    using skip_while_bounds [of "?i + 1" ?path "\<lambda>c. \<not> is_slash c"] i by simp_all
  have part: "slice_of ?path ?i j \<noteq> []" "CHR ''/'' \<notin> set (slice_of ?path ?i j)"
    using ij jl skip_while_covers [of ?i _ "\<lambda>c. \<not> is_slash c" ?path]
    by (auto simp: in_set_conv_nth slice_simps j_def) (auto simp: slice_of_def)
  have decomp: "drop ?i ?path = slice_of ?path ?i j @ drop j ?path"
    using ij by (simp add: slice_of_def) (metis add.commute append_take_drop_id drop_drop le_add_diff_inverse2 less_imp_le)
  have "components (drop ?i ?path) = slice_of ?path ?i j # components (drop j ?path)"
  proof (cases "j < length ?path")
    case True
    then have "drop j ?path = CHR ''/'' # drop (Suc j) ?path"
      using Cons_nth_drop_Suc [OF True] skip_while_stops [of "\<lambda>c. \<not> is_slash c" ?path ?i] by (simp add: j_def)
    then show ?thesis using part by (simp add: decomp components_append_slash components_part)
  next
    case False
    then show ?thesis using part by (simp add: decomp components_part)
  qed
  then have p: "p = slice_of ?path ?i j" and ps: "ps = components (drop k ?path)"
    using rest skip_slashes_components [OF jl] by (simp_all add: ps_rest_def k_def)
  have step: "ps_next_part s = (p, s\<lparr>ps_last := Some p, ps_idx := k\<rparr>)"
    using nd by (simp add: ps_next_part_def ps_peek_def ps_apply_def p j_def k_def Let_def)
  have k: "k \<le> length ?path" "k < length ?path \<Longrightarrow> \<not> is_slash (?path ! k)"
    using skip_while_bounds [OF jl, of is_slash] skip_while_stops [of is_slash ?path j] by (simp_all add: k_def)
  show ?thesis by (rule that [OF step]) (use k in \<open>simp_all add: ps_ok_def ps_rest_def ps\<close>)
qed

lemma ps_peek_step:
  assumes "ps_ok s" "ps_rest s = p # ps"
  obtains i where "ps_peek s = Some (p, i)" "ps_next_part s = ps_apply s (p, i)"
proof -
  have "\<not> ps_is_done s" using ps_done_iff [OF assms(1)] assms(2) by simp
  then obtain q i where q: "ps_peek s = Some (q, i)" by (auto simp: ps_peek_def Let_def)
  moreover have "q = p" using ps_next_part_step [OF assms] q by (auto simp: ps_next_part_def ps_apply_def)
  ultimately show ?thesis using that by (simp add: ps_next_part_def)
qed

section \<open>Enumerating a path\<close>

text \<open>The shape of every client loop: take parts until the splitter is done.\<close>

function ps_collect :: "PathSplitter \<Rightarrow> string list" where
  "ps_collect s =
     (if ps_is_done s then [] else fst (ps_next_part s) # ps_collect (snd (ps_next_part s)))"
  by pat_completeness auto
termination
proof (relation "measure (\<lambda>s. length (ps_path s) - ps_idx s)")
  fix s assume "\<not> ps_is_done s"
  then show "(snd (ps_next_part s), s) \<in> measure (\<lambda>s. length (ps_path s) - ps_idx s)"
    using ps_next_part_progress [of s] by (simp add: ps_is_done_def)
qed simp

declare ps_collect.simps [simp del]

lemma ps_collect_rest: "ps_ok s \<Longrightarrow> ps_collect s = ps_rest s"
proof (induction s rule: ps_collect.induct)
  case (1 s)
  show ?case
  proof (cases "ps_rest s")
    case Nil
    then show ?thesis using ps_done_iff [OF "1.prems"] by (subst ps_collect.simps) simp
  next
    case (Cons p ps)
    then obtain s' where s': "ps_next_part s = (p, s')" "ps_ok s'" "ps_rest s' = ps"
      using ps_next_part_step [OF "1.prems"] by blast
    have "\<not> ps_is_done s" using ps_done_iff [OF "1.prems"] Cons by simp
    then show ?thesis using 1(1) s' Cons by (subst ps_collect.simps) simp
  qed
qed

text \<open>
  C17: The index-based splitter enumerates exactly the non-empty parts between slashes, and joining
  two paths with a slash concatenates their parts.
\<close>

theorem path_splitter_components:
  "ps_collect (ps_new path) = components path \<and>
   (\<forall>p \<in> set (ps_collect (ps_new path)). p \<noteq> [] \<and> CHR ''/'' \<notin> set p) \<and>
   ps_collect (ps_new (path @ CHR ''/'' # rest)) = ps_collect (ps_new path) @ ps_collect (ps_new rest)"
  using components_parts
  by (simp add: ps_collect_rest ps_new_ok ps_new_rest components_append_slash)

theorem path_splitter_components_witness:
  "ps_collect (ps_new ''//dev//a/'') = [''dev'', ''a''] \<and> ''dev'' \<noteq> [] \<and> CHR ''/'' \<notin> set ''dev''"
proof -
  have "ps_collect (ps_new ''//dev//a/'') = [''dev'', ''a'']"
    using path_splitter_components [of "''//dev//a/''" "[]"] by (simp add: components_def)
  then show ?thesis using path_splitter_components [of "''//dev//a/''" "[]"] by simp
qed

end
