(* ===== verification/Mounts.thy ===== *)
theory Mounts
  imports Vfs_Path "HOL-Library.Sublist"
begin

text \<open>
  The tree of mounting points of \<^verbatim>\<open>drivers/vfs.rs\<close>. A node holds its children in a
  \<^verbatim>\<open>BTreeMap\<close> and the file system mounted there, if any; a reference to a file system is
  its identifier. The loops that walk down the tree are recursions on the tree with the splitter
  as their second argument; they end because the splitter moves forward. The abstract state is the
  finite map \<open>mount_at\<close> from component lists to file systems.
\<close>

datatype MountNode = MountNode (node_children: "(string \<times> MountNode) list") (node_contents: "nat option")

definition empty_node :: MountNode where
  "empty_node = MountNode [] None"

abbreviation ps_measure :: "PathSplitter \<Rightarrow> nat" where
  "ps_measure s \<equiv> length (ps_path s) - ps_idx s"

lemma ps_measure_next: "\<not> ps_is_done s \<Longrightarrow> (part, s') = ps_next_part s \<Longrightarrow> ps_measure s' < ps_measure s"
  using ps_next_part_progress [of s] by (metis diff_less_mono2 ps_is_done_def linorder_not_le snd_conv)

function register_at :: "MountNode \<Rightarrow> PathSplitter \<Rightarrow> nat \<Rightarrow> unit vresult \<times> MountNode" where
  "register_at node splitter fs =
     (if ps_is_done splitter then
        (if node_children node \<noteq> [] \<or> node_contents node \<noteq> None then (Inl AlreadyMounted, node)
         else (Inr (), MountNode (node_children node) (Some fs)))
      else if node_contents node \<noteq> None then (Inl AlreadyMounted, node)
      else let (part, splitter') = ps_next_part splitter;
               child = (case map_of (node_children node) part of None \<Rightarrow> empty_node | Some c \<Rightarrow> c);
               (r, child') = register_at child splitter' fs
           in (r, MountNode (btree_insert part child' (node_children node)) (node_contents node)))"
  by pat_completeness auto
termination
  by (relation "measure (\<lambda>(_, s, _). ps_measure s)") (auto dest: ps_measure_next)

function search_at :: "MountNode \<Rightarrow> PathSplitter \<Rightarrow> (nat \<times> PathSplitter) option" where
  "search_at node splitter =
     (if ps_is_done splitter then map_option (\<lambda>fs. (fs, splitter)) (node_contents node)
      else let (part, splitter') = ps_next_part splitter
           in case map_of (node_children node) part of
                Some child \<Rightarrow> search_at child splitter'
              | None \<Rightarrow> map_option (\<lambda>fs. (fs, splitter')) (node_contents node))"
  by pat_completeness auto
termination
  by (relation "measure (\<lambda>(_, s). ps_measure s)") (auto dest: ps_measure_next)

function remove_fs_recursive :: "MountNode \<Rightarrow> PathSplitter \<Rightarrow> nat vresult \<times> MountNode" where
  "remove_fs_recursive node splitter =
     (if ps_is_done splitter then
        (case node_contents node of
           Some fs \<Rightarrow> (Inr fs, MountNode (node_children node) None)
         | None \<Rightarrow> (Inl PathNotFound, node))
      else let (part, splitter') = ps_next_part splitter
           in case map_of (node_children node) part of
                None \<Rightarrow> (Inl PathNotFound, node)
              | Some child \<Rightarrow>
                  (case remove_fs_recursive child splitter' of
                     (Inl e, child') \<Rightarrow> (Inl e, MountNode (btree_insert part child' (node_children node)) (node_contents node))
                   | (Inr fs, child') \<Rightarrow>
                       (Inr fs, MountNode
                          (if node_children child' = [] \<and> node_contents child' = None
                           then btree_remove part (node_children node)
                           else btree_insert part child' (node_children node))
                          (node_contents node))))"
  by pat_completeness auto
termination
  by (relation "measure (\<lambda>(_, s). ps_measure s)") (auto dest: ps_measure_next)

text \<open>The walk that \<^verbatim>\<open>Vfs::get_child\<close> and \<^verbatim>\<open>Vfs::list_children\<close> start with.\<close>

function node_at :: "MountNode \<Rightarrow> PathSplitter \<Rightarrow> MountNode vresult" where
  "node_at node splitter =
     (if ps_is_done splitter then Inr node
      else let (part, splitter') = ps_next_part splitter
           in case map_of (node_children node) part of
                None \<Rightarrow> Inl PathNotFound
              | Some child \<Rightarrow> node_at child splitter')"
  by pat_completeness auto
termination
  by (relation "measure (\<lambda>(_, s). ps_measure s)") (auto dest: ps_measure_next)

declare register_at.simps [simp del] search_at.simps [simp del] remove_fs_recursive.simps [simp del]
  node_at.simps [simp del]

definition mounts_new :: MountNode where
  "mounts_new = MountNode [] None"

definition mounts_register_fs :: "MountNode \<Rightarrow> string \<Rightarrow> nat \<Rightarrow> unit vresult \<times> MountNode" where
  "mounts_register_fs tree name fs = register_at tree (ps_new name) fs"

definition mounts_search_fs :: "MountNode \<Rightarrow> string \<Rightarrow> (nat \<times> PathSplitter) option" where
  "mounts_search_fs tree name = search_at tree (ps_new name)"

definition mounts_remove_fs :: "MountNode \<Rightarrow> string \<Rightarrow> nat vresult \<times> MountNode" where
  "mounts_remove_fs tree name = remove_fs_recursive tree (ps_new name)"

section \<open>The abstract mount table\<close>

fun subnode :: "MountNode \<Rightarrow> string list \<Rightarrow> MountNode option" where
  "subnode node [] = Some node"
| "subnode node (p # ps) = (case map_of (node_children node) p of None \<Rightarrow> None | Some c \<Rightarrow> subnode c ps)"

definition mount_at :: "MountNode \<Rightarrow> string list \<rightharpoonup> nat" where
  "mount_at node ps = (case subnode node ps of None \<Rightarrow> None | Some n \<Rightarrow> node_contents n)"

abbreviation live_node :: "MountNode \<Rightarrow> bool" where
  "live_node n \<equiv> node_children n \<noteq> [] \<or> node_contents n \<noteq> None"

fun tree_ok :: "MountNode \<Rightarrow> bool" where
  "tree_ok (MountNode cs f) \<longleftrightarrow> sorted (map fst cs) \<and> distinct (map fst cs) \<and> (f \<noteq> None \<longrightarrow> cs = []) \<and>
     (\<forall>x \<in> set cs. tree_ok (snd x) \<and> live_node (snd x))"

text \<open>Two mounts conflict when the path of one is a prefix of the path of the other.\<close>

definition table_conflict :: "(string list \<rightharpoonup> nat) \<Rightarrow> string list \<Rightarrow> bool" where
  "table_conflict table ps \<longleftrightarrow> (\<exists>qs. table qs \<noteq> None \<and> (prefix ps qs \<or> prefix qs ps))"

abbreviation mount_conflict :: "MountNode \<Rightarrow> string list \<Rightarrow> bool" where
  "mount_conflict node \<equiv> table_conflict (mount_at node)"

section \<open>Lemmas on the abstract table\<close>

lemma mount_at_simps [simp]:
  "mount_at n [] = node_contents n"
  "mount_at n (p # ps) = (case map_of (node_children n) p of None \<Rightarrow> None | Some c \<Rightarrow> mount_at c ps)"
  by (auto simp: mount_at_def split: option.splits)

lemma tree_ok_iff:
  "tree_ok n \<longleftrightarrow> sorted (map fst (node_children n)) \<and> distinct (map fst (node_children n)) \<and>
     (node_contents n \<noteq> None \<longrightarrow> node_children n = []) \<and>
     (\<forall>p c. map_of (node_children n) p = Some c \<longrightarrow> tree_ok c \<and> live_node c)"
proof (cases n)
  case (MountNode cs f)
  have "(\<forall>x \<in> set cs. tree_ok (snd x) \<and> live_node (snd x)) \<longleftrightarrow>
      (\<forall>p c. map_of cs p = Some c \<longrightarrow> tree_ok c \<and> live_node c)" if "distinct (map fst cs)"
    using map_of_eq_Some_iff [OF that] by (metis prod.collapse snd_conv)
  then show ?thesis using MountNode by auto
qed

lemma tree_okD:
  assumes "tree_ok n"
  shows "sorted (map fst (node_children n))" "distinct (map fst (node_children n))"
    "node_contents n \<noteq> None \<Longrightarrow> node_children n = []"
    "map_of (node_children n) p = Some c \<Longrightarrow> tree_ok c"
    "map_of (node_children n) p = Some c \<Longrightarrow> node_contents n = None"
proof -
  note * = assms [unfolded tree_ok_iff [of n]]
  show "sorted (map fst (node_children n))" "distinct (map fst (node_children n))"
    "node_contents n \<noteq> None \<Longrightarrow> node_children n = []" "map_of (node_children n) p = Some c \<Longrightarrow> tree_ok c"
    using * by blast+
  show "node_contents n = None" if "map_of (node_children n) p = Some c"
    using * that by (metis map_of.simps(1) option.distinct(1))
qed

lemma tree_ok_empty [simp]: "tree_ok empty_node"
  by (simp add: empty_node_def)

lemma empty_node_sel [simp]: "node_children empty_node = []" "node_contents empty_node = None"
  by (simp_all add: empty_node_def)

lemma live_node_mounts: "tree_ok n \<Longrightarrow> live_node n \<Longrightarrow> \<exists>qs. mount_at n qs \<noteq> None"
proof (induction n rule: tree_ok.induct)
  case (1 cs f)
  show ?case
  proof (cases f)
    case None
    then obtain p c cs' where cs: "cs = (p, c) # cs'" using "1.prems" by (cases cs) auto
    then obtain qs where "mount_at c qs \<noteq> None" using 1 by fastforce
    then have "mount_at (MountNode cs f) (p # qs) \<noteq> None" by (simp add: cs)
    then show ?thesis by blast
  next
    case (Some fs)
    then have "mount_at (MountNode cs f) [] \<noteq> None" by simp
    then show ?thesis by blast
  qed
qed

lemma conflict_Nil: "tree_ok n \<Longrightarrow> mount_conflict n [] \<longleftrightarrow> live_node n"
proof
  assume "mount_conflict n []"
  then obtain qs where "mount_at n qs \<noteq> None" by (auto simp: table_conflict_def)
  then show "live_node n" by (cases qs) (auto split: option.splits)
qed (use live_node_mounts in \<open>fastforce simp: table_conflict_def\<close>)

lemma conflict_mounted: "node_contents n \<noteq> None \<Longrightarrow> mount_conflict n ps"
  by (auto simp: table_conflict_def intro!: exI [of _ "[]"])

lemma conflict_Cons:
  assumes "tree_ok n" "node_contents n = None"
  shows "mount_conflict n (p # ps) \<longleftrightarrow> (\<exists>c. map_of (node_children n) p = Some c \<and> mount_conflict c ps)"
proof
  assume "mount_conflict n (p # ps)"
  then obtain qs where qs: "mount_at n qs \<noteq> None" "prefix (p # ps) qs \<or> prefix qs (p # ps)"
    by (auto simp: table_conflict_def)
  then obtain qs' where qs': "qs = p # qs'" using assms(2) by (cases qs) auto
  then show "\<exists>c. map_of (node_children n) p = Some c \<and> mount_conflict c ps"
    using qs by (auto simp: table_conflict_def split: option.splits)
next
  assume "\<exists>c. map_of (node_children n) p = Some c \<and> mount_conflict c ps"
  then obtain c qs where "map_of (node_children n) p = Some c" "mount_at c qs \<noteq> None" "prefix ps qs \<or> prefix qs ps"
    by (auto simp: table_conflict_def)
  then have "mount_at n (p # qs) \<noteq> None" "prefix (p # ps) (p # qs) \<or> prefix (p # qs) (p # ps)" by auto
  then show "mount_conflict n (p # ps)" unfolding table_conflict_def by blast
qed

lemma empty_node_no_conflict: "\<not> mount_conflict empty_node ps"
  using conflict_Cons [OF tree_ok_empty] conflict_Nil [OF tree_ok_empty] by (cases ps) auto

lemma distinct_btree_insert: "sorted (map fst xs) \<Longrightarrow> distinct (map fst xs) \<Longrightarrow> distinct (map fst (btree_insert k v xs))"
proof (induction k v xs rule: btree_insert.induct)
  case (2 k v j w xs)
  have "set (map fst (btree_insert k v xs)) = insert k (set (map fst xs))" using set_btree_insert [of k v xs] by simp
  then show ?case using 2 by (auto simp del: set_map)
qed simp

lemma btree_insert_same:
  "sorted (map fst xs) \<Longrightarrow> distinct (map fst xs) \<Longrightarrow> map_of xs k = Some v \<Longrightarrow> btree_insert k v xs = xs"
proof (induction k v xs rule: btree_insert.induct)
  case (2 k v j w xs)
  have "j \<le> k" if "k \<noteq> j" using 2(2,4) that by (auto dest!: map_of_SomeD)
  then show ?case using 2 by (auto split: if_splits)
qed simp

lemma distinct_btree_remove: "distinct (map fst xs) \<Longrightarrow> distinct (map fst (btree_remove k xs))"
  by (simp add: btree_remove_def distinct_map_filter)

lemma btree_insert_nonempty [simp]: "btree_insert k v xs \<noteq> []"
  by (induction k v xs rule: btree_insert.induct) auto

text \<open>Replacing one live child keeps the tree well-formed and changes the table below that child only.\<close>

lemma update_child:
  fixes p :: string
  assumes "tree_ok n" "node_contents n = None" "tree_ok c'" "live_node c'"
  defines "n' \<equiv> MountNode (btree_insert p c' (node_children n)) (node_contents n)"
  shows "tree_ok n'" "mount_at n' (p # ps) = mount_at c' ps" "q \<noteq> p \<Longrightarrow> mount_at n' (q # ps) = mount_at n (q # ps)"
    "mount_at n' [] = mount_at n []" "live_node n'"
  using assms(1-4)
  by (auto simp: n'_def tree_ok_iff [of n] tree_ok_iff [of "MountNode _ _"] map_of_btree_insert sorted_btree_insert
    distinct_btree_insert simp del: tree_ok.simps split: if_splits)

lemma remove_child:
  fixes p :: string
  assumes "tree_ok n" "node_contents n = None"
  defines "n' \<equiv> MountNode (btree_remove p (node_children n)) (node_contents n)"
  shows "tree_ok n'" "mount_at n' (p # ps) = None" "q \<noteq> p \<Longrightarrow> mount_at n' (q # ps) = mount_at n (q # ps)"
    "mount_at n' [] = mount_at n []"
  using assms(1-2)
  by (auto simp: n'_def tree_ok_iff [of n] tree_ok_iff [of "MountNode _ _"] map_of_btree_remove sorted_btree_remove
    distinct_btree_remove simp del: tree_ok.simps split: if_splits)

lemma mount_at_update:
  assumes "\<And>qs. f (p # qs) = g qs" "\<And>q qs. q \<noteq> p \<Longrightarrow> f (q # qs) = h (q # qs)" "f [] = h []"
    and "\<And>qs. h (p # qs) = k qs" "g = k(ps := v)"
  shows "f = h(p # ps := v)"
proof (rule ext)
  fix qs show "f qs = (h(p # ps := v)) qs"
  proof (cases qs)
    case (Cons q qs')
    then show ?thesis using assms by (cases "q = p") auto
  qed (simp add: assms(3))
qed

section \<open>Registering, removing and finding a mount\<close>

lemma register_at_spec:
  assumes "tree_ok n" "ps_ok s" "ps_rest s = ps"
  shows "if mount_conflict n ps then register_at n s fs = (Inl AlreadyMounted, n)
    else \<exists>n'. register_at n s fs = (Inr (), n') \<and> tree_ok n' \<and> live_node n' \<and> mount_at n' = (mount_at n)(ps \<mapsto> fs)"
  using assms
proof (induction ps arbitrary: n s)
  case Nil
  then have d: "ps_is_done s" using ps_done_iff by blast
  have e: "mount_at (MountNode [] (Some fs)) = (mount_at n)([] \<mapsto> fs)" if "\<not> live_node n"
  proof (rule ext)
    fix qs show "mount_at (MountNode [] (Some fs)) qs = ((mount_at n)([] \<mapsto> fs)) qs"
      using that by (cases qs) auto
  qed
  show ?case using d e conflict_Nil [OF Nil(1)] by (subst (1 2) register_at.simps) auto
next
  case (Cons p ps)
  have nd: "\<not> ps_is_done s" using ps_done_iff [OF Cons.prems(2)] Cons.prems(3) by simp
  obtain s' where s': "ps_next_part s = (p, s')" "ps_ok s'" "ps_rest s' = ps"
    using ps_next_part_step [OF Cons.prems(2,3)] by blast
  show ?case
  proof (cases "node_contents n")
    case (Some x)
    then show ?thesis using nd conflict_mounted [of n] by (subst register_at.simps) simp
  next
    case None
    let ?c = "case map_of (node_children n) p of None \<Rightarrow> empty_node | Some c \<Rightarrow> c"
    have c: "tree_ok ?c" using tree_okD(4) [OF Cons.prems(1)] by (simp split: option.splits)
    have old: "mount_at n (p # qs) = mount_at ?c qs" for qs
      by (cases qs) (auto split: option.splits)
    have conf: "mount_conflict n (p # ps) \<longleftrightarrow> mount_conflict ?c ps"
      using conflict_Cons [OF Cons.prems(1) None] empty_node_no_conflict [of ps] by (auto split: option.splits)
    have step: "register_at n s fs = (let (r, c') = register_at ?c s' fs
        in (r, MountNode (btree_insert p c' (node_children n)) (node_contents n)))"
      using nd s'(1) None by (subst register_at.simps) (simp add: Let_def)
    note ih = Cons.IH [OF c s'(2,3)]
    show ?thesis
    proof (cases "mount_conflict ?c ps")
      case True
      then obtain c0 where c0: "map_of (node_children n) p = Some c0"
        using empty_node_no_conflict [of ps] by (cases "map_of (node_children n) p") auto
      then have "btree_insert p ?c (node_children n) = node_children n"
        using btree_insert_same [OF tree_okD(1,2) [OF Cons.prems(1)]] by simp
      then show ?thesis using True conf ih step by simp
    next
      case False
      then obtain c' where c': "register_at ?c s' fs = (Inr (), c')" "tree_ok c'" "live_node c'"
        "mount_at c' = (mount_at ?c)(ps \<mapsto> fs)" using ih by auto
      note u = update_child [OF Cons.prems(1) None c'(2,3), where p = p]
      let ?n' = "MountNode (btree_insert p c' (node_children n)) (node_contents n)"
      have "mount_at ?n' = (mount_at n)(p # ps \<mapsto> fs)"
        by (rule mount_at_update [OF u(2) u(3) u(4) old c'(4)])
      then show ?thesis using False conf step c' u(1,5) by simp
    qed
  qed
qed

lemma remove_fs_spec:
  assumes "tree_ok n" "ps_ok s" "ps_rest s = ps"
  shows "case mount_at n ps of
      None \<Rightarrow> remove_fs_recursive n s = (Inl PathNotFound, n)
    | Some fs \<Rightarrow> \<exists>n'. remove_fs_recursive n s = (Inr fs, n') \<and> tree_ok n' \<and> mount_at n' = (mount_at n)(ps := None)"
  using assms
proof (induction ps arbitrary: n s)
  case Nil
  then have d: "ps_is_done s" using ps_done_iff by blast
  have k: "node_children n = []" if "node_contents n \<noteq> None" using tree_okD(3) [OF Nil(1) that] .
  have e: "mount_at (MountNode [] None) = (mount_at n)([] := None)" if "node_children n = []"
  proof (rule ext)
    fix qs show "mount_at (MountNode [] None) qs = ((mount_at n)([] := None)) qs"
      using that by (cases qs) auto
  qed
  show ?case
  proof (cases "node_contents n")
    case (Some fs)
    then show ?thesis using d e k by (subst remove_fs_recursive.simps) simp
  qed (use d in \<open>subst remove_fs_recursive.simps, simp\<close>)
next
  case (Cons p ps)
  have nd: "\<not> ps_is_done s" using ps_done_iff [OF Cons.prems(2)] Cons.prems(3) by simp
  obtain s' where s': "ps_next_part s = (p, s')" "ps_ok s'" "ps_rest s' = ps"
    using ps_next_part_step [OF Cons.prems(2,3)] by blast
  show ?case
  proof (cases "map_of (node_children n) p")
    case None
    then show ?thesis using nd s'(1) by (subst remove_fs_recursive.simps) simp
  next
    case (Some c)
    have c: "tree_ok c" and none: "node_contents n = None"
      using tree_okD(4,5) [OF Cons.prems(1) Some] by simp_all
    have old: "mount_at n (p # qs) = mount_at c qs" for qs by (simp add: Some)
    note ih = Cons.IH [OF c s'(2,3)]
    show ?thesis
    proof (cases "mount_at c ps")
      case None
      then have "remove_fs_recursive c s' = (Inl PathNotFound, c)" using ih by simp
      then have "remove_fs_recursive n s = (Inl PathNotFound, MountNode (btree_insert p c (node_children n)) (node_contents n))"
        using nd s'(1) Some by (subst remove_fs_recursive.simps) simp
      moreover have "btree_insert p c (node_children n) = node_children n"
        by (rule btree_insert_same [OF tree_okD(1,2) [OF Cons.prems(1)] Some])
      ultimately show ?thesis using None Some by simp
    next
      fix fs assume fs: "mount_at c ps = Some fs"
      then obtain c' where c': "remove_fs_recursive c s' = (Inr fs, c')" "tree_ok c'" "mount_at c' = (mount_at c)(ps := None)"
        using ih by auto
      let ?n' = "MountNode (if live_node c' then btree_insert p c' (node_children n) else btree_remove p (node_children n)) (node_contents n)"
      have step: "remove_fs_recursive n s = (Inr fs, ?n')"
        using nd s'(1) Some c'(1) by (subst remove_fs_recursive.simps) simp
      have "tree_ok ?n' \<and> mount_at ?n' = (mount_at n)(p # ps := None)"
      proof (cases "live_node c'")
        case True
        note u = update_child [OF Cons.prems(1) none c'(2) True, where p = p]
        have "mount_at (MountNode (btree_insert p c' (node_children n)) (node_contents n)) = (mount_at n)(p # ps := None)"
          by (rule mount_at_update [OF u(2) u(3) u(4) old c'(3)])
        then show ?thesis using True u(1) by simp
      next
        case False
        note u = remove_child [OF Cons.prems(1) none, where p = p]
        have g: "(\<lambda>_. None) = (mount_at c)(ps := None)"
        proof (rule ext)
          fix qs have "mount_at c' qs = None" using False conflict_Nil [OF c'(2)] by (auto simp: table_conflict_def)
          then show "None = ((mount_at c)(ps := None)) qs" by (simp add: c'(3))
        qed
        have "mount_at (MountNode (btree_remove p (node_children n)) (node_contents n)) = (mount_at n)(p # ps := None)"
          by (rule mount_at_update [OF u(2) u(3) u(4) old g])
        then show ?thesis using False u(1) by simp
      qed
      then show ?thesis using step fs Some by simp
    qed
  qed
qed

lemma node_at_spec:
  assumes "ps_ok s" "ps_rest s = ps"
  shows "node_at n s = ok_or (subnode n ps) PathNotFound"
  using assms
proof (induction ps arbitrary: n s)
  case Nil
  then have "ps_is_done s" using ps_done_iff by blast
  then show ?case by (subst node_at.simps) simp
next
  case (Cons p ps)
  have nd: "\<not> ps_is_done s" using ps_done_iff [OF Cons.prems(1)] Cons.prems(2) by simp
  obtain s' where s': "ps_next_part s = (p, s')" "ps_ok s'" "ps_rest s' = ps"
    using ps_next_part_step [OF Cons.prems] by blast
  show ?case using Cons.IH [OF s'(2,3)] s'(1) nd by (subst node_at.simps) (simp split: option.splits)
qed

section \<open>The interface\<close>

text \<open>
  What a mount table promises: registering succeeds exactly when no mounted path is a prefix of the
  new one or extends it, removing succeeds exactly on mounted paths, and a failure changes nothing.
\<close>

datatype mount_op = Register string nat | Remove string

fun spec_step :: "mount_op \<Rightarrow> (string list \<rightharpoonup> nat) \<Rightarrow> nat vresult \<times> (string list \<rightharpoonup> nat)" where
  "spec_step (Register name fs) m =
     (if table_conflict m (components name) then (Inl AlreadyMounted, m) else (Inr fs, m(components name \<mapsto> fs)))"
| "spec_step (Remove name) m =
     (case m (components name) of None \<Rightarrow> (Inl PathNotFound, m) | Some fs \<Rightarrow> (Inr fs, m(components name := None)))"

fun run_ops :: "('o \<Rightarrow> 's \<Rightarrow> 'r \<times> 's) \<Rightarrow> 'o list \<Rightarrow> 's \<Rightarrow> 'r list \<times> 's" where
  "run_ops step [] s = ([], s)"
| "run_ops step (x # xs) s = (let (r, s') = step x s; (rs, s'') = run_ops step xs s' in (r # rs, s''))"

definition prefix_free :: "(string list \<rightharpoonup> nat) \<Rightarrow> bool" where
  "prefix_free m \<longleftrightarrow> (\<forall>ps qs. m ps \<noteq> None \<and> m qs \<noteq> None \<and> prefix ps qs \<longrightarrow> ps = qs)"

lemma spec_step_prefix_free: "prefix_free m \<Longrightarrow> prefix_free (snd (spec_step x m))"
  by (cases x) (auto simp: prefix_free_def table_conflict_def split: option.splits, (metis option.distinct(1))+)

locale mount_table =
  fixes ok :: "'t \<Rightarrow> bool"
    and table :: "'t \<Rightarrow> string list \<rightharpoonup> nat"
    and register :: "'t \<Rightarrow> string \<Rightarrow> nat \<Rightarrow> unit vresult \<times> 't"
    and remove :: "'t \<Rightarrow> string \<Rightarrow> nat vresult \<times> 't"
  assumes register_conflict:
      "ok t \<Longrightarrow> table_conflict (table t) (components name) \<Longrightarrow> register t name fs = (Inl AlreadyMounted, t)"
    and register_free: "ok t \<Longrightarrow> \<not> table_conflict (table t) (components name) \<Longrightarrow>
        \<exists>t'. register t name fs = (Inr (), t') \<and> ok t' \<and> table t' = (table t)(components name \<mapsto> fs)"
    and remove_missing: "ok t \<Longrightarrow> table t (components name) = None \<Longrightarrow> remove t name = (Inl PathNotFound, t)"
    and remove_mounted: "ok t \<Longrightarrow> table t (components name) = Some fs \<Longrightarrow>
        \<exists>t'. remove t name = (Inr fs, t') \<and> ok t' \<and> table t' = (table t)(components name := None)"
begin

fun table_step :: "mount_op \<Rightarrow> 't \<Rightarrow> nat vresult \<times> 't" where
  "table_step (Register name fs) t = (let (r, t') = register t name fs in (map_sum id (\<lambda>_. fs) r, t'))"
| "table_step (Remove name) t = remove t name"

lemma table_step_refines:
  assumes "ok t"
  obtains r t' where "table_step x t = (r, t')" "ok t'" "spec_step x (table t) = (r, table t')"
proof (cases x)
  case (Register name fs)
  then show ?thesis
    using that register_conflict [OF assms, of name fs] register_free [OF assms, of name fs] assms
    by (cases "table_conflict (table t) (components name)") fastforce+
next
  case (Remove name)
  then show ?thesis
    using that remove_missing [OF assms, of name] remove_mounted [OF assms, of name] assms
    by (cases "table t (components name)") fastforce+
qed

lemma run_refines:
  assumes "ok t" "prefix_free (table t)"
  shows "\<exists>rs t'. run_ops table_step xs t = (rs, t') \<and> ok t' \<and> run_ops spec_step xs (table t) = (rs, table t') \<and>
    prefix_free (table t')"
  using assms
proof (induction xs arbitrary: t)
  case (Cons x xs)
  obtain r t' where s: "table_step x t = (r, t')" "ok t'" "spec_step x (table t) = (r, table t')"
    using table_step_refines [OF Cons.prems(1)] .
  have "prefix_free (table t')" using spec_step_prefix_free [OF Cons.prems(2), of x] s(3) by simp
  then show ?case using Cons.IH [OF s(2)] s by fastforce
qed simp

lemma register_remove:
  assumes "ok t" "register t name fs = (Inr (), t')"
  obtains t'' where "remove t' name = (Inr fs, t'')" "ok t''" "table t'' = table t"
proof -
  have free: "\<not> table_conflict (table t) (components name)" using register_conflict [OF assms(1), of name fs] assms(2) by auto
  have t': "ok t'" "table t' = (table t)(components name \<mapsto> fs)" using register_free [OF assms(1) free, of fs] assms(2) by auto
  then obtain t'' where t'': "remove t' name = (Inr fs, t'')" "ok t''" "table t'' = (table t')(components name := None)"
    using remove_mounted [of t' name fs] by auto
  have "table t (components name) = None" using free by (auto simp: table_conflict_def)
  then have "table t'' = table t" using t'(2) t''(3) by (auto simp: fun_eq_iff)
  then show ?thesis using that t'' by blast
qed

end

interpretation mt: mount_table tree_ok mount_at mounts_register_fs mounts_remove_fs
proof unfold_locales
  fix t name fs assume t: "tree_ok t"
  note r = register_at_spec [OF t ps_new_ok ps_new_rest, of name fs]
  show "mounts_register_fs t name fs = (Inl AlreadyMounted, t)" if "mount_conflict t (components name)"
    using r that by (simp add: mounts_register_fs_def)
  show "\<exists>t'. mounts_register_fs t name fs = (Inr (), t') \<and> tree_ok t' \<and> mount_at t' = (mount_at t)(components name \<mapsto> fs)"
    if "\<not> mount_conflict t (components name)"
    using r that by (auto simp: mounts_register_fs_def)
  note q = remove_fs_spec [OF t ps_new_ok ps_new_rest, of name]
  show "mounts_remove_fs t name = (Inl PathNotFound, t)" if "mount_at t (components name) = None"
    using q that by (simp add: mounts_remove_fs_def)
  show "\<exists>t'. mounts_remove_fs t name = (Inr fs, t') \<and> tree_ok t' \<and> mount_at t' = (mount_at t)(components name := None)"
    if "mount_at t (components name) = Some fs"
    using q that by (simp add: mounts_remove_fs_def)
qed

fun mounts_step :: "mount_op \<Rightarrow> MountNode \<Rightarrow> nat vresult \<times> MountNode" where
  "mounts_step (Register name fs) t = (let (r, t') = mounts_register_fs t name fs in (map_sum id (\<lambda>_. fs) r, t'))"
| "mounts_step (Remove name) t = mounts_remove_fs t name"

lemma mounts_step_eq: "mounts_step = mt.table_step"
proof (intro ext)
  fix x t show "mounts_step x t = mt.table_step x t" by (cases x) simp_all
qed

lemma mounts_new_ok: "tree_ok mounts_new" "mount_at mounts_new = Map.empty"
proof -
  show "tree_ok mounts_new" by (simp add: mounts_new_def)
  show "mount_at mounts_new = Map.empty"
  proof (rule ext)
    fix ps show "mount_at mounts_new ps = None" by (cases ps) (simp_all add: mounts_new_def)
  qed
qed

text \<open>
  C18: Under any sequence of registrations and removals the mount tree answers as a finite map from
  component lists to file systems in which no path is a prefix of another: a registration
  succeeds exactly when it conflicts with no mounted path, a removal exactly on a mounted
  path, and failures change nothing.
\<close>

theorem mount_table_refines:
  "\<exists>rs tree. run_ops mounts_step ops mounts_new = (rs, tree) \<and>
     run_ops spec_step ops Map.empty = (rs, mount_at tree) \<and> prefix_free (mount_at tree)"
  using mt.run_refines [of mounts_new ops] mounts_new_ok by (auto simp: mounts_step_eq prefix_free_def)

end
