(* ===== verification/Vfs.thy ===== *)
theory Vfs
  imports Mounts
begin

text \<open>
  The virtual file system of \<^verbatim>\<open>drivers/vfs.rs\<close>: path traversal across mounted file
  systems, the root file system \<^verbatim>\<open>Vfs\<close> with its mount tree, mounting and unmounting.

  A driver behind \<^verbatim>\<open>Arc<RwLock<dyn FileSystem>>\<close> is a reference (a number) and the
  driver's operations are the fields of a record \<open>FsOps\<close>, functions of the reference and of
  the world \<open>'w\<close> the drivers keep their states in. An operation returns its
  \<^verbatim>\<open>Result\<close> and the new world, or \<open>None\<close> for a panic. \<^verbatim>\<open>get_file\<close> is not a
  field: every driver takes the default body, and the kernel calls it on the \<^verbatim>\<open>Vfs\<close> only,
  for which it is modelled below.
\<close>

type_synonym ('w, 'a) vio = "'w \<Rightarrow> ('a vresult \<times> 'w) panics"

definition io_ok :: "'a \<Rightarrow> ('w, 'a) vio" where
  "io_ok x w = Some (Inr x, w)"

definition io_err :: "VfsError \<Rightarrow> ('w, 'a) vio" where
  "io_err e w = Some (Inl e, w)"

definition io_bind :: "('w, 'a) vio \<Rightarrow> ('a \<Rightarrow> ('w, 'b) vio) \<Rightarrow> ('w, 'b) vio" where
  "io_bind m f w =
     (case m w of None \<Rightarrow> None | Some (Inl e, w') \<Rightarrow> Some (Inl e, w') | Some (Inr x, w') \<Rightarrow> f x w')"

definition io_result :: "'a vresult \<Rightarrow> ('w, 'a) vio" where
  "io_result r w = Some (r, w)"

record 'w FsOps =
  fo_alive :: "nat \<Rightarrow> 'w \<Rightarrow> bool"
  fo_os_id :: "nat \<Rightarrow> 'w \<Rightarrow> nat"
  fo_fs_type :: "nat \<Rightarrow> string"
  fo_fs_flush :: "nat \<Rightarrow> ('w, unit) vio"
  fo_host_block_device :: "nat \<Rightarrow> 'w \<Rightarrow> nat option"
  fo_get_root :: "nat \<Rightarrow> ('w, VfsFile) vio"
  fo_get_mount_point :: "nat \<Rightarrow> ('w, VfsFile option) vio"
  fo_get_child :: "nat \<Rightarrow> VfsFile \<Rightarrow> string \<Rightarrow> ('w, VfsFile) vio"
  fo_list_children :: "nat \<Rightarrow> VfsFile \<Rightarrow> ('w, VfsFile list) vio"
  fo_get_stats :: "nat \<Rightarrow> VfsFile \<Rightarrow> ('w, FileStat) vio"
  fo_create_child :: "nat \<Rightarrow> VfsFile \<Rightarrow> string \<Rightarrow> VfsFileKind \<Rightarrow> ('w, VfsFile) vio"
  fo_delete_file :: "nat \<Rightarrow> VfsFile \<Rightarrow> ('w, unit) vio"
  fo_on_mount :: "nat \<Rightarrow> VfsFile \<Rightarrow> nat \<Rightarrow> nat \<Rightarrow> ('w, VfsFile) vio"
  fo_on_pre_unmount :: "nat \<Rightarrow> ('w, bool) vio"
  fo_on_unmount :: "nat \<Rightarrow> ('w, unit) vio"
  fo_get_vfs :: "nat \<Rightarrow> ('w, nat) vio"
  fo_fopen :: "nat \<Rightarrow> VfsFile \<Rightarrow> u64 \<Rightarrow> ('w, nat) vio"
  fo_fclose :: "nat \<Rightarrow> nat \<Rightarrow> ('w, unit) vio"
  fo_fseek :: "nat \<Rightarrow> nat \<Rightarrow> SeekPosition \<Rightarrow> ('w, nat) vio"
  fo_fread :: "nat \<Rightarrow> nat \<Rightarrow> u8 list \<Rightarrow> ('w, nat \<times> u8 list) vio"
  fo_fwrite :: "nat \<Rightarrow> nat \<Rightarrow> u8 list \<Rightarrow> ('w, nat) vio"
  fo_fflush :: "nat \<Rightarrow> nat \<Rightarrow> ('w, unit) vio"
  fo_fsync :: "nat \<Rightarrow> nat \<Rightarrow> ('w, unit) vio"
  fo_fstat :: "nat \<Rightarrow> nat \<Rightarrow> ('w, FileStat) vio"
  fo_ftruncate :: "nat \<Rightarrow> nat \<Rightarrow> ('w, nat) vio"

section \<open>Path traversal\<close>

text \<open>
  The file system a traversal is in: the one it started from, borrowed (\<^verbatim>\<open>Either::Right\<close>),
  or a mounted one (\<^verbatim>\<open>Either::Left\<close>). \<open>gr\<close>, \<open>gc\<close> and \<open>cc\<close> are
  \<^verbatim>\<open>get_root\<close>, \<^verbatim>\<open>get_child\<close> and \<^verbatim>\<open>create_child\<close> of a reference.
\<close>

datatype FsRef = OwnFs | ArcFs nat

record PathTraverse =
  pt_splitter :: PathSplitter
  pt_fs :: FsRef
  pt_curr :: VfsFile

definition traverse_new_owned :: "(FsRef \<Rightarrow> ('w, VfsFile) vio) \<Rightarrow> string \<Rightarrow> ('w, PathTraverse) vio" where
  "traverse_new_owned gr path =
     io_bind (gr OwnFs) (\<lambda>root. io_ok \<lparr>pt_splitter = ps_new path, pt_fs = OwnFs, pt_curr = root\<rparr>)"

definition traverse_is_done :: "PathTraverse \<Rightarrow> bool" where
  "traverse_is_done t = ps_is_done (pt_splitter t)"

text \<open>Crossing a mount point: the traversal continues at the root of the mounted file system.\<close>

definition enter_mount :: "(FsRef \<Rightarrow> ('w, VfsFile) vio) \<Rightarrow> PathTraverse \<Rightarrow> ('w, PathTraverse) vio" where
  "enter_mount gr t =
     (case get_mounted_fs (pt_curr t) of
        None \<Rightarrow> io_ok t
      | Some fs \<Rightarrow> io_bind (gr (ArcFs fs)) (\<lambda>root. io_ok (t\<lparr>pt_curr := root, pt_fs := ArcFs fs\<rparr>)))"

text \<open>The traversal is returned on errors too: \<^verbatim>\<open>mkdir0\<close> continues with it after one.\<close>

definition find_next ::
    "(FsRef \<Rightarrow> ('w, VfsFile) vio) \<Rightarrow> (FsRef \<Rightarrow> VfsFile \<Rightarrow> string \<Rightarrow> ('w, VfsFile) vio) \<Rightarrow> PathTraverse \<Rightarrow>
     'w \<Rightarrow> ((VfsFile vresult \<times> PathTraverse) \<times> 'w) panics" where
  "find_next gr gc t w =
     (if traverse_is_done t then Some ((Inl Done, t), w)
      else case enter_mount gr t w of
        None \<Rightarrow> None
      | Some (Inl e, w1) \<Rightarrow> Some ((Inl e, t), w1)
      | Some (Inr t1, w1) \<Rightarrow>
          (case ps_peek (pt_splitter t1) of
             None \<Rightarrow> Some ((Inl Done, t1), w1)
           | Some peek \<Rightarrow>
               (case gc (pt_fs t1) (pt_curr t1) (fst peek) w1 of
                  None \<Rightarrow> None
                | Some (Inl e, w2) \<Rightarrow> Some ((Inl e, t1), w2)
                | Some (Inr next, w2) \<Rightarrow>
                    Some ((Inr next, t1\<lparr>pt_splitter := snd (ps_apply (pt_splitter t1) peek), pt_curr := next\<rparr>), w2))))"

definition traverse_mkdir ::
    "(FsRef \<Rightarrow> VfsFile \<Rightarrow> string \<Rightarrow> VfsFileKind \<Rightarrow> ('w, VfsFile) vio) \<Rightarrow> PathTraverse \<Rightarrow>
     'w \<Rightarrow> ((VfsFile vresult \<times> PathTraverse) \<times> 'w) panics" where
  "traverse_mkdir cc t w =
     (if traverse_is_done t then Some ((Inl Done, t), w)
      else case ps_peek (pt_splitter t) of
        None \<Rightarrow> Some ((Inl Done, t), w)
      | Some peek \<Rightarrow>
          (case cc (pt_fs t) (pt_curr t) (fst peek) KDirectory w of
             None \<Rightarrow> None
           | Some (Inl e, w1) \<Rightarrow> Some ((Inl e, t), w1)
           | Some (Inr next, w1) \<Rightarrow>
               Some ((Inr next, t\<lparr>pt_splitter := snd (ps_apply (pt_splitter t) peek), pt_curr := next\<rparr>), w1)))"

abbreviation pt_measure :: "PathTraverse \<Rightarrow> nat" where
  "pt_measure t \<equiv> ps_measure (pt_splitter t)"

lemma ps_apply_peek_progress:
  assumes "\<not> ps_is_done s" "ps_peek s = Some peek"
  shows "ps_measure (snd (ps_apply s peek)) < ps_measure s"
  using ps_measure_next [OF assms(1), of "fst (ps_next_part s)" "snd (ps_next_part s)"] assms
  by (simp add: ps_next_part_def)

lemma enter_mount_splitter: "enter_mount gr t w = Some (Inr t', w') \<Longrightarrow> pt_splitter t' = pt_splitter t"
  by (auto simp: enter_mount_def io_bind_def io_ok_def split: option.splits sum.splits)

lemma find_next_progress: "find_next gr gc t w = Some ((Inr f, t'), w') \<Longrightarrow> pt_measure t' < pt_measure t"
  using ps_apply_peek_progress [of "pt_splitter t"]
  by (auto simp: find_next_def traverse_is_done_def dest!: enter_mount_splitter split: if_splits option.splits sum.splits)

lemma traverse_mkdir_progress: "traverse_mkdir cc t w = Some ((Inr f, t'), w') \<Longrightarrow> pt_measure t' < pt_measure t"
  using ps_apply_peek_progress [of "pt_splitter t"]
  by (auto simp: traverse_mkdir_def traverse_is_done_def split: if_splits option.splits sum.splits)

lemma find_next_measure_le: "find_next gr gc t w = Some ((r, t'), w') \<Longrightarrow> pt_measure t' \<le> pt_measure t"
  using find_next_progress [of gr gc t w _ t' w']
  by (cases r) (auto simp: find_next_def dest!: enter_mount_splitter split: if_splits option.splits sum.splits)

text \<open>\<^verbatim>\<open>default_get_file_implementation!\<close>: the loop over the parts of a path.\<close>

function get_file_loop ::
    "(FsRef \<Rightarrow> ('w, VfsFile) vio) \<Rightarrow> (FsRef \<Rightarrow> VfsFile \<Rightarrow> string \<Rightarrow> ('w, VfsFile) vio) \<Rightarrow> PathTraverse \<Rightarrow> ('w, VfsFile) vio" where
  "get_file_loop gr gc t w =
     (case find_next gr gc t w of
        None \<Rightarrow> None
      | Some ((Inl e, t'), w') \<Rightarrow> Some (Inl e, w')
      | Some ((Inr result, t'), w') \<Rightarrow>
          (if traverse_is_done t' then Some (Inr result, w') else get_file_loop gr gc t' w'))"
  by pat_completeness auto
termination
  by (relation "measure (\<lambda>(_, _, t, _). pt_measure t)") (auto dest: find_next_progress)

declare get_file_loop.simps [simp del]

definition default_get_file ::
    "(FsRef \<Rightarrow> ('w, VfsFile) vio) \<Rightarrow> (FsRef \<Rightarrow> VfsFile \<Rightarrow> string \<Rightarrow> ('w, VfsFile) vio) \<Rightarrow> string \<Rightarrow> ('w, VfsFile) vio" where
  "default_get_file gr gc path =
     io_bind (traverse_new_owned gr path) (\<lambda>t.
       if traverse_is_done t then gr OwnFs else get_file_loop gr gc t)"

section \<open>The root file system\<close>

record Vfs =
  vfs_fs_by_id :: "(nat \<times> nat) list"
  vfs_tree :: MountNode
  vfs_root_fs :: "nat option"
  vfs_os_id_count :: nat

definition VFS_OS_ID :: nat where
  "VFS_OS_ID = 1"

definition vfs_new :: "nat \<Rightarrow> Vfs" where
  "vfs_new self = \<lparr>vfs_fs_by_id = [], vfs_tree = mounts_new, vfs_root_fs = Some self, vfs_os_id_count = 1\<rparr>"

definition get_fs_by_id :: "Vfs \<Rightarrow> nat \<Rightarrow> nat option" where
  "get_fs_by_id v fsid = map_of (vfs_fs_by_id v) fsid"

definition vfs_get_root :: "('w, VfsFile) vio" where
  "vfs_get_root = io_ok \<lparr>vf_kind = KDirectory, vf_name = ''/'', vf_size = 0, vf_parent_fs = VFS_OS_ID, vf_fs = VFS_OS_ID,
     vf_specific = VfsSpecific\<rparr>"

definition vfs_get_child :: "'w FsOps \<Rightarrow> Vfs \<Rightarrow> VfsFile \<Rightarrow> string \<Rightarrow> ('w, VfsFile) vio" where
  "vfs_get_child ops v file child w =
     (if vf_fs file \<noteq> VFS_OS_ID then io_err FileSystemMismatch w
      else case get_mounted_fs file of
        Some fs \<Rightarrow> fo_get_child ops fs file child w
      | None \<Rightarrow>
          (case node_at (vfs_tree v) (ps_new (vf_name file)) of
             Inl e \<Rightarrow> io_err e w
           | Inr node \<Rightarrow>
               (case map_of (node_children node) child of
                  None \<Rightarrow> io_err PathNotFound w
                | Some c \<Rightarrow>
                    (case node_contents c of
                       None \<Rightarrow> io_ok \<lparr>vf_kind = KDirectory, vf_name = vf_name file @ ''/'' @ child, vf_size = 0,
                                vf_parent_fs = VFS_OS_ID, vf_fs = VFS_OS_ID, vf_specific = VfsSpecific\<rparr> w
                     | Some fs \<Rightarrow>
                         (if fo_alive ops fs w
                          then io_ok \<lparr>vf_kind = KMountPoint fs, vf_name = vf_name file @ ''/'' @ child, vf_size = 0,
                                 vf_parent_fs = VFS_OS_ID, vf_fs = fo_os_id ops fs w, vf_specific = VfsSpecific\<rparr> w
                          else io_err UnknownError w)))))"

definition vfs_list_entry :: "'w FsOps \<Rightarrow> 'w \<Rightarrow> VfsFile \<Rightarrow> string \<times> MountNode \<Rightarrow> VfsFile list" where
  "vfs_list_entry ops w file kn =
     (case node_contents (snd kn) of
        None \<Rightarrow> [\<lparr>vf_kind = KDirectory, vf_name = vf_name file @ ''/'' @ fst kn, vf_size = 0,
                 vf_parent_fs = VFS_OS_ID, vf_fs = VFS_OS_ID, vf_specific = VfsSpecific\<rparr>]
      | Some fs \<Rightarrow>
          (if fo_alive ops fs w
           then [\<lparr>vf_kind = KMountPoint fs, vf_name = fst kn, vf_size = 0,
                  vf_parent_fs = fo_os_id ops fs w, vf_fs = fo_os_id ops fs w, vf_specific = VfsSpecific\<rparr>]
           else []))"

definition vfs_list_children :: "'w FsOps \<Rightarrow> Vfs \<Rightarrow> VfsFile \<Rightarrow> ('w, VfsFile list) vio" where
  "vfs_list_children ops v file w =
     (case get_mounted_fs file of
        Some fs \<Rightarrow> io_bind (fo_get_root ops fs) (fo_list_children ops fs) w
      | None \<Rightarrow>
          (if \<not> is_directory file then io_err NotDirectory w
           else if vf_fs file \<noteq> VFS_OS_ID then
             (case get_fs_by_id v (vf_fs file) of
                None \<Rightarrow> io_err FileSystemNotMounted w
              | Some fs \<Rightarrow> fo_list_children ops fs file w)
           else case node_at (vfs_tree v) (ps_new (vf_name file)) of
             Inl e \<Rightarrow> io_err e w
           | Inr node \<Rightarrow> io_ok (concat (map (vfs_list_entry ops w file) (node_children node))) w))"

definition vfs_create_child :: "VfsFile \<Rightarrow> ('w, VfsFile) vio" where
  "vfs_create_child directory =
     (if vf_fs directory \<noteq> VFS_OS_ID then io_err FileSystemMismatch
      else if \<not> is_directory directory then io_err NotDirectory
      else io_err ActionNotAllowed)"

definition root_of :: "'w FsOps \<Rightarrow> FsRef \<Rightarrow> ('w, VfsFile) vio" where
  "root_of ops r = (case r of OwnFs \<Rightarrow> vfs_get_root | ArcFs fs \<Rightarrow> fo_get_root ops fs)"

definition child_of :: "'w FsOps \<Rightarrow> Vfs \<Rightarrow> FsRef \<Rightarrow> VfsFile \<Rightarrow> string \<Rightarrow> ('w, VfsFile) vio" where
  "child_of ops v r = (case r of OwnFs \<Rightarrow> vfs_get_child ops v | ArcFs fs \<Rightarrow> fo_get_child ops fs)"

definition create_of :: "'w FsOps \<Rightarrow> FsRef \<Rightarrow> VfsFile \<Rightarrow> string \<Rightarrow> VfsFileKind \<Rightarrow> ('w, VfsFile) vio" where
  "create_of ops r = (case r of OwnFs \<Rightarrow> (\<lambda>d _ _. vfs_create_child d) | ArcFs fs \<Rightarrow> fo_create_child ops fs)"

definition vfs_get_file :: "'w FsOps \<Rightarrow> Vfs \<Rightarrow> string \<Rightarrow> ('w, VfsFile) vio" where
  "vfs_get_file ops v = default_get_file (root_of ops) (child_of ops v)"

definition vfs_get_stats :: "'w FsOps \<Rightarrow> Vfs \<Rightarrow> string \<Rightarrow> ('w, FileStat option) vio" where
  "vfs_get_stats ops v path w =
     (case vfs_get_file ops v path w of
        None \<Rightarrow> None
      | Some (Inl e, w1) \<Rightarrow> (if e = PathNotFound then io_ok None w1 else io_err e w1)
      | Some (Inr file, w1) \<Rightarrow>
          (case get_mounted_fs file of
             Some fs \<Rightarrow> io_bind (fo_get_root ops fs) (\<lambda>root. io_bind (fo_get_stats ops fs root) (\<lambda>st. io_ok (Some st))) w1
           | None \<Rightarrow>
               (case get_fs_by_id v (vf_fs file) of
                  None \<Rightarrow> io_err FileSystemNotMounted w1
                | Some fs \<Rightarrow> io_bind (fo_get_stats ops fs file) (\<lambda>st. io_ok (Some st)) w1)))"

section \<open>Mounting and unmounting\<close>

definition next_os_id :: "Vfs \<Rightarrow> (nat \<times> Vfs) panics" where
  "next_os_id v = do { n \<leftarrow> add64 (vfs_os_id_count v) 1; Some (n, v\<lparr>vfs_os_id_count := n\<rparr>) }"

definition vfs_register_fs :: "Vfs \<Rightarrow> nat \<Rightarrow> string \<Rightarrow> nat \<Rightarrow> unit vresult \<times> Vfs" where
  "vfs_register_fs v os_id name ptr =
     (let (r, tree) = mounts_register_fs (vfs_tree v) name ptr
      in (r, v\<lparr>vfs_fs_by_id := btree_insert os_id ptr (vfs_fs_by_id v), vfs_tree := tree\<rparr>))"

text \<open>\<open>ptr\<close> is the reference of the new \<^verbatim>\<open>Arc\<close> around the driver.\<close>

definition vfs_mount :: "'w FsOps \<Rightarrow> Vfs \<Rightarrow> string \<Rightarrow> nat \<Rightarrow> 'w \<Rightarrow> ((VfsFile vresult \<times> Vfs) \<times> 'w) panics" where
  "vfs_mount ops v name ptr w =
     (case vfs_root_fs v of
        None \<Rightarrow> Some ((Inl FileSystemNotMounted, v), w)
      | Some root_fs \<Rightarrow> do {
          (os_id, v1) \<leftarrow> next_os_id v;
          (case vfs_register_fs v1 os_id name ptr of
             (Inl e, v2) \<Rightarrow> Some ((Inl e, v2), w)
           | (Inr _, v2) \<Rightarrow>
               (let mount_point = \<lparr>vf_kind = KMountPoint ptr, vf_name = name, vf_size = 0, vf_parent_fs = VFS_OS_ID,
                                  vf_fs = os_id, vf_specific = VfsSpecific\<rparr>
                in case fo_on_mount ops ptr mount_point os_id root_fs w of
                     None \<Rightarrow> None
                   | Some (Inl e, w1) \<Rightarrow> Some ((Inl e, v2), w1)
                   | Some (Inr _, w1) \<Rightarrow> Some ((Inr mount_point, v2), w1)))
        })"

text \<open>
  \<^verbatim>\<open>on_pre_unmount\<close> is called once and its boolean ignored: the loop around it breaks
  in its first round.
\<close>

definition vfs_unmount :: "'w FsOps \<Rightarrow> Vfs \<Rightarrow> string \<Rightarrow> 'w \<Rightarrow> ((unit vresult \<times> Vfs) \<times> 'w) panics" where
  "vfs_unmount ops v name w =
     (case mounts_remove_fs (vfs_tree v) name of
        (Inl e, tree) \<Rightarrow> Some ((Inl e, v\<lparr>vfs_tree := tree\<rparr>), w)
      | (Inr fs, tree) \<Rightarrow>
          (let v1 = v\<lparr>vfs_tree := tree\<rparr>
           in if \<not> fo_alive ops fs w then Some ((Inl UnknownError, v1), w)
              else let fsid = fo_os_id ops fs w
                   in case io_bind (fo_on_pre_unmount ops fs) (\<lambda>_. fo_on_unmount ops fs) w of
                        None \<Rightarrow> None
                      | Some (Inl e, w1) \<Rightarrow> Some ((Inl e, v1), w1)
                      | Some (Inr _, w1) \<Rightarrow>
                          Some ((Inr (), v1\<lparr>vfs_fs_by_id := btree_remove fsid (vfs_fs_by_id v1)\<rparr>), w1)))"

section \<open>Traversal follows the components\<close>

lemma io_bind_simps [simp]:
  "io_bind (io_ok x) f = f x" "io_bind (io_err e) f = io_err e" "io_bind (io_bind m f) g = io_bind m (\<lambda>x. io_bind (f x) g)"
  "io_bind m io_ok = m"
  by (auto simp: io_bind_def io_ok_def io_err_def fun_eq_iff split: option.splits sum.splits)

text \<open>The specification of a traversal: one \<^verbatim>\<open>get_child\<close> per component, crossing mounts.\<close>

fun walk ::
    "(FsRef \<Rightarrow> ('w, VfsFile) vio) \<Rightarrow> (FsRef \<Rightarrow> VfsFile \<Rightarrow> string \<Rightarrow> ('w, VfsFile) vio) \<Rightarrow> FsRef \<Rightarrow> VfsFile \<Rightarrow>
     string list \<Rightarrow> ('w, VfsFile) vio" where
  "walk gr gc fs cur [] = io_ok cur"
| "walk gr gc fs cur (p # ps) =
     (case get_mounted_fs cur of
        None \<Rightarrow> io_bind (gc fs cur p) (\<lambda>next. walk gr gc fs next ps)
      | Some m \<Rightarrow> io_bind (gr (ArcFs m)) (\<lambda>root.
          io_bind (gc (ArcFs m) root p) (\<lambda>next. walk gr gc (ArcFs m) next ps)))"

lemma find_next_step:
  assumes "ps_ok (pt_splitter t)" "ps_rest (pt_splitter t) = p # ps"
  obtains s where "ps_ok s" "ps_rest s = ps"
    "find_next gr gc t w =
       (case enter_mount gr t w of
          None \<Rightarrow> None
        | Some (Inl e, w1) \<Rightarrow> Some ((Inl e, t), w1)
        | Some (Inr t1, w1) \<Rightarrow>
            (case gc (pt_fs t1) (pt_curr t1) p w1 of
               None \<Rightarrow> None
             | Some (Inl e, w2) \<Rightarrow> Some ((Inl e, t1), w2)
             | Some (Inr next, w2) \<Rightarrow> Some ((Inr next, t1\<lparr>pt_splitter := s, pt_curr := next\<rparr>), w2)))"
proof -
  obtain i where i: "ps_peek (pt_splitter t) = Some (p, i)" "ps_next_part (pt_splitter t) = ps_apply (pt_splitter t) (p, i)"
    using ps_peek_step [OF assms] .
  obtain s where s: "ps_next_part (pt_splitter t) = (p, s)" "ps_ok s" "ps_rest s = ps"
    using ps_next_part_step [OF assms] by blast
  have sp: "snd (ps_apply (pt_splitter t) (p, i)) = s" using i(2) s(1) by (metis snd_conv)
  have "\<not> ps_is_done (pt_splitter t)" using ps_done_iff [OF assms(1)] assms(2) by simp
  then have "find_next gr gc t w =
       (case enter_mount gr t w of
          None \<Rightarrow> None
        | Some (Inl e, w1) \<Rightarrow> Some ((Inl e, t), w1)
        | Some (Inr t1, w1) \<Rightarrow>
            (case gc (pt_fs t1) (pt_curr t1) p w1 of
               None \<Rightarrow> None
             | Some (Inl e, w2) \<Rightarrow> Some ((Inl e, t1), w2)
             | Some (Inr next, w2) \<Rightarrow> Some ((Inr next, t1\<lparr>pt_splitter := s, pt_curr := next\<rparr>), w2)))"
  proof (cases "enter_mount gr t w")
    case (Some rw)
    show ?thesis
    proof (cases rw)
      case (Pair r w1)
      then show ?thesis using Some enter_mount_splitter [of gr t w _ w1] \<open>\<not> ps_is_done (pt_splitter t)\<close>
        by (cases r) (auto simp: find_next_def traverse_is_done_def i(1) sp split: option.splits sum.splits)
    qed
  qed (simp add: find_next_def traverse_is_done_def)
  then show ?thesis using that s by blast
qed

lemma traverse_mkdir_step:
  assumes "ps_ok (pt_splitter t)" "ps_rest (pt_splitter t) = p # ps"
  obtains s where "ps_ok s" "ps_rest s = ps"
    "traverse_mkdir cc t w =
       (case cc (pt_fs t) (pt_curr t) p KDirectory w of
          None \<Rightarrow> None
        | Some (Inl e, w1) \<Rightarrow> Some ((Inl e, t), w1)
        | Some (Inr next, w1) \<Rightarrow> Some ((Inr next, t\<lparr>pt_splitter := s, pt_curr := next\<rparr>), w1))"
proof -
  obtain i where i: "ps_peek (pt_splitter t) = Some (p, i)" "ps_next_part (pt_splitter t) = ps_apply (pt_splitter t) (p, i)"
    using ps_peek_step [OF assms] .
  obtain s where s: "ps_next_part (pt_splitter t) = (p, s)" "ps_ok s" "ps_rest s = ps"
    using ps_next_part_step [OF assms] by blast
  have sp: "snd (ps_apply (pt_splitter t) (p, i)) = s" using i(2) s(1) by (metis snd_conv)
  have "\<not> ps_is_done (pt_splitter t)" using ps_done_iff [OF assms(1)] assms(2) by simp
  then show ?thesis
    by (intro that [OF s(2,3)]) (auto simp: traverse_mkdir_def traverse_is_done_def i(1) sp split: option.splits sum.splits)
qed

lemma get_file_loop_walk:
  "ps_ok (pt_splitter t) \<Longrightarrow> ps_rest (pt_splitter t) = p # ps \<Longrightarrow>
   get_file_loop gr gc t w = walk gr gc (pt_fs t) (pt_curr t) (p # ps) w"
proof (induction ps arbitrary: t p w)
  case Nil
  obtain s where s: "ps_ok s" "ps_rest s = []" and f: "find_next gr gc t w =
       (case enter_mount gr t w of None \<Rightarrow> None | Some (Inl e, w1) \<Rightarrow> Some ((Inl e, t), w1)
        | Some (Inr t1, w1) \<Rightarrow>
            (case gc (pt_fs t1) (pt_curr t1) p w1 of None \<Rightarrow> None | Some (Inl e, w2) \<Rightarrow> Some ((Inl e, t1), w2)
             | Some (Inr next, w2) \<Rightarrow> Some ((Inr next, t1\<lparr>pt_splitter := s, pt_curr := next\<rparr>), w2)))"
    by (rule find_next_step [OF Nil, of gr gc w])
  have d: "ps_is_done s" using ps_done_iff s by blast
  show ?case
    by (subst get_file_loop.simps, subst f)
      (auto simp: d traverse_is_done_def enter_mount_def io_bind_def io_ok_def split: option.splits sum.splits)
next
  case (Cons q ps)
  obtain s where s: "ps_ok s" "ps_rest s = q # ps" and f: "find_next gr gc t w =
       (case enter_mount gr t w of None \<Rightarrow> None | Some (Inl e, w1) \<Rightarrow> Some ((Inl e, t), w1)
        | Some (Inr t1, w1) \<Rightarrow>
            (case gc (pt_fs t1) (pt_curr t1) p w1 of None \<Rightarrow> None | Some (Inl e, w2) \<Rightarrow> Some ((Inl e, t1), w2)
             | Some (Inr next, w2) \<Rightarrow> Some ((Inr next, t1\<lparr>pt_splitter := s, pt_curr := next\<rparr>), w2)))"
    by (rule find_next_step [OF Cons.prems, of gr gc w])
  have d: "\<not> ps_is_done s" using ps_done_iff s by simp
  have ih: "get_file_loop gr gc (t1\<lparr>pt_splitter := s, pt_curr := next\<rparr>) w' = walk gr gc (pt_fs t1) next (q # ps) w'" for t1 "next" w'
    using Cons.IH [of "t1\<lparr>pt_splitter := s, pt_curr := next\<rparr>" q w'] s by simp
  show ?case
    by (subst get_file_loop.simps, subst f, subst walk.simps)
      (auto simp: d ih traverse_is_done_def enter_mount_def io_bind_def io_ok_def simp del: walk.simps split: option.splits sum.splits)
qed

lemma default_get_file_walk:
  "default_get_file gr gc path =
     io_bind (gr OwnFs) (\<lambda>root. if components path = [] then gr OwnFs else walk gr gc OwnFs root (components path))"
proof -
  have "(if traverse_is_done t then gr OwnFs else get_file_loop gr gc t) =
      (if components path = [] then gr OwnFs else walk gr gc OwnFs root (components path))"
    if "t = \<lparr>pt_splitter = ps_new path, pt_fs = OwnFs, pt_curr = root\<rparr>" for t root
  proof (cases "components path")
    case Nil
    then show ?thesis using that ps_done_iff [OF ps_new_ok, of path] by (simp add: traverse_is_done_def ps_new_rest)
  next
    case (Cons p ps)
    have "get_file_loop gr gc t w = walk gr gc OwnFs root (p # ps) w" for w
      using get_file_loop_walk [of t p ps gr gc w] Cons that by (simp add: ps_new_ok ps_new_rest del: walk.simps)
    then have "get_file_loop gr gc t = walk gr gc OwnFs root (p # ps)" by (rule ext)
    then show ?thesis using Cons that ps_done_iff [OF ps_new_ok, of path]
      by (simp add: traverse_is_done_def ps_new_rest del: walk.simps)
  qed
  then show ?thesis by (simp add: default_get_file_def traverse_new_owned_def)
qed

section \<open>Walking the mount tree\<close>

lemma subnode_append: "subnode n (ps @ qs) = (case subnode n ps of None \<Rightarrow> None | Some m \<Rightarrow> subnode m qs)"
  by (induction n ps rule: subnode.induct) (auto split: option.splits)

lemma tree_ok_subnode: "tree_ok n \<Longrightarrow> subnode n ps = Some m \<Longrightarrow> tree_ok m"
  by (induction n ps rule: subnode.induct) (auto split: option.splits dest: tree_okD(4))

lemma inner_node_no_mount:
  assumes "tree_ok n" "subnode n (ps @ q # qs) = Some m"
  obtains k where "subnode n ps = Some k" "node_contents k = None"
  using assms tree_okD(5) [OF tree_ok_subnode [OF assms(1)]] by (auto simp: subnode_append split: option.splits)

text \<open>A file object of the root file system stands for the node its name spells.\<close>

definition node_file :: "string list \<Rightarrow> VfsFile \<Rightarrow> bool" where
  "node_file ds f \<longleftrightarrow> vf_fs f = VFS_OS_ID \<and> vf_kind f = KDirectory \<and> components (vf_name f) = ds"

definition mount_file :: "'w FsOps \<Rightarrow> 'w \<Rightarrow> nat \<Rightarrow> string list \<Rightarrow> VfsFile \<Rightarrow> bool" where
  "mount_file ops w m ds f \<longleftrightarrow>
     vf_kind f = KMountPoint m \<and> vf_fs f = fo_os_id ops m w \<and> components (vf_name f) = ds"

lemma node_file_not_mount: "node_file ds f \<Longrightarrow> get_mounted_fs f = None"
  by (simp add: node_file_def get_mounted_fs_def)

lemma vfs_get_child_cases:
  assumes "node_file ds f" "p \<noteq> []" "CHR ''/'' \<notin> set p" "subnode (vfs_tree v) ds = Some n"
  shows "subnode (vfs_tree v) (ds @ [p]) = None \<Longrightarrow> vfs_get_child ops v f p w = io_err PathNotFound w"
    and "subnode (vfs_tree v) (ds @ [p]) = Some c \<Longrightarrow> node_contents c = None \<Longrightarrow>
      \<exists>g. node_file (ds @ [p]) g \<and> vfs_get_child ops v f p w = io_ok g w"
    and "subnode (vfs_tree v) (ds @ [p]) = Some c \<Longrightarrow> node_contents c = Some m \<Longrightarrow> fo_alive ops m w \<Longrightarrow>
      \<exists>g. mount_file ops w m (ds @ [p]) g \<and> vfs_get_child ops v f p w = io_ok g w"
    and "subnode (vfs_tree v) (ds @ [p]) = Some c \<Longrightarrow> node_contents c = Some m \<Longrightarrow> \<not> fo_alive ops m w \<Longrightarrow>
      vfs_get_child ops v f p w = io_err UnknownError w"
proof -
  have comps: "components (vf_name f @ CHR ''/'' # p) = ds @ [p]"
    using assms(1-3) by (simp add: components_append_slash components_part node_file_def)
  have node: "node_at (vfs_tree v) (ps_new (vf_name f)) = Inr n"
    using assms(1,4) by (simp add: node_at_spec [OF ps_new_ok ps_new_rest] node_file_def)
  have child: "subnode (vfs_tree v) (ds @ [p]) = map_of (node_children n) p"
    using assms(4) by (simp add: subnode_append split: option.splits)
  note defs = vfs_get_child_def node_file_not_mount [OF assms(1)] node
  have own: "vf_fs f = VFS_OS_ID" using assms(1) by (simp add: node_file_def)
  show "subnode (vfs_tree v) (ds @ [p]) = None \<Longrightarrow> vfs_get_child ops v f p w = io_err PathNotFound w"
    by (simp add: defs own child)
  show "vfs_get_child ops v f p w = io_err UnknownError w"
    if "subnode (vfs_tree v) (ds @ [p]) = Some c" "node_contents c = Some m" "\<not> fo_alive ops m w"
    using that by (simp add: defs own child)
  show "\<exists>g. node_file (ds @ [p]) g \<and> vfs_get_child ops v f p w = io_ok g w"
    if "subnode (vfs_tree v) (ds @ [p]) = Some c" "node_contents c = None"
    using that comps by (simp add: defs own child node_file_def io_ok_def)
  show "\<exists>g. mount_file ops w m (ds @ [p]) g \<and> vfs_get_child ops v f p w = io_ok g w"
    if "subnode (vfs_tree v) (ds @ [p]) = Some c" "node_contents c = Some m" "fo_alive ops m w"
    using that comps by (simp add: defs own child mount_file_def io_ok_def)
qed

abbreviation vfs_walk :: "'w FsOps \<Rightarrow> Vfs \<Rightarrow> FsRef \<Rightarrow> VfsFile \<Rightarrow> string list \<Rightarrow> ('w, VfsFile) vio" where
  "vfs_walk ops v \<equiv> walk (root_of ops) (child_of ops v)"

lemma vfs_walk_step:
  assumes "node_file ds f"
  shows "vfs_walk ops v OwnFs f (p # ps) w = io_bind (vfs_get_child ops v f p) (\<lambda>next. vfs_walk ops v OwnFs next ps) w"
  using node_file_not_mount [OF assms] by (simp add: child_of_def)

lemma vfs_walk_directories:
  assumes "tree_ok (vfs_tree v)" "node_file ds f" "\<And>p. p \<in> set ps \<Longrightarrow> p \<noteq> [] \<and> CHR ''/'' \<notin> set p"
    and "subnode (vfs_tree v) (ds @ ps) = Some n" "node_contents n = None"
  shows "\<exists>g. node_file (ds @ ps) g \<and> vfs_walk ops v OwnFs f (ps @ qs) w = vfs_walk ops v OwnFs g qs w"
  using assms
proof (induction ps arbitrary: ds f)
  case (Cons p ps)
  obtain c where c: "subnode (vfs_tree v) (ds @ [p]) = Some c" "node_contents c = None"
  proof (cases ps)
    case Nil
    then show ?thesis using that Cons.prems(4,5) by simp
  next
    case (Cons q ps')
    have "subnode (vfs_tree v) ((ds @ [p]) @ q # ps') = Some n" using \<open>subnode _ (ds @ p # ps) = _\<close> Cons by simp
    then show ?thesis using that inner_node_no_mount [OF \<open>tree_ok (vfs_tree v)\<close>] by blast
  qed
  obtain d where d: "subnode (vfs_tree v) ds = Some d" using c(1) by (auto simp: subnode_append split: option.splits)
  have p: "p \<noteq> []" "CHR ''/'' \<notin> set p" using Cons.prems(3) [of p] by simp_all
  obtain g where g: "node_file (ds @ [p]) g" "vfs_get_child ops v f p w = io_ok g w"
    using vfs_get_child_cases(2) [OF Cons.prems(2) p d c, of ops w] by blast
  have "\<exists>h. node_file ((ds @ [p]) @ ps) h \<and> vfs_walk ops v OwnFs g (ps @ qs) w = vfs_walk ops v OwnFs h qs w"
  proof (rule Cons.IH [OF Cons.prems(1) g(1) _ _ Cons.prems(5)])
    show "q \<noteq> [] \<and> CHR ''/'' \<notin> set q" if "q \<in> set ps" for q using Cons.prems(3) that by simp
    show "subnode (vfs_tree v) ((ds @ [p]) @ ps) = Some n" using Cons.prems(4) by simp
  qed
  moreover have "vfs_walk ops v OwnFs f ((p # ps) @ qs) w = vfs_walk ops v OwnFs g (ps @ qs) w"
    using vfs_walk_step [OF Cons.prems(2), of ops v p "ps @ qs" w] g(2) by (simp add: io_bind_def io_ok_def del: walk.simps)
  ultimately show ?case by simp
qed auto

lemma vfs_root_node_file: "\<exists>r. vfs_get_root = io_ok r \<and> node_file [] r"
  by (simp add: vfs_get_root_def node_file_def components_def io_ok_def fun_eq_iff)

lemma vfs_get_file_walk:
  fixes ops :: "'w FsOps"
  shows "\<exists>r. node_file [] r \<and> vfs_get_file ops v path = vfs_walk ops v OwnFs r (components path)"
proof -
  obtain r :: VfsFile where r: "(vfs_get_root :: ('w, VfsFile) vio) = io_ok r" "node_file [] r"
    using vfs_root_node_file by blast
  have "root_of ops OwnFs = io_ok r" by (simp add: root_of_def r(1))
  then have "vfs_get_file ops v path = vfs_walk ops v OwnFs r (components path)"
    by (cases "components path") (simp_all add: vfs_get_file_def default_get_file_walk del: walk.simps(2))
  then show ?thesis using r(2) by blast
qed

section \<open>Resolving paths\<close>

lemma component_parts: "components path = ps @ qs \<Longrightarrow> p \<in> set ps \<Longrightarrow> p \<noteq> [] \<and> CHR ''/'' \<notin> set p"
  using components_parts [of p path] by simp

lemma vfs_get_file_directory:
  assumes "tree_ok (vfs_tree v)" "subnode (vfs_tree v) (components path) = Some n" "node_contents n = None"
  shows "\<exists>f. node_file (components path) f \<and> vfs_get_file ops v path w = io_ok f w"
proof -
  obtain r where r: "node_file [] r" "vfs_get_file ops v path = vfs_walk ops v OwnFs r (components path)"
    using vfs_get_file_walk by blast
  obtain g where "node_file ([] @ components path) g"
    "vfs_walk ops v OwnFs r (components path @ []) w = vfs_walk ops v OwnFs g [] w"
    using vfs_walk_directories [OF assms(1) r(1), of "components path" n ops "[]" w] components_parts [of _ path] assms(2,3)
    by auto
  then show ?thesis using r(2) by (auto simp del: walk.simps(2))
qed

text \<open>The walk up to the directory that holds a mount point.\<close>

lemma vfs_get_file_to_mount:
  assumes ok: "tree_ok (vfs_tree v)" and ks: "components path = ps @ p # qs"
    and m: "mount_at (vfs_tree v) (ps @ [p]) = Some m"
  obtains g k c where "node_file ps g" "p \<noteq> []" "CHR ''/'' \<notin> set p" "subnode (vfs_tree v) ps = Some k"
    "subnode (vfs_tree v) (ps @ [p]) = Some c" "node_contents c = Some m"
    "vfs_get_file ops v path w = io_bind (vfs_get_child ops v g p) (\<lambda>next. vfs_walk ops v OwnFs next qs) w"
proof -
  obtain r where r: "node_file [] r" "vfs_get_file ops v path = vfs_walk ops v OwnFs r (components path)"
    using vfs_get_file_walk by blast
  obtain c where c: "subnode (vfs_tree v) (ps @ [p]) = Some c" "node_contents c = Some m"
    using m(1) by (auto simp: mount_at_def split: option.splits)
  obtain k where k: "subnode (vfs_tree v) ps = Some k" "node_contents k = None"
    using inner_node_no_mount [OF ok c(1)] .
  have parts: "\<And>x. x \<in> set (ps @ [p]) \<Longrightarrow> x \<noteq> [] \<and> CHR ''/'' \<notin> set x"
    using component_parts [of path "ps @ [p]" qs] ks by simp
  obtain g where g: "node_file ps g"
    "vfs_walk ops v OwnFs r (ps @ (p # qs)) w = vfs_walk ops v OwnFs g (p # qs) w"
    using vfs_walk_directories [OF ok r(1), of ps k ops "p # qs" w] parts k by auto
  show ?thesis
  proof (rule that [OF g(1) _ _ k(1) c])
    show "p \<noteq> []" "CHR ''/'' \<notin> set p" using parts [of p] by simp_all
    show "vfs_get_file ops v path w = io_bind (vfs_get_child ops v g p) (\<lambda>next. vfs_walk ops v OwnFs next qs) w"
      using vfs_walk_step [OF g(1), of ops v p qs w] g(2) r(2) ks by (simp del: walk.simps)
  qed
qed

lemma vfs_get_file_mounted:
  assumes ok: "tree_ok (vfs_tree v)" and ks: "components path = ps @ qs" "ps \<noteq> []"
    and m: "mount_at (vfs_tree v) ps = Some m" "fo_alive ops m w"
  shows "\<exists>g. mount_file ops w m ps g \<and> vfs_get_file ops v path w = vfs_walk ops v OwnFs g qs w"
proof -
  obtain ps' p where ps: "ps = ps' @ [p]" using ks(2) by (cases ps rule: rev_cases) auto
  obtain g k c where g: "node_file ps' g" "p \<noteq> []" "CHR ''/'' \<notin> set p" "subnode (vfs_tree v) ps' = Some k"
      "subnode (vfs_tree v) (ps' @ [p]) = Some c" "node_contents c = Some m"
    and e: "vfs_get_file ops v path w = io_bind (vfs_get_child ops v g p) (\<lambda>next. vfs_walk ops v OwnFs next qs) w"
    using vfs_get_file_to_mount [OF ok, of path ps' p qs m ops w] ks(1) m(1) by (auto simp: ps)
  obtain h where "mount_file ops w m (ps' @ [p]) h" "vfs_get_child ops v g p w = io_ok h w"
    using vfs_get_child_cases(3) [OF g m(2)] by blast
  then show ?thesis using e by (auto simp: ps io_bind_def io_ok_def simp del: walk.simps)
qed

lemma vfs_get_file_dead_mount:
  assumes ok: "tree_ok (vfs_tree v)" and ks: "components path = ps @ qs" "ps \<noteq> []"
    and m: "mount_at (vfs_tree v) ps = Some m" "\<not> fo_alive ops m w"
  shows "vfs_get_file ops v path w = io_err UnknownError w"
proof -
  obtain ps' p where ps: "ps = ps' @ [p]" using ks(2) by (cases ps rule: rev_cases) auto
  obtain g k c where g: "node_file ps' g" "p \<noteq> []" "CHR ''/'' \<notin> set p" "subnode (vfs_tree v) ps' = Some k"
      "subnode (vfs_tree v) (ps' @ [p]) = Some c" "node_contents c = Some m"
    and e: "vfs_get_file ops v path w = io_bind (vfs_get_child ops v g p) (\<lambda>next. vfs_walk ops v OwnFs next qs) w"
    using vfs_get_file_to_mount [OF ok, of path ps' p qs m ops w] ks(1) m(1) by (auto simp: ps)
  show ?thesis using vfs_get_child_cases(4) [OF g m(2)] e by (simp add: io_bind_def io_err_def)
qed

text \<open>The root of the virtual file system is always its own directory, whatever is mounted there.\<close>

lemma vfs_get_file_root:
  assumes "components path = []"
  shows "\<exists>f. node_file [] f \<and> vfs_get_file ops v path w = io_ok f w"
proof -
  obtain r where "node_file [] r" "vfs_get_file ops v path = vfs_walk ops v OwnFs r (components path)"
    using vfs_get_file_walk by blast
  then show ?thesis using assms by auto
qed

lemma vfs_get_file_under_root_mount:
  assumes ok: "tree_ok (vfs_tree v)" and m: "mount_at (vfs_tree v) [] = Some m" and ps: "components path \<noteq> []"
  shows "vfs_get_file ops v path w = io_err PathNotFound w"
proof -
  obtain r where r: "node_file [] r" "vfs_get_file ops v path = vfs_walk ops v OwnFs r (components path)"
    using vfs_get_file_walk by blast
  obtain p qs where c: "components path = [] @ p # qs" using ps by (cases "components path") auto
  have none: "subnode (vfs_tree v) ([] @ [p]) = None" and root: "subnode (vfs_tree v) [] = Some (vfs_tree v)"
    using ok m by (cases "vfs_tree v"; simp add: mount_at_def)+
  have p: "p \<noteq> []" "CHR ''/'' \<notin> set p" using component_parts [of path "[p]" qs p] c by simp_all
  have "vfs_get_child ops v r p w = io_err PathNotFound w" using vfs_get_child_cases(1) [OF r(1) p root none] .
  then show ?thesis using vfs_walk_step [OF r(1), of ops v p qs w] r(2) c by (simp add: io_bind_def io_err_def del: walk.simps)
qed

lemma missing_split:
  "subnode n ks = None \<Longrightarrow> \<exists>ps p qs k. ks = ps @ p # qs \<and> subnode n ps = Some k \<and> subnode n (ps @ [p]) = None"
proof (induction ks rule: rev_induct)
  case (snoc x xs)
  show ?case
  proof (cases "subnode n xs")
    case None
    then obtain ps p qs k where "xs = ps @ p # qs" "subnode n ps = Some k" "subnode n (ps @ [p]) = None" using snoc by blast
    then have "xs @ [x] = ps @ p # (qs @ [x]) \<and> subnode n ps = Some k \<and> subnode n (ps @ [p]) = None" by simp
    then show ?thesis by blast
  next
    case (Some k)
    then show ?thesis using snoc.prems by blast
  qed
qed simp

lemma vfs_get_file_missing:
  assumes ok: "tree_ok (vfs_tree v)" and none: "subnode (vfs_tree v) (components path) = None"
    and free: "\<And>ps. prefix ps (components path) \<Longrightarrow> mount_at (vfs_tree v) ps = None"
  shows "vfs_get_file ops v path w = io_err PathNotFound w"
proof -
  obtain r where r: "node_file [] r" "vfs_get_file ops v path = vfs_walk ops v OwnFs r (components path)"
    using vfs_get_file_walk by blast
  obtain ps p qs k where s: "components path = ps @ p # qs" "subnode (vfs_tree v) ps = Some k" "subnode (vfs_tree v) (ps @ [p]) = None"
    using missing_split [OF none] by blast
  have "node_contents k = None" using free [of ps] s(1,2) by (simp add: mount_at_def)
  then obtain g where g: "node_file ps g"
    "vfs_walk ops v OwnFs r (ps @ (p # qs)) w = vfs_walk ops v OwnFs g (p # qs) w"
    using vfs_walk_directories [OF ok r(1), of ps k ops "p # qs" w] component_parts [OF s(1)] s(2) by auto
  have p: "p \<noteq> []" "CHR ''/'' \<notin> set p" using component_parts [of path "ps @ [p]" qs p] s(1) by simp_all
  have "vfs_get_child ops v g p w = io_err PathNotFound w"
    using vfs_get_child_cases(1) [OF g(1) p s(2,3)] .
  then have "vfs_walk ops v OwnFs g (p # qs) w = io_err PathNotFound w"
    using vfs_walk_step [OF g(1), of ops v p qs w] by (simp add: io_bind_def io_err_def del: walk.simps)
  then show ?thesis using g(2) r(2) s(1) by (simp del: walk.simps)
qed

section \<open>Mounting\<close>

definition vfs_inv :: "Vfs \<Rightarrow> bool" where
  "vfs_inv v \<longleftrightarrow> tree_ok (vfs_tree v) \<and> sorted (map fst (vfs_fs_by_id v)) \<and>
     (\<forall>i \<in> fst ` set (vfs_fs_by_id v). i \<le> vfs_os_id_count v)"

lemma vfs_new_inv: "vfs_inv (vfs_new self)"
  by (simp add: vfs_inv_def vfs_new_def mounts_new_ok)

text \<open>
  What mounting relies on: a driver accepts the mount, answers with the identifier it was given,
  and lets itself be unmounted.
\<close>

locale mountable_fs =
  fixes ops :: "'w FsOps" and ptr :: nat
  assumes on_mount_total: "\<exists>f w'. fo_on_mount ops ptr mp os_id root w = Some (Inr f, w')"
    and on_mount_os_id: "fo_on_mount ops ptr mp os_id root w = Some (Inr f, w') \<Longrightarrow>
      fo_os_id ops ptr w' = os_id \<and> fo_alive ops ptr w'"
    and unmount_total: "\<exists>b w' w''. fo_on_pre_unmount ops ptr w = Some (Inr b, w') \<and> fo_on_unmount ops ptr w' = Some (Inr (), w'')"
begin

lemma mount_ok:
  assumes inv: "vfs_inv v" and root: "vfs_root_fs v = Some r" and id: "vfs_os_id_count v + 1 < 2 ^ 64"
    and free: "\<not> mount_conflict (vfs_tree v) (components name)"
  obtains f v' w' where "vfs_mount ops v name ptr w = Some ((Inr f, v'), w')" "vfs_inv v'"
    "mount_at (vfs_tree v') = (mount_at (vfs_tree v))(components name \<mapsto> ptr)"
    "map_of (vfs_fs_by_id v') = (map_of (vfs_fs_by_id v))(vfs_os_id_count v + 1 \<mapsto> ptr)"
    "map_of (vfs_fs_by_id v) (vfs_os_id_count v + 1) = None"
    "vf_fs f = vfs_os_id_count v + 1" "fo_os_id ops ptr w' = vfs_os_id_count v + 1" "fo_alive ops ptr w'"
    "mounts_register_fs (vfs_tree v) name ptr = (Inr (), vfs_tree v')"
proof -
  let ?id = "vfs_os_id_count v + 1"
  obtain tree where tree: "mounts_register_fs (vfs_tree v) name ptr = (Inr (), tree)" "tree_ok tree"
     "mount_at tree = (mount_at (vfs_tree v))(components name \<mapsto> ptr)"
    using mt.register_free [OF _ free, of ptr] inv by (auto simp: vfs_inv_def)
  let ?v2 = "v\<lparr>vfs_os_id_count := ?id, vfs_fs_by_id := btree_insert ?id ptr (vfs_fs_by_id v), vfs_tree := tree\<rparr>"
  let ?mp = "\<lparr>vf_kind = KMountPoint ptr, vf_name = name, vf_size = 0, vf_parent_fs = VFS_OS_ID, vf_fs = ?id, vf_specific = VfsSpecific\<rparr>"
  obtain g w' where g: "fo_on_mount ops ptr ?mp ?id r w = Some (Inr g, w')" using on_mount_total by blast
  have m: "vfs_mount ops v name ptr w = Some ((Inr ?mp, ?v2), w')"
    using root id tree(1) g
    by (simp add: vfs_mount_def next_os_id_def vfs_register_fs_def checked_simps del: bind_eq_Some_iff)
  have fresh: "?id \<notin> fst ` set (vfs_fs_by_id v)" using inv by (auto simp: vfs_inv_def)
  have inv2: "vfs_inv ?v2"
    using inv tree(2) set_btree_insert [of ?id ptr "vfs_fs_by_id v"] sorted_btree_insert [of "vfs_fs_by_id v" ?id ptr]
    by (auto simp: vfs_inv_def)
  show ?thesis
  proof (rule that [OF m inv2])
    show "map_of (vfs_fs_by_id ?v2) = (map_of (vfs_fs_by_id v))(?id \<mapsto> ptr)"
      using inv by (simp add: map_of_btree_insert vfs_inv_def)
    show "map_of (vfs_fs_by_id v) ?id = None" using fresh by (simp add: map_of_eq_None_iff)
  qed (use tree g on_mount_os_id [OF g] in auto)
qed

lemma unmount_after_mount:
  assumes inv: "vfs_inv v" and root: "vfs_root_fs v = Some r" and id: "vfs_os_id_count v + 1 < 2 ^ 64"
    and free: "\<not> mount_conflict (vfs_tree v) (components name)"
  obtains f v' w' v'' w'' where "vfs_mount ops v name ptr w = Some ((Inr f, v'), w')"
    "vfs_unmount ops v' name w' = Some ((Inr (), v''), w'')" "vfs_inv v''"
    "mount_at (vfs_tree v'') = mount_at (vfs_tree v)" "map_of (vfs_fs_by_id v'') = map_of (vfs_fs_by_id v)"
proof -
  obtain f v' w' where m: "vfs_mount ops v name ptr w = Some ((Inr f, v'), w')" "vfs_inv v'"
    "map_of (vfs_fs_by_id v') = (map_of (vfs_fs_by_id v))(vfs_os_id_count v + 1 \<mapsto> ptr)"
    "map_of (vfs_fs_by_id v) (vfs_os_id_count v + 1) = None"
    "fo_os_id ops ptr w' = vfs_os_id_count v + 1" "fo_alive ops ptr w'"
    "mounts_register_fs (vfs_tree v) name ptr = (Inr (), vfs_tree v')"
    by (rule mount_ok [OF assms, of w])
  have "tree_ok (vfs_tree v)" using inv by (simp add: vfs_inv_def)
  from mt.register_remove [OF this m(7)] obtain tree where tree: "mounts_remove_fs (vfs_tree v') name = (Inr ptr, tree)" "tree_ok tree"
    "mount_at tree = mount_at (vfs_tree v)" .
  obtain b w1 w2 where u: "fo_on_pre_unmount ops ptr w' = Some (Inr b, w1)" "fo_on_unmount ops ptr w1 = Some (Inr (), w2)"
    using unmount_total by blast
  let ?v'' = "v'\<lparr>vfs_tree := tree, vfs_fs_by_id := btree_remove (vfs_os_id_count v + 1) (vfs_fs_by_id v')\<rparr>"
  have "vfs_unmount ops v' name w' = Some ((Inr (), ?v''), w2)"
    using tree(1) u m(5,6) by (simp add: vfs_unmount_def io_bind_def Let_def)
  moreover have "vfs_inv ?v''" using m(2) tree(2)
    by (auto simp: vfs_inv_def sorted_btree_remove) (auto simp: btree_remove_def)
  moreover have "map_of (vfs_fs_by_id ?v'') = map_of (vfs_fs_by_id v)"
    using m(3,4) by (auto simp: map_of_btree_remove)
  ultimately show ?thesis using that m(1) tree(3) by simp
qed

end

end
