(* ===== verification/Pipe.thy ===== *)
theory Pipe
  imports Vfs_Types
begin

text \<open>
  The ring buffer of \<^verbatim>\<open>drivers/fs/virt/pipefs.rs\<close> (\<^verbatim>\<open>Pipe\<close>): a fixed buffer, a
  read and a write position and the number of bytes stored. It refines a bounded queue of
  bytes.
\<close>

section \<open>The ring buffer\<close>

record Pipe =
  p_data :: "u8 list"
  p_data_len :: nat
  p_write_pos :: nat
  p_read_pos :: nat
  p_created_at :: nat
  p_modified_at :: nat
  p_readers :: nat
  p_writers :: nat
  p_closed :: bool

definition new_anonymous :: "nat \<Rightarrow> Pipe" where
  "new_anonymous buf_size = \<lparr>p_data = replicate buf_size 0, p_data_len = 0, p_write_pos = 0,
     p_read_pos = 0, p_created_at = 0, p_modified_at = 0, p_readers = 0, p_writers = 0, p_closed = False\<rparr>"

definition readable_bytes :: "Pipe \<Rightarrow> nat" where
  "readable_bytes p = p_data_len p"

definition writable_bytes :: "Pipe \<Rightarrow> nat panics" where
  "writable_bytes p = sub64 (length (p_data p)) (p_data_len p)"

definition is_full :: "Pipe \<Rightarrow> bool" where
  "is_full p \<longleftrightarrow> p_data_len p \<ge> length (p_data p)"

definition is_empty :: "Pipe \<Rightarrow> bool" where
  "is_empty p \<longleftrightarrow> p_data_len p = 0"

definition pipe_read :: "Pipe \<Rightarrow> u8 list \<Rightarrow> (nat \<times> u8 list \<times> Pipe) panics" where
  "pipe_read p buf =
     (let to_read = min (readable_bytes p) (length buf) in
      if to_read = 0 then Some (0, buf, p)
      else do {
        to_end \<leftarrow> sub64 (length (p_data p)) (p_read_pos p);
        (buf', pos) \<leftarrow>
          (if to_read > to_end then do {
             s1 \<leftarrow> slice_get (p_data p) (p_read_pos p) (length (p_data p));
             b1 \<leftarrow> copy_from_slice buf 0 to_end s1;
             s2 \<leftarrow> slice_get (p_data p) 0 (to_read - to_end);
             b2 \<leftarrow> copy_from_slice b1 to_end to_read s2;
             Some (b2, to_read - to_end)
           } else do {
             s \<leftarrow> slice_get (p_data p) (p_read_pos p) (p_read_pos p + to_read);
             b \<leftarrow> copy_from_slice buf 0 to_read s;
             Some (b, (p_read_pos p + to_read) mod length (p_data p))
           });
        rest \<leftarrow> sub64 (p_data_len p) to_read;
        Some (to_read, buf', p\<lparr>p_read_pos := pos, p_data_len := rest\<rparr>)
      })"

definition pipe_write :: "Pipe \<Rightarrow> u8 list \<Rightarrow> (nat \<times> Pipe) panics" where
  "pipe_write p buf = do {
     room \<leftarrow> writable_bytes p;
     (let to_write = min room (length buf) in
      if to_write = 0 then Some (0, p)
      else do {
        to_end \<leftarrow> sub64 (length (p_data p)) (p_write_pos p);
        (data', pos) \<leftarrow>
          (if to_write > to_end then do {
             s1 \<leftarrow> slice_get buf 0 to_end;
             d1 \<leftarrow> copy_from_slice (p_data p) (p_write_pos p) (length (p_data p)) s1;
             s2 \<leftarrow> slice_get buf to_end to_write;
             d2 \<leftarrow> copy_from_slice d1 0 (to_write - to_end) s2;
             Some (d2, to_write - to_end)
           } else do {
             s \<leftarrow> slice_get buf 0 to_write;
             d \<leftarrow> copy_from_slice (p_data p) (p_write_pos p) (p_write_pos p + to_write) s;
             Some (d, (p_write_pos p + to_write) mod length (p_data p))
           });
        Some (to_write, p\<lparr>p_data := data', p_write_pos := pos, p_data_len := p_data_len p + to_write\<rparr>)
      })
   }"

section \<open>The queue it holds\<close>

definition pipe_ok :: "Pipe \<Rightarrow> bool" where
  "pipe_ok p \<longleftrightarrow> 0 < length (p_data p) \<and> p_data_len p \<le> length (p_data p) \<and> p_read_pos p < length (p_data p) \<and>
     p_write_pos p = (p_read_pos p + p_data_len p) mod length (p_data p)"

definition pipe_queue :: "Pipe \<Rightarrow> u8 list" where
  "pipe_queue p = map (\<lambda>i. p_data p ! ((p_read_pos p + i) mod length (p_data p))) [0..<p_data_len p]"

lemma length_pipe_queue [simp]: "length (pipe_queue p) = p_data_len p"
  by (simp add: pipe_queue_def)

lemma mod_wrap: "i < n \<Longrightarrow> i + j < 2 * n \<Longrightarrow> (i + j) mod n = (if i + j < n then i + j else i + j - n)" for i j n :: nat
  by (auto simp: mod_if)

lemma take_pipe_queue:
  assumes ok: "pipe_ok p" and n: "n \<le> p_data_len p"
  shows "take n (pipe_queue p) =
    (if n \<le> length (p_data p) - p_read_pos p then slice_of (p_data p) (p_read_pos p) (p_read_pos p + n)
     else slice_of (p_data p) (p_read_pos p) (length (p_data p)) @
       slice_of (p_data p) 0 (p_read_pos p + n - length (p_data p)))"
proof -
  let ?N = "length (p_data p)" let ?r = "p_read_pos p"
  have r: "?r < ?N" "n \<le> ?N" using ok n by (auto simp: pipe_ok_def)
  have idx: "(i + ?r) mod ?N = (if i + ?r < ?N then i + ?r else i + ?r - ?N)" if "i < n" for i
    using mod_wrap [OF r(1), of i] that r by (auto simp: add.commute)
  have q: "take n (pipe_queue p) = map (\<lambda>i. p_data p ! ((?r + i) mod ?N)) [0..<n]"
    using n by (simp add: pipe_queue_def take_map)
  show ?thesis unfolding q
    using r by (intro nth_equalityI) (auto simp: idx slice_simps nth_append add.commute)
qed

lemma splice_at_0: "length xs \<le> length buf \<Longrightarrow> splice_at buf 0 xs = xs @ drop (length xs) buf"
  by (simp add: splice_at_def)

lemma splice_splice:
  "splice_at (xs @ drop (length xs) buf) (length xs) ys = xs @ ys @ drop (length xs + length ys) buf"
  by (simp add: splice_at_def add.commute)

definition pipe_after_read :: "Pipe \<Rightarrow> nat \<Rightarrow> Pipe" where
  "pipe_after_read p n = p\<lparr>p_read_pos := (p_read_pos p + n) mod length (p_data p), p_data_len := p_data_len p - n\<rparr>"

lemma pipe_read_eq:
  assumes ok: "pipe_ok p" and n: "n = min (p_data_len p) (length buf)"
  shows "pipe_read p buf = Some (n, take n (pipe_queue p) @ drop n buf, pipe_after_read p n)"
proof -
  let ?N = "length (p_data p)" let ?r = "p_read_pos p"
  have r: "?r < ?N" "n \<le> ?N" "n \<le> p_data_len p" "n \<le> length buf" using ok n by (auto simp: pipe_ok_def)
  consider "n = 0" | "0 < n" "n \<le> ?N - ?r" | "?N - ?r < n" by linarith
  then show ?thesis
  proof cases
    case 1
    then show ?thesis using n r(1) by (simp add: pipe_read_def readable_bytes_def pipe_after_read_def)
  next
    case 2
    let ?s = "slice_of (p_data p) ?r (?r + n)"
    have l: "length ?s = n" using 2 r by (simp add: slice_simps)
    have "pipe_read p buf = Some (n, splice_at buf 0 ?s, pipe_after_read p n)"
      unfolding pipe_read_def readable_bytes_def n [symmetric] using 2 r l
      by (simp add: checked_simps pipe_after_read_def del: bind_eq_Some_iff)
    then show ?thesis using 2 r l take_pipe_queue [OF ok r(3)] by (simp add: splice_at_0)
  next
    case 3
    let ?e = "?N - ?r" let ?s = "slice_of (p_data p) ?r ?N" and ?t = "slice_of (p_data p) 0 (n - ?e)"
    have l: "length ?s = ?e" "length ?t = n - ?e" using 3 r by (simp_all add: slice_simps)
    have m: "(?r + n) mod ?N = n - ?e" using mod_wrap [OF r(1), of n] r 3 by auto
    have e: "?r + n - ?N = n - ?e" using r 3 by simp
    have "pipe_read p buf = Some (n, splice_at (splice_at buf 0 ?s) ?e ?t, pipe_after_read p n)"
      unfolding pipe_read_def readable_bytes_def n [symmetric] using 3 r l m
      by (simp add: checked_simps pipe_after_read_def slice_simps del: bind_eq_Some_iff)
    moreover have "splice_at (splice_at buf 0 ?s) ?e ?t = ?s @ ?t @ drop n buf"
      using splice_splice [of ?s buf ?t] splice_at_0 [of ?s buf] l r 3 by simp
    ultimately show ?thesis using take_pipe_queue [OF ok r(3)] 3 e by simp
  qed
qed

lemma pipe_after_read_queue:
  assumes ok: "pipe_ok p" and n: "n \<le> p_data_len p"
  shows "pipe_ok (pipe_after_read p n)" and "pipe_queue (pipe_after_read p n) = drop n (pipe_queue p)"
proof -
  obtain m where "p_data_len p = n + m" using n le_Suc_ex by blast
  then show "pipe_ok (pipe_after_read p n)"
    using ok by (auto simp: pipe_ok_def pipe_after_read_def mod_simps add.assoc)
  show "pipe_queue (pipe_after_read p n) = drop n (pipe_queue p)"
    by (rule nth_equalityI) (auto simp: pipe_queue_def pipe_after_read_def mod_simps add.assoc)
qed

definition ring_put :: "u8 list \<Rightarrow> nat \<Rightarrow> u8 list \<Rightarrow> u8 list \<Rightarrow> bool" where
  "ring_put d w xs d' \<longleftrightarrow> length d' = length d \<and> (\<forall>i < length xs. d' ! ((w + i) mod length d) = xs ! i) \<and>
     (\<forall>j < length d. (\<forall>i < length xs. j \<noteq> (w + i) mod length d) \<longrightarrow> d' ! j = d ! j)"

lemma ring_put_one:
  assumes "w + length xs \<le> length d"
  shows "ring_put d w xs (splice_at d w xs)"
proof -
  have "(w + i) mod length d = w + i" if "i < length xs" for i using assms that by simp
  moreover have "\<exists>i < length xs. j = w + i" if "w \<le> j" "j < w + length xs" for j
    using that by (intro exI [of _ "j - w"]) auto
  ultimately show ?thesis
    using assms by (auto simp: ring_put_def slice_simps nth_splice_at)
qed

lemma ring_put_wrap:
  assumes w: "w < length d" and e: "length xs = length d - w" and l: "length xs + length ys \<le> length d"
  shows "ring_put d w (xs @ ys) (splice_at (splice_at d w xs) 0 ys)"
proof -
  let ?N = "length d"
  have lo: "(w + i) mod ?N = w + i" if "i < length xs" for i using e that by simp
  have hi: "(w + i) mod ?N = i - length xs" if "length xs \<le> i" "i < length xs + length ys" for i
    using mod_wrap [OF w, of i] that e l w by auto
  have len: "length (splice_at d w xs) = ?N" using w e by (simp add: slice_simps)
  have el: "splice_at (splice_at d w xs) 0 ys ! j = (if j < length ys then ys ! j else if w \<le> j then xs ! (j - w) else d ! j)"
    if "j < ?N" for j
    using that w e l len by (simp add: nth_splice_at)
  have "splice_at (splice_at d w xs) 0 ys ! ((w + i) mod ?N) = (xs @ ys) ! i" if i: "i < length (xs @ ys)" for i
  proof (cases "i < length xs")
    case True
    moreover have "length ys \<le> w" using e l w by linarith
    ultimately show ?thesis using lo [OF True] el [of "w + i"] e w by (simp add: nth_append)
  next
    case False
    then have a: "i - length xs < length ys" "length xs \<le> i" "i < length xs + length ys" using i by auto
    then have "i - length xs < ?N" using l by linarith
    from el [OF this] show ?thesis unfolding hi [OF a(2,3)] using a(1) False by (simp add: nth_append)
  qed
  moreover have "splice_at (splice_at d w xs) 0 ys ! j = d ! j"
    if j: "j < ?N" and far: "\<forall>i < length (xs @ ys). j \<noteq> (w + i) mod ?N" for j
  proof -
    have "\<not> j < length ys" using far [rule_format, of "length xs + j"] hi [of "length xs + j"] by auto
    moreover have "\<not> w \<le> j"
    proof
      assume wj: "w \<le> j"
      then have "j - w < length xs" using e j by linarith
      then show False using far [rule_format, of "j - w"] lo [of "j - w"] wj by simp
    qed
    ultimately show ?thesis using el [OF j] by simp
  qed
  ultimately show ?thesis using len l by (simp add: ring_put_def slice_simps)
qed

definition pipe_after_write :: "Pipe \<Rightarrow> u8 list \<Rightarrow> u8 list \<Rightarrow> Pipe" where
  "pipe_after_write p d' xs = p\<lparr>p_data := d', p_write_pos := (p_write_pos p + length xs) mod length (p_data p),
     p_data_len := p_data_len p + length xs\<rparr>"

lemma pipe_write_eq:
  assumes ok: "pipe_ok p" and n: "n = min (length (p_data p) - p_data_len p) (length buf)"
  shows "\<exists>d'. pipe_write p buf = Some (n, pipe_after_write p d' (take n buf)) \<and> ring_put (p_data p) (p_write_pos p) (take n buf) d'"
proof -
  let ?N = "length (p_data p)" let ?w = "p_write_pos p"
  have w: "?w < ?N" "n \<le> ?N" "p_data_len p \<le> ?N" "n \<le> length buf" using ok n by (auto simp: pipe_ok_def)
  have unfold: "pipe_write p buf = (if n = 0 then Some (0, p) else do {
        to_end \<leftarrow> sub64 ?N ?w;
        (data', pos) \<leftarrow>
          (if n > to_end then do {
             s1 \<leftarrow> slice_get buf 0 to_end;
             d1 \<leftarrow> copy_from_slice (p_data p) ?w ?N s1;
             s2 \<leftarrow> slice_get buf to_end n;
             d2 \<leftarrow> copy_from_slice d1 0 (n - to_end) s2;
             Some (d2, n - to_end)
           } else do {
             s \<leftarrow> slice_get buf 0 n;
             d \<leftarrow> copy_from_slice (p_data p) ?w (?w + n) s;
             Some (d, (?w + n) mod ?N)
           });
        Some (n, p\<lparr>p_data := data', p_write_pos := pos, p_data_len := p_data_len p + n\<rparr>) })"
    by (simp only: pipe_write_def writable_bytes_def sub64_Some [OF w(3)] Option.bind.bind_lunit Let_def n [symmetric])
  have len: "length (take n buf) = n" using w(4) by simp
  consider "n = 0" | "0 < n" "n \<le> ?N - ?w" | "?N - ?w < n" by linarith
  then show ?thesis
  proof cases
    case 1
    then show ?thesis using w(1) 
      by (intro exI [of _ "p_data p"]) (simp add: unfold pipe_after_write_def ring_put_def)
  next
    case 2
    have "slice_of buf 0 n = take n buf" by (simp add: slice_of_def)
    then have "pipe_write p buf = Some (n, pipe_after_write p (splice_at (p_data p) ?w (take n buf)) (take n buf))"
      unfolding unfold using 2 w len by (simp add: checked_simps pipe_after_write_def del: bind_eq_Some_iff)
    then show ?thesis using ring_put_one [of ?w "take n buf" "p_data p"] 2 w len by auto
  next
    case 3
    let ?e = "?N - ?w" let ?s = "slice_of buf 0 ?e" and ?t = "slice_of buf ?e n"
    have l: "length ?s = ?e" "length ?t = n - ?e" using 3 w by (simp_all add: slice_simps)
    have st: "take n buf = ?s @ ?t" using slice_append_slice [of 0 ?e n buf] 3 by (simp add: slice_of_def)
    have m: "(?w + n) mod ?N = n - ?e" using mod_wrap [OF w(1), of n] w 3 by auto
    have "pipe_write p buf =
        Some (n, pipe_after_write p (splice_at (splice_at (p_data p) ?w ?s) 0 ?t) (take n buf))"
      unfolding unfold using 3 w len l m
      by (simp add: checked_simps pipe_after_write_def slice_simps del: bind_eq_Some_iff)
    moreover have "ring_put (p_data p) ?w (?s @ ?t) (splice_at (splice_at (p_data p) ?w ?s) 0 ?t)"
      using w l 3 by (intro ring_put_wrap) auto
    ultimately show ?thesis unfolding st [symmetric] by blast
  qed
qed

lemma pipe_after_write_queue:
  assumes ok: "pipe_ok p" and room: "p_data_len p + length xs \<le> length (p_data p)"
    and put: "ring_put (p_data p) (p_write_pos p) xs d'"
  shows "pipe_ok (pipe_after_write p d' xs)" and "pipe_queue (pipe_after_write p d' xs) = pipe_queue p @ xs"
proof -
  let ?N = "length (p_data p)" let ?r = "p_read_pos p" let ?l = "p_data_len p"
  have r: "?r < ?N" and w: "p_write_pos p = (?r + ?l) mod ?N" using ok by (auto simp: pipe_ok_def)
  have len: "length d' = ?N" using put by (simp add: ring_put_def)
  show "pipe_ok (pipe_after_write p d' xs)"
    using ok room len by (auto simp: pipe_ok_def pipe_after_write_def mod_simps add.assoc)
  have pos: "(p_write_pos p + i) mod ?N = (?r + (?l + i)) mod ?N" for i by (simp add: w mod_simps add.assoc)
  have old: "d' ! ((?r + k) mod ?N) = p_data p ! ((?r + k) mod ?N)" if k: "k < ?l" for k
  proof -
    have "(?r + k) mod ?N \<noteq> (?r + (?l + i)) mod ?N" if "i < length xs" for i
    proof
      assume "(?r + k) mod ?N = (?r + (?l + i)) mod ?N"
      then have "?N dvd (?r + (?l + i)) - (?r + k)" using k by (metis mod_eq_dvd_iff_nat add_le_cancel_left less_imp_le_nat trans_le_add1)
      moreover have "0 < (?r + (?l + i)) - (?r + k)" "(?r + (?l + i)) - (?r + k) < ?N" using k that room by auto
      ultimately show False using dvd_imp_le not_le by blast
    qed
    moreover have "(?r + k) mod ?N < ?N" using r by (intro mod_less_divisor) linarith
    ultimately show ?thesis using put pos unfolding ring_put_def by metis
  qed
  have new: "d' ! ((?r + (?l + i)) mod ?N) = xs ! i" if "i < length xs" for i
    using put that pos unfolding ring_put_def by metis
  show "pipe_queue (pipe_after_write p d' xs) = pipe_queue p @ xs"
  proof (rule nth_equalityI)
    fix k assume "k < length (pipe_queue (pipe_after_write p d' xs))"
    then have "k < ?l + length xs" by (simp add: pipe_after_write_def)
    then show "pipe_queue (pipe_after_write p d' xs) ! k = (pipe_queue p @ xs) ! k"
      using old [of k] new [of "k - ?l"] len
      by (cases "k < ?l") (simp_all add: pipe_queue_def pipe_after_write_def nth_append)
  qed (simp add: pipe_after_write_def)
qed

section \<open>Bounded byte queues\<close>

datatype queue_op = Put "u8 list" | Get "u8 list"

text \<open>
  A run of writes and reads in any order: the bytes the writes accepted, the bytes the reads
  delivered, and the final state.
\<close>

fun queue_run ::
    "('s \<Rightarrow> u8 list \<Rightarrow> (nat \<times> 's) panics) \<Rightarrow> ('s \<Rightarrow> u8 list \<Rightarrow> (nat \<times> u8 list \<times> 's) panics) \<Rightarrow>
     's \<Rightarrow> queue_op list \<Rightarrow> (u8 list \<times> u8 list \<times> 's) panics" where
  "queue_run put get s [] = Some ([], [], s)"
| "queue_run put get s (Put xs # ops) = do {
     (n, s1) \<leftarrow> put s xs;
     (w, r, s2) \<leftarrow> queue_run put get s1 ops;
     Some (take n xs @ w, r, s2)
   }"
| "queue_run put get s (Get buf # ops) = do {
     (n, buf', s1) \<leftarrow> get s buf;
     (w, r, s2) \<leftarrow> queue_run put get s1 ops;
     Some (w, take n buf' @ r, s2)
   }"

locale bounded_queue =
  fixes put :: "'s \<Rightarrow> u8 list \<Rightarrow> (nat \<times> 's) panics"
    and get :: "'s \<Rightarrow> u8 list \<Rightarrow> (nat \<times> u8 list \<times> 's) panics"
    and qinv :: "'s \<Rightarrow> bool"
    and queue :: "'s \<Rightarrow> u8 list"
    and capacity :: "'s \<Rightarrow> nat"
  assumes put_law: "qinv s \<Longrightarrow> n = min (capacity s - length (queue s)) (length xs) \<Longrightarrow>
      \<exists>s'. put s xs = Some (n, s') \<and> qinv s' \<and> queue s' = queue s @ take n xs \<and> capacity s' = capacity s"
    and get_law: "qinv s \<Longrightarrow> n = min (length (queue s)) (length buf) \<Longrightarrow>
      \<exists>s'. get s buf = Some (n, take n (queue s) @ drop n buf, s') \<and> qinv s' \<and>
        queue s' = drop n (queue s) \<and> capacity s' = capacity s"
    and fits: "qinv s \<Longrightarrow> length (queue s) \<le> capacity s"
begin

lemma run_fifo:
  assumes "qinv s"
  shows "\<exists>w r s'. queue_run put get s ops = Some (w, r, s') \<and> qinv s' \<and> queue s @ w = r @ queue s' \<and>
    capacity s' = capacity s"
  using assms
proof (induction ops arbitrary: s)
  case Nil
  then show ?case by simp
next
  case (Cons op ops)
  show ?case
  proof (cases op)
    case (Put xs)
    obtain n s1 where s1: "put s xs = Some (n, s1)" "qinv s1" "queue s1 = queue s @ take n xs" "capacity s1 = capacity s"
      using put_law [OF Cons.prems refl] by blast
    then show ?thesis using Cons.IH [OF s1(2)] Put by auto
  next
    case (Get buf)
    let ?n = "min (length (queue s)) (length buf)"
    obtain s1 where s1: "get s buf = Some (?n, take ?n (queue s) @ drop ?n buf, s1)" "qinv s1"
        "queue s1 = drop ?n (queue s)" "capacity s1 = capacity s"
      using get_law [OF Cons.prems refl] by blast
    obtain w r s2 where s2: "queue_run put get s1 ops = Some (w, r, s2)" "qinv s2" "queue s1 @ w = r @ queue s2"
        "capacity s2 = capacity s"
      using Cons.IH [OF s1(2)] s1(4) by auto
    have "take ?n (queue s) @ drop ?n (queue s) @ w = take ?n (queue s) @ r @ queue s2" using s1(3) s2(3) by simp
    then have "queue s @ w = take ?n (queue s) @ r @ queue s2"
      by (simp only: append_assoc [symmetric] append_take_drop_id)
    then show ?thesis using s1(1) s2 Get by simp
  qed
qed

lemma put_then_get:
  assumes "qinv s" "queue s = []" "length xs \<le> capacity s" "length buf = length xs"
  shows "\<exists>s1 s2. put s xs = Some (length xs, s1) \<and> get s1 buf = Some (length xs, xs, s2) \<and> queue s2 = []"
proof -
  obtain s1 where s1: "put s xs = Some (length xs, s1)" "qinv s1" "queue s1 = xs"
    using put_law [OF assms(1), of "length xs" xs] assms(2,3) by auto
  then show ?thesis using get_law [OF s1(2), of "length xs" buf] assms(4) by auto
qed

end

interpretation pq: bounded_queue pipe_write pipe_read pipe_ok pipe_queue "\<lambda>p. length (p_data p)"
proof (unfold_locales, goal_cases)
  case (1 p n xs)
  have n: "n = min (length (p_data p) - p_data_len p) (length xs)" using 1(2) by simp
  obtain d' where d': "pipe_write p xs = Some (n, pipe_after_write p d' (take n xs))"
      "ring_put (p_data p) (p_write_pos p) (take n xs) d'" using pipe_write_eq [OF 1(1) n] by blast
  have "p_data_len p + length (take n xs) \<le> length (p_data p)" using n 1(1) by (auto simp: pipe_ok_def)
  from pipe_after_write_queue [OF 1(1) this d'(2)] show ?case
    using d' by (auto simp: pipe_after_write_def ring_put_def)
next
  case (2 p n buf)
  have n: "n = min (p_data_len p) (length buf)" using 2(2) by simp
  then have "n \<le> p_data_len p" by simp
  from pipe_after_read_queue [OF 2(1) this] pipe_read_eq [OF 2(1) n] show ?case
    by (auto simp: pipe_after_read_def)
next
  case (3 p)
  then show ?case by (simp add: pipe_ok_def)
qed

lemma new_anonymous_ok: "0 < n \<Longrightarrow> pipe_ok (new_anonymous n) \<and> pipe_queue (new_anonymous n) = []"
  by (simp add: new_anonymous_def pipe_ok_def pipe_queue_def)

text \<open>
  C12: Under any sequence of reads and writes the ring buffer is a bounded byte queue: no operation
  panics, the bytes read are a prefix of the bytes accepted, in order, what is left is the
  queue, and it never exceeds the buffer.
\<close>

theorem pipe_fifo:
  assumes "pipe_ok p"
  shows "\<exists>w r p'. queue_run pipe_write pipe_read p ops = Some (w, r, p') \<and> pipe_ok p' \<and>
    pipe_queue p @ w = r @ pipe_queue p' \<and> length (p_data p') = length (p_data p) \<and>
    length (pipe_queue p') \<le> length (p_data p')"
  using pq.run_fifo [OF assms, of ops] pq.fits by blast

theorem pipe_fifo_witness:
  "\<exists>r p'. queue_run pipe_write pipe_read (new_anonymous 4) [Put [1, 2, 3], Get [0, 0], Put [4, 5, 6, 7], Get [0, 0, 0, 0, 0]] =
     Some ([1, 2, 3, 4, 5, 6], r, p') \<and> r @ pipe_queue p' = [1, 2, 3, 4, 5, 6]"
proof -
  let ?ops = "[Put [1, 2, 3], Get [0, 0], Put [4, 5, 6, 7], Get [0, 0, 0, 0, 0]]"
  have ok: "pipe_ok (new_anonymous 4)" "pipe_queue (new_anonymous 4) = []" using new_anonymous_ok by simp_all
  obtain w r p' where r: "queue_run pipe_write pipe_read (new_anonymous 4) ?ops = Some (w, r, p')" "w = r @ pipe_queue p'"
    using pipe_fifo [OF ok(1), of ?ops] ok(2) by auto
  have "map_option fst (queue_run pipe_write pipe_read (new_anonymous 4) ?ops) = Some [1, 2, 3, 4, 5, 6]"
    by code_simp
  then show ?thesis using r by auto
qed

end
