(* ===== verification/Data_Utils.thy ===== *)
theory Data_Utils
  imports Prelude
begin

text \<open>
  Small helpers of \<^verbatim>\<open>data/\<close>: decimal numbers in paths (\<^verbatim>\<open>decimal_chars_to_u64\<close>,
  and \<^verbatim>\<open>u64::to_string\<close> of the standard library, its inverse).
\<close>

definition to_digit :: "char \<Rightarrow> nat option" where
  "to_digit c = (if 48 \<le> (of_char c :: nat) \<and> (of_char c :: nat) \<le> 57 then Some (of_char c - 48) else None)"

definition checked_mul_add :: "nat \<Rightarrow> nat \<Rightarrow> nat option" where
  "checked_mul_add r d = (if r * 10 < 2 ^ 64 then (if r * 10 + d < 2 ^ 64 then Some (r * 10 + d) else None) else None)"

fun decimal_loop :: "nat \<Rightarrow> string \<Rightarrow> nat option" where
  "decimal_loop result [] = Some result"
| "decimal_loop result (c # cs) =
     (case to_digit c of
        Some digit \<Rightarrow> (case checked_mul_add result digit of
                         None \<Rightarrow> None
                       | Some r \<Rightarrow> decimal_loop r cs)
      | None \<Rightarrow> None)"

definition decimal_chars_to_u64 :: "string \<Rightarrow> nat option" where
  "decimal_chars_to_u64 chars = decimal_loop 0 chars"

fun to_string :: "nat \<Rightarrow> string" where
  "to_string n = (if n < 10 then [char_of (48 + n)] else to_string (n div 10) @ [char_of (48 + n mod 10)])"

declare to_string.simps [simp del]

section \<open>Permissions\<close>

text \<open>\<^verbatim>\<open>data/permissions.rs\<close>: nine bits, read, write and execute for each of three levels.\<close>

definition OWNER_READ :: u64 where "OWNER_READ = push_bit 0 1"

definition OWNER_WRITE :: u64 where "OWNER_WRITE = push_bit 1 1"

definition OWNER_EXECUTE :: u64 where "OWNER_EXECUTE = push_bit 2 1"

datatype PermissionLevel = Owner | Group | Other

datatype PermissionType = PRead | PWrite | PExecute

fun get_standard_shift :: "PermissionLevel \<Rightarrow> nat" where
  "get_standard_shift Owner = 0"
| "get_standard_shift Group = 3"
| "get_standard_shift Other = 6"

fun get_standard_value :: "PermissionType \<Rightarrow> u64" where
  "get_standard_value PRead = OWNER_READ"
| "get_standard_value PWrite = OWNER_WRITE"
| "get_standard_value PExecute = OWNER_EXECUTE"

definition perm_can :: "u64 \<Rightarrow> PermissionLevel \<Rightarrow> PermissionType \<Rightarrow> bool" where
  "perm_can p level permission \<longleftrightarrow> p AND push_bit (get_standard_shift level) (get_standard_value permission) \<noteq> 0"

definition perm_set :: "u64 \<Rightarrow> PermissionLevel \<Rightarrow> PermissionType \<Rightarrow> u64" where
  "perm_set p level permission = p OR push_bit (get_standard_shift level) (get_standard_value permission)"

definition permissions :: "(PermissionLevel \<times> PermissionType) list \<Rightarrow> u64" where
  "permissions ps = fold (\<lambda>(level, permission) p. perm_set p level permission) ps 0"

section \<open>Lemmas\<close>

lemmas perm_bits = OWNER_READ_def OWNER_WRITE_def OWNER_EXECUTE_def

definition perm_index :: "PermissionLevel \<Rightarrow> PermissionType \<Rightarrow> nat" where
  "perm_index l t = get_standard_shift l + (case t of PRead \<Rightarrow> 0 | PWrite \<Rightarrow> 1 | PExecute \<Rightarrow> 2)"

lemma perm_mask: "push_bit (get_standard_shift l) (get_standard_value t) = (2 :: u64) ^ perm_index l t"
  by (cases t) (simp_all add: perm_bits perm_index_def push_bit_eq_mult power_add)

lemma perm_index_inj: "perm_index l t = perm_index l' t' \<longleftrightarrow> l = l' \<and> t = t'"
  by (cases l; cases l'; cases t; cases t'; simp add: perm_index_def)

lemma perm_index_less: "perm_index l t < 64"
  by (cases l; cases t; simp add: perm_index_def)

lemma perm_can_bit: "perm_can p l t \<longleftrightarrow> bit p (perm_index l t)"
  by (simp add: perm_can_def perm_mask and_exp_eq_0_iff_not_bit)

lemma perm_can_set: "perm_can (perm_set p l t) l' t' \<longleftrightarrow> l = l' \<and> t = t' \<or> perm_can p l' t'"
proof -
  have "bit (2 ^ perm_index l t :: u64) (perm_index l' t') \<longleftrightarrow> perm_index l t = perm_index l' t'"
    using perm_index_less [of l t] by (auto simp: bit_exp_iff)
  then show ?thesis
    by (auto simp: perm_can_bit perm_set_def perm_mask bit_or_iff perm_index_inj)
qed

lemma perm_can_zero: "\<not> perm_can 0 l t"
  by (simp add: perm_can_def)

lemma perm_can_fold:
  "perm_can (fold (\<lambda>(level, permission) p. perm_set p level permission) ps p) l t \<longleftrightarrow> (l, t) \<in> set ps \<or> perm_can p l t"
proof (induction ps arbitrary: p)
  case (Cons a ps)
  obtain l' t' where a: "a = (l', t')" by (cases a)
  show ?case unfolding a by (simp add: Cons perm_can_set) blast
qed simp

lemma perm_can_permissions: "perm_can (permissions ps) l t \<longleftrightarrow> (l, t) \<in> set ps"
  by (simp add: permissions_def perm_can_fold perm_can_zero)

lemma to_digit_char: "d < 10 \<Longrightarrow> to_digit (char_of (48 + d)) = Some d"
  by (simp add: to_digit_def of_char_of)

lemma decimal_loop_append:
  "decimal_loop r (xs @ ys) = (case decimal_loop r xs of None \<Rightarrow> None | Some r' \<Rightarrow> decimal_loop r' ys)"
  by (induction r xs rule: decimal_loop.induct) (auto split: option.splits)

lemma decimal_to_string: "n < 2 ^ 64 \<Longrightarrow> decimal_loop 0 (to_string n) = Some n"
proof (induction n rule: to_string.induct)
  case (1 n)
  show ?case
  proof (cases "n < 10")
    case True
    then show ?thesis by (subst to_string.simps) (simp add: to_digit_char checked_mul_add_def)
  next
    case False
    have d: "n div 10 * 10 + n mod 10 = n" by simp
    then have "checked_mul_add (n div 10) (n mod 10) = Some n" using "1.prems" unfolding checked_mul_add_def d by simp
    moreover have "decimal_loop 0 (to_string (n div 10)) = Some (n div 10)" using 1 False by simp
    ultimately show ?thesis using False
      by (subst to_string.simps) (simp add: decimal_loop_append to_digit_char)
  qed
qed

lemma to_string_nonempty: "to_string n \<noteq> []"
  by (subst to_string.simps) simp

lemma decimal_loop_bound: "decimal_loop r cs = Some n \<Longrightarrow> r < 2 ^ 64 \<Longrightarrow> n < 2 ^ 64"
  by (induction r cs rule: decimal_loop.induct) (auto simp: checked_mul_add_def split: option.splits if_splits)

end
