(* ===== verification/PipeFs.thy ===== *)
theory PipeFs
  imports Pipe Data_Utils
begin

text \<open>
  The file system of \<^verbatim>\<open>drivers/fs/virt/pipefs.rs\<close>: every pipe is a directory with a file
  \<^verbatim>\<open>r\<close> and a file \<^verbatim>\<open>w\<close>; opening them counts readers and writers, closing the
  last one of either kind closes the pipe, and closing the last handle removes it.

  A pipe is shared (\<^verbatim>\<open>Arc<RwLock<Pipe>>\<close>) by the directory and by the handles: \<open>pf_arcs\<close>
  is the store of the shared pipes, and a reference is the identifier the pipe was created with
  (\<^verbatim>\<open>create_child\<close> makes one \<^verbatim>\<open>Arc\<close> for every identifier). The address of a new
  handle comes from the kernel heap and is an argument of \<open>fopen\<close>.
\<close>

section \<open>The file system\<close>

record PipeFsHandle =
  ph_pipe :: nat
  ph_mode :: PipeMode
  ph_pipe_id :: nat

record PipeFs =
  pf_os_id :: nat
  pf_parent_fs_os_id :: nat
  pf_mnt :: "VfsFile option"
  pf_root_fs :: "nat option"
  pf_pipes :: "(nat \<times> nat) list"
  pf_arcs :: "nat \<Rightarrow> Pipe"
  pf_handles :: "PipeFsHandle FileHandleAllocator"
  pf_next_pipe_id :: nat

definition pipefs_init :: PipeFs where
  "pipefs_init = \<lparr>pf_os_id = 0, pf_parent_fs_os_id = 0, pf_mnt = None, pf_root_fs = None, pf_pipes = [],
     pf_arcs = (\<lambda>_. new_anonymous 0), pf_handles = Map.empty, pf_next_pipe_id = 0\<rparr>"

definition pipefs_get_root :: "PipeFs \<Rightarrow> VfsFile" where
  "pipefs_get_root s = \<lparr>vf_kind = KDirectory, vf_name = ''/'', vf_size = 0, vf_parent_fs = pf_parent_fs_os_id s,
     vf_fs = pf_os_id s, vf_specific = PipeSpecific PipefsRoot\<rparr>"

definition downcast_pipe :: "VfsFile \<Rightarrow> PipeFsSpecificFileData vresult" where
  "downcast_pipe f = (case vf_specific f of PipeSpecific d \<Rightarrow> Inr d | _ \<Rightarrow> Inl FileSystemMismatch)"

definition pipe_file :: "PipeFs \<Rightarrow> nat \<Rightarrow> nat \<Rightarrow> PipeMode \<Rightarrow> string \<Rightarrow> VfsFile" where
  "pipe_file s arc pid mode name = \<lparr>vf_kind = KPipe arc mode pid, vf_name = name, vf_size = 0,
     vf_parent_fs = pf_os_id s, vf_fs = pf_os_id s,
     vf_specific = PipeSpecific (case mode of PipeRead \<Rightarrow> PipefsRead pid | PipeWrite \<Rightarrow> PipefsWrite pid)\<rparr>"

definition pipe_dir :: "PipeFs \<Rightarrow> nat \<Rightarrow> string \<Rightarrow> VfsFile" where
  "pipe_dir s pid name = \<lparr>vf_kind = KDirectory, vf_name = name, vf_size = 0, vf_parent_fs = pf_os_id s,
     vf_fs = pf_os_id s, vf_specific = PipeSpecific (PipefsDir pid)\<rparr>"

definition pipefs_get_child :: "PipeFs \<Rightarrow> VfsFile \<Rightarrow> string \<Rightarrow> VfsFile vresult" where
  "pipefs_get_child s f child =
     (if vf_fs f \<noteq> pf_os_id s then Inl FileSystemMismatch
      else if vf_name f = ''/'' then
        result_bind (ok_or (decimal_chars_to_u64 child) PathNotFound) (\<lambda>pid.
          if map_of (pf_pipes s) pid \<noteq> None then Inr (pipe_dir s pid child) else Inl PathNotFound)
      else
        result_bind (downcast_pipe f) (\<lambda>data.
          case data of
            PipefsDir pid \<Rightarrow>
              (case map_of (pf_pipes s) pid of
                 Some arc \<Rightarrow>
                   (if child = ''r'' then Inr (pipe_file s arc pid PipeRead child)
                    else if child = ''w'' then Inr (pipe_file s arc pid PipeWrite child)
                    else Inl PathNotFound)
               | None \<Rightarrow> Inl PathNotFound)
          | _ \<Rightarrow> Inl PathNotFound))"

definition pipefs_list_children :: "PipeFs \<Rightarrow> VfsFile \<Rightarrow> VfsFile list vresult" where
  "pipefs_list_children s f =
     (if vf_fs f \<noteq> pf_os_id s then Inl FileSystemMismatch
      else if vf_name f = ''/'' then Inr (map (\<lambda>(pid, _). pipe_dir s pid ''/'') (pf_pipes s))
      else
        result_bind (downcast_pipe f) (\<lambda>data.
          case data of
            PipefsDir pid \<Rightarrow>
              (case map_of (pf_pipes s) pid of
                 Some arc \<Rightarrow> Inr [pipe_file s arc pid PipeRead ''r'', pipe_file s arc pid PipeWrite ''w'']
               | None \<Rightarrow> Inl PathNotFound)
          | _ \<Rightarrow> Inl PathNotFound))"

definition PERM_OWNER_READ :: u64 where
  "PERM_OWNER_READ = permissions [(Owner, PRead)]"

definition PERM_OWNER_WRITE :: u64 where
  "PERM_OWNER_WRITE = permissions [(Owner, PWrite)]"

definition PERM_OWNER_READ_WRITE :: u64 where
  "PERM_OWNER_READ_WRITE = permissions [(Owner, PRead), (Owner, PWrite)]"

definition pipe_stat :: "nat \<Rightarrow> nat \<Rightarrow> nat \<Rightarrow> u64 \<Rightarrow> bool \<Rightarrow> FileStat" where
  "pipe_stat sz created modified perms file =
     \<lparr>st_size = sz, st_created_at = created, st_modified_at = modified, st_permissions = perms,
      st_is_file = file, st_is_directory = \<not> file, st_is_symlink = False, st_owner_id = 0, st_group_id = 0,
      st_flags = FLAG_VIRTUAL OR FLAG_SYSTEM\<rparr>"

definition pipefs_get_stats :: "PipeFs \<Rightarrow> VfsFile \<Rightarrow> FileStat vresult" where
  "pipefs_get_stats s f =
     (if vf_fs f \<noteq> pf_os_id s then Inl FileSystemMismatch
      else result_bind (downcast_pipe f) (\<lambda>data.
        case data of
          PipefsRoot \<Rightarrow> Inr (pipe_stat 0 0 0 PERM_OWNER_READ_WRITE False)
        | PipefsWrite pid \<Rightarrow>
            result_bind (ok_or (map_of (pf_pipes s) pid) PathNotFound) (\<lambda>arc.
              Inr (pipe_stat 0 (p_created_at (pf_arcs s arc)) (p_modified_at (pf_arcs s arc)) PERM_OWNER_WRITE True))
        | PipefsRead pid \<Rightarrow>
            result_bind (ok_or (map_of (pf_pipes s) pid) PathNotFound) (\<lambda>arc.
              Inr (pipe_stat (readable_bytes (pf_arcs s arc)) (p_created_at (pf_arcs s arc))
                     (p_modified_at (pf_arcs s arc)) PERM_OWNER_READ True))
        | PipefsDir pid \<Rightarrow>
            result_bind (ok_or (map_of (pf_pipes s) pid) PathNotFound) (\<lambda>arc.
              Inr (pipe_stat 0 (p_created_at (pf_arcs s arc)) (p_modified_at (pf_arcs s arc))
                     PERM_OWNER_READ_WRITE False))))"

definition pipefs_create_child ::
    "PipeFs \<Rightarrow> VfsFile \<Rightarrow> string \<Rightarrow> VfsFileKind \<Rightarrow> (VfsFile vresult \<times> PipeFs) panics" where
  "pipefs_create_child s directory name kind =
     (if vf_fs directory \<noteq> pf_os_id s then Some (Inl FileSystemMismatch, s)
      else case downcast_pipe directory of
        Inl e \<Rightarrow> Some (Inl e, s)
      | Inr PipefsRoot \<Rightarrow> do {
          next_id \<leftarrow> add64 (pf_next_pipe_id s) 1;
          (let pid = pf_next_pipe_id s in
           Some (Inr \<lparr>vf_kind = kind, vf_name = to_string pid, vf_size = 0,
                      vf_parent_fs = pf_parent_fs_os_id s, vf_fs = pf_os_id s,
                      vf_specific = PipeSpecific (PipefsDir pid)\<rparr>,
                 s\<lparr>pf_next_pipe_id := next_id, pf_pipes := btree_insert pid pid (pf_pipes s),
                   pf_arcs := (pf_arcs s)(pid := new_anonymous (64 * 1024))\<rparr>))
        }
      | Inr _ \<Rightarrow> Some (Inl ActionNotAllowed, s))"

definition pipefs_on_mount :: "PipeFs \<Rightarrow> VfsFile \<Rightarrow> nat \<Rightarrow> nat \<Rightarrow> VfsFile \<times> PipeFs" where
  "pipefs_on_mount s mount_point os_id root_fs =
     (let s' = s\<lparr>pf_root_fs := Some root_fs, pf_parent_fs_os_id := vf_fs mount_point,
                 pf_mnt := Some mount_point, pf_os_id := os_id\<rparr>
      in (pipefs_get_root s', s'))"

definition pipefs_on_unmount :: "PipeFs \<Rightarrow> PipeFs" where
  "pipefs_on_unmount s = s\<lparr>pf_mnt := None, pf_os_id := 0, pf_parent_fs_os_id := 0, pf_handles := Map.empty\<rparr>"

definition bad_pipe_mode :: "PipeMode \<Rightarrow> u64 \<Rightarrow> bool" where
  "bad_pipe_mode pm mode \<longleftrightarrow>
     (case pm of
        PipeRead \<Rightarrow> mode AND OPEN_MODE_READ = 0 \<or> mode AND OPEN_MODE_WRITE \<noteq> 0
      | PipeWrite \<Rightarrow> mode AND OPEN_MODE_READ \<noteq> 0 \<or> mode AND OPEN_MODE_WRITE = 0) \<or>
     mode AND OPEN_MODE_APPEND \<noteq> 0 \<or> mode AND OPEN_MODE_CREATE \<noteq> 0"

definition count_opened :: "PipeMode \<Rightarrow> Pipe \<Rightarrow> Pipe panics" where
  "count_opened pm p =
     (case pm of
        PipeRead \<Rightarrow> do { n \<leftarrow> add64 (p_readers p) 1; Some (p\<lparr>p_readers := n\<rparr>) }
      | PipeWrite \<Rightarrow> do { n \<leftarrow> add64 (p_writers p) 1; Some (p\<lparr>p_writers := n\<rparr>) })"

definition open_pipe_end ::
    "PipeFs \<Rightarrow> nat \<Rightarrow> PipeMode \<Rightarrow> u64 \<Rightarrow> nat \<Rightarrow> (nat vresult \<times> PipeFs) panics" where
  "open_pipe_end s pid pm mode addr =
     (if bad_pipe_mode pm mode then Some (Inl InvalidOpenMode, s)
      else if mode AND OPEN_MODE_FAIL_IF_EXISTS \<noteq> 0 then Some (Inl FileAlreadyExists, s)
      else case map_of (pf_pipes s) pid of
        None \<Rightarrow> Some (Inl PathNotFound, s)
      | Some arc \<Rightarrow>
          (if p_closed (pf_arcs s arc) then Some (Inl PathNotFound, s)
           else do {
             p \<leftarrow> count_opened pm (pf_arcs s arc);
             (let (h, hs) = alloc_file_handle (pf_handles s) addr
                              \<lparr>ph_pipe = arc, ph_mode = pm, ph_pipe_id = pid\<rparr>
              in Some (Inr h, s\<lparr>pf_arcs := (pf_arcs s)(arc := p), pf_handles := hs\<rparr>))
           }))"

definition pipefs_fopen :: "PipeFs \<Rightarrow> VfsFile \<Rightarrow> u64 \<Rightarrow> nat \<Rightarrow> (nat vresult \<times> PipeFs) panics" where
  "pipefs_fopen s f mode addr =
     (if vf_fs f \<noteq> pf_os_id s then Some (Inl FileSystemMismatch, s)
      else case downcast_pipe f of
        Inl e \<Rightarrow> Some (Inl e, s)
      | Inr (PipefsRead pid) \<Rightarrow> open_pipe_end s pid PipeRead mode addr
      | Inr (PipefsWrite pid) \<Rightarrow> open_pipe_end s pid PipeWrite mode addr
      | Inr _ \<Rightarrow> Some (Inl NotFile, s))"

definition close_pipe_end :: "PipeFs \<Rightarrow> PipeFsHandle \<Rightarrow> PipeFs panics" where
  "close_pipe_end s h =
     (let p = pf_arcs s (ph_pipe h) in
      if ph_mode h = PipeRead then do {
        n \<leftarrow> sub64 (p_readers p) 1;
        Some (s\<lparr>pf_arcs := (pf_arcs s)(ph_pipe h := p\<lparr>p_readers := n, p_closed := p_closed p \<or> n = 0\<rparr>),
                pf_pipes := (if n = 0 \<and> p_writers p = 0 then btree_remove (ph_pipe_id h) (pf_pipes s) else pf_pipes s)\<rparr>)
      } else do {
        n \<leftarrow> sub64 (p_writers p) 1;
        Some (s\<lparr>pf_arcs := (pf_arcs s)(ph_pipe h := p\<lparr>p_writers := n, p_closed := p_closed p \<or> n = 0\<rparr>),
                pf_pipes := (if n = 0 \<and> p_readers p = 0 then btree_remove (ph_pipe_id h) (pf_pipes s) else pf_pipes s)\<rparr>)
      })"

definition pipefs_fclose :: "PipeFs \<Rightarrow> nat \<Rightarrow> (unit vresult \<times> PipeFs) panics" where
  "pipefs_fclose s handle =
     (case get_handle_data (pf_handles s) handle of
        None \<Rightarrow> Some (Inl BadHandle, s)
      | Some h \<Rightarrow> do {
          s1 \<leftarrow> close_pipe_end s h;
          (let (freed, hs) = dealloc_file_handle (pf_handles s1) handle
           in Some (if freed then Inr () else Inl BadHandle, s1\<lparr>pf_handles := hs\<rparr>))
        })"

definition pipefs_fread :: "PipeFs \<Rightarrow> nat \<Rightarrow> u8 list \<Rightarrow> ((nat \<times> u8 list) vresult \<times> PipeFs) panics" where
  "pipefs_fread s handle buf =
     (case get_handle_data (pf_handles s) handle of
        None \<Rightarrow> Some (Inl BadHandle, s)
      | Some h \<Rightarrow>
          (if ph_mode h = PipeRead then
             (let p = pf_arcs s (ph_pipe h) in
              if is_empty p then
                (if p_closed p then Some (Inr (0, buf), s) else Some (Inl WouldBlock, s))
              else do {
                (n, buf', p') \<leftarrow> pipe_read p buf;
                Some (Inr (n, buf'), s\<lparr>pf_arcs := (pf_arcs s)(ph_pipe h := p')\<rparr>)
              })
           else Some (Inl ActionNotAllowed, s)))"

definition pipefs_fwrite :: "PipeFs \<Rightarrow> nat \<Rightarrow> u8 list \<Rightarrow> (nat vresult \<times> PipeFs) panics" where
  "pipefs_fwrite s handle buf =
     (case get_handle_data (pf_handles s) handle of
        None \<Rightarrow> Some (Inl BadHandle, s)
      | Some h \<Rightarrow>
          (if ph_mode h = PipeWrite then
             (let p = pf_arcs s (ph_pipe h) in
              if p_readers p = 0 then Some (Inl BrokenPipe, s)
              else if is_full p then Some (Inl WouldBlock, s)
              else do {
                (n, p') \<leftarrow> pipe_write p buf;
                Some (Inr n, s\<lparr>pf_arcs := (pf_arcs s)(ph_pipe h := p')\<rparr>)
              })
           else Some (Inl ActionNotAllowed, s)))"

definition pipefs_fflush :: "PipeFs \<Rightarrow> nat \<Rightarrow> unit vresult" where
  "pipefs_fflush s handle =
     (case get_handle_data (pf_handles s) handle of None \<Rightarrow> Inl BadHandle | Some _ \<Rightarrow> Inr ())"

definition pipefs_fstat :: "PipeFs \<Rightarrow> nat \<Rightarrow> FileStat vresult" where
  "pipefs_fstat s handle =
     (case get_handle_data (pf_handles s) handle of
        None \<Rightarrow> Inl BadHandle
      | Some h \<Rightarrow>
          (let p = pf_arcs s (ph_pipe h) in
           Inr (pipe_stat (case ph_mode h of PipeRead \<Rightarrow> readable_bytes p | PipeWrite \<Rightarrow> 0)
                  (p_created_at p) (p_modified_at p)
                  (case ph_mode h of PipeRead \<Rightarrow> PERM_OWNER_READ | PipeWrite \<Rightarrow> PERM_OWNER_WRITE) True)))"

section \<open>The invariant\<close>

definition open_ends :: "PipeFsHandle FileHandleAllocator \<Rightarrow> nat \<Rightarrow> PipeMode \<Rightarrow> nat set" where
  "open_ends hs arc pm = {h. \<exists>d. hs h = Some d \<and> ph_pipe d = arc \<and> ph_mode d = pm}"

text \<open>
  Unmounting drops the open handles and lowers no count: \<open>L a pm\<close> is the number of ends of
  kind \<open>pm\<close> of the pipe \<open>a\<close> that were dropped so. The counts of a pipe are its open ends and
  its dropped ends.
\<close>

type_synonym dropped_ends = "nat \<Rightarrow> PipeMode \<Rightarrow> nat"

definition pipe_counts :: "dropped_ends \<Rightarrow> PipeFsHandle FileHandleAllocator \<Rightarrow> nat \<Rightarrow> Pipe \<Rightarrow> bool" where
  "pipe_counts L hs arc p \<longleftrightarrow> p_readers p = card (open_ends hs arc PipeRead) + L arc PipeRead \<and>
     p_writers p = card (open_ends hs arc PipeWrite) + L arc PipeWrite \<and> (p_closed p \<longrightarrow> p_readers p = 0 \<or> p_writers p = 0)"

definition pipefs_inv :: "dropped_ends \<Rightarrow> PipeFs \<Rightarrow> bool" where
  "pipefs_inv L s \<longleftrightarrow> finite (dom (pf_handles s)) \<and> dom (pf_handles s) \<subseteq> {1..<2 ^ 64} \<and> sorted (map fst (pf_pipes s)) \<and>
     (\<forall>i a. map_of (pf_pipes s) i = Some a \<longrightarrow> a = i \<and> i < pf_next_pipe_id s \<and> pipe_ok (pf_arcs s a) \<and>
        pipe_counts L (pf_handles s) a (pf_arcs s a)) \<and>
     (\<forall>h d. pf_handles s h = Some d \<longrightarrow> ph_pipe d = ph_pipe_id d \<and> map_of (pf_pipes s) (ph_pipe_id d) = Some (ph_pipe d)) \<and>
     (\<forall>i pm. L i pm \<noteq> 0 \<longrightarrow> map_of (pf_pipes s) i \<noteq> None)"

lemma open_ends_upd:
  "hs h = None \<Longrightarrow> open_ends (hs(h \<mapsto> d)) arc pm =
     (if ph_pipe d = arc \<and> ph_mode d = pm then insert h (open_ends hs arc pm) else open_ends hs arc pm)"
  by (auto simp: open_ends_def split: if_splits)

lemma open_ends_del:
  "hs h = Some d \<Longrightarrow> open_ends (hs(h := None)) arc pm =
     (if ph_pipe d = arc \<and> ph_mode d = pm then open_ends hs arc pm - {h} else open_ends hs arc pm)"
  by (auto simp: open_ends_def split: if_splits)

lemma open_ends_dom: "open_ends hs arc pm \<subseteq> dom hs"
  by (auto simp: open_ends_def)

lemma finite_open_ends: "finite (dom hs) \<Longrightarrow> finite (open_ends hs arc pm)"
  using finite_subset [OF open_ends_dom] .

lemma open_ends_bound:
  assumes "dom hs \<subseteq> {1..<2 ^ 64}"
  shows "card (open_ends hs arc pm) + 1 \<le> 2 ^ 64"
proof -
  have "card (open_ends hs arc pm) \<le> card {1..<2 ^ 64 :: nat}"
    using assms open_ends_dom by (intro card_mono) blast+
  then show ?thesis by simp
qed

lemma pipefs_init_inv: "pipefs_inv (\<lambda>_ _. 0) pipefs_init"
  by (simp add: pipefs_inv_def pipefs_init_def)

lemma inv_pipe:
  assumes "pipefs_inv L s" "map_of (pf_pipes s) i = Some a"
  shows "a = i" "i < pf_next_pipe_id s" "pipe_ok (pf_arcs s a)" "pipe_counts L (pf_handles s) a (pf_arcs s a)"
  using assms unfolding pipefs_inv_def by blast+

lemma inv_handle:
  assumes "pipefs_inv L s" "pf_handles s h = Some d"
  shows "ph_pipe d = ph_pipe_id d" "map_of (pf_pipes s) (ph_pipe_id d) = Some (ph_pipe d)"
  using assms unfolding pipefs_inv_def by blast+

lemma inv_dropped:
  assumes "pipefs_inv L s" "map_of (pf_pipes s) i = None"
  shows "L i pm = 0"
  using assms unfolding pipefs_inv_def by blast

lemma inv_base:
  assumes "pipefs_inv L s"
  shows "finite (dom (pf_handles s))" "dom (pf_handles s) \<subseteq> {1..<2 ^ 64}" "sorted (map fst (pf_pipes s))"
  using assms unfolding pipefs_inv_def by blast+

lemma pipefs_invI:
  assumes "finite (dom (pf_handles s))" "dom (pf_handles s) \<subseteq> {1..<2 ^ 64}" "sorted (map fst (pf_pipes s))"
    and "\<And>i a. map_of (pf_pipes s) i = Some a \<Longrightarrow> a = i \<and> i < pf_next_pipe_id s \<and> pipe_ok (pf_arcs s a) \<and>
        pipe_counts L (pf_handles s) a (pf_arcs s a)"
    and "\<And>h d. pf_handles s h = Some d \<Longrightarrow> ph_pipe d = ph_pipe_id d \<and> map_of (pf_pipes s) (ph_pipe_id d) = Some (ph_pipe d)"
    and "\<And>i pm. map_of (pf_pipes s) i = None \<Longrightarrow> L i pm = 0"
  shows "pipefs_inv L s"
  unfolding pipefs_inv_def using assms(1-3) by (intro conjI allI impI notI) (use assms(4-6) in auto)

lemma pipefs_inv_arc:
  assumes inv: "pipefs_inv L s"
    and p: "pipe_ok p" "p_readers p = p_readers (pf_arcs s x)" "p_writers p = p_writers (pf_arcs s x)"
      "p_closed p = p_closed (pf_arcs s x)"
  shows "pipefs_inv L (s\<lparr>pf_arcs := (pf_arcs s)(x := p)\<rparr>)"
proof (rule pipefs_invI, goal_cases)
  case (4 i a)
  then have m: "map_of (pf_pipes s) i = Some a" by simp
  show ?case using inv_pipe [OF inv m] p by (cases "a = x") (auto simp: pipe_counts_def)
next
  case (5 h d)
  then show ?case using inv_handle [OF inv] by simp
qed (use inv_base [OF inv] inv_dropped [OF inv] in simp_all)

lemma create_child_inv:
  assumes inv: "pipefs_inv L s" and r: "pipefs_create_child s dir nm k = Some (r, s')"
  shows "pipefs_inv L s'"
proof (cases "s' = s")
  case False
  let ?i = "pf_next_pipe_id s"
  have s': "s' = s\<lparr>pf_next_pipe_id := ?i + 1, pf_pipes := btree_insert ?i ?i (pf_pipes s),
      pf_arcs := (pf_arcs s)(?i := new_anonymous (64 * 1024))\<rparr>"
    using r False
    by (auto simp: pipefs_create_child_def add64_def Let_def split: if_splits sum.splits PipeFsSpecificFileData.splits)
  have srt: "sorted (map fst (pf_pipes s))" using inv_base [OF inv] by blast
  have none: "map_of (pf_pipes s) ?i = None" using inv_pipe(2) [OF inv, of ?i] by (cases "map_of (pf_pipes s) ?i") auto
  have "open_ends (pf_handles s) ?i pm = {}" for pm
    using inv_handle [OF inv] none by (fastforce simp: open_ends_def)
  moreover have "L ?i pm = 0" for pm using inv_dropped [OF inv none] .
  ultimately have new: "pipe_counts L (pf_handles s) ?i (new_anonymous 65536)" "pipe_ok (new_anonymous 65536)"
    using new_anonymous_ok by (auto simp: pipe_counts_def new_anonymous_def)
  show ?thesis unfolding s'
  proof (rule pipefs_invI, goal_cases)
    case (4 i a)
    show ?case
    proof (cases "i = ?i")
      case True
      then show ?thesis using 4 new by (simp add: map_of_btree_insert [OF srt])
    next
      case False
      then have m: "map_of (pf_pipes s) i = Some a" using 4 by (simp add: map_of_btree_insert [OF srt])
      then show ?thesis using inv_pipe [OF inv m] False by auto
    qed
  next
    case (5 h d)
    then show ?case using inv_handle [OF inv, of h d] none by (auto simp: map_of_btree_insert [OF srt])
  qed (use inv_base [OF inv] inv_dropped [OF inv] sorted_btree_insert [OF srt] in
        \<open>simp_all add: map_of_btree_insert [OF srt] split: if_splits\<close>)
qed (use inv in simp)

lemma count_opened_ok:
  assumes "pipe_counts L hs arc p" "finite (dom hs)" "hs h = None" "\<not> p_closed p" "count_opened pm p = Some p'"
    and d: "ph_pipe d = arc" "ph_mode d = pm"
  shows "pipe_counts L (hs(h \<mapsto> d)) arc p' \<and> p_data p' = p_data p \<and>
    p_data_len p' = p_data_len p \<and> p_read_pos p' = p_read_pos p \<and> p_write_pos p' = p_write_pos p \<and> p_closed p' = p_closed p"
proof -
  have f: "finite (open_ends hs arc m)" for m using finite_open_ends [OF assms(2)] .
  have n: "h \<notin> open_ends hs arc m" for m using assms(3) by (auto simp: open_ends_def)
  have c: "card (open_ends (hs(h \<mapsto> d)) arc pm) = card (open_ends hs arc pm) + 1"
    using open_ends_upd [where h = h and hs = hs, OF assms(3)] d f n by simp
  show ?thesis
    using assms(1,4,5) c d open_ends_upd [where h = h and hs = hs, OF assms(3)]
    by (cases pm) (auto simp: count_opened_def add64_def pipe_counts_def split: if_splits)
qed

lemma open_pipe_end_inv:
  assumes inv: "pipefs_inv L s" and a: "pf_handles s addr = None" "1 \<le> addr" "addr < 2 ^ 64"
    and r: "open_pipe_end s pid pm mode addr = Some (r, s')"
  shows "pipefs_inv L s' \<and>
    (case r of Inl e \<Rightarrow> s' = s
     | Inr h \<Rightarrow> h = addr \<and> pf_handles s' = (pf_handles s)(addr \<mapsto> \<lparr>ph_pipe = pid, ph_mode = pm, ph_pipe_id = pid\<rparr>) \<and>
         pf_pipes s' = pf_pipes s \<and> pipe_queue (pf_arcs s' pid) = pipe_queue (pf_arcs s pid) \<and> pf_os_id s' = pf_os_id s)"
proof (cases "bad_pipe_mode pm mode \<or> mode AND OPEN_MODE_FAIL_IF_EXISTS \<noteq> 0 \<or> map_of (pf_pipes s) pid = None \<or>
      p_closed (pf_arcs s pid)")
  case True
  then have "\<exists>e. r = Inl e \<and> s' = s"
    using r inv_pipe(1) [OF inv, of pid] by (auto simp: open_pipe_end_def split: option.splits if_splits)
  then show ?thesis using inv by auto
next
  case False
  then obtain arc where m: "map_of (pf_pipes s) pid = Some arc" by auto
  have arc: "arc = pid" using inv_pipe(1) [OF inv m] .
  let ?d = "\<lparr>ph_pipe = pid, ph_mode = pm, ph_pipe_id = pid\<rparr>"
  obtain p where c: "count_opened pm (pf_arcs s pid) = Some p"
    using r False m arc by (auto simp: open_pipe_end_def Let_def split: bind_splits)
  have p: "pipe_counts L ((pf_handles s)(addr \<mapsto> ?d)) pid p"
      "p_data p = p_data (pf_arcs s pid)" "p_data_len p = p_data_len (pf_arcs s pid)"
      "p_read_pos p = p_read_pos (pf_arcs s pid)" "p_write_pos p = p_write_pos (pf_arcs s pid)"
    using count_opened_ok [where hs = "pf_handles s" and h = addr and d = ?d and arc = pid, OF _ _ a(1) _ c] inv_pipe [OF inv m] inv_base [OF inv] False arc by auto
  let ?s = "s\<lparr>pf_arcs := (pf_arcs s)(pid := p), pf_handles := (pf_handles s)(addr \<mapsto> ?d)\<rparr>"
  have e: "open_pipe_end s pid pm mode addr = Some (Inr addr, ?s)"
    using False m c arc by (simp add: open_pipe_end_def alloc_file_handle_def)
  have ok: "pipe_ok p" using inv_pipe(3) [OF inv m] p(2-5) arc by (simp add: pipe_ok_def)
  have "pipefs_inv L ?s"
  proof (rule pipefs_invI, goal_cases)
    case (4 i x)
    then have mi: "map_of (pf_pipes s) i = Some x" by simp
    have "pipe_counts L ((pf_handles s)(addr \<mapsto> ?d)) x q = pipe_counts L (pf_handles s) x q" if "x \<noteq> pid" for q
      using that by (simp add: pipe_counts_def open_ends_upd [where hs = "pf_handles s", OF a(1)])
    then show ?case using inv_pipe [OF inv mi] ok p(1) by (cases "x = pid") auto
  next
    case (5 h d)
    then show ?case using inv_handle [OF inv, of h d] m arc by (auto split: if_splits)
  qed (use inv_base [OF inv] inv_dropped [OF inv] a in auto)
  moreover have "pipe_queue p = pipe_queue (pf_arcs s pid)" using p(2-4) by (simp add: pipe_queue_def)
  ultimately show ?thesis using e r by auto
qed

lemma pipefs_fopen_inv:
  assumes inv: "pipefs_inv L s" and a: "pf_handles s addr = None" "1 \<le> addr" "addr < 2 ^ 64"
    and r: "pipefs_fopen s f mode addr = Some (r, s')"
  shows "pipefs_inv L s'"
  using r inv open_pipe_end_inv [OF inv a]
  by (auto simp: pipefs_fopen_def split: if_splits sum.splits PipeFsSpecificFileData.splits)

definition count_of :: "PipeMode \<Rightarrow> Pipe \<Rightarrow> nat" where
  "count_of pm p = (case pm of PipeRead \<Rightarrow> p_readers p | PipeWrite \<Rightarrow> p_writers p)"

definition other_end :: "PipeMode \<Rightarrow> PipeMode" where
  "other_end pm = (case pm of PipeRead \<Rightarrow> PipeWrite | PipeWrite \<Rightarrow> PipeRead)"

definition pipe_closing :: "PipeMode \<Rightarrow> Pipe \<Rightarrow> Pipe" where
  "pipe_closing pm p =
     (case pm of
        PipeRead \<Rightarrow> p\<lparr>p_readers := p_readers p - 1, p_closed := p_closed p \<or> p_readers p - 1 = 0\<rparr>
      | PipeWrite \<Rightarrow> p\<lparr>p_writers := p_writers p - 1, p_closed := p_closed p \<or> p_writers p - 1 = 0\<rparr>)"

lemma open_end_counted:
  assumes "pipefs_inv L s" "pf_handles s h = Some d"
  shows "1 \<le> card (open_ends (pf_handles s) (ph_pipe d) (ph_mode d))"
proof -
  have "h \<in> open_ends (pf_handles s) (ph_pipe d) (ph_mode d)" using assms(2) by (auto simp: open_ends_def)
  then have "0 < card (open_ends (pf_handles s) (ph_pipe d) (ph_mode d))"
    using finite_open_ends [OF inv_base(1) [OF assms(1)]] by (auto simp: card_gt_0_iff)
  then show ?thesis by simp
qed

lemma fclose_eq:
  assumes inv: "pipefs_inv L s" and h: "pf_handles s h = Some d"
  shows "pipefs_fclose s h = Some (Inr (), s\<lparr>
      pf_arcs := (pf_arcs s)(ph_pipe d := pipe_closing (ph_mode d) (pf_arcs s (ph_pipe d))),
      pf_pipes := (if count_of (ph_mode d) (pf_arcs s (ph_pipe d)) = 1 \<and> count_of (other_end (ph_mode d)) (pf_arcs s (ph_pipe d)) = 0
                   then btree_remove (ph_pipe_id d) (pf_pipes s) else pf_pipes s),
      pf_handles := (pf_handles s)(h := None)\<rparr>)"
proof -
  have c: "pipe_counts L (pf_handles s) (ph_pipe d) (pf_arcs s (ph_pipe d))"
    using inv_pipe(4) [OF inv inv_handle(2) [OF inv h]] .
  have "1 \<le> count_of (ph_mode d) (pf_arcs s (ph_pipe d))"
    using open_end_counted [OF inv h] c by (cases "ph_mode d") (auto simp: pipe_counts_def count_of_def)
  then show ?thesis using h
    by (cases "ph_mode d")
      (auto simp: pipefs_fclose_def close_pipe_end_def get_handle_data_def sub64_def dealloc_file_handle_def
        count_of_def other_end_def pipe_closing_def Let_def)
qed

lemma pipe_closing_ok: "pipe_ok p \<Longrightarrow> pipe_ok (pipe_closing pm p)"
  by (cases pm) (auto simp: pipe_ok_def pipe_closing_def)

lemma pipe_closing_counts:
  assumes c: "pipe_counts L hs arc p" and h: "hs h = Some d" "ph_pipe d = arc" "finite (dom hs)"
  shows "pipe_counts L (hs(h := None)) arc (pipe_closing (ph_mode d) p)"
proof -
  have m: "h \<in> open_ends hs arc (ph_mode d)" using h by (auto simp: open_ends_def)
  have "card (open_ends hs arc (ph_mode d) - {h}) = card (open_ends hs arc (ph_mode d)) - 1"
    "0 < card (open_ends hs arc (ph_mode d))"
    using m finite_open_ends [OF h(3)] by (auto simp: card_gt_0_iff)
  then show ?thesis using c h open_ends_del [where hs = hs, OF h(1)]
    by (cases "ph_mode d") (auto simp: pipe_counts_def pipe_closing_def)
qed

lemma fclose_inv:
  assumes inv: "pipefs_inv L s" and h: "pf_handles s h = Some d"
  shows "\<exists>s'. pipefs_fclose s h = Some (Inr (), s') \<and> pipefs_inv L s' \<and> pf_handles s' = (pf_handles s)(h := None)"
proof -
  let ?p = "pf_arcs s (ph_pipe d)"
  let ?last = "count_of (ph_mode d) ?p = 1 \<and> count_of (other_end (ph_mode d)) ?p = 0"
  let ?s = "s\<lparr>pf_arcs := (pf_arcs s)(ph_pipe d := pipe_closing (ph_mode d) ?p),
      pf_pipes := (if ?last then btree_remove (ph_pipe_id d) (pf_pipes s) else pf_pipes s),
      pf_handles := (pf_handles s)(h := None)\<rparr>"
  note ih = inv_handle [OF inv h]
  note ip = inv_pipe [OF inv ih(2)]
  have mo: "map_of (pf_pipes ?s) i = (if ?last \<and> i = ph_pipe_id d then None else map_of (pf_pipes s) i)" for i
    by (simp add: map_of_btree_remove)
  have "pipefs_inv L ?s"
  proof (rule pipefs_invI, goal_cases)
    case 3
    then show ?case using inv_base(3) [OF inv] sorted_btree_remove by auto
  next
    case (4 i x)
    then have mi: "map_of (pf_pipes s) i = Some x" unfolding mo by (auto split: if_splits)
    have "pipe_counts L ((pf_handles s)(h := None)) x q = pipe_counts L (pf_handles s) x q" if "x \<noteq> ph_pipe d" for q
      using that by (simp add: pipe_counts_def open_ends_del [where hs = "pf_handles s", OF h])
    then show ?case
      using inv_pipe [OF inv mi] pipe_closing_ok [OF ip(3)] pipe_closing_counts [OF ip(4) h refl inv_base(1) [OF inv]]
      by (cases "x = ph_pipe d") auto
  next
    case (5 h' d')
    then have h': "h' \<noteq> h" "pf_handles s h' = Some d'" by (auto split: if_splits)
    have "\<not> (?last \<and> ph_pipe_id d' = ph_pipe_id d)"
    proof
      assume last: "?last \<and> ph_pipe_id d' = ph_pipe_id d"
      then have same: "ph_pipe d' = ph_pipe d" using inv_handle(1) [OF inv h'(2)] ih(1) by simp
      then have e: "h' \<in> open_ends (pf_handles s) (ph_pipe d) (ph_mode d')" using h' by (auto simp: open_ends_def)
      have e0: "h \<in> open_ends (pf_handles s) (ph_pipe d) (ph_mode d)" using h by (auto simp: open_ends_def)
      have cnt: "card (open_ends (pf_handles s) (ph_pipe d) pm) \<le> count_of pm ?p" for pm
        using ip(4) by (cases pm) (auto simp: pipe_counts_def count_of_def)
      have fin: "finite (open_ends (pf_handles s) (ph_pipe d) pm)" for pm
        using finite_open_ends [OF inv_base(1) [OF inv]] .
      show False
      proof (cases "ph_mode d' = ph_mode d")
        case True
        have "{h, h'} \<subseteq> open_ends (pf_handles s) (ph_pipe d) (ph_mode d)" using e e0 True by auto
        then have "card {h, h'} \<le> 1" using card_mono [OF fin] cnt last by (metis le_trans)
        then show False using h'(1) by simp
      next
        case False
        then have "ph_mode d' = other_end (ph_mode d)" by (cases "ph_mode d"; cases "ph_mode d'") (auto simp: other_end_def)
        then have "open_ends (pf_handles s) (ph_pipe d) (ph_mode d') = {}" using cnt fin last by (metis card_0_eq le_zero_eq)
        then show False using e by blast
      qed
    qed
    then show ?case using inv_handle [OF inv h'(2)] unfolding mo by simp
  next
    case (6 i pm)
    show ?case
    proof (cases "map_of (pf_pipes s) i")
      case (Some x)
      then have "?last" "i = ph_pipe_id d" using 6 unfolding mo by (auto split: if_splits)
      moreover have "1 \<le> card (open_ends (pf_handles s) (ph_pipe d) (ph_mode d))" using open_end_counted [OF inv h] .
      ultimately show ?thesis using ip(4) ih(1)
        by (cases pm; cases "ph_mode d") (auto simp: pipe_counts_def count_of_def other_end_def)
    qed (use inv_dropped [OF inv] in simp)
  qed (use inv_base [OF inv] in auto)
  then show ?thesis using fclose_eq [OF inv h] by simp
qed

lemma fread_inv:
  assumes inv: "pipefs_inv L s"
  shows "\<exists>r s'. pipefs_fread s h buf = Some (r, s') \<and> pipefs_inv L s'"
proof (cases "pf_handles s h")
  case None
  then show ?thesis using inv by (simp add: pipefs_fread_def get_handle_data_def)
next
  case (Some d)
  let ?p = "pf_arcs s (ph_pipe d)"
  have ok: "pipe_ok ?p" using inv_pipe(3) [OF inv inv_handle(2) [OF inv Some]] .
  obtain n b p where p: "pipe_read ?p buf = Some (n, b, p)" "pipe_ok p" "p = pipe_after_read ?p n"
    using pipe_read_eq [OF ok refl] pipe_after_read_queue(1) [OF ok] by fastforce
  have "pipefs_inv L (s\<lparr>pf_arcs := (pf_arcs s)(ph_pipe d := p)\<rparr>)"
    using p by (intro pipefs_inv_arc [OF inv]) (auto simp: pipe_after_read_def)
  then show ?thesis using inv Some p(1)
    by (auto simp: pipefs_fread_def get_handle_data_def Let_def)
qed

lemma fwrite_inv:
  assumes inv: "pipefs_inv L s"
  shows "\<exists>r s'. pipefs_fwrite s h buf = Some (r, s') \<and> pipefs_inv L s'"
proof (cases "pf_handles s h")
  case None
  then show ?thesis using inv by (simp add: pipefs_fwrite_def get_handle_data_def)
next
  case (Some d)
  let ?p = "pf_arcs s (ph_pipe d)"
  have ok: "pipe_ok ?p" using inv_pipe(3) [OF inv inv_handle(2) [OF inv Some]] .
  let ?n = "min (length (p_data ?p) - p_data_len ?p) (length buf)"
  obtain d' where p: "pipe_write ?p buf = Some (?n, pipe_after_write ?p d' (take ?n buf))"
      "ring_put (p_data ?p) (p_write_pos ?p) (take ?n buf) d'"
    using pipe_write_eq [OF ok refl] by blast
  have "p_data_len ?p + length (take ?n buf) \<le> length (p_data ?p)" using ok by (auto simp: pipe_ok_def)
  then have "pipefs_inv L (s\<lparr>pf_arcs := (pf_arcs s)(ph_pipe d := pipe_after_write ?p d' (take ?n buf))\<rparr>)"
    using pipe_after_write_queue(1) [OF ok _ p(2)]
    by (intro pipefs_inv_arc [OF inv]) (auto simp: pipe_after_write_def)
  then show ?thesis using inv Some p(1)
    by (auto simp: pipefs_fwrite_def get_handle_data_def Let_def)
qed

section \<open>Reachable states\<close>

text \<open>
  A file system and the ends its unmounts have dropped so far. \<^verbatim>\<open>on_pre_unmount\<close> never
  refuses, so an unmount can happen in every state.
\<close>

inductive pipefs_history :: "PipeFs \<Rightarrow> dropped_ends \<Rightarrow> bool" where
  init: "pipefs_history pipefs_init (\<lambda>_ _. 0)"
| mount: "pipefs_history s L \<Longrightarrow> pipefs_on_mount s mp os_id root = (f, s') \<Longrightarrow> pipefs_history s' L"
| unmount: "pipefs_history s L \<Longrightarrow>
    pipefs_history (pipefs_on_unmount s) (\<lambda>a pm. L a pm + card (open_ends (pf_handles s) a pm))"
| create: "pipefs_history s L \<Longrightarrow> pipefs_create_child s dir nm k = Some (r, s') \<Longrightarrow> pipefs_history s' L"
| fopen: "pipefs_history s L \<Longrightarrow> pf_handles s addr = None \<Longrightarrow> 1 \<le> addr \<Longrightarrow> addr < 2 ^ 64 \<Longrightarrow>
    pipefs_fopen s f mode addr = Some (r, s') \<Longrightarrow> pipefs_history s' L"
| fclose: "pipefs_history s L \<Longrightarrow> pipefs_fclose s h = Some (c, s') \<Longrightarrow> pipefs_history s' L"
| fread: "pipefs_history s L \<Longrightarrow> pipefs_fread s h buf = Some (x, s') \<Longrightarrow> pipefs_history s' L"
| fwrite: "pipefs_history s L \<Longrightarrow> pipefs_fwrite s h buf = Some (y, s') \<Longrightarrow> pipefs_history s' L"

definition pipefs_reachable :: "PipeFs \<Rightarrow> bool" where
  "pipefs_reachable s \<longleftrightarrow> (\<exists>L. pipefs_history s L)"

lemma on_unmount_inv:
  assumes inv: "pipefs_inv L s"
  shows "pipefs_inv (\<lambda>a pm. L a pm + card (open_ends (pf_handles s) a pm)) (pipefs_on_unmount s)"
proof (rule pipefs_invI, goal_cases)
  case (4 i a)
  then have m: "map_of (pf_pipes s) i = Some a" by (simp add: pipefs_on_unmount_def)
  show ?case using inv_pipe [OF inv m]
    by (auto simp: pipe_counts_def pipefs_on_unmount_def open_ends_def [of Map.empty])
next
  case (6 i pm)
  then have m: "map_of (pf_pipes s) i = None" by (simp add: pipefs_on_unmount_def)
  then have "open_ends (pf_handles s) i pm = {}" using inv_handle [OF inv] by (fastforce simp: open_ends_def)
  then show ?case using inv_dropped [OF inv m] by simp
qed (use inv_base [OF inv] in \<open>simp_all add: pipefs_on_unmount_def\<close>)

lemma pipefs_history_inv: "pipefs_history s L \<Longrightarrow> pipefs_inv L s"
proof (induction rule: pipefs_history.induct)
  case init
  then show ?case by (rule pipefs_init_inv)
next
  case (mount s L mp os_id root f s')
  then show ?case by (auto simp: pipefs_on_mount_def pipefs_inv_def Let_def)
next
  case (unmount s L)
  then show ?case by (intro on_unmount_inv)
next
  case (create s L dir nm k r s')
  then show ?case using create_child_inv by blast
next
  case (fopen s L addr f mode r s')
  then show ?case using pipefs_fopen_inv by blast
next
  case (fclose s L h c s')
  then show ?case using fclose_inv [of L s h]
    by (cases "pf_handles s h") (auto simp: pipefs_fclose_def get_handle_data_def)
next
  case (fread s L h buf x s')
  then show ?case using fread_inv [of L s h buf] by auto
next
  case (fwrite s L h buf y s')
  then show ?case using fwrite_inv [of L s h buf] by auto
qed

lemma pipefs_reachable_inv: "pipefs_reachable s \<Longrightarrow> \<exists>L. pipefs_inv L s"
  using pipefs_history_inv unfolding pipefs_reachable_def by blast

text \<open>
  C13: In every state of the pipe file system reachable by mounting, unmounting (at any time, since
  on_pre_unmount never refuses), creating, opening, closing, reading and writing, the reader
  and writer counts of a registered pipe are the numbers of its open handles of each kind plus
  the numbers of handles that unmounting dropped while they were open, which no operation
  lowers any more; every open handle's pipe is registered, and closing, reading and writing
  never panic. Without an unmount under open handles the counts are the numbers of open
  handles.
\<close>

theorem pipefs_counts_exact:
  assumes "pipefs_history s L"
  shows "(\<forall>i a. map_of (pf_pipes s) i = Some a \<longrightarrow>
      p_readers (pf_arcs s a) = card {h. \<exists>d. pf_handles s h = Some d \<and> ph_pipe d = a \<and> ph_mode d = PipeRead} + L a PipeRead \<and>
      p_writers (pf_arcs s a) = card {h. \<exists>d. pf_handles s h = Some d \<and> ph_pipe d = a \<and> ph_mode d = PipeWrite} + L a PipeWrite) \<and>
    (\<forall>h d. pf_handles s h = Some d \<longrightarrow> map_of (pf_pipes s) (ph_pipe_id d) = Some (ph_pipe d)) \<and>
    (\<forall>h. \<exists>r s'. pipefs_fclose s h = Some (r, s')) \<and>
    (\<forall>h buf. \<exists>r s'. pipefs_fread s h buf = Some (r, s')) \<and>
    (\<forall>h buf. \<exists>r s'. pipefs_fwrite s h buf = Some (r, s'))"
proof -
  have inv: "pipefs_inv L s" using pipefs_history_inv [OF assms] .
  have "\<exists>r s'. pipefs_fclose s h = Some (r, s')" for h
    using fclose_inv [OF inv, of h] by (cases "pf_handles s h") (auto simp: pipefs_fclose_def get_handle_data_def)
  moreover have "\<exists>r s'. pipefs_fread s h buf = Some (r, s')" "\<exists>r s'. pipefs_fwrite s h buf = Some (r, s')" for h buf
    using fread_inv [OF inv, of h buf] fwrite_inv [OF inv, of h buf] by blast+
  moreover have "pipe_counts L (pf_handles s) a (pf_arcs s a)" if "map_of (pf_pipes s) i = Some a" for i a
    using inv_pipe(4) [OF inv that] .
  ultimately show ?thesis using inv_handle(2) [OF inv] unfolding pipe_counts_def open_ends_def by blast
qed

definition no_open_end :: "PipeFs \<Rightarrow> nat \<Rightarrow> PipeMode \<Rightarrow> bool" where
  "no_open_end s a pm \<longleftrightarrow> (\<forall>h d. pf_handles s h = Some d \<and> ph_pipe d = a \<longrightarrow> ph_mode d \<noteq> pm)"

lemma card_open_ends:
  assumes "pipefs_inv L s"
  shows "card (open_ends (pf_handles s) a pm) = 0 \<longleftrightarrow> no_open_end s a pm"
  using finite_open_ends [OF inv_base(1) [OF assms], of a pm] by (auto simp: open_ends_def no_open_end_def)

lemma fread_zero:
  assumes inv: "pipefs_inv L s" and h: "pf_handles s h = Some d" "ph_mode d = PipeRead" "0 < length buf"
    and r: "pipefs_fread s h buf = Some (Inr (0, b), s')"
  shows "no_open_end s (ph_pipe d) PipeWrite \<and> L (ph_pipe d) PipeWrite = 0 \<and> pipe_queue (pf_arcs s (ph_pipe d)) = []"
proof -
  let ?p = "pf_arcs s (ph_pipe d)"
  note ip = inv_pipe [OF inv inv_handle(2) [OF inv h(1)]]
  have e: "p_data_len ?p = 0"
    using r h pipe_read_eq [OF ip(3) refl, of buf]
    by (auto simp: pipefs_fread_def get_handle_data_def is_empty_def Let_def min_def split: if_splits)
  then have "p_closed ?p"
    using r h by (auto simp: pipefs_fread_def get_handle_data_def is_empty_def Let_def split: if_splits)
  then have "p_writers ?p = 0" using ip(4) open_end_counted [OF inv h(1)] h(2) unfolding pipe_counts_def by auto
  then show ?thesis using ip(4) card_open_ends [OF inv, of "ph_pipe d" PipeWrite] e
    unfolding pipe_counts_def by (auto simp: pipe_queue_def)
qed

lemma close_last_writer:
  assumes inv: "pipefs_inv L s" and h: "pf_handles s h = Some d" "ph_mode d = PipeRead"
    and w: "pf_handles s w = Some e" "ph_mode e = PipeWrite" "ph_pipe e = ph_pipe d" "L (ph_pipe d) PipeWrite = 0"
      "\<forall>w' e'. pf_handles s w' = Some e' \<and> ph_pipe e' = ph_pipe d \<and> ph_mode e' = PipeWrite \<longrightarrow> w' = w"
    and q: "pipe_queue (pf_arcs s (ph_pipe d)) = []"
  shows "\<exists>s'. pipefs_fclose s w = Some (Inr (), s') \<and> pipefs_fread s' h buf = Some (Inr (0, buf), s')"
proof -
  let ?p = "pf_arcs s (ph_pipe d)"
  note ip = inv_pipe [OF inv inv_handle(2) [OF inv h(1)]]
  have "open_ends (pf_handles s) (ph_pipe d) PipeWrite = {w}" using w by (auto simp: open_ends_def)
  then have "p_writers ?p = 1" using ip(4) w(4) by (simp add: pipe_counts_def)
  moreover have "p_data_len ?p = 0" using q by (simp add: pipe_queue_def)
  moreover have "h \<noteq> w" using h w by auto
  ultimately show ?thesis using fclose_eq [OF inv w(1)] h w(2,3)
    by (simp add: pipefs_fread_def get_handle_data_def is_empty_def pipe_closing_def)
qed

text \<open>
  C14: In every such state, for a buffer that is not empty: a read through a read end returns 0
  bytes only when the pipe is drained, no write end is open and none was dropped by an
  unmount; closing the last write end of a drained pipe with none dropped makes the next read
  return 0 bytes; a write through a write end reports a broken pipe exactly when no read end
  is open and none was dropped by an unmount.
\<close>

theorem pipefs_eof_and_broken_pipe:
  assumes "pipefs_history s L" "pf_handles s h = Some d" "0 < length buf"
  shows "(ph_mode d = PipeRead \<longrightarrow>
      (\<forall>b s'. pipefs_fread s h buf = Some (Inr (0, b), s') \<longrightarrow>
         no_open_end s (ph_pipe d) PipeWrite \<and> L (ph_pipe d) PipeWrite = 0 \<and> pipe_queue (pf_arcs s (ph_pipe d)) = []) \<and>
      (\<forall>w e. pf_handles s w = Some e \<and> ph_mode e = PipeWrite \<and> ph_pipe e = ph_pipe d \<and> L (ph_pipe d) PipeWrite = 0 \<and>
         (\<forall>w' e'. pf_handles s w' = Some e' \<and> ph_pipe e' = ph_pipe d \<and> ph_mode e' = PipeWrite \<longrightarrow> w' = w) \<and>
         pipe_queue (pf_arcs s (ph_pipe d)) = [] \<longrightarrow>
         (\<exists>s'. pipefs_fclose s w = Some (Inr (), s') \<and> pipefs_fread s' h buf = Some (Inr (0, buf), s')))) \<and>
    (ph_mode d = PipeWrite \<longrightarrow>
      (pipefs_fwrite s h buf = Some (Inl BrokenPipe, s) \<longleftrightarrow>
         no_open_end s (ph_pipe d) PipeRead \<and> L (ph_pipe d) PipeRead = 0))"
proof -
  have inv: "pipefs_inv L s" using pipefs_history_inv [OF assms(1)] .
  note ip = inv_pipe [OF inv inv_handle(2) [OF inv assms(2)]]
  have "pipefs_fwrite s h buf = Some (Inl BrokenPipe, s) \<longleftrightarrow>
      no_open_end s (ph_pipe d) PipeRead \<and> L (ph_pipe d) PipeRead = 0" if "ph_mode d = PipeWrite"
    using ip(4) that assms(2) unfolding card_open_ends [OF inv, symmetric] pipe_counts_def
    by (auto simp: pipefs_fwrite_def get_handle_data_def Let_def split: if_splits)
  then show ?thesis using fread_zero [OF inv assms(2) _ assms(3)] close_last_writer [OF inv assms(2)] by blast
qed

lemma open_modes:
  "\<not> bad_pipe_mode PipeRead OPEN_MODE_READ" "\<not> bad_pipe_mode PipeWrite OPEN_MODE_WRITE"
  "OPEN_MODE_READ AND OPEN_MODE_FAIL_IF_EXISTS = 0" "OPEN_MODE_WRITE AND OPEN_MODE_FAIL_IF_EXISTS = 0"
  by (simp_all add: bad_pipe_mode_def OPEN_MODE_READ_def OPEN_MODE_WRITE_def OPEN_MODE_APPEND_def
      OPEN_MODE_CREATE_def OPEN_MODE_FAIL_IF_EXISTS_def)

lemma to_string_not_slash: "to_string n \<noteq> ''/''"
proof
  assume s: "to_string n = ''/''"
  have "decimal_loop 0 (to_string (n mod 10)) = Some (n mod 10)" by (rule decimal_to_string) (simp add: less_trans [of _ 10])
  have "n < 10" using s to_string_nonempty [of "n div 10"] by (subst (asm) to_string.simps) (auto split: if_splits)
  then have "decimal_loop 0 (to_string n) = Some n" by (intro decimal_to_string) simp
  then show False unfolding s by (simp add: to_digit_def)
qed

definition created_pipefs :: "PipeFs \<Rightarrow> PipeFs" where
  "created_pipefs s = s\<lparr>pf_next_pipe_id := pf_next_pipe_id s + 1,
     pf_pipes := btree_insert (pf_next_pipe_id s) (pf_next_pipe_id s) (pf_pipes s),
     pf_arcs := (pf_arcs s)(pf_next_pipe_id s := new_anonymous (64 * 1024))\<rparr>"

lemma create_pipe_dir:
  assumes "pf_next_pipe_id s + 1 < 2 ^ 64"
  shows "\<exists>dir. pipefs_create_child s (pipefs_get_root s) nm KDirectory = Some (Inr dir, created_pipefs s) \<and>
    vf_fs dir = pf_os_id s \<and> vf_name dir = to_string (pf_next_pipe_id s) \<and>
    vf_specific dir = PipeSpecific (PipefsDir (pf_next_pipe_id s))"
  using assms by (simp add: pipefs_create_child_def pipefs_get_root_def downcast_pipe_def add64_def created_pipefs_def Let_def)

lemma created_pipefs_lookup:
  "pipefs_inv L s \<Longrightarrow> map_of (pf_pipes (created_pipefs s)) (pf_next_pipe_id s) = Some (pf_next_pipe_id s)"
  using inv_base(3) by (simp add: created_pipefs_def map_of_btree_insert)

definition opened_pipefs :: "PipeFs \<Rightarrow> nat \<Rightarrow> nat \<Rightarrow> PipeFs" where
  "opened_pipefs s a1 a2 = (let i = pf_next_pipe_id s in (created_pipefs s)\<lparr>
     pf_arcs := (pf_arcs s)(i := (new_anonymous (64 * 1024))\<lparr>p_readers := 1, p_writers := 1\<rparr>),
     pf_handles := (pf_handles s)(a1 \<mapsto> \<lparr>ph_pipe = i, ph_mode = PipeRead, ph_pipe_id = i\<rparr>,
       a2 \<mapsto> \<lparr>ph_pipe = i, ph_mode = PipeWrite, ph_pipe_id = i\<rparr>)\<rparr>)"

lemma fopen_pipe_file:
  assumes "map_of (pf_pipes s) i = Some arc" "\<not> p_closed (pf_arcs s arc)" "count_opened pm (pf_arcs s arc) = Some p"
    and "\<not> bad_pipe_mode pm mode" "mode AND OPEN_MODE_FAIL_IF_EXISTS = 0" "pf_os_id t = pf_os_id s"
  shows "pipefs_fopen s (pipe_file t j i pm nm) mode addr = Some (Inr addr, s\<lparr>pf_arcs := (pf_arcs s)(arc := p),
      pf_handles := (pf_handles s)(addr \<mapsto> \<lparr>ph_pipe = arc, ph_mode = pm, ph_pipe_id = i\<rparr>)\<rparr>)"
  using assms
  by (cases pm) (simp_all add: pipefs_fopen_def pipe_file_def downcast_pipe_def open_pipe_end_def alloc_file_handle_def)

definition half_opened_pipefs :: "PipeFs \<Rightarrow> nat \<Rightarrow> PipeFs" where
  "half_opened_pipefs s a1 = (let i = pf_next_pipe_id s in (created_pipefs s)\<lparr>
     pf_arcs := (pf_arcs s)(i := (new_anonymous (64 * 1024))\<lparr>p_readers := 1\<rparr>),
     pf_handles := (pf_handles s)(a1 \<mapsto> \<lparr>ph_pipe = i, ph_mode = PipeRead, ph_pipe_id = i\<rparr>)\<rparr>)"

lemma open_created_steps:
  fixes s defines "i \<equiv> pf_next_pipe_id s"
  assumes inv: "pipefs_inv L s"
  shows "pipefs_fopen (created_pipefs s) (pipe_file (created_pipefs s) i i PipeRead ''r'') OPEN_MODE_READ a1 =
      Some (Inr a1, half_opened_pipefs s a1)"
    and "pipefs_fopen (half_opened_pipefs s a1) (pipe_file (created_pipefs s) i i PipeWrite ''w'') OPEN_MODE_WRITE a2 =
      Some (Inr a2, opened_pipefs s a1 a2)"
proof -
  let ?s = "created_pipefs s"
  have m: "map_of (pf_pipes ?s) i = Some i" using created_pipefs_lookup [OF inv] by (simp add: i_def)
  have os: "pf_os_id ?s = pf_os_id s" "pf_arcs ?s i = new_anonymous (64 * 1024)" by (simp_all add: created_pipefs_def i_def)
  let ?p = "new_anonymous (64 * 1024)" let ?d = "\<lambda>pm. \<lparr>ph_pipe = i, ph_mode = pm, ph_pipe_id = i\<rparr>"
  let ?t = "?s\<lparr>pf_arcs := (pf_arcs ?s)(i := ?p\<lparr>p_readers := 1\<rparr>), pf_handles := (pf_handles ?s)(a1 \<mapsto> ?d PipeRead)\<rparr>"
  have t: "?t = half_opened_pipefs s a1" by (simp add: half_opened_pipefs_def created_pipefs_def i_def Let_def)
  have "pipefs_fopen ?s (pipe_file ?s i i PipeRead ''r'') OPEN_MODE_READ a1 = Some (Inr a1, ?t)"
    by (rule fopen_pipe_file [OF m]) (simp_all add: os open_modes count_opened_def add64_def new_anonymous_def)
  then show "pipefs_fopen ?s (pipe_file ?s i i PipeRead ''r'') OPEN_MODE_READ a1 = Some (Inr a1, half_opened_pipefs s a1)"
    unfolding t .
  have mt: "map_of (pf_pipes ?t) i = Some i" using m by simp
  have "pipefs_fopen ?t (pipe_file ?s i i PipeWrite ''w'') OPEN_MODE_WRITE a2 =
      Some (Inr a2, ?t\<lparr>pf_arcs := (pf_arcs ?t)(i := ?p\<lparr>p_readers := 1, p_writers := 1\<rparr>),
        pf_handles := (pf_handles ?t)(a2 \<mapsto> ?d PipeWrite)\<rparr>)"
    by (rule fopen_pipe_file [OF mt]) (simp_all add: os open_modes count_opened_def add64_def new_anonymous_def)
  then show "pipefs_fopen (half_opened_pipefs s a1) (pipe_file ?s i i PipeWrite ''w'') OPEN_MODE_WRITE a2 =
      Some (Inr a2, opened_pipefs s a1 a2)"
    unfolding t by (simp add: opened_pipefs_def half_opened_pipefs_def created_pipefs_def i_def Let_def)
qed

lemma created_children:
  assumes inv: "pipefs_inv L s" and dir: "vf_fs dir = pf_os_id s" "vf_name dir = to_string (pf_next_pipe_id s)"
    "vf_specific dir = PipeSpecific (PipefsDir (pf_next_pipe_id s))"
  defines "i \<equiv> pf_next_pipe_id s"
  shows "pipefs_get_child (created_pipefs s) dir ''r'' = Inr (pipe_file (created_pipefs s) i i PipeRead ''r'')"
    "pipefs_get_child (created_pipefs s) dir ''w'' = Inr (pipe_file (created_pipefs s) i i PipeWrite ''w'')"
    "get_pipe (pipe_file (created_pipefs s) i i pm nm) = Some (i, pm, i)"
proof -
  have m: "map_of (pf_pipes (created_pipefs s)) i = Some i" "pf_os_id (created_pipefs s) = pf_os_id s"
    using created_pipefs_lookup [OF inv] by (simp_all add: created_pipefs_def i_def)
  show "pipefs_get_child (created_pipefs s) dir ''r'' = Inr (pipe_file (created_pipefs s) i i PipeRead ''r'')"
    "pipefs_get_child (created_pipefs s) dir ''w'' = Inr (pipe_file (created_pipefs s) i i PipeWrite ''w'')"
    using dir to_string_not_slash [of i] by (simp_all add: pipefs_get_child_def downcast_pipe_def m flip: i_def)
  show "get_pipe (pipe_file (created_pipefs s) i i pm nm) = Some (i, pm, i)" by (simp add: get_pipe_def pipe_file_def)
qed

lemma opened_transfer:
  assumes "a1 \<noteq> a2" "0 < length xs" "length xs \<le> 64 * 1024" "length buf = length xs"
  obtains s3 s4 where "pipefs_fwrite (opened_pipefs s a1 a2) a2 xs = Some (Inr (length xs), s3)"
    "pipefs_fread s3 a1 buf = Some (Inr (length xs, xs), s4)"
proof -
  let ?i = "pf_next_pipe_id s" let ?s2 = "opened_pipefs s a1 a2"
  let ?p = "(new_anonymous (64 * 1024))\<lparr>p_readers := 1, p_writers := 1\<rparr>"
  have ok: "pipe_ok ?p" "pipe_queue ?p = []" "length xs \<le> length (p_data ?p)"
    using assms(3) by (simp_all add: pipe_ok_def pipe_queue_def new_anonymous_def)
  obtain p1 p2 where p: "pipe_write ?p xs = Some (length xs, p1)" "pipe_read p1 buf = Some (length xs, xs, p2)"
    using pq.put_then_get [OF ok assms(4)] by blast
  have "p_data_len p1 \<noteq> 0" using p(2) assms(2) by (auto simp: pipe_read_def readable_bytes_def Let_def split: if_splits)
  moreover have h: "pf_handles ?s2 a1 = Some \<lparr>ph_pipe = ?i, ph_mode = PipeRead, ph_pipe_id = ?i\<rparr>"
      "pf_handles ?s2 a2 = Some \<lparr>ph_pipe = ?i, ph_mode = PipeWrite, ph_pipe_id = ?i\<rparr>" "pf_arcs ?s2 ?i = ?p"
    using assms(1) by (simp_all add: opened_pipefs_def Let_def)
  moreover have "\<not> is_full ?p" by (simp add: is_full_def new_anonymous_def)
  ultimately have "pipefs_fwrite ?s2 a2 xs = Some (Inr (length xs), ?s2\<lparr>pf_arcs := (pf_arcs ?s2)(?i := p1)\<rparr>)"
    "pipefs_fread (?s2\<lparr>pf_arcs := (pf_arcs ?s2)(?i := p1)\<rparr>) a1 buf =
      Some (Inr (length xs, xs), ?s2\<lparr>pf_arcs := (pf_arcs ?s2)(?i := p2)\<rparr>)"
    using p by (simp_all add: pipefs_fwrite_def pipefs_fread_def get_handle_data_def is_empty_def Let_def)
  then show ?thesis by (rule that)
qed

definition demo_pipefs :: PipeFs where
  "demo_pipefs = opened_pipefs pipefs_init 4096 8192"

lemma demo_pipefs_history: "pipefs_history demo_pipefs (\<lambda>_ _. 0)"
proof -
  note inv = pipefs_init_inv
  obtain dir where dir: "pipefs_create_child pipefs_init (pipefs_get_root pipefs_init) [] KDirectory =
      Some (Inr dir, created_pipefs pipefs_init)"
    using create_pipe_dir [of pipefs_init "[]"] by (auto simp: pipefs_init_def)
  have r0: "pipefs_history (created_pipefs pipefs_init) (\<lambda>_ _. 0)" using pipefs_history.create [OF pipefs_history.init dir] .
  have r1: "pipefs_history (half_opened_pipefs pipefs_init 4096) (\<lambda>_ _. 0)"
    by (rule pipefs_history.fopen [OF r0 _ _ _ open_created_steps(1) [OF inv]])
      (simp_all add: created_pipefs_def pipefs_init_def)
  show ?thesis unfolding demo_pipefs_def
    by (rule pipefs_history.fopen [OF r1 _ _ _ open_created_steps(2) [OF inv]])
      (simp_all add: half_opened_pipefs_def created_pipefs_def pipefs_init_def Let_def)
qed

theorem pipefs_counts_exact_witness:
  "p_readers (pf_arcs demo_pipefs 0) = card {h. \<exists>d. pf_handles demo_pipefs h = Some d \<and> ph_pipe d = 0 \<and> ph_mode d = PipeRead} \<and>
   p_readers (pf_arcs (pipefs_on_unmount demo_pipefs) 0) = 1 \<and> pf_handles (pipefs_on_unmount demo_pipefs) = Map.empty"
proof -
  have m: "map_of (pf_pipes demo_pipefs) 0 = Some 0"
    by (simp add: demo_pipefs_def opened_pipefs_def created_pipefs_def pipefs_init_def Let_def)
  then have d: "p_readers (pf_arcs demo_pipefs 0) = card {h. \<exists>d. pf_handles demo_pipefs h = Some d \<and> ph_pipe d = 0 \<and> ph_mode d = PipeRead}"
    using pipefs_counts_exact [OF demo_pipefs_history] by simp
  have "open_ends (pf_handles demo_pipefs) 0 PipeRead = {4096}"
    by (auto simp: open_ends_def demo_pipefs_def opened_pipefs_def created_pipefs_def pipefs_init_def Let_def split: if_splits)
  then have "p_readers (pf_arcs (pipefs_on_unmount demo_pipefs) 0) = 1"
    using pipefs_counts_exact [OF pipefs_history.unmount [OF demo_pipefs_history]] m by (simp add: pipefs_on_unmount_def)
  with d show ?thesis by (simp add: pipefs_on_unmount_def)
qed

theorem pipefs_eof_and_broken_pipe_witness:
  "(\<exists>s. pipefs_fclose demo_pipefs 8192 = Some (Inr (), s) \<and> pipefs_fread s 4096 [7] = Some (Inr (0, [7]), s)) \<and>
   (\<exists>s. pipefs_fclose demo_pipefs 4096 = Some (Inr (), s) \<and> pipefs_fwrite s 8192 [1] = Some (Inl BrokenPipe, s)) \<and>
   pipefs_fwrite demo_pipefs 8192 [1] \<noteq> Some (Inl BrokenPipe, demo_pipefs)"
proof -
  let ?w = "\<lparr>ph_pipe = 0, ph_mode = PipeWrite, ph_pipe_id = 0\<rparr>" and ?r = "\<lparr>ph_pipe = 0, ph_mode = PipeRead, ph_pipe_id = 0\<rparr>"
  have hs: "pf_handles demo_pipefs = [4096 \<mapsto> ?r, 8192 \<mapsto> ?w]"
    by (simp add: demo_pipefs_def opened_pipefs_def created_pipefs_def pipefs_init_def Let_def)
  have q: "pipe_queue (pf_arcs demo_pipefs 0) = []"
    by (simp add: demo_pipefs_def opened_pipefs_def created_pipefs_def pipefs_init_def Let_def pipe_queue_def new_anonymous_def)
  have h: "pf_handles demo_pipefs 8192 = Some ?w" "pf_handles demo_pipefs 4096 = Some ?r" by (simp_all add: hs)
  have eof: "\<exists>s. pipefs_fclose demo_pipefs 8192 = Some (Inr (), s) \<and> pipefs_fread s 4096 [7] = Some (Inr (0, [7]), s)"
  proof -
    have "\<forall>w' e'. pf_handles demo_pipefs w' = Some e' \<and> ph_pipe e' = ph_pipe ?r \<and> ph_mode e' = PipeWrite \<longrightarrow> w' = 8192"
      by (auto simp: hs split: if_splits)
    moreover have "ph_mode ?r = PipeRead" "ph_mode ?w = PipeWrite" "ph_pipe ?w = ph_pipe ?r" "pipe_queue (pf_arcs demo_pipefs (ph_pipe ?r)) = []"
      using q by simp_all
    ultimately show ?thesis using pipefs_eof_and_broken_pipe [OF demo_pipefs_history h(2), of "[7]"] h(1) by blast
  qed
  obtain s where s: "pipefs_fclose demo_pipefs 4096 = Some (Inr (), s)" "pf_handles s = (pf_handles demo_pipefs)(4096 := None)"
    using fclose_inv [OF pipefs_history_inv [OF demo_pipefs_history] h(2)] by blast
  have "pf_handles s 8192 = Some ?w" using s(2) h(1) by simp
  from pipefs_eof_and_broken_pipe [OF pipefs_history.fclose [OF demo_pipefs_history s(1)] this, of "[1]"]
  have "pipefs_fwrite s 8192 [1] = Some (Inl BrokenPipe, s)" using s(2) by (auto simp: hs no_open_end_def split: if_splits)
  moreover have "pipefs_fwrite demo_pipefs 8192 [1] \<noteq> Some (Inl BrokenPipe, demo_pipefs)"
    using pipefs_eof_and_broken_pipe [OF demo_pipefs_history h(1), of "[1]"] h(2) by (fastforce simp: no_open_end_def)
  ultimately show ?thesis using eof s(1) by blast
qed

end
