(* ===== verification/FileApi.thy ===== *)
theory FileApi
  imports Vfs PipeFs
begin

text \<open>
  \<^verbatim>\<open>data/file.rs\<close>, the interface the rest of the kernel opens files through, over the
  virtual file system \<open>v\<close> and the drivers \<open>ops\<close>; and \<^verbatim>\<open>Pipe::create\<close> of
  \<^verbatim>\<open>pipefs.rs\<close>, its client. The last section instantiates the drivers with the pipe
  file system.
\<close>

record File =
  f_mode :: u64
  f_path :: string
  f_fs :: nat
  f_file :: VfsFile
  f_handle :: nat

record Directory =
  d_path :: string
  d_vfsfile :: VfsFile

record DirectoryEntry =
  de_full_name :: string
  de_entry :: VfsFile

definition fs_of_file :: "Vfs \<Rightarrow> VfsFile \<Rightarrow> ('w, nat) vio" where
  "fs_of_file v file = io_result (ok_or (get_fs_by_id v (vf_fs file)) FileSystemNotMounted)"

definition file_open_raw :: "'w FsOps \<Rightarrow> Vfs \<Rightarrow> string \<Rightarrow> u64 \<Rightarrow> ('w, nat \<times> nat \<times> VfsFile) vio" where
  "file_open_raw ops v path mode =
     io_bind (vfs_get_file ops v path) (\<lambda>file.
     io_bind (fs_of_file v file) (\<lambda>fs.
     io_bind (fo_fopen ops fs file mode) (\<lambda>handle.
     io_ok (fs, handle, file))))"

definition file_open :: "'w FsOps \<Rightarrow> Vfs \<Rightarrow> string \<Rightarrow> u64 \<Rightarrow> ('w, File) vio" where
  "file_open ops v path mode =
     io_bind (vfs_get_file ops v path) (\<lambda>file.
     io_bind (fs_of_file v file) (\<lambda>fs.
     io_bind (fo_fopen ops fs file mode) (\<lambda>handle.
     io_ok \<lparr>f_mode = mode, f_path = path, f_fs = fs, f_file = file, f_handle = handle\<rparr>)))"

definition file_get_stats :: "'w FsOps \<Rightarrow> Vfs \<Rightarrow> string \<Rightarrow> ('w, FileStat option) vio" where
  "file_get_stats ops v path = vfs_get_stats ops v path"

text \<open>\<^verbatim>\<open>iter().rposition(|c| *c == '/')\<close>: the index of the last slash.\<close>

definition rposition_slash :: "string \<Rightarrow> nat option" where
  "rposition_slash path =
     (let n = length (takeWhile (\<lambda>c. \<not> is_slash c) (rev path))
      in if n < length path then Some (length path - 1 - n) else None)"

definition file_create :: "'w FsOps \<Rightarrow> Vfs \<Rightarrow> string \<Rightarrow> u64 \<Rightarrow> ('w, File) vio" where
  "file_create ops v path mode =
     (case rposition_slash path of
        None \<Rightarrow> io_err InvalidArgument
      | Some name_start \<Rightarrow>
          (let dirname = slice_of path 0 name_start; filename = drop (name_start + 1) path
           in if filename = [] then io_err InvalidArgument
              else io_bind (vfs_get_file ops v dirname) (\<lambda>directory.
                   io_bind (fs_of_file v directory) (\<lambda>fs.
                   io_bind (fo_create_child ops fs directory filename KFile) (\<lambda>file.
                   io_bind (fo_fopen ops fs file mode) (\<lambda>handle.
                   io_ok \<lparr>f_mode = mode, f_path = path, f_fs = fs, f_file = file, f_handle = handle\<rparr>))))))"

definition file_delete0 :: "'w FsOps \<Rightarrow> Vfs \<Rightarrow> string \<Rightarrow> ('w, unit) vio" where
  "file_delete0 ops v path =
     io_bind (vfs_get_file ops v path) (\<lambda>file.
     io_bind (fs_of_file v file) (\<lambda>fs. fo_delete_file ops fs file))"

text \<open>\<^verbatim>\<open>Directory::of\<close>: the path without its trailing slashes.\<close>

definition trim_slashes :: "string \<Rightarrow> string" where
  "trim_slashes path = rev (dropWhile is_slash (rev path))"

definition directory_of :: "string \<Rightarrow> VfsFile \<Rightarrow> Directory" where
  "directory_of path vfsfile = \<lparr>d_path = trim_slashes path, d_vfsfile = vfsfile\<rparr>"

definition entry_get_dir :: "DirectoryEntry \<Rightarrow> Directory vresult" where
  "entry_get_dir e =
     (case vf_kind (de_entry e) of
        KDirectory \<Rightarrow> Inr (directory_of (de_full_name e) (de_entry e))
      | KMountPoint _ \<Rightarrow> Inr (directory_of (de_full_name e) (de_entry e))
      | _ \<Rightarrow> Inl NotDirectory)"

text \<open>
  \<^verbatim>\<open>DirectoryEntry::name\<close>: the scan from the end; stepping below index 0 panics, as does
  an empty name.
\<close>

fun entry_name_scan :: "string \<Rightarrow> nat \<Rightarrow> nat panics" where
  "entry_name_scan name last_idx =
     (if last_idx < length name \<and> is_slash (name ! last_idx)
      then (case last_idx of 0 \<Rightarrow> None | Suc i \<Rightarrow> entry_name_scan name i)
      else Some last_idx)"

declare entry_name_scan.simps [simp del]

definition entry_name :: "DirectoryEntry \<Rightarrow> string panics" where
  "entry_name e = do {
     let name = vf_name (de_entry e);
     last \<leftarrow> sub64 (length name) 1;
     last_idx \<leftarrow> entry_name_scan name last;
     slice_get name 0 (last_idx + 1)
   }"

text \<open>\<^verbatim>\<open>File::mkdir0\<close>: walk the path, making the directories that are missing.\<close>

function mkdir0_loop ::
    "'w FsOps \<Rightarrow> Vfs \<Rightarrow> string \<Rightarrow> bool \<Rightarrow> PathTraverse \<Rightarrow> ('w, Directory) vio" where
  "mkdir0_loop ops v path made_dir t w =
     (case find_next (root_of ops) (child_of ops v) t w of
        None \<Rightarrow> None
      | Some ((Inr entry, t1), w1) \<Rightarrow>
          (if traverse_is_done t1 then
             (if made_dir then io_result (entry_get_dir \<lparr>de_full_name = path, de_entry = entry\<rparr>) w1
              else io_err FileAlreadyExists w1)
           else mkdir0_loop ops v path made_dir t1 w1)
      | Some ((Inl e, t1), w1) \<Rightarrow>
          (if e = PathNotFound then
             (case traverse_mkdir (create_of ops) t1 w1 of
                None \<Rightarrow> None
              | Some ((Inl e', t2), w2) \<Rightarrow> io_err e' w2
              | Some ((Inr entry, t2), w2) \<Rightarrow>
                  (if traverse_is_done t2
                   then io_result (entry_get_dir \<lparr>de_full_name = path, de_entry = entry\<rparr>) w2
                   else mkdir0_loop ops v path True t2 w2))
           else io_err e w1))"
  by pat_completeness auto
termination
  by (relation "measure (\<lambda>(_, _, _, _, t, _). pt_measure t)")
    (auto dest: find_next_progress traverse_mkdir_progress find_next_measure_le intro: less_le_trans)

declare mkdir0_loop.simps [simp del]

definition file_mkdir0 :: "'w FsOps \<Rightarrow> Vfs \<Rightarrow> string \<Rightarrow> ('w, Directory) vio" where
  "file_mkdir0 ops v path =
     io_bind (traverse_new_owned (root_of ops) path) (\<lambda>t. mkdir0_loop ops v path False t)"

definition file_open_entry :: "'w FsOps \<Rightarrow> Vfs \<Rightarrow> DirectoryEntry \<Rightarrow> u64 \<Rightarrow> ('w, File) vio" where
  "file_open_entry ops v e mode =
     io_bind (fs_of_file v (de_entry e)) (\<lambda>sub_fs.
     io_bind (fo_fopen ops sub_fs (de_entry e) mode) (\<lambda>handle.
     io_ok \<lparr>f_mode = mode, f_path = de_full_name e, f_fs = sub_fs, f_file = de_entry e, f_handle = handle\<rparr>))"

definition file_stats :: "'w FsOps \<Rightarrow> File \<Rightarrow> ('w, FileStat) vio" where
  "file_stats ops f = fo_fstat ops (f_fs f) (f_handle f)"

definition file_write :: "'w FsOps \<Rightarrow> File \<Rightarrow> u8 list \<Rightarrow> ('w, nat) vio" where
  "file_write ops f buf = fo_fwrite ops (f_fs f) (f_handle f) buf"

definition file_read :: "'w FsOps \<Rightarrow> File \<Rightarrow> u8 list \<Rightarrow> ('w, nat \<times> u8 list) vio" where
  "file_read ops f buf = fo_fread ops (f_fs f) (f_handle f) buf"

definition file_seek :: "'w FsOps \<Rightarrow> File \<Rightarrow> SeekPosition \<Rightarrow> ('w, nat) vio" where
  "file_seek ops f position = fo_fseek ops (f_fs f) (f_handle f) position"

definition file_truncate :: "'w FsOps \<Rightarrow> File \<Rightarrow> ('w, nat) vio" where
  "file_truncate ops f = fo_ftruncate ops (f_fs f) (f_handle f)"

text \<open>\<^verbatim>\<open>_close\<close>; a failed one leaves the handle as it was.\<close>

definition file_close0 :: "'w FsOps \<Rightarrow> File \<Rightarrow> ('w, File) vio" where
  "file_close0 ops f = io_bind (fo_fclose ops (f_fs f) (f_handle f)) (\<lambda>_. io_ok (f\<lparr>f_handle := 0\<rparr>))"

text \<open>A \<^verbatim>\<open>File\<close> that goes out of scope is closed and the result dropped.\<close>

definition file_drop :: "'w FsOps \<Rightarrow> File \<Rightarrow> 'w \<Rightarrow> 'w panics" where
  "file_drop ops f w = map_option snd (file_close0 ops f w)"

text \<open>
  \<^verbatim>\<open>close\<close> takes the file by value: after \<^verbatim>\<open>_close\<close> the file goes out of
  scope and is closed once more, with the handle 0 when the first close succeeded.
\<close>

definition file_close :: "'w FsOps \<Rightarrow> File \<Rightarrow> ('w, unit) vio" where
  "file_close ops f w =
     (case file_close0 ops f w of
        None \<Rightarrow> None
      | Some (Inl e, w1) \<Rightarrow> do { w2 \<leftarrow> file_drop ops f w1; Some (Inl e, w2) }
      | Some (Inr f', w1) \<Rightarrow> do { w2 \<leftarrow> file_drop ops f' w1; Some (Inr (), w2) })"

definition file_sync :: "'w FsOps \<Rightarrow> File \<Rightarrow> ('w, unit) vio" where
  "file_sync ops f = fo_fsync ops (f_fs f) (f_handle f)"

definition file_flush :: "'w FsOps \<Rightarrow> File \<Rightarrow> ('w, unit) vio" where
  "file_flush ops f = fo_fflush ops (f_fs f) (f_handle f)"

definition list_entries :: "string \<Rightarrow> VfsFile list \<Rightarrow> DirectoryEntry list" where
  "list_entries path files = map (\<lambda>entry. \<lparr>de_full_name = path @ ''/'' @ vf_name entry, de_entry = entry\<rparr>) files"

definition list_directory :: "'w FsOps \<Rightarrow> Vfs \<Rightarrow> string \<Rightarrow> ('w, DirectoryEntry list) vio" where
  "list_directory ops v path =
     io_bind (vfs_get_file ops v path) (\<lambda>directory.
       case get_mounted_fs directory of
         Some fs \<Rightarrow> io_bind (fo_get_root ops fs) (\<lambda>root.
             io_bind (fo_list_children ops fs root) (\<lambda>files. io_ok (list_entries path files)))
       | None \<Rightarrow>
           (if \<not> is_directory directory then io_err NotDirectory
            else io_bind (vfs_list_children ops v directory) (\<lambda>files. io_ok (list_entries path files))))"

definition entry_of :: "'w FsOps \<Rightarrow> Vfs \<Rightarrow> string \<Rightarrow> ('w, DirectoryEntry) vio" where
  "entry_of ops v path =
     io_bind (vfs_get_file ops v (trim_slashes path)) (\<lambda>directory.
       case get_mounted_fs directory of
         Some fs \<Rightarrow> io_bind (fo_get_root ops fs) (\<lambda>root. io_ok \<lparr>de_full_name = trim_slashes path, de_entry = root\<rparr>)
       | None \<Rightarrow> io_ok \<lparr>de_full_name = trim_slashes path, de_entry = directory\<rparr>)"

section \<open>Creating a pipe through the file interface\<close>

definition impl_pipe_create ::
    "'w FsOps \<Rightarrow> Vfs \<Rightarrow> Directory \<Rightarrow> ('w, nat \<times> nat \<times> nat \<times> nat \<times> VfsFile \<times> VfsFile) vio" where
  "impl_pipe_create ops v pdir =
     (let pipe_vfs_file = d_vfsfile pdir
      in io_bind (fs_of_file v pipe_vfs_file) (\<lambda>pipefs.
         io_bind (fo_get_child ops pipefs pipe_vfs_file ''r'') (\<lambda>rfile.
         io_bind (fo_get_child ops pipefs pipe_vfs_file ''w'') (\<lambda>wfile.
           case (get_pipe rfile, get_pipe wfile) of
             (Some (_, _, rid), Some (_, _, wid)) \<Rightarrow>
               (if rid \<noteq> wid then io_err UnknownError
                else io_bind (fo_fopen ops pipefs rfile OPEN_MODE_READ) (\<lambda>r.
                     io_bind (fo_fopen ops pipefs wfile OPEN_MODE_WRITE) (\<lambda>w.
                     io_ok (rid, r, w, pipefs, rfile, wfile))))
           | _ \<Rightarrow> io_err InvalidArgument))))"

definition create_raw_fds :: "'w FsOps \<Rightarrow> Vfs \<Rightarrow> ('w, nat \<times> nat \<times> nat \<times> nat) vio" where
  "create_raw_fds ops v =
     io_bind (file_mkdir0 ops v ''/pipes/a'') (\<lambda>pdir.
     io_bind (impl_pipe_create ops v pdir) (\<lambda>(rid, r, w, pipefs, _, _).
     io_ok (rid, r, w, pipefs)))"

definition pipe_create :: "'w FsOps \<Rightarrow> Vfs \<Rightarrow> ('w, nat \<times> File \<times> File) vio" where
  "pipe_create ops v =
     io_bind (file_mkdir0 ops v ''/pipes/a'') (\<lambda>pdir.
     io_bind (impl_pipe_create ops v pdir) (\<lambda>(rid, r, w, pipefs, rfile, wfile).
       (let nm = vf_name (d_vfsfile pdir)
        in io_ok (rid,
             \<lparr>f_mode = OPEN_MODE_READ, f_path = nm @ ''/r'', f_fs = pipefs, f_file = rfile, f_handle = r\<rparr>,
             \<lparr>f_mode = OPEN_MODE_WRITE, f_path = nm @ ''/w'', f_fs = pipefs, f_file = wfile, f_handle = w\<rparr>))))"

section \<open>The pipe file system as a driver\<close>

text \<open>
  The world is the state of the one pipe file system; \<open>heap s\<close> is the address the kernel
  heap gives the next handle in state \<open>s\<close>.
\<close>

definition pipefs_ops :: "(PipeFs \<Rightarrow> nat) \<Rightarrow> PipeFs FsOps" where
  "pipefs_ops heap =
     \<lparr>fo_alive = (\<lambda>_ _. True),
      fo_os_id = (\<lambda>_ s. pf_os_id s),
      fo_fs_type = (\<lambda>_. ''pipe''),
      fo_fs_flush = (\<lambda>_. io_err ActionNotAllowed),
      fo_host_block_device = (\<lambda>_ _. None),
      fo_get_root = (\<lambda>_ s. io_ok (pipefs_get_root s) s),
      fo_get_mount_point = (\<lambda>_ s. io_result (map_sum id Some (ok_or (pf_mnt s) FileSystemNotMounted)) s),
      fo_get_child = (\<lambda>_ file child s. io_result (pipefs_get_child s file child) s),
      fo_list_children = (\<lambda>_ file s. io_result (pipefs_list_children s file) s),
      fo_get_stats = (\<lambda>_ file s. io_result (pipefs_get_stats s file) s),
      fo_create_child = (\<lambda>_ directory name kind s. pipefs_create_child s directory name kind),
      fo_delete_file = (\<lambda>_ _. io_err ActionNotAllowed),
      fo_on_mount = (\<lambda>_ mount_point os_id root_fs s.
        (let (f, s') = pipefs_on_mount s mount_point os_id root_fs in Some (Inr f, s'))),
      fo_on_pre_unmount = (\<lambda>_. io_ok True),
      fo_on_unmount = (\<lambda>_ s. Some (Inr (), pipefs_on_unmount s)),
      fo_get_vfs = (\<lambda>_ s. io_result (ok_or (pf_root_fs s) FileSystemNotMounted) s),
      fo_fopen = (\<lambda>_ file mode s. pipefs_fopen s file mode (heap s)),
      fo_fclose = (\<lambda>_ handle s. pipefs_fclose s handle),
      fo_fseek = (\<lambda>_ _ _. io_err ActionNotAllowed),
      fo_fread = (\<lambda>_ handle buf s. pipefs_fread s handle buf),
      fo_fwrite = (\<lambda>_ handle buf s. pipefs_fwrite s handle buf),
      fo_fflush = (\<lambda>_ handle s. io_result (pipefs_fflush s handle) s),
      fo_fsync = (\<lambda>_ handle s. io_result (pipefs_fflush s handle) s),
      fo_fstat = (\<lambda>_ handle s. io_result (pipefs_fstat s handle) s),
      fo_ftruncate = (\<lambda>_ _. io_err ActionNotAllowed)\<rparr>"

definition init_pipefs :: "(PipeFs \<Rightarrow> nat) \<Rightarrow> Vfs \<Rightarrow> nat \<Rightarrow> ((VfsFile vresult \<times> Vfs) \<times> PipeFs) panics" where
  "init_pipefs heap v ptr = vfs_mount (pipefs_ops heap) v ''pipes'' ptr pipefs_init"

section \<open>Lemmas\<close>

lemma pipefs_ops_simps [simp]:
  "fo_alive (pipefs_ops heap) r s"
  "fo_os_id (pipefs_ops heap) r s = pf_os_id s"
  "fo_get_root (pipefs_ops heap) r s = Some (Inr (pipefs_get_root s), s)"
  "fo_get_child (pipefs_ops heap) r f c s = Some (pipefs_get_child s f c, s)"
  "fo_create_child (pipefs_ops heap) r f c k s = pipefs_create_child s f c k"
  "fo_fopen (pipefs_ops heap) r f mode s = pipefs_fopen s f mode (heap s)"
  "fo_fread (pipefs_ops heap) r h buf s = pipefs_fread s h buf"
  "fo_fwrite (pipefs_ops heap) r h buf s = pipefs_fwrite s h buf"
  by (simp_all add: pipefs_ops_def io_ok_def io_result_def)

interpretation pfm: mountable_fs "pipefs_ops heap" ptr for heap ptr
  by unfold_locales (auto simp: pipefs_ops_def pipefs_on_mount_def Let_def io_ok_def)

text \<open>
  C19: Path resolution in a virtual file system with a well-formed mount tree: the root path always
  resolves to the VFS's own root directory, also when a file system is mounted on it, and then
  every other path is not found; an inner node of the mount tree resolves to a directory of
  that path; a path through a mount point below the root is handed to the root of the mounted
  file system with the remaining components, or fails with UnknownError when its driver is
  gone; a path that leaves the tree before any mount point is not found.
\<close>

theorem vfs_get_file_resolves:
  assumes "tree_ok (vfs_tree v)"
  shows "(components path = [] \<longrightarrow> (\<exists>f. node_file [] f \<and> vfs_get_file ops v path w = Some (Inr f, w))) \<and>
    (\<forall>m. mount_at (vfs_tree v) [] = Some m \<and> components path \<noteq> [] \<longrightarrow> vfs_get_file ops v path w = Some (Inl PathNotFound, w)) \<and>
    (\<forall>n. subnode (vfs_tree v) (components path) = Some n \<and> node_contents n = None \<longrightarrow>
      (\<exists>f. node_file (components path) f \<and> vfs_get_file ops v path w = Some (Inr f, w))) \<and>
    (\<forall>ps qs m. components path = ps @ qs \<and> ps \<noteq> [] \<and> mount_at (vfs_tree v) ps = Some m \<and> \<not> fo_alive ops m w \<longrightarrow>
      vfs_get_file ops v path w = Some (Inl UnknownError, w)) \<and>
    (\<forall>ps qs m. components path = ps @ qs \<and> ps \<noteq> [] \<and> mount_at (vfs_tree v) ps = Some m \<and> fo_alive ops m w \<longrightarrow>
      (\<exists>g. mount_file ops w m ps g \<and> vfs_get_file ops v path w =
        (case qs of
           [] \<Rightarrow> Some (Inr g, w)
         | q # qs' \<Rightarrow> io_bind (fo_get_root ops m) (\<lambda>root. io_bind (fo_get_child ops m root q)
             (\<lambda>next. walk (root_of ops) (child_of ops v) (ArcFs m) next qs')) w))) \<and>
    (subnode (vfs_tree v) (components path) = None \<and> (\<forall>ps. prefix ps (components path) \<longrightarrow> mount_at (vfs_tree v) ps = None) \<longrightarrow>
      vfs_get_file ops v path w = Some (Inl PathNotFound, w))"
proof (intro conjI allI impI; (elim conjE)?)
  fix ps qs m assume a: "components path = ps @ qs" "ps \<noteq> []" "mount_at (vfs_tree v) ps = Some m" "fo_alive ops m w"
  obtain g where g: "mount_file ops w m ps g" "vfs_get_file ops v path w = vfs_walk ops v OwnFs g qs w"
    using vfs_get_file_mounted [OF assms a] by blast
  have "get_mounted_fs g = Some m" using g(1) by (simp add: mount_file_def get_mounted_fs_def)
  then show "\<exists>g. mount_file ops w m ps g \<and> vfs_get_file ops v path w =
        (case qs of
           [] \<Rightarrow> Some (Inr g, w)
         | q # qs' \<Rightarrow> io_bind (fo_get_root ops m) (\<lambda>root. io_bind (fo_get_child ops m root q)
             (\<lambda>next. vfs_walk ops v (ArcFs m) next qs')) w)"
    using g by (auto simp: io_ok_def root_of_def child_of_def split: list.splits intro!: exI [of _ g])
next
  assume "subnode (vfs_tree v) (components path) = None" "\<forall>ps. prefix ps (components path) \<longrightarrow> mount_at (vfs_tree v) ps = None"
  then show "vfs_get_file ops v path w = Some (Inl PathNotFound, w)"
    using vfs_get_file_missing [OF assms, of path ops w] by (simp add: io_err_def)
next
  assume "components path = []"
  then show "\<exists>f. node_file [] f \<and> vfs_get_file ops v path w = Some (Inr f, w)"
    using vfs_get_file_root [of path ops v w] by (simp add: io_ok_def)
next
  fix m assume "mount_at (vfs_tree v) [] = Some m" "components path \<noteq> []"
  then show "vfs_get_file ops v path w = Some (Inl PathNotFound, w)"
    using vfs_get_file_under_root_mount [OF assms, of m path ops w] by (simp add: io_err_def)
next
  fix ps qs m assume "components path = ps @ qs" "ps \<noteq> []" "mount_at (vfs_tree v) ps = Some m" "\<not> fo_alive ops m w"
  then show "vfs_get_file ops v path w = Some (Inl UnknownError, w)"
    using vfs_get_file_dead_mount [OF assms, of path ps qs m ops w] by (simp add: io_err_def)
next
  fix n assume "subnode (vfs_tree v) (components path) = Some n" "node_contents n = None"
  then show "\<exists>f. node_file (components path) f \<and> vfs_get_file ops v path w = Some (Inr f, w)"
    using vfs_get_file_directory [OF assms, of path n ops w] by (simp add: io_ok_def)
qed


text \<open>A virtual file system with the pipe file system mounted, as \<^verbatim>\<open>get_vfs\<close> builds it.\<close>

definition demo_vfs :: Vfs where
  "demo_vfs = \<lparr>vfs_fs_by_id = [(2, 7)], vfs_tree = MountNode [(''pipes'', MountNode [] (Some 7))] None,
     vfs_root_fs = Some 0, vfs_os_id_count = 2\<rparr>"

definition demo_heap :: "PipeFs \<Rightarrow> nat" where
  "demo_heap s = 4096"

definition demo_mounted :: PipeFs where
  "demo_mounted = snd (pipefs_on_mount pipefs_init
     \<lparr>vf_kind = KMountPoint 7, vf_name = ''pipes'', vf_size = 0, vf_parent_fs = 1, vf_fs = 2, vf_specific = VfsSpecific\<rparr> 2 0)"

lemma components_pipes: "components ''pipes'' = [''pipes'']" "components ''/pipes/a'' = [''pipes'', ''a'']"
  by (simp_all add: components_def)

lemma demo_vfs_inv: "vfs_inv demo_vfs" "mount_at (vfs_tree demo_vfs) [''pipes''] = Some 7"
  by (simp_all add: vfs_inv_def demo_vfs_def)

theorem vfs_get_file_resolves_witness:
  "\<exists>g. vfs_get_file (pipefs_ops demo_heap) demo_vfs ''/pipes'' demo_mounted = Some (Inr g, demo_mounted) \<and> vf_kind g = KMountPoint 7"
proof -
  have c: "components ''/pipes'' = [''pipes''] @ []" by (simp add: components_def)
  have ok: "tree_ok (vfs_tree demo_vfs)" using demo_vfs_inv by (simp add: vfs_inv_def)
  obtain g where "mount_file (pipefs_ops demo_heap) demo_mounted 7 [''pipes''] g"
    "vfs_get_file (pipefs_ops demo_heap) demo_vfs ''/pipes'' demo_mounted = Some (Inr g, demo_mounted)"
    using vfs_get_file_resolves [OF ok, THEN conjunct2, THEN conjunct2, THEN conjunct2, THEN conjunct2, THEN conjunct1, rule_format, of "''/pipes''" "[''pipes'']" "[]" 7
        "pipefs_ops demo_heap" demo_mounted] c demo_vfs_inv(2) by auto
  then show ?thesis by (auto simp: mount_file_def)
qed

section \<open>Mounting the pipe file system\<close>

text \<open>
  C20: In a well-formed VFS that knows its own reference and has identifiers left, mounting the
  pipe file system on a path that conflicts with no mounted one succeeds and registers it
  under a new identifier; the path then resolves to a mount point of it with that identifier,
  except that the root path still resolves to the VFS's own directory; unmounting the path
  restores the mount table and the registry.
\<close>

theorem pipefs_mount_unmount:
  assumes "vfs_inv v" "vfs_root_fs v = Some r" "vfs_os_id_count v + 1 < 2 ^ 64"
    and free: "\<not> table_conflict (mount_at (vfs_tree v)) (components name)"
  shows "\<exists>f v' s' g v'' s''.
    vfs_mount (pipefs_ops heap) v name ptr s = Some ((Inr f, v'), s') \<and> get_fs_by_id v' (vf_fs f) = Some ptr \<and>
    vfs_get_file (pipefs_ops heap) v' name s' = Some (Inr g, s') \<and>
    (if components name = [] then vf_kind g = KDirectory \<and> vf_fs g = VFS_OS_ID
     else vf_kind g = KMountPoint ptr \<and> vf_fs g = vf_fs f) \<and>
    vfs_unmount (pipefs_ops heap) v' name s' = Some ((Inr (), v''), s'') \<and>
    mount_at (vfs_tree v'') = mount_at (vfs_tree v) \<and> get_fs_by_id v'' = get_fs_by_id v"
proof -
  obtain f v' s' where m: "vfs_mount (pipefs_ops heap) v name ptr s = Some ((Inr f, v'), s')" "vfs_inv v'"
    "mount_at (vfs_tree v') = (mount_at (vfs_tree v))(components name \<mapsto> ptr)"
    "map_of (vfs_fs_by_id v') = (map_of (vfs_fs_by_id v))(vfs_os_id_count v + 1 \<mapsto> ptr)"
    "vf_fs f = vfs_os_id_count v + 1" "fo_os_id (pipefs_ops heap) ptr s' = vfs_os_id_count v + 1"
    by (rule pfm.mount_ok [OF assms(1-4), of heap ptr s])
  obtain v'' s'' where u: "vfs_unmount (pipefs_ops heap) v' name s' = Some ((Inr (), v''), s'')"
    "mount_at (vfs_tree v'') = mount_at (vfs_tree v)" "map_of (vfs_fs_by_id v'') = map_of (vfs_fs_by_id v)"
    by (rule pfm.unmount_after_mount [OF assms(1-4), of heap ptr s]) (use m(1) in auto)
  have ok: "tree_ok (vfs_tree v')" using m(2) by (simp add: vfs_inv_def)
  have "\<exists>g. vfs_get_file (pipefs_ops heap) v' name s' = Some (Inr g, s') \<and>
    (if components name = [] then vf_kind g = KDirectory \<and> vf_fs g = VFS_OS_ID
     else vf_kind g = KMountPoint ptr \<and> vf_fs g = vf_fs f)"
  proof (cases "components name = []")
    case True
    then show ?thesis using vfs_get_file_root [of name "pipefs_ops heap" v' s'] by (auto simp: io_ok_def node_file_def)
  next
    case False
    then show ?thesis
      using vfs_get_file_mounted [OF ok, of name "components name" "[]" ptr "pipefs_ops heap" s'] m(3,5,6)
      by (auto simp: io_ok_def mount_file_def)
  qed
  then show ?thesis using m u by (auto simp: get_fs_by_id_def fun_eq_iff)
qed

theorem pipefs_mount_unmount_witness:
  "\<exists>f v' s'. init_pipefs demo_heap (vfs_new 0) 7 = Some ((Inr f, v'), s') \<and> get_fs_by_id v' (vf_fs f) = Some 7"
proof -
  have "\<not> table_conflict (mount_at (vfs_tree (vfs_new 0))) (components ''pipes'')"
    by (simp add: vfs_new_def mounts_new_ok table_conflict_def)
  then show ?thesis
    using pipefs_mount_unmount [OF vfs_new_inv [of 0], of 0 "''pipes''" demo_heap 7 pipefs_init]
    by (auto simp: vfs_new_def components_pipes init_pipefs_def)
qed

section \<open>Pipes through paths\<close>

lemma mkdir0_pipe:
  assumes ok: "tree_ok (vfs_tree v)" and m: "mount_at (vfs_tree v) [''pipes''] = Some ptr"
    and id: "pf_next_pipe_id s + 1 < 2 ^ 64"
  obtains dir where "file_mkdir0 (pipefs_ops heap) v ''/pipes/a'' s = Some (Inr dir, created_pipefs s)"
    "vf_fs (d_vfsfile dir) = pf_os_id s" "vf_name (d_vfsfile dir) = to_string (pf_next_pipe_id s)"
    "vf_specific (d_vfsfile dir) = PipeSpecific (PipefsDir (pf_next_pipe_id s))"
proof -
  let ?ops = "pipefs_ops heap"
  obtain r where r: "(vfs_get_root :: (PipeFs, VfsFile) vio) = io_ok r" "node_file [] r" using vfs_root_node_file by blast
  have c: "subnode (vfs_tree v) [] = Some (vfs_tree v)" by simp
  have p: "''pipes'' \<noteq> []" "CHR ''/'' \<notin> set ''pipes''" by simp_all
  obtain k where k: "subnode (vfs_tree v) ([] @ [''pipes'']) = Some k" "node_contents k = Some ptr"
    using m by (auto simp: mount_at_def split: option.splits)
  obtain g where g: "mount_file ?ops s ptr ([] @ [''pipes'']) g" "vfs_get_child ?ops v r ''pipes'' s = io_ok g s"
    using vfs_get_child_cases(3) [OF r(2) p c k, of ?ops s] by auto
  define t where "t = \<lparr>pt_splitter = ps_new ''/pipes/a'', pt_fs = OwnFs, pt_curr = r\<rparr>"
  have t: "ps_ok (pt_splitter t)" "ps_rest (pt_splitter t) = [''pipes'', ''a'']"
    by (simp_all add: t_def ps_new_ok ps_new_rest components_def)
  obtain s1 where s1: "ps_ok s1" "ps_rest s1 = [''a'']"
    "find_next (root_of ?ops) (child_of ?ops v) t s = Some ((Inr g, t\<lparr>pt_splitter := s1, pt_curr := g\<rparr>), s)"
    using g(2) node_file_not_mount [OF r(2)]
    by (auto simp: t_def enter_mount_def io_ok_def child_of_def intro: find_next_step [OF t, of "root_of ?ops" "child_of ?ops v" s])
  define t1 where "t1 = t\<lparr>pt_splitter := s1, pt_curr := g\<rparr>"
  define t2 where "t2 = t1\<lparr>pt_curr := pipefs_get_root s, pt_fs := ArcFs ptr\<rparr>"
  have t1: "ps_ok (pt_splitter t1)" "ps_rest (pt_splitter t1) = [''a'']" and t2: "ps_ok (pt_splitter t2)" "ps_rest (pt_splitter t2) = [''a'']"
    using s1 by (simp_all add: t1_def t2_def)
  have "get_mounted_fs g = Some ptr" using g(1) by (simp add: mount_file_def get_mounted_fs_def)
  then have e: "enter_mount (root_of ?ops) t1 s = Some (Inr t2, s)"
    by (simp add: enter_mount_def root_of_def io_bind_def io_ok_def t1_def t2_def)
  have nf: "pipefs_get_child s (pipefs_get_root s) ''a'' = Inl PathNotFound"
    by (simp add: pipefs_get_child_def pipefs_get_root_def decimal_chars_to_u64_def to_digit_def)
  have f2: "find_next (root_of ?ops) (child_of ?ops v) t1 s = Some ((Inl PathNotFound, t2), s)"
    by (rule find_next_step [OF t1, of "root_of ?ops" "child_of ?ops v" s]) (simp add: e child_of_def t2_def nf)
  obtain dir where dir: "pipefs_create_child s (pipefs_get_root s) ''a'' KDirectory = Some (Inr dir, created_pipefs s)"
      "vf_fs dir = pf_os_id s" "vf_name dir = to_string (pf_next_pipe_id s)"
      "vf_specific dir = PipeSpecific (PipefsDir (pf_next_pipe_id s))" and kind: "vf_kind dir = KDirectory"
    using create_pipe_dir [OF id, of "''a''"] id
    by (auto simp: pipefs_create_child_def pipefs_get_root_def downcast_pipe_def add64_def Let_def)
  obtain s3 where s3: "ps_ok s3" "ps_rest s3 = []"
    "traverse_mkdir (create_of ?ops) t2 s = Some ((Inr dir, t2\<lparr>pt_splitter := s3, pt_curr := dir\<rparr>), created_pipefs s)"
    by (rule traverse_mkdir_step [OF t2, of "create_of ?ops" s]) (simp add: create_of_def t2_def dir(1))
  have d1: "\<not> traverse_is_done t1" using ps_done_iff [OF t1(1)] t1(2) by (simp add: traverse_is_done_def)
  have d3: "ps_is_done s3" using ps_done_iff [OF s3(1)] s3(2) by simp
  have l1: "mkdir0_loop ?ops v path False t s = mkdir0_loop ?ops v path False t1 s" for path
    using d1 by (subst mkdir0_loop.simps) (simp add: s1(3) t1_def [symmetric])
  have l2: "mkdir0_loop ?ops v path False t1 s =
      Some (entry_get_dir \<lparr>de_full_name = path, de_entry = dir\<rparr>, created_pipefs s)" for path
    by (subst mkdir0_loop.simps) (simp add: f2 s3(3) d3 traverse_is_done_def io_result_def)
  have "file_mkdir0 ?ops v ''/pipes/a'' s = Some (Inr (directory_of ''/pipes/a'' dir), created_pipefs s)"
    by (simp add: file_mkdir0_def traverse_new_owned_def root_of_def r(1) l1 l2 kind entry_get_dir_def flip: t_def)
  then show ?thesis by (rule that) (simp_all add: directory_of_def dir)
qed


lemma impl_pipe_create_created:
  fixes heap :: "PipeFs \<Rightarrow> nat"
  assumes inv: "pipefs_inv L s" and fs: "get_fs_by_id v (pf_os_id s) = Some ptr"
    and dir: "vf_fs (d_vfsfile dir) = pf_os_id s" "vf_name (d_vfsfile dir) = to_string (pf_next_pipe_id s)"
      "vf_specific (d_vfsfile dir) = PipeSpecific (PipefsDir (pf_next_pipe_id s))"
  defines "a1 \<equiv> heap (created_pipefs s)"
  defines "a2 \<equiv> heap (half_opened_pipefs s a1)"
  obtains rf wf where "impl_pipe_create (pipefs_ops heap) v dir (created_pipefs s) =
    Some (Inr (pf_next_pipe_id s, a1, a2, ptr, rf, wf), opened_pipefs s a1 a2)"
proof -
  note g = created_children [OF inv dir]
  have "impl_pipe_create (pipefs_ops heap) v dir (created_pipefs s) =
    Some (Inr (pf_next_pipe_id s, a1, a2, ptr, pipe_file (created_pipefs s) (pf_next_pipe_id s) (pf_next_pipe_id s) PipeRead ''r'',
      pipe_file (created_pipefs s) (pf_next_pipe_id s) (pf_next_pipe_id s) PipeWrite ''w''), opened_pipefs s a1 a2)"
    by (simp add: impl_pipe_create_def fs_of_file_def fs dir(1) io_bind_def io_result_def io_ok_def g Let_def
        open_created_steps [OF inv] flip: a1_def a2_def)
  then show ?thesis by (rule that)
qed

text \<open>
  C21: In a VFS with the pipe file system mounted on /pipes, in any reachable state of it with pipe
  identifiers left and a heap that gives every handle an unused address, Pipe::create walks
  /pipes/a through the mount point, makes a fresh pipe and opens its two ends; between 1 byte
  and 64 KiB written to the writer come back from the reader.
\<close>

theorem pipe_create_roundtrip:
  assumes v: "vfs_inv v" "mount_at (vfs_tree v) [''pipes''] = Some ptr" "get_fs_by_id v (pf_os_id s) = Some ptr"
    and s: "pipefs_reachable s" "pf_next_pipe_id s + 1 < 2 ^ 64"
    and heap: "\<And>t. finite (dom (pf_handles t)) \<Longrightarrow> pf_handles t (heap t) = None"
    and xs: "0 < length xs" "length xs \<le> 64 * 1024" "length buf = length xs"
  shows "\<exists>rf wf s1 s2 s3.
    pipe_create (pipefs_ops heap) v s = Some (Inr (pf_next_pipe_id s, rf, wf), s1) \<and> f_handle rf \<noteq> f_handle wf \<and>
    file_write (pipefs_ops heap) wf xs s1 = Some (Inr (length xs), s2) \<and>
    file_read (pipefs_ops heap) rf buf s2 = Some (Inr (length xs, xs), s3)"
proof -
  let ?ops = "pipefs_ops heap" and ?i = "pf_next_pipe_id s" and ?s = "created_pipefs s"
  have ok: "tree_ok (vfs_tree v)" using v(1) by (simp add: vfs_inv_def)
  obtain L where inv: "pipefs_inv L s" using pipefs_reachable_inv [OF s(1)] by blast
  obtain dir where dir: "file_mkdir0 ?ops v ''/pipes/a'' s = Some (Inr dir, ?s)"
    "vf_fs (d_vfsfile dir) = pf_os_id s" "vf_name (d_vfsfile dir) = to_string ?i"
    "vf_specific (d_vfsfile dir) = PipeSpecific (PipefsDir ?i)"
    using mkdir0_pipe [OF ok v(2) s(2)] .
  define a1 where "a1 = heap ?s"
  define a2 where "a2 = heap (half_opened_pipefs s a1)"
  have "finite (dom (pf_handles (half_opened_pipefs s a1)))"
    using inv_base(1) [OF inv] by (simp add: half_opened_pipefs_def Let_def)
  then have ne: "a1 \<noteq> a2" using heap [of "half_opened_pipefs s a1"] by (auto simp: a2_def half_opened_pipefs_def Let_def)
  obtain rf wf where e: "impl_pipe_create ?ops v dir ?s = Some (Inr (?i, a1, a2, ptr, rf, wf), opened_pipefs s a1 a2)"
    using impl_pipe_create_created [OF inv v(3) dir(2-4), of heap] unfolding a1_def a2_def .
  obtain s3 s4 where tr: "pipefs_fwrite (opened_pipefs s a1 a2) a2 xs = Some (Inr (length xs), s3)"
    "pipefs_fread s3 a1 buf = Some (Inr (length xs, xs), s4)"
    using opened_transfer [OF ne xs] .
  show ?thesis using dir(1) e tr ne
    by (simp add: pipe_create_def io_bind_def io_ok_def file_write_def file_read_def Let_def)
qed

text \<open>A heap that returns the least free address is one the theorem applies to.\<close>

definition demo_alloc :: "PipeFs \<Rightarrow> nat" where
  "demo_alloc t = (LEAST a. pf_handles t a = None)"

lemma demo_alloc_fresh: "finite (dom (pf_handles t)) \<Longrightarrow> pf_handles t (demo_alloc t) = None"
proof -
  assume "finite (dom (pf_handles t))"
  then obtain a where "a \<notin> dom (pf_handles t)" using ex_new_if_finite infinite_UNIV_nat by blast
  then show ?thesis unfolding demo_alloc_def by (metis (mono_tags) LeastI domIff)
qed

theorem pipe_create_roundtrip_witness:
  "\<exists>rf wf s1 s2 s3. pipe_create (pipefs_ops demo_alloc) demo_vfs demo_mounted = Some (Inr (0, rf, wf), s1) \<and>
     file_write (pipefs_ops demo_alloc) wf [1, 2, 3] s1 = Some (Inr 3, s2) \<and>
     file_read (pipefs_ops demo_alloc) rf [0, 0, 0] s2 = Some (Inr (3, [1, 2, 3]), s3)"
proof -
  have "pipefs_reachable demo_mounted"
    unfolding demo_mounted_def pipefs_reachable_def using pipefs_history.mount [OF pipefs_history.init surjective_pairing] by blast
  moreover have "pf_next_pipe_id demo_mounted = 0" "get_fs_by_id demo_vfs (pf_os_id demo_mounted) = Some 7"
    by (simp_all add: demo_mounted_def pipefs_on_mount_def Let_def pipefs_init_def get_fs_by_id_def demo_vfs_def)
  ultimately show ?thesis
    using pipe_create_roundtrip [OF demo_vfs_inv, of demo_mounted demo_alloc "[1, 2, 3]" "[0, 0, 0]"] demo_alloc_fresh
    by fastforce
qed

section \<open>Names of directory entries\<close>

lemma trim_slashes_snoc: "trim_slashes (xs @ [c]) = (if is_slash c then trim_slashes xs else xs @ [c])"
  by (simp add: trim_slashes_def)

lemma trim_slashes_Nil: "trim_slashes xs = [] \<longleftrightarrow> (\<forall>c \<in> set xs. is_slash c)"
  by (simp add: trim_slashes_def dropWhile_eq_Nil_conv)

lemma trim_slashes_take: "trim_slashes xs = take (length (trim_slashes xs)) xs"
proof (induction xs rule: rev_induct)
  case (snoc c xs)
  have "length (trim_slashes xs) \<le> length xs"
    using length_dropWhile_le [of is_slash "rev xs"] by (simp add: trim_slashes_def)
  then show ?case using snoc by (simp add: trim_slashes_snoc)
qed (simp add: trim_slashes_def)

lemma entry_name_scan_eq:
  "i < length name \<Longrightarrow> entry_name_scan name i =
     (let t = trim_slashes (take (Suc i) name) in if t = [] then None else Some (length t - 1))"
proof (induction i)
  case 0
  then have "take (Suc 0) name = [] @ [name ! 0]" by (cases name) auto
  then show ?case using 0 by (subst entry_name_scan.simps) (simp only: trim_slashes_snoc, auto simp: trim_slashes_def)
next
  case (Suc i)
  have tk: "take (Suc (Suc i)) name = take (Suc i) name @ [name ! Suc i]" using Suc.prems by (rule take_Suc_conv_app_nth)
  show ?case
  proof (cases "is_slash (name ! Suc i)")
    case True
    then have "entry_name_scan name (Suc i) = entry_name_scan name i" using Suc.prems by (subst entry_name_scan.simps) simp
    then show ?thesis using Suc True unfolding tk by (simp add: trim_slashes_snoc)
  next
    case False
    then have "entry_name_scan name (Suc i) = Some (Suc i)" by (subst entry_name_scan.simps) simp
    then show ?thesis using Suc.prems False unfolding tk by (simp add: trim_slashes_snoc min_def)
  qed
qed

text \<open>
  C22: DirectoryEntry::name strips the trailing slashes of a name and panics (with overflow checks)
  exactly when the name has no other character.
\<close>

theorem directory_entry_name:
  "entry_name e =
     (if \<forall>c \<in> set (vf_name (de_entry e)). c = CHR ''/'' then None else Some (trim_slashes (vf_name (de_entry e))))"
proof (cases "vf_name (de_entry e)" rule: rev_cases)
  case Nil
  then show ?thesis by (simp add: entry_name_def sub64_def)
next
  case (snoc xs c)
  let ?name = "vf_name (de_entry e)" let ?t = "trim_slashes ?name"
  have len: "length ?name = Suc (length xs)" by (simp add: snoc)
  have scan: "entry_name_scan ?name (length xs) = (if ?t = [] then None else Some (length ?t - 1))"
    using entry_name_scan_eq [of "length xs" ?name] by (simp add: len Let_def snoc)
  have name: "entry_name e = Option.bind (entry_name_scan ?name (length xs)) (\<lambda>l. slice_get ?name 0 (l + 1))"
    by (simp add: entry_name_def len sub64_def Let_def)
  have "length ?t \<le> length ?name"
    using length_dropWhile_le [of is_slash "rev ?name"] by (simp add: trim_slashes_def)
  then have "slice_get ?name 0 (length ?t - 1 + 1) = Some ?t" if "?t \<noteq> []"
    using that trim_slashes_take [of ?name] by (simp add: slice_get_def slice_of_def Suc_le_eq)
  then show ?thesis using scan trim_slashes_Nil [of ?name] by (simp add: name)
qed

theorem directory_entry_name_witness:
  "entry_name \<lparr>de_full_name = ''/pipes//'', de_entry = pipefs_get_root pipefs_init\<rparr> = None"
  using directory_entry_name [of "\<lparr>de_full_name = ''/pipes//'', de_entry = pipefs_get_root pipefs_init\<rparr>"]
  by (simp add: pipefs_get_root_def)

end
