(* ===== verification/Block_Device.thy ===== *)
theory Block_Device
  imports Vfs
begin

text \<open>
  Block devices of \<^verbatim>\<open>drivers/vfs.rs\<close>: the interface \<^verbatim>\<open>BlockDevice\<close>, the
  partition view \<^verbatim>\<open>SubBlockDevice\<close>, and \<^verbatim>\<open>BlockDeviceAsCharacterDevice\<close>,
  which reads and writes at byte offsets. The locale \<open>block_device\<close> is the contract of a
  device that stores a list of blocks; under it the byte-level operations are the operations of
  one flat byte array.
\<close>

record 'w BlockDevice =
  bd_generation :: "'w \<Rightarrow> nat"
  bd_block_size :: "'w \<Rightarrow> nat"
  bd_block_count :: "'w \<Rightarrow> nat panics"
  bd_read_block :: "nat \<Rightarrow> u8 list \<Rightarrow> 'w \<Rightarrow> ((nat vresult \<times> u8 list) \<times> 'w) panics"
  bd_write_block :: "nat \<Rightarrow> u8 list \<Rightarrow> ('w, nat) vio"
  bd_flush :: "('w, unit) vio"

section \<open>Partitions\<close>

record SubBlockDevice =
  sb_generation :: nat
  sb_begin_block :: nat
  sb_end_block :: nat

definition sub_new :: "'w BlockDevice \<Rightarrow> nat \<Rightarrow> nat \<Rightarrow> 'w \<Rightarrow> SubBlockDevice" where
  "sub_new dev begin_block end_block w =
     \<lparr>sb_generation = bd_generation dev w, sb_begin_block = begin_block, sb_end_block = end_block\<rparr>"

definition sub_block_count :: "SubBlockDevice \<Rightarrow> nat panics" where
  "sub_block_count sb = sub64 (sb_end_block sb) (sb_begin_block sb)"

definition sub_read_block ::
    "'w BlockDevice \<Rightarrow> SubBlockDevice \<Rightarrow> nat \<Rightarrow> u8 list \<Rightarrow> 'w \<Rightarrow> ((nat vresult \<times> u8 list) \<times> 'w) panics" where
  "sub_read_block dev sb lba buf w = do {
     count \<leftarrow> sub_block_count sb;
     if count \<le> lba then Some ((Inl OutOfBounds, buf), w) else bd_read_block dev lba buf w
   }"

definition sub_write_block :: "'w BlockDevice \<Rightarrow> SubBlockDevice \<Rightarrow> nat \<Rightarrow> u8 list \<Rightarrow> ('w, nat) vio" where
  "sub_write_block dev sb lba buf w = do {
     count \<leftarrow> sub_block_count sb;
     if count \<le> lba then io_err OutOfBounds w
     else if bd_generation dev w \<noteq> sb_generation sb then io_err ActionNotAllowed w
     else bd_write_block dev lba buf w
   }"

definition sub_device :: "'w BlockDevice \<Rightarrow> SubBlockDevice \<Rightarrow> 'w BlockDevice" where
  "sub_device dev sb =
     \<lparr>bd_generation = (\<lambda>_. sb_generation sb), bd_block_size = bd_block_size dev,
      bd_block_count = (\<lambda>_. sub_block_count sb), bd_read_block = sub_read_block dev sb,
      bd_write_block = sub_write_block dev sb, bd_flush = bd_flush dev\<rparr>"

section \<open>Byte access\<close>

definition char_get_size :: "'w BlockDevice \<Rightarrow> 'w \<Rightarrow> nat panics" where
  "char_get_size dev w = do { count \<leftarrow> bd_block_count dev w; mul64 count (bd_block_size dev w) }"

text \<open>\<open>bs\<close> is the block size read before the loop; a block size of zero divides by zero.\<close>

partial_function (option) read_chars_loop ::
    "'w BlockDevice \<Rightarrow> nat \<Rightarrow> nat \<Rightarrow> nat \<Rightarrow> nat \<Rightarrow> u8 list \<Rightarrow> u8 list \<Rightarrow> 'w \<Rightarrow> ((nat vresult \<times> u8 list) \<times> 'w) panics" where
  [code]: "read_chars_loop dev bs to_read done_bytes offset block buf w =
     (if done_bytes < to_read then do {
        _ \<leftarrow> assert_rust (bd_block_size dev w \<noteq> 0);
        let lba = offset div bd_block_size dev w;
        let pos = offset mod bd_block_size dev w;
        max_read_sector \<leftarrow> sub64 bs pos;
        let n = min (to_read - done_bytes) max_read_sector;
        ((r, block'), w') \<leftarrow> bd_read_block dev lba block w;
        (case r of
           Inl e \<Rightarrow> Some ((Inl e, buf), w')
         | Inr _ \<Rightarrow> do {
             part \<leftarrow> slice_get block' pos (pos + n);
             buf' \<leftarrow> copy_from_slice buf done_bytes (done_bytes + n) part;
             offset' \<leftarrow> add64 offset n;
             read_chars_loop dev bs to_read (done_bytes + n) offset' block' buf' w'
           })
      } else Some ((Inr done_bytes, buf), w))"

definition read_chars :: "'w BlockDevice \<Rightarrow> nat \<Rightarrow> u8 list \<Rightarrow> 'w \<Rightarrow> ((nat vresult \<times> u8 list) \<times> 'w) panics" where
  "read_chars dev offset buf w = do {
     sz \<leftarrow> char_get_size dev w;
     avail \<leftarrow> sub64 sz offset;
     let bs = bd_block_size dev w;
     read_chars_loop dev bs (min (length buf) avail) 0 offset (replicate bs 0) buf w
   }"

partial_function (option) write_chars_loop ::
    "'w BlockDevice \<Rightarrow> nat \<Rightarrow> nat \<Rightarrow> nat \<Rightarrow> nat \<Rightarrow> u8 list \<Rightarrow> u8 list \<Rightarrow> ('w, nat) vio" where
  [code]: "write_chars_loop dev bs to_write done_bytes offset block buf w =
     (if done_bytes < to_write then do {
        _ \<leftarrow> assert_rust (bd_block_size dev w \<noteq> 0);
        let lba = offset div bd_block_size dev w;
        let pos = offset mod bd_block_size dev w;
        max_write_sector \<leftarrow> sub64 bs pos;
        let n = min (to_write - done_bytes) max_write_sector;
        part \<leftarrow> slice_get buf done_bytes (done_bytes + n);
        (if n \<noteq> bs then do {
           ((r, block'), w') \<leftarrow> bd_read_block dev lba block w;
           (case r of
              Inl e \<Rightarrow> io_err e w'
            | Inr _ \<Rightarrow> do {
                block'' \<leftarrow> copy_from_slice block' pos (pos + n) part;
                (q, w'') \<leftarrow> bd_write_block dev lba block'' w';
                (case q of
                   Inl e \<Rightarrow> io_err e w''
                 | Inr _ \<Rightarrow> do {
                     offset' \<leftarrow> add64 offset n;
                     write_chars_loop dev bs to_write (done_bytes + n) offset' block'' buf w''
                   })
              })
         } else do {
           (q, w'') \<leftarrow> bd_write_block dev lba part w;
           (case q of
              Inl e \<Rightarrow> io_err e w''
            | Inr _ \<Rightarrow> do {
                offset' \<leftarrow> add64 offset n;
                write_chars_loop dev bs to_write (done_bytes + n) offset' block buf w''
              })
         })
      } else io_ok done_bytes w)"

definition write_chars :: "'w BlockDevice \<Rightarrow> nat \<Rightarrow> u8 list \<Rightarrow> ('w, nat) vio" where
  "write_chars dev offset buf w = do {
     sz \<leftarrow> char_get_size dev w;
     avail \<leftarrow> sub64 sz offset;
     let bs = bd_block_size dev w;
     write_chars_loop dev bs (min (length buf) avail) 0 offset (replicate bs 0) buf w
   }"

section \<open>Blocks and bytes\<close>

definition uniform :: "nat \<Rightarrow> 'a list list \<Rightarrow> bool" where
  "uniform bs blocks \<longleftrightarrow> (\<forall>b \<in> set blocks. length b = bs)"

lemma uniform_nth: "uniform bs blocks \<Longrightarrow> i < length blocks \<Longrightarrow> length (blocks ! i) = bs"
  by (simp add: uniform_def)

lemma uniform_update: "uniform bs blocks \<Longrightarrow> length b = bs \<Longrightarrow> uniform bs (blocks[i := b])"
  by (auto simp: uniform_def dest: subsetD [OF set_update_subset_insert])

lemma uniform_take: "uniform bs blocks \<Longrightarrow> uniform bs (take n blocks)"
  by (auto simp: uniform_def dest: in_set_takeD)

lemma length_concat_uniform: "uniform bs blocks \<Longrightarrow> length (concat blocks) = length blocks * bs"
  by (induction blocks) (auto simp: uniform_def)

lemma concat_take_uniform: "uniform bs blocks \<Longrightarrow> i \<le> length blocks \<Longrightarrow> concat (take i blocks) = take (i * bs) (concat blocks)"
proof (induction blocks arbitrary: i)
  case (Cons b blocks)
  then show ?case by (cases i) (auto simp: uniform_def take_add)
qed simp

lemma concat_drop_uniform: "uniform bs blocks \<Longrightarrow> i \<le> length blocks \<Longrightarrow> concat (drop i blocks) = drop (i * bs) (concat blocks)"
proof (induction blocks arbitrary: i)
  case (Cons b blocks)
  then show ?case by (cases i) (auto simp: uniform_def)
qed simp

lemma block_index_less: "(i :: nat) < n \<Longrightarrow> p + k \<le> bs \<Longrightarrow> i * bs + p + k \<le> n * bs"
  using mult_le_mono1 [of "Suc i" n bs] by simp

lemma block_split: "i < length blocks \<Longrightarrow> blocks = take i blocks @ blocks ! i # drop (Suc i) blocks"
  by (rule id_take_nth_drop)

lemma slice_middle: "length A = a \<Longrightarrow> p + n \<le> length B \<Longrightarrow> slice_of (A @ B @ C) (a + p) (a + p + n) = slice_of B p (p + n)"
  by (simp add: slice_of_def)

lemma splice_middle: "length A = a \<Longrightarrow> p + length xs \<le> length B \<Longrightarrow> splice_at (A @ B @ C) (a + p) xs = A @ splice_at B p xs @ C"
  by (simp add: splice_at_def)

lemma concat_split_uniform:
  assumes "uniform bs blocks" "i < length blocks"
  obtains A C where "concat blocks = A @ blocks ! i @ C" "length A = i * bs"
    "\<And>b. concat (blocks[i := b]) = A @ b @ C"
proof (rule that)
  show "concat blocks = concat (take i blocks) @ blocks ! i @ concat (drop (Suc i) blocks)"
    by (subst block_split [OF assms(2)]) (simp only: concat_append concat.simps)
  show "length (concat (take i blocks)) = i * bs"
    using length_concat_uniform [OF uniform_take [OF assms(1), of i]] assms(2) by simp
  show "concat (blocks[i := b]) = concat (take i blocks) @ b @ concat (drop (Suc i) blocks)" for b
    using assms(2) by (simp add: upd_conv_take_nth_drop)
qed

lemma slice_concat_uniform:
  assumes "uniform bs blocks" "i < length blocks" "p + n \<le> bs"
  shows "slice_of (concat blocks) (i * bs + p) (i * bs + p + n) = slice_of (blocks ! i) p (p + n)"
  using concat_split_uniform [OF assms(1,2)] slice_middle uniform_nth [OF assms(1,2)] assms(3) by metis

lemma splice_concat_uniform:
  assumes "uniform bs blocks" "i < length blocks" "p + length xs \<le> bs"
  shows "concat (blocks[i := splice_at (blocks ! i) p xs]) = splice_at (concat blocks) (i * bs + p) xs"
  using concat_split_uniform [OF assms(1,2)] splice_middle uniform_nth [OF assms(1,2)] assms(3) by metis

lemma splice_extend: "length xs = n \<Longrightarrow> a + n + length ys \<le> length zs \<Longrightarrow>
    splice_at (splice_at zs a xs) (a + n) ys = splice_at zs a (xs @ ys)"
  by (simp add: splice_at_def ac_simps)

lemma splice_Nil [simp]: "splice_at zs a [] = zs"
  by (simp add: splice_at_def)

lemma slice_empty [simp]: "slice_of zs a a = []"
  by (simp add: slice_of_def)

section \<open>The contract\<close>

locale block_device =
  fixes dev :: "'w BlockDevice" and bs :: nat and disk :: "'w \<Rightarrow> u8 list list" and ok :: "'w \<Rightarrow> bool"
  assumes bs_pos: "0 < bs"
    and geometry: "ok w \<Longrightarrow> bd_block_size dev w = bs \<and> bd_block_count dev w = Some (length (disk w)) \<and>
      uniform bs (disk w) \<and> length (disk w) * bs < 2 ^ 64"
    and read_law: "ok w \<Longrightarrow> lba < length (disk w) \<Longrightarrow> length buf = bs \<Longrightarrow>
      \<exists>w'. bd_read_block dev lba buf w = Some ((Inr bs, disk w ! lba), w') \<and> ok w' \<and> disk w' = disk w"
    and write_law: "ok w \<Longrightarrow> lba < length (disk w) \<Longrightarrow> length b = bs \<Longrightarrow>
      \<exists>w'. bd_write_block dev lba b w = Some (Inr bs, w') \<and> ok w' \<and> disk w' = (disk w)[lba := b]"
begin

abbreviation flat :: "'w \<Rightarrow> u8 list" where
  "flat w \<equiv> concat (disk w)"

lemma flat_length: "ok w \<Longrightarrow> length (flat w) = length (disk w) * bs"
  using geometry length_concat_uniform by blast

lemma lba_in_range: "ok w \<Longrightarrow> offset < length (flat w) \<Longrightarrow> offset div bs < length (disk w)"
  by (simp add: flat_length less_mult_imp_div_less)

text \<open>One round: the bytes of the current block, from the position to its end or the end of the request.\<close>

lemma round_facts:
  assumes "ok w" "n = min rem_bytes (bs - offset mod bs)" "0 < rem_bytes" "offset + rem_bytes \<le> length (flat w)"
  shows "0 < n" "offset mod bs + n \<le> bs" "offset div bs < length (disk w)" "offset + n \<le> length (flat w)" "n \<le> rem_bytes"
    "slice_of (flat w) offset (offset + n) = slice_of (disk w ! (offset div bs)) (offset mod bs) (offset mod bs + n)"
    "length (disk w ! (offset div bs)) = bs"
proof -
  have pos: "offset mod bs < bs" using bs_pos by simp
  then show n: "0 < n" "offset mod bs + n \<le> bs" "n \<le> rem_bytes" using assms by simp_all
  then show "offset + n \<le> length (flat w)" using assms(4) by simp
  show lba: "offset div bs < length (disk w)" using lba_in_range [OF assms(1)] assms(3,4) by simp
  have u: "uniform bs (disk w)" using geometry [OF assms(1)] by blast
  show "slice_of (flat w) offset (offset + n) = slice_of (disk w ! (offset div bs)) (offset mod bs) (offset mod bs + n)"
    using slice_concat_uniform [OF u lba n(2)] by (simp add: add.commute)
  show "length (disk w ! (offset div bs)) = bs" using uniform_nth [OF u lba] .
qed

lemma read_loop_flat:
  assumes "ok w" "length block = bs" "d \<le> to_read" "to_read \<le> length buf" "offset + (to_read - d) \<le> length (flat w)"
  shows "\<exists>w'. read_chars_loop dev bs to_read d offset block buf w =
    Some ((Inr to_read, splice_at buf d (slice_of (flat w) offset (offset + (to_read - d)))), w') \<and> ok w' \<and> disk w' = disk w"
  using assms
proof (induction "to_read - d" arbitrary: d offset block buf w rule: less_induct)
  case less
  note g = geometry [OF less.prems(1)]
  show ?case
  proof (cases "d < to_read")
    case False
    then show ?thesis using less.prems(1,3) by (subst read_chars_loop.simps) simp
  next
    case True
    define n where "n = min (to_read - d) (bs - offset mod bs)"
    let ?pos = "offset mod bs" and ?b = "disk w ! (offset div bs)"
    note r = round_facts [OF less.prems(1) n_def _ less.prems(5)]
    have len: "length (slice_of ?b ?pos (?pos + n)) = n" using r(2,7) True by (simp add: slice_simps)
    let ?buf = "splice_at buf d (slice_of ?b ?pos (?pos + n))"
    have lenb: "length ?buf = length buf" using less.prems(4) r(5) True len by (simp add: slice_simps)
    have fit: "offset + n < 2 ^ 64" using r(4) True g flat_length [OF less.prems(1)] by simp
    have posb: "?pos \<le> bs" using bs_pos by (simp add: less_imp_le)
    obtain v where v: "bd_read_block dev (offset div bs) block w = Some ((Inr bs, ?b), v)" "ok v" "disk v = disk w"
      using read_law [OF less.prems(1), of "offset div bs" block] r(3) True less.prems(2) by auto
    have step: "read_chars_loop dev bs to_read d offset block buf w = read_chars_loop dev bs to_read (d + n) (offset + n) ?b ?buf v"
      using True r(1-3,5,7) less.prems(2,4) bs_pos posb fit len v(1)
      by (subst read_chars_loop.simps)
        (simp add: g checked_simps Let_def n_def [symmetric] del: bind_eq_Some_iff)
    have ih: "\<exists>w'. read_chars_loop dev bs to_read (d + n) (offset + n) ?b ?buf v =
        Some ((Inr to_read, splice_at ?buf (d + n) (slice_of (flat v) (offset + n) (offset + n + (to_read - (d + n))))), w') \<and> ok w' \<and> disk w' = disk v"
    proof (rule less.hyps)
      show "to_read - (d + n) < to_read - d" using True r(1) by simp
      show "length ?b = bs" using r(7) True by simp
      show "d + n \<le> to_read" using r(5) True by simp
      show "to_read \<le> length ?buf" using less.prems(4) lenb by simp
      show "offset + n + (to_read - (d + n)) \<le> length (flat v)" using less.prems(5) r(5) True v(3) by simp
    qed (rule v(2))
    have "splice_at ?buf (d + n) (slice_of (flat w) (offset + n) (offset + n + (to_read - (d + n)))) =
        splice_at buf d (slice_of ?b ?pos (?pos + n) @ slice_of (flat w) (offset + n) (offset + n + (to_read - (d + n))))"
      using len less.prems(4,5) r(5) True by (intro splice_extend) (simp_all add: slice_simps)
    also have "slice_of ?b ?pos (?pos + n) @ slice_of (flat w) (offset + n) (offset + n + (to_read - (d + n))) =
        slice_of (flat w) offset (offset + (to_read - d))"
      using r(5,6) True slice_append_slice [of offset "offset + n" "offset + n + (to_read - (d + n))" "flat w"] by simp
    finally show ?thesis using step ih v(3) by simp
  qed
qed

lemma char_size: "ok w \<Longrightarrow> char_get_size dev w = Some (length (flat w))"
  using geometry [of w] flat_length [of w] by (simp add: char_get_size_def checked_simps del: bind_eq_Some_iff)

text \<open>An offset past the end underflows the subtraction from the size.\<close>

lemma chars_past_end:
  assumes "ok w" "length (flat w) < offset"
  shows "read_chars dev offset buf w = None" "write_chars dev offset xs w = None"
  using char_size [OF assms(1)] assms(2)
  by (simp_all add: read_chars_def write_chars_def sub64_def del: bind_eq_Some_iff)

lemma read_chars_flat:
  fixes buf :: "u8 list"
  assumes "ok w" "offset \<le> length (flat w)"
  defines "n \<equiv> min (length buf) (length (flat w) - offset)"
  shows "\<exists>w'. read_chars dev offset buf w = Some ((Inr n, splice_at buf 0 (slice_of (flat w) offset (offset + n))), w') \<and>
    ok w' \<and> disk w' = disk w"
proof -
  note g = geometry [OF assms(1)]
  note size = char_size [OF assms(1)]
  have "read_chars dev offset buf w = read_chars_loop dev bs n 0 offset (replicate bs 0) buf w"
    using g size assms(2) by (simp add: read_chars_def n_def checked_simps del: bind_eq_Some_iff)
  moreover have "\<exists>w'. read_chars_loop dev bs n 0 offset (replicate bs 0) buf w =
      Some ((Inr n, splice_at buf 0 (slice_of (flat w) offset (offset + (n - 0)))), w') \<and> ok w' \<and> disk w' = disk w"
    using assms(2) by (intro read_loop_flat [OF assms(1)]) (auto simp: n_def)
  ultimately show ?thesis by simp
qed

lemma write_round:
  assumes "ok w" "offset div bs < length (disk w)" "offset mod bs + length xs \<le> bs"
  obtains w' where
    "bd_write_block dev (offset div bs) (splice_at (disk w ! (offset div bs)) (offset mod bs) xs) w = Some (Inr bs, w')"
    "ok w'" "length (disk w') = length (disk w)" "flat w' = splice_at (flat w) offset xs"
proof -
  have u: "uniform bs (disk w)" using geometry [OF assms(1)] by blast
  have "length (splice_at (disk w ! (offset div bs)) (offset mod bs) xs) = bs"
    using uniform_nth [OF u assms(2)] assms(3) by (simp add: slice_simps)
  then obtain w' where "bd_write_block dev (offset div bs) (splice_at (disk w ! (offset div bs)) (offset mod bs) xs) w = Some (Inr bs, w')"
    "ok w'" "disk w' = (disk w)[offset div bs := splice_at (disk w ! (offset div bs)) (offset mod bs) xs]"
    using write_law [OF assms(1,2)] by blast
  moreover then have "flat w' = splice_at (flat w) offset xs"
    using splice_concat_uniform [OF u assms(2,3)] by simp
  ultimately show ?thesis using that by simp
qed

lemma full_block_splice: "length b = bs \<Longrightarrow> length xs = bs \<Longrightarrow> splice_at b 0 xs = xs"
  by (simp add: splice_at_def)

lemma write_loop_flat:
  assumes "ok w" "length block = bs" "d \<le> to_write" "to_write \<le> length buf" "offset + (to_write - d) \<le> length (flat w)"
  shows "\<exists>w'. write_chars_loop dev bs to_write d offset block buf w = Some (Inr to_write, w') \<and> ok w' \<and>
    length (disk w') = length (disk w) \<and> flat w' = splice_at (flat w) offset (slice_of buf d to_write)"
  using assms
proof (induction "to_write - d" arbitrary: d offset block w rule: less_induct)
  case less
  note g = geometry [OF less.prems(1)]
  show ?case
  proof (cases "d < to_write")
    case False
    then show ?thesis using less.prems(1,3) by (subst write_chars_loop.simps) (simp add: io_ok_def)
  next
    case True
    define n where "n = min (to_write - d) (bs - offset mod bs)"
    let ?pos = "offset mod bs" and ?b = "disk w ! (offset div bs)" and ?xs = "slice_of buf d (d + n)"
    note r = round_facts [OF less.prems(1) n_def _ less.prems(5)]
    have xs: "length ?xs = n" using less.prems(4) r(5) True by (simp add: slice_simps)
    obtain v where v: "bd_read_block dev (offset div bs) block w = Some ((Inr bs, ?b), v)" "ok v" "disk v = disk w"
      using read_law [OF less.prems(1), of "offset div bs" block] r(3) True less.prems(2) by auto
    obtain u where u: "u = (if n = bs then w else v)" "ok u" "disk u = disk w" using v(2,3) less.prems(1) by simp
    obtain w' where w': "bd_write_block dev (offset div bs) (splice_at ?b ?pos ?xs) u = Some (Inr bs, w')"
      "ok w'" "length (disk w') = length (disk w)" "flat w' = splice_at (flat w) offset ?xs"
      using write_round [OF u(2), of offset ?xs] r(2,3) xs True u(3) by auto
    have fit: "offset + n < 2 ^ 64" using r(4) True g flat_length [OF less.prems(1)] by simp
    have posb: "?pos \<le> bs" using bs_pos by (simp add: less_imp_le)
    obtain blk where blk: "length blk = bs"
      "write_chars_loop dev bs to_write d offset block buf w = write_chars_loop dev bs to_write (d + n) (offset + n) blk buf w'"
    proof (cases "n = bs")
      case False
      have "write_chars_loop dev bs to_write d offset block buf w =
          write_chars_loop dev bs to_write (d + n) (offset + n) (splice_at ?b ?pos ?xs) buf w'"
        using True False r(1-3,5,7) less.prems(2,4) bs_pos posb fit xs w'(1) v(1) u(1)
        by (subst write_chars_loop.simps)
          (simp add: g checked_simps Let_def n_def [symmetric] del: bind_eq_Some_iff)
      then show ?thesis using that [of "splice_at ?b ?pos ?xs"] r(2,7) True xs by (simp add: slice_simps)
    next
      case full: True
      then have "?pos = 0" using r(2) True by simp
      then have sp: "splice_at ?b ?pos ?xs = ?xs" using full_block_splice [of ?b ?xs] r(7) True xs full by simp
      have "write_chars_loop dev bs to_write d offset block buf w =
          write_chars_loop dev bs to_write (d + n) (offset + n) block buf w'"
        using True full r(1-3,5,7) less.prems(2,4) bs_pos posb fit xs w'(1) [unfolded sp] u(1)
        by (subst write_chars_loop.simps) (simp add: g checked_simps Let_def n_def [symmetric] del: bind_eq_Some_iff)
      then show ?thesis using that [of block] less.prems(2) by simp
    qed
    have "\<exists>w''. write_chars_loop dev bs to_write (d + n) (offset + n) blk buf w' = Some (Inr to_write, w'') \<and> ok w'' \<and>
      length (disk w'') = length (disk w') \<and> flat w'' = splice_at (flat w') (offset + n) (slice_of buf (d + n) to_write)"
    proof (rule less.hyps [OF _ w'(2) blk(1) _ less.prems(4)])
      show "to_write - (d + n) < to_write - d" using True r(1) by simp
      show "d + n \<le> to_write" using r(5) True by simp
      show "offset + n + (to_write - (d + n)) \<le> length (flat w')"
        using less.prems(5) r(5) True flat_length [OF w'(2)] flat_length [OF less.prems(1)] w'(3) by simp
    qed
    moreover have "splice_at (splice_at (flat w) offset ?xs) (offset + n) (slice_of buf (d + n) to_write) =
        splice_at (flat w) offset (?xs @ slice_of buf (d + n) to_write)"
      using xs less.prems(4,5) r(5) True by (intro splice_extend) (simp_all add: slice_simps)
    moreover have "?xs @ slice_of buf (d + n) to_write = slice_of buf d to_write"
      using r(5) True by (intro slice_append_slice) simp_all
    ultimately show ?thesis using blk(2) w'(3,4) by simp
  qed
qed

lemma write_chars_flat:
  fixes buf :: "u8 list"
  assumes "ok w" "offset \<le> length (flat w)"
  defines "n \<equiv> min (length buf) (length (flat w) - offset)"
  shows "\<exists>w'. write_chars dev offset buf w = Some (Inr n, w') \<and> ok w' \<and> flat w' = splice_at (flat w) offset (take n buf)"
proof -
  note g = geometry [OF assms(1)]
  note size = char_size [OF assms(1)]
  have e: "write_chars dev offset buf w = write_chars_loop dev bs n 0 offset (replicate bs 0) buf w"
    using g size assms(2) by (simp add: write_chars_def n_def checked_simps del: bind_eq_Some_iff)
  have "\<exists>w'. write_chars_loop dev bs n 0 offset (replicate bs 0) buf w = Some (Inr n, w') \<and> ok w' \<and>
    length (disk w') = length (disk w) \<and> flat w' = splice_at (flat w) offset (slice_of buf 0 n)"
    using assms(2) by (intro write_loop_flat [OF assms(1)]) (auto simp: n_def)
  then show ?thesis unfolding e by (auto simp: slice_of_def)
qed

text \<open>Writing and reading back.\<close>

lemma write_read_chars:
  assumes "ok w" "offset + length xs \<le> length (flat w)" "length buf = length xs"
  obtains w' w'' where "write_chars dev offset xs w = Some (Inr (length xs), w')" "ok w'"
    "read_chars dev offset buf w' = Some ((Inr (length xs), xs), w'')" "ok w''"
proof -
  have mn: "min (length xs) (length (flat w) - offset) = length xs" using assms(2) by simp
  obtain w' where w': "write_chars dev offset xs w = Some (Inr (length xs), w')" "ok w'"
    "flat w' = splice_at (flat w) offset xs"
    using write_chars_flat [OF assms(1), of offset xs] assms(2) by (auto simp: mn)
  have len: "length (flat w') = length (flat w)" using w'(3) assms(2) by (simp add: slice_simps)
  have "slice_of (flat w') offset (offset + length xs) = xs"
    using assms(2) by (simp add: w'(3) slice_of_def splice_at_def)
  then obtain w'' where "read_chars dev offset buf w' = Some ((Inr (length xs), xs), w'')" "ok w''"
    using read_chars_flat [OF w'(2), of offset buf] assms(2,3) len mn by (auto simp: splice_at_def)
  then show ?thesis using that w' by blast
qed

end

text \<open>
  A partition view of a device keeps the contract; what it exposes are the first blocks of the
  device, since \<^verbatim>\<open>begin_block\<close> is not added to the block address.
\<close>

locale partition_view = block_device +
  fixes sb :: SubBlockDevice
  assumes bounds: "ok w \<Longrightarrow> sb_begin_block sb \<le> sb_end_block sb \<and> sb_end_block sb - sb_begin_block sb \<le> length (disk w)"
    and same_generation: "ok w \<Longrightarrow> bd_generation dev w = sb_generation sb"

sublocale partition_view \<subseteq> sub: block_device "sub_device dev sb" bs "\<lambda>w. take (sb_end_block sb - sb_begin_block sb) (disk w)" ok
proof
  let ?k = "sb_end_block sb - sb_begin_block sb"
  show "0 < bs" by (rule bs_pos)
  fix w assume w: "ok w"
  note g = geometry [OF w]
  have count: "sub_block_count sb = Some ?k" using bounds [OF w] by (simp add: sub_block_count_def checked_simps)
  have k: "length (take ?k (disk w)) = ?k" using bounds [OF w] by simp
  have "?k * bs \<le> length (disk w) * bs" using bounds [OF w] by (intro mult_le_mono1) simp
  then have "?k * bs < 2 ^ 64" using g by linarith
  then show "bd_block_size (sub_device dev sb) w = bs \<and> bd_block_count (sub_device dev sb) w = Some (length (take ?k (disk w))) \<and>
      uniform bs (take ?k (disk w)) \<and> length (take ?k (disk w)) * bs < 2 ^ 64"
    using g k count by (simp add: sub_device_def uniform_take)
  show "\<exists>w'. bd_read_block (sub_device dev sb) lba buf w = Some ((Inr bs, take ?k (disk w) ! lba), w') \<and> ok w' \<and>
      take ?k (disk w') = take ?k (disk w)"
    if "lba < length (take ?k (disk w))" "length buf = bs" for lba buf
    using read_law [OF w, of lba buf] that count by (auto simp: sub_device_def sub_read_block_def simp del: bind_eq_Some_iff)
  show "\<exists>w'. bd_write_block (sub_device dev sb) lba b w = Some (Inr bs, w') \<and> ok w' \<and> take ?k (disk w') = (take ?k (disk w))[lba := b]"
    if "lba < length (take ?k (disk w))" "length b = bs" for lba b
    using write_law [OF w, of lba b] that count same_generation [OF w]
    by (auto simp: sub_device_def sub_write_block_def take_update_swap simp del: bind_eq_Some_iff)
qed

section \<open>Instances\<close>

text \<open>A disk that holds its blocks in memory satisfies the contract, and so does a partition of it.\<close>

definition ram_device :: "u8 list list BlockDevice" where
  "ram_device = \<lparr>bd_generation = (\<lambda>_. 0), bd_block_size = (\<lambda>_. 512), bd_block_count = (\<lambda>w. Some (length w)),
     bd_read_block = (\<lambda>lba buf w. do { b \<leftarrow> list_get w lba; Some ((Inr 512, b), w) }),
     bd_write_block = (\<lambda>lba b w. do { _ \<leftarrow> list_get w lba; Some (Inr 512, w[lba := b]) }), bd_flush = io_ok ()\<rparr>"

definition ram_ok :: "u8 list list \<Rightarrow> bool" where
  "ram_ok w \<longleftrightarrow> uniform 512 w \<and> length w * 512 < 2 ^ 64"

interpretation ram: block_device ram_device 512 "\<lambda>w. w" ram_ok
  by unfold_locales
    (auto simp: ram_device_def ram_ok_def checked_simps uniform_update simp del: bind_eq_Some_iff)

text \<open>
  C28: Over any block device that keeps its contract, the byte device has as many bytes as the
  blocks together, and reading and writing act on the concatenation of the blocks: from any
  offset up to the size, whatever the alignment, as many bytes as lie before the end of the
  device are transferred, the rest of the buffer or of the device keeps its contents, and no
  operation fails or panics; from an offset past the size both operations panic.
\<close>

theorem char_device_is_flat:
  fixes offset :: nat
  assumes "block_device dev bs disk ok" "ok w"
  defines "dev_len \<equiv> length (concat (disk w))"
  defines "n \<equiv> \<lambda>len. min len (dev_len - offset)"
  shows "char_get_size dev w = Some dev_len \<and>
    (if dev_len < offset then read_chars dev offset buf w = None \<and> write_chars dev offset xs w = None
     else (\<exists>w'. read_chars dev offset buf w =
         Some ((Inr (n (length buf)), splice_at buf 0 (slice_of (concat (disk w)) offset (offset + n (length buf)))), w') \<and>
         ok w' \<and> disk w' = disk w) \<and>
       (\<exists>w'. write_chars dev offset xs w = Some (Inr (n (length xs)), w') \<and> ok w' \<and>
         concat (disk w') = splice_at (concat (disk w)) offset (take (n (length xs)) xs)))"
  using block_device.char_size [OF assms(1,2)] block_device.chars_past_end [OF assms(1,2), of offset]
    block_device.read_chars_flat [OF assms(1,2), of offset buf] block_device.write_chars_flat [OF assms(1,2), of offset xs]
  by (simp add: n_def dev_len_def)

theorem char_device_is_flat_witness:
  "\<exists>w'. write_chars ram_device 510 [1, 2, 3, 4] [replicate 512 0, replicate 512 0] = Some (Inr 4, w') \<and>
     concat w' = splice_at (replicate 1024 0) 510 [1, 2, 3, 4]"
proof -
  have "ram_ok [replicate 512 0, replicate 512 0]" by (simp add: ram_ok_def uniform_def)
  moreover have "concat [replicate 512 0, replicate 512 0] = replicate 1024 (0 :: u8)" by (simp add: replicate_add [symmetric])
  ultimately show ?thesis
    using char_device_is_flat [OF ram.block_device_axioms, where w = "[replicate 512 0, replicate 512 0]" and offset = 510
      and xs = "[1, 2, 3, 4]" and buf = "[]"] by (auto simp: eval_nat_numeral)
qed

text \<open>
  Reading block 0 of a partition view that begins at block a returns block 0 of the disk, not
  block a.
\<close>

theorem partition_aliases_disk_start:
  assumes "block_device dev bs disk ok" "ok w" "a < b" "b \<le> length (disk w)" "length buf = bs"
  shows "\<exists>w'. bd_read_block (sub_device dev (sub_new dev a b w)) 0 buf w = Some ((Inr bs, disk w ! 0), w')"
proof -
  have "0 < length (disk w)" using assms(3,4) by linarith
  then show ?thesis using block_device.read_law [OF assms(1,2), of 0 buf] assms(3,5)
    by (auto simp: sub_device_def sub_read_block_def sub_block_count_def sub_new_def checked_simps simp del: bind_eq_Some_iff)
qed

theorem partition_aliases_disk_start_witness:
  "\<exists>w'. bd_read_block (sub_device ram_device (sub_new ram_device 1 2 [replicate 512 7, replicate 512 9])) 0 (replicate 512 0)
     [replicate 512 7, replicate 512 9] = Some ((Inr 512, replicate 512 7), w')"
  using partition_aliases_disk_start [OF ram.block_device_axioms, of "[replicate 512 7, replicate 512 9]" 1 2 "replicate 512 0"]
  by (simp add: ram_ok_def uniform_def)

end
