(* ===== verification/Partition.thy ===== *)
theory Partition
  imports Block_Device
begin

text \<open>
  Partition tables (\<^verbatim>\<open>data/partition/\<close>): the packed structures of a master boot record and
  of a GUID partition table as they are read from the bytes of a disk, the choice between the two,
  and the partition manager. A packed structure that is read past the end of its buffer
  (\<^verbatim>\<open>read_volatile\<close> through a raw pointer) has no defined value and counts as a panic.
\<close>

section \<open>Structures\<close>

record BlockDeviceRange =
  dr_start :: nat
  dr_end :: nat

record MBRPartition =
  mp_bootable :: u8
  mp_start_chs :: "u8 list"
  mp_os_type :: u8
  mp_end_chs :: "u8 list"
  mp_start_lba :: u32
  mp_sector_count :: u32

record MasterBootRecord =
  mbr_boot_code :: "u8 list"
  mbr_partitions :: "MBRPartition list"
  mbr_signature :: "u8 list"

record GPTHeader =
  gh_signature :: "u8 list"
  gh_revision :: u32
  gh_header_size :: u32
  gh_header_crc32 :: u32
  gh_reserved :: u32
  gh_current_lba :: u64
  gh_backup_lba :: u64
  gh_first_usable_lba :: u64
  gh_last_usable_lba :: u64
  gh_disk_guid :: "u8 list"
  gh_partition_table_lba :: u64
  gh_partition_entry_count :: u32
  gh_partition_entry_size :: u32
  gh_partition_entries_crc32 :: u32

record GUIDPartitionTableEntry =
  ge_type_guid :: "u8 list"
  ge_unique_guid :: "u8 list"
  ge_first_lba :: u64
  ge_last_lba :: u64
  ge_flags :: u64
  ge_name :: "u8 list"

record GUIDPartitionTable =
  gpt_mbr :: MasterBootRecord
  gpt_header :: GPTHeader
  gpt_partitions :: "GUIDPartitionTableEntry list"

section \<open>Decoding\<close>

definition read_mbr_partition :: "u8 list \<Rightarrow> MBRPartition" where
  "read_mbr_partition bs =
     \<lparr>mp_bootable = bs ! 0, mp_start_chs = slice_of bs 1 4, mp_os_type = bs ! 4, mp_end_chs = slice_of bs 5 8,
      mp_start_lba = from_le_bytes (slice_of bs 8 12), mp_sector_count = from_le_bytes (slice_of bs 12 16)\<rparr>"

definition mbr_partition_is_null :: "MBRPartition \<Rightarrow> bool" where
  "mbr_partition_is_null p \<longleftrightarrow> mp_bootable p = 0 \<and> mp_start_chs p = [0, 0, 0] \<and> mp_os_type p = 0 \<and>
     mp_end_chs p = [0, 0, 0] \<and> mp_start_lba p = 0 \<and> mp_sector_count p = 0"

definition read_mbr :: "u8 list \<Rightarrow> MasterBootRecord panics" where
  "read_mbr data = do {
     bs \<leftarrow> slice_get data 0 512;
     Some \<lparr>mbr_boot_code = slice_of bs 0 446,
           mbr_partitions = map (\<lambda>i. read_mbr_partition (slice_of bs (446 + 16 * i) (446 + 16 * i + 16))) [0..<4],
           mbr_signature = slice_of bs 510 512\<rparr>
   }"

definition read_gpt_header :: "u8 list \<Rightarrow> nat \<Rightarrow> GPTHeader panics" where
  "read_gpt_header data offset = do {
     bs \<leftarrow> slice_get data offset (offset + 92);
     Some \<lparr>gh_signature = slice_of bs 0 8, gh_revision = from_le_bytes (slice_of bs 8 12),
           gh_header_size = from_le_bytes (slice_of bs 12 16), gh_header_crc32 = from_le_bytes (slice_of bs 16 20),
           gh_reserved = from_le_bytes (slice_of bs 20 24), gh_current_lba = from_le_bytes (slice_of bs 24 32),
           gh_backup_lba = from_le_bytes (slice_of bs 32 40), gh_first_usable_lba = from_le_bytes (slice_of bs 40 48),
           gh_last_usable_lba = from_le_bytes (slice_of bs 48 56), gh_disk_guid = slice_of bs 56 72,
           gh_partition_table_lba = from_le_bytes (slice_of bs 72 80),
           gh_partition_entry_count = from_le_bytes (slice_of bs 80 84),
           gh_partition_entry_size = from_le_bytes (slice_of bs 84 88),
           gh_partition_entries_crc32 = from_le_bytes (slice_of bs 88 92)\<rparr>
   }"

definition entry_as_device_range :: "GUIDPartitionTableEntry \<Rightarrow> BlockDeviceRange panics" where
  "entry_as_device_range e = do {
     last \<leftarrow> add64 (unat (ge_last_lba e)) 1;
     Some \<lparr>dr_start = unat (ge_first_lba e), dr_end = last\<rparr>
   }"

fun read_gpt_entries :: "u8 list \<Rightarrow> nat \<Rightarrow> nat list \<Rightarrow> GUIDPartitionTableEntry list panics" where
  "read_gpt_entries data entry_size [] = Some []"
| "read_gpt_entries data entry_size (i # is) = do {
     let offset = i * entry_size;
     raw \<leftarrow> slice_get data offset (offset + 56);
     (if slice_of raw 0 16 = replicate 16 0 then read_gpt_entries data entry_size is
      else do {
        name \<leftarrow> slice_get data (offset + 0x38) (offset + entry_size);
        rest \<leftarrow> read_gpt_entries data entry_size is;
        Some (\<lparr>ge_type_guid = slice_of raw 0 16, ge_unique_guid = slice_of raw 16 32,
               ge_first_lba = from_le_bytes (slice_of raw 32 40), ge_last_lba = from_le_bytes (slice_of raw 40 48),
               ge_flags = from_le_bytes (slice_of raw 48 56), ge_name = name\<rparr> # rest)
      })
   }"

text \<open>The tests that tell a protective master boot record from an ordinary one.\<close>

definition is_protective_mbr :: "MasterBootRecord \<Rightarrow> nat \<Rightarrow> bool" where
  "is_protective_mbr mbr max_lba \<longleftrightarrow>
     (let p = mbr_partitions mbr ! 0
      in mp_bootable p = 0 \<and> mp_os_type p = 0xEE \<and> mp_start_chs p = [0, 2, 0] \<and> mp_start_lba p = 1 \<and>
         (if 2 ^ 32 - 1 < max_lba then mp_sector_count p = 0xFFFFFFFF else mp_sector_count p = of_nat max_lba)) \<and>
     (\<forall>i \<in> {1, 2, 3}. mbr_partition_is_null (mbr_partitions mbr ! i))"

definition EFI_PART :: "u8 list" where
  "EFI_PART = [0x45, 0x46, 0x49, 0x20, 0x50, 0x41, 0x52, 0x54]"

definition gpt_read :: "'w BlockDevice \<Rightarrow> 'w \<Rightarrow> ((GUIDPartitionTable + MasterBootRecord) option \<times> 'w) panics" where
  "gpt_read dev w = do {
     let sector_size = bd_block_size dev w;
     count \<leftarrow> bd_block_count dev w;
     max_lba \<leftarrow> sub64 count 1;
     data_len \<leftarrow> mul64 2 sector_size;
     ((r, data), w1) \<leftarrow> read_chars dev 0 (replicate data_len 0) w;
     (case r of
        Inl _ \<Rightarrow> Some (None, w1)
      | Inr _ \<Rightarrow> do {
          mbr \<leftarrow> read_mbr data;
          (if mbr_signature mbr \<noteq> [0x55, 0xAA] then Some (None, w1)
           else if \<not> is_protective_mbr mbr max_lba then Some (Some (Inr mbr), w1)
           else do {
             header \<leftarrow> read_gpt_header data sector_size;
             (if gh_signature header \<noteq> EFI_PART then Some (None, w1)
              else do {
                let entry_size = unat (gh_partition_entry_size header);
                let part_count = unat (gh_partition_entry_count header);
                table_pos \<leftarrow> mul64 (unat (gh_partition_table_lba header)) sector_size;
                ((r2, table), w2) \<leftarrow> read_chars dev table_pos (replicate (entry_size * part_count) 0) w1;
                (case r2 of
                   Inl _ \<Rightarrow> Some (None, w2)
                 | Inr _ \<Rightarrow> do {
                     parts \<leftarrow> read_gpt_entries table entry_size [0..<part_count];
                     Some (Some (Inl \<lparr>gpt_mbr = mbr, gpt_header = header, gpt_partitions = parts\<rparr>), w2)
                   })
              })
           })
        })
   }"

section \<open>The partition manager\<close>

datatype PartitionScheme = NoScheme | SchemeMBR MasterBootRecord | SchemeGPT GUIDPartitionTable

datatype Partition =
    PartMBR MBRPartition BlockDeviceRange
  | PartGPT GUIDPartitionTableEntry BlockDeviceRange
  | PartUnknown BlockDeviceRange

record PartitionManager =
  pm_scheme :: PartitionScheme
  pm_generation :: nat

fun as_device_range :: "Partition \<Rightarrow> BlockDeviceRange" where
  "as_device_range (PartMBR _ r) = r"
| "as_device_range (PartGPT _ r) = r"
| "as_device_range (PartUnknown r) = r"

definition pm_new :: PartitionManager where
  "pm_new = \<lparr>pm_scheme = NoScheme, pm_generation = 2 ^ 64 - 1\<rparr>"

fun map_panics :: "('a \<Rightarrow> 'b panics) \<Rightarrow> 'a list \<Rightarrow> 'b list panics" where
  "map_panics f [] = Some []"
| "map_panics f (x # xs) = do { y \<leftarrow> f x; ys \<leftarrow> map_panics f xs; Some (y # ys) }"

definition pm_get_partitions :: "PartitionManager \<Rightarrow> Partition list panics" where
  "pm_get_partitions pm =
     (case pm_scheme pm of
        NoScheme \<Rightarrow> Some []
      | SchemeMBR mbr \<Rightarrow>
          Some (map (\<lambda>p. PartMBR p \<lparr>dr_start = unat (mp_start_lba p),
                                   dr_end = unat (mp_start_lba p) + unat (mp_sector_count p)\<rparr>)
                 (filter (\<lambda>p. \<not> mbr_partition_is_null p) (mbr_partitions mbr)))
      | SchemeGPT gpt \<Rightarrow>
          map_panics (\<lambda>p. do { r \<leftarrow> entry_as_device_range p; Some (PartGPT p r) }) (gpt_partitions gpt))"

definition pm_get_partition :: "PartitionManager \<Rightarrow> nat \<Rightarrow> Partition option panics" where
  "pm_get_partition pm index = do {
     parts \<leftarrow> pm_get_partitions pm;
     Some (if index < length parts then Some (parts ! index) else None)
   }"

definition pm_reload_partitions :: "PartitionManager \<Rightarrow> 'w BlockDevice \<Rightarrow> 'w \<Rightarrow> (PartitionManager \<times> 'w) panics" where
  "pm_reload_partitions pm dev w = do {
     (table, w') \<leftarrow> gpt_read dev w;
     Some (\<lparr>pm_scheme = (case table of None \<Rightarrow> NoScheme | Some (Inl gpt) \<Rightarrow> SchemeGPT gpt | Some (Inr mbr) \<Rightarrow> SchemeMBR mbr),
            pm_generation = bd_generation dev w\<rparr>, w')
   }"

section \<open>Encoding\<close>

text \<open>How a partitioning tool lays the same structures out on the disk.\<close>

definition entry_bytes :: "GUIDPartitionTableEntry \<Rightarrow> u8 list" where
  "entry_bytes e = ge_type_guid e @ ge_unique_guid e @ to_le_bytes (ge_first_lba e) @ to_le_bytes (ge_last_lba e) @
     to_le_bytes (ge_flags e) @ ge_name e"

definition entry_wf :: "nat \<Rightarrow> GUIDPartitionTableEntry \<Rightarrow> bool" where
  "entry_wf entry_size e \<longleftrightarrow> length (ge_type_guid e) = 16 \<and> length (ge_unique_guid e) = 16 \<and>
     length (ge_name e) + 56 = entry_size"

definition header_bytes :: "GPTHeader \<Rightarrow> u8 list" where
  "header_bytes h = gh_signature h @ to_le_bytes (gh_revision h) @ to_le_bytes (gh_header_size h) @
     to_le_bytes (gh_header_crc32 h) @ to_le_bytes (gh_reserved h) @ to_le_bytes (gh_current_lba h) @
     to_le_bytes (gh_backup_lba h) @ to_le_bytes (gh_first_usable_lba h) @ to_le_bytes (gh_last_usable_lba h) @
     gh_disk_guid h @ to_le_bytes (gh_partition_table_lba h) @ to_le_bytes (gh_partition_entry_count h) @
     to_le_bytes (gh_partition_entry_size h) @ to_le_bytes (gh_partition_entries_crc32 h)"

definition header_wf :: "GPTHeader \<Rightarrow> bool" where
  "header_wf h \<longleftrightarrow> length (gh_signature h) = 8 \<and> length (gh_disk_guid h) = 16"

definition mbr_partition_bytes :: "MBRPartition \<Rightarrow> u8 list" where
  "mbr_partition_bytes p = [mp_bootable p] @ mp_start_chs p @ [mp_os_type p] @ mp_end_chs p @
     to_le_bytes (mp_start_lba p) @ to_le_bytes (mp_sector_count p)"

definition mbr_bytes :: "MasterBootRecord \<Rightarrow> u8 list" where
  "mbr_bytes m = mbr_boot_code m @ concat (map mbr_partition_bytes (mbr_partitions m)) @ mbr_signature m"

definition mbr_wf :: "MasterBootRecord \<Rightarrow> bool" where
  "mbr_wf m \<longleftrightarrow> length (mbr_boot_code m) = 446 \<and> length (mbr_partitions m) = 4 \<and> length (mbr_signature m) = 2 \<and>
     (\<forall>p \<in> set (mbr_partitions m). length (mp_start_chs p) = 3 \<and> length (mp_end_chs p) = 3)"

section \<open>Decoding what was encoded\<close>

lemma length_header_bytes: "header_wf h \<Longrightarrow> length (header_bytes h) = 92"
  by (simp add: header_wf_def header_bytes_def)

lemma length_entry_bytes: "entry_wf n e \<Longrightarrow> length (entry_bytes e) = n"
  by (simp add: entry_wf_def entry_bytes_def)

lemma read_header_bytes:
  assumes "header_wf h" "slice_get data offset (offset + 92) = Some (header_bytes h)"
  shows "read_gpt_header data offset = Some h"
  using assms
  by (simp add: read_gpt_header_def header_bytes_def header_wf_def slice_append_left slice_append_first slice_whole del: append_assoc)


lemma length_mbr_partition_bytes:
  "length (mp_start_chs p) = 3 \<Longrightarrow> length (mp_end_chs p) = 3 \<Longrightarrow> length (mbr_partition_bytes p) = 16"
  by (simp add: mbr_partition_bytes_def)

lemma nth_after_append: "length xs = n \<Longrightarrow> (xs @ y # ys) ! n = y"
  by auto

lemma read_mbr_partition_bytes:
  assumes "length (mp_start_chs p) = 3" "length (mp_end_chs p) = 3"
  shows "read_mbr_partition (mbr_partition_bytes p) = p"
proof -
  have "mbr_partition_bytes p ! 4 = mp_os_type p"
    using assms nth_after_append [of "mp_bootable p # mp_start_chs p" 4] by (simp add: mbr_partition_bytes_def)
  moreover have b: "mbr_partition_bytes p = [mp_bootable p] @ mp_start_chs p @ [mp_os_type p] @ mp_end_chs p @
     to_le_bytes (mp_start_lba p) @ to_le_bytes (mp_sector_count p)" by (simp only: mbr_partition_bytes_def)
  moreover have "mbr_partition_bytes p ! 0 = mp_bootable p" by (simp add: mbr_partition_bytes_def)
  moreover have "slice_of (mbr_partition_bytes p) 1 4 = mp_start_chs p" "slice_of (mbr_partition_bytes p) 5 8 = mp_end_chs p"
    "slice_of (mbr_partition_bytes p) 8 12 = to_le_bytes (mp_start_lba p)"
    "slice_of (mbr_partition_bytes p) 12 16 = to_le_bytes (mp_sector_count p)"
    unfolding b using assms
    by (simp_all add: slice_append_left slice_append_first slice_whole del: append_Cons append_Nil append.simps)
  ultimately show ?thesis by (simp add: read_mbr_partition_def)
qed

lemma read_mbr_bytes:
  assumes wf: "mbr_wf m" and data: "slice_get data 0 512 = Some (mbr_bytes m)"
  shows "read_mbr data = Some m"
proof -
  let ?blocks = "map mbr_partition_bytes (mbr_partitions m)"
  have u: "uniform 16 ?blocks" using wf length_mbr_partition_bytes by (auto simp: uniform_def mbr_wf_def)
  have len: "length (concat ?blocks) = 64" using length_concat_uniform [OF u] wf by (simp add: mbr_wf_def)
  have part: "read_mbr_partition (slice_of (mbr_bytes m) (446 + 16 * i) (446 + 16 * i + 16)) = mbr_partitions m ! i" if "i < 4" for i
  proof -
    have i: "i < length ?blocks" using wf that by (simp add: mbr_wf_def)
    have wfi: "length (mp_start_chs (mbr_partitions m ! i)) = 3" "length (mp_end_chs (mbr_partitions m ! i)) = 3"
      using wf i by (simp_all add: mbr_wf_def)
    have "slice_of (mbr_bytes m) (446 + 16 * i) (446 + 16 * i + 16) = slice_of (concat ?blocks) (16 * i) (16 * i + 16)"
      using slice_middle [of "mbr_boot_code m" 446 "16 * i" 16 "concat ?blocks" "mbr_signature m"] wf len that
      by (simp add: mbr_bytes_def mbr_wf_def)
    also have "\<dots> = slice_of (?blocks ! i) 0 16"
      using slice_concat_uniform [OF u i, of 0 16] by (simp add: mult.commute)
    also have "\<dots> = mbr_partition_bytes (mbr_partitions m ! i)"
      using i length_mbr_partition_bytes [OF wfi] by (simp add: slice_whole)
    finally show ?thesis by (simp add: read_mbr_partition_bytes [OF wfi])
  qed
  have "map (\<lambda>i. read_mbr_partition (slice_of (mbr_bytes m) (446 + 16 * i) (446 + 16 * i + 16))) [0..<4] = mbr_partitions m"
    using wf part by (intro nth_equalityI) (simp_all add: mbr_wf_def del: add.assoc)
  moreover have "slice_of (mbr_bytes m) 0 446 = mbr_boot_code m" "slice_of (mbr_bytes m) 510 512 = mbr_signature m"
    using wf len by (simp_all add: mbr_bytes_def mbr_wf_def slice_append_first slice_append_left slice_whole)
  ultimately show ?thesis using data by (simp add: read_mbr_def del: bind_eq_Some_iff upt_rec_numeral)
qed

definition entry_used :: "GUIDPartitionTableEntry \<Rightarrow> bool" where
  "entry_used e \<longleftrightarrow> ge_type_guid e \<noteq> replicate 16 0"

lemma read_entries_bytes:
  assumes wf: "\<forall>e \<in> set es. entry_wf size_e e" and idx: "\<forall>i \<in> set js. i < length es"
  shows "read_gpt_entries (concat (map entry_bytes es)) size_e js = Some (filter entry_used (map ((!) es) js))"
  using idx
proof (induction js)
  case (Cons i js)
  let ?blocks = "map entry_bytes es" and ?e = "es ! i"
  have i: "i < length ?blocks" using Cons.prems by simp
  have u: "uniform size_e ?blocks" using wf length_entry_bytes by (auto simp: uniform_def)
  have e: "entry_wf size_e ?e" using wf i by simp
  have sz: "56 \<le> size_e" using e by (auto simp: entry_wf_def)
  have fit: "i * size_e + size_e \<le> length (concat ?blocks)"
    using block_index_less [OF i, of 0 size_e size_e] length_concat_uniform [OF u] by simp
  have raw: "slice_get (concat ?blocks) (i * size_e) (i * size_e + 56) = Some (slice_of (entry_bytes ?e) 0 56)"
    using slice_concat_uniform [OF u i, of 0 56] sz fit i by (simp add: slice_get_def)
  have name: "slice_get (concat ?blocks) (i * size_e + 56) (i * size_e + size_e) = Some (slice_of (entry_bytes ?e) 56 size_e)"
    using slice_concat_uniform [OF u i, of 56 "size_e - 56"] sz fit i by (simp add: slice_get_def)
  define A where "A = ge_type_guid ?e @ ge_unique_guid ?e @ to_le_bytes (ge_first_lba ?e) @ to_le_bytes (ge_last_lba ?e) @
     to_le_bytes (ge_flags ?e)"
  have A: "entry_bytes ?e = A @ ge_name ?e" "length A = 56" using e by (simp_all add: A_def entry_bytes_def entry_wf_def)
  have rn: "slice_of (entry_bytes ?e) 0 56 = A" "slice_of (entry_bytes ?e) 56 size_e = ge_name ?e"
    using A e by (auto simp: slice_append_first slice_append_left slice_whole entry_wf_def)
  have fields: "slice_of A 0 16 = ge_type_guid ?e" "slice_of A 16 32 = ge_unique_guid ?e"
    "slice_of A 32 40 = to_le_bytes (ge_first_lba ?e)" "slice_of A 40 48 = to_le_bytes (ge_last_lba ?e)"
    "slice_of A 48 56 = to_le_bytes (ge_flags ?e)"
    using e by (simp_all add: A_def entry_wf_def slice_append_first slice_append_left slice_whole)
  have "read_gpt_entries (concat ?blocks) size_e js = Some (filter entry_used (map ((!) es) js))"
    using Cons by simp
  then show ?case using raw name by (cases "entry_used ?e") (simp_all add: rn fields entry_used_def [of ?e] del: bind_eq_Some_iff)
qed simp

lemma map_panics_ranges:
  assumes "\<forall>e \<in> set es. unat (ge_last_lba e) + 1 < 2 ^ 64"
  shows "map_panics (\<lambda>p. do { r \<leftarrow> entry_as_device_range p; Some (PartGPT p r) }) es =
    Some (map (\<lambda>e. PartGPT e \<lparr>dr_start = unat (ge_first_lba e), dr_end = unat (ge_last_lba e) + 1\<rparr>) es)"
  using assms by (induction es) (auto simp: entry_as_device_range_def checked_simps simp del: bind_eq_Some_iff)

section \<open>Reading the table of a formatted disk\<close>

text \<open>
  C29: On a block device of blocks of at least 512 bytes that carries a protective MBR, a GPT
  header in its second block and, inside the device, a table of well-formed entries whose last
  blocks are below 2^64 - 1, a new partition manager that reloads finds exactly the used
  entries, in order, with their block ranges. Checksums are not part of the statement, as the
  code does not verify them.
\<close>

theorem gpt_partitions_found:
  assumes dev: "block_device dev bs disk ok" "ok w" and bs: "512 \<le> bs"
    and mbr: "mbr_wf m" "slice_of (concat (disk w)) 0 512 = mbr_bytes m" "mbr_signature m = [0x55, 0xAA]"
      "is_protective_mbr m (length (disk w) - 1)"
    and hdr: "header_wf h" "slice_of (concat (disk w)) bs (bs + 92) = header_bytes h" "gh_signature h = EFI_PART"
      "2 \<le> length (disk w)"
    and es: "length es = unat (gh_partition_entry_count h)" "\<forall>e \<in> set es. entry_wf (unat (gh_partition_entry_size h)) e"
      "\<forall>e \<in> set es. unat (ge_last_lba e) + 1 < 2 ^ 64"
    and table: "unat (gh_partition_table_lba h) * bs + length (concat (map entry_bytes es)) \<le> length (concat (disk w))"
      "slice_of (concat (disk w)) (unat (gh_partition_table_lba h) * bs)
        (unat (gh_partition_table_lba h) * bs + length (concat (map entry_bytes es))) = concat (map entry_bytes es)"
  shows "\<exists>pm w'. pm_reload_partitions pm_new dev w = Some (pm, w') \<and> pm_generation pm = bd_generation dev w \<and>
    pm_get_partitions pm = Some (map (\<lambda>e. PartGPT e \<lparr>dr_start = unat (ge_first_lba e), dr_end = unat (ge_last_lba e) + 1\<rparr>)
      (filter (\<lambda>e. ge_type_guid e \<noteq> replicate 16 0) es))"
proof -
  note g = block_device.geometry [OF dev]
  let ?flat = "concat (disk w)" and ?n = "unat (gh_partition_entry_size h) * unat (gh_partition_entry_count h)"
  let ?pos = "unat (gh_partition_table_lba h) * bs"
  have flat: "length ?flat = length (disk w) * bs" using block_device.flat_length [OF dev] .
  have two: "2 * bs \<le> length ?flat" using flat hdr(4) by simp
  have lt: "2 * bs < 2 ^ 64" "?pos < 2 ^ 64" using g two table(1) flat by linarith+
  have n: "length (concat (map entry_bytes es)) = ?n"
    using length_concat_uniform [of "unat (gh_partition_entry_size h)" "map entry_bytes es"] es(1,2) length_entry_bytes
    by (simp add: uniform_def mult.commute)
  have mn: "min ?n (length ?flat - ?pos) = ?n" using table(1) n by simp
  obtain v where r1: "read_chars dev 0 (replicate (2 * bs) 0) w = Some ((Inr (2 * bs), take (2 * bs) ?flat), v)" "ok v" "disk v = disk w"
    using block_device.read_chars_flat [OF dev, of 0 "replicate (2 * bs) 0"] two by (auto simp: splice_at_def slice_of_def min_def)
  obtain w' where r2: "read_chars dev ?pos (replicate ?n 0) v = Some ((Inr ?n, concat (map entry_bytes es)), w')"
    using block_device.read_chars_flat [OF dev(1) r1(2), of ?pos "replicate ?n 0"] table n mn r1(3) by (auto simp: splice_at_def)
  have "slice_get (take (2 * bs) ?flat) 0 512 = Some (mbr_bytes m)"
    using mbr(2) bs two by (simp add: slice_get_def slice_of_def)
  then have m: "read_mbr (take (2 * bs) ?flat) = Some m" by (rule read_mbr_bytes [OF mbr(1)])
  have "slice_get (take (2 * bs) ?flat) bs (bs + 92) = Some (header_bytes h)"
    using hdr(2) bs two by (simp add: slice_get_def slice_of_def min_def drop_take)
  then have h: "read_gpt_header (take (2 * bs) ?flat) bs = Some h" by (rule read_header_bytes [OF hdr(1)])
  have e: "read_gpt_entries (concat (map entry_bytes es)) (unat (gh_partition_entry_size h)) [0..<unat (gh_partition_entry_count h)] =
      Some (filter entry_used es)"
    using read_entries_bytes [OF es(2), of "[0..<length es]"] map_nth [of es] es(1) by simp
  have "gpt_read dev w = Some (Some (Inl \<lparr>gpt_mbr = m, gpt_header = h, gpt_partitions = filter entry_used es\<rparr>), w')"
    using g lt hdr(4) mbr(3,4) hdr(3) r2
    by (simp add: gpt_read_def checked_simps r1(1) m h e Let_def del: bind_eq_Some_iff upt_rec_numeral)
  then have "pm_reload_partitions pm_new dev w =
      Some (\<lparr>pm_scheme = SchemeGPT \<lparr>gpt_mbr = m, gpt_header = h, gpt_partitions = filter entry_used es\<rparr>, pm_generation = bd_generation dev w\<rparr>, w')"
    by (simp add: pm_reload_partitions_def)
  moreover have "map_panics (\<lambda>p. do { r \<leftarrow> entry_as_device_range p; Some (PartGPT p r) }) (filter entry_used es) =
    Some (map (\<lambda>e. PartGPT e \<lparr>dr_start = unat (ge_first_lba e), dr_end = unat (ge_last_lba e) + 1\<rparr>) (filter entry_used es))"
    by (rule map_panics_ranges) (use es(3) in auto)
  ultimately show ?thesis by (simp add: pm_get_partitions_def entry_used_def [abs_def])
qed

text \<open>A disk of three blocks with one used entry, for the witness.\<close>

definition demo_part0 :: MBRPartition where
  "demo_part0 = \<lparr>mp_bootable = 0, mp_start_chs = [0, 2, 0], mp_os_type = 0xEE, mp_end_chs = [0, 0, 0], mp_start_lba = 1, mp_sector_count = 2\<rparr>"

definition null_part :: MBRPartition where
  "null_part = \<lparr>mp_bootable = 0, mp_start_chs = [0, 0, 0], mp_os_type = 0, mp_end_chs = [0, 0, 0], mp_start_lba = 0, mp_sector_count = 0\<rparr>"

definition demo_mbr :: MasterBootRecord where
  "demo_mbr = \<lparr>mbr_boot_code = replicate 446 0, mbr_partitions = [demo_part0, null_part, null_part, null_part], mbr_signature = [0x55, 0xAA]\<rparr>"

definition demo_header :: GPTHeader where
  "demo_header = \<lparr>gh_signature = EFI_PART, gh_revision = 0, gh_header_size = 92, gh_header_crc32 = 0, gh_reserved = 0,
     gh_current_lba = 1, gh_backup_lba = 1, gh_first_usable_lba = 2, gh_last_usable_lba = 2, gh_disk_guid = replicate 16 0,
     gh_partition_table_lba = 2, gh_partition_entry_count = 2, gh_partition_entry_size = 128, gh_partition_entries_crc32 = 0\<rparr>"

definition demo_entry :: "u8 \<Rightarrow> u64 \<Rightarrow> u64 \<Rightarrow> GUIDPartitionTableEntry" where
  "demo_entry t a b = \<lparr>ge_type_guid = replicate 16 t, ge_unique_guid = replicate 16 0, ge_first_lba = a, ge_last_lba = b, ge_flags = 0,
     ge_name = replicate 72 0\<rparr>"

definition demo_entries :: "GUIDPartitionTableEntry list" where
  "demo_entries = [demo_entry 0 0 0, demo_entry 7 40 99]"

definition demo_disk :: "u8 list list" where
  "demo_disk = [mbr_bytes demo_mbr, header_bytes demo_header @ replicate 420 0, concat (map entry_bytes demo_entries) @ replicate 256 0]"

lemma demo_wf:
  "mbr_wf demo_mbr" "header_wf demo_header" "\<forall>e \<in> set demo_entries. entry_wf 128 e"
  "is_protective_mbr demo_mbr 2" "length (mbr_bytes demo_mbr) = 512" "length (concat (map entry_bytes demo_entries)) = 256"
proof -
  show "mbr_wf demo_mbr" by (simp add: mbr_wf_def demo_mbr_def demo_part0_def null_part_def)
  show "header_wf demo_header" by (simp add: header_wf_def demo_header_def EFI_PART_def)
  show e: "\<forall>e \<in> set demo_entries. entry_wf 128 e" by (simp add: demo_entries_def demo_entry_def entry_wf_def)
  show "is_protective_mbr demo_mbr 2"
    by (simp add: is_protective_mbr_def demo_mbr_def demo_part0_def null_part_def mbr_partition_is_null_def Let_def)
  show "length (mbr_bytes demo_mbr) = 512"
    by (simp add: mbr_bytes_def demo_mbr_def length_mbr_partition_bytes demo_part0_def null_part_def)
  show "length (concat (map entry_bytes demo_entries)) = 256"
    using e length_entry_bytes by (auto simp: demo_entries_def)
qed

theorem gpt_partitions_found_witness:
  "\<exists>pm w'. pm_reload_partitions pm_new ram_device demo_disk = Some (pm, w') \<and>
     pm_get_partitions pm = Some [PartGPT (demo_entry 7 40 99) \<lparr>dr_start = 40, dr_end = 100\<rparr>]"
proof -
  have len: "length (header_bytes demo_header) = 92" using length_header_bytes demo_wf(2) by blast
  have u: "uniform 512 demo_disk" using demo_wf(5,6) len by (simp add: uniform_def demo_disk_def)
  have ok: "ram_ok demo_disk" using u by (simp add: ram_ok_def demo_disk_def)
  have flat: "concat demo_disk = mbr_bytes demo_mbr @ header_bytes demo_header @ replicate 420 0 @
      concat (map entry_bytes demo_entries) @ replicate 256 0" by (simp add: demo_disk_def)
  have c: "gh_partition_entry_count demo_header = 2" "gh_partition_entry_size demo_header = 128"
     "gh_partition_table_lba demo_header = 2" "gh_signature demo_header = EFI_PART" by (simp_all add: demo_header_def)
  have "\<exists>pm w'. pm_reload_partitions pm_new ram_device demo_disk = Some (pm, w') \<and> pm_generation pm = bd_generation ram_device demo_disk \<and>
    pm_get_partitions pm = Some (map (\<lambda>e. PartGPT e \<lparr>dr_start = unat (ge_first_lba e), dr_end = unat (ge_last_lba e) + 1\<rparr>)
      (filter (\<lambda>e. ge_type_guid e \<noteq> replicate 16 0) demo_entries))"
  proof (rule gpt_partitions_found [OF ram.block_device_axioms ok])
    have "length demo_disk - 1 = 2" by (simp add: demo_disk_def)
    then show "is_protective_mbr demo_mbr (length demo_disk - 1)" using demo_wf(4) by simp
    show "slice_of (concat demo_disk) 0 512 = mbr_bytes demo_mbr" using demo_wf(5) by (simp add: flat slice_append_first)
    show "slice_of (concat demo_disk) 512 (512 + 92) = header_bytes demo_header"
      using demo_wf(5) len by (simp add: flat slice_append_left slice_append_first)
    show "slice_of (concat demo_disk) (unat (gh_partition_table_lba demo_header) * 512)
        (unat (gh_partition_table_lba demo_header) * 512 + length (concat (map entry_bytes demo_entries))) = concat (map entry_bytes demo_entries)"
      unfolding c demo_wf(6) using demo_wf(5,6) len by (simp add: flat slice_append_left slice_append_first)
    show "unat (gh_partition_table_lba demo_header) * 512 + length (concat (map entry_bytes demo_entries)) \<le> length (concat demo_disk)"
      unfolding c demo_wf(6) using demo_wf(5,6) len by (simp add: flat)
  qed (use demo_wf in \<open>simp_all add: c demo_disk_def demo_entries_def demo_entry_def demo_mbr_def\<close>)
  then show ?thesis by (auto simp: demo_entries_def demo_entry_def)
qed

end
