(* ===== verification/Pata.thy ===== *)
theory Pata
  imports Partition
begin

text \<open>
  The PATA disk driver (\<^verbatim>\<open>drivers/disk/pata.rs\<close>): the register protocol of a controller,
  \<^verbatim>\<open>PataBlockDevice\<close>, and the device files with their sector cache. The four instructions
  that touch a port are the fields of \<open>PortIO\<close>, functions of the state \<open>'h\<close> of the
  hardware.
\<close>

record 'h PortIO =
  io_inb :: "nat \<Rightarrow> 'h \<Rightarrow> u8 \<times> 'h"
  io_outb :: "nat \<Rightarrow> u8 \<Rightarrow> 'h \<Rightarrow> 'h"
  io_inw :: "nat \<Rightarrow> 'h \<Rightarrow> u16 \<times> 'h"
  io_outw :: "nat \<Rightarrow> u16 \<Rightarrow> 'h \<Rightarrow> 'h"

datatype PataBus = Primary | Secondary

datatype PataDrive = Master | Slave

datatype PataErrtype = DeviceFault | DeviceBusy | Timeout | BadSector | Unknown | NoDevice

record PataController =
  pc_bus :: PataBus
  pc_drive :: PataDrive
  pc_base_io :: nat
  pc_control_io :: nat
  pc_identify_data :: "u16 list"
  pc_generation :: nat
  pc_partition_manager :: PartitionManager

definition pata_new :: "PataBus \<Rightarrow> PataDrive \<Rightarrow> PataController" where
  "pata_new bus drive =
     (let (base_io, control_io) = (case bus of Primary \<Rightarrow> (0x1F0, 0x3F6) | Secondary \<Rightarrow> (0x170, 0x376))
      in \<lparr>pc_bus = bus, pc_drive = drive, pc_base_io = base_io, pc_control_io = control_io,
          pc_identify_data = replicate 256 0, pc_generation = 0, pc_partition_manager = pm_new\<rparr>)"

definition is_present :: "PataController \<Rightarrow> bool" where
  "is_present c \<longleftrightarrow>
     \<not> (\<forall>word \<in> set (pc_identify_data c). word = 0xFFFF \<or> word = 0) \<and>
     \<not> (\<forall>word \<in> set (slice_of (pc_identify_data c) 10 20). word = 0) \<and>
     \<not> (\<forall>word \<in> set (slice_of (pc_identify_data c) 27 47). word = 0 \<or> word = 0xFF)"

section \<open>The register protocol\<close>

fun poll :: "'h PortIO \<Rightarrow> nat \<Rightarrow> nat \<Rightarrow> 'h \<Rightarrow> 'h" where
  "poll io port 0 h = h"
| "poll io port (Suc n) h = poll io port n (snd (io_inb io port h))"

definition select_drive :: "'h PortIO \<Rightarrow> PataController \<Rightarrow> 'h \<Rightarrow> 'h" where
  "select_drive io c h =
     poll io (pc_base_io c + 7) 15
       (io_outb io (pc_base_io c + 6) (case pc_drive c of Master \<Rightarrow> 0xE0 | Slave \<Rightarrow> 0xF0) h)"

text \<open>The bounded waiting loops: read the status register until the test holds, at most \<open>n\<close> times.\<close>

fun wait_status :: "'h PortIO \<Rightarrow> (u8 \<Rightarrow> bool) \<Rightarrow> nat \<Rightarrow> nat \<Rightarrow> 'h \<Rightarrow> bool \<times> 'h" where
  "wait_status io test port 0 h = (False, h)"
| "wait_status io test port (Suc n) h =
     (let (status, h') = io_inb io port h in if test status then (True, h') else wait_status io test port n h')"

definition wait_busy :: "'h PortIO \<Rightarrow> PataController \<Rightarrow> 'h \<Rightarrow> bool \<times> 'h" where
  "wait_busy io c = wait_status io (\<lambda>status. status AND 0x80 = 0) (pc_base_io c + 7) 100000"

definition wait_drq :: "'h PortIO \<Rightarrow> PataController \<Rightarrow> 'h \<Rightarrow> bool \<times> 'h" where
  "wait_drq io c = wait_status io (\<lambda>status. status AND 0x08 \<noteq> 0) (pc_base_io c + 7) 100000"

definition lba_byte :: "u64 \<Rightarrow> nat \<Rightarrow> u8" where
  "lba_byte lba n = ucast (drop_bit n lba AND 0xFF)"

definition outb_seq :: "'h PortIO \<Rightarrow> (nat \<times> u8) list \<Rightarrow> 'h \<Rightarrow> 'h" where
  "outb_seq io = fold (\<lambda>(port, v). io_outb io port v)"

text \<open>The writes of an LBA48 command, in their order.\<close>

definition lba48_writes :: "PataController \<Rightarrow> u64 \<Rightarrow> u8 \<Rightarrow> (nat \<times> u8) list" where
  "lba48_writes c lba command =
     [(pc_control_io c, 0), (pc_base_io c + 1, 0),
      (pc_base_io c + 2, lba_byte lba 40), (pc_base_io c + 3, lba_byte lba 24),
      (pc_base_io c + 4, lba_byte lba 32), (pc_base_io c + 5, lba_byte lba 40),
      (pc_base_io c + 2, 1), (pc_base_io c + 3, lba_byte lba 0),
      (pc_base_io c + 4, lba_byte lba 8), (pc_base_io c + 5, lba_byte lba 16),
      (pc_base_io c + 7, command)]"

fun read_words :: "'h PortIO \<Rightarrow> nat \<Rightarrow> nat \<Rightarrow> 'h \<Rightarrow> u16 list \<times> 'h" where
  "read_words io port 0 h = ([], h)"
| "read_words io port (Suc n) h =
     (let (v, h') = io_inw io port h; (vs, h'') = read_words io port n h' in (v # vs, h''))"

definition read_sector :: "'h PortIO \<Rightarrow> PataController \<Rightarrow> u64 \<Rightarrow> u8 list \<Rightarrow> 'h \<Rightarrow> (PataErrtype + unit) \<times> u8 list \<times> 'h" where
  "read_sector io c lba buffer h =
     (let (ready, h1) = wait_busy io c (select_drive io c h)
      in if \<not> ready then (Inl DeviceBusy, buffer, h1)
         else let (drq, h2) = wait_drq io c (outb_seq io (lba48_writes c lba 0x24) h1)
              in if \<not> drq then (Inl Timeout, buffer, h2)
                 else let (words, h3) = read_words io (pc_base_io c) 256 h2
                      in (Inr (), concat (map to_le_bytes words), h3))"

fun write_words :: "'h PortIO \<Rightarrow> nat \<Rightarrow> u8 list \<Rightarrow> 'h \<Rightarrow> 'h" where
  "write_words io port (a # b # bs) h = write_words io port bs (io_outw io port (from_le_bytes [a, b]) h)"
| "write_words io port _ h = h"

definition write_sector :: "'h PortIO \<Rightarrow> PataController \<Rightarrow> u64 \<Rightarrow> u8 list \<Rightarrow> 'h \<Rightarrow> (PataErrtype + unit) \<times> 'h" where
  "write_sector io c lba data h =
     (let (ready, h1) = wait_busy io c (select_drive io c h)
      in if \<not> ready then (Inl DeviceBusy, h1)
         else let (drq, h2) = wait_drq io c (outb_seq io (lba48_writes c lba 0x34) h1)
              in if \<not> drq then (Inl Timeout, h2)
                 else (Inr (), write_words io (pc_base_io c) data h2))"

definition identify :: "'h PortIO \<Rightarrow> PataController \<Rightarrow> 'h \<Rightarrow> (PataErrtype + unit) \<times> PataController \<times> 'h" where
  "identify io c h =
     (let (status, h1) = io_inb io (pc_base_io c + 7) (select_drive io c h)
      in if status = 0 then (Inl NoDevice, c, h1)
         else let (drq, h2) = wait_drq io c (outb_seq io
                    [(pc_base_io c + 2, 0), (pc_base_io c + 3, 0), (pc_base_io c + 4, 0), (pc_base_io c + 5, 0),
                     (pc_base_io c + 7, 0xEC)] h1)
              in if \<not> drq then (Inl Timeout, c, h2)
                 else let (words, h3) = read_words io (pc_base_io c) 256 h2
                      in (Inr (), c\<lparr>pc_identify_data := words\<rparr>, h3))"

definition sector_count :: "PataController \<Rightarrow> nat" where
  "sector_count c = unat ((push_bit 16 (ucast (pc_identify_data c ! 61)) OR ucast (pc_identify_data c ! 60)) :: u64)"

definition get_range :: "PataController \<Rightarrow> BlockDeviceRange" where
  "get_range c = \<lparr>dr_start = 0, dr_end = sector_count c\<rparr>"

definition size_bytes :: "PataController \<Rightarrow> nat panics" where
  "size_bytes c = mul64 (sector_count c) 512"

definition outdated_partitions :: "PataController \<Rightarrow> Partition list option panics" where
  "outdated_partitions c =
     (if pm_generation (pc_partition_manager c) = pc_generation c then Some None
      else do { ps \<leftarrow> pm_get_partitions (pc_partition_manager c); Some (Some ps) })"

section \<open>The block device\<close>

definition driver_error :: "PataErrtype \<Rightarrow> VfsError" where
  "driver_error e = DriverError (case e of DeviceFault \<Rightarrow> ''DeviceFault'' | DeviceBusy \<Rightarrow> ''DeviceBusy'' | Timeout \<Rightarrow> ''Timeout''
     | BadSector \<Rightarrow> ''BadSector'' | Unknown \<Rightarrow> ''Unknown'' | NoDevice \<Rightarrow> ''NoDevice'')"

definition pata_read_block ::
    "'h PortIO \<Rightarrow> PataController \<Rightarrow> nat \<Rightarrow> u8 list \<Rightarrow> 'h \<Rightarrow> ((nat vresult \<times> u8 list) \<times> 'h) panics" where
  "pata_read_block io c lba buf h =
     (if length buf < 512 then Some ((Inl BadBufferSize, buf), h)
      else let (r, data, h') = read_sector io c (of_nat lba) (replicate 512 0) h
           in case r of
                Inl e \<Rightarrow> Some ((Inl (driver_error e), buf), h')
              | Inr _ \<Rightarrow> do { buf' \<leftarrow> copy_from_slice buf 0 (length buf) data; Some ((Inr 512, buf'), h') })"

definition pata_write_block :: "'h PortIO \<Rightarrow> PataController \<Rightarrow> nat \<Rightarrow> u8 list \<Rightarrow> ('h, nat) vio" where
  "pata_write_block io c lba buf h =
     (if length buf \<noteq> 512 then io_err BadBufferSize h
      else let (r, h') = write_sector io c (of_nat lba) buf h
           in case r of Inl e \<Rightarrow> io_err (driver_error e) h' | Inr _ \<Rightarrow> io_ok 512 h')"

definition pata_device :: "'h PortIO \<Rightarrow> PataController \<Rightarrow> 'h BlockDevice" where
  "pata_device io c =
     \<lparr>bd_generation = (\<lambda>_. pc_generation c), bd_block_size = (\<lambda>_. 512),
      bd_block_count = (\<lambda>_. do { n \<leftarrow> size_bytes c; Some (n div 512) }),
      bd_read_block = pata_read_block io c, bd_write_block = pata_write_block io c, bd_flush = io_ok ()\<rparr>"

section \<open>The contract of a drive\<close>

text \<open>
  What the ATA command set documents of a drive that is attached and ready: outside a transfer the
  status register has BSY clear; the registers 2 to 5 are two bytes deep; a read command
  (0x24) offers the bytes of the addressed sector word by word with DRQ set, a write command (0x34)
  takes 256 words and stores them. \<open>tf\<close> is the register file, as pairs of the previous and
  the current byte.
\<close>

definition tf_lba :: "(nat \<Rightarrow> u8 \<times> u8) \<Rightarrow> nat" where
  "tf_lba tf = unat (snd (tf 3)) + unat (snd (tf 4)) * 2 ^ 8 + unat (snd (tf 5)) * 2 ^ 16 +
     unat (fst (tf 3)) * 2 ^ 24 + unat (fst (tf 4)) * 2 ^ 32 + unat (fst (tf 5)) * 2 ^ 40"

lemma ucast_take_bit_8: "ucast (take_bit 8 (w :: u64)) = (ucast w :: u8)"
  by (rule bit_word_eqI) (auto simp: bit_simps)

lemma unat_lba_byte: "lba < 2 ^ 64 \<Longrightarrow> unat (lba_byte (of_nat lba) n) = lba div 2 ^ n mod 256"
proof -
  assume "lba < 2 ^ 64"
  have "lba_byte (of_nat lba) n = ucast (drop_bit n (of_nat lba :: u64))"
    using take_bit_eq_mask [of 8 "drop_bit n (of_nat lba :: u64)"] ucast_take_bit_8 [of "drop_bit n (of_nat lba)"]
    by (simp add: lba_byte_def mask_eq_exp_minus_1)
  then show ?thesis using \<open>lba < 2 ^ 64\<close>
    by (simp add: unsigned_ucast_eq unat_drop_bit_eq take_bit_eq_mod unsigned_of_nat)
      (simp add: drop_bit_eq_div)
qed

lemma lba_byte_high: "lba < 2 ^ 40 \<Longrightarrow> lba_byte (of_nat lba) 40 = 0"
  using unat_lba_byte [of lba 40] by (simp add: unat_eq_0)

lemma lba_bytes_sum:
  assumes "lba < 2 ^ 40"
  shows "unat (lba_byte (of_nat lba) 0) + unat (lba_byte (of_nat lba) 8) * 2 ^ 8 + unat (lba_byte (of_nat lba) 16) * 2 ^ 16 +
    unat (lba_byte (of_nat lba) 24) * 2 ^ 24 + unat (lba_byte (of_nat lba) 32) * 2 ^ 32 + unat (lba_byte (of_nat lba) 40) * 2 ^ 40 = lba"
proof -
  have l: "lba < 2 ^ 64" using assms by simp
  define q where "q n = lba div 2 ^ (8 * n)" for n
  have q: "q n = q (Suc n) * 256 + q n mod 256" for n
    using div_mult_mod_eq [of "q n" 256] by (simp add: q_def div_mult2_eq [symmetric] power_add mult.commute)
  have z: "q 5 = 0" "q 0 = lba" using assms by (simp_all add: q_def)
  have u: "unat (lba_byte (of_nat lba) (8 * n)) = q n mod 256" for n using unat_lba_byte [OF l] by (simp add: q_def)
  show ?thesis using u [of 0] u [of 1] u [of 2] u [of 3] u [of 4] u [of 5] q [of 0] q [of 1] q [of 2] q [of 3] q [of 4] z
    by (simp add: numeral_2_eq_2 [symmetric])
qed

locale ata_drive =
  fixes io :: "'h PortIO" and c :: PataController and sectors :: "'h \<Rightarrow> u8 list list" and tf :: "'h \<Rightarrow> nat \<Rightarrow> u8 \<times> u8"
    and idle :: "'h \<Rightarrow> bool" and sending :: "'h \<Rightarrow> u8 list \<Rightarrow> bool" and receiving :: "'h \<Rightarrow> nat \<Rightarrow> u8 list \<Rightarrow> bool"
  assumes idle_status: "idle h \<Longrightarrow> io_inb io (pc_base_io c + 7) h = (s, h') \<Longrightarrow>
      s AND 0x80 = 0 \<and> idle h' \<and> sectors h' = sectors h"
    and ctrl_setup: "idle h \<Longrightarrow> port = pc_control_io c \<or> port = pc_base_io c + 1 \<or> port = pc_base_io c + 6 \<Longrightarrow>
      idle (io_outb io port v h) \<and> sectors (io_outb io port v h) = sectors h"
    and register: "idle h \<Longrightarrow> i \<in> {2, 3, 4, 5} \<Longrightarrow>
      idle (io_outb io (pc_base_io c + i) v h) \<and> sectors (io_outb io (pc_base_io c + i) v h) = sectors h \<and>
      tf (io_outb io (pc_base_io c + i) v h) = (tf h)(i := (snd (tf h i), v))"
    and read_command: "idle h \<Longrightarrow> tf h 2 = (0, 1) \<Longrightarrow> tf_lba (tf h) < length (sectors h) \<Longrightarrow>
      sending (io_outb io (pc_base_io c + 7) 0x24 h) (sectors h ! tf_lba (tf h)) \<and>
      sectors (io_outb io (pc_base_io c + 7) 0x24 h) = sectors h"
    and write_command: "idle h \<Longrightarrow> tf h 2 = (0, 1) \<Longrightarrow> tf_lba (tf h) < length (sectors h) \<Longrightarrow>
      receiving (io_outb io (pc_base_io c + 7) 0x34 h) (tf_lba (tf h)) [] \<and>
      sectors (io_outb io (pc_base_io c + 7) 0x34 h) = sectors h"
    and sending_status: "sending h bs \<Longrightarrow> io_inb io (pc_base_io c + 7) h = (s, h') \<Longrightarrow>
      s AND 0x08 \<noteq> 0 \<and> sending h' bs \<and> sectors h' = sectors h"
    and sending_data: "sending h (x # y # bs) \<Longrightarrow> io_inw io (pc_base_io c) h = (x16, h') \<Longrightarrow>
      x16 = from_le_bytes [x, y] \<and> sectors h' = sectors h \<and> (if bs = [] then idle h' else sending h' bs)"
    and receiving_status: "receiving h lba acc \<Longrightarrow> io_inb io (pc_base_io c + 7) h = (s, h') \<Longrightarrow>
      s AND 0x08 \<noteq> 0 \<and> receiving h' lba acc \<and> sectors h' = sectors h"
    and receiving_data: "receiving h lba acc \<Longrightarrow>
      (if length acc + 2 < 512
       then receiving (io_outw io (pc_base_io c) x16 h) lba (acc @ to_le_bytes x16) \<and> sectors (io_outw io (pc_base_io c) x16 h) = sectors h
       else idle (io_outw io (pc_base_io c) x16 h) \<and>
         sectors (io_outw io (pc_base_io c) x16 h) = (sectors h)[lba := acc @ to_le_bytes x16])"
begin

lemma poll_idle: "idle h \<Longrightarrow> idle (poll io (pc_base_io c + 7) n h) \<and> sectors (poll io (pc_base_io c + 7) n h) = sectors h"
proof (induction n arbitrary: h)
  case (Suc n)
  have "idle (snd (io_inb io (pc_base_io c + 7) h)) \<and> sectors (snd (io_inb io (pc_base_io c + 7) h)) = sectors h"
    using idle_status [OF Suc.prems surjective_pairing] by simp
  then show ?case using Suc.IH by simp
qed simp

lemma select_idle: "idle h \<Longrightarrow> idle (select_drive io c h) \<and> sectors (select_drive io c h) = sectors h"
  using ctrl_setup [of h "pc_base_io c + 6"] poll_idle by (simp add: select_drive_def)

lemma wait_first: "io_inb io port h = (s, h') \<Longrightarrow> test s \<Longrightarrow> 0 < n \<Longrightarrow> wait_status io test port n h = (True, h')"
  by (cases n) simp_all

lemma wait_busy_idle: "idle h \<Longrightarrow> \<exists>h'. wait_busy io c h = (True, h') \<and> idle h' \<and> sectors h' = sectors h"
  using idle_status [of h] wait_first [of "pc_base_io c + 7" h]
  by (cases "io_inb io (pc_base_io c + 7) h") (auto simp: wait_busy_def)

lemma wait_drq_sending: "sending h bs \<Longrightarrow> \<exists>h'. wait_drq io c h = (True, h') \<and> sending h' bs \<and> sectors h' = sectors h"
  using sending_status [of h bs] wait_first [of "pc_base_io c + 7" h]
  by (cases "io_inb io (pc_base_io c + 7) h") (auto simp: wait_drq_def)

lemma wait_drq_receiving: "receiving h lba acc \<Longrightarrow> \<exists>h'. wait_drq io c h = (True, h') \<and> receiving h' lba acc \<and> sectors h' = sectors h"
  using receiving_status [of h lba acc] wait_first [of "pc_base_io c + 7" h]
  by (cases "io_inb io (pc_base_io c + 7) h") (auto simp: wait_drq_def)

text \<open>The writes before the command byte leave the drive idle with the address in its registers.\<close>

lemma address_written:
  assumes "idle h" "lba < 2 ^ 40"
  obtains h' where "\<And>cmd. outb_seq io (lba48_writes c (of_nat lba) cmd) h = io_outb io (pc_base_io c + 7) cmd h'" "idle h'"
    "sectors h' = sectors h" "tf h' 2 = (0, 1)" "tf_lba (tf h') = lba"
proof -
  let ?b = "pc_base_io c" and ?l = "of_nat lba :: u64"
  define g2 where "g2 = io_outb io (?b + 1) 0 (io_outb io (pc_control_io c) 0 h)"
  define g6 where "g6 = io_outb io (?b + 5) (lba_byte ?l 40) (io_outb io (?b + 4) (lba_byte ?l 32)
     (io_outb io (?b + 3) (lba_byte ?l 24) (io_outb io (?b + 2) (lba_byte ?l 40) g2)))"
  define g10 where "g10 = io_outb io (?b + 5) (lba_byte ?l 16) (io_outb io (?b + 4) (lba_byte ?l 8)
     (io_outb io (?b + 3) (lba_byte ?l 0) (io_outb io (?b + 2) 1 g6)))"
  have g2: "idle g2" "sectors g2 = sectors h"
    using ctrl_setup [OF assms(1), of "pc_control_io c" 0] ctrl_setup [of _ "?b + 1" 0] by (auto simp: g2_def)
  have g6: "idle g6" "sectors g6 = sectors h" "snd (tf g6 2) = lba_byte ?l 40" "snd (tf g6 3) = lba_byte ?l 24"
    "snd (tf g6 4) = lba_byte ?l 32" "snd (tf g6 5) = lba_byte ?l 40"
    using g2 by (simp_all add: g6_def register del: add_2_eq_Suc add_2_eq_Suc')
  have g10: "idle g10" "sectors g10 = sectors h" "tf g10 2 = (lba_byte ?l 40, 1)" "tf g10 3 = (lba_byte ?l 24, lba_byte ?l 0)"
    "tf g10 4 = (lba_byte ?l 32, lba_byte ?l 8)" "tf g10 5 = (lba_byte ?l 40, lba_byte ?l 16)"
    using g6 by (simp_all add: g10_def register del: add_2_eq_Suc add_2_eq_Suc')
  show ?thesis
  proof (rule that)
    show "outb_seq io (lba48_writes c ?l cmd) h = io_outb io (?b + 7) cmd g10" for cmd
      by (simp add: outb_seq_def lba48_writes_def g2_def g6_def g10_def)
    show "tf g10 2 = (0, 1)" using lba_byte_high [OF assms(2)] by (simp add: g10(3))
    show "tf_lba (tf g10) = lba" using lba_bytes_sum [OF assms(2)] by (simp add: tf_lba_def g10)
  qed (rule g10)+
qed

lemma read_words_sending:
  "sending h bs \<Longrightarrow> length bs = 2 * Suc n \<Longrightarrow>
   \<exists>ws h'. read_words io (pc_base_io c) (Suc n) h = (ws, h') \<and> concat (map to_le_bytes ws) = bs \<and> idle h' \<and> sectors h' = sectors h"
proof (induction n arbitrary: h bs)
  case 0
  then obtain x y where bs: "bs = [x, y]" by (auto simp: numeral_2_eq_2 length_Suc_conv)
  obtain v h' where v: "io_inw io (pc_base_io c) h = (v, h')" by (cases "io_inw io (pc_base_io c) h")
  show ?case using sending_data [of h x y "[]"] 0 v by (simp add: bs to_from_le_bytes)
next
  case (Suc n)
  then obtain x y bs' where bs: "bs = x # y # bs'" "length bs' = 2 * Suc n" by (auto simp: length_Suc_conv)
  obtain v h1 where v: "io_inw io (pc_base_io c) h = (v, h1)" by (cases "io_inw io (pc_base_io c) h")
  have s: "v = from_le_bytes [x, y]" "sectors h1 = sectors h" "sending h1 bs'"
    using sending_data [of h x y bs', OF _ v] Suc.prems(1) bs by (auto split: if_splits)
  obtain ws h' where ws: "read_words io (pc_base_io c) (Suc n) h1 = (ws, h')" "concat (map to_le_bytes ws) = bs'" "idle h'"
    "sectors h' = sectors h1" using Suc.IH [OF s(3) bs(2)] by blast
  have "read_words io (pc_base_io c) (Suc (Suc n)) h = (v # ws, h')" using v ws(1) by simp
  then show ?case using ws s(1,2) bs(1) by (simp add: to_from_le_bytes)
qed

lemma write_words_receiving:
  "receiving h lba acc \<Longrightarrow> length acc + length data = 512 \<Longrightarrow> length data = 2 * Suc n \<Longrightarrow>
   idle (write_words io (pc_base_io c) data h) \<and> sectors (write_words io (pc_base_io c) data h) = (sectors h)[lba := acc @ data]"
proof (induction n arbitrary: h acc data)
  case 0
  then obtain x y where d: "data = [x, y]" by (auto simp: numeral_2_eq_2 length_Suc_conv)
  show ?case using receiving_data [OF 0(1), of "from_le_bytes [x, y]"] 0(2) by (simp add: d to_from_le_bytes)
next
  case (Suc n)
  then obtain x y data' where d: "data = x # y # data'" "length data' = 2 * Suc n" by (auto simp: length_Suc_conv)
  let ?h = "io_outw io (pc_base_io c) (from_le_bytes [x, y]) h"
  have "receiving ?h lba (acc @ [x, y])" "sectors ?h = sectors h"
    using receiving_data [OF Suc.prems(1), of "from_le_bytes [x, y]"] Suc.prems(2) d by (simp_all add: to_from_le_bytes)
  then show ?case using Suc.IH [of ?h "acc @ [x, y]" data'] Suc.prems(2) d by simp
qed

lemma read_sector_correct:
  assumes "idle h" "lba < length (sectors h)" "lba < 2 ^ 40" "length (sectors h ! lba) = 512"
  shows "\<exists>h'. read_sector io c (of_nat lba) buf h = (Inr (), sectors h ! lba, h') \<and> idle h' \<and> sectors h' = sectors h"
proof -
  obtain h1 where h1: "wait_busy io c (select_drive io c h) = (True, h1)" "idle h1" "sectors h1 = sectors h"
    using select_idle [OF assms(1)] wait_busy_idle [of "select_drive io c h"] by auto
  obtain h2 where h2: "\<And>cmd. outb_seq io (lba48_writes c (of_nat lba) cmd) h1 = io_outb io (pc_base_io c + 7) cmd h2" "idle h2"
    "sectors h2 = sectors h1" "tf h2 2 = (0, 1)" "tf_lba (tf h2) = lba" using address_written [OF h1(2) assms(3)] by blast
  let ?h3 = "io_outb io (pc_base_io c + 7) 0x24 h2"
  have "sending ?h3 (sectors h ! lba)" "sectors ?h3 = sectors h"
    using read_command [OF h2(2,4)] h2(3,5) h1(3) assms(2) by simp_all
  then obtain h4 where h4: "wait_drq io c ?h3 = (True, h4)" "sending h4 (sectors h ! lba)" "sectors h4 = sectors h"
    using wait_drq_sending by fastforce
  obtain ws h5 where "read_words io (pc_base_io c) 256 h4 = (ws, h5)" "concat (map to_le_bytes ws) = sectors h ! lba" "idle h5"
    "sectors h5 = sectors h" using read_words_sending [OF h4(2), of 255] assms(4) h4(3) by auto
  then show ?thesis using h1(1) h2(1) h4(1) by (simp add: read_sector_def)
qed

lemma write_sector_correct:
  assumes "idle h" "lba < length (sectors h)" "lba < 2 ^ 40" "length data = 512"
  shows "\<exists>h'. write_sector io c (of_nat lba) data h = (Inr (), h') \<and> idle h' \<and> sectors h' = (sectors h)[lba := data]"
proof -
  obtain h1 where h1: "wait_busy io c (select_drive io c h) = (True, h1)" "idle h1" "sectors h1 = sectors h"
    using select_idle [OF assms(1)] wait_busy_idle [of "select_drive io c h"] by auto
  obtain h2 where h2: "\<And>cmd. outb_seq io (lba48_writes c (of_nat lba) cmd) h1 = io_outb io (pc_base_io c + 7) cmd h2" "idle h2"
    "sectors h2 = sectors h1" "tf h2 2 = (0, 1)" "tf_lba (tf h2) = lba" using address_written [OF h1(2) assms(3)] by blast
  let ?h3 = "io_outb io (pc_base_io c + 7) 0x34 h2"
  have "receiving ?h3 lba []" "sectors ?h3 = sectors h"
    using write_command [OF h2(2,4)] h2(3,5) h1(3) assms(2) by simp_all
  then obtain h4 where h4: "wait_drq io c ?h3 = (True, h4)" "receiving h4 lba []" "sectors h4 = sectors h"
    using wait_drq_receiving by fastforce
  show ?thesis using h1(1) h2(1) h4 write_words_receiving [OF h4(2), of data 255] assms(4) by (simp add: write_sector_def)
qed

text \<open>An idle drive whose sector count the controller knows is a block device.\<close>

definition disk_ok :: "'h \<Rightarrow> bool" where
  "disk_ok h \<longleftrightarrow> idle h \<and> uniform 512 (sectors h) \<and> length (sectors h) = sector_count c"

end

text \<open>The sector count comes from two 16-bit words.\<close>

lemma sector_count_bound: "sector_count c < 2 ^ 32"
proof -
  let ?w = "(push_bit 16 (ucast (pc_identify_data c ! 61)) OR ucast (pc_identify_data c ! 60)) :: u64"
  have w: "take_bit 32 ?w = ?w"
    by (rule bit_word_eqI) (auto simp: bit_simps dest: bit_imp_le_length)
  have "unat ?w = take_bit 32 (unat ?w)" by (subst w [symmetric]) (simp only: unsigned_take_bit_eq)
  then show ?thesis using take_bit_nat_less_exp [of 32 "unat ?w"] by (simp only: sector_count_def)
qed

sublocale ata_drive \<subseteq> bdev: block_device "pata_device io c" 512 sectors disk_ok
proof
  show "(0 :: nat) < 512" by simp
  fix h assume h: "disk_ok h"
  have n: "length (sectors h) < 2 ^ 32" using h sector_count_bound [of c] by (simp add: disk_ok_def)
  then have m: "size_bytes c = Some (length (sectors h) * 512)" using h by (simp add: size_bytes_def disk_ok_def checked_simps)
  show "bd_block_size (pata_device io c) h = 512 \<and> bd_block_count (pata_device io c) h = Some (length (sectors h)) \<and>
      uniform 512 (sectors h) \<and> length (sectors h) * 512 < 2 ^ 64"
    using h n m by (simp add: pata_device_def disk_ok_def)
  show "\<exists>h'. bd_read_block (pata_device io c) lba buf h = Some ((Inr 512, sectors h ! lba), h') \<and> disk_ok h' \<and> sectors h' = sectors h"
    if lba: "lba < length (sectors h)" and buf: "length buf = 512" for lba buf
  proof -
    have s: "length (sectors h ! lba) = 512" using h lba uniform_nth [of 512 "sectors h" lba] by (simp add: disk_ok_def)
    obtain h' where "read_sector io c (of_nat lba) (replicate 512 0) h = (Inr (), sectors h ! lba, h')" "idle h'" "sectors h' = sectors h"
      using read_sector_correct [of h lba "replicate 512 0"] lba n h s by (auto simp: disk_ok_def)
    then show ?thesis using h buf s
      by (simp add: pata_device_def pata_read_block_def checked_simps splice_at_def disk_ok_def del: bind_eq_Some_iff)
  qed
  show "\<exists>h'. bd_write_block (pata_device io c) lba b h = Some (Inr 512, h') \<and> disk_ok h' \<and> sectors h' = (sectors h)[lba := b]"
    if lba: "lba < length (sectors h)" and b: "length b = 512" for lba b
  proof -
    obtain h' where "write_sector io c (of_nat lba) b h = (Inr (), h')" "idle h'" "sectors h' = (sectors h)[lba := b]"
      using write_sector_correct [of h lba b] lba b n h by (auto simp: disk_ok_def)
    then show ?thesis using h b by (simp add: pata_device_def pata_write_block_def io_ok_def disk_ok_def uniform_update)
  qed
qed

section \<open>A drive that meets the contract\<close>

datatype DrivePhase = PhaseIdle | PhaseSending "u8 list" | PhaseReceiving nat "u8 list"

record Drive =
  dv_sectors :: "u8 list list"
  dv_tf :: "nat \<Rightarrow> u8 \<times> u8"
  dv_phase :: DrivePhase

definition drive_command :: "u8 \<Rightarrow> Drive \<Rightarrow> Drive" where
  "drive_command cmd d =
     (if cmd = 0x24 \<and> tf_lba (dv_tf d) < length (dv_sectors d) then d\<lparr>dv_phase := PhaseSending (dv_sectors d ! tf_lba (dv_tf d))\<rparr>
      else if cmd = 0x34 \<and> tf_lba (dv_tf d) < length (dv_sectors d) then d\<lparr>dv_phase := PhaseReceiving (tf_lba (dv_tf d)) []\<rparr>
      else d)"

fun drive_out :: "u16 \<Rightarrow> Drive \<Rightarrow> Drive" where
  "drive_out x d =
     (case dv_phase d of
        PhaseReceiving lba acc \<Rightarrow>
          (let acc' = acc @ to_le_bytes x
           in if length acc' < 512 then d\<lparr>dv_phase := PhaseReceiving lba acc'\<rparr>
              else d\<lparr>dv_phase := PhaseIdle, dv_sectors := (dv_sectors d)[lba := acc']\<rparr>)
      | _ \<Rightarrow> d)"

fun drive_in :: "Drive \<Rightarrow> u16 \<times> Drive" where
  "drive_in d =
     (case dv_phase d of
        PhaseSending (x # y # bs) \<Rightarrow>
          (from_le_bytes [x, y], d\<lparr>dv_phase := (if bs = [] then PhaseIdle else PhaseSending bs)\<rparr>)
      | _ \<Rightarrow> (0, d))"

definition drive_io :: "nat \<Rightarrow> Drive PortIO" where
  "drive_io base =
     \<lparr>io_inb = (\<lambda>port d. (if port = base + 7 \<and> dv_phase d \<noteq> PhaseIdle then 0x48 else 0x40, d)),
      io_outb = (\<lambda>port v d.
        if port \<in> {base + 2, base + 3, base + 4, base + 5}
        then d\<lparr>dv_tf := (dv_tf d)(port - base := (snd (dv_tf d (port - base)), v))\<rparr>
        else if port = base + 7 then drive_command v d else d),
      io_inw = (\<lambda>port. drive_in), io_outw = (\<lambda>port. drive_out)\<rparr>"

definition controller_of :: "PataBus \<Rightarrow> PataDrive \<Rightarrow> u16 list \<Rightarrow> PataController" where
  "controller_of bus drive ids = (pata_new bus drive)\<lparr>pc_identify_data := ids\<rparr>"

lemma controller_of_ports [simp]:
  "pc_base_io (controller_of bus drive ids) = (case bus of Primary \<Rightarrow> 0x1F0 | Secondary \<Rightarrow> 0x170)"
  "pc_control_io (controller_of bus drive ids) = (case bus of Primary \<Rightarrow> 0x3F6 | Secondary \<Rightarrow> 0x376)"
  by (simp_all add: controller_of_def pata_new_def split: PataBus.splits)

definition drive_idle :: "Drive \<Rightarrow> bool" where
  "drive_idle d \<longleftrightarrow> dv_phase d = PhaseIdle"

definition drive_sending :: "Drive \<Rightarrow> u8 list \<Rightarrow> bool" where
  "drive_sending d bs \<longleftrightarrow> dv_phase d = PhaseSending bs"

definition drive_receiving :: "Drive \<Rightarrow> nat \<Rightarrow> u8 list \<Rightarrow> bool" where
  "drive_receiving d lba acc \<longleftrightarrow> dv_phase d = PhaseReceiving lba acc"

interpretation drv: ata_drive "drive_io (case bus of Primary \<Rightarrow> 0x1F0 | Secondary \<Rightarrow> 0x170)" "controller_of bus drive ids"
    dv_sectors dv_tf drive_idle drive_sending drive_receiving for bus drive ids
  by unfold_locales
    (auto simp: drive_io_def drive_command_def drive_idle_def drive_sending_def drive_receiving_def Let_def
      split: PataBus.splits)

text \<open>A partition of the drive, as \<^verbatim>\<open>refresh_device_hooks\<close> makes it, is a block device too.\<close>

definition part_ok :: "PataController \<Rightarrow> nat \<Rightarrow> nat \<Rightarrow> Drive \<Rightarrow> bool" where
  "part_ok c a b d \<longleftrightarrow> ata_drive.disk_ok c dv_sectors drive_idle d \<and> a \<le> b \<and> b \<le> sector_count c"

interpretation drvpart: partition_view "pata_device (drive_io 0x1F0) (controller_of Primary Master ids)" 512 dv_sectors
    "part_ok (controller_of Primary Master ids) a b" "sub_new (pata_device (drive_io 0x1F0) (controller_of Primary Master ids)) a b d"
    for ids a b d
proof -
  note dev = drv.bdev.block_device_axioms [of Primary Master ids, simplified]
  show "partition_view (pata_device (drive_io 0x1F0) (controller_of Primary Master ids)) 512 dv_sectors
      (part_ok (controller_of Primary Master ids) a b) (sub_new (pata_device (drive_io 0x1F0) (controller_of Primary Master ids)) a b d)"
    by unfold_locales
      (use block_device.geometry [OF dev] block_device.read_law [OF dev] block_device.write_law [OF dev] in
        \<open>auto simp: part_ok_def sub_new_def drv.disk_ok_def pata_device_def\<close>)
qed


definition demo_drive :: Drive where
  "demo_drive = \<lparr>dv_sectors = [replicate 512 1, replicate 512 2], dv_tf = (\<lambda>_. (0, 0)), dv_phase = PhaseIdle\<rparr>"


end
