(* ===== verification/DevFs.thy ===== *)
theory DevFs
  imports Block_Device Data_Utils
begin

text \<open>
  The device file system (\<^verbatim>\<open>drivers/fs/virt/devfs.rs\<close>): a flat directory of hooks.
  A hook either belongs to a driver, which then serves every operation on it and on the handles
  it allocates, or is a virtual file with a provider.

  Drivers, virtual files and providers are references; what they do is given by the environment
  \<open>DevEnv\<close>, whose fields are the trait methods. A driver method works on the device file
  system itself (\<^verbatim>\<open>&mut DevFs\<close>) and on the rest of the world \<open>'s\<close>; the data \<open>'d\<close>
  behind a handle is the driver's.
\<close>

record PciDevice =
  pci_bus :: u8
  pci_device :: u8
  pci_function :: u8
  pci_vendor_id :: u16
  pci_device_id :: u16
  pci_class :: u8
  pci_subclass :: u8
  pci_prog_if :: u8
  pci_os_class_name :: string

datatype DevFsHookKind = Device | SubBlock nat nat | SubChar nat nat

record DevFsHook =
  hk_driver :: nat
  hk_file :: VfsFile
  hk_kind :: DevFsHookKind
  hk_generation :: nat
  hk_device_id :: nat

datatype DevFsVirtualFileHook = Hook DevFsHook | VirtualFile nat

text \<open>The data of a handle: a driver's, with its hook, or the reference of an open virtual file.\<close>

datatype 'd DevFsHandleData = HookHandle DevFsHook 'd | VirtualHandle nat

record 'd DevFs =
  df_devices :: "PciDevice list"
  df_hooks :: "(string \<times> DevFsVirtualFileHook) list"
  df_handles :: "nat \<rightharpoonup> 'd DevFsHandleData"
  df_drivers :: "(nat \<times> nat) list"
  df_os_id :: nat
  df_parent_fs_os_id :: nat
  df_mnt :: "VfsFile option"
  df_root_fs :: "nat option"

type_synonym ('d, 's, 'a) dev_io = "('d DevFs \<times> 's, 'a) vio"

record ('d, 's) DevFsDriver =
  dd_driver_id :: "'s \<Rightarrow> nat"
  dd_handles_device :: "PciDevice \<Rightarrow> 's \<Rightarrow> bool"
  dd_refresh_device_hooks :: "PciDevice \<Rightarrow> nat \<Rightarrow> ('d, 's, unit) dev_io"
  dd_fopen :: "DevFsHook \<Rightarrow> u64 \<Rightarrow> ('d, 's, nat) dev_io"
  dd_fclose :: "nat \<Rightarrow> ('d, 's, unit) dev_io"
  dd_fread :: "nat \<Rightarrow> u8 list \<Rightarrow> ('d, 's, nat \<times> u8 list) dev_io"
  dd_fwrite :: "nat \<Rightarrow> u8 list \<Rightarrow> ('d, 's, nat) dev_io"
  dd_ftruncate :: "nat \<Rightarrow> ('d, 's, nat) dev_io"
  dd_fflush :: "nat \<Rightarrow> ('d, 's, unit) dev_io"
  dd_fsync :: "nat \<Rightarrow> ('d, 's, unit) dev_io"
  dd_fstat :: "nat \<Rightarrow> ('d, 's, FileStat) dev_io"
  dd_fseek :: "nat \<Rightarrow> SeekPosition \<Rightarrow> ('d, 's, nat) dev_io"

record 's VirtualDeviceFile =
  vd_stat :: "('s, FileStat) vio"
  vd_close :: "('s, unit) vio"
  vd_seek :: "SeekPosition \<Rightarrow> ('s, nat) vio"
  vd_truncate :: "('s, nat) vio"
  vd_read :: "u8 list \<Rightarrow> ('s, nat \<times> u8 list) vio"
  vd_write :: "u8 list \<Rightarrow> ('s, nat) vio"
  vd_flush :: "('s, unit) vio"
  vd_sync :: "('s, unit) vio"

record 's VirtualDeviceFileProvider =
  vp_open :: "u64 \<Rightarrow> ('s, nat) vio"
  vp_vfs_file :: "('s, VfsFile) vio"

record ('d, 's) DevEnv =
  de_driver :: "nat \<Rightarrow> ('d, 's) DevFsDriver"
  de_vfile :: "nat \<Rightarrow> 's VirtualDeviceFile"
  de_provider :: "nat \<Rightarrow> 's VirtualDeviceFileProvider"
  de_heap :: "'d DevFs \<Rightarrow> nat"

section \<open>Seeking\<close>

text \<open>\<^verbatim>\<open>fseek_helper\<close>: the position is at most \<open>len\<close>, or there is none.\<close>

fun fseek_helper :: "SeekPosition \<Rightarrow> nat \<Rightarrow> nat \<Rightarrow> nat option" where
  "fseek_helper (FromStart position) current_position len = (if position > len then None else Some position)"
| "fseek_helper (FromCurrent position) current_position len =
     (if position < 0
      then (let abs_pos = nat (- position) in if abs_pos > current_position then None else Some (current_position - abs_pos))
      else (let new_pos = (current_position + nat position) mod 2 ^ 64; overflow = (2 ^ 64 \<le> current_position + nat position)
            in if overflow \<or> new_pos > len then None else Some new_pos))"
| "fseek_helper (FromEnd position) current_position len = (if position > len then None else Some (len - position))"

section \<open>Hooks and handles\<close>

text \<open>An operation of a virtual file runs on the rest of the world.\<close>

definition on_rest :: "('s, 'a) vio \<Rightarrow> ('d, 's, 'a) dev_io" where
  "on_rest m = (\<lambda>(fs, s). case m s of None \<Rightarrow> None | Some (r, s') \<Rightarrow> Some (r, fs, s'))"

fun register_devices :: "('d, 's) DevFsDriver \<Rightarrow> (nat \<times> PciDevice) list \<Rightarrow> ('d, 's, unit) dev_io" where
  "register_devices d [] w = io_ok () w"
| "register_devices d ((i, device) # devices) w =
     (if dd_handles_device d device (snd w)
      then io_bind (dd_refresh_device_hooks d device i) (\<lambda>_. register_devices d devices) w
      else register_devices d devices w)"

definition register_driver :: "('d, 's) DevEnv \<Rightarrow> nat \<Rightarrow> ('d, 's, unit) dev_io" where
  "register_driver env driver = (\<lambda>(fs, s).
     let d = de_driver env driver; driver_id = dd_driver_id d s
     in if map_of (df_drivers fs) driver_id \<noteq> None then io_err ActionNotAllowed (fs, s)
        else register_devices d (enumerate 0 (df_devices fs))
               (fs\<lparr>df_drivers := btree_insert driver_id driver (df_drivers fs)\<rparr>, s))"

definition replace_hook ::
    "'d DevFs \<Rightarrow> string \<Rightarrow> nat \<Rightarrow> VfsFile \<Rightarrow> DevFsHookKind \<Rightarrow> nat \<Rightarrow> nat \<Rightarrow> DevFsVirtualFileHook option \<times> 'd DevFs" where
  "replace_hook fs path driver file kind generation device_id =
     (case map_of (df_drivers fs) driver of
        None \<Rightarrow> (None, fs)
      | Some d \<Rightarrow>
          (map_of (df_hooks fs) path,
           fs\<lparr>df_hooks := btree_insert path (Hook \<lparr>hk_driver = d, hk_file = file, hk_kind = kind, hk_generation = generation,
                hk_device_id = device_id\<rparr>) (df_hooks fs)\<rparr>))"

definition remove_hook :: "'d DevFs \<Rightarrow> string \<Rightarrow> DevFsVirtualFileHook option \<times> 'd DevFs" where
  "remove_hook fs path = (map_of (df_hooks fs) path, fs\<lparr>df_hooks := btree_remove path (df_hooks fs)\<rparr>)"

definition insert_vfile :: "'d DevFs \<Rightarrow> nat \<Rightarrow> string \<Rightarrow> 'd DevFs" where
  "insert_vfile fs provider path = fs\<lparr>df_hooks := btree_insert path (VirtualFile provider) (df_hooks fs)\<rparr>"

definition dev_alloc_handle :: "('d DevFs \<Rightarrow> nat) \<Rightarrow> 'd DevFs \<Rightarrow> 'd DevFsHandleData \<Rightarrow> nat \<times> 'd DevFs" where
  "dev_alloc_handle heap fs data =
     (let (h, hs) = alloc_file_handle (df_handles fs) (heap fs) data in (h, fs\<lparr>df_handles := hs\<rparr>))"

definition dev_get_handle_data :: "'d DevFs \<Rightarrow> nat \<Rightarrow> 'd option" where
  "dev_get_handle_data fs h =
     (case get_handle_data (df_handles fs) h of Some (HookHandle _ d) \<Rightarrow> Some d | _ \<Rightarrow> None)"

text \<open>Writing through the pointer \<^verbatim>\<open>get_handle_data\<close> returns.\<close>

definition dev_set_handle_data :: "'d DevFs \<Rightarrow> nat \<Rightarrow> 'd \<Rightarrow> 'd DevFs" where
  "dev_set_handle_data fs h d =
     (case df_handles fs h of
        Some (HookHandle hook _) \<Rightarrow> fs\<lparr>df_handles := (df_handles fs)(h \<mapsto> HookHandle hook d)\<rparr>
      | _ \<Rightarrow> fs)"

definition dev_dealloc_handle :: "'d DevFs \<Rightarrow> nat \<Rightarrow> 'd DevFs" where
  "dev_dealloc_handle fs h = fs\<lparr>df_handles := snd (dealloc_file_handle (df_handles fs) h)\<rparr>"

section \<open>The file system operations\<close>

definition devfs_get_root :: "('d, 's, VfsFile) dev_io" where
  "devfs_get_root = (\<lambda>(fs, s). io_ok \<lparr>vf_kind = KDirectory, vf_name = ''/'', vf_size = 0,
     vf_parent_fs = df_parent_fs_os_id fs, vf_fs = df_os_id fs, vf_specific = VfsSpecific\<rparr> (fs, s))"

definition hook_file :: "('d, 's) DevEnv \<Rightarrow> DevFsVirtualFileHook \<Rightarrow> ('d, 's, VfsFile) dev_io" where
  "hook_file env hook =
     (case hook of Hook h \<Rightarrow> io_ok (hk_file h) | VirtualFile p \<Rightarrow> on_rest (vp_vfs_file (de_provider env p)))"

definition devfs_get_child :: "('d, 's) DevEnv \<Rightarrow> VfsFile \<Rightarrow> string \<Rightarrow> ('d, 's, VfsFile) dev_io" where
  "devfs_get_child env file child = (\<lambda>(fs, s).
     if vf_fs file \<noteq> df_os_id fs then io_err FileSystemMismatch (fs, s)
     else if vf_name file \<noteq> ''/'' then io_err PathNotFound (fs, s)
     else case map_of (df_hooks fs) child of
            None \<Rightarrow> io_err PathNotFound (fs, s)
          | Some hook \<Rightarrow> hook_file env hook (fs, s))"

fun collect_files :: "('d, 's) DevEnv \<Rightarrow> DevFsVirtualFileHook list \<Rightarrow> ('d, 's, VfsFile list) dev_io" where
  "collect_files env [] = io_ok []"
| "collect_files env (hook # hooks) =
     io_bind (hook_file env hook) (\<lambda>f. io_bind (collect_files env hooks) (\<lambda>fs. io_ok (f # fs)))"

definition devfs_list_children :: "('d, 's) DevEnv \<Rightarrow> VfsFile \<Rightarrow> ('d, 's, VfsFile list) dev_io" where
  "devfs_list_children env file = (\<lambda>(fs, s).
     if vf_fs file \<noteq> df_os_id fs then io_err FileSystemMismatch (fs, s)
     else if vf_name file \<noteq> ''/'' then io_ok [] (fs, s)
     else collect_files env (map snd (df_hooks fs)) (fs, s))"

text \<open>A mounted file system behind a mount point is \<open>mounted\<close>; device files are none.\<close>

definition devfs_get_file :: "('d, 's) DevEnv \<Rightarrow> (nat \<Rightarrow> ('d, 's, VfsFile) dev_io) \<Rightarrow>
    (nat \<Rightarrow> VfsFile \<Rightarrow> string \<Rightarrow> ('d, 's, VfsFile) dev_io) \<Rightarrow> string \<Rightarrow> ('d, 's, VfsFile) dev_io" where
  "devfs_get_file env mounted_root mounted_child path =
     (let gr = case_FsRef devfs_get_root mounted_root; gc = case_FsRef (devfs_get_child env) mounted_child
      in io_bind (traverse_new_owned gr path) (get_file_loop gr gc))"

definition devfs_fopen :: "('d, 's) DevEnv \<Rightarrow> VfsFile \<Rightarrow> u64 \<Rightarrow> ('d, 's, nat) dev_io" where
  "devfs_fopen env file mode = (\<lambda>(fs, s).
     if vf_fs file \<noteq> df_os_id fs then io_err FileSystemMismatch (fs, s)
     else if vf_name file = ''/'' then io_err ActionNotAllowed (fs, s)
     else case map_of (df_hooks fs) (vf_name file) of
            None \<Rightarrow> io_err PathNotFound (fs, s)
          | Some (Hook hook) \<Rightarrow> dd_fopen (de_driver env (hk_driver hook)) hook mode (fs, s)
          | Some (VirtualFile provider) \<Rightarrow>
              io_bind (on_rest (vp_open (de_provider env provider) mode))
                (\<lambda>vfile (fs', s'). let (h, fs'') = dev_alloc_handle (de_heap env) fs' (VirtualHandle vfile) in io_ok h (fs'', s'))
                (fs, s))"

text \<open>The dispatch that every operation on a handle makes.\<close>

definition dispatch ::
    "nat \<Rightarrow> (DevFsHook \<Rightarrow> ('d, 's, 'a) dev_io) \<Rightarrow> (nat \<Rightarrow> ('d, 's, 'a) dev_io) \<Rightarrow> ('d, 's, 'a) dev_io" where
  "dispatch handle on_hook on_virtual = (\<lambda>(fs, s).
     case get_handle_data (df_handles fs) handle of
       None \<Rightarrow> io_err BadHandle (fs, s)
     | Some (HookHandle hook _) \<Rightarrow> on_hook hook (fs, s)
     | Some (VirtualHandle v) \<Rightarrow> on_virtual v (fs, s))"

definition devfs_fclose :: "('d, 's) DevEnv \<Rightarrow> nat \<Rightarrow> ('d, 's, unit) dev_io" where
  "devfs_fclose env handle = dispatch handle
     (\<lambda>hook. dd_fclose (de_driver env (hk_driver hook)) handle)
     (\<lambda>v. io_bind (on_rest (vd_close (de_vfile env v))) (\<lambda>_ (fs, s). io_ok () (dev_dealloc_handle fs handle, s)))"

definition devfs_fseek :: "('d, 's) DevEnv \<Rightarrow> nat \<Rightarrow> SeekPosition \<Rightarrow> ('d, 's, nat) dev_io" where
  "devfs_fseek env handle position = dispatch handle
     (\<lambda>hook. dd_fseek (de_driver env (hk_driver hook)) handle position)
     (\<lambda>v. on_rest (vd_seek (de_vfile env v) position))"

definition devfs_fwrite :: "('d, 's) DevEnv \<Rightarrow> nat \<Rightarrow> u8 list \<Rightarrow> ('d, 's, nat) dev_io" where
  "devfs_fwrite env handle buf = dispatch handle
     (\<lambda>hook. dd_fwrite (de_driver env (hk_driver hook)) handle buf)
     (\<lambda>v. on_rest (vd_write (de_vfile env v) buf))"

definition devfs_fread :: "('d, 's) DevEnv \<Rightarrow> nat \<Rightarrow> u8 list \<Rightarrow> ('d, 's, nat \<times> u8 list) dev_io" where
  "devfs_fread env handle buf = dispatch handle
     (\<lambda>hook. dd_fread (de_driver env (hk_driver hook)) handle buf)
     (\<lambda>v. on_rest (vd_read (de_vfile env v) buf))"

definition devfs_ftruncate :: "('d, 's) DevEnv \<Rightarrow> nat \<Rightarrow> ('d, 's, nat) dev_io" where
  "devfs_ftruncate env handle = dispatch handle
     (\<lambda>hook. dd_ftruncate (de_driver env (hk_driver hook)) handle)
     (\<lambda>v. on_rest (vd_truncate (de_vfile env v)))"

definition devfs_fflush :: "('d, 's) DevEnv \<Rightarrow> nat \<Rightarrow> ('d, 's, unit) dev_io" where
  "devfs_fflush env handle = dispatch handle
     (\<lambda>hook. dd_fflush (de_driver env (hk_driver hook)) handle)
     (\<lambda>v. on_rest (vd_flush (de_vfile env v)))"

definition devfs_fsync :: "('d, 's) DevEnv \<Rightarrow> nat \<Rightarrow> ('d, 's, unit) dev_io" where
  "devfs_fsync env handle = dispatch handle
     (\<lambda>hook. io_bind (dd_fsync (de_driver env (hk_driver hook)) handle) (\<lambda>_ (fs, s).
        if hk_device_id hook < length (df_devices fs)
        then dd_refresh_device_hooks (de_driver env (hk_driver hook)) (df_devices fs ! hk_device_id hook) (hk_device_id hook) (fs, s)
        else io_err ActionNotAllowed (fs, s)))
     (\<lambda>v. on_rest (vd_sync (de_vfile env v)))"

definition devfs_fstat :: "('d, 's) DevEnv \<Rightarrow> nat \<Rightarrow> ('d, 's, FileStat) dev_io" where
  "devfs_fstat env handle = dispatch handle
     (\<lambda>hook. dd_fstat (de_driver env (hk_driver hook)) handle)
     (\<lambda>v. on_rest (vd_stat (de_vfile env v)))"

text \<open>The statistics are taken through a handle that is closed again, whatever \<^verbatim>\<open>fstat\<close> says.\<close>

definition devfs_get_stats :: "('d, 's) DevEnv \<Rightarrow> VfsFile \<Rightarrow> ('d, 's, FileStat) dev_io" where
  "devfs_get_stats env file =
     io_bind (devfs_fopen env file 0) (\<lambda>handle w.
       case devfs_fstat env handle w of
         None \<Rightarrow> None
       | Some (stats, w') \<Rightarrow> io_bind (devfs_fclose env handle) (\<lambda>_. io_result stats) w')"

definition devfs_on_mount :: "VfsFile \<Rightarrow> nat \<Rightarrow> nat \<Rightarrow> ('d, 's, VfsFile) dev_io" where
  "devfs_on_mount mount_point os_id root_fs = (\<lambda>(fs, s).
     devfs_get_root (fs\<lparr>df_root_fs := Some root_fs, df_parent_fs_os_id := vf_fs mount_point, df_mnt := Some mount_point,
       df_os_id := os_id\<rparr>, s))"

definition devfs_on_unmount :: "('d, 's, unit) dev_io" where
  "devfs_on_unmount = (\<lambda>(fs, s). io_ok () (fs\<lparr>df_mnt := None, df_os_id := 0, df_parent_fs_os_id := 0\<rparr>, s))"

definition devfs_get_mount_point :: "'d DevFs \<Rightarrow> VfsFile option vresult" where
  "devfs_get_mount_point fs = result_bind (ok_or (df_mnt fs) FileSystemNotMounted) (\<lambda>m. Inr (Some m))"

definition devfs_init :: "PciDevice list \<Rightarrow> 'd DevFs" where
  "devfs_init devices = \<lparr>df_devices = devices, df_hooks = [], df_handles = Map.empty, df_drivers = [], df_os_id = 0,
     df_parent_fs_os_id = 0, df_mnt = None, df_root_fs = None\<rparr>"

text \<open>The operations as the virtual file system calls them.\<close>

definition devfs_ops :: "('d, 's) DevEnv \<Rightarrow> ('d DevFs \<times> 's) FsOps" where
  "devfs_ops env =
     \<lparr>fo_alive = (\<lambda>_ _. True), fo_os_id = (\<lambda>_ w. df_os_id (fst w)), fo_fs_type = (\<lambda>_. ''devices''),
      fo_fs_flush = (\<lambda>_. io_ok ()), fo_host_block_device = (\<lambda>_ _. None), fo_get_root = (\<lambda>_. devfs_get_root),
      fo_get_mount_point = (\<lambda>_ w. io_result (devfs_get_mount_point (fst w)) w),
      fo_get_child = (\<lambda>_. devfs_get_child env), fo_list_children = (\<lambda>_. devfs_list_children env),
      fo_get_stats = (\<lambda>_. devfs_get_stats env), fo_create_child = (\<lambda>_ _ _ _. io_err ReadOnly),
      fo_delete_file = (\<lambda>_ _. io_err ReadOnly), fo_on_mount = (\<lambda>_. devfs_on_mount),
      fo_on_pre_unmount = (\<lambda>_. io_ok True), fo_on_unmount = (\<lambda>_. devfs_on_unmount),
      fo_get_vfs = (\<lambda>_ w. io_result (ok_or (df_root_fs (fst w)) FileSystemNotMounted) w),
      fo_fopen = (\<lambda>_. devfs_fopen env), fo_fclose = (\<lambda>_. devfs_fclose env), fo_fseek = (\<lambda>_. devfs_fseek env),
      fo_fread = (\<lambda>_. devfs_fread env), fo_fwrite = (\<lambda>_. devfs_fwrite env), fo_fflush = (\<lambda>_. devfs_fflush env),
      fo_fsync = (\<lambda>_. devfs_fsync env), fo_fstat = (\<lambda>_. devfs_fstat env), fo_ftruncate = (\<lambda>_. devfs_ftruncate env)\<rparr>"

section \<open>Properties\<close>

interpretation dfm: mountable_fs "devfs_ops env" ptr for env ptr
  by unfold_locales (auto simp: devfs_ops_def devfs_on_mount_def devfs_on_unmount_def devfs_get_root_def io_ok_def)

lemma fseek_from_current:
  "cur \<le> len \<Longrightarrow> len < 2 ^ 64 \<Longrightarrow> fseek_helper (FromCurrent d) cur len =
     (if 0 \<le> int cur + d \<and> int cur + d \<le> int len then Some (nat (int cur + d)) else None)"
  by (cases "d < 0"; cases "cur + nat d < 2 ^ 64") (auto simp: Let_def nat_diff_distrib')

definition seek_target :: "SeekPosition \<Rightarrow> nat \<Rightarrow> nat \<Rightarrow> int" where
  "seek_target seek cur len =
     (case seek of FromStart p \<Rightarrow> int p | FromCurrent d \<Rightarrow> int cur + d | FromEnd p \<Rightarrow> int len - int p)"

text \<open>
  From a position inside the file fseek_helper returns exactly the position asked for when it
  lies between 0 and the length, with no wrap-around, and none otherwise.
\<close>

theorem fseek_helper_exact:
  assumes "cur \<le> len" "len < 2 ^ 64"
  shows "fseek_helper seek cur len =
    (if 0 \<le> seek_target seek cur len \<and> seek_target seek cur len \<le> int len then Some (nat (seek_target seek cur len)) else None)"
proof (cases seek)
  case (FromEnd p)
  then show ?thesis by (auto simp: seek_target_def)
qed (use fseek_from_current [OF assms] in \<open>auto simp: seek_target_def simp del: fseek_helper.simps(2)\<close>)

theorem fseek_helper_exact_witness:
  "fseek_helper (FromCurrent (- 3)) 5 10 = Some 2 \<and> fseek_helper (FromCurrent 6) 5 10 = None \<and>
   fseek_helper (FromCurrent 9223372036854775807) (2 ^ 64 - 2) (2 ^ 64 - 1) = None"
  using fseek_helper_exact [of 5 10 "FromCurrent (- 3)"] fseek_helper_exact [of 5 10 "FromCurrent 6"]
    fseek_helper_exact [of "2 ^ 64 - 2" "2 ^ 64 - 1" "FromCurrent 9223372036854775807"]
  by (simp add: seek_target_def)

text \<open>A device file is not a mount point and not the root.\<close>

definition plain_file :: "VfsFile \<Rightarrow> bool" where
  "plain_file f \<longleftrightarrow> get_mounted_fs f = None \<and> vf_name f \<noteq> ''/''"

lemma devfs_child_of_root:
  "vf_fs root = df_os_id fs \<Longrightarrow> vf_name root = ''/'' \<Longrightarrow> map_of (df_hooks fs) name = Some (Hook hook) \<Longrightarrow>
   devfs_get_child env root name (fs, s) = Some (Inr (hk_file hook), fs, s)"
  by (simp add: devfs_get_child_def hook_file_def io_ok_def)

text \<open>
  Looking a path up in the device file system: one component that names a driver's hook gives
  the hook's file, one that names nothing is not found, a second component after a device file
  is not found, and a path without components, the root itself, gives the error Done.
\<close>

theorem devfs_get_file_lookup:
  "(components path = [] \<longrightarrow> devfs_get_file env mr mc path (fs, s) = Some (Inl Done, fs, s)) \<and>
   (\<forall>name. components path = [name] \<and> map_of (df_hooks fs) name = None \<longrightarrow>
      devfs_get_file env mr mc path (fs, s) = Some (Inl PathNotFound, fs, s)) \<and>
   (\<forall>name hook. components path = [name] \<and> map_of (df_hooks fs) name = Some (Hook hook) \<longrightarrow>
      devfs_get_file env mr mc path (fs, s) = Some (Inr (hk_file hook), fs, s)) \<and>
   (\<forall>name hook p ps. components path = name # p # ps \<and> map_of (df_hooks fs) name = Some (Hook hook) \<and>
        plain_file (hk_file hook) \<and> vf_fs (hk_file hook) = df_os_id fs \<longrightarrow>
      devfs_get_file env mr mc path (fs, s) = Some (Inl PathNotFound, fs, s))"
proof -
  let ?root = "\<lparr>vf_kind = KDirectory, vf_name = ''/'', vf_size = 0, vf_parent_fs = df_parent_fs_os_id fs, vf_fs = df_os_id fs,
     vf_specific = VfsSpecific\<rparr>"
  let ?gr = "case_FsRef devfs_get_root mr" and ?gc = "case_FsRef (devfs_get_child env) mc"
  let ?t = "\<lparr>pt_splitter = ps_new path, pt_fs = OwnFs, pt_curr = ?root\<rparr>"
  have r: "?gr OwnFs (fs, s) = Some (Inr ?root, fs, s)" by (simp add: devfs_get_root_def io_ok_def)
  have g: "devfs_get_file env mr mc path (fs, s) = get_file_loop ?gr ?gc ?t (fs, s)"
    using r by (simp add: devfs_get_file_def traverse_new_owned_def io_bind_def io_ok_def)
  have w: "devfs_get_file env mr mc path (fs, s) = walk ?gr ?gc OwnFs ?root (p # ps) (fs, s)" if "components path = p # ps" for p ps
    using get_file_loop_walk [of ?t p ps ?gr ?gc "(fs, s)"] that g by (simp add: ps_new_ok ps_new_rest del: walk.simps)
  have d: "devfs_get_file env mr mc path (fs, s) = Some (Inl Done, fs, s)" if "components path = []"
    unfolding g using that ps_done_iff [OF ps_new_ok, of path]
    by (subst get_file_loop.simps) (simp add: find_next_def traverse_is_done_def ps_new_rest)
  show ?thesis
    using d by (auto simp: w get_mounted_fs_def io_bind_def io_ok_def io_err_def devfs_get_child_def hook_file_def plain_file_def)
qed

definition demo_devfs :: "unit DevFs" where
  "demo_devfs = (devfs_init [])\<lparr>df_os_id := 3, df_hooks := [(''tty'', Hook \<lparr>hk_driver = 0,
     hk_file = \<lparr>vf_kind = KFile, vf_name = ''tty'', vf_size = 0, vf_parent_fs = 3, vf_fs = 3, vf_specific = VfsSpecific\<rparr>,
     hk_kind = Device, hk_generation = 0, hk_device_id = 0\<rparr>)]\<rparr>"

theorem devfs_get_file_lookup_witness:
  "\<forall>env mr mc. devfs_get_file env mr mc ''/'' (demo_devfs, ()) = Some (Inl Done, demo_devfs, ()) \<and>
    devfs_get_file env mr mc ''/disk'' (demo_devfs, ()) = Some (Inl PathNotFound, demo_devfs, ()) \<and>
    devfs_get_file env mr mc ''/tty'' (demo_devfs, ()) =
      Some (Inr \<lparr>vf_kind = KFile, vf_name = ''tty'', vf_size = 0, vf_parent_fs = 3, vf_fs = 3, vf_specific = VfsSpecific\<rparr>, demo_devfs, ()) \<and>
    devfs_get_file env mr mc ''/tty/x'' (demo_devfs, ()) = Some (Inl PathNotFound, demo_devfs, ())"
proof (intro allI conjI)
  fix env mr mc
  show "devfs_get_file env mr mc ''/'' (demo_devfs, ()) = Some (Inl Done, demo_devfs, ())"
    using devfs_get_file_lookup [of "''/''" env mr mc demo_devfs "()"] by (simp add: components_def)
  show "devfs_get_file env mr mc ''/disk'' (demo_devfs, ()) = Some (Inl PathNotFound, demo_devfs, ())"
    using devfs_get_file_lookup [of "''/disk''" env mr mc demo_devfs "()"] by (simp add: components_def demo_devfs_def)
  show "devfs_get_file env mr mc ''/tty'' (demo_devfs, ()) =
      Some (Inr \<lparr>vf_kind = KFile, vf_name = ''tty'', vf_size = 0, vf_parent_fs = 3, vf_fs = 3, vf_specific = VfsSpecific\<rparr>, demo_devfs, ())"
    using devfs_get_file_lookup [of "''/tty''" env mr mc demo_devfs "()"] by (simp add: components_def demo_devfs_def)
  show "devfs_get_file env mr mc ''/tty/x'' (demo_devfs, ()) = Some (Inl PathNotFound, demo_devfs, ())"
    using devfs_get_file_lookup [of "''/tty/x''" env mr mc demo_devfs "()"]
    by (simp add: components_def demo_devfs_def plain_file_def get_mounted_fs_def)
qed

end
