(* ===== verification/Pata_File.thy ===== *)
theory Pata_File
  imports Pata DevFs
begin

text \<open>
  The PATA driver as a driver of the device file system (\<^verbatim>\<open>PataDevfsDriver\<close> of
  \<^verbatim>\<open>drivers/disk/pata.rs\<close>): the hooks of the four controllers and their partitions, and
  the device files, which read and write sectors through a one-sector cache per handle. The
  driver's state and the hardware are the \<open>PataWorld\<close>; \<open>arc\<close> names the reference of
  the block device behind a hook.
\<close>

type_synonym drive_id = "PataBus \<times> PataDrive"

record 'h PataWorld =
  pw_pci_device :: PciDevice
  pw_handles :: "nat set"
  pw_controllers :: "drive_id \<Rightarrow> PataController"
  pw_hw :: 'h

record PataFsFileHandle =
  ph_mode :: u64
  ph_controller :: drive_id
  ph_position :: nat
  ph_last_sector :: "nat option"
  ph_sector_cache :: "u8 list"
  ph_generation :: nat
  ph_disk_range :: BlockDeviceRange

type_synonym ('h, 'a) pata_io = "(PataFsFileHandle, 'h PataWorld, 'a) dev_io"

definition PATA :: nat where
  "PATA = 0x70617461"

definition FLAG_PHYSICAL_BLOCK_DEVICE :: u64 where "FLAG_PHYSICAL_BLOCK_DEVICE = push_bit 4 1"

definition FLAG_PARTITIONED_DEVICE :: u64 where "FLAG_PARTITIONED_DEVICE = push_bit 8 1"

section \<open>The driver\<close>

definition drive_names :: "(string \<times> drive_id) list" where
  "drive_names = [(''pata_pm'', Primary, Master), (''pata_ps'', Primary, Slave),
     (''pata_sm'', Secondary, Master), (''pata_ss'', Secondary, Slave)]"

fun identify_all :: "'h PortIO \<Rightarrow> drive_id list \<Rightarrow> (drive_id \<Rightarrow> PataController) \<Rightarrow> 'h \<Rightarrow> (drive_id \<Rightarrow> PataController) \<times> 'h" where
  "identify_all io [] cs h = (cs, h)"
| "identify_all io (d # ds) cs h = (let (_, c, h') = identify io (cs d) h in identify_all io ds (cs(d := c)) h')"

definition pata_driver_new :: "'h PortIO \<Rightarrow> PciDevice \<Rightarrow> 'h \<Rightarrow> 'h PataWorld" where
  "pata_driver_new io dev h =
     (let (cs, h') = identify_all io (map snd drive_names) (\<lambda>(bus, drive). pata_new bus drive) h
      in \<lparr>pw_pci_device = dev, pw_handles = {}, pw_controllers = cs, pw_hw = h'\<rparr>)"

definition part_name :: "string \<Rightarrow> nat \<Rightarrow> string" where
  "part_name sname i = sname @ ''_p'' @ to_string i"

definition device_file :: "PataFsFileHandle DevFs \<Rightarrow> string \<Rightarrow> nat \<Rightarrow> VfsFile" where
  "device_file fs name device =
     \<lparr>vf_kind = KBlockDevice device, vf_name = name, vf_size = 0, vf_parent_fs = df_os_id fs, vf_fs = df_os_id fs,
      vf_specific = OtherSpecific device\<rparr>"

definition remove_partition_hooks :: "string \<Rightarrow> nat \<Rightarrow> 'd DevFs \<Rightarrow> 'd DevFs" where
  "remove_partition_hooks sname n fs = fold (\<lambda>i fs. snd (remove_hook fs (part_name sname i))) [0..<n] fs"

definition add_partition_hooks ::
    "(drive_id \<Rightarrow> Partition option \<Rightarrow> nat) \<Rightarrow> drive_id \<Rightarrow> string \<Rightarrow> nat \<Rightarrow> Partition list \<Rightarrow> PataFsFileHandle DevFs \<Rightarrow> PataFsFileHandle DevFs" where
  "add_partition_hooks arc d sname generation parts fs =
     fold (\<lambda>(i, partition) fs.
         snd (replace_hook fs (part_name sname i) PATA (device_file fs (part_name sname i) (arc d (Some partition))) Device generation i))
       (enumerate 0 parts) fs"

text \<open>One controller of \<^verbatim>\<open>refresh_device_hooks\<close>.\<close>

definition refresh_controller ::
    "'h PortIO \<Rightarrow> (drive_id \<Rightarrow> Partition option \<Rightarrow> nat) \<Rightarrow> nat \<Rightarrow> string \<times> drive_id \<Rightarrow>
     PataFsFileHandle DevFs \<times> 'h PataWorld \<Rightarrow> (PataFsFileHandle DevFs \<times> 'h PataWorld) panics" where
  "refresh_controller io arc device_id = (\<lambda>(name, d) (fs, s). do {
     let c = pw_controllers s d;
     last_parts \<leftarrow> outdated_partitions c;
     let fs1 = (case last_parts of None \<Rightarrow> fs | Some parts \<Rightarrow> remove_partition_hooks name (length parts) fs);
     (if \<not> is_present c then Some (snd (remove_hook fs1 name), s)
      else do {
        (fs2, s2) \<leftarrow>
          (if last_parts = None then Some (fs1, s)
           else do {
             (manager, hw) \<leftarrow> pm_reload_partitions pm_new (pata_device io c) (pw_hw s);
             parts \<leftarrow> pm_get_partitions manager;
             Some (add_partition_hooks arc d name (pc_generation c) parts fs1,
                   s\<lparr>pw_hw := hw, pw_controllers := (pw_controllers s)(d := c\<lparr>pc_partition_manager := manager\<rparr>)\<rparr>)
           });
        Some (snd (replace_hook fs2 name PATA (device_file fs2 name (arc d None)) Device (pc_generation c) device_id), s2)
      })
   })"

definition pata_refresh_device_hooks ::
    "'h PortIO \<Rightarrow> (drive_id \<Rightarrow> Partition option \<Rightarrow> nat) \<Rightarrow> PciDevice \<Rightarrow> nat \<Rightarrow> ('h, unit) pata_io" where
  "pata_refresh_device_hooks io arc dev device_id = (\<lambda>(fs, s).
     if pw_pci_device s \<noteq> dev then io_err ActionNotAllowed (fs, s)
     else do { w \<leftarrow> fold_panics (refresh_controller io arc device_id) drive_names (fs, s); io_ok () w })"

text \<open>\<^verbatim>\<open>str::parse::<usize>\<close>: an optional plus sign and at least one digit.\<close>

definition parse_usize :: "string \<Rightarrow> nat option" where
  "parse_usize s =
     (let ds = (case s of c # cs \<Rightarrow> if c = CHR ''+'' then cs else s | [] \<Rightarrow> [])
      in if ds = [] then None else decimal_loop 0 ds)"

definition pata_fopen :: "(PataFsFileHandle DevFs \<Rightarrow> nat) \<Rightarrow> DevFsHook \<Rightarrow> u64 \<Rightarrow> ('h, nat) pata_io" where
  "pata_fopen heap hook mode = (\<lambda>(fs, s).
     let name = vf_name (hk_file hook)
     in case map_of drive_names (take 7 name) of
          None \<Rightarrow> io_err PathNotFound (fs, s)
        | Some d \<Rightarrow>
            (let c = pw_controllers s d
             in if \<not> is_present c then io_err PathNotFound (fs, s)
                else do {
                  range \<leftarrow>
                    (if slice_of name 7 9 = ''_p''
                     then (case parse_usize (drop 9 name) of
                             None \<Rightarrow> Some None
                           | Some i \<Rightarrow> do { p \<leftarrow> pm_get_partition (pc_partition_manager c) i; Some (map_option as_device_range p) })
                     else Some (Some (get_range c)));
                  (case range of
                     None \<Rightarrow> io_err PathNotFound (fs, s)
                   | Some disk_range \<Rightarrow>
                       (if mode AND OPEN_MODE_APPEND \<noteq> 0 then io_err InvalidOpenMode (fs, s)
                        else (let handle_data = \<lparr>ph_mode = mode, ph_controller = d, ph_position = 0, ph_last_sector = None,
                                    ph_sector_cache = replicate 512 0, ph_generation = hk_generation hook, ph_disk_range = disk_range\<rparr>;
                                  (h, fs') = dev_alloc_handle heap fs (HookHandle hook handle_data)
                              in io_ok h (fs', s\<lparr>pw_handles := insert h (pw_handles s)\<rparr>))))
                }))"

definition pata_fclose :: "nat \<Rightarrow> ('h, unit) pata_io" where
  "pata_fclose handle = (\<lambda>(fs, s). io_ok () (dev_dealloc_handle fs handle, s\<lparr>pw_handles := pw_handles s - {handle}\<rparr>))"

text \<open>The checks that open every operation on a handle.\<close>

definition pata_with_handle :: "nat \<Rightarrow> (PataFsFileHandle \<Rightarrow> ('h, 'a) pata_io) \<Rightarrow> ('h, 'a) pata_io" where
  "pata_with_handle handle k = (\<lambda>(fs, s).
     if handle \<notin> pw_handles s then io_err BadHandle (fs, s)
     else case dev_get_handle_data fs handle of
            None \<Rightarrow> io_err BadHandle (fs, s)
          | Some hdl \<Rightarrow> k hdl (fs, s))"

definition pata_fflush :: "nat \<Rightarrow> ('h, unit) pata_io" where
  "pata_fflush handle = pata_with_handle handle (\<lambda>hdl (fs, s).
     if pc_generation (pw_controllers s (ph_controller hdl)) \<noteq> ph_generation hdl then io_err BadHandle (fs, s)
     else io_ok () (fs, s))"

definition pata_fsync :: "nat \<Rightarrow> ('h, unit) pata_io" where
  "pata_fsync handle = pata_with_handle handle (\<lambda>hdl (fs, s).
     let c = pw_controllers s (ph_controller hdl)
     in if pc_generation c \<noteq> ph_generation hdl then io_err BadHandle (fs, s)
        else if \<not> is_present c then io_err PathNotFound (fs, s)
        else do {
          g \<leftarrow> add64 (pc_generation c) 1;
          io_ok () (dev_set_handle_data fs handle (hdl\<lparr>ph_generation := g\<rparr>),
                    s\<lparr>pw_controllers := (pw_controllers s)(ph_controller hdl := c\<lparr>pc_generation := g\<rparr>)\<rparr>)
        })"

definition range_size_bytes :: "PataFsFileHandle \<Rightarrow> nat panics" where
  "range_size_bytes hdl = do { n \<leftarrow> sub64 (dr_end (ph_disk_range hdl)) (dr_start (ph_disk_range hdl)); mul64 n 512 }"

definition load_sector ::
    "'h PortIO \<Rightarrow> PataController \<Rightarrow> nat \<Rightarrow> PataFsFileHandle \<Rightarrow> 'h \<Rightarrow> (PataErrtype + unit) \<times> PataFsFileHandle \<times> 'h" where
  "load_sector io c sector hdl h =
     (let (r, cache, h') = read_sector io c (of_nat sector) (ph_sector_cache hdl) h in (r, hdl\<lparr>ph_sector_cache := cache\<rparr>, h'))"

function pata_read_loop ::
    "'h PortIO \<Rightarrow> PataController \<Rightarrow> nat \<Rightarrow> nat \<Rightarrow> u8 list \<Rightarrow> PataFsFileHandle \<Rightarrow> 'h \<Rightarrow>
     ((nat vresult \<times> u8 list) \<times> PataFsFileHandle \<times> 'h) panics" where
  "pata_read_loop io c to_read bytes_read buf hdl h =
     (if bytes_read < to_read then do {
        sector \<leftarrow> add64 (ph_position hdl div 512) (dr_start (ph_disk_range hdl));
        let (r, hd1, h1) = (if ph_last_sector hdl \<noteq> Some sector then load_sector io c sector hdl h else (Inr (), hdl, h));
        (case r of
           Inl e \<Rightarrow> Some ((Inl (driver_error e), buf), hd1, h1)
         | Inr _ \<Rightarrow> do {
             let sector_offset = ph_position hdl mod 512;
             let to_copy = min (512 - sector_offset) (to_read - bytes_read);
             part \<leftarrow> slice_get (ph_sector_cache hd1) sector_offset (sector_offset + to_copy);
             buf' \<leftarrow> copy_from_slice buf bytes_read (bytes_read + to_copy) part;
             position \<leftarrow> add64 (ph_position hdl) to_copy;
             pata_read_loop io c to_read (bytes_read + to_copy) buf' (hd1\<lparr>ph_last_sector := Some sector, ph_position := position\<rparr>) h1
           })
      } else Some ((Inr bytes_read, buf), hdl, h))"
  by pat_completeness auto
termination
  by (relation "measure (\<lambda>(_, _, to_read, bytes_read, _). to_read - bytes_read)") auto

declare pata_read_loop.simps [simp del]

definition pata_fread :: "'h PortIO \<Rightarrow> nat \<Rightarrow> u8 list \<Rightarrow> ('h, nat \<times> u8 list) pata_io" where
  "pata_fread io handle buf = pata_with_handle handle (\<lambda>hdl (fs, s).
     let c = pw_controllers s (ph_controller hdl)
     in if \<not> is_present c then io_err PathNotFound (fs, s)
        else if ph_mode hdl AND OPEN_MODE_READ = 0 then io_err ActionNotAllowed (fs, s)
        else do {
          n \<leftarrow> range_size_bytes hdl;
          avail \<leftarrow> sub64 n (ph_position hdl);
          ((r, buf'), hdl', h') \<leftarrow> pata_read_loop io c (min (length buf) avail) 0 buf hdl (pw_hw s);
          io_result (result_bind r (\<lambda>k. Inr (k, buf'))) (dev_set_handle_data fs handle hdl', s\<lparr>pw_hw := h'\<rparr>)
        })"

function pata_write_loop ::
    "'h PortIO \<Rightarrow> PataController \<Rightarrow> nat \<Rightarrow> nat \<Rightarrow> u8 list \<Rightarrow> PataFsFileHandle \<Rightarrow> 'h \<Rightarrow>
     (nat vresult \<times> PataFsFileHandle \<times> 'h) panics" where
  "pata_write_loop io c to_write bytes_written buf hdl h =
     (if bytes_written < to_write then do {
        sector \<leftarrow> add64 (ph_position hdl div 512) (dr_start (ph_disk_range hdl));
        let sector_offset = ph_position hdl mod 512;
        let to_copy = min (512 - sector_offset) (to_write - bytes_written);
        let (r, hd1, h1) = (if to_copy \<noteq> 512 then load_sector io c sector hdl h else (Inr (), hdl, h));
        (case r of
           Inl e \<Rightarrow> Some (Inl (driver_error e), hd1, h1)
         | Inr _ \<Rightarrow> do {
             part \<leftarrow> slice_get buf bytes_written (bytes_written + to_copy);
             cache \<leftarrow> copy_from_slice (ph_sector_cache hd1) sector_offset (sector_offset + to_copy) part;
             let hd2 = hd1\<lparr>ph_last_sector := Some sector, ph_sector_cache := cache\<rparr>;
             let (q, h2) = write_sector io c (of_nat sector) cache h1;
             (case q of
                Inl e \<Rightarrow> Some (Inl (driver_error e), hd2, h2)
              | Inr _ \<Rightarrow> do {
                  position \<leftarrow> add64 (ph_position hdl) to_copy;
                  pata_write_loop io c to_write (bytes_written + to_copy) buf (hd2\<lparr>ph_position := position\<rparr>) h2
                })
           })
      } else Some (Inr bytes_written, hdl, h))"
  by pat_completeness auto
termination
  by (relation "measure (\<lambda>(_, _, to_write, bytes_written, _). to_write - bytes_written)") auto

declare pata_write_loop.simps [simp del]

definition pata_fwrite :: "'h PortIO \<Rightarrow> nat \<Rightarrow> u8 list \<Rightarrow> ('h, nat) pata_io" where
  "pata_fwrite io handle buf = pata_with_handle handle (\<lambda>hdl (fs, s).
     let c = pw_controllers s (ph_controller hdl)
     in if ph_mode hdl AND OPEN_MODE_READ = 0 then io_err ActionNotAllowed (fs, s)
        else if pc_generation c \<noteq> ph_generation hdl then io_err BadHandle (fs, s)
        else if \<not> is_present c then io_err PathNotFound (fs, s)
        else do {
          n \<leftarrow> range_size_bytes hdl;
          avail \<leftarrow> sub64 n (ph_position hdl);
          (r, hdl', h') \<leftarrow> pata_write_loop io c (min (length buf) avail) 0 buf hdl (pw_hw s);
          io_result r (dev_set_handle_data fs handle hdl', s\<lparr>pw_hw := h'\<rparr>)
        })"

definition pata_ftruncate :: "nat \<Rightarrow> ('h, nat) pata_io" where
  "pata_ftruncate handle = (\<lambda>(fs, s).
     if handle \<notin> pw_handles s then io_err BadHandle (fs, s) else io_err ActionNotAllowed (fs, s))"

definition pata_fseek :: "nat \<Rightarrow> SeekPosition \<Rightarrow> ('h, nat) pata_io" where
  "pata_fseek handle position = pata_with_handle handle (\<lambda>hdl (fs, s).
     let c = pw_controllers s (ph_controller hdl)
     in if \<not> is_present c then io_err PathNotFound (fs, s)
        else do {
          len \<leftarrow> size_bytes c;
          (case fseek_helper position (ph_position hdl) len of
             None \<Rightarrow> io_err InvalidSeekPosition (fs, s)
           | Some p \<Rightarrow> io_ok p (dev_set_handle_data fs handle (hdl\<lparr>ph_position := p\<rparr>), s))
        })"

definition pata_fstat :: "nat \<Rightarrow> ('h, FileStat) pata_io" where
  "pata_fstat handle = pata_with_handle handle (\<lambda>hdl (fs, s). do {
     n \<leftarrow> sub64 (dr_end (ph_disk_range hdl)) (dr_start (ph_disk_range hdl));
     len \<leftarrow> mul64 512 n;
     io_ok \<lparr>st_size = len, st_created_at = 0, st_modified_at = 0, st_permissions = permissions [(Owner, PRead), (Owner, PWrite)],
       st_is_file = True, st_is_directory = False, st_is_symlink = False, st_owner_id = 0, st_group_id = 0,
       st_flags = FLAG_PHYSICAL_BLOCK_DEVICE OR FLAG_PARTITIONED_DEVICE\<rparr> (fs, s)
   })"

definition pata_driver ::
    "'h PortIO \<Rightarrow> (drive_id \<Rightarrow> Partition option \<Rightarrow> nat) \<Rightarrow> (PataFsFileHandle DevFs \<Rightarrow> nat) \<Rightarrow> (PataFsFileHandle, 'h PataWorld) DevFsDriver" where
  "pata_driver io arc heap =
     \<lparr>dd_driver_id = (\<lambda>_. PATA), dd_handles_device = (\<lambda>dev s. pw_pci_device s = dev),
      dd_refresh_device_hooks = pata_refresh_device_hooks io arc, dd_fopen = pata_fopen heap, dd_fclose = pata_fclose,
      dd_fread = pata_fread io, dd_fwrite = pata_fwrite io, dd_ftruncate = pata_ftruncate, dd_fflush = pata_fflush,
      dd_fsync = pata_fsync, dd_fstat = pata_fstat, dd_fseek = pata_fseek\<rparr>"

section \<open>Device files on a drive\<close>

text \<open>The bytes a device file covers, and the coherence of a handle's cache.\<close>

definition range_bytes :: "BlockDeviceRange \<Rightarrow> u8 list list \<Rightarrow> u8 list" where
  "range_bytes r sectors = slice_of (concat sectors) (dr_start r * 512) (dr_end r * 512)"

definition range_ok :: "BlockDeviceRange \<Rightarrow> u8 list list \<Rightarrow> bool" where
  "range_ok r sectors \<longleftrightarrow> dr_start r \<le> dr_end r \<and> dr_end r \<le> length sectors"

definition cache_ok :: "PataFsFileHandle \<Rightarrow> u8 list list \<Rightarrow> bool" where
  "cache_ok hdl sectors \<longleftrightarrow> length (ph_sector_cache hdl) = 512 \<and>
     (\<forall>n. ph_last_sector hdl = Some n \<longrightarrow> n < length sectors \<and> ph_sector_cache hdl = sectors ! n)"

definition disk_offset :: "PataFsFileHandle \<Rightarrow> nat" where
  "disk_offset hdl = dr_start (ph_disk_range hdl) * 512 + ph_position hdl"

lemma disk_offset_sector:
  "disk_offset hdl div 512 = ph_position hdl div 512 + dr_start (ph_disk_range hdl)" "disk_offset hdl mod 512 = ph_position hdl mod 512"
  by (simp_all add: disk_offset_def)

lemma disk_offset_moved [simp]: "disk_offset (hdl\<lparr>ph_last_sector := x, ph_position := ph_position hdl' + n\<rparr>) =
    dr_start (ph_disk_range hdl) * 512 + ph_position hdl' + n"
  by (simp add: disk_offset_def)

context ata_drive
begin

lemma load_sector_ok:
  assumes "disk_ok h" "n < length (sectors h)"
  obtains h' where "load_sector io c n hdl h = (Inr (), hdl\<lparr>ph_sector_cache := sectors h ! n\<rparr>, h')" "disk_ok h'" "sectors h' = sectors h"
proof -
  have n: "n < 2 ^ 40" "length (sectors h ! n) = 512" "idle h"
    using assms sector_count_bound [of c] uniform_nth [of 512 "sectors h" n] by (auto simp: disk_ok_def)
  obtain h' where "read_sector io c (of_nat n) (ph_sector_cache hdl) h = (Inr (), sectors h ! n, h')" "idle h'" "sectors h' = sectors h"
    using read_sector_correct [OF n(3) assms(2) n(1,2)] by blast
  then show ?thesis using that [of h'] assms(1) by (simp add: load_sector_def disk_ok_def)
qed

text \<open>Whether it comes from the cache or from the drive, the sector is the drive's.\<close>

lemma cached_sector:
  assumes "disk_ok h" "n < length (sectors h)" "cache_ok hdl (sectors h)"
  obtains h' where "(if ph_last_sector hdl \<noteq> Some n then load_sector io c n hdl h else (Inr (), hdl, h)) =
      (Inr (), hdl\<lparr>ph_sector_cache := sectors h ! n\<rparr>, h')" "disk_ok h'" "sectors h' = sectors h"
proof (cases "ph_last_sector hdl = Some n")
  case True
  then have "hdl\<lparr>ph_sector_cache := sectors h ! n\<rparr> = hdl" using assms(3) by (simp add: cache_ok_def)
  then show ?thesis using that [of h] True assms(1) by simp
next
  case False
  then show ?thesis using load_sector_ok [OF assms(1,2), of hdl] that by auto
qed

lemma read_loop_bytes:
  assumes "disk_ok h" "cache_ok hdl (sectors h)" "d \<le> to_read" "to_read \<le> length buf"
    "disk_offset hdl + (to_read - d) \<le> length (concat (sectors h))"
  shows "\<exists>hdl' h'. pata_read_loop io c to_read d buf hdl h =
      Some ((Inr to_read, splice_at buf d (slice_of (concat (sectors h)) (disk_offset hdl) (disk_offset hdl + (to_read - d)))), hdl', h') \<and>
    disk_ok h' \<and> sectors h' = sectors h \<and> cache_ok hdl' (sectors h) \<and>
    hdl' = hdl\<lparr>ph_position := ph_position hdl + (to_read - d), ph_last_sector := ph_last_sector hdl', ph_sector_cache := ph_sector_cache hdl'\<rparr>"
  using assms
proof (induction "to_read - d" arbitrary: d buf hdl h rule: less_induct)
  case less
  show ?case
  proof (cases "d < to_read")
    case False
    then show ?thesis using less.prems by (subst pata_read_loop.simps) (simp add: disk_offset_def)
  next
    case True
    define n where "n = min (to_read - d) (512 - disk_offset hdl mod 512)"
    let ?o = "disk_offset hdl" and ?pos = "ph_position hdl mod 512" and ?sec = "ph_position hdl div 512 + dr_start (ph_disk_range hdl)"
    note r = bdev.round_facts [OF less.prems(1) n_def _ less.prems(5), unfolded disk_offset_sector]
    have g: "length (sectors h) * 512 < 2 ^ 64" using bdev.geometry [OF less.prems(1)] by blast
    have sec: "?sec < length (sectors h)" using r(3) True by simp
    obtain h1 where h1: "(if ph_last_sector hdl \<noteq> Some ?sec then load_sector io c ?sec hdl h else (Inr (), hdl, h)) =
      (Inr (), hdl\<lparr>ph_sector_cache := sectors h ! ?sec\<rparr>, h1)" "disk_ok h1" "sectors h1 = sectors h"
      by (rule cached_sector [OF less.prems(1) sec less.prems(2)])
    let ?part = "slice_of (sectors h ! ?sec) ?pos (?pos + n)"
    let ?buf = "splice_at buf d ?part"
    let ?hdl = "hdl\<lparr>ph_sector_cache := sectors h ! ?sec, ph_last_sector := Some ?sec, ph_position := ph_position hdl + n\<rparr>"
    have len: "length ?part = n" using r(2,7) True by (simp add: slice_simps)
    have lenb: "length ?buf = length buf" using less.prems(4) r(5) True len by (simp add: slice_simps)
    have fit: "?sec < 2 ^ 64" "ph_position hdl + n < 2 ^ 64"
      using sec g r(4) True bdev.flat_length [OF less.prems(1)] by (auto simp: disk_offset_def)
    have o: "disk_offset ?hdl = ?o + n" by (simp add: disk_offset_def)
    have nm: "min (512 - ?pos) (to_read - d) = n" by (simp add: n_def disk_offset_sector min.commute)
    have step: "pata_read_loop io c to_read d buf hdl h = pata_read_loop io c to_read (d + n) ?buf ?hdl h1"
      using True r(2,5,7) less.prems(4) len fit
      by (subst pata_read_loop.simps)
        (simp add: h1(1) nm checked_simps Let_def del: bind_eq_Some_iff)
    have "\<exists>hdl' h'. pata_read_loop io c to_read (d + n) ?buf ?hdl h1 =
      Some ((Inr to_read, splice_at ?buf (d + n) (slice_of (concat (sectors h1)) (disk_offset ?hdl) (disk_offset ?hdl + (to_read - (d + n))))), hdl', h') \<and>
      disk_ok h' \<and> sectors h' = sectors h1 \<and> cache_ok hdl' (sectors h1) \<and>
      hdl' = ?hdl\<lparr>ph_position := ph_position ?hdl + (to_read - (d + n)), ph_last_sector := ph_last_sector hdl', ph_sector_cache := ph_sector_cache hdl'\<rparr>"
    proof (rule less.hyps [OF _ h1(2)])
      show "to_read - (d + n) < to_read - d" using True r(1) by simp
      show "cache_ok ?hdl (sectors h1)" using r(7) sec True by (simp add: cache_ok_def h1(3))
      show "d + n \<le> to_read" using r(5) True by simp
      show "to_read \<le> length ?buf" using less.prems(4) lenb by simp
      show "disk_offset ?hdl + (to_read - (d + n)) \<le> length (concat (sectors h1))"
        unfolding o h1(3) using less.prems(5) r(5) True by simp
    qed
    then obtain hdl' h' where ih: "pata_read_loop io c to_read (d + n) ?buf ?hdl h1 =
      Some ((Inr to_read, splice_at ?buf (d + n) (slice_of (concat (sectors h)) (?o + n) (?o + n + (to_read - (d + n))))), hdl', h')"
      "disk_ok h'" "sectors h' = sectors h" "cache_ok hdl' (sectors h)"
      "hdl' = ?hdl\<lparr>ph_position := ph_position ?hdl + (to_read - (d + n)), ph_last_sector := ph_last_sector hdl', ph_sector_cache := ph_sector_cache hdl'\<rparr>"
      unfolding o h1(3) by blast
    have "splice_at ?buf (d + n) (slice_of (concat (sectors h)) (?o + n) (?o + n + (to_read - (d + n)))) =
        splice_at buf d (?part @ slice_of (concat (sectors h)) (?o + n) (?o + n + (to_read - (d + n))))"
      using len less.prems(4,5) r(5) True by (intro splice_extend) (simp_all add: slice_simps)
    also have "?part @ slice_of (concat (sectors h)) (?o + n) (?o + n + (to_read - (d + n))) =
        slice_of (concat (sectors h)) ?o (?o + (to_read - d))"
      using r(5,6) True slice_append_slice [of ?o "?o + n" "?o + n + (to_read - (d + n))" "concat (sectors h)"] by simp
    finally have out: "pata_read_loop io c to_read d buf hdl h =
      Some ((Inr to_read, splice_at buf d (slice_of (concat (sectors h)) ?o (?o + (to_read - d)))), hdl', h')"
      using step ih(1) by simp
    have "hdl' = hdl\<lparr>ph_position := ph_position hdl + (to_read - d), ph_last_sector := ph_last_sector hdl', ph_sector_cache := ph_sector_cache hdl'\<rparr>"
      using r(5) True by (subst ih(5)) simp
    then show ?thesis using out ih(2-4) by blast
  qed
qed

lemma store_sector_ok:
  assumes "disk_ok h" "disk_offset hdl div 512 < length (sectors h)" "disk_offset hdl mod 512 + length xs \<le> 512"
  obtains h' where "write_sector io c (of_nat (disk_offset hdl div 512))
      (splice_at (sectors h ! (disk_offset hdl div 512)) (disk_offset hdl mod 512) xs) h = (Inr (), h')" "disk_ok h'"
    "sectors h' = (sectors h)[disk_offset hdl div 512 := splice_at (sectors h ! (disk_offset hdl div 512)) (disk_offset hdl mod 512) xs]"
    "concat (sectors h') = splice_at (concat (sectors h)) (disk_offset hdl) xs"
proof -
  let ?n = "disk_offset hdl div 512" and ?p = "disk_offset hdl mod 512"
  have h: "idle h" "?n < 2 ^ 40" "uniform 512 (sectors h)" using assms(1,2) sector_count_bound [of c] by (auto simp: disk_ok_def)
  have len: "length (splice_at (sectors h ! ?n) ?p xs) = 512" using uniform_nth [OF h(3) assms(2)] assms(3) by (simp add: slice_simps)
  obtain h' where h': "write_sector io c (of_nat ?n) (splice_at (sectors h ! ?n) ?p xs) h = (Inr (), h')" "idle h'"
    "sectors h' = (sectors h)[?n := splice_at (sectors h ! ?n) ?p xs]"
    using write_sector_correct [OF h(1) assms(2) h(2) len] by blast
  have "concat (sectors h') = splice_at (concat (sectors h)) (?n * 512 + ?p) xs"
    unfolding h'(3) by (rule splice_concat_uniform [OF h(3) assms(2,3)])
  moreover have "disk_ok h'" using h' assms(1) len by (simp add: disk_ok_def uniform_update)
  ultimately show ?thesis using that h' by simp
qed

text \<open>The sector to write, whether its old contents were read back or all of it is replaced.\<close>

lemma write_back_sector:
  assumes "disk_ok h" "n < length (sectors h)" "length (ph_sector_cache hdl) = 512" "length xs = k" "p + k \<le> 512"
  obtains hdl1 h1 where "(if k \<noteq> 512 then load_sector io c n hdl h else (Inr (), hdl, h)) = (Inr (), hdl1, h1)"
    "disk_ok h1" "sectors h1 = sectors h" "copy_from_slice (ph_sector_cache hdl1) p (p + k) xs = Some (splice_at (sectors h ! n) p xs)"
    "hdl1 = hdl\<lparr>ph_sector_cache := ph_sector_cache hdl1\<rparr>"
proof -
  have len: "length (sectors h ! n) = 512" using assms(1,2) uniform_nth [of 512 "sectors h" n] by (simp add: disk_ok_def)
  show ?thesis
  proof (cases "k = 512")
    case True
    then have "splice_at (ph_sector_cache hdl) p xs = splice_at (sectors h ! n) p xs"
      using assms(3-5) len by (simp add: splice_at_def)
    then show ?thesis using that [of hdl h] True assms by (simp add: checked_simps)
  next
    case False
    obtain h' where "load_sector io c n hdl h = (Inr (), hdl\<lparr>ph_sector_cache := sectors h ! n\<rparr>, h')" "disk_ok h'" "sectors h' = sectors h"
      by (rule load_sector_ok [OF assms(1,2)])
    then show ?thesis using that [of "hdl\<lparr>ph_sector_cache := sectors h ! n\<rparr>" h'] False assms(4,5) len by (simp add: checked_simps)
  qed
qed

lemma write_loop_bytes:
  assumes "disk_ok h" "cache_ok hdl (sectors h)" "d \<le> to_write" "to_write \<le> length buf"
    "disk_offset hdl + (to_write - d) \<le> length (concat (sectors h))"
  shows "\<exists>hdl' h'. pata_write_loop io c to_write d buf hdl h = Some (Inr to_write, hdl', h') \<and> disk_ok h' \<and>
    length (sectors h') = length (sectors h) \<and> cache_ok hdl' (sectors h') \<and>
    concat (sectors h') = splice_at (concat (sectors h)) (disk_offset hdl) (slice_of buf d to_write) \<and>
    hdl' = hdl\<lparr>ph_position := ph_position hdl + (to_write - d), ph_last_sector := ph_last_sector hdl', ph_sector_cache := ph_sector_cache hdl'\<rparr>"
  using assms
proof (induction "to_write - d" arbitrary: d hdl h rule: less_induct)
  case less
  show ?case
  proof (cases "d < to_write")
    case False
    then show ?thesis using less.prems by (subst pata_write_loop.simps) (simp add: disk_offset_def)
  next
    case True
    define n where "n = min (to_write - d) (512 - disk_offset hdl mod 512)"
    let ?o = "disk_offset hdl" and ?pos = "ph_position hdl mod 512" and ?sec = "ph_position hdl div 512 + dr_start (ph_disk_range hdl)"
    let ?xs = "slice_of buf d (d + n)"
    note r = bdev.round_facts [OF less.prems(1) n_def _ less.prems(5), unfolded disk_offset_sector]
    have g: "length (sectors h) * 512 < 2 ^ 64" using bdev.geometry [OF less.prems(1)] by blast
    have sec: "?sec < length (sectors h)" using r(3) True by simp
    have xs: "length ?xs = n" using less.prems(4) r(5) True by (simp add: slice_simps)
    have nb: "?pos + n \<le> 512" using r(2) True by simp
    have cl: "length (ph_sector_cache hdl) = 512" using less.prems(2) by (simp add: cache_ok_def)
    obtain hdl1 h1 where l: "(if n \<noteq> 512 then load_sector io c ?sec hdl h else (Inr (), hdl, h)) = (Inr (), hdl1, h1)"
      "disk_ok h1" "sectors h1 = sectors h" "copy_from_slice (ph_sector_cache hdl1) ?pos (?pos + n) ?xs = Some (splice_at (sectors h ! ?sec) ?pos ?xs)"
      "hdl1 = hdl\<lparr>ph_sector_cache := ph_sector_cache hdl1\<rparr>"
      by (rule write_back_sector [OF less.prems(1) sec cl xs nb])
    let ?cache = "splice_at (sectors h ! ?sec) ?pos ?xs"
    obtain h2 where h2: "write_sector io c (of_nat ?sec) ?cache h1 = (Inr (), h2)" "disk_ok h2" "sectors h2 = (sectors h)[?sec := ?cache]"
      "concat (sectors h2) = splice_at (concat (sectors h)) ?o ?xs"
      using store_sector_ok [OF l(2), of hdl ?xs] sec nb xs unfolding disk_offset_sector l(3) by auto
    let ?hdl = "hdl1\<lparr>ph_last_sector := Some ?sec, ph_sector_cache := ?cache, ph_position := ph_position hdl + n\<rparr>"
    have same: "ph_disk_range hdl1 = ph_disk_range hdl" "ph_position hdl1 = ph_position hdl" by (subst l(5), simp)+
    have o: "disk_offset ?hdl = ?o + n" by (simp add: disk_offset_def same)
    have fit: "?sec < 2 ^ 64" "ph_position hdl + n < 2 ^ 64"
      using sec g r(4) True bdev.flat_length [OF less.prems(1)] by (auto simp: disk_offset_def)
    have nm: "min (512 - ?pos) (to_write - d) = n" by (simp add: n_def disk_offset_sector min.commute)
    have step: "pata_write_loop io c to_write d buf hdl h = pata_write_loop io c to_write (d + n) buf ?hdl h2"
      using True r(5) less.prems(4) fit
      by (subst pata_write_loop.simps) (simp add: nm l(1,4) h2(1) checked_simps Let_def del: bind_eq_Some_iff of_nat_add)
    have "\<exists>hdl' h'. pata_write_loop io c to_write (d + n) buf ?hdl h2 = Some (Inr to_write, hdl', h') \<and> disk_ok h' \<and>
      length (sectors h') = length (sectors h2) \<and> cache_ok hdl' (sectors h') \<and>
      concat (sectors h') = splice_at (concat (sectors h2)) (disk_offset ?hdl) (slice_of buf (d + n) to_write) \<and>
      hdl' = ?hdl\<lparr>ph_position := ph_position ?hdl + (to_write - (d + n)), ph_last_sector := ph_last_sector hdl', ph_sector_cache := ph_sector_cache hdl'\<rparr>"
    proof (rule less.hyps [OF _ h2(2) _ _ less.prems(4)])
      show "to_write - (d + n) < to_write - d" using True r(1) by simp
      show "cache_ok ?hdl (sectors h2)" using r(7) sec True xs nb by (simp add: cache_ok_def h2(3) slice_simps)
      show "d + n \<le> to_write" using r(5) True by simp
      have "length (concat (sectors h2)) = length (concat (sectors h))"
        unfolding h2(4) using less.prems(5) r(5) True xs by (simp add: slice_simps)
      then show "disk_offset ?hdl + (to_write - (d + n)) \<le> length (concat (sectors h2))"
        unfolding o using less.prems(5) r(5) True by simp
    qed
    then obtain hdl' h' where ih: "pata_write_loop io c to_write (d + n) buf ?hdl h2 = Some (Inr to_write, hdl', h')" "disk_ok h'"
      "length (sectors h') = length (sectors h)" "cache_ok hdl' (sectors h')"
      "concat (sectors h') = splice_at (splice_at (concat (sectors h)) ?o ?xs) (?o + n) (slice_of buf (d + n) to_write)"
      "hdl' = ?hdl\<lparr>ph_position := ph_position ?hdl + (to_write - (d + n)), ph_last_sector := ph_last_sector hdl', ph_sector_cache := ph_sector_cache hdl'\<rparr>"
      unfolding o h2(4) by (auto simp: h2(3))
    have "splice_at (splice_at (concat (sectors h)) ?o ?xs) (?o + n) (slice_of buf (d + n) to_write) =
        splice_at (concat (sectors h)) ?o (?xs @ slice_of buf (d + n) to_write)"
      using xs less.prems(4,5) r(5) True by (intro splice_extend) (simp_all add: slice_simps)
    moreover have "?xs @ slice_of buf (d + n) to_write = slice_of buf d to_write"
      using r(5) True by (intro slice_append_slice) simp_all
    moreover have "hdl' = hdl\<lparr>ph_position := ph_position hdl + (to_write - d), ph_last_sector := ph_last_sector hdl', ph_sector_cache := ph_sector_cache hdl'\<rparr>"
      using r(5) True by (subst ih(6), subst l(5)) simp
    ultimately show ?thesis using step ih(1-5) by auto
  qed
qed

end

section \<open>Properties of device files\<close>

lemma slice_slice: "c \<le> b - a \<Longrightarrow> slice_of (slice_of xs a b) x c = slice_of xs (a + x) (a + c)"
  by (cases "x \<le> c") (simp_all add: slice_of_def drop_take add.commute)

text \<open>The state in which a handle of a device file is used: known to the driver, in the range of its drive.\<close>

definition handle_ready ::
    "('h \<Rightarrow> u8 list list) \<Rightarrow> nat \<Rightarrow> PataFsFileHandle DevFs \<Rightarrow> 'h PataWorld \<Rightarrow> PataFsFileHandle \<Rightarrow> bool" where
  "handle_ready sectors handle fs s hdl \<longleftrightarrow>
     handle \<in> pw_handles s \<and> dev_get_handle_data fs handle = Some hdl \<and> is_present (pw_controllers s (ph_controller hdl)) \<and>
     ph_mode hdl AND OPEN_MODE_READ \<noteq> 0 \<and> range_ok (ph_disk_range hdl) (sectors (pw_hw s)) \<and>
     cache_ok hdl (sectors (pw_hw s))"

lemma range_bytes_length:
  assumes "range_ok r ss" "uniform 512 ss"
  shows "length (range_bytes r ss) = (dr_end r - dr_start r) * 512"
  using assms length_concat_uniform [OF assms(2)] by (simp add: range_bytes_def range_ok_def length_slice diff_mult_distrib)

lemma range_size_bytes_ok:
  assumes "range_ok (ph_disk_range hdl) ss" "uniform 512 ss" "length ss * 512 < 2 ^ 64"
  shows "range_size_bytes hdl = Some (length (range_bytes (ph_disk_range hdl) ss))"
proof -
  have "(dr_end (ph_disk_range hdl) - dr_start (ph_disk_range hdl)) * 512 \<le> length ss * 512"
    using assms(1) by (intro mult_le_mono1) (auto simp: range_ok_def)
  then show ?thesis using assms(3) range_bytes_length [OF assms(1,2)] assms(1)
    by (simp add: range_size_bytes_def range_ok_def checked_simps del: bind_eq_Some_iff)
qed

text \<open>A request inside the range stays inside the disk.\<close>

lemma request_in_disk:
  assumes "range_ok (ph_disk_range hdl) ss" "uniform 512 ss" "ph_position hdl + n \<le> length (range_bytes (ph_disk_range hdl) ss)"
  shows "disk_offset hdl + n \<le> length (concat ss)"
    "slice_of (range_bytes (ph_disk_range hdl) ss) (ph_position hdl) (ph_position hdl + n) =
       slice_of (concat ss) (disk_offset hdl) (disk_offset hdl + n)"
proof -
  let ?r = "ph_disk_range hdl"
  have e: "dr_start ?r * 512 \<le> dr_end ?r * 512" "dr_end ?r * 512 \<le> length ss * 512" using assms(1) by (auto simp: range_ok_def)
  show "disk_offset hdl + n \<le> length (concat ss)"
    using assms(3) e length_concat_uniform [OF assms(2)] unfolding range_bytes_length [OF assms(1,2)]
    by (simp add: disk_offset_def diff_mult_distrib)
  show "slice_of (range_bytes ?r ss) (ph_position hdl) (ph_position hdl + n) = slice_of (concat ss) (disk_offset hdl) (disk_offset hdl + n)"
    using assms(3) slice_slice [of "ph_position hdl + n" "dr_end ?r * 512" "dr_start ?r * 512" "concat ss" "ph_position hdl"]
    unfolding range_bytes_length [OF assms(1,2)]
    by (simp add: range_bytes_def disk_offset_def diff_mult_distrib add.assoc)
qed

text \<open>One read and one write of a device file, with everything they leave in the handle and on the drive.\<close>

lemma pata_fread_step:
  fixes buf :: "u8 list"
  assumes drive: "ata_drive io (pw_controllers s (ph_controller hdl)) sectors tf idle sending receiving"
    and ready: "handle_ready sectors handle fs s hdl"
    and disk: "ata_drive.disk_ok (pw_controllers s (ph_controller hdl)) sectors idle (pw_hw s)"
    and pos: "ph_position hdl \<le> length (range_bytes (ph_disk_range hdl) (sectors (pw_hw s)))"
    and n_def: "n = min (length buf) (length (range_bytes (ph_disk_range hdl) (sectors (pw_hw s))) - ph_position hdl)"
  obtains hdl' h' where
    "pata_fread io handle buf (fs, s) =
      Some (Inr (n, splice_at buf 0 (slice_of (range_bytes (ph_disk_range hdl) (sectors (pw_hw s))) (ph_position hdl) (ph_position hdl + n))),
        dev_set_handle_data fs handle hdl', s\<lparr>pw_hw := h'\<rparr>)"
    "sectors h' = sectors (pw_hw s)" "cache_ok hdl' (sectors h')"
    "ata_drive.disk_ok (pw_controllers s (ph_controller hdl)) sectors idle h'"
    "hdl' = hdl\<lparr>ph_position := ph_position hdl + n, ph_last_sector := ph_last_sector hdl', ph_sector_cache := ph_sector_cache hdl'\<rparr>"
proof -
  let ?ss = "sectors (pw_hw s)" and ?c = "pw_controllers s (ph_controller hdl)"
  have u: "uniform 512 ?ss" "length ?ss * 512 < 2 ^ 64"
    using disk ata_drive.disk_ok_def [OF drive] sector_count_bound [of ?c] by simp_all
  have r: "range_ok (ph_disk_range hdl) ?ss" "cache_ok hdl ?ss" using ready by (simp_all add: handle_ready_def)
  have n: "ph_position hdl + n \<le> length (range_bytes (ph_disk_range hdl) ?ss)" "n \<le> length buf" using pos by (simp_all add: n_def)
  note q = request_in_disk [OF r(1) u(1) n(1)]
  obtain hdl' h' where l: "pata_read_loop io ?c n 0 buf hdl (pw_hw s) =
      Some ((Inr n, splice_at buf 0 (slice_of (concat ?ss) (disk_offset hdl) (disk_offset hdl + n))), hdl', h')"
    "sectors h' = ?ss" "cache_ok hdl' ?ss" "ata_drive.disk_ok ?c sectors idle h'"
    "hdl' = hdl\<lparr>ph_position := ph_position hdl + n, ph_last_sector := ph_last_sector hdl', ph_sector_cache := ph_sector_cache hdl'\<rparr>"
    using ata_drive.read_loop_bytes [OF drive disk r(2), of 0 n buf] n(2) q(1) by auto
  show ?thesis
  proof (rule that [OF _ l(2) _ l(4,5)])
    show "pata_fread io handle buf (fs, s) =
      Some (Inr (n, splice_at buf 0 (slice_of (range_bytes (ph_disk_range hdl) ?ss) (ph_position hdl) (ph_position hdl + n))),
        dev_set_handle_data fs handle hdl', s\<lparr>pw_hw := h'\<rparr>)"
      using ready pos range_size_bytes_ok [OF r(1) u] l(1) q(2)
      by (simp add: pata_fread_def pata_with_handle_def handle_ready_def checked_simps Let_def n_def [symmetric] io_result_def
          del: bind_eq_Some_iff)
    show "cache_ok hdl' (sectors h')" using l(2,3) by simp
  qed
qed

lemma pata_fwrite_step:
  fixes buf :: "u8 list"
  assumes drive: "ata_drive io (pw_controllers s (ph_controller hdl)) sectors tf idle sending receiving"
    and ready: "handle_ready sectors handle fs s hdl"
    and gen: "pc_generation (pw_controllers s (ph_controller hdl)) = ph_generation hdl"
    and disk: "ata_drive.disk_ok (pw_controllers s (ph_controller hdl)) sectors idle (pw_hw s)"
    and pos: "ph_position hdl \<le> length (range_bytes (ph_disk_range hdl) (sectors (pw_hw s)))"
    and n_def: "n = min (length buf) (length (range_bytes (ph_disk_range hdl) (sectors (pw_hw s))) - ph_position hdl)"
  obtains hdl' h' where
    "pata_fwrite io handle buf (fs, s) = Some (Inr n, dev_set_handle_data fs handle hdl', s\<lparr>pw_hw := h'\<rparr>)"
    "cache_ok hdl' (sectors h')" "ata_drive.disk_ok (pw_controllers s (ph_controller hdl)) sectors idle h'"
    "concat (sectors h') = splice_at (concat (sectors (pw_hw s))) (disk_offset hdl) (take n buf)"
    "hdl' = hdl\<lparr>ph_position := ph_position hdl + n, ph_last_sector := ph_last_sector hdl', ph_sector_cache := ph_sector_cache hdl'\<rparr>"
proof -
  let ?ss = "sectors (pw_hw s)" and ?c = "pw_controllers s (ph_controller hdl)"
  have u: "uniform 512 ?ss" "length ?ss * 512 < 2 ^ 64"
    using disk ata_drive.disk_ok_def [OF drive] sector_count_bound [of ?c] by simp_all
  have r: "range_ok (ph_disk_range hdl) ?ss" "cache_ok hdl ?ss" using ready by (simp_all add: handle_ready_def)
  have n: "ph_position hdl + n \<le> length (range_bytes (ph_disk_range hdl) ?ss)" "n \<le> length buf" using pos by (simp_all add: n_def)
  obtain hdl' h' where l: "pata_write_loop io ?c n 0 buf hdl (pw_hw s) = Some (Inr n, hdl', h')" "cache_ok hdl' (sectors h')"
    "ata_drive.disk_ok ?c sectors idle h'" "concat (sectors h') = splice_at (concat ?ss) (disk_offset hdl) (slice_of buf 0 n)"
    "hdl' = hdl\<lparr>ph_position := ph_position hdl + n, ph_last_sector := ph_last_sector hdl', ph_sector_cache := ph_sector_cache hdl'\<rparr>"
    using ata_drive.write_loop_bytes [OF drive disk r(2), of 0 n buf] n(2) request_in_disk(1) [OF r(1) u(1) n(1)] by auto
  show ?thesis
  proof (rule that [OF _ l(2,3) _ l(5)])
    show "pata_fwrite io handle buf (fs, s) = Some (Inr n, dev_set_handle_data fs handle hdl', s\<lparr>pw_hw := h'\<rparr>)"
      using ready gen pos range_size_bytes_ok [OF r(1) u] l(1)
      by (simp add: pata_fwrite_def pata_with_handle_def handle_ready_def checked_simps Let_def n_def [symmetric] io_result_def
          del: bind_eq_Some_iff)
    show "concat (sectors h') = splice_at (concat ?ss) (disk_offset hdl) (take n buf)" using l(4) by (simp add: slice_of_def)
  qed
qed

text \<open>A drive of two sectors and a partition that is its second sector, for the witnesses.\<close>

definition demo_ids :: "u16 list" where
  "demo_ids = replicate 60 1 @ [2, 0] @ replicate 194 1"

definition demo_pci :: PciDevice where
  "demo_pci = \<lparr>pci_bus = 0, pci_device = 1, pci_function = 1, pci_vendor_id = 0x8086, pci_device_id = 0x7010, pci_class = 1,
     pci_subclass = 1, pci_prog_if = 0x80, pci_os_class_name = ''ide''\<rparr>"

definition demo_world :: "Drive PataWorld" where
  "demo_world = \<lparr>pw_pci_device = demo_pci, pw_handles = {4096}, pw_controllers = (\<lambda>_. controller_of Primary Master demo_ids),
     pw_hw = demo_drive\<rparr>"

definition demo_handle :: PataFsFileHandle where
  "demo_handle = \<lparr>ph_mode = 3, ph_controller = (Primary, Master), ph_position = 510, ph_last_sector = None,
     ph_sector_cache = replicate 512 0, ph_generation = 0, ph_disk_range = \<lparr>dr_start = 1, dr_end = 2\<rparr>\<rparr>"

definition demo_dev :: "PataFsFileHandle DevFs" where
  "demo_dev = (devfs_init [demo_pci])\<lparr>df_handles := [4096 \<mapsto> HookHandle \<lparr>hk_driver = PATA,
     hk_file = \<lparr>vf_kind = KBlockDevice 1, vf_name = ''pata_pm_p0'', vf_size = 0, vf_parent_fs = 3, vf_fs = 3, vf_specific = OtherSpecific 1\<rparr>,
     hk_kind = Device, hk_generation = 0, hk_device_id = 0\<rparr> demo_handle]\<rparr>"

lemma demo_sector_count: "sector_count (controller_of Primary Master demo_ids) = 2"
  by (simp add: sector_count_def controller_of_def demo_ids_def nth_append)

lemma demo_present: "is_present (controller_of Primary Master demo_ids)"
  by (simp add: is_present_def controller_of_def demo_ids_def slice_of_def)

lemma demo_disk_ok: "ata_drive.disk_ok (controller_of Primary Master demo_ids) dv_sectors drive_idle demo_drive"
  using demo_sector_count by (simp add: drv.disk_ok_def [of Primary Master demo_ids, simplified] demo_drive_def drive_idle_def uniform_def)

lemma demo_ready: "handle_ready dv_sectors 4096 demo_dev demo_world demo_handle"
  by (simp add: handle_ready_def demo_world_def demo_dev_def demo_handle_def demo_present dev_get_handle_data_def get_handle_data_def
      OPEN_MODE_READ_def range_ok_def cache_ok_def demo_drive_def)

lemma demo_ready_parts:
  "4096 \<in> pw_handles demo_world" "dev_get_handle_data demo_dev 4096 = Some demo_handle"
  "is_present (pw_controllers demo_world (ph_controller demo_handle))" "ph_mode demo_handle AND OPEN_MODE_READ \<noteq> 0"
  "range_ok (ph_disk_range demo_handle) (dv_sectors (pw_hw demo_world))" "cache_ok demo_handle (dv_sectors (pw_hw demo_world))"
  using demo_ready unfolding handle_ready_def by blast+

lemma demo_bytes: "range_bytes (ph_disk_range demo_handle) (dv_sectors (pw_hw demo_world)) = replicate 512 2"
  by (simp add: range_bytes_def demo_handle_def demo_world_def demo_drive_def slice_of_def)





text \<open>
  A device file of a partition accepts a seek to any position on the whole disk; beyond the
  partition's end the next read panics.
\<close>

theorem pata_seek_past_partition_panics:
  assumes "handle_ready sectors handle fs s hdl" "size_bytes (pw_controllers s (ph_controller hdl)) = Some len"
    "range_size_bytes hdl = Some n" "n < p" "p \<le> len"
  shows "\<exists>fs'. pata_fseek handle (FromStart p) (fs, s) = Some (Inr p, fs', s) \<and> pata_fread io handle buf (fs', s) = None"
proof -
  have h: "handle \<in> pw_handles s" "dev_get_handle_data fs handle = Some hdl" "is_present (pw_controllers s (ph_controller hdl))"
    "ph_mode hdl AND OPEN_MODE_READ \<noteq> 0" using assms(1) by (simp_all add: handle_ready_def)
  let ?fs = "dev_set_handle_data fs handle (hdl\<lparr>ph_position := p\<rparr>)"
  have g: "dev_get_handle_data ?fs handle = Some (hdl\<lparr>ph_position := p\<rparr>)"
    using h(2) by (auto simp: dev_get_handle_data_def dev_set_handle_data_def get_handle_data_def split: option.splits DevFsHandleData.splits)
  have "pata_fseek handle (FromStart p) (fs, s) = Some (Inr p, ?fs, s)"
    using h assms(2,5) by (simp add: pata_fseek_def pata_with_handle_def Let_def io_ok_def del: bind_eq_Some_iff)
  moreover have "pata_fread io handle buf (?fs, s) = None"
    using h g assms(3,4) by (simp add: pata_fread_def pata_with_handle_def Let_def range_size_bytes_def sub64_def split: if_splits)
  ultimately show ?thesis by blast
qed

theorem pata_seek_past_partition_panics_witness:
  "\<exists>fs'. pata_fseek 4096 (FromStart 513) (demo_dev, demo_world) = Some (Inr 513, fs', demo_world) \<and>
     pata_fread (drive_io 0x1F0) 4096 [0] (fs', demo_world) = None"
proof (rule pata_seek_past_partition_panics [OF demo_ready])
  show "size_bytes (pw_controllers demo_world (ph_controller demo_handle)) = Some 1024"
    by (simp add: demo_world_def size_bytes_def demo_sector_count mul64_def)
  show "range_size_bytes demo_handle = Some 512" by (simp add: range_size_bytes_def demo_handle_def sub64_def mul64_def)
qed simp_all

end
