(* ===== verification/Ext2_Alloc.thy ===== *)
theory Ext2_Alloc
  imports Block_Device Bitmap Pool Data_Utils
begin

text \<open>
  The allocators of blocks and inodes of an ext2 block group
  (\<^verbatim>\<open>drivers/fs/phys/ext2/balloc.rs\<close>, \<^verbatim>\<open>ialloc.rs\<close>): a usage bitmap held in
  memory, a second bitmap of the blocks of the first that are not written back yet, and the
  change of the usage count since the bitmap was read. The two structures of the source have the
  same fields and the same code but for their constructors; they share the record
  \<open>GroupAllocator\<close>. The volume is any block device. \<open>align\<close> gives the split
  \<^verbatim>\<open>align_to\<close> makes of a bitmap's buffer, as in \<open>Bitmap\<close>.
\<close>

record GroupAllocator =
  ga_min_inclusive :: nat
  ga_max_exclusive :: nat
  ga_bitmap_begin :: nat
  ga_bitmap_end :: nat
  ga_bs :: nat
  ga_bitmap :: Bitmap
  ga_dirty_blocks :: Bitmap
  ga_diff_usage :: int

type_synonym BlockAllocator = GroupAllocator
type_synonym InodeAllocator = GroupAllocator

definition group_bitmap_size :: "nat \<Rightarrow> nat \<Rightarrow> nat panics" where
  "group_bitmap_size blocks_per_group block_size = do {
     block_bits \<leftarrow> mul64 block_size 8;
     bitmap_bits \<leftarrow> mul64 blocks_per_group block_bits;
     Some (div_ceil bitmap_bits 8)
   }"

definition block_allocator_new :: "u8 list \<Rightarrow> nat \<Rightarrow> nat \<Rightarrow> nat \<Rightarrow> nat \<Rightarrow> nat \<Rightarrow> BlockAllocator panics" where
  "block_allocator_new uninit min_block max_block bitmap_begin bitmap_end block_size = do {
     n \<leftarrow> sub64 bitmap_end bitmap_begin;
     bytes \<leftarrow> mul64 n block_size;
     bits \<leftarrow> mul64 bytes 8;
     Some \<lparr>ga_min_inclusive = min_block, ga_max_exclusive = max_block, ga_bitmap_begin = bitmap_begin, ga_bitmap_end = bitmap_end,
       ga_bs = block_size, ga_bitmap = bitmap_new uninit bits, ga_dirty_blocks = bitmap_new uninit n, ga_diff_usage = 0\<rparr>
   }"

definition inode_allocator_new :: "u8 list \<Rightarrow> nat \<Rightarrow> nat \<Rightarrow> nat \<Rightarrow> nat \<Rightarrow> nat \<Rightarrow> InodeAllocator panics" where
  "inode_allocator_new uninit min_inode max_inode bitmap_begin bitmap_end block_size = do {
     num_inodes \<leftarrow> sub64 max_inode min_inode;
     bitmap \<leftarrow> new_with_size_multiple uninit num_inodes block_size;
     bits_per_block \<leftarrow> mul32 8 block_size;
     Some \<lparr>ga_min_inclusive = min_inode, ga_max_exclusive = max_inode, ga_bitmap_begin = bitmap_begin, ga_bitmap_end = bitmap_end,
       ga_bs = block_size, ga_bitmap = bitmap,
       ga_dirty_blocks = bitmap_new uninit (div_ceil num_inodes bits_per_block), ga_diff_usage = 0\<rparr>
   }"

text \<open>\<^verbatim>\<open>unwrap_or(false)\<close> on the result of \<^verbatim>\<open>get_bit\<close>.\<close>

definition bit_or_false :: "Bitmap \<Rightarrow> nat \<Rightarrow> bool panics" where
  "bit_or_false b i = do { r \<leftarrow> get_bit b i; Some (r = Some True) }"

definition mark_dirty :: "GroupAllocator \<Rightarrow> nat \<Rightarrow> GroupAllocator panics" where
  "mark_dirty a bit_index = do {
     dirty \<leftarrow> set_bit (ga_dirty_blocks a) (bit_index div (8 * ga_bs a)) True;
     Some (a\<lparr>ga_dirty_blocks := dirty\<rparr>)
   }"

definition alloc_unit :: "(Bitmap \<Rightarrow> nat \<times> nat) \<Rightarrow> GroupAllocator \<Rightarrow> (nat vresult \<times> GroupAllocator) panics" where
  "alloc_unit align a =
     (case find_first_unset (fst (align (ga_bitmap a))) (snd (align (ga_bitmap a))) (ga_bitmap a) of
        Some bit_index \<Rightarrow> do {
          bm \<leftarrow> set_bit (ga_bitmap a) bit_index True;
          diff \<leftarrow> add_i64 (ga_diff_usage a) 1;
          a' \<leftarrow> mark_dirty (a\<lparr>ga_bitmap := bm, ga_diff_usage := diff\<rparr>) bit_index;
          n \<leftarrow> add32 (ga_min_inclusive a') (bit_index mod 2 ^ 32);
          Some (Inr n, a')
        }
      | None \<Rightarrow> Some (Inl OutOfSpace, a))"

definition dealloc_unit :: "string \<Rightarrow> GroupAllocator \<Rightarrow> nat \<Rightarrow> (unit vresult \<times> GroupAllocator) panics" where
  "dealloc_unit what a n =
     (if n < ga_min_inclusive a \<or> n \<ge> ga_max_exclusive a then Some (Inl InvalidArgument, a)
      else do {
        let bit_index = n - ga_min_inclusive a;
        used \<leftarrow> bit_or_false (ga_bitmap a) bit_index;
        (if \<not> used then Some (Inl (DriverError (''Try to free already free '' @ what @ '' '' @ to_string n)), a)
         else do {
           bm \<leftarrow> set_bit (ga_bitmap a) bit_index False;
           diff \<leftarrow> add_i64 (ga_diff_usage a) (- 1);
           a' \<leftarrow> mark_dirty (a\<lparr>ga_bitmap := bm, ga_diff_usage := diff\<rparr>) bit_index;
           Some (Inr (), a')
         })
      })"

definition alloc_block :: "(Bitmap \<Rightarrow> nat \<times> nat) \<Rightarrow> BlockAllocator \<Rightarrow> (nat vresult \<times> BlockAllocator) panics" where
  "alloc_block align a = alloc_unit align a"

definition dealloc_block :: "BlockAllocator \<Rightarrow> nat \<Rightarrow> (unit vresult \<times> BlockAllocator) panics" where
  "dealloc_block a block = dealloc_unit ''block'' a block"

definition alloc_inode :: "(Bitmap \<Rightarrow> nat \<times> nat) \<Rightarrow> InodeAllocator \<Rightarrow> (nat vresult \<times> InodeAllocator) panics" where
  "alloc_inode align a = alloc_unit align a"

definition dealloc_inode :: "InodeAllocator \<Rightarrow> nat \<Rightarrow> (unit vresult \<times> InodeAllocator) panics" where
  "dealloc_inode a inode = dealloc_unit ''inode'' a inode"

section \<open>Reading and writing back\<close>

fun read_bitmap_blocks :: "'w BlockDevice \<Rightarrow> nat \<Rightarrow> nat \<Rightarrow> nat list \<Rightarrow> u8 list \<Rightarrow> 'w \<Rightarrow> ((unit vresult \<times> u8 list) \<times> 'w) panics" where
  "read_bitmap_blocks vol bs begin [] data w = Some ((Inr (), data), w)"
| "read_bitmap_blocks vol bs begin (i # is) data w = do {
     part \<leftarrow> slice_get data (i * bs) ((i + 1) * bs);
     ((r, part'), w') \<leftarrow> bd_read_block vol (begin + i) part w;
     let data' = splice_at data (i * bs) part';
     (case r of
        Inl e \<Rightarrow> Some ((Inl e, data'), w')
      | Inr _ \<Rightarrow> read_bitmap_blocks vol bs begin is data' w')
   }"

definition read_all :: "'w BlockDevice \<Rightarrow> GroupAllocator \<Rightarrow> 'w \<Rightarrow> ((unit vresult \<times> GroupAllocator) \<times> 'w) panics" where
  "read_all vol a w = do {
     ((r, data), w') \<leftarrow> read_bitmap_blocks vol (ga_bs a) (ga_bitmap_begin a) [0..<ga_bitmap_end a - ga_bitmap_begin a] (bm_data (ga_bitmap a)) w;
     let a' = a\<lparr>ga_bitmap := (ga_bitmap a)\<lparr>bm_data := data\<rparr>\<rparr>;
     (case r of
        Inl e \<Rightarrow> Some ((Inl e, a'), w')
      | Inr _ \<Rightarrow> Some ((Inr (), a'\<lparr>ga_dirty_blocks := clear (ga_dirty_blocks a)\<rparr>), w'))
   }"

fun write_dirty_blocks :: "'w BlockDevice \<Rightarrow> nat list \<Rightarrow> GroupAllocator \<Rightarrow> 'w \<Rightarrow> ((unit vresult \<times> GroupAllocator) \<times> 'w) panics" where
  "write_dirty_blocks vol [] a w = Some ((Inr (), a), w)"
| "write_dirty_blocks vol (i # is) a w = do {
     dirty \<leftarrow> bit_or_false (ga_dirty_blocks a) i;
     (if dirty then do {
        part \<leftarrow> slice_get (bm_data (ga_bitmap a)) (i * ga_bs a) ((i + 1) * ga_bs a);
        (r, w') \<leftarrow> bd_write_block vol (ga_bitmap_begin a + i) part w;
        (case r of
           Inl e \<Rightarrow> Some ((Inl e, a), w')
         | Inr _ \<Rightarrow> do {
             d \<leftarrow> toggle_bit (ga_dirty_blocks a) i;
             write_dirty_blocks vol is (a\<lparr>ga_dirty_blocks := d\<rparr>) w'
           })
      } else write_dirty_blocks vol is a w)
   }"

definition write_dirty :: "'w BlockDevice \<Rightarrow> GroupAllocator \<Rightarrow> 'w \<Rightarrow> ((unit vresult \<times> GroupAllocator) \<times> 'w) panics" where
  "write_dirty vol a w = write_dirty_blocks vol [0..<ga_bitmap_end a - ga_bitmap_begin a] a w"

text \<open>Dropping an allocator panics while blocks are dirty.\<close>

definition allocator_drop :: "(Bitmap \<Rightarrow> nat \<times> nat) \<Rightarrow> GroupAllocator \<Rightarrow> unit panics" where
  "allocator_drop align a =
     assert_rust (find_first_set (fst (align (ga_dirty_blocks a))) (snd (align (ga_dirty_blocks a))) (ga_dirty_blocks a) = None)"

section \<open>Invariants\<close>

definition align_ok :: "(Bitmap \<Rightarrow> nat \<times> nat) \<Rightarrow> bool" where
  "align_ok align \<longleftrightarrow> (\<forall>b. fst (align b) + 8 * snd (align b) \<le> length (bm_data b))"

text \<open>
  A well-formed allocator: the buffer is the blocks of the bitmap, one dirty bit per block, and the
  bits past the last unit of the group are set, as \<^verbatim>\<open>mke2fs\<close> pads them.
\<close>

definition ga_wf :: "GroupAllocator \<Rightarrow> bool" where
  "ga_wf a \<longleftrightarrow> 0 < ga_bs a \<and> bitmap_ok (ga_bitmap a) \<and> bitmap_ok (ga_dirty_blocks a) \<and>
     ga_bitmap_begin a + bm_size (ga_dirty_blocks a) = ga_bitmap_end a \<and>
     length (bm_data (ga_bitmap a)) = bm_size (ga_dirty_blocks a) * ga_bs a \<and>
     ga_min_inclusive a \<le> ga_max_exclusive a \<and> ga_max_exclusive a - ga_min_inclusive a \<le> bm_size (ga_bitmap a) \<and>
     ga_min_inclusive a + bm_size (ga_bitmap a) \<le> 2 ^ 32 \<and>
     (\<forall>i < bm_size (ga_bitmap a). ga_max_exclusive a - ga_min_inclusive a \<le> i \<longrightarrow> bit_at (bm_data (ga_bitmap a)) i)"

definition units :: "GroupAllocator \<Rightarrow> nat set" where
  "units a = {ga_min_inclusive a ..< ga_max_exclusive a}"

definition used :: "GroupAllocator \<Rightarrow> nat set" where
  "used a = {x \<in> units a. bit_at (bm_data (ga_bitmap a)) (x - ga_min_inclusive a)}"

text \<open>The usage change is exact: \<open>c\<close> units were in use when the bitmap was read.\<close>

definition ga_inv :: "nat \<Rightarrow> GroupAllocator \<Rightarrow> nat set \<Rightarrow> bool" where
  "ga_inv c a H \<longleftrightarrow> ga_wf a \<and> H = used a \<and> c \<le> 2 ^ 32 \<and> ga_diff_usage a = int (card H) - int c"

definition synced :: "GroupAllocator \<Rightarrow> u8 list list \<Rightarrow> bool" where
  "synced a disk \<longleftrightarrow> ga_bitmap_end a \<le> length disk \<and>
     (\<forall>i < bm_size (ga_dirty_blocks a). \<not> bit_at (bm_data (ga_dirty_blocks a)) i \<longrightarrow>
        disk ! (ga_bitmap_begin a + i) = slice_of (bm_data (ga_bitmap a)) (i * ga_bs a) ((i + 1) * ga_bs a))"

lemma units_finite [simp]: "finite (units a)" "finite (used a)"
  by (simp_all add: units_def used_def)

lemma card_used: "ga_wf a \<Longrightarrow> card (used a) \<le> 2 ^ 32"
proof -
  assume "ga_wf a"
  then have "card (units a) \<le> 2 ^ 32" by (auto simp: units_def ga_wf_def)
  then show ?thesis using card_mono [of "units a" "used a"] by (auto simp: used_def)
qed

lemma set_bit_data:
  assumes "set_bit b i x = Some b'"
  shows "\<exists>v. bm_data b' = (bm_data b)[i div 8 := v]"
  using assms by (auto simp: set_bit_def list_get_def Let_def split: if_splits intro: exI [of _ "bm_data b ! (i div 8)"])

lemma slice_update_outside: "k < a \<or> b \<le> k \<Longrightarrow> slice_of (xs[k := v]) a b = slice_of xs a b"
proof -
  assume "k < a \<or> b \<le> k"
  moreover have "take (b - a) (drop a zs) = drop a (take b zs)" for zs :: "'a list" by (simp add: drop_take)
  ultimately show ?thesis by (cases "k < a") (simp_all add: slice_of_def)
qed

text \<open>
  What changing a bit does, and marking its block: the well-formedness stays, one unit enters or
  leaves, and no clean block of the bitmap changes.
\<close>

definition bit_changed :: "GroupAllocator \<Rightarrow> nat \<Rightarrow> bool \<Rightarrow> GroupAllocator \<Rightarrow> bool" where
  "bit_changed a i x a' \<longleftrightarrow> ga_wf a' \<and> units a' = units a \<and> ga_min_inclusive a' = ga_min_inclusive a \<and>
     used a' = (if x then insert (ga_min_inclusive a + i) (used a) else used a - {ga_min_inclusive a + i}) \<and>
     (\<forall>disk. synced a disk \<longrightarrow> synced a' disk) \<and> ga_bitmap_begin a' = ga_bitmap_begin a \<and> ga_bitmap_end a' = ga_bitmap_end a \<and>
     ga_bs a' = ga_bs a"

lemma change_bit:
  assumes wf: "ga_wf a" and i: "i < ga_max_exclusive a - ga_min_inclusive a"
  shows "\<exists>bm a'. set_bit (ga_bitmap a) i x = Some bm \<and> mark_dirty (a\<lparr>ga_bitmap := bm, ga_diff_usage := d\<rparr>) i = Some a' \<and>
    ga_diff_usage a' = d \<and> bit_changed a i x a'"
proof -
  let ?b = "ga_bitmap a" and ?k = "i div (8 * ga_bs a)"
  have isz: "i < bm_size ?b" using wf i by (simp add: ga_wf_def)
  obtain bm where bm: "set_bit ?b i x = Some bm" "bitmap_ok bm" "bm_size bm = bm_size ?b" "length (bm_data bm) = length (bm_data ?b)"
    "\<And>n. bit_at (bm_data bm) n \<longleftrightarrow> (if n = i then x else bit_at (bm_data ?b) n)"
    using set_bit_ok [of ?b i x] wf isz by (auto simp: ga_wf_def)
  obtain dirty where dirty: "set_bit (ga_dirty_blocks a) ?k True = Some dirty" "bitmap_ok dirty" "bm_size dirty = bm_size (ga_dirty_blocks a)"
    "\<And>n. bit_at (bm_data dirty) n \<longleftrightarrow> (if n = ?k \<and> ?k < bm_size (ga_dirty_blocks a) then True else bit_at (bm_data (ga_dirty_blocks a)) n)"
    using set_bit_ok [of "ga_dirty_blocks a" ?k True] wf by (auto simp: ga_wf_def)
  let ?a = "a\<lparr>ga_bitmap := bm, ga_diff_usage := d, ga_dirty_blocks := dirty\<rparr>"
  obtain v where v: "bm_data bm = (bm_data ?b)[i div 8 := v]" using set_bit_data [OF bm(1)] by blast
  have "?k = i div 8 div ga_bs a" by (simp add: div_mult2_eq)
  then have outside: "i div 8 < j * ga_bs a \<or> (j + 1) * ga_bs a \<le> i div 8" if "j \<noteq> ?k" for j
    using that wf by (metis ga_wf_def div_nat_eqI not_le add.commute mult.commute plus_1_eq_Suc mult_Suc_right Suc_eq_plus1)
  have same: "slice_of (bm_data bm) (j * ga_bs a) ((j + 1) * ga_bs a) = slice_of (bm_data ?b) (j * ga_bs a) ((j + 1) * ga_bs a)"
    if "j \<noteq> ?k" for j unfolding v using outside [OF that] by (rule slice_update_outside)
  have "i div 8 < bm_size (ga_dirty_blocks a) * ga_bs a" using bitmap_ok_index [OF _ isz] wf by (simp add: ga_wf_def)
  then have k: "?k < bm_size (ga_dirty_blocks a)" by (simp add: div_mult2_eq less_mult_imp_div_less)
  have sync: "synced ?a disk" if "synced a disk" for disk
  proof -
    have e: "ga_bitmap ?a = bm" "ga_dirty_blocks ?a = dirty" "ga_bs ?a = ga_bs a" "ga_bitmap_begin ?a = ga_bitmap_begin a"
      "ga_bitmap_end ?a = ga_bitmap_end a" by simp_all
    show ?thesis using that k same unfolding synced_def e dirty(3,4) by metis
  qed
  have wf': "ga_wf ?a" using wf i bm(2-4) dirty(2,3) by (auto simp: ga_wf_def bm(5))
  have "used ?a = (if x then insert (ga_min_inclusive a + i) (used a) else used a - {ga_min_inclusive a + i})"
    using i by (auto simp: used_def units_def bm(5))
  moreover have "units ?a = units a" by (simp add: units_def)
  ultimately have "bit_changed a i x ?a" using wf' sync by (simp add: bit_changed_def)
  then show ?thesis using bm(1) dirty(1) by (auto simp: mark_dirty_def)
qed

lemma alloc_unit_inv:
  assumes "ga_inv c a H" "align_ok align"
  shows "\<exists>r a'. alloc_unit align a = Some (r, a') \<and>
    (case r of
       Inl e \<Rightarrow> e = OutOfSpace \<and> a' = a \<and> H = units a
     | Inr n \<Rightarrow> n \<in> units a \<and> n \<notin> H \<and> ga_inv c a' (insert n H) \<and> bit_changed a (n - ga_min_inclusive a) True a')"
proof -
  let ?b = "ga_bitmap a"
  have wf: "ga_wf a" "H = used a" "c \<le> 2 ^ 32" "ga_diff_usage a = int (card H) - int c" using assms(1) by (simp_all add: ga_inv_def)
  have ok: "bitmap_ok ?b" using wf(1) by (simp add: ga_wf_def)
  have al: "fst (align ?b) + 8 * snd (align ?b) \<le> length (bm_data ?b)" using assms(2) by (simp only: align_ok_def)
  note spec = find_first_unset_spec [OF ok al]
  show ?thesis
  proof (cases "find_first_unset (fst (align ?b)) (snd (align ?b)) ?b")
    case None
    then have "used a = units a" using spec(2) wf(1) by (auto simp: used_def units_def ga_wf_def)
    then show ?thesis using None wf(2) by (simp add: alloc_unit_def)
  next
    case (Some i)
    then have i: "i < bm_size ?b" "\<not> bit_at (bm_data ?b) i" using spec(1) by simp_all
    then have lt: "i < ga_max_exclusive a - ga_min_inclusive a" using wf(1) by (auto simp: ga_wf_def not_less)
    let ?n = "ga_min_inclusive a + i" and ?d = "ga_diff_usage a + 1"
    obtain bm a' where ch: "set_bit ?b i True = Some bm" "mark_dirty (a\<lparr>ga_bitmap := bm, ga_diff_usage := ?d\<rparr>) i = Some a'"
      "ga_diff_usage a' = ?d" "bit_changed a i True a'" using change_bit [OF wf(1) lt, of True ?d] by blast
    have fit: "?n < 2 ^ 32" "i < 2 ^ 32" using wf(1) i(1) by (auto simp: ga_wf_def)
    have "?n \<notin> H" using i(2) wf(2) by (simp add: used_def)
    then have "ga_inv c a' (insert ?n H)" using ch(3,4) wf by (simp add: ga_inv_def bit_changed_def)
    moreover have "alloc_unit align a = Some (Inr ?n, a')"
      using Some ch fit card_used [OF wf(1)] wf(2-4)
      by (simp add: alloc_unit_def checked_simps bit_changed_def del: bind_eq_Some_iff)
    moreover have "?n \<in> units a" using lt by (simp add: units_def)
    ultimately show ?thesis using \<open>?n \<notin> H\<close> ch(4) by simp
  qed
qed

lemma dealloc_unit_inv:
  assumes "ga_inv c a H"
  shows "n \<in> H \<Longrightarrow> \<exists>a'. dealloc_unit what a n = Some (Inr (), a') \<and> ga_inv c a' (H - {n}) \<and> bit_changed a (n - ga_min_inclusive a) False a'"
    and "n \<notin> units a \<Longrightarrow> dealloc_unit what a n = Some (Inl InvalidArgument, a)"
    and "n \<in> units a \<Longrightarrow> n \<notin> H \<Longrightarrow> dealloc_unit what a n =
      Some (Inl (DriverError (''Try to free already free '' @ what @ '' '' @ to_string n)), a)"
proof -
  let ?b = "ga_bitmap a"
  have wf: "ga_wf a" "H = used a" "c \<le> 2 ^ 32" "ga_diff_usage a = int (card H) - int c" using assms(1) by (simp_all add: ga_inv_def)
  have bits: "bit_or_false ?b (n - ga_min_inclusive a) = Some (n \<in> H)" if "n \<in> units a"
    using that wf(1,2) get_bit_eq [of ?b "n - ga_min_inclusive a"]
    by (auto simp: bit_or_false_def ga_wf_def used_def units_def)
  show "n \<notin> units a \<Longrightarrow> dealloc_unit what a n = Some (Inl InvalidArgument, a)" by (auto simp: dealloc_unit_def units_def)
  show "n \<in> units a \<Longrightarrow> n \<notin> H \<Longrightarrow> dealloc_unit what a n =
      Some (Inl (DriverError (''Try to free already free '' @ what @ '' '' @ to_string n)), a)"
    using bits by (simp add: dealloc_unit_def units_def)
  assume n: "n \<in> H"
  then have u: "n \<in> units a" using wf(2) by (simp add: used_def)
  let ?i = "n - ga_min_inclusive a" and ?d = "ga_diff_usage a + - 1"
  have i: "?i < ga_max_exclusive a - ga_min_inclusive a" "ga_min_inclusive a + ?i = n" using u by (auto simp: units_def)
  obtain bm a' where ch: "set_bit ?b ?i False = Some bm" "mark_dirty (a\<lparr>ga_bitmap := bm, ga_diff_usage := ?d\<rparr>) ?i = Some a'"
    "ga_diff_usage a' = ?d" "bit_changed a ?i False a'" using change_bit [OF wf(1) i(1), of False ?d] by blast
  obtain m where m: "card H = Suc m" "card (H - {n}) = m" using n wf(2) by (metis card_Suc_Diff1 units_finite(2))
  then have "ga_inv c a' (H - {n})" using ch(3,4) wf i(2) by (simp add: ga_inv_def bit_changed_def)
  moreover have "dealloc_unit what a n = Some (Inr (), a')"
    using u n bits [OF u] ch(1,2) card_used [OF wf(1)] wf(2-4) m(1)
    by (simp add: dealloc_unit_def units_def checked_simps Let_def del: bind_eq_Some_iff)
  ultimately show "\<exists>a'. dealloc_unit what a n = Some (Inr (), a') \<and> ga_inv c a' (H - {n}) \<and> bit_changed a ?i False a'" using ch(4) by blast
qed

section \<open>The pool contract\<close>

definition pool_alloc :: "(Bitmap \<Rightarrow> nat \<times> nat) \<Rightarrow> GroupAllocator \<Rightarrow> (nat option \<times> GroupAllocator) panics" where
  "pool_alloc align a = do { (r, a') \<leftarrow> alloc_unit align a; Some (case r of Inl _ \<Rightarrow> None | Inr n \<Rightarrow> Some n, a') }"

definition pool_free :: "GroupAllocator \<Rightarrow> nat \<Rightarrow> GroupAllocator panics" where
  "pool_free a n = do { (_, a') \<leftarrow> dealloc_unit ''block'' a n; Some a' }"

interpretation gpool: resource_pool "pool_alloc align" pool_free "\<lambda>a H. ga_inv c a H \<and> align_ok align" units for align c
proof
  fix a H assume i: "ga_inv c a H \<and> align_ok align"
  obtain r a' where r: "alloc_unit align a = Some (r, a')" "case r of
       Inl e \<Rightarrow> e = OutOfSpace \<and> a' = a \<and> H = units a
     | Inr n \<Rightarrow> n \<in> units a \<and> n \<notin> H \<and> ga_inv c a' (insert n H) \<and> bit_changed a (n - ga_min_inclusive a) True a'"
    using alloc_unit_inv i by blast
  then show "\<exists>q s'. pool_alloc align a = Some (q, s') \<and> units s' = units a \<and>
      (case q of None \<Rightarrow> s' = a \<and> H = units a | Some x \<Rightarrow> x \<in> units a \<and> x \<notin> H \<and> ga_inv c s' (insert x H) \<and> align_ok align)"
    using i by (cases r) (auto simp: pool_alloc_def bit_changed_def)
  show "\<exists>s'. pool_free a x = Some s' \<and> units s' = units a \<and> ga_inv c s' (H - {x}) \<and> align_ok align" if "x \<in> H" for x
    using dealloc_unit_inv(1) [OF _ that, of c a "''block''"] i by (auto simp: pool_free_def bit_changed_def)
  show "H \<subseteq> units a" using i by (auto simp: ga_inv_def used_def)
qed simp

section \<open>Writing back\<close>

lemma slice_splice_blocks:
  assumes "length ys = bs" "(i + 1) * bs \<le> length xs" "(j + 1) * bs \<le> length xs"
  shows "slice_of (splice_at xs (i * bs) ys) (j * bs) ((j + 1) * bs) = (if i = j then ys else slice_of xs (j * bs) ((j + 1) * bs))"
proof (rule nth_equalityI)
  have l: "i * bs + length ys \<le> length xs" using assms(1,2) by simp
  then show len: "length (slice_of (splice_at xs (i * bs) ys) (j * bs) ((j + 1) * bs)) = length (if i = j then ys else slice_of xs (j * bs) ((j + 1) * bs))"
    using assms by (simp add: slice_simps)
  fix k assume "k < length (slice_of (splice_at xs (i * bs) ys) (j * bs) ((j + 1) * bs))"
  then have k: "k < bs" using l assms by (simp add: slice_simps)
  have other: "\<not> (i * bs \<le> j * bs + k \<and> j * bs + k < i * bs + bs)" if "i \<noteq> j"
    using that k mult_le_mono1 [of "Suc i" j bs] mult_le_mono1 [of "Suc j" i bs] by (cases "i < j") auto
  show "slice_of (splice_at xs (i * bs) ys) (j * bs) ((j + 1) * bs) ! k = (if i = j then ys else slice_of xs (j * bs) ((j + 1) * bs)) ! k"
    using k l assms other by (auto simp: slice_simps)
qed

definition bitmap_blocks_on :: "GroupAllocator \<Rightarrow> u8 list list \<Rightarrow> bool" where
  "bitmap_blocks_on a disk \<longleftrightarrow> (\<forall>i < bm_size (ga_dirty_blocks a).
     disk ! (ga_bitmap_begin a + i) = slice_of (bm_data (ga_bitmap a)) (i * ga_bs a) ((i + 1) * ga_bs a))"

context block_device
begin

lemma write_dirty_blocks_ok:
  assumes "ga_wf a" "synced a (disk w)" "ok w" "ga_bs a = bs" "\<forall>i \<in> set is. i < bm_size (ga_dirty_blocks a)" "distinct is"
  shows "\<exists>d w'. write_dirty_blocks dev is a w = Some ((Inr (), a\<lparr>ga_dirty_blocks := d\<rparr>), w') \<and> ok w' \<and>
    ga_wf (a\<lparr>ga_dirty_blocks := d\<rparr>) \<and> synced (a\<lparr>ga_dirty_blocks := d\<rparr>) (disk w') \<and> bm_size d = bm_size (ga_dirty_blocks a) \<and>
    (\<forall>i. bit_at (bm_data d) i \<longleftrightarrow> bit_at (bm_data (ga_dirty_blocks a)) i \<and> i \<notin> set is) \<and>
    length (disk w') = length (disk w) \<and> (\<forall>k. k < ga_bitmap_begin a \<or> ga_bitmap_end a \<le> k \<longrightarrow> disk w' ! k = disk w ! k)"
  using assms
proof (induction "is" arbitrary: a w)
  case Nil
  then show ?case by (intro exI [of _ "ga_dirty_blocks a"] exI [of _ w]) simp
next
  case (Cons i "is")
  let ?D = "ga_dirty_blocks a"
  have i: "i < bm_size ?D" "i \<notin> set is" using Cons.prems(5,6) by simp_all
  have D: "bitmap_ok ?D" using Cons.prems(1) by (simp add: ga_wf_def)
  then have bit: "bit_or_false ?D i = Some (bit_at (bm_data ?D) i)" using i(1) by (simp add: bit_or_false_def get_bit_eq)
  show ?case
  proof (cases "bit_at (bm_data ?D) i")
    case False
    have step: "write_dirty_blocks dev (i # is) a w = write_dirty_blocks dev is a w" using bit False by simp
    have iff: "(\<forall>j. P j \<longleftrightarrow> bit_at (bm_data ?D) j \<and> j \<notin> set (i # is)) \<longleftrightarrow> (\<forall>j. P j \<longleftrightarrow> bit_at (bm_data ?D) j \<and> j \<notin> set is)" for P
      using False by auto
    show ?thesis unfolding step iff using Cons.IH [OF Cons.prems(1-4)] Cons.prems(5,6) by simp
  next
    case True
    let ?part = "slice_of (bm_data (ga_bitmap a)) (i * bs) ((i + 1) * bs)"
    have len: "length (bm_data (ga_bitmap a)) = bm_size ?D * bs" using Cons.prems(1,4) by (simp add: ga_wf_def)
    have le: "(i + 1) * bs \<le> length (bm_data (ga_bitmap a))" unfolding len using i(1) by (intro mult_le_mono1) simp
    have part: "length ?part = bs" using le by (simp add: length_slice)
    have lba: "ga_bitmap_begin a + i < length (disk w)" using i(1) Cons.prems(1,2) by (simp add: ga_wf_def synced_def)
    obtain w1 where w1: "bd_write_block dev (ga_bitmap_begin a + i) ?part w = Some (Inr bs, w1)" "ok w1"
      "disk w1 = (disk w)[ga_bitmap_begin a + i := ?part]" using write_law [OF Cons.prems(3) lba part] by blast
    obtain d where d: "toggle_bit ?D i = Some d" "bitmap_ok d" "bm_size d = bm_size ?D"
      "\<And>n. bit_at (bm_data d) n \<longleftrightarrow> bit_at (bm_data ?D) n \<and> n \<noteq> i"
      using toggle_bit_ok [OF D, of i] i(1) True by auto
    let ?a = "a\<lparr>ga_dirty_blocks := d\<rparr>"
    have wf: "ga_wf ?a" using Cons.prems(1) d(2,3) by (simp add: ga_wf_def)
    have sync: "synced ?a (disk w1)"
      using Cons.prems(2,4) lba by (auto simp: synced_def w1(3) d(3,4) nth_list_update)
    have step: "write_dirty_blocks dev (i # is) a w = write_dirty_blocks dev is ?a w1"
      using bit True le w1(1) d(1) Cons.prems(4) by (simp add: checked_simps del: bind_eq_Some_iff)
    have "ga_bs ?a = bs" "\<forall>i \<in> set is. i < bm_size (ga_dirty_blocks ?a)" "distinct is" using Cons.prems(4-6) d(3) by simp_all
    from Cons.IH [OF wf sync w1(2) this] obtain e w' where "write_dirty_blocks dev is ?a w1 = Some ((Inr (), ?a\<lparr>ga_dirty_blocks := e\<rparr>), w')" "ok w'"
      "ga_wf (?a\<lparr>ga_dirty_blocks := e\<rparr>)" "synced (?a\<lparr>ga_dirty_blocks := e\<rparr>) (disk w')" "bm_size e = bm_size (ga_dirty_blocks ?a)"
      "\<forall>i. bit_at (bm_data e) i \<longleftrightarrow> bit_at (bm_data (ga_dirty_blocks ?a)) i \<and> i \<notin> set is" "length (disk w') = length (disk w1)"
      "\<forall>k. k < ga_bitmap_begin ?a \<or> ga_bitmap_end ?a \<le> k \<longrightarrow> disk w' ! k = disk w1 ! k" by blast
    note e = this [simplified GroupAllocator.simps]
    have "disk w' ! k = disk w ! k" if "k < ga_bitmap_begin a \<or> ga_bitmap_end a \<le> k" for k
      using e(8) that i(1) Cons.prems(1) by (auto simp: w1(3) ga_wf_def nth_list_update)
    moreover have "bit_at (bm_data e) j \<longleftrightarrow> bit_at (bm_data ?D) j \<and> j \<notin> set (i # is)" for j using e(6) d(4) by auto
    moreover have "length (disk w') = length (disk w)" using e(7) by (simp add: w1(3))
    moreover have "?a\<lparr>ga_dirty_blocks := e\<rparr> = a\<lparr>ga_dirty_blocks := e\<rparr>" by simp
    ultimately show ?thesis using step e(1-5) d(3) by (intro exI [of _ e] exI [of _ w']) (simp del: write_dirty_blocks.simps)
  qed
qed

lemma write_dirty_ok:
  assumes "ga_wf a" "synced a (disk w)" "ok w" "ga_bs a = bs"
  shows "\<exists>d w'. write_dirty dev a w = Some ((Inr (), a\<lparr>ga_dirty_blocks := d\<rparr>), w') \<and> ok w' \<and> ga_wf (a\<lparr>ga_dirty_blocks := d\<rparr>) \<and>
    bitmap_blocks_on a (disk w') \<and> (\<forall>i < bm_size d. \<not> bit_at (bm_data d) i) \<and>
    length (disk w') = length (disk w) \<and> (\<forall>k. k < ga_bitmap_begin a \<or> ga_bitmap_end a \<le> k \<longrightarrow> disk w' ! k = disk w ! k)"
proof -
  have n: "ga_bitmap_end a - ga_bitmap_begin a = bm_size (ga_dirty_blocks a)" using assms(1) by (auto simp: ga_wf_def)
  obtain d w' where d: "write_dirty_blocks dev [0..<bm_size (ga_dirty_blocks a)] a w = Some ((Inr (), a\<lparr>ga_dirty_blocks := d\<rparr>), w')" "ok w'"
    "ga_wf (a\<lparr>ga_dirty_blocks := d\<rparr>)" "synced (a\<lparr>ga_dirty_blocks := d\<rparr>) (disk w')" "bm_size d = bm_size (ga_dirty_blocks a)"
    "\<And>i. bit_at (bm_data d) i \<longleftrightarrow> bit_at (bm_data (ga_dirty_blocks a)) i \<and> i \<notin> set [0..<bm_size (ga_dirty_blocks a)]"
    "length (disk w') = length (disk w)" "\<forall>k. k < ga_bitmap_begin a \<or> ga_bitmap_end a \<le> k \<longrightarrow> disk w' ! k = disk w ! k"
    using write_dirty_blocks_ok [OF assms, of "[0..<bm_size (ga_dirty_blocks a)]"] by auto
  have "bitmap_blocks_on a (disk w')" using d(4,5,6) by (simp add: bitmap_blocks_on_def synced_def)
  then show ?thesis using d(1-3,5-8) n by (intro exI [of _ d] exI [of _ w']) (simp add: write_dirty_def)
qed

lemma read_bitmap_blocks_ok:
  assumes "ok w" "length data = n * bs" "begin_lba + n \<le> length (disk w)" "\<forall>i \<in> set is. i < n" "distinct is"
  shows "\<exists>data' w'. read_bitmap_blocks dev bs begin_lba is data w = Some ((Inr (), data'), w') \<and> ok w' \<and> disk w' = disk w \<and>
    length data' = length data \<and> (\<forall>j < n. slice_of data' (j * bs) ((j + 1) * bs) =
      (if j \<in> set is then disk w ! (begin_lba + j) else slice_of data (j * bs) ((j + 1) * bs)))"
  using assms
proof (induction "is" arbitrary: data w)
  case (Cons i "is")
  have i: "i < n" "i \<notin> set is" using Cons.prems(4,5) by simp_all
  have le: "(j + 1) * bs \<le> length data" if "j < n" for j unfolding Cons.prems(2) using that by (intro mult_le_mono1) simp
  let ?part = "slice_of data (i * bs) ((i + 1) * bs)" and ?b = "disk w ! (begin_lba + i)"
  have part: "length ?part = bs" using le [OF i(1)] by (simp add: length_slice)
  have lba: "begin_lba + i < length (disk w)" using i(1) Cons.prems(3) by simp
  have blen: "length ?b = bs" using geometry [OF Cons.prems(1)] lba uniform_nth by blast
  obtain w1 where w1: "bd_read_block dev (begin_lba + i) ?part w = Some ((Inr bs, ?b), w1)" "ok w1" "disk w1 = disk w"
    using read_law [OF Cons.prems(1) lba part] by blast
  let ?data = "splice_at data (i * bs) ?b"
  have dlen: "length ?data = length data" using blen le [OF i(1)] by (simp add: slice_simps)
  have step: "read_bitmap_blocks dev bs begin_lba (i # is) data w = read_bitmap_blocks dev bs begin_lba is ?data w1"
    using le [OF i(1)] w1(1) by (simp add: checked_simps del: bind_eq_Some_iff)
  obtain data' w' where r: "read_bitmap_blocks dev bs begin_lba is ?data w1 = Some ((Inr (), data'), w')" "ok w'" "disk w' = disk w1"
    "length data' = length ?data" "\<And>j. j < n \<Longrightarrow> slice_of data' (j * bs) ((j + 1) * bs) =
      (if j \<in> set is then disk w1 ! (begin_lba + j) else slice_of ?data (j * bs) ((j + 1) * bs))"
    using Cons.IH [OF w1(2), of ?data] Cons.prems(2-5) dlen w1(3) by auto
  have "slice_of data' (j * bs) ((j + 1) * bs) =
      (if j \<in> set (i # is) then disk w ! (begin_lba + j) else slice_of data (j * bs) ((j + 1) * bs))" if "j < n" for j
    using slice_splice_blocks [OF blen le [OF i(1)] le [OF that]] i(2) unfolding r(5) [OF that] w1(3) by auto
  then show ?case unfolding step using r(1-4) w1(3) dlen by (intro exI [of _ data'] exI [of _ w']) simp
qed simp

end

section \<open>Properties\<close>

text \<open>A client of an allocator: any sequence of allocations and releases.\<close>

datatype ga_op = OpAlloc | OpFree nat

fun run_ga :: "(Bitmap \<Rightarrow> nat \<times> nat) \<Rightarrow> ga_op list \<Rightarrow> GroupAllocator \<Rightarrow> GroupAllocator panics" where
  "run_ga align [] a = Some a"
| "run_ga align (OpAlloc # ops) a = do { (_, a') \<leftarrow> alloc_block align a; run_ga align ops a' }"
| "run_ga align (OpFree n # ops) a = do { (_, a') \<leftarrow> dealloc_block a n; run_ga align ops a' }"

definition same_place :: "GroupAllocator \<Rightarrow> GroupAllocator \<Rightarrow> bool" where
  "same_place a a' \<longleftrightarrow> ga_bitmap_begin a' = ga_bitmap_begin a \<and> ga_bitmap_end a' = ga_bitmap_end a \<and> ga_bs a' = ga_bs a"

lemma run_ga_inv:
  assumes "align_ok align"
  shows "ga_inv c a H \<Longrightarrow> synced a disk \<Longrightarrow>
    \<exists>a' H'. run_ga align ops a = Some a' \<and> ga_inv c a' H' \<and> synced a' disk \<and> same_place a a'"
proof (induction ops arbitrary: a H)
  case (Cons op ops)
  obtain a1 H1 where 1: "(case op of OpAlloc \<Rightarrow> map_option snd (alloc_block align a) | OpFree n \<Rightarrow> map_option snd (dealloc_block a n)) = Some a1"
    "ga_inv c a1 H1" "synced a1 disk" "same_place a a1"
  proof (cases op)
    case OpAlloc
    obtain r a' where r: "alloc_unit align a = Some (r, a')" "case r of
       Inl e \<Rightarrow> e = OutOfSpace \<and> a' = a \<and> H = units a
     | Inr n \<Rightarrow> n \<in> units a \<and> n \<notin> H \<and> ga_inv c a' (insert n H) \<and> bit_changed a (n - ga_min_inclusive a) True a'"
      using alloc_unit_inv [OF Cons.prems(1) assms] by blast
    show ?thesis using that [of a' H] that [of a' "insert (projr r) H"] r Cons.prems OpAlloc
      by (cases r) (simp_all add: alloc_block_def bit_changed_def same_place_def)
  next
    case (OpFree n)
    then show ?thesis using dealloc_unit_inv [OF Cons.prems(1), of n "''block''"] Cons.prems that
      by (cases "n \<in> H"; cases "n \<in> units a") (auto simp: dealloc_block_def bit_changed_def same_place_def)
  qed
  then have "run_ga align (op # ops) a = run_ga align ops a1" by (cases op) auto
  then show ?case using Cons.IH [OF 1(2,3)] 1(4) by (auto simp: same_place_def)
qed (auto simp: same_place_def)

lemma blocks_equal:
  assumes "length xs = n * bs" "length ys = n * bs"
    "\<And>j. j < n \<Longrightarrow> slice_of xs (j * bs) ((j + 1) * bs) = slice_of ys (j * bs) ((j + 1) * bs)"
  shows "xs = ys"
proof (rule nth_equalityI)
  fix k assume "k < length xs"
  then have k: "k < n * bs" using assms(1) by simp
  then have bs: "0 < bs" by (cases bs) auto
  have j: "k div bs < n" using k by (simp add: less_mult_imp_div_less)
  then have le: "(k div bs + 1) * bs \<le> n * bs" by (intro mult_le_mono1) simp
  have m: "k mod bs < bs" using bs by simp
  have "slice_of zs (k div bs * bs) ((k div bs + 1) * bs) ! (k mod bs) = zs ! k" if "length zs = n * bs" for zs :: "'a list"
    using that m le by (simp add: nth_slice)
  then show "xs ! k = ys ! k" using assms(3) [OF j] assms(1,2) by metis
qed (simp add: assms)

text \<open>
  C33: For the allocator of a block group whose bitmap has the bits past its units set (the padding
  of the disk format) and whose buffers have the sizes the constructor gives them, however
  align_to splits the bitmap: alloc_block hands out a unit of the group that is not in use and
  refuses only when all are; dealloc_block works exactly for units in use and gives an error
  with nothing changed otherwise; k allocations in a row give distinct units until the group
  is full; and diff_usage is always the change in the number of units in use since the bitmap
  was read.
\<close>

theorem ext2_allocator_correct:
  assumes "ga_inv c a H" "align_ok align"
  shows "(\<exists>r a'. alloc_block align a = Some (r, a') \<and>
      (case r of
         Inl e \<Rightarrow> e = OutOfSpace \<and> a' = a \<and> H = units a
       | Inr n \<Rightarrow> n \<in> units a - H \<and> ga_inv c a' (insert n H) \<and>
           (\<exists>a''. dealloc_block a' n = Some (Inr (), a'') \<and> ga_inv c a'' H))) \<and>
    (\<forall>n. \<exists>r a'. dealloc_block a n = Some (r, a') \<and>
      (if n \<in> H then r = Inr () \<and> ga_inv c a' (H - {n}) else (\<exists>e. r = Inl e) \<and> a' = a)) \<and>
    (\<exists>xs a'. take_many (pool_alloc align) k a = Some (xs, a') \<and> distinct xs \<and> set xs \<subseteq> units a - H \<and>
      length xs = min k (card (units a - H)) \<and> ga_inv c a' (H \<union> set xs))"
proof (intro conjI allI)
  obtain r a' where r: "alloc_block align a = Some (r, a')" "case r of
       Inl e \<Rightarrow> e = OutOfSpace \<and> a' = a \<and> H = units a
     | Inr n \<Rightarrow> n \<in> units a \<and> n \<notin> H \<and> ga_inv c a' (insert n H) \<and> bit_changed a (n - ga_min_inclusive a) True a'"
    using alloc_unit_inv [OF assms] by (auto simp: alloc_block_def)
  have undo: "\<exists>a''. dealloc_block a' n = Some (Inr (), a'') \<and> ga_inv c a'' H" if "ga_inv c a' (insert n H)" "n \<notin> H" for n
    using dealloc_unit_inv(1) [OF that(1), of n "''block''"] that(2) by (auto simp: dealloc_block_def)
  show "\<exists>r a'. alloc_block align a = Some (r, a') \<and>
      (case r of Inl e \<Rightarrow> e = OutOfSpace \<and> a' = a \<and> H = units a
       | Inr n \<Rightarrow> n \<in> units a - H \<and> ga_inv c a' (insert n H) \<and> (\<exists>a''. dealloc_block a' n = Some (Inr (), a'') \<and> ga_inv c a'' H))"
    using r undo by (intro exI [of _ r] exI [of _ a']) (auto split: sum.splits)
  show "\<exists>r a'. dealloc_block a n = Some (r, a') \<and>
      (if n \<in> H then r = Inr () \<and> ga_inv c a' (H - {n}) else (\<exists>e. r = Inl e) \<and> a' = a)" for n
    using dealloc_unit_inv [OF assms(1), of n "''block''"] by (cases "n \<in> H"; cases "n \<in> units a") (auto simp: dealloc_block_def)
  show "\<exists>xs a'. take_many (pool_alloc align) k a = Some (xs, a') \<and> distinct xs \<and> set xs \<subseteq> units a - H \<and>
      length xs = min k (card (units a - H)) \<and> ga_inv c a' (H \<union> set xs)"
    using gpool.take_many_spec [of c a H align k] assms by auto
qed

text \<open>A group of ten blocks with two in use, its bitmap padded, and the volume it is on, for the witnesses.\<close>

definition demo_group :: GroupAllocator where
  "demo_group = \<lparr>ga_min_inclusive = 1, ga_max_exclusive = 11, ga_bitmap_begin = 1, ga_bitmap_end = 2, ga_bs = 512,
     ga_bitmap = \<lparr>bm_data = 3 # 0xFC # replicate 510 0xFF, bm_size = 4096\<rparr>, ga_dirty_blocks = \<lparr>bm_data = [0], bm_size = 1\<rparr>,
     ga_diff_usage = 0\<rparr>"

definition demo_align :: "Bitmap \<Rightarrow> nat \<times> nat" where
  "demo_align b = (0, length (bm_data b) div 8)"

lemma demo_align_ok: "align_ok demo_align"
  by (simp add: align_ok_def demo_align_def)

lemma demo_group_bits: "i < 4096 \<Longrightarrow> bit_at (bm_data (ga_bitmap demo_group)) i \<longleftrightarrow> i < 2 \<or> 10 \<le> i"
proof -
  assume i: "i < 4096"
  have small: "bit_at (3 # 0xFC # replicate 510 0xFF) i \<longleftrightarrow> i < 2 \<or> 10 \<le> i" if "i < 16"
  proof -
    have "i \<in> set [0..<16]" using that by simp
    then show ?thesis by (simp add: upt_rec) (auto simp: bit_at_def)
  qed
  have "bit_at (3 # 0xFC # replicate 510 0xFF) i" if big: "16 \<le> i"
  proof -
    have "2 \<le> i div 8" "i div 8 < 512" using big i by (simp_all add: less_eq_div_iff_mult_less_eq div_less_iff_less_mult)
    then obtain k where "i div 8 = 2 + k" "k < 510" by (auto simp: le_iff_add)
    then show ?thesis using bit_full_byte [of "i mod 8"] by (simp add: bit_at_def)
  qed
  then show ?thesis using small by (cases "i < 16") (auto simp: demo_group_def)
qed

lemma demo_group_wf: "ga_wf demo_group"
  using demo_group_bits by (simp add: ga_wf_def bitmap_ok_def) (simp add: demo_group_def)

lemma demo_group_used: "used demo_group = {1, 2}"
  using demo_group_bits by (auto simp: used_def units_def) (auto simp: demo_group_def)

lemma demo_group_inv: "ga_inv 2 demo_group {1, 2}"
  using demo_group_wf demo_group_used by (simp add: ga_inv_def) (simp add: demo_group_def)

theorem ext2_allocator_correct_witness:
  "\<exists>a'. take_many (pool_alloc demo_align) 20 demo_group = Some (fst (the (take_many (pool_alloc demo_align) 20 demo_group)), a') \<and>
     length (fst (the (take_many (pool_alloc demo_align) 20 demo_group))) = 8"
proof -
  have "units demo_group - {1, 2} = {3..<11}" by (auto simp: units_def demo_group_def)
  then show ?thesis using ext2_allocator_correct [OF demo_group_inv demo_align_ok, of 20] by auto
qed

text \<open>
  C34: For such an allocator over a block device of its block size, whose clean bitmap blocks agree
  with the disk: after any sequence of allocations and releases, writing the dirty blocks back
  succeeds and leaves no dirty block, so that dropping the allocator does not panic, changes
  nothing on the volume outside the bitmap, and an allocator that reads the bitmap again finds
  the same bits.
\<close>

theorem ext2_bitmap_written_back:
  assumes vol: "block_device vol bs disk ok" and w: "ok w" and a: "ga_inv c a H" "synced a (disk w)" "ga_bs a = bs" and al: "align_ok align"
  shows "\<exists>a' H' a'' w'. run_ga align ops a = Some a' \<and> ga_inv c a' H' \<and>
    write_dirty vol a' w = Some ((Inr (), a''), w') \<and> ok w' \<and> used a'' = H' \<and> allocator_drop align a'' = Some () \<and>
    (\<forall>k. k < ga_bitmap_begin a \<or> ga_bitmap_end a \<le> k \<longrightarrow> disk w' ! k = disk w ! k) \<and>
    (\<forall>data. length data = length (bm_data (ga_bitmap a')) \<longrightarrow>
      (\<exists>b w''. read_all vol (a'\<lparr>ga_bitmap := (ga_bitmap a')\<lparr>bm_data := data\<rparr>\<rparr>) w' = Some ((Inr (), b), w'') \<and> ga_bitmap b = ga_bitmap a'))"
proof -
  obtain a' H' where r: "run_ga align ops a = Some a'" "ga_inv c a' H'" "synced a' (disk w)" "same_place a a'"
    using run_ga_inv [OF al a(1,2), of ops] by blast
  have wf: "ga_wf a'" "ga_bs a' = bs" "H' = used a'" using r(2,4) a(3) by (simp_all add: ga_inv_def same_place_def)
  obtain d w' where d: "write_dirty vol a' w = Some ((Inr (), a'\<lparr>ga_dirty_blocks := d\<rparr>), w')" "ok w'" "ga_wf (a'\<lparr>ga_dirty_blocks := d\<rparr>)"
    "bitmap_blocks_on a' (disk w')" "\<forall>i < bm_size d. \<not> bit_at (bm_data d) i" "length (disk w') = length (disk w)"
    "\<forall>k. k < ga_bitmap_begin a' \<or> ga_bitmap_end a' \<le> k \<longrightarrow> disk w' ! k = disk w ! k"
    using block_device.write_dirty_ok [OF vol wf(1) r(3) w wf(2)] by blast
  let ?n = "bm_size (ga_dirty_blocks a')"
  have n: "ga_bitmap_end a' - ga_bitmap_begin a' = ?n" "ga_bitmap_begin a' + ?n \<le> length (disk w')" "length (bm_data (ga_bitmap a')) = ?n * bs"
    using wf r(3) d(6) by (auto simp: ga_wf_def synced_def)
  have "bitmap_ok d" "fst (align d) + 8 * snd (align d) \<le> length (bm_data d)" using d(3) al by (simp_all add: ga_wf_def align_ok_def)
  then have "allocator_drop align (a'\<lparr>ga_dirty_blocks := d\<rparr>) = Some ()"
    using find_first_set_spec(2) d(5) by (simp add: allocator_drop_def)
  moreover have "\<exists>b w''. read_all vol (a'\<lparr>ga_bitmap := (ga_bitmap a')\<lparr>bm_data := data\<rparr>\<rparr>) w' = Some ((Inr (), b), w'') \<and> ga_bitmap b = ga_bitmap a'"
    if len: "length data = length (bm_data (ga_bitmap a'))" for data
  proof -
    obtain data' w'' where q: "read_bitmap_blocks vol bs (ga_bitmap_begin a') [0..<?n] data w' = Some ((Inr (), data'), w'')"
      "length data' = length data" "\<And>j. j < ?n \<Longrightarrow> slice_of data' (j * bs) ((j + 1) * bs) = disk w' ! (ga_bitmap_begin a' + j)"
      using block_device.read_bitmap_blocks_ok [OF vol d(2), of data ?n "ga_bitmap_begin a'" "[0..<?n]"] n(2,3) len by auto
    have "data' = bm_data (ga_bitmap a')"
      by (rule blocks_equal [of _ ?n bs]) (use q(2,3) len n(3) d(4) wf(2) in \<open>auto simp: bitmap_blocks_on_def\<close>)
    then show ?thesis using q(1) n(1) wf(2) by (simp add: read_all_def)
  qed
  moreover have "used (a'\<lparr>ga_dirty_blocks := d\<rparr>) = H'" using wf(3) by (simp add: used_def units_def)
  ultimately show ?thesis using r(1,2,4) d(1,2,7)
    by (intro exI [of _ a'] exI [of _ H'] exI [of _ "a'\<lparr>ga_dirty_blocks := d\<rparr>"] exI [of _ w']) (simp add: same_place_def)
qed

definition demo_volume :: "u8 list list" where
  "demo_volume = [replicate 512 0, 3 # 0xFC # replicate 510 0xFF, replicate 512 0]"

theorem ext2_bitmap_written_back_witness:
  "\<exists>a' H' a'' w'. run_ga demo_align [OpAlloc, OpFree 1] demo_group = Some a' \<and> ga_inv 2 a' H' \<and>
     write_dirty ram_device a' demo_volume = Some ((Inr (), a''), w') \<and> used a'' = H' \<and> allocator_drop demo_align a'' = Some () \<and>
     w' ! 0 = demo_volume ! 0"
proof -
  have "synced demo_group demo_volume" by (simp add: synced_def demo_group_def demo_volume_def slice_of_def)
  moreover have "ram_ok demo_volume" "ga_bs demo_group = 512" by (simp_all add: ram_ok_def uniform_def demo_volume_def demo_group_def)
  moreover have "0 < ga_bitmap_begin demo_group" by (simp add: demo_group_def)
  ultimately show ?thesis
    using ext2_bitmap_written_back [OF ram.block_device_axioms _ demo_group_inv, of demo_volume demo_align "[OpAlloc, OpFree 1]"] demo_align_ok
    by blast
qed

end
