(* ===== verification/Ext2_Inode.thy ===== *)
theory Ext2_Inode
  imports Ext2_Alloc
begin

text \<open>
  \<^verbatim>\<open>drivers/fs/phys/ext2/inode.rs\<close>: inodes and their form on disk, and the position of
  a block of a file in the tree of direct, single, double and triple indirect block pointers
  (\<^verbatim>\<open>InodeReadingLocation\<close>). An \<^verbatim>\<open>InodeType\<close> read from disk that is none of
  the enumeration's values is undefined behaviour in the source; here it is \<open>None\<close>.
\<close>

datatype InodeType = FIFO | CharacterDevice | Directory | BlockDeviceInode | RegularFile | Symlink | Socket

fun inode_type_bits :: "InodeType \<Rightarrow> u16" where
  "inode_type_bits FIFO = 0x1000"
| "inode_type_bits CharacterDevice = 0x2000"
| "inode_type_bits Directory = 0x4000"
| "inode_type_bits BlockDeviceInode = 0x6000"
| "inode_type_bits RegularFile = 0x8000"
| "inode_type_bits Symlink = 0xA000"
| "inode_type_bits Socket = 0xC000"

definition inode_type_of :: "u16 \<Rightarrow> InodeType panics" where
  "inode_type_of w = map_of (map (\<lambda>t. (inode_type_bits t, t))
     [FIFO, CharacterDevice, Directory, BlockDeviceInode, RegularFile, Symlink, Socket]) w"

record RawInode =
  ri_type_and_permissions :: u16
  ri_uid :: u16
  ri_size_lo :: u32
  ri_atime :: u32
  ri_ctime :: u32
  ri_mtime :: u32
  ri_dtime :: u32
  ri_gid :: u16
  ri_links_count :: u16
  ri_sectors_count :: u32
  ri_flags :: u32
  ri_ossv1 :: u32
  ri_direct_block_pointers :: "u32 list"
  ri_single_indirect_block_pointer :: u32
  ri_double_indirect_block_pointer :: u32
  ri_triple_indirect_block_pointer :: u32
  ri_generation_number :: u32
  ri_extended_attribute_block :: u32
  ri_size_hi_or_dir_acl :: u32
  ri_fragment_block :: u32
  ri_ossv2 :: "u8 list"

definition raw_inode_empty :: RawInode where
  "raw_inode_empty = \<lparr>ri_type_and_permissions = 0, ri_uid = 0, ri_size_lo = 0, ri_atime = 0, ri_ctime = 0, ri_mtime = 0, ri_dtime = 0,
     ri_gid = 0, ri_links_count = 0, ri_sectors_count = 0, ri_flags = 0, ri_ossv1 = 0, ri_direct_block_pointers = replicate 12 0,
     ri_single_indirect_block_pointer = 0, ri_double_indirect_block_pointer = 0, ri_triple_indirect_block_pointer = 0,
     ri_generation_number = 0, ri_extended_attribute_block = 0, ri_size_hi_or_dir_acl = 0, ri_fragment_block = 0,
     ri_ossv2 = replicate 12 0\<rparr>"

record Inode =
  in_type :: InodeType
  in_permissions :: u16
  in_uid :: u16
  in_size_lo :: u32
  in_atime :: u32
  in_ctime :: u32
  in_mtime :: u32
  in_dtime :: u32
  in_gid :: u16
  in_links_count :: u16
  in_sectors_count :: u32
  in_flags :: u32
  in_ossv1 :: u32
  in_direct_block_pointers :: "u32 list"
  in_single_indirect_block_pointer :: u32
  in_double_indirect_block_pointer :: u32
  in_triple_indirect_block_pointer :: u32
  in_generation_number :: u32
  in_extended_attribute_block :: u32
  in_size_hi_or_dir_acl :: u32
  in_fragment_block :: u32
  in_ossv2 :: "u8 list"
  in_inode_i :: nat
  in_parent_inode :: "nat option"

definition inode_from_raw :: "RawInode \<Rightarrow> nat \<Rightarrow> nat option \<Rightarrow> Inode panics" where
  "inode_from_raw raw inode_i parent_inode = do {
     t \<leftarrow> inode_type_of (ri_type_and_permissions raw AND 0xF000);
     Some \<lparr>in_type = t, in_permissions = ri_type_and_permissions raw AND 0x0FFF, in_uid = ri_uid raw, in_size_lo = ri_size_lo raw,
       in_atime = ri_atime raw, in_ctime = ri_ctime raw, in_mtime = ri_mtime raw, in_dtime = ri_dtime raw, in_gid = ri_gid raw,
       in_links_count = ri_links_count raw, in_sectors_count = ri_sectors_count raw, in_flags = ri_flags raw, in_ossv1 = ri_ossv1 raw,
       in_direct_block_pointers = ri_direct_block_pointers raw, in_single_indirect_block_pointer = ri_single_indirect_block_pointer raw,
       in_double_indirect_block_pointer = ri_double_indirect_block_pointer raw,
       in_triple_indirect_block_pointer = ri_triple_indirect_block_pointer raw, in_generation_number = ri_generation_number raw,
       in_extended_attribute_block = ri_extended_attribute_block raw, in_size_hi_or_dir_acl = ri_size_hi_or_dir_acl raw,
       in_fragment_block = ri_fragment_block raw, in_ossv2 = ri_ossv2 raw, in_inode_i = inode_i, in_parent_inode = parent_inode\<rparr>
   }"

definition inode_get_raw :: "Inode \<Rightarrow> RawInode" where
  "inode_get_raw i =
     \<lparr>ri_type_and_permissions = inode_type_bits (in_type i) OR in_permissions i, ri_uid = in_uid i, ri_size_lo = in_size_lo i,
      ri_atime = in_atime i, ri_ctime = in_ctime i, ri_mtime = in_mtime i, ri_dtime = in_dtime i, ri_gid = in_gid i,
      ri_links_count = in_links_count i, ri_sectors_count = in_sectors_count i, ri_flags = in_flags i, ri_ossv1 = in_ossv1 i,
      ri_direct_block_pointers = in_direct_block_pointers i, ri_single_indirect_block_pointer = in_single_indirect_block_pointer i,
      ri_double_indirect_block_pointer = in_double_indirect_block_pointer i,
      ri_triple_indirect_block_pointer = in_triple_indirect_block_pointer i, ri_generation_number = in_generation_number i,
      ri_extended_attribute_block = in_extended_attribute_block i, ri_size_hi_or_dir_acl = in_size_hi_or_dir_acl i,
      ri_fragment_block = in_fragment_block i, ri_ossv2 = in_ossv2 i\<rparr>"

text \<open>The size of a file uses a second word when the volume has the feature \<^verbatim>\<open>FileSize64\<close>.\<close>

definition inode_get_size :: "bool \<Rightarrow> Inode \<Rightarrow> nat" where
  "inode_get_size file_size_64 i =
     (if in_type i = RegularFile \<and> file_size_64
      then unat ((push_bit 32 (ucast (in_size_hi_or_dir_acl i)) OR ucast (in_size_lo i)) :: u64)
      else unat (in_size_lo i))"

definition inode_set_size :: "bool \<Rightarrow> nat \<Rightarrow> Inode \<Rightarrow> Inode" where
  "inode_set_size file_size_64 n i =
     (let i' = (if in_type i = RegularFile \<and> file_size_64
                then i\<lparr>in_size_hi_or_dir_acl := ucast (drop_bit 32 (of_nat n :: u64))\<rparr> else i)
      in i'\<lparr>in_size_lo := ucast (of_nat n :: u64)\<rparr>)"

text \<open>The layout of \<^verbatim>\<open>repr(C, packed)\<close>, 128 bytes.\<close>

definition read_raw_inode :: "u8 list \<Rightarrow> RawInode" where
  "read_raw_inode bs =
     \<lparr>ri_type_and_permissions = from_le_bytes (slice_of bs 0 2), ri_uid = from_le_bytes (slice_of bs 2 4),
      ri_size_lo = from_le_bytes (slice_of bs 4 8), ri_atime = from_le_bytes (slice_of bs 8 12),
      ri_ctime = from_le_bytes (slice_of bs 12 16), ri_mtime = from_le_bytes (slice_of bs 16 20),
      ri_dtime = from_le_bytes (slice_of bs 20 24), ri_gid = from_le_bytes (slice_of bs 24 26),
      ri_links_count = from_le_bytes (slice_of bs 26 28), ri_sectors_count = from_le_bytes (slice_of bs 28 32),
      ri_flags = from_le_bytes (slice_of bs 32 36), ri_ossv1 = from_le_bytes (slice_of bs 36 40),
      ri_direct_block_pointers = map (\<lambda>k. from_le_bytes (slice_of (slice_of bs 40 88) (4 * k) (4 * k + 4))) [0..<12],
      ri_single_indirect_block_pointer = from_le_bytes (slice_of bs 88 92),
      ri_double_indirect_block_pointer = from_le_bytes (slice_of bs 92 96),
      ri_triple_indirect_block_pointer = from_le_bytes (slice_of bs 96 100),
      ri_generation_number = from_le_bytes (slice_of bs 100 104), ri_extended_attribute_block = from_le_bytes (slice_of bs 104 108),
      ri_size_hi_or_dir_acl = from_le_bytes (slice_of bs 108 112), ri_fragment_block = from_le_bytes (slice_of bs 112 116),
      ri_ossv2 = slice_of bs 116 128\<rparr>"

definition raw_inode_bytes :: "RawInode \<Rightarrow> u8 list" where
  "raw_inode_bytes r = to_le_bytes (ri_type_and_permissions r) @ to_le_bytes (ri_uid r) @ to_le_bytes (ri_size_lo r) @
     to_le_bytes (ri_atime r) @ to_le_bytes (ri_ctime r) @ to_le_bytes (ri_mtime r) @ to_le_bytes (ri_dtime r) @ to_le_bytes (ri_gid r) @
     to_le_bytes (ri_links_count r) @ to_le_bytes (ri_sectors_count r) @ to_le_bytes (ri_flags r) @ to_le_bytes (ri_ossv1 r) @
     concat (map to_le_bytes (ri_direct_block_pointers r)) @ to_le_bytes (ri_single_indirect_block_pointer r) @
     to_le_bytes (ri_double_indirect_block_pointer r) @ to_le_bytes (ri_triple_indirect_block_pointer r) @
     to_le_bytes (ri_generation_number r) @ to_le_bytes (ri_extended_attribute_block r) @ to_le_bytes (ri_size_hi_or_dir_acl r) @
     to_le_bytes (ri_fragment_block r) @ ri_ossv2 r"

section \<open>Locations\<close>

datatype InodeReadingLocationInfo = Direct nat | Single nat | Double nat nat | Triple nat nat nat

record InodeReadingLocation =
  loc_location :: InodeReadingLocationInfo
  loc_table_size :: nat

definition location_new :: "nat \<Rightarrow> nat \<Rightarrow> InodeReadingLocation panics" where
  "location_new table_size block_idx = do {
     table_size2 \<leftarrow> mul32 table_size table_size;
     location \<leftarrow>
       (if block_idx < 12 then Some (Direct block_idx)
        else let idx = block_idx - 12
             in if idx < table_size then Some (Single idx)
                else let idx = idx - table_size
                     in if idx < table_size2 then Some (Double (idx div table_size) (idx mod table_size))
                        else let idx = idx - table_size2
                             in if table_size = 0 then None
                                else Some (Triple (idx div table_size2) (idx mod table_size2 div table_size) (idx mod table_size)));
     Some \<lparr>loc_location = location, loc_table_size = table_size\<rparr>
   }"

fun current_block_idx :: "InodeReadingLocation \<Rightarrow> nat panics" where
  "current_block_idx l =
     (let ts = loc_table_size l
      in case loc_location l of
           Direct direct \<Rightarrow> Some direct
         | Single single \<Rightarrow> add32 12 single
         | Double double1 double2 \<Rightarrow> do {
             idx \<leftarrow> add32 12 ts; a \<leftarrow> mul32 double1 ts; idx \<leftarrow> add32 idx a; add32 idx double2
           }
         | Triple triple1 triple2 triple3 \<Rightarrow> do {
             idx \<leftarrow> add32 12 ts; ts2 \<leftarrow> mul32 ts ts; idx \<leftarrow> add32 idx ts2;
             a \<leftarrow> mul32 triple1 ts; a \<leftarrow> mul32 a ts; idx \<leftarrow> add32 idx a;
             b \<leftarrow> mul32 triple2 ts; idx \<leftarrow> add32 idx b; add32 idx triple3
           })"

text \<open>The table size is subtracted from: a table of no entries panics.\<close>

definition location_advance :: "InodeReadingLocation \<Rightarrow> (bool \<times> InodeReadingLocation) panics" where
  "location_advance l =
     (case loc_location l of
        Direct direct \<Rightarrow>
          Some (True, l\<lparr>loc_location := (if direct = 11 then Single 0 else Direct (direct + 1))\<rparr>)
      | Single single \<Rightarrow> do {
          last \<leftarrow> sub64 (loc_table_size l) 1;
          Some (True, l\<lparr>loc_location := (if single = last then Double 0 0 else Single (single + 1))\<rparr>)
        }
      | Double double1 double2 \<Rightarrow> do {
          last \<leftarrow> sub64 (loc_table_size l) 1;
          Some (True, l\<lparr>loc_location :=
            (if double1 = last \<and> double2 = last then Triple 0 0 0
             else if double2 = last then Double (double1 + 1) 0
             else Double double1 (double2 + 1))\<rparr>)
        }
      | Triple triple1 triple2 triple3 \<Rightarrow> do {
          last \<leftarrow> sub64 (loc_table_size l) 1;
          (if triple1 = last \<and> triple2 = last \<and> triple3 = last then Some (False, l)
           else Some (True, l\<lparr>loc_location :=
             (if triple2 = last \<and> triple3 = last then Triple (triple1 + 1) 0 0
              else if triple3 = last then Triple triple1 (triple2 + 1) 0
              else Triple triple1 triple2 (triple3 + 1))\<rparr>))
        })"

section \<open>Locations enumerate the blocks of a file\<close>

definition loc_ok :: "InodeReadingLocation \<Rightarrow> bool" where
  "loc_ok l \<longleftrightarrow>
     (let ts = loc_table_size l
      in case loc_location l of
           Direct a \<Rightarrow> a < 12
         | Single a \<Rightarrow> a < ts
         | Double a b \<Rightarrow> a < ts \<and> b < ts
         | Triple a b c \<Rightarrow> a < ts \<and> b < ts \<and> c < ts)"

definition loc_index :: "InodeReadingLocation \<Rightarrow> nat" where
  "loc_index l =
     (let ts = loc_table_size l
      in case loc_location l of
           Direct a \<Rightarrow> a
         | Single a \<Rightarrow> 12 + a
         | Double a b \<Rightarrow> 12 + ts + (a * ts + b)
         | Triple a b c \<Rightarrow> 12 + ts + ts * ts + (a * (ts * ts) + (b * ts + c)))"

definition loc_capacity :: "nat \<Rightarrow> nat" where
  "loc_capacity ts = 12 + ts + ts * ts + ts * (ts * ts)"

lemma digits_less: "(a :: nat) < n \<Longrightarrow> b < m \<Longrightarrow> a * m + b < n * m"
  using mult_le_mono1 [of "Suc a" n m] by simp

lemma loc_index_bound: "loc_ok l \<Longrightarrow> loc_index l < loc_capacity (loc_table_size l)"
proof (cases "loc_location l")
  case (Triple a b c)
  let ?t = "loc_table_size l"
  assume "loc_ok l"
  then have "b * ?t + c < ?t * ?t" "a < ?t" using Triple by (auto simp: loc_ok_def Let_def intro: digits_less)
  then have "a * (?t * ?t) + (b * ?t + c) < ?t * (?t * ?t)" by (rule digits_less [rotated])
  then show ?thesis using Triple by (simp add: loc_index_def loc_capacity_def Let_def)
next
  case (Double a b)
  assume "loc_ok l"
  then show ?thesis using Double digits_less [of a "loc_table_size l" b "loc_table_size l"]
    by (simp add: loc_ok_def loc_index_def loc_capacity_def Let_def)
qed (auto simp: loc_ok_def loc_index_def loc_capacity_def Let_def)

lemma location_new_Some:
  assumes "0 < ts" "ts < 2 ^ 16"
  obtains l where "location_new ts i = Some l" "loc_table_size l = ts" "loc_index l = i" "i < loc_capacity ts \<Longrightarrow> loc_ok l"
proof -
  have "ts * ts < 2 ^ 16 * 2 ^ 16" using assms(2) by (intro mult_strict_mono) auto
  then have m: "mul32 ts ts = Some (ts * ts)" by (simp add: mul32_def)
  consider "i < 12" | "12 \<le> i" "i < 12 + ts" | "12 + ts \<le> i" "i < 12 + ts + ts * ts" | "12 + ts + ts * ts \<le> i" by linarith
  then show ?thesis
  proof cases
    case 1
    then show ?thesis using that m by (simp add: location_new_def loc_ok_def loc_index_def Let_def)
  next
    case 2
    then show ?thesis using that [of "\<lparr>loc_location = Single (i - 12), loc_table_size = ts\<rparr>"] m
      by (simp add: location_new_def loc_ok_def loc_index_def Let_def)
  next
    case 3
    define k where "k = i - 12 - ts"
    have k: "k < ts * ts" "i = 12 + ts + k" using 3 by (simp_all add: k_def)
    then have "k div ts < ts" using assms(1) by (simp add: less_mult_imp_div_less)
    then show ?thesis using that [of "\<lparr>loc_location = Double (k div ts) (k mod ts), loc_table_size = ts\<rparr>"] m k assms(1)
      by (simp add: location_new_def loc_ok_def loc_index_def Let_def)
  next
    case 4
    define k where "k = i - 12 - ts - ts * ts"
    have k: "i = 12 + ts + ts * ts + k" using 4 by (simp add: k_def)
    have mm: "k mod (ts * ts) mod ts = k mod ts" by (simp add: mod_mult2_eq)
    have "k mod (ts * ts) < ts * ts" using assms(1) by simp
    then have d: "k mod (ts * ts) div ts < ts" by (simp add: less_mult_imp_div_less)
    have c: "k div (ts * ts) < ts" if "i < loc_capacity ts" using that k by (simp add: loc_capacity_def less_mult_imp_div_less)
    have "k div (ts * ts) * (ts * ts) + (k mod (ts * ts) div ts * ts + k mod ts) = k"
      using div_mult_mod_eq [of "k mod (ts * ts)" ts] div_mult_mod_eq [of k "ts * ts"] mm by simp
    then show ?thesis using that [of "\<lparr>loc_location = Triple (k div (ts * ts)) (k mod (ts * ts) div ts) (k mod ts), loc_table_size = ts\<rparr>"]
        m k assms(1) c d by (simp add: location_new_def loc_ok_def loc_index_def Let_def)
  qed
qed

text \<open>A location inside the tables is determined by its index.\<close>

lemma location_new_index:
  assumes "loc_ok l" "loc_table_size l < 2 ^ 16"
  shows "location_new (loc_table_size l) (loc_index l) = Some l"
proof -
  let ?t = "loc_table_size l"
  have "?t * ?t \<le> (2 ^ 16 - 1) * (2 ^ 16 - 1)" using assms(2) by (intro mult_le_mono) auto
  then have m: "mul32 ?t ?t = Some (?t * ?t)" by (simp add: mul32_def)
  show ?thesis
  proof (cases "loc_location l")
    case (Double a b)
    then have "a * ?t + b < ?t * ?t" "b < ?t" using assms(1) by (auto simp: loc_ok_def Let_def intro: digits_less)
    then show ?thesis using m Double by (cases l) (simp add: location_new_def loc_index_def Let_def)
  next
    case (Triple a b c)
    have t: "0 < ?t" "b * ?t + c < ?t * ?t" "c < ?t" "b < ?t" using assms(1) Triple by (auto simp: loc_ok_def Let_def intro: digits_less)
    have "(a * (?t * ?t) + (b * ?t + c)) div (?t * ?t) = a" "(a * (?t * ?t) + (b * ?t + c)) mod (?t * ?t) = b * ?t + c"
      using t(1,2) by (simp_all add: div_mult_self3)
    moreover have "(b * ?t + c) div ?t = b" "(a * (?t * ?t) + (b * ?t + c)) mod ?t = c"
      using t(1,3) mod_mult_self3 [of "a * ?t + b" ?t c] by (simp_all add: algebra_simps)
    ultimately show ?thesis using m Triple t(1) by (cases l) (simp add: location_new_def loc_index_def Let_def)
  qed (use assms(1) m in \<open>auto simp: location_new_def loc_index_def loc_ok_def Let_def\<close>)
qed

lemma current_block_idx_exact: "loc_index l < 2 ^ 32 \<Longrightarrow> current_block_idx l = Some (loc_index l)"
proof -
  assume i: "loc_index l < 2 ^ 32"
  let ?t = "loc_table_size l"
  have "a * ?t \<le> a * (?t * ?t)" for a by (cases ?t) simp_all
  then have "a * ?t < 2 ^ 32" if "loc_location l = Triple a b c" for a b c
    using i that le_less_trans [of "a * ?t" "a * (?t * ?t)" "2 ^ 32"] by (simp add: loc_index_def Let_def)
  then show ?thesis using i
    by (cases "loc_location l") (simp_all add: loc_index_def checked_simps Let_def algebra_simps del: bind_eq_Some_iff)
qed

lemma location_advance_step:
  assumes "loc_ok l" "0 < loc_table_size l"
  shows "(\<exists>l'. location_advance l = Some (True, l') \<and> loc_ok l' \<and> loc_table_size l' = loc_table_size l \<and> loc_index l' = loc_index l + 1) \<or>
    (location_advance l = Some (False, l) \<and> loc_index l + 1 = loc_capacity (loc_table_size l))"
proof -
  obtain t where t: "loc_table_size l = Suc t" using assms(2) gr0_conv_Suc by auto
  show ?thesis
    using assms(1) by (cases "loc_location l")
      (auto simp: location_advance_def loc_ok_def loc_index_def loc_capacity_def t Let_def checked_simps algebra_simps simp del: bind_eq_Some_iff)
qed

text \<open>
  For every block index within the capacity of an inode, the location has its indices inside
  the tables, current_block_idx gives the index back, and advance moves to the location of the
  next index, and stops exactly at the last one.
\<close>

theorem inode_location_exact:
  assumes "0 < ts" "ts < 2 ^ 16" "idx < loc_capacity ts" "idx < 2 ^ 32"
  shows "\<exists>l. location_new ts idx = Some l \<and> loc_ok l \<and> loc_table_size l = ts \<and> current_block_idx l = Some idx \<and>
    location_advance l =
      (if idx + 1 < loc_capacity ts then map_option (Pair True) (location_new ts (idx + 1)) else Some (False, l))"
proof -
  obtain l where l: "location_new ts idx = Some l" "loc_table_size l = ts" "loc_index l = idx" "loc_ok l"
    using location_new_Some [OF assms(1,2), of idx] assms(3) by blast
  have "0 < loc_table_size l" using assms(1) l(2) by simp
  from location_advance_step [OF l(4) this]
  have "location_advance l = (if idx + 1 < loc_capacity ts then map_option (Pair True) (location_new ts (idx + 1)) else Some (False, l))"
  proof (elim disjE exE conjE)
    fix l' assume a: "location_advance l = Some (True, l')" "loc_ok l'" "loc_table_size l' = loc_table_size l" "loc_index l' = loc_index l + 1"
    then show ?thesis using location_new_index [OF a(2)] loc_index_bound [OF a(2)] l(2,3) assms(2) by simp
  qed (use l in simp_all)
  then show ?thesis using l current_block_idx_exact [of l] assms(4) by auto
qed

theorem inode_location_exact_witness:
  "location_new 256 268 = Some \<lparr>loc_location = Double 0 0, loc_table_size = 256\<rparr> \<and>
   location_advance \<lparr>loc_location = Single 255, loc_table_size = 256\<rparr> = map_option (Pair True) (location_new 256 268)"
  using inode_location_exact [of 256 267] by (simp add: location_new_def mul32_def loc_capacity_def)

section \<open>Inodes on disk\<close>

definition raw_inode_wf :: "RawInode \<Rightarrow> bool" where
  "raw_inode_wf r \<longleftrightarrow> length (ri_direct_block_pointers r) = 12 \<and> length (ri_ossv2 r) = 12"

lemma pointers_uniform: "uniform 4 (map to_le_bytes (ps :: u32 list))"
  by (simp add: uniform_def)

lemma length_pointers: "length (concat (map to_le_bytes (ps :: u32 list))) = 4 * length ps"
  using length_concat_uniform [OF pointers_uniform, of ps] by simp

lemma read_pointer: "k < length ps \<Longrightarrow>
    from_le_bytes (slice_of (concat (map to_le_bytes ps)) (4 * k) (4 * k + 4)) = (ps ! k :: u32)"
  using slice_concat_uniform [OF pointers_uniform, of k ps 0 4] slice_whole [of "to_le_bytes (ps ! k)" 4] by (simp add: mult.commute)

lemma read_pointers:
  "length ps = n \<Longrightarrow> map (\<lambda>k. from_le_bytes (slice_of (concat (map to_le_bytes ps)) (4 * k) (4 * k + 4))) [0..<n] = (ps :: u32 list)"
  by (rule nth_equalityI) (simp_all add: read_pointer)

lemma length_raw_inode_bytes: "raw_inode_wf r \<Longrightarrow> length (raw_inode_bytes r) = 128"
  by (simp add: raw_inode_wf_def raw_inode_bytes_def length_pointers)

lemma read_raw_inode_bytes: "raw_inode_wf r \<Longrightarrow> read_raw_inode (raw_inode_bytes r) = r"
  by (simp add: raw_inode_wf_def read_raw_inode_def raw_inode_bytes_def slice_append_left slice_append_first slice_whole length_pointers
      read_pointers del: append_assoc)

lemma inode_type_roundtrip: "inode_type_of (inode_type_bits t) = Some t"
  by (cases t) (simp_all add: inode_type_of_def)

lemma inode_type_of_bits: "inode_type_of w = Some t \<Longrightarrow> inode_type_bits t = w"
  by (auto simp: inode_type_of_def split: if_splits)

lemma type_mask: "inode_type_bits t AND 0xF000 = inode_type_bits t" "inode_type_bits t AND 0x0FFF = 0"
  by (cases t; simp)+

lemma split_mode_word: "(w AND 0xF000) OR (w AND 0x0FFF) = (w :: u16)"
proof -
  have "(0xF000 :: u16) OR 0x0FFF = - 1" by simp
  then show ?thesis by (metis bit.conj_disj_distrib bit.conj_one_right)
qed

lemma from_raw_get_raw:
  assumes "in_permissions i AND 0xF000 = 0"
  shows "inode_from_raw (inode_get_raw i) (in_inode_i i) (in_parent_inode i) = Some i"
proof -
  have p: "in_permissions i AND 0x0FFF = in_permissions i" using split_mode_word [of "in_permissions i"] assms by simp
  have "(inode_type_bits (in_type i) OR in_permissions i) AND 0xF000 = inode_type_bits (in_type i)"
    "(inode_type_bits (in_type i) OR in_permissions i) AND 0x0FFF = in_permissions i"
    using assms p type_mask by (simp_all add: bit.conj_disj_distrib2)
  then show ?thesis by (simp add: inode_from_raw_def inode_get_raw_def inode_type_roundtrip)
qed

lemma get_raw_from_raw: "inode_from_raw raw n parent = Some i \<Longrightarrow> inode_get_raw i = raw"
  using split_mode_word [of "ri_type_and_permissions raw"] by (auto simp: inode_from_raw_def inode_get_raw_def dest: inode_type_of_bits)

lemma size_words: "n < 2 ^ 64 \<Longrightarrow> unat ((push_bit 32 (ucast (ucast (drop_bit 32 (of_nat n :: u64)) :: u32)) OR ucast (ucast (of_nat n :: u64) :: u32)) :: u64) = n"
proof -
  assume "n < 2 ^ 64"
  have "(push_bit 32 (ucast (ucast (drop_bit 32 w) :: u32)) OR ucast (ucast w :: u32)) = w" for w :: u64
    by (rule bit_word_eqI) (auto simp: bit_simps dest: bit_imp_le_length)
  from this [of "of_nat n"] show ?thesis using \<open>n < 2 ^ 64\<close> by (simp only: unsigned_of_nat) (simp add: take_bit_nat_eq_self)
qed

text \<open>
  C35: An inode with 12 direct pointers, 12 bytes of system data and permissions within their 12
  bits survives being laid out as the 128 bytes of the disk format and read back, and a size
  below 2^64 that is set is the size read, in 64 bits for regular files on volumes with that
  feature and modulo 2^32 otherwise.
\<close>

theorem inode_disk_roundtrip:
  assumes "in_permissions i AND 0xF000 = 0" "length (in_direct_block_pointers i) = 12" "length (in_ossv2 i) = 12"
  shows "inode_from_raw (read_raw_inode (raw_inode_bytes (inode_get_raw i))) (in_inode_i i) (in_parent_inode i) = Some i \<and>
    length (raw_inode_bytes (inode_get_raw i)) = 128 \<and>
    (\<forall>n < 2 ^ 64. inode_get_size f (inode_set_size f n i) = (if in_type i = RegularFile \<and> f then n else n mod 2 ^ 32))"
proof (intro conjI allI impI)
  have wf: "raw_inode_wf (inode_get_raw i)" using assms(2,3) by (simp add: raw_inode_wf_def inode_get_raw_def)
  show "inode_from_raw (read_raw_inode (raw_inode_bytes (inode_get_raw i))) (in_inode_i i) (in_parent_inode i) = Some i"
    using read_raw_inode_bytes [OF wf] from_raw_get_raw [OF assms(1)] by simp
  show "length (raw_inode_bytes (inode_get_raw i)) = 128" by (rule length_raw_inode_bytes [OF wf])
  fix n :: nat assume n: "n < 2 ^ 64"
  have "unat (ucast (of_nat n :: u64) :: u32) = n mod 2 ^ 32"
    using n by (simp add: unsigned_ucast_eq unsigned_of_nat take_bit_nat_eq_self take_bit_eq_mod)
  then show "inode_get_size f (inode_set_size f n i) = (if in_type i = RegularFile \<and> f then n else n mod 2 ^ 32)"
    using size_words [OF n] by (simp add: inode_get_size_def inode_set_size_def Let_def)
qed

definition demo_inode :: Inode where
  "demo_inode = \<lparr>in_type = RegularFile, in_permissions = 0x1A4, in_uid = 0, in_size_lo = 5, in_atime = 1, in_ctime = 2, in_mtime = 3,
     in_dtime = 0, in_gid = 0, in_links_count = 1, in_sectors_count = 2, in_flags = 0, in_ossv1 = 0,
     in_direct_block_pointers = 40 # replicate 11 0, in_single_indirect_block_pointer = 0, in_double_indirect_block_pointer = 0,
     in_triple_indirect_block_pointer = 0, in_generation_number = 7, in_extended_attribute_block = 0, in_size_hi_or_dir_acl = 0,
     in_fragment_block = 0, in_ossv2 = replicate 12 0, in_inode_i = 12, in_parent_inode = Some 2\<rparr>"

theorem inode_disk_roundtrip_witness:
  "inode_from_raw (read_raw_inode (raw_inode_bytes (inode_get_raw demo_inode))) 12 (Some 2) = Some demo_inode \<and>
   inode_get_size True (inode_set_size True 5000000000 demo_inode) = 5000000000"
proof -
  have "in_permissions demo_inode AND 0xF000 = 0" "length (in_direct_block_pointers demo_inode) = 12" "length (in_ossv2 demo_inode) = 12"
    "in_inode_i demo_inode = 12" "in_parent_inode demo_inode = Some 2" "in_type demo_inode = RegularFile"
    by (simp_all add: demo_inode_def)
  then show ?thesis using inode_disk_roundtrip [of demo_inode True] by auto
qed

end
