(* ===== verification/Ext2_Super.thy ===== *)
theory Ext2_Super
  imports Ext2_Inode
begin

text \<open>
  The metadata of an ext2 volume: the superblock (\<^verbatim>\<open>ext2/superblock.rs\<close>), the block group
  descriptors (\<^verbatim>\<open>ext2/blockgroup.rs\<close>), and of \<^verbatim>\<open>ext2/mod.rs\<close> the errors, the
  supported features, the division of blocks and inodes into groups and the groups that hold
  copies of the metadata. Fields keep the width they have on disk; the enumerations
  \<^verbatim>\<open>FsState\<close>, \<^verbatim>\<open>OnErrorBehavior\<close> and \<^verbatim>\<open>OsId\<close>, which no code
  reads, are kept as their representation. A computation that does not return is \<open>None\<close>.
\<close>

section \<open>The superblock\<close>

definition SUPERBLOCK_SIGNATURE :: u16 where "SUPERBLOCK_SIGNATURE = 0xEF53"

datatype RequiredFeature = Compression | DirectoryEntriesHaveTypeField | FsNeedsToReplayJournal | FsUsesJournalDevice

datatype ROFeature = SparseDescriptorTables | FileSize64 | DirectoryContentInBinaryTree

fun required_feature_bit :: "RequiredFeature \<Rightarrow> u32" where
  "required_feature_bit Compression = 1"
| "required_feature_bit DirectoryEntriesHaveTypeField = 2"
| "required_feature_bit FsNeedsToReplayJournal = 4"
| "required_feature_bit FsUsesJournalDevice = 8"

fun ro_feature_bit :: "ROFeature \<Rightarrow> u32" where
  "ro_feature_bit SparseDescriptorTables = 1"
| "ro_feature_bit FileSize64 = 2"
| "ro_feature_bit DirectoryContentInBinaryTree = 4"

definition ro_has :: "u32 \<Rightarrow> ROFeature \<Rightarrow> bool" where
  "ro_has features f \<longleftrightarrow> features AND ro_feature_bit f \<noteq> 0"

definition supported_ro_features :: u32 where
  "supported_ro_features = 0 OR ro_feature_bit FileSize64 OR ro_feature_bit SparseDescriptorTables"

definition supported_required_features :: u32 where
  "supported_required_features = 0 OR required_feature_bit DirectoryEntriesHaveTypeField"

record Superblock =
  sp_inodes_count :: u32
  sp_blocks_count :: u32
  sp_su_reserved :: u32
  sp_unallocated_blocks :: u32
  sp_unallocated_inodes :: u32
  sp_superblock_block :: u32
  sp_log_block_size :: u32
  sp_log_fragment_size :: u32
  sp_blocks_per_group :: u32
  sp_fragments_per_group :: u32
  sp_inodes_per_group :: u32
  sp_last_mount_time :: u32
  sp_last_write_time :: u32
  sp_mount_count_since_fsck :: u16
  sp_max_mount_count_before_fsck :: u16
  sp_signature :: u16
  sp_fs_state :: u16
  sp_on_error_behavior :: u16
  sp_minor_version_level :: u16
  sp_last_fsck_time :: u32
  sp_fsck_interval :: u32
  sp_os_id :: u32
  sp_major_version_level :: u32
  sp_user_id_reserved_blocks :: u16
  sp_group_id_reserved_blocks :: u16
  sp_first_non_reserved_inode :: u32
  sp_inode_struct_size :: u16
  sp_this_block_group :: u16
  sp_optional_features :: u32
  sp_required_features :: u32
  sp_readonly_or_support_features :: u32
  sp_fs_id :: "u8 list"
  sp_volume_name :: "u8 list"
  sp_last_mount_path :: "u8 list"
  sp_compression_algorithm :: u32
  sp_file_block_preallocate_count :: u8
  sp_directory_block_preallocate_count :: u8
  sp_padding0 :: "u8 list"
  sp_journal_id :: "u8 list"
  sp_journal_inode :: u32
  sp_journal_device :: u32
  sp_head_of_orphan_inode_list :: u32
  sp_hash_seed :: "u32 list"
  sp_hash_version :: u8
  sp_padding1 :: "u8 list"
  sp_default_mount_options :: u32
  sp_first_meta_bg :: u32

text \<open>The layout of \<^verbatim>\<open>repr(C, packed)\<close>, 264 bytes.\<close>

definition superblock_read :: "u8 list \<Rightarrow> Superblock" where
  "superblock_read bs =
     \<lparr>sp_inodes_count = from_le_bytes (slice_of bs 0 4), sp_blocks_count = from_le_bytes (slice_of bs 4 8),
      sp_su_reserved = from_le_bytes (slice_of bs 8 12), sp_unallocated_blocks = from_le_bytes (slice_of bs 12 16),
      sp_unallocated_inodes = from_le_bytes (slice_of bs 16 20), sp_superblock_block = from_le_bytes (slice_of bs 20 24),
      sp_log_block_size = from_le_bytes (slice_of bs 24 28), sp_log_fragment_size = from_le_bytes (slice_of bs 28 32),
      sp_blocks_per_group = from_le_bytes (slice_of bs 32 36), sp_fragments_per_group = from_le_bytes (slice_of bs 36 40),
      sp_inodes_per_group = from_le_bytes (slice_of bs 40 44), sp_last_mount_time = from_le_bytes (slice_of bs 44 48),
      sp_last_write_time = from_le_bytes (slice_of bs 48 52), sp_mount_count_since_fsck = from_le_bytes (slice_of bs 52 54),
      sp_max_mount_count_before_fsck = from_le_bytes (slice_of bs 54 56), sp_signature = from_le_bytes (slice_of bs 56 58),
      sp_fs_state = from_le_bytes (slice_of bs 58 60), sp_on_error_behavior = from_le_bytes (slice_of bs 60 62),
      sp_minor_version_level = from_le_bytes (slice_of bs 62 64), sp_last_fsck_time = from_le_bytes (slice_of bs 64 68),
      sp_fsck_interval = from_le_bytes (slice_of bs 68 72), sp_os_id = from_le_bytes (slice_of bs 72 76),
      sp_major_version_level = from_le_bytes (slice_of bs 76 80), sp_user_id_reserved_blocks = from_le_bytes (slice_of bs 80 82),
      sp_group_id_reserved_blocks = from_le_bytes (slice_of bs 82 84), sp_first_non_reserved_inode = from_le_bytes (slice_of bs 84 88),
      sp_inode_struct_size = from_le_bytes (slice_of bs 88 90), sp_this_block_group = from_le_bytes (slice_of bs 90 92),
      sp_optional_features = from_le_bytes (slice_of bs 92 96), sp_required_features = from_le_bytes (slice_of bs 96 100),
      sp_readonly_or_support_features = from_le_bytes (slice_of bs 100 104), sp_fs_id = slice_of bs 104 120,
      sp_volume_name = slice_of bs 120 136, sp_last_mount_path = slice_of bs 136 200,
      sp_compression_algorithm = from_le_bytes (slice_of bs 200 204), sp_file_block_preallocate_count = from_le_bytes (slice_of bs 204 205),
      sp_directory_block_preallocate_count = from_le_bytes (slice_of bs 205 206), sp_padding0 = slice_of bs 206 208,
      sp_journal_id = slice_of bs 208 224, sp_journal_inode = from_le_bytes (slice_of bs 224 228),
      sp_journal_device = from_le_bytes (slice_of bs 228 232), sp_head_of_orphan_inode_list = from_le_bytes (slice_of bs 232 236),
      sp_hash_seed = map (\<lambda>k. from_le_bytes (slice_of (slice_of bs 236 252) (4 * k) (4 * k + 4))) [0..<4],
      sp_hash_version = from_le_bytes (slice_of bs 252 253), sp_padding1 = slice_of bs 253 256,
      sp_default_mount_options = from_le_bytes (slice_of bs 256 260), sp_first_meta_bg = from_le_bytes (slice_of bs 260 264)\<rparr>"

definition superblock_bytes :: "Superblock \<Rightarrow> u8 list" where
  "superblock_bytes s = to_le_bytes (sp_inodes_count s) @ to_le_bytes (sp_blocks_count s) @ to_le_bytes (sp_su_reserved s) @
     to_le_bytes (sp_unallocated_blocks s) @ to_le_bytes (sp_unallocated_inodes s) @ to_le_bytes (sp_superblock_block s) @
     to_le_bytes (sp_log_block_size s) @ to_le_bytes (sp_log_fragment_size s) @ to_le_bytes (sp_blocks_per_group s) @
     to_le_bytes (sp_fragments_per_group s) @ to_le_bytes (sp_inodes_per_group s) @ to_le_bytes (sp_last_mount_time s) @
     to_le_bytes (sp_last_write_time s) @ to_le_bytes (sp_mount_count_since_fsck s) @ to_le_bytes (sp_max_mount_count_before_fsck s) @
     to_le_bytes (sp_signature s) @ to_le_bytes (sp_fs_state s) @ to_le_bytes (sp_on_error_behavior s) @
     to_le_bytes (sp_minor_version_level s) @ to_le_bytes (sp_last_fsck_time s) @ to_le_bytes (sp_fsck_interval s) @
     to_le_bytes (sp_os_id s) @ to_le_bytes (sp_major_version_level s) @ to_le_bytes (sp_user_id_reserved_blocks s) @
     to_le_bytes (sp_group_id_reserved_blocks s) @ to_le_bytes (sp_first_non_reserved_inode s) @ to_le_bytes (sp_inode_struct_size s) @
     to_le_bytes (sp_this_block_group s) @ to_le_bytes (sp_optional_features s) @ to_le_bytes (sp_required_features s) @
     to_le_bytes (sp_readonly_or_support_features s) @ sp_fs_id s @ sp_volume_name s @ sp_last_mount_path s @
     to_le_bytes (sp_compression_algorithm s) @ to_le_bytes (sp_file_block_preallocate_count s) @
     to_le_bytes (sp_directory_block_preallocate_count s) @ sp_padding0 s @ sp_journal_id s @ to_le_bytes (sp_journal_inode s) @
     to_le_bytes (sp_journal_device s) @ to_le_bytes (sp_head_of_orphan_inode_list s) @ concat (map to_le_bytes (sp_hash_seed s)) @
     to_le_bytes (sp_hash_version s) @ sp_padding1 s @ to_le_bytes (sp_default_mount_options s) @ to_le_bytes (sp_first_meta_bg s)"

text \<open>The lengths of the array fields.\<close>

definition superblock_wf :: "Superblock \<Rightarrow> bool" where
  "superblock_wf s \<longleftrightarrow> length (sp_fs_id s) = 16 \<and> length (sp_volume_name s) = 16 \<and> length (sp_last_mount_path s) = 64 \<and>
     length (sp_padding0 s) = 2 \<and> length (sp_journal_id s) = 16 \<and> length (sp_hash_seed s) = 4 \<and> length (sp_padding1 s) = 3"

section \<open>Block group descriptors\<close>

definition BLOCK_GROUP_DESCRIPTOR_SIZE :: nat where "BLOCK_GROUP_DESCRIPTOR_SIZE = 32"

record RawBlockGroupDescriptor =
  rg_block_usage_bitmap :: u32
  rg_inode_usage_bitmap :: u32
  rg_inode_table_block :: u32
  rg_free_blocks_count :: u16
  rg_free_inodes_count :: u16
  rg_directory_count :: u16
  rg_padding :: "u8 list"
  rg_unused :: "u8 list"

record BlockGroupDescriptor =
  gd_block_usage_bitmap :: u32
  gd_inode_usage_bitmap :: u32
  gd_inode_table_block :: u32
  gd_free_blocks_count :: u16
  gd_free_inodes_count :: u16
  gd_directory_count :: u16

definition descriptor_of :: "RawBlockGroupDescriptor \<Rightarrow> BlockGroupDescriptor" where
  "descriptor_of raw =
     \<lparr>gd_block_usage_bitmap = rg_block_usage_bitmap raw, gd_inode_usage_bitmap = rg_inode_usage_bitmap raw,
      gd_inode_table_block = rg_inode_table_block raw, gd_free_blocks_count = rg_free_blocks_count raw,
      gd_free_inodes_count = rg_free_inodes_count raw, gd_directory_count = rg_directory_count raw\<rparr>"

definition raw_descriptor_read :: "u8 list \<Rightarrow> RawBlockGroupDescriptor" where
  "raw_descriptor_read bs =
     \<lparr>rg_block_usage_bitmap = from_le_bytes (slice_of bs 0 4), rg_inode_usage_bitmap = from_le_bytes (slice_of bs 4 8),
      rg_inode_table_block = from_le_bytes (slice_of bs 8 12), rg_free_blocks_count = from_le_bytes (slice_of bs 12 14),
      rg_free_inodes_count = from_le_bytes (slice_of bs 14 16), rg_directory_count = from_le_bytes (slice_of bs 16 18),
      rg_padding = slice_of bs 18 20, rg_unused = slice_of bs 20 32\<rparr>"

definition raw_descriptor_bytes :: "RawBlockGroupDescriptor \<Rightarrow> u8 list" where
  "raw_descriptor_bytes r = to_le_bytes (rg_block_usage_bitmap r) @ to_le_bytes (rg_inode_usage_bitmap r) @
     to_le_bytes (rg_inode_table_block r) @ to_le_bytes (rg_free_blocks_count r) @ to_le_bytes (rg_free_inodes_count r) @
     to_le_bytes (rg_directory_count r) @ rg_padding r @ rg_unused r"

definition descriptor_from_bytes :: "u8 list \<Rightarrow> BlockGroupDescriptor option" where
  "descriptor_from_bytes bs =
     (if length bs < BLOCK_GROUP_DESCRIPTOR_SIZE then None else Some (descriptor_of (raw_descriptor_read bs)))"

definition descriptor_to_raw :: "BlockGroupDescriptor \<Rightarrow> RawBlockGroupDescriptor" where
  "descriptor_to_raw d =
     \<lparr>rg_block_usage_bitmap = gd_block_usage_bitmap d, rg_inode_usage_bitmap = gd_inode_usage_bitmap d,
      rg_inode_table_block = gd_inode_table_block d, rg_free_blocks_count = gd_free_blocks_count d,
      rg_free_inodes_count = gd_free_inodes_count d, rg_directory_count = gd_directory_count d,
      rg_padding = replicate 2 0, rg_unused = replicate 12 0\<rparr>"

section \<open>Errors\<close>

datatype Ext2Error =
    BadSuperblockMagic u16
  | BadSuperblock string Superblock
  | BadBlockGroupDescriptorTableEntrySize nat nat
  | BadBlockGroupDescriptorTable
  | BadDeviceSize nat nat
  | UnsupportedRequiredFeatures u32 u32 u32
  | BadInodeIndex nat
  | BadReadingLocation InodeReadingLocation

text \<open>
  The conversion into \<^verbatim>\<open>VfsError::DriverError\<close>, whose payload is opaque to every caller: the
  model keeps the variant's name.
\<close>

fun ext2_error :: "Ext2Error \<Rightarrow> VfsError" where
  "ext2_error (BadSuperblockMagic _) = DriverError ''BadSuperblockMagic''"
| "ext2_error (BadSuperblock reason _) = DriverError (''BadSuperblock: '' @ reason)"
| "ext2_error (BadBlockGroupDescriptorTableEntrySize _ _) = DriverError ''BadBlockGroupDescriptorTableEntrySize''"
| "ext2_error BadBlockGroupDescriptorTable = DriverError ''BadBlockGroupDescriptorTable''"
| "ext2_error (BadDeviceSize _ _) = DriverError ''BadDeviceSize''"
| "ext2_error (UnsupportedRequiredFeatures _ _ _) = DriverError ''UnsupportedRequiredFeatures''"
| "ext2_error (BadInodeIndex _) = DriverError ''BadInodeIndex''"
| "ext2_error (BadReadingLocation _) = DriverError ''BadReadingLocation''"

section \<open>Groups\<close>

definition count_block_groups :: "Superblock \<Rightarrow> Ext2Error + nat" where
  "count_block_groups s =
     (let bpg = unat (sp_blocks_per_group s); ipg = unat (sp_inodes_per_group s)
      in if bpg = 0 \<or> ipg = 0 then Inl (BadSuperblock ''blocks_per_group == 0 || inodes_per_group == 0'' s)
         else let r1 = div_ceil (unat (sp_blocks_count s)) bpg; r2 = div_ceil (unat (sp_inodes_count s)) ipg
              in if r1 \<noteq> r2 then Inl (BadBlockGroupDescriptorTableEntrySize r1 r2) else Inr r1)"

text \<open>The inode number is unsigned: number 0 underflows; a group of no inodes divides by zero.\<close>

definition get_inode_group :: "Superblock \<Rightarrow> nat \<Rightarrow> nat panics" where
  "get_inode_group s inode = do {
     i \<leftarrow> sub64 inode 1;
     _ \<leftarrow> assert_rust (sp_inodes_per_group s \<noteq> 0);
     Some (i div unat (sp_inodes_per_group s))
   }"

definition get_inode_index_in_group :: "Superblock \<Rightarrow> nat \<Rightarrow> nat panics" where
  "get_inode_index_in_group s inode = do {
     i \<leftarrow> sub64 inode 1;
     _ \<leftarrow> assert_rust (sp_inodes_per_group s \<noteq> 0);
     Some (i mod unat (sp_inodes_per_group s))
   }"

definition get_inode_range_for_group :: "Superblock \<Rightarrow> nat \<Rightarrow> (nat \<times> nat) panics" where
  "get_inode_range_for_group s g = do {
     range_start \<leftarrow> mul32 g (unat (sp_inodes_per_group s));
     g1 \<leftarrow> add32 g 1;
     range_end \<leftarrow> mul32 g1 (unat (sp_inodes_per_group s));
     first_inode \<leftarrow> add32 range_start 1;
     past_last \<leftarrow> add32 range_end 1;
     Some (first_inode, min past_last (unat (sp_inodes_count s)))
   }"

section \<open>Groups with copies of the metadata\<close>

definition checked_mul32 :: "nat \<Rightarrow> nat \<Rightarrow> nat option" where
  "checked_mul32 a b = (if a * b < 2 ^ 32 then Some (a * b) else None)"

partial_function (option) is_pow_loop :: "nat \<Rightarrow> nat \<Rightarrow> nat \<Rightarrow> bool option" where
  [code]: "is_pow_loop a b num =
     (if num < a then (case checked_mul32 num b of Some v \<Rightarrow> is_pow_loop a b v | None \<Rightarrow> Some False)
      else Some (num = a))"

definition is_pow :: "nat \<Rightarrow> nat \<Rightarrow> bool option" where
  "is_pow a b = is_pow_loop a b b"

definition block_group_contains_metadata_backup :: "Superblock \<Rightarrow> nat \<Rightarrow> bool option" where
  "block_group_contains_metadata_backup s g =
     (if \<not> ro_has (sp_readonly_or_support_features s) SparseDescriptorTables \<or> g \<le> 1 then Some True
      else do {
        p3 \<leftarrow> is_pow g 3;
        if p3 then Some True else do {
          p5 \<leftarrow> is_pow g 5;
          if p5 then Some True else is_pow g 7
        }
      })"

partial_function (option) push_powers :: "nat \<Rightarrow> nat \<Rightarrow> nat \<Rightarrow> nat list \<Rightarrow> nat list option" where
  [code]: "push_powers base count p vec =
     (case checked_mul32 p base of
        None \<Rightarrow> Some vec
      | Some v \<Rightarrow> if count < v then Some vec else push_powers base count v (vec @ [v]))"

definition get_backup_groups :: "Superblock \<Rightarrow> nat \<Rightarrow> BlockGroupDescriptor list \<Rightarrow> nat list option" where
  "get_backup_groups s block_group_count table =
     (if ro_has (sp_readonly_or_support_features s) SparseDescriptorTables then
        (if block_group_count \<le> 1 then Some [0..<block_group_count]
         else do {
           vec \<leftarrow> push_powers 3 block_group_count 1 [0, 1];
           vec \<leftarrow> push_powers 5 block_group_count 1 vec;
           push_powers 7 block_group_count 1 vec
         })
      else Some [0..<length table mod 2 ^ 32])"

section \<open>Encodings\<close>

lemma length_le_byte [simp]: "length (to_le_bytes (a :: u8)) = 1"
  by simp

lemma from_to_le_byte [simp]: "from_le_bytes (to_le_bytes a) = (a :: u8)"
  by (simp add: from_to_le_bytes)

lemma length_superblock_bytes: "superblock_wf s \<Longrightarrow> length (superblock_bytes s) = 264"
  by (simp add: superblock_wf_def superblock_bytes_def length_pointers)

lemma superblock_read_bytes:
  assumes "superblock_wf s"
  shows "superblock_read (superblock_bytes s @ rest) = s"
  using assms read_pointers [of "sp_hash_seed s"]
  by (cases s) (simp add: superblock_wf_def superblock_read_def superblock_bytes_def slice_append_left slice_append_first slice_whole length_pointers)

lemma length_descriptor_bytes: "length (raw_descriptor_bytes (descriptor_to_raw d)) = 32"
  by (simp add: raw_descriptor_bytes_def descriptor_to_raw_def)

lemma descriptor_roundtrip: "descriptor_from_bytes (raw_descriptor_bytes (descriptor_to_raw d) @ rest) = Some d"
  by (cases d) (simp add: descriptor_from_bytes_def BLOCK_GROUP_DESCRIPTOR_SIZE_def descriptor_of_def raw_descriptor_read_def
      raw_descriptor_bytes_def descriptor_to_raw_def slice_append_left slice_append_first slice_whole)

section \<open>The groups of inodes\<close>

lemma inode_coordinates:
  assumes "1 \<le> i" "sp_inodes_per_group s \<noteq> 0"
  obtains g k where "get_inode_group s i = Some g" "get_inode_index_in_group s i = Some k"
    "i = g * unat (sp_inodes_per_group s) + k + 1" "k < unat (sp_inodes_per_group s)"
proof (rule that)
  let ?n = "unat (sp_inodes_per_group s)"
  have n: "0 < ?n" using assms(2) by (simp add: unat_gt_0)
  show "get_inode_group s i = Some ((i - 1) div ?n)" "get_inode_index_in_group s i = Some ((i - 1) mod ?n)"
    using assms by (simp_all add: get_inode_group_def get_inode_index_in_group_def checked_simps del: bind_eq_Some_iff)
  show "i = (i - 1) div ?n * ?n + (i - 1) mod ?n + 1" using assms(1) by simp
  show "(i - 1) mod ?n < ?n" using n by simp
qed

lemma inode_range_members:
  assumes "sp_inodes_per_group s \<noteq> 0" "(g + 1) * unat (sp_inodes_per_group s) + 1 < 2 ^ 32"
  shows "\<exists>a b. get_inode_range_for_group s g = Some (a, b) \<and>
    {a ..< b} = {i. 1 \<le> i \<and> i < unat (sp_inodes_count s) \<and> get_inode_group s i = Some g}"
proof (intro exI conjI)
  let ?n = "unat (sp_inodes_per_group s)"
  have n: "0 < ?n" using assms(1) by (simp add: unat_gt_0)
  have b: "g + 1 \<le> (g + 1) * ?n" using n mult_le_mono2 [of 1 ?n "g + 1"] by simp
  then show "get_inode_range_for_group s g = Some (g * ?n + 1, min ((g + 1) * ?n + 1) (unat (sp_inodes_count s)))"
    using assms(2) by (simp add: get_inode_range_for_group_def checked_simps del: bind_eq_Some_iff)
  have "j div ?n = g \<longleftrightarrow> g * ?n \<le> j \<and> j < (g + 1) * ?n" for j
    using n div_nat_eqI [of ?n g j] dividend_less_div_times [of ?n j] div_times_less_eq_dividend [of j ?n]
    by (auto simp: mult.commute)
  then have grp: "get_inode_group s i = Some g \<longleftrightarrow> 1 \<le> i \<and> g * ?n \<le> i - 1 \<and> i - 1 < (g + 1) * ?n" for i
    using assms(1) by (cases "1 \<le> i") (simp_all add: get_inode_group_def sub64_def)
  have "i \<in> {g * ?n + 1 ..< min ((g + 1) * ?n + 1) (unat (sp_inodes_count s))} \<longleftrightarrow>
      1 \<le> i \<and> i < unat (sp_inodes_count s) \<and> get_inode_group s i = Some g" for i
    unfolding grp atLeastLessThan_iff min_less_iff_conj by linarith
  then show "{g * ?n + 1 ..< min ((g + 1) * ?n + 1) (unat (sp_inodes_count s))} =
      {i. 1 \<le> i \<and> i < unat (sp_inodes_count s) \<and> get_inode_group s i = Some g}"
    by blast
qed

section \<open>Powers\<close>

definition power_of :: "nat \<Rightarrow> nat \<Rightarrow> bool" where
  "power_of b a \<longleftrightarrow> (\<exists>k \<ge> 1. a = b ^ k)"

lemma is_pow_loop_exact:
  assumes "2 \<le> b" "a < 2 ^ 32"
  shows "is_pow_loop a b (b ^ k) = Some (\<exists>j \<ge> k. a = b ^ j)"
proof (induction "a - b ^ k" arbitrary: k rule: less_induct)
  case less
  have mono: "b ^ k \<le> b ^ j" if "k \<le> j" for j using assms(1) that by (simp add: power_increasing)
  show ?case
  proof (cases "b ^ k < a")
    case False
    then have "(\<exists>j \<ge> k. a = b ^ j) \<longleftrightarrow> b ^ k = a" using mono by (metis le_antisym le_refl not_less)
    then show ?thesis using False by (subst is_pow_loop.simps) simp
  next
    case True
    then have next_power: "(\<exists>j \<ge> k. a = b ^ j) \<longleftrightarrow> (\<exists>j \<ge> Suc k. a = b ^ j)" by (metis Suc_leI Suc_leD le_neq_implies_less less_irrefl)
    show ?thesis
    proof (cases "b ^ k * b < 2 ^ 32")
      case fits: True
      have "b ^ k < b ^ Suc k" using assms(1) by simp
      then have "is_pow_loop a b (b ^ Suc k) = Some (\<exists>j \<ge> Suc k. a = b ^ j)" using less [of "Suc k"] True by (metis diff_less_mono2)
      then show ?thesis using True fits next_power by (subst is_pow_loop.simps) (simp add: checked_mul32_def mult.commute)
    next
      case False
      have "\<not> (\<exists>j \<ge> Suc k. a = b ^ j)"
      proof
        assume "\<exists>j \<ge> Suc k. a = b ^ j"
        then obtain j where "Suc k \<le> j" "a = b ^ j" by blast
        then have "b ^ Suc k \<le> a" using assms(1) by (simp add: power_increasing del: power_Suc)
        then show False using False assms(2) by (simp add: mult.commute)
      qed
      then show ?thesis using True False next_power by (subst is_pow_loop.simps) (simp add: checked_mul32_def)
    qed
  qed
qed

lemma is_pow_exact: "2 \<le> b \<Longrightarrow> a < 2 ^ 32 \<Longrightarrow> is_pow a b = Some (power_of b a)"
  using is_pow_loop_exact [of b a 1] by (simp add: is_pow_def power_of_def)

lemma contains_backup_exact:
  assumes "g < 2 ^ 32"
  shows "block_group_contains_metadata_backup s g =
    Some (\<not> ro_has (sp_readonly_or_support_features s) SparseDescriptorTables \<or> g \<le> 1 \<or> power_of 3 g \<or> power_of 5 g \<or> power_of 7 g)"
  using assms by (auto simp: block_group_contains_metadata_backup_def is_pow_exact)

lemma push_powers_exact:
  assumes "2 \<le> b" "count < 2 ^ 32"
  shows "\<exists>ps. push_powers b count (b ^ k) vec = Some (vec @ ps) \<and> sorted_wrt (<) ps \<and>
    set ps = {v. v \<le> count \<and> (\<exists>j > k. v = b ^ j)}"
proof (induction "count - b ^ k" arbitrary: k vec rule: less_induct)
  case less
  have grow: "b ^ k < b ^ Suc k" using assms(1) by simp
  show ?case
  proof (cases "b ^ Suc k \<le> count")
    case True
    obtain ps where ps: "push_powers b count (b ^ Suc k) (vec @ [b ^ Suc k]) = Some ((vec @ [b ^ Suc k]) @ ps)" "sorted_wrt (<) ps"
      "set ps = {v. v \<le> count \<and> (\<exists>j > Suc k. v = b ^ j)}"
      using less [OF diff_less_mono2 [OF grow less_le_trans [OF grow True]], of "vec @ [b ^ Suc k]"] by (elim exE conjE) rule
    have "b ^ k * b < 2 ^ 32" using True assms(2) by (simp add: mult.commute)
    then have "push_powers b count (b ^ k) vec = push_powers b count (b ^ Suc k) (vec @ [b ^ Suc k])"
      using True by (subst push_powers.simps) (simp add: checked_mul32_def mult.commute)
    moreover have "b ^ Suc k < v" if v: "v \<in> set ps" for v
    proof -
      obtain j where "Suc k < j" "v = b ^ j" using v unfolding ps(3) by auto
      then show ?thesis using assms(1) power_strict_increasing [of "Suc k" j b] by simp
    qed
    moreover have "(\<exists>j > k. v = b ^ j) \<longleftrightarrow> v = b ^ Suc k \<or> (\<exists>j > Suc k. v = b ^ j)" for v
      using Suc_lessI [of k] Suc_lessD [of k] lessI [of k] by metis
    then have "insert (b ^ Suc k) (set ps) = {v. v \<le> count \<and> (\<exists>j > k. v = b ^ j)}"
      unfolding ps(3) using True by (simp add: set_eq_iff del: power_Suc) metis
    ultimately show ?thesis using ps(1,2) by (intro exI [of _ "b ^ Suc k # ps"]) (simp del: power_Suc)
  next
    case False
    then have "push_powers b count (b ^ k) vec = Some vec"
      by (subst push_powers.simps) (simp add: checked_mul32_def mult.commute)
    moreover have "\<not> b ^ j \<le> count" if "k < j" for j
      using that False assms(1) power_increasing [of "Suc k" j b] by linarith
    ultimately show ?thesis by (intro exI [of _ "[]"]) auto
  qed
qed

lemma push_powers_from_1:
  assumes "2 \<le> b" "count < 2 ^ 32"
  obtains ps where "push_powers b count 1 vec = Some (vec @ ps)" "distinct ps" "set ps = {v. v \<le> count \<and> power_of b v}"
  using push_powers_exact [OF assms, of 0 vec] that
  by (auto simp: power_of_def Suc_le_eq strict_sorted_iff)

lemma power_of_large: "2 \<le> b \<Longrightarrow> power_of b v \<Longrightarrow> 1 < v"
  using one_less_power [of b] by (fastforce simp: power_of_def)

lemma powers_disjoint: "coprime b c \<Longrightarrow> 2 \<le> b \<Longrightarrow> power_of b v \<Longrightarrow> \<not> power_of c v"
proof
  assume c: "coprime b c" "2 \<le> b" "power_of b v" "power_of c v"
  then obtain j k where "v = b ^ j" "v = c ^ k" unfolding power_of_def by blast
  then have "coprime v v" using c(1) by (metis coprime_power_left_iff coprime_power_right_iff)
  then show False using power_of_large [OF c(2,3)] by simp
qed

text \<open>
  C36: On a volume with sparse descriptor tables and more than one and fewer than 2^32 groups, the
  search for the groups with copies of the metadata and the membership test return, and the
  search lists, each once, the groups that the test accepts, and also the number of groups
  itself when that is a power of 3, 5 or 7: one group too many.
\<close>

theorem backup_groups_exact:
  assumes "1 < count" "count < 2 ^ 32" "ro_has (sp_readonly_or_support_features s) SparseDescriptorTables"
  shows "\<exists>gs. get_backup_groups s count table = Some gs \<and> distinct gs \<and>
    set gs = {g. g < count \<and> block_group_contains_metadata_backup s g = Some True} \<union>
      {g. g = count \<and> (power_of 3 g \<or> power_of 5 g \<or> power_of 7 g)} \<and>
    (\<forall>g < 2 ^ 32. block_group_contains_metadata_backup s g \<noteq> None)"
proof -
  obtain p3 where p3: "push_powers 3 count 1 [0, 1] = Some ([0, 1] @ p3)" "distinct p3" "set p3 = {v. v \<le> count \<and> power_of 3 v}"
    by (rule push_powers_from_1 [of 3 count "[0, 1]"]) (use assms(2) in simp_all)
  obtain p5 where p5: "push_powers 5 count 1 ([0, 1] @ p3) = Some (([0, 1] @ p3) @ p5)" "distinct p5" "set p5 = {v. v \<le> count \<and> power_of 5 v}"
    by (rule push_powers_from_1 [of 5 count "[0, 1] @ p3"]) (use assms(2) in simp_all)
  obtain p7 where p7: "push_powers 7 count 1 (([0, 1] @ p3) @ p5) = Some ((([0, 1] @ p3) @ p5) @ p7)" "distinct p7"
    "set p7 = {v. v \<le> count \<and> power_of 7 v}"
    by (rule push_powers_from_1 [of 7 count "([0, 1] @ p3) @ p5"]) (use assms(2) in simp_all)
  let ?gs = "(([0, 1] @ p3) @ p5) @ p7"
  have "get_backup_groups s count table = Some ?gs"
    using assms p3(1) p5(1) p7(1) by (simp add: get_backup_groups_def del: bind_eq_Some_iff)
  moreover have "distinct ?gs"
  proof -
    have "coprime (3 :: nat) 5" "coprime (3 :: nat) 7" "coprime (5 :: nat) 7" by code_simp+
    then have "set p3 \<inter> set p5 = {}" "set p3 \<inter> set p7 = {}" "set p5 \<inter> set p7 = {}"
      unfolding p3(3) p5(3) p7(3) using powers_disjoint by fastforce+
    moreover have "\<forall>v \<in> set p3 \<union> set p5 \<union> set p7. 1 < v"
      unfolding p3(3) p5(3) p7(3) using power_of_large [of 3] power_of_large [of 5] power_of_large [of 7] by auto
    ultimately show ?thesis using p3(2) p5(2) p7(2) by auto
  qed
  moreover have "set ?gs = {g. g < count \<and> block_group_contains_metadata_backup s g = Some True} \<union>
      {g. g = count \<and> (power_of 3 g \<or> power_of 5 g \<or> power_of 7 g)}" (is "_ = ?A \<union> ?B")
  proof -
    have "?A = {g. g < count \<and> (g \<le> 1 \<or> power_of 3 g \<or> power_of 5 g \<or> power_of 7 g)}"
      using assms(2,3) contains_backup_exact [of _ s] by auto
    then show ?thesis using assms(1) p3(3) p5(3) p7(3) by auto
  qed
  ultimately show ?thesis using contains_backup_exact [of _ s] by simp
qed

definition demo_superblock :: Superblock where
  "demo_superblock = (superblock_read (replicate 264 0))\<lparr>sp_inodes_count := 24, sp_blocks_count := 24, sp_blocks_per_group := 8,
     sp_inodes_per_group := 8, sp_signature := 0xEF53, sp_readonly_or_support_features := 1\<rparr>"

theorem backup_groups_exact_witness:
  "\<exists>gs. get_backup_groups demo_superblock 3 [] = Some gs \<and> 3 \<in> set gs \<and> count_block_groups demo_superblock = Inr 3"
proof -
  have f: "ro_has (sp_readonly_or_support_features demo_superblock) SparseDescriptorTables"
    by (simp add: ro_has_def demo_superblock_def)
  have p: "power_of 3 3" by (auto simp: power_of_def intro: exI [of _ 1])
  have "count_block_groups demo_superblock = Inr 3"
    by (simp add: count_block_groups_def demo_superblock_def div_ceil_def Let_def)
  then show ?thesis using backup_groups_exact [of 3, OF _ _ f, of "[]"] p by auto
qed

end
