(* ===== verification/Ext2_Volume.thy ===== *)
theory Ext2_Volume
  imports Ext2_Super FileApi
begin

text \<open>
  \<^verbatim>\<open>Ext2Volume\<close> of \<^verbatim>\<open>drivers/fs/phys/ext2/mod.rs\<close>: a volume on a device file, its
  cache of blocks and its caches of the allocators of block groups. The caches are
  \<^verbatim>\<open>LruCache\<close>s of the crate \<^verbatim>\<open>lru\<close>, which is not part of the repository: the model
  takes their operations as a record \<open>LruOps\<close>, and the locale \<open>lru_cache\<close> states what the
  crate documents of them. The world of an operation is the world of the device file and the
  volume.
\<close>

section \<open>Effects\<close>

definition io_panics :: "'a panics \<Rightarrow> ('w, 'a) vio" where
  "io_panics m w = (case m of None \<Rightarrow> None | Some x \<Rightarrow> Some (Inr x, w))"

definition io_get :: "('w \<Rightarrow> 'a) \<Rightarrow> ('w, 'a) vio" where
  "io_get f w = Some (Inr (f w), w)"

definition io_modify :: "('w \<Rightarrow> 'w) \<Rightarrow> ('w, unit) vio" where
  "io_modify f w = Some (Inr (), f w)"

definition on_fst :: "('a, 'r) vio \<Rightarrow> ('a \<times> 'b, 'r) vio" where
  "on_fst m = (\<lambda>(a, b). case m a of None \<Rightarrow> None | Some (r, a') \<Rightarrow> Some (r, a', b))"

definition on_snd :: "('b, 'r) vio \<Rightarrow> ('a \<times> 'b, 'r) vio" where
  "on_snd m = (\<lambda>(a, b). case m b of None \<Rightarrow> None | Some (r, b') \<Rightarrow> Some (r, a, b'))"

text \<open>The operations of a list in order, up to the first error.\<close>

fun io_for :: "'x list \<Rightarrow> ('x \<Rightarrow> ('w, unit) vio) \<Rightarrow> ('w, unit) vio" where
  "io_for [] f = io_ok ()"
| "io_for (x # xs) f = io_bind (f x) (\<lambda>_. io_for xs f)"

text \<open>Leaving a scope: \<open>d\<close> runs whether \<open>m\<close> succeeds or fails.\<close>

definition io_finally :: "('w, 'a) vio \<Rightarrow> ('w \<Rightarrow> 'w panics) \<Rightarrow> ('w, 'a) vio" where
  "io_finally m d w = (case m w of None \<Rightarrow> None | Some (r, w') \<Rightarrow> (case d w' of None \<Rightarrow> None | Some w'' \<Rightarrow> Some (r, w'')))"

section \<open>Caches\<close>

text \<open>
  \<^verbatim>\<open>get\<close> and \<^verbatim>\<open>get_mut\<close> make the entry the most recent one; \<open>lru_set\<close> is an
  assignment through the reference \<^verbatim>\<open>get_mut\<close> returned.
\<close>

record ('c, 'v) LruOps =
  lru_new :: "nat \<Rightarrow> 'c"
  lru_get :: "nat \<Rightarrow> 'c \<Rightarrow> 'v option \<times> 'c"
  lru_set :: "nat \<Rightarrow> 'v \<Rightarrow> 'c \<Rightarrow> 'c"
  lru_push :: "nat \<Rightarrow> 'v \<Rightarrow> 'c \<Rightarrow> (nat \<times> 'v) option \<times> 'c"
  lru_pop :: "nat \<Rightarrow> 'c \<Rightarrow> 'v option \<times> 'c"
  lru_keys :: "'c \<Rightarrow> nat list"

section \<open>The volume\<close>

record ('b, 'g) Ext2Volume =
  ev_device :: File
  ev_read_only :: bool
  ev_superblock :: Superblock
  ev_block_size :: nat
  ev_sectors_per_block :: nat
  ev_block_count :: nat
  ev_block_group_count :: nat
  ev_blocks_per_group :: nat
  ev_block_group_descriptor_table :: "BlockGroupDescriptor list"
  ev_inode_size :: nat
  ev_inodes_per_block :: nat
  ev_block_cache :: 'b
  ev_group_block_bitmap_caches :: 'g
  ev_group_inode_bitmap_caches :: 'g

type_synonym ('w, 'b, 'g, 'z) vol_world = "'w \<times> ('b, 'g, 'z) Ext2Volume_scheme"

text \<open>
  What the code is run with: the drivers, the two kinds of cache, the split of
  \<^verbatim>\<open>align_to\<close> and the contents of uninitialised buffers.
\<close>

record ('w, 'b, 'g) Ext2Env =
  ex_ops :: "'w FsOps"
  ex_blocks :: "('b, u8 list) LruOps"
  ex_groups :: "('g, GroupAllocator) LruOps"
  ex_align :: "Bitmap \<Rightarrow> nat \<times> nat"
  ex_uninit :: "u8 list"

definition device_seek :: "('w, 'b, 'g) Ext2Env \<Rightarrow> SeekPosition \<Rightarrow> (('w, 'b, 'g, 'z) vol_world, nat) vio" where
  "device_seek env p = (\<lambda>(w, v). on_fst (file_seek (ex_ops env) (ev_device v) p) (w, v))"

definition device_write :: "('w, 'b, 'g) Ext2Env \<Rightarrow> u8 list \<Rightarrow> (('w, 'b, 'g, 'z) vol_world, nat) vio" where
  "device_write env buf = (\<lambda>(w, v). on_fst (file_write (ex_ops env) (ev_device v) buf) (w, v))"

definition device_read :: "('w, 'b, 'g) Ext2Env \<Rightarrow> u8 list \<Rightarrow> (('w, 'b, 'g, 'z) vol_world, nat \<times> u8 list) vio" where
  "device_read env buf = (\<lambda>(w, v). on_fst (file_read (ex_ops env) (ev_device v) buf) (w, v))"

definition device_flush :: "('w, 'b, 'g) Ext2Env \<Rightarrow> (('w, 'b, 'g, 'z) vol_world, unit) vio" where
  "device_flush env = (\<lambda>(w, v). on_fst (file_flush (ex_ops env) (ev_device v)) (w, v))"

section \<open>Blocks\<close>

definition ext2_read_block :: "('w, 'b, 'g) Ext2Env \<Rightarrow> nat \<Rightarrow> u8 list \<Rightarrow> ('w, 'b, 'g, 'z) vol_world \<Rightarrow>
    ((nat vresult \<times> u8 list) \<times> ('w, 'b, 'g, 'z) vol_world) panics" where
  "ext2_read_block env lba buf = (\<lambda>(w, v).
     if length buf < ev_block_size v then Some ((Inl BadBufferSize, buf), w, v)
     else if ev_block_count v \<le> lba then Some ((Inl OutOfBounds, buf), w, v)
     else
       let lba32 = lba mod 2 ^ 32;
           (hit, cache) = lru_get (ex_blocks env) lba32 (ev_block_cache v);
           v1 = v\<lparr>ev_block_cache := cache\<rparr>
       in case hit of
            Some data \<Rightarrow> do {
              buf' \<leftarrow> copy_from_slice buf 0 (length buf) data;
              Some ((Inr (ev_block_size v), buf'), w, v1)
            }
          | None \<Rightarrow> do {
              offset \<leftarrow> mul64 (ev_block_size v) lba;
              (r, s1) \<leftarrow> device_seek env (FromStart offset) (w, v1);
              (case r of
                 Inl e \<Rightarrow> Some ((Inl e, buf), s1)
               | Inr _ \<Rightarrow> do {
                   (q, w2, v2) \<leftarrow> device_read env (alloc_boxed_slice (ex_uninit env) (ev_block_size v)) s1;
                   (case q of
                      Inl e \<Rightarrow> Some ((Inl e, buf), w2, v2)
                    | Inr (n, data) \<Rightarrow> do {
                        part \<leftarrow> slice_get data 0 n;
                        buf' \<leftarrow> copy_from_slice buf 0 n part;
                        Some ((Inr n, buf'), w2, v2\<lparr>ev_block_cache := snd (lru_push (ex_blocks env) lba32 data (ev_block_cache v2))\<rparr>)
                      })
                 })
            })"

definition ext2_write_block :: "('w, 'b, 'g) Ext2Env \<Rightarrow> nat \<Rightarrow> u8 list \<Rightarrow> (('w, 'b, 'g, 'z) vol_world, nat) vio" where
  "ext2_write_block env lba buf = (\<lambda>(w, v).
     if length buf < ev_block_size v then io_err BadBufferSize (w, v)
     else if ev_read_only v then io_err ActionNotAllowed (w, v)
     else do {
       offset \<leftarrow> mul64 (ev_block_size v) lba;
       part \<leftarrow> slice_get buf 0 (ev_block_size v);
       io_bind (device_seek env (FromStart offset)) (\<lambda>_.
       io_bind (device_write env part) (\<lambda>n (w2, v2).
         let lba32 = lba mod 2 ^ 32;
             (hit, cache) = lru_get (ex_blocks env) lba32 (ev_block_cache v2)
         in case hit of
              Some data \<Rightarrow> do {
                part \<leftarrow> slice_get buf 0 n;
                data' \<leftarrow> copy_from_slice data 0 (length data) part;
                io_ok (ev_block_size v) (w2, v2\<lparr>ev_block_cache := lru_set (ex_blocks env) lba32 data' cache\<rparr>)
              }
            | None \<Rightarrow> io_ok n (w2, v2\<lparr>ev_block_cache := cache\<rparr>))) (w, v)
     })"

text \<open>The volume as the block device the allocators read and write.\<close>

definition ext2_blocks :: "('w, 'b, 'g) Ext2Env \<Rightarrow> (('w, 'b, 'g, 'z) vol_world, unit) vio \<Rightarrow> ('w, 'b, 'g, 'z) vol_world BlockDevice" where
  "ext2_blocks env flush =
     \<lparr>bd_generation = (\<lambda>_. 0), bd_block_size = (\<lambda>(w, v). ev_block_size v), bd_block_count = (\<lambda>(w, v). Some (ev_block_count v)),
      bd_read_block = ext2_read_block env, bd_write_block = ext2_write_block env, bd_flush = flush\<rparr>"

abbreviation volume_blocks :: "('w, 'b, 'g) Ext2Env \<Rightarrow> ('w, 'b, 'g, 'z) vol_world BlockDevice" where
  "volume_blocks env \<equiv> ext2_blocks env (io_ok ())"

text \<open>Reading into a buffer that is dropped when the read fails.\<close>

definition read_into :: "('w, 'b, 'g) Ext2Env \<Rightarrow> nat \<Rightarrow> u8 list \<Rightarrow> (('w, 'b, 'g, 'z) vol_world, u8 list) vio" where
  "read_into env lba buf s =
     (case ext2_read_block env lba buf s of
        None \<Rightarrow> None
      | Some ((Inl e, _), s') \<Rightarrow> Some (Inl e, s')
      | Some ((Inr _, buf'), s') \<Rightarrow> Some (Inr buf', s'))"

section \<open>Inodes\<close>

definition get_block_group_descriptor :: "('b, 'g, 'z) Ext2Volume_scheme \<Rightarrow> nat \<Rightarrow> BlockGroupDescriptor option" where
  "get_block_group_descriptor v g =
     (if g < length (ev_block_group_descriptor_table v) then Some (ev_block_group_descriptor_table v ! g) else None)"

text \<open>
  The block of the inode table that holds an inode, and the offset in it. The inode is read and
  written there as a structure of 128 bytes without a bounds check; past the end of the block
  that is undefined behaviour, here \<open>None\<close>.
\<close>

definition inode_position :: "('b, 'g, 'z) Ext2Volume_scheme \<Rightarrow> nat \<Rightarrow> (nat \<times> nat) vresult panics" where
  "inode_position v inode = do {
     g \<leftarrow> get_inode_group (ev_superblock v) inode;
     index \<leftarrow> get_inode_index_in_group (ev_superblock v) inode;
     (case get_block_group_descriptor v g of
        None \<Rightarrow> Some (Inl (ext2_error BadBlockGroupDescriptorTable))
      | Some d \<Rightarrow> do {
          _ \<leftarrow> assert_rust (ev_inodes_per_block v \<noteq> 0);
          offset \<leftarrow> mul32 (index mod ev_inodes_per_block v) (ev_inode_size v);
          lba \<leftarrow> add32 (unat (gd_inode_table_block d)) (index div ev_inodes_per_block v);
          Some (Inr (lba, offset))
        })
   }"

definition get_inode :: "('w, 'b, 'g) Ext2Env \<Rightarrow> nat \<Rightarrow> nat option \<Rightarrow> (('w, 'b, 'g, 'z) vol_world, Inode) vio" where
  "get_inode env inode parent_inode = (\<lambda>(w, v).
     if inode = 0 \<or> unat (sp_inodes_count (ev_superblock v)) < inode then io_err (ext2_error (BadInodeIndex inode)) (w, v)
     else do {
       position \<leftarrow> inode_position v inode;
       io_bind (io_result position) (\<lambda>(lba, offset).
       io_bind (read_into env lba (replicate (ev_block_size v) 0)) (\<lambda>buffer.
       io_bind (io_panics (slice_get buffer offset (offset + 128))) (\<lambda>bytes.
       io_panics (inode_from_raw (read_raw_inode bytes) inode parent_inode)))) (w, v)
     })"

definition update_inode_raw :: "('w, 'b, 'g) Ext2Env \<Rightarrow> nat \<Rightarrow> RawInode \<Rightarrow> (('w, 'b, 'g, 'z) vol_world, unit) vio" where
  "update_inode_raw env inode_i raw_inode = (\<lambda>(w, v). do {
     position \<leftarrow> inode_position v inode_i;
     io_bind (io_result position) (\<lambda>(lba, offset).
     io_bind (read_into env lba (replicate (ev_block_size v) 0)) (\<lambda>buffer.
     io_bind (io_panics (copy_from_slice buffer offset (offset + 128) (raw_inode_bytes raw_inode))) (\<lambda>buffer'.
     io_bind (ext2_write_block env lba buffer') (\<lambda>_. io_ok ())))) (w, v)
   })"

definition update_inode :: "('w, 'b, 'g) Ext2Env \<Rightarrow> Inode \<Rightarrow> (('w, 'b, 'g, 'z) vol_world, unit) vio" where
  "update_inode env inode =
     (let raw = inode_get_raw inode
      in update_inode_raw env (in_inode_i inode) (raw\<lparr>ri_generation_number := ri_generation_number raw + 1\<rparr>))"

section \<open>Superblock and descriptors\<close>

definition backup_groups :: "('b, 'g, 'z) Ext2Volume_scheme \<Rightarrow> nat list option" where
  "backup_groups v = get_backup_groups (ev_superblock v) (ev_block_group_count v) (ev_block_group_descriptor_table v)"

definition set_superblock :: "('w, 'b, 'g) Ext2Env \<Rightarrow> Superblock \<Rightarrow> (('w, 'b, 'g, 'z) vol_world, unit) vio" where
  "set_superblock env superblock = (\<lambda>(w, v).
     if ev_read_only v then io_err ActionNotAllowed (w, v)
     else let v' = v\<lparr>ev_superblock := superblock\<rparr>; buffer = superblock_bytes superblock
          in io_bind (device_seek env (FromStart 1024)) (\<lambda>_.
             io_bind (device_write env buffer) (\<lambda>_.
             io_bind (io_panics (backup_groups v')) (\<lambda>groups.
             io_for (drop 1 groups) (\<lambda>backup_group.
               io_bind (io_panics (do { a \<leftarrow> mul64 backup_group (ev_blocks_per_group v'); lba \<leftarrow> add64 a 1; mul64 (ev_block_size v') lba })) (\<lambda>offset.
               io_bind (device_seek env (FromStart offset)) (\<lambda>_.
               io_bind (device_write env buffer) (\<lambda>_. io_ok ()))))))) (w, v'))"

definition set_block_group_descriptor ::
    "('w, 'b, 'g) Ext2Env \<Rightarrow> nat \<Rightarrow> BlockGroupDescriptor \<Rightarrow> (('w, 'b, 'g, 'z) vol_world, unit) vio" where
  "set_block_group_descriptor env g descriptor = (\<lambda>(w, v).
     if ev_read_only v then io_err ActionNotAllowed (w, v)
     else if length (ev_block_group_descriptor_table v) \<le> g \<or> ev_block_size v = 0 then None
     else
       let v' = v\<lparr>ev_block_group_descriptor_table := (ev_block_group_descriptor_table v)[g := descriptor]\<rparr>;
           byte_index = g * BLOCK_GROUP_DESCRIPTOR_SIZE;
           block_index = byte_index div ev_block_size v;
           offset_in_block = byte_index mod ev_block_size v
       in io_bind (io_panics (backup_groups v')) (\<lambda>groups.
          io_for groups (\<lambda>backup_group.
            io_bind (io_panics (do { a \<leftarrow> mul64 backup_group (ev_blocks_per_group v'); b \<leftarrow> add64 a block_index; add64 b 2 })) (\<lambda>backup.
            io_bind (read_into env backup (replicate (ev_block_size v) 0)) (\<lambda>buffer.
            io_bind (io_panics (copy_from_slice buffer offset_in_block (offset_in_block + 32)
                (raw_descriptor_bytes (descriptor_to_raw descriptor)))) (\<lambda>buffer'.
            io_bind (ext2_write_block env backup buffer') (\<lambda>_. io_ok ())))))) (w, v'))"

section \<open>Allocators of groups\<close>

text \<open>An allocator that goes out of scope is dropped, which panics while it has dirty blocks.\<close>

definition write_back :: "('w, 'b, 'g) Ext2Env \<Rightarrow> GroupAllocator \<Rightarrow> (('w, 'b, 'g, 'z) vol_world, GroupAllocator) vio" where
  "write_back env allocator s = do {
     ((r, a), s') \<leftarrow> write_dirty (volume_blocks env) allocator s;
     (case r of
        Inl e \<Rightarrow> do { _ \<leftarrow> allocator_drop (ex_align env) a; Some (Inl e, s') }
      | Inr _ \<Rightarrow> Some (Inr a, s'))
   }"

definition handle_evicted_block_bitmap_cache ::
    "('w, 'b, 'g) Ext2Env \<Rightarrow> nat \<Rightarrow> BlockAllocator \<Rightarrow> (('w, 'b, 'g, 'z) vol_world, unit) vio" where
  "handle_evicted_block_bitmap_cache env g allocator =
     io_bind (write_back env allocator) (\<lambda>a.
       let diff = ga_diff_usage a; a' = a\<lparr>ga_diff_usage := 0\<rparr>
       in io_finally
            (io_bind (io_get (\<lambda>(w, v). ev_superblock v)) (\<lambda>superblock.
             io_bind (io_panics (add_i64 (uint (sp_unallocated_blocks superblock)) (- diff))) (\<lambda>n.
             io_bind (set_superblock env (superblock\<lparr>sp_unallocated_blocks := word_of_int n\<rparr>)) (\<lambda>_.
             io_bind (io_get (\<lambda>(w, v). get_block_group_descriptor v g)) (\<lambda>found.
             io_bind (io_panics found) (\<lambda>descriptor.
             io_bind (io_panics (add_i64 (uint (gd_free_blocks_count descriptor)) (- diff))) (\<lambda>m.
             set_block_group_descriptor env g (descriptor\<lparr>gd_free_blocks_count := word_of_int m\<rparr>))))))))
            (\<lambda>s. do { _ \<leftarrow> allocator_drop (ex_align env) a'; Some s }))"

definition handle_evicted_inode_bitmap_cache ::
    "('w, 'b, 'g) Ext2Env \<Rightarrow> nat \<Rightarrow> InodeAllocator \<Rightarrow> (('w, 'b, 'g, 'z) vol_world, unit) vio" where
  "handle_evicted_inode_bitmap_cache env g allocator =
     io_bind (write_back env allocator) (\<lambda>a.
       let diff = ga_diff_usage a; a' = a\<lparr>ga_diff_usage := 0\<rparr>
       in io_finally
            (io_bind (io_get (\<lambda>(w, v). ev_superblock v)) (\<lambda>superblock.
             io_bind (io_panics (add_i64 (uint (sp_unallocated_inodes superblock)) (- diff))) (\<lambda>n.
             io_bind (set_superblock env (superblock\<lparr>sp_unallocated_inodes := word_of_int n\<rparr>)) (\<lambda>_.
             io_bind (io_get (\<lambda>(w, v). get_block_group_descriptor v g)) (\<lambda>found.
             io_bind (io_panics found) (\<lambda>descriptor.
             io_bind (io_panics (add_i64 (uint (gd_free_inodes_count descriptor)) (- diff))) (\<lambda>m.
             set_block_group_descriptor env g (descriptor\<lparr>gd_free_inodes_count := word_of_int m\<rparr>))))))))
            (\<lambda>s. do { _ \<leftarrow> allocator_drop (ex_align env) a'; Some s }))"

text \<open>Reading a new allocator's bitmap; when that fails it is dropped.\<close>

definition load_allocator :: "('w, 'b, 'g) Ext2Env \<Rightarrow> GroupAllocator \<Rightarrow> (('w, 'b, 'g, 'z) vol_world, GroupAllocator) vio" where
  "load_allocator env allocator s = do {
     ((r, a), s') \<leftarrow> read_all (volume_blocks env) allocator s;
     (case r of
        Inl e \<Rightarrow> do { _ \<leftarrow> allocator_drop (ex_align env) a; Some (Inl e, s') }
      | Inr _ \<Rightarrow> Some (Inr a, s'))
   }"

text \<open>
  The code returns a mutable reference into the cache. Here the operation returns the allocator,
  and \<open>put_block_allocator\<close> stores what the caller has made of it.
\<close>

definition put_block_allocator :: "('w, 'b, 'g) Ext2Env \<Rightarrow> nat \<Rightarrow> BlockAllocator \<Rightarrow> (('w, 'b, 'g, 'z) vol_world, unit) vio" where
  "put_block_allocator env g a = io_modify (\<lambda>(w, v).
     (w, v\<lparr>ev_group_block_bitmap_caches := lru_set (ex_groups env) g a (ev_group_block_bitmap_caches v)\<rparr>))"

definition put_inode_allocator :: "('w, 'b, 'g) Ext2Env \<Rightarrow> nat \<Rightarrow> InodeAllocator \<Rightarrow> (('w, 'b, 'g, 'z) vol_world, unit) vio" where
  "put_inode_allocator env g a = io_modify (\<lambda>(w, v).
     (w, v\<lparr>ev_group_inode_bitmap_caches := lru_set (ex_groups env) g a (ev_group_inode_bitmap_caches v)\<rparr>))"

definition cached_block_allocator :: "('w, 'b, 'g) Ext2Env \<Rightarrow> nat \<Rightarrow> (('w, 'b, 'g, 'z) vol_world, BlockAllocator option) vio" where
  "cached_block_allocator env g = (\<lambda>(w, v).
     let (hit, cache) = lru_get (ex_groups env) g (ev_group_block_bitmap_caches v)
     in io_ok hit (w, v\<lparr>ev_group_block_bitmap_caches := cache\<rparr>))"

definition cached_inode_allocator :: "('w, 'b, 'g) Ext2Env \<Rightarrow> nat \<Rightarrow> (('w, 'b, 'g, 'z) vol_world, InodeAllocator option) vio" where
  "cached_inode_allocator env g = (\<lambda>(w, v).
     let (hit, cache) = lru_get (ex_groups env) g (ev_group_inode_bitmap_caches v)
     in io_ok hit (w, v\<lparr>ev_group_inode_bitmap_caches := cache\<rparr>))"

definition new_block_allocator :: "('w, 'b, 'g) Ext2Env \<Rightarrow> ('b, 'g, 'z) Ext2Volume_scheme \<Rightarrow> nat \<Rightarrow> BlockGroupDescriptor \<Rightarrow> BlockAllocator panics" where
  "new_block_allocator env v g descriptor = do {
     a \<leftarrow> mul32 g (ev_blocks_per_group v);
     min_block \<leftarrow> add32 a 1;
     b \<leftarrow> add32 min_block (ev_blocks_per_group v);
     let max_block = min b (ev_block_count v);
     blocks \<leftarrow> sub64 max_block min_block;
     let bitmap_begin = unat (gd_block_usage_bitmap descriptor);
     let bitmap_bytes = div_ceil blocks 8;
     _ \<leftarrow> assert_rust (ev_block_size v \<noteq> 0);
     let bitmap_blocks = div_ceil bitmap_bytes (ev_block_size v);
     bitmap_end \<leftarrow> add32 bitmap_begin bitmap_blocks;
     block_allocator_new (ex_uninit env) min_block max_block bitmap_begin bitmap_end (ev_block_size v)
   }"

definition new_inode_allocator :: "('w, 'b, 'g) Ext2Env \<Rightarrow> ('b, 'g, 'z) Ext2Volume_scheme \<Rightarrow> nat \<Rightarrow> BlockGroupDescriptor \<Rightarrow> InodeAllocator panics" where
  "new_inode_allocator env v g descriptor = do {
     (min_inode, max_inode) \<leftarrow> get_inode_range_for_group (ev_superblock v) g;
     inodes \<leftarrow> sub64 max_inode min_inode;
     let bitmap_begin = unat (gd_inode_usage_bitmap descriptor);
     let bitmap_bytes = div_ceil inodes 8;
     _ \<leftarrow> assert_rust (ev_block_size v \<noteq> 0);
     let bitmap_blocks = div_ceil bitmap_bytes (ev_block_size v);
     bitmap_end \<leftarrow> add32 bitmap_begin bitmap_blocks;
     inode_allocator_new (ex_uninit env) min_inode max_inode bitmap_begin bitmap_end (ev_block_size v)
   }"

definition get_block_allocator_for_group :: "('w, 'b, 'g) Ext2Env \<Rightarrow> nat \<Rightarrow> (('w, 'b, 'g, 'z) vol_world, BlockAllocator option) vio" where
  "get_block_allocator_for_group env g = (\<lambda>(w, v).
     if ev_read_only v then io_ok None (w, v)
     else io_bind (cached_block_allocator env g) (\<lambda>hit.
       case hit of
         Some a \<Rightarrow> io_ok (Some a)
       | None \<Rightarrow>
           (case get_block_group_descriptor v g of
              None \<Rightarrow> io_ok None
            | Some descriptor \<Rightarrow>
                io_bind (io_panics (new_block_allocator env v g descriptor)) (\<lambda>allocator.
                io_bind (load_allocator env allocator) (\<lambda>a.
                io_bind (\<lambda>(w, v). let (evicted, cache) = lru_push (ex_groups env) g a (ev_group_block_bitmap_caches v)
                                  in io_ok evicted (w, v\<lparr>ev_group_block_bitmap_caches := cache\<rparr>)) (\<lambda>evicted.
                io_bind (case evicted of None \<Rightarrow> io_ok () | Some (k, old) \<Rightarrow> handle_evicted_block_bitmap_cache env k old) (\<lambda>_.
                cached_block_allocator env g)))))) (w, v))"

definition get_inode_allocator_for_group :: "('w, 'b, 'g) Ext2Env \<Rightarrow> nat \<Rightarrow> (('w, 'b, 'g, 'z) vol_world, InodeAllocator option) vio" where
  "get_inode_allocator_for_group env g = (\<lambda>(w, v).
     if ev_read_only v then io_ok None (w, v)
     else io_bind (cached_inode_allocator env g) (\<lambda>hit.
       case hit of
         Some a \<Rightarrow> io_ok (Some a)
       | None \<Rightarrow>
           (case get_block_group_descriptor v g of
              None \<Rightarrow> io_ok None
            | Some descriptor \<Rightarrow>
                io_bind (io_panics (new_inode_allocator env v g descriptor)) (\<lambda>allocator.
                io_bind (load_allocator env allocator) (\<lambda>a.
                io_bind (\<lambda>(w, v). let (evicted, cache) = lru_push (ex_groups env) g a (ev_group_inode_bitmap_caches v)
                                  in io_ok evicted (w, v\<lparr>ev_group_inode_bitmap_caches := cache\<rparr>)) (\<lambda>evicted.
                io_bind (case evicted of None \<Rightarrow> io_ok () | Some (k, old) \<Rightarrow> handle_evicted_inode_bitmap_cache env k old) (\<lambda>_.
                cached_inode_allocator env g)))))) (w, v))"

definition flush_block_bitmap_cache :: "('w, 'b, 'g) Ext2Env \<Rightarrow> nat \<Rightarrow> (('w, 'b, 'g, 'z) vol_world, unit) vio" where
  "flush_block_bitmap_cache env g = (\<lambda>(w, v).
     let (popped, cache) = lru_pop (ex_groups env) g (ev_group_block_bitmap_caches v); s = (w, v\<lparr>ev_group_block_bitmap_caches := cache\<rparr>)
     in case popped of None \<Rightarrow> io_ok () s | Some allocator \<Rightarrow> handle_evicted_block_bitmap_cache env g allocator s)"

definition flush_inode_bitmap_cache :: "('w, 'b, 'g) Ext2Env \<Rightarrow> nat \<Rightarrow> (('w, 'b, 'g, 'z) vol_world, unit) vio" where
  "flush_inode_bitmap_cache env g = (\<lambda>(w, v).
     let (popped, cache) = lru_pop (ex_groups env) g (ev_group_inode_bitmap_caches v); s = (w, v\<lparr>ev_group_inode_bitmap_caches := cache\<rparr>)
     in case popped of None \<Rightarrow> io_ok () s | Some allocator \<Rightarrow> handle_evicted_inode_bitmap_cache env g allocator s)"

text \<open>An operation of an allocator through the reference; its own result is a value here.\<close>

definition run_allocator :: "('r \<times> GroupAllocator) panics \<Rightarrow> (GroupAllocator \<Rightarrow> ('w, unit) vio) \<Rightarrow> ('w, 'r) vio" where
  "run_allocator m put = io_bind (io_panics m) (\<lambda>(r, a). io_bind (put a) (\<lambda>_. io_ok r))"

fun alloc_block_in :: "('w, 'b, 'g) Ext2Env \<Rightarrow> nat list \<Rightarrow> (('w, 'b, 'g, 'z) vol_world, nat) vio" where
  "alloc_block_in env [] = io_err OutOfSpace"
| "alloc_block_in env (g # gs) =
     io_bind (get_block_allocator_for_group env g) (\<lambda>found.
       case found of
         None \<Rightarrow> alloc_block_in env gs
       | Some a \<Rightarrow> io_bind (run_allocator (alloc_block (ex_align env) a) (put_block_allocator env g)) (\<lambda>r.
           case r of Inr block \<Rightarrow> io_ok block | Inl _ \<Rightarrow> alloc_block_in env gs))"

definition alloc_block_any :: "('w, 'b, 'g) Ext2Env \<Rightarrow> (('w, 'b, 'g, 'z) vol_world, nat) vio" where
  "alloc_block_any env = (\<lambda>(w, v). alloc_block_in env [0..<ev_block_group_count v] (w, v))"

fun alloc_inode_in :: "('w, 'b, 'g) Ext2Env \<Rightarrow> nat list \<Rightarrow> (('w, 'b, 'g, 'z) vol_world, nat) vio" where
  "alloc_inode_in env [] = io_err OutOfSpace"
| "alloc_inode_in env (g # gs) =
     io_bind (get_inode_allocator_for_group env g) (\<lambda>found.
       case found of
         None \<Rightarrow> alloc_inode_in env gs
       | Some a \<Rightarrow> io_bind (run_allocator (alloc_inode (ex_align env) a) (put_inode_allocator env g)) (\<lambda>r.
           case r of Inr inode \<Rightarrow> io_ok inode | Inl _ \<Rightarrow> alloc_inode_in env gs))"

definition alloc_inode_any :: "('w, 'b, 'g) Ext2Env \<Rightarrow> (('w, 'b, 'g, 'z) vol_world, nat) vio" where
  "alloc_inode_any env = (\<lambda>(w, v). alloc_inode_in env [0..<ev_block_group_count v] (w, v))"

definition ext2_flush :: "('w, 'b, 'g) Ext2Env \<Rightarrow> (('w, 'b, 'g, 'z) vol_world, unit) vio" where
  "ext2_flush env =
     io_bind (io_get (\<lambda>(w, v). lru_keys (ex_groups env) (ev_group_block_bitmap_caches v))) (\<lambda>groups.
     io_bind (io_for groups (flush_block_bitmap_cache env)) (\<lambda>_.
     io_bind (io_get (\<lambda>(w, v). lru_keys (ex_groups env) (ev_group_inode_bitmap_caches v))) (\<lambda>groups.
     io_bind (io_for groups (flush_inode_bitmap_cache env)) (\<lambda>_.
     device_flush env))))"

definition ext2_device :: "('w, 'b, 'g) Ext2Env \<Rightarrow> ('w, 'b, 'g, 'z) vol_world BlockDevice" where
  "ext2_device env = ext2_blocks env (ext2_flush env)"

text \<open>\<^verbatim>\<open>Drop\<close>: the volume is flushed and the result ignored, then the device file is closed.\<close>

definition volume_drop :: "('w, 'b, 'g) Ext2Env \<Rightarrow> ('w, 'b, 'g, 'z) vol_world \<Rightarrow> 'w panics" where
  "volume_drop env s = do { (_, w, v) \<leftarrow> ext2_flush env s; file_drop (ex_ops env) (ev_device v) w }"

section \<open>Opening a volume\<close>

definition superblock_from_device :: "'w FsOps \<Rightarrow> File \<Rightarrow> ('w, Superblock) vio" where
  "superblock_from_device ops device =
     io_bind (file_seek ops device (FromStart 1024)) (\<lambda>_.
     io_bind (file_read ops device (replicate 1024 0)) (\<lambda>(_, data). io_ok (superblock_read data)))"

definition parse_descriptors :: "nat \<Rightarrow> u8 list \<Rightarrow> BlockGroupDescriptor list vresult panics" where
  "parse_descriptors entry_count table =
     fold_panics (\<lambda>i r. case r of
         Inl e \<Rightarrow> Some (Inl e)
       | Inr ds \<Rightarrow> do {
           bytes \<leftarrow> slice_get table (i * BLOCK_GROUP_DESCRIPTOR_SIZE) ((i + 1) * BLOCK_GROUP_DESCRIPTOR_SIZE);
           Some (case descriptor_from_bytes bytes of None \<Rightarrow> Inl (ext2_error BadBlockGroupDescriptorTable) | Some d \<Rightarrow> Inr (ds @ [d]))
         }) [0..<entry_count] (Inr [])"

definition read_block_group_descriptor_table :: "('w, 'b, 'g) Ext2Env \<Rightarrow> (('w, 'b, 'g, 'z) vol_world, unit) vio" where
  "read_block_group_descriptor_table env = (\<lambda>(w, v). do {
     let entry_count = ev_block_group_count v;
     table_size \<leftarrow> mul32 entry_count BLOCK_GROUP_DESCRIPTOR_SIZE;
     let start_byte = (if ev_block_size v = 1024 then 2048 else ev_block_size v);
     io_bind (device_seek env (FromStart start_byte)) (\<lambda>_.
     io_bind (device_read env (replicate table_size 0)) (\<lambda>(_, table).
     io_bind (io_panics (parse_descriptors entry_count table)) (\<lambda>r.
     io_bind (io_result r) (\<lambda>ds.
     io_modify (\<lambda>(w, v). (w, v\<lparr>ev_block_group_descriptor_table := ev_block_group_descriptor_table v @ ds\<rparr>)))))) (w, v)
   })"

text \<open>The checks of a superblock against the device, and the geometry they leave: block size, group count, inode size.\<close>

definition check_superblock :: "File \<Rightarrow> nat \<Rightarrow> Superblock \<Rightarrow> (Ext2Error + bool \<times> nat \<times> nat \<times> nat) panics" where
  "check_superblock device device_size sp =
     (if sp_signature sp \<noteq> SUPERBLOCK_SIGNATURE then Some (Inl (BadSuperblockMagic (sp_signature sp)))
      else do {
        _ \<leftarrow> assert_rust (unat (sp_log_block_size sp) < 32);
        let block_size = (1024 * 2 ^ unat (sp_log_block_size sp)) mod 2 ^ 32;
        let block_count = unat (sp_blocks_count sp);
        expected \<leftarrow> mul64 block_size block_count;
        let required = sp_required_features sp;
        let ro = sp_readonly_or_support_features sp;
        let read_only = (f_mode device AND OPEN_MODE_WRITE = 0 \<or> ro AND supported_ro_features \<noteq> ro);
        let inode_size = (if 1 \<le> unat (sp_major_version_level sp) then unat (sp_inode_struct_size sp) else 128);
        Some (if device_size \<noteq> expected then Inl (BadDeviceSize expected device_size)
          else if required AND supported_required_features \<noteq> required
          then Inl (UnsupportedRequiredFeatures supported_required_features required (required AND NOT supported_required_features))
          else (case count_block_groups sp of
             Inl e \<Rightarrow> Inl e
           | Inr block_group_count \<Rightarrow>
               (if inode_size = 0 then Inl (BadSuperblock ''inode_size == 0'' sp)
                else if block_size div inode_size = 0 then Inl (BadSuperblock ''inodes_per_block == 0'' sp)
                else if sp_blocks_per_group sp = 0 then Inl (BadSuperblock ''blocks_per_group == 0'' sp)
                else Inr (read_only, block_size, block_group_count, inode_size))))
      })"

definition new_volume ::
    "('w, 'b, 'g) Ext2Env \<Rightarrow> File \<Rightarrow> Superblock \<Rightarrow> nat \<Rightarrow> nat \<Rightarrow> nat \<Rightarrow> bool \<times> nat \<times> nat \<times> nat \<Rightarrow> ('b, 'g) Ext2Volume panics" where
  "new_volume env device sp block_cache_size block_bitmaps_size inode_bitmaps_size = (\<lambda>(read_only, block_size, block_group_count, inode_size). do {
     let blocks_per_group = unat (sp_blocks_per_group sp);
     bitmap_size \<leftarrow> group_bitmap_size blocks_per_group block_size;
     Some \<lparr>ev_device = device, ev_read_only = read_only, ev_superblock = sp, ev_block_size = block_size,
       ev_sectors_per_block = block_size div 512, ev_block_count = unat (sp_blocks_count sp),
       ev_block_group_count = block_group_count, ev_blocks_per_group = blocks_per_group, ev_block_group_descriptor_table = [],
       ev_inode_size = inode_size, ev_inodes_per_block = block_size div inode_size,
       ev_block_cache = lru_new (ex_blocks env) (div_ceil block_cache_size block_size),
       ev_group_block_bitmap_caches = lru_new (ex_groups env) (div_ceil block_bitmaps_size bitmap_size),
       ev_group_inode_bitmap_caches = lru_new (ex_groups env) (div_ceil inode_bitmaps_size bitmap_size)\<rparr>
   })"

text \<open>The device file is owned: it is closed when the volume cannot be opened.\<close>

definition volume_from_device ::
    "('w, 'b, 'g) Ext2Env \<Rightarrow> File \<Rightarrow> nat \<Rightarrow> nat \<Rightarrow> nat \<Rightarrow> ('w, ('b, 'g) Ext2Volume) vio" where
  "volume_from_device env device block_cache_size block_bitmaps_size inode_bitmaps_size w =
     (case (if f_mode device AND OPEN_MODE_READ = 0 \<or> f_mode device AND OPEN_MODE_APPEND = OPEN_MODE_APPEND then io_err InvalidOpenMode
            else io_bind (file_stats (ex_ops env) device) (\<lambda>stats.
                 io_bind (superblock_from_device (ex_ops env) device) (\<lambda>sp.
                 io_bind (io_panics (check_superblock device (st_size stats) sp)) (\<lambda>checked.
                 case checked of
                   Inl e \<Rightarrow> io_err (ext2_error e)
                 | Inr geometry \<Rightarrow> io_panics (new_volume env device sp block_cache_size block_bitmaps_size inode_bitmaps_size geometry))))) w of
        None \<Rightarrow> None
      | Some (Inl e, w1) \<Rightarrow> do { w2 \<leftarrow> file_drop (ex_ops env) device w1; Some (Inl e, w2) }
      | Some (Inr v, w1) \<Rightarrow>
          (case read_block_group_descriptor_table env (w1, v) of
             None \<Rightarrow> None
           | Some (Inl e, s) \<Rightarrow> do { w2 \<leftarrow> volume_drop env s; Some (Inl e, w2) }
           | Some (Inr _, w2, v2) \<Rightarrow> Some (Inr v2, w2)))"

end
