(* ===== verification/Ext2_Blocks.thy ===== *)
theory Ext2_Blocks
  imports Ext2_Volume
begin

text \<open>
  The contracts a volume is built on, and the volume as a block device. \<open>byte_file\<close> is what the
  volume needs of its device file, \<open>lru_cache\<close> what the crate \<^verbatim>\<open>lru\<close> documents of a cache
  with room for at least one entry. On both, a volume whose cached blocks agree with the device is a
  \<open>block_device\<close>: the cache is transparent.
\<close>

section \<open>Contracts\<close>

locale byte_file =
  fixes ops :: "'w FsOps" and f :: File and bytes :: "'w \<Rightarrow> u8 list" and pos :: "'w \<Rightarrow> nat" and fok :: "'w \<Rightarrow> bool"
  assumes seek_law: "fok w \<Longrightarrow> p \<le> length (bytes w) \<Longrightarrow>
      \<exists>w'. file_seek ops f (FromStart p) w = Some (Inr p, w') \<and> fok w' \<and> bytes w' = bytes w \<and> pos w' = p"
    and read_law: "fok w \<Longrightarrow> pos w + length buf \<le> length (bytes w) \<Longrightarrow>
      \<exists>w'. file_read ops f buf w = Some (Inr (length buf, slice_of (bytes w) (pos w) (pos w + length buf)), w') \<and>
        fok w' \<and> bytes w' = bytes w"
    and write_law: "fok w \<Longrightarrow> pos w + length buf \<le> length (bytes w) \<Longrightarrow>
      \<exists>w'. file_write ops f buf w = Some (Inr (length buf), w') \<and> fok w' \<and> bytes w' = splice_at (bytes w) (pos w) buf"

locale lru_cache =
  fixes L :: "('c, 'v) LruOps" and view :: "'c \<Rightarrow> nat \<rightharpoonup> 'v"
  assumes new_view: "0 < n \<Longrightarrow> view (lru_new L n) = Map.empty"
    and get_view: "lru_get L k c = (hit, c') \<Longrightarrow> hit = view c k \<and> view c' = view c"
    and set_view: "view c k \<noteq> None \<Longrightarrow> view (lru_set L k x c) = (view c)(k \<mapsto> x)"
    and push_view: "lru_push L k x c = (old, c') \<Longrightarrow>
      (case old of
         None \<Rightarrow> view c k = None \<and> view c' = (view c)(k \<mapsto> x)
       | Some (j, y) \<Rightarrow> view c j = Some y \<and> (view c k \<noteq> None \<longrightarrow> j = k) \<and> view c' = (view c)(j := None, k \<mapsto> x))"
    and pop_view: "lru_pop L k c = (hit, c') \<Longrightarrow> hit = view c k \<and> view c' = (view c)(k := None)"
    and keys_view: "set (lru_keys L c) = dom (view c) \<and> distinct (lru_keys L c)"

section \<open>A cache\<close>

text \<open>
  A cache that meets the contract: an association list in the order of use and the number of
  entries beside the newest one it may hold.
\<close>

definition alist_lru :: "(nat \<times> (nat \<times> 'v) list, 'v) LruOps" where
  "alist_lru =
     \<lparr>lru_new = (\<lambda>n. (n - 1, [])),
      lru_get = (\<lambda>k (m, xs). case map_of xs k of None \<Rightarrow> (None, m, xs) | Some x \<Rightarrow> (Some x, m, (k, x) # filter (\<lambda>p. fst p \<noteq> k) xs)),
      lru_set = (\<lambda>k x (m, xs). (m, (k, x) # filter (\<lambda>p. fst p \<noteq> k) xs)),
      lru_push = (\<lambda>k x (m, xs).
        case map_of xs k of
          Some y \<Rightarrow> (Some (k, y), m, (k, x) # filter (\<lambda>p. fst p \<noteq> k) xs)
        | None \<Rightarrow>
            (if length xs \<le> m then (None, m, (k, x) # xs)
             else let j = fst (last xs) in (Some (j, the (map_of xs j)), m, (k, x) # filter (\<lambda>p. fst p \<noteq> j) xs))),
      lru_pop = (\<lambda>k (m, xs). (map_of xs k, m, filter (\<lambda>p. fst p \<noteq> k) xs)),
      lru_keys = (\<lambda>(m, xs). remdups (map fst xs))\<rparr>"

definition alist_view :: "nat \<times> (nat \<times> 'v) list \<Rightarrow> nat \<rightharpoonup> 'v" where
  "alist_view c = map_of (snd c)"

lemma map_of_filter_key: "map_of (filter (\<lambda>p. fst p \<noteq> k) xs) = (map_of xs)(k := None)"
  by (induction xs) (auto simp: fun_eq_iff)

lemma map_of_last: "xs \<noteq> [] \<Longrightarrow> \<exists>y. map_of xs (fst (last xs)) = Some y"
proof -
  assume "xs \<noteq> []"
  then have "fst (last xs) \<in> fst ` set xs" by simp
  then show ?thesis by (metis dom_map_of_conv_image_fst domD)
qed

interpretation alru: lru_cache alist_lru alist_view
proof
  show "case old of
      None \<Rightarrow> alist_view c k = None \<and> alist_view c' = (alist_view c)(k \<mapsto> x)
    | Some (j, y) \<Rightarrow> alist_view c j = Some y \<and> (alist_view c k \<noteq> None \<longrightarrow> j = k) \<and> alist_view c' = (alist_view c)(j := None, k \<mapsto> x)"
    if "lru_push alist_lru k x c = (old, c')" for k old c c' and x :: 'v
  proof -
    obtain m xs where c: "c = (m, xs)" by force
    have "xs \<noteq> []" if "\<not> length xs \<le> m" using that by auto
    then show ?thesis using that map_of_last [of xs]
      by (auto simp: c alist_lru_def alist_view_def map_of_filter_key Let_def split: option.splits if_splits)
  qed
  show "set (lru_keys alist_lru c) = dom (alist_view c) \<and> distinct (lru_keys alist_lru c)" for c :: "nat \<times> (nat \<times> 'v) list"
    by (cases c) (simp add: alist_lru_def alist_view_def dom_map_of_conv_image_fst)
qed (auto simp: alist_lru_def alist_view_def map_of_filter_key fun_eq_iff split: option.splits)

section \<open>Bytes as blocks\<close>

definition chunks :: "nat \<Rightarrow> nat \<Rightarrow> 'a list \<Rightarrow> 'a list list" where
  "chunks bs n xs = map (\<lambda>i. slice_of xs (i * bs) ((i + 1) * bs)) [0..<n]"

lemma length_chunks [simp]: "length (chunks bs n xs) = n"
  by (simp add: chunks_def)

lemma nth_chunks [simp]: "i < n \<Longrightarrow> chunks bs n xs ! i = slice_of xs (i * bs) ((i + 1) * bs)"
  by (simp add: chunks_def)

lemma chunk_end: "(i :: nat) < n \<Longrightarrow> bs + i * bs \<le> n * bs"
  using mult_le_mono1 [of "Suc i" n bs] by simp

lemma uniform_chunks: "length xs = n * bs \<Longrightarrow> uniform bs (chunks bs n xs)"
  by (auto simp: uniform_def chunks_def length_slice chunk_end)

lemma chunks_splice:
  assumes "length xs = n * bs" "length b = bs" "lba < n"
  shows "chunks bs n (splice_at xs (lba * bs) b) = (chunks bs n xs)[lba := b]"
proof (rule nth_equalityI)
  fix i assume "i < length (chunks bs n (splice_at xs (lba * bs) b))"
  then have i: "i < n" by simp
  have fit: "lba * bs + length b \<le> length xs" using assms chunk_end [OF assms(3), of bs] by simp
  have le: "i * bs + bs \<le> length xs" using i assms(1) chunk_end [OF i, of bs] by simp
  show "chunks bs n (splice_at xs (lba * bs) b) ! i = (chunks bs n xs)[lba := b] ! i"
  proof (rule nth_equalityI)
    show "length (chunks bs n (splice_at xs (lba * bs) b) ! i) = length ((chunks bs n xs)[lba := b] ! i)"
      using i le fit assms by (simp add: nth_list_update length_slice length_splice_at add.commute)
  next
    fix k assume "k < length (chunks bs n (splice_at xs (lba * bs) b) ! i)"
    then have k: "k < bs" using i le fit by (simp add: length_slice length_splice_at add.commute)
    have "lba * bs \<le> i * bs + k \<and> i * bs + k < lba * bs + bs \<longleftrightarrow> i = lba"
      using k mult_le_mono1 [of "Suc i" lba bs] mult_le_mono1 [of "Suc lba" i bs] by (cases i lba rule: linorder_cases) auto
    then show "chunks bs n (splice_at xs (lba * bs) b) ! i ! k = (chunks bs n xs)[lba := b] ! i ! k"
      using i k le fit assms(2) by (auto simp: nth_list_update nth_slice nth_splice_at length_splice_at add.commute)
  qed
qed simp

section \<open>The volume\<close>

text \<open>The blocks of a volume, and a volume that is usable: writable, as large as its device says, with a coherent cache.\<close>

definition volume_disk :: "('w \<Rightarrow> u8 list) \<Rightarrow> ('w, 'b, 'g, 'z) vol_world \<Rightarrow> u8 list list" where
  "volume_disk bytes = (\<lambda>(w, v). chunks (ev_block_size v) (ev_block_count v) (bytes w))"

definition volume_geometry :: "('w \<Rightarrow> u8 list) \<Rightarrow> File \<Rightarrow> nat \<Rightarrow> 'w \<Rightarrow> ('b, 'g, 'z) Ext2Volume_scheme \<Rightarrow> bool" where
  "volume_geometry bytes f bs w v \<longleftrightarrow> ev_device v = f \<and> ev_block_size v = bs \<and> \<not> ev_read_only v \<and>
     length (bytes w) = ev_block_count v * bs \<and> ev_block_count v * bs < 2 ^ 64 \<and> ev_block_count v < 2 ^ 32"

definition cache_coherent :: "('b \<Rightarrow> nat \<rightharpoonup> u8 list) \<Rightarrow> u8 list list \<Rightarrow> ('b, 'g, 'z) Ext2Volume_scheme \<Rightarrow> bool" where
  "cache_coherent view disk v \<longleftrightarrow> (\<forall>k b. view (ev_block_cache v) k = Some b \<longrightarrow> k < length disk \<and> b = disk ! k)"

definition volume_ok ::
    "('w \<Rightarrow> bool) \<Rightarrow> ('w \<Rightarrow> u8 list) \<Rightarrow> File \<Rightarrow> ('b \<Rightarrow> nat \<rightharpoonup> u8 list) \<Rightarrow> nat \<Rightarrow> ('w, 'b, 'g, 'z) vol_world \<Rightarrow> bool" where
  "volume_ok fok bytes f view bs = (\<lambda>(w, v).
     fok w \<and> volume_geometry bytes f bs w v \<and> cache_coherent view (volume_disk bytes (w, v)) v)"

lemma volume_disk_unfold: "volume_disk bytes (w, v) = chunks (ev_block_size v) (ev_block_count v) (bytes w)"
  by (simp add: volume_disk_def)

lemma geometry_simps [simp]:
  "volume_geometry bytes f bs w (v\<lparr>ev_block_cache := c\<rparr>) = volume_geometry bytes f bs w v"
  "volume_disk bytes (w, v\<lparr>ev_block_cache := c\<rparr>) = volume_disk bytes (w, v)"
  by (simp_all add: volume_geometry_def volume_disk_def)

lemma coherent_hit: "cache_coherent view disk v \<Longrightarrow> view (ev_block_cache v) k = Some b \<Longrightarrow> k < length disk \<and> b = disk ! k"
  by (simp add: cache_coherent_def)

locale ext2_on_file =
  dev: byte_file "ex_ops env" f bytes pos fok + blk: lru_cache "ex_blocks env" view
  for env :: "('w, 'b, 'g) Ext2Env" and f :: File and bytes :: "'w \<Rightarrow> u8 list" and pos fok view +
  fixes bs :: nat
  assumes bs_positive: "0 < bs"
begin

abbreviation ok :: "('w, 'b, 'g, 'z) vol_world \<Rightarrow> bool" where
  "ok \<equiv> volume_ok fok bytes f view bs"

lemma offset_fits:
  assumes "volume_geometry bytes f bs w v" "lba < ev_block_count v"
  shows "mul64 bs lba = Some (lba * bs)" "lba * bs + bs \<le> length (bytes w)"
proof -
  have "lba * bs + bs \<le> ev_block_count v * bs" using chunk_end [OF assms(2), of bs] by simp
  then show "mul64 bs lba = Some (lba * bs)" "lba * bs + bs \<le> length (bytes w)"
    using assms(1) bs_positive by (simp_all add: volume_geometry_def mul64_def mult.commute)
qed

lemma seek_device:
  assumes "fok w" "ev_device v = f" "p \<le> length (bytes w)"
  obtains w' where "device_seek env (FromStart p) (w, v) = Some (Inr p, w', v)" "fok w'" "bytes w' = bytes w" "pos w' = p"
  using dev.seek_law [OF assms(1,3)] assms(2) by (auto simp: device_seek_def on_fst_def)

lemma read_device:
  assumes "fok w" "ev_device v = f" "pos w + length buf \<le> length (bytes w)"
  obtains w' where "device_read env buf (w, v) = Some (Inr (length buf, slice_of (bytes w) (pos w) (pos w + length buf)), w', v)"
    "fok w'" "bytes w' = bytes w"
  using dev.read_law [OF assms(1,3)] assms(2) by (auto simp: device_read_def on_fst_def)

lemma write_device:
  assumes "fok w" "ev_device v = f" "pos w + length buf \<le> length (bytes w)"
  obtains w' where "device_write env buf (w, v) = Some (Inr (length buf), w', v)" "fok w'" "bytes w' = splice_at (bytes w) (pos w) buf"
  using dev.write_law [OF assms(1,3)] assms(2) by (auto simp: device_write_def on_fst_def)

lemma read_block_disk:
  assumes "ok (w, v)" "lba < ev_block_count v" "length buf = bs"
  shows "\<exists>w' c. ext2_read_block env lba buf (w, v) = Some ((Inr bs, volume_disk bytes (w, v) ! lba), w', v\<lparr>ev_block_cache := c\<rparr>) \<and>
    ok (w', v\<lparr>ev_block_cache := c\<rparr>) \<and> bytes w' = bytes w"
proof -
  have fo: "fok w" and geo: "volume_geometry bytes f bs w v" and coh: "cache_coherent view (volume_disk bytes (w, v)) v"
    using assms(1) by (simp_all add: volume_ok_def)
  have g: "ev_device v = f" "ev_block_size v = bs" "lba mod 2 ^ 32 = lba"
    using geo assms(2) by (simp_all add: volume_geometry_def)
  note off = offset_fits [OF geo assms(2)]
  have disk: "volume_disk bytes (w, v) ! lba = slice_of (bytes w) (lba * bs) (lba * bs + bs)"
    using assms(2) g(2) by (simp add: volume_disk_def add.commute)
  obtain hit c where c: "lru_get (ex_blocks env) lba (ev_block_cache v) = (hit, c)" by force
  have cv: "hit = view (ev_block_cache v) lba" "view c = view (ev_block_cache v)" using blk.get_view [OF c] by simp_all
  show ?thesis
  proof (cases hit)
    case (Some data)
    then have data: "data = volume_disk bytes (w, v) ! lba" using coherent_hit [OF coh] cv(1) by simp
    have len: "length data = bs" using data disk off(2) by (simp add: length_slice)
    have "ok (w, v\<lparr>ev_block_cache := c\<rparr>)" using assms(1) cv(2) by (simp add: volume_ok_def cache_coherent_def)
    moreover have "splice_at buf 0 data = data" using len assms(3) by (simp add: splice_at_def)
    ultimately show ?thesis using Some c g len assms(2,3) data
      by (intro exI [of _ w] exI [of _ c]) (simp add: ext2_read_block_def copy_from_slice_def)
  next
    case None
    let ?v = "v\<lparr>ev_block_cache := c\<rparr>" and ?buf = "alloc_boxed_slice (ex_uninit env) bs"
    obtain w1 where w1: "device_seek env (FromStart (lba * bs)) (w, ?v) = Some (Inr (lba * bs), w1, ?v)" "fok w1" "bytes w1 = bytes w"
        "pos w1 = lba * bs"
      by (rule seek_device [OF fo, of ?v "lba * bs"]) (use g off in simp_all)
    obtain w2 where w2: "device_read env ?buf (w1, ?v) = Some (Inr (bs, volume_disk bytes (w, v) ! lba), w2, ?v)" "fok w2" "bytes w2 = bytes w"
      by (rule read_device [OF w1(2), of ?v ?buf]) (use g off w1 disk in simp_all)
    let ?c = "snd (lru_push (ex_blocks env) lba (volume_disk bytes (w, v) ! lba) c)"
    have len: "length (volume_disk bytes (w, v) ! lba) = bs" using disk off(2) by (simp add: length_slice)
    have "ext2_read_block env lba buf (w, v) = Some ((Inr bs, volume_disk bytes (w, v) ! lba), w2, v\<lparr>ev_block_cache := ?c\<rparr>)"
      using None c g assms(2,3) w1(1) w2(1) off(1) len
      by (simp add: ext2_read_block_def Let_def slice_get_def copy_from_slice_def slice_whole splice_at_def del: bind_eq_Some_iff)
    moreover have "cache_coherent view (volume_disk bytes (w2, v)) (v\<lparr>ev_block_cache := ?c\<rparr>)"
    proof -
      obtain old c' where p: "lru_push (ex_blocks env) lba (volume_disk bytes (w, v) ! lba) c = (old, c')" by force
      have "view c' k = Some b \<Longrightarrow> k = lba \<and> b = volume_disk bytes (w, v) ! lba \<or> view (ev_block_cache v) k = Some b" for k b
        using blk.push_view [OF p] cv(2) by (auto split: option.splits if_splits prod.splits)
      moreover have "volume_disk bytes (w2, v) = volume_disk bytes (w, v)" "length (volume_disk bytes (w, v)) = ev_block_count v"
        using w2(3) by (simp_all add: volume_disk_def)
      ultimately show ?thesis using p assms(2) coherent_hit [OF coh] unfolding cache_coherent_def by (auto simp del: nth_chunks)
    qed
    then have "ok (w2, v\<lparr>ev_block_cache := ?c\<rparr>)" using w2(2,3) geo by (simp add: volume_ok_def volume_geometry_def)
    ultimately show ?thesis using w2(3) by blast
  qed
qed

lemma write_block_disk:
  assumes "ok (w, v)" "lba < ev_block_count v" "length b = bs"
  shows "\<exists>w' c. ext2_write_block env lba b (w, v) = Some (Inr bs, w', v\<lparr>ev_block_cache := c\<rparr>) \<and> ok (w', v\<lparr>ev_block_cache := c\<rparr>) \<and>
    bytes w' = splice_at (bytes w) (lba * bs) b"
proof -
  have fo: "fok w" and geo: "volume_geometry bytes f bs w v" and coh: "cache_coherent view (volume_disk bytes (w, v)) v"
    using assms(1) by (simp_all add: volume_ok_def)
  have g: "ev_device v = f" "ev_block_size v = bs" "lba mod 2 ^ 32 = lba" "\<not> ev_read_only v" "length (bytes w) = ev_block_count v * bs"
    using geo assms(2) by (simp_all add: volume_geometry_def)
  note off = offset_fits [OF geo assms(2)]
  obtain w1 where w1: "device_seek env (FromStart (lba * bs)) (w, v) = Some (Inr (lba * bs), w1, v)" "fok w1" "bytes w1 = bytes w"
      "pos w1 = lba * bs"
    by (rule seek_device [OF fo g(1), of "lba * bs"]) (use off in simp)
  obtain w2 where w2: "device_write env b (w1, v) = Some (Inr bs, w2, v)" "fok w2" "bytes w2 = splice_at (bytes w) (lba * bs) b"
    by (rule write_device [OF w1(2) g(1), of b]) (use off w1 assms(3) in simp_all)
  have disk: "volume_disk bytes (w2, v) = (volume_disk bytes (w, v))[lba := b]"
    using chunks_splice [OF g(5) assms(3,2)] g(2) w2(3) by (simp add: volume_disk_def)
  obtain hit c where c: "lru_get (ex_blocks env) lba (ev_block_cache v) = (hit, c)" by force
  have cv: "hit = view (ev_block_cache v) lba" "view c = view (ev_block_cache v)" using blk.get_view [OF c] by simp_all
  let ?c = "case hit of None \<Rightarrow> c | Some _ \<Rightarrow> lru_set (ex_blocks env) lba b c"
  have len: "length (volume_disk bytes (w, v) ! lba) = bs" using off(2) assms(2) g(2) by (simp add: volume_disk_def length_slice)
  have eq: "ext2_write_block env lba b (w, v) = Some (Inr bs, w2, v\<lparr>ev_block_cache := ?c\<rparr>)"
  proof (cases hit)
    case None
    then show ?thesis using c g assms(3) w1(1) w2(1) off(1)
      by (simp add: ext2_write_block_def io_bind_def io_ok_def Let_def slice_get_def slice_whole del: bind_eq_Some_iff)
  next
    case (Some data)
    then have "length data = bs" using coherent_hit [OF coh] cv(1) len by simp
    moreover from this have "splice_at data 0 b = b" using assms(3) by (simp add: splice_at_def)
    ultimately show ?thesis using Some c g assms(3) w1(1) w2(1) off(1)
      by (simp add: ext2_write_block_def io_bind_def io_ok_def Let_def slice_get_def slice_whole copy_from_slice_def del: bind_eq_Some_iff)
  qed
  have len2: "length (volume_disk bytes (w, v)) = ev_block_count v" by (simp add: volume_disk_def)
  have cview: "view ?c k = (if k = lba \<and> view (ev_block_cache v) lba \<noteq> None then Some b else view (ev_block_cache v) k)" for k
    using blk.set_view [of c lba b] cv by (auto split: option.splits)
  have "cache_coherent view ((volume_disk bytes (w, v))[lba := b]) (v\<lparr>ev_block_cache := ?c\<rparr>)"
    unfolding cache_coherent_def
  proof (intro allI impI)
    fix k d assume "view (ev_block_cache (v\<lparr>ev_block_cache := ?c\<rparr>)) k = Some d"
    then have a: "view ?c k = Some d" by simp
    show "k < length ((volume_disk bytes (w, v))[lba := b]) \<and> d = (volume_disk bytes (w, v))[lba := b] ! k"
      using a unfolding cview using coherent_hit [OF coh, of k d] assms(2) len2 by (auto simp: nth_list_update split: if_splits)
  qed
  moreover have "volume_geometry bytes f bs w2 v" using geo w2(3) off(2) assms(3) by (simp add: volume_geometry_def length_splice_at)
  ultimately have "ok (w2, v\<lparr>ev_block_cache := ?c\<rparr>)" using disk w2(2) by (simp add: volume_ok_def)
  then show ?thesis using eq w2(3) by blast
qed

end

sublocale ext2_on_file \<subseteq> bdev: block_device "ext2_blocks env flush" bs "volume_disk bytes" "volume_ok fok bytes f view bs"
  for flush :: "(('w, 'b, 'g, 'z) vol_world, unit) vio"
proof
  show "0 < bs" by (rule bs_positive)
next
  fix s :: "('w, 'b, 'g, 'z) vol_world" assume "ok s"
  moreover obtain w v where s: "s = (w, v)" by force
  ultimately have "volume_geometry bytes f bs w v" by (simp add: volume_ok_def)
  then show "bd_block_size (ext2_blocks env flush) s = bs \<and> bd_block_count (ext2_blocks env flush) s = Some (length (volume_disk bytes s)) \<and>
      uniform bs (volume_disk bytes s) \<and> length (volume_disk bytes s) * bs < 2 ^ 64"
    by (simp add: s ext2_blocks_def volume_disk_def volume_geometry_def uniform_chunks)
next
  fix s :: "('w, 'b, 'g, 'z) vol_world" and lba and buf :: "u8 list"
  assume a: "ok s" "lba < length (volume_disk bytes s)" "length buf = bs"
  obtain w v where s: "s = (w, v)" by force
  show "\<exists>w'. bd_read_block (ext2_blocks env flush) lba buf s = Some ((Inr bs, volume_disk bytes s ! lba), w') \<and> ok w' \<and>
      volume_disk bytes w' = volume_disk bytes s"
    using read_block_disk [of w v lba buf] a s by (fastforce simp: ext2_blocks_def volume_disk_def)
next
  fix s :: "('w, 'b, 'g, 'z) vol_world" and lba and b :: "u8 list"
  assume a: "ok s" "lba < length (volume_disk bytes s)" "length b = bs"
  obtain w v where s: "s = (w, v)" by force
  have "length (bytes w) = ev_block_count v * bs" "ev_block_size v = bs" using a(1) s by (simp_all add: volume_ok_def volume_geometry_def)
  then show "\<exists>w'. bd_write_block (ext2_blocks env flush) lba b s = Some (Inr bs, w') \<and> ok w' \<and> volume_disk bytes w' = (volume_disk bytes s)[lba := b]"
    using write_block_disk [of w v lba b] a s chunks_splice [of "bytes w" "ev_block_count v" bs b lba]
    by (fastforce simp: ext2_blocks_def volume_disk_def)
qed

section \<open>Inodes on a volume\<close>

text \<open>
  The inode tables of a volume: every inode has a place in a block of the volume and no two
  inodes share one.
\<close>

definition inode_tables_ok :: "('b, 'g, 'z) Ext2Volume_scheme \<Rightarrow> bool" where
  "inode_tables_ok v \<longleftrightarrow> 128 \<le> ev_inode_size v \<and> ev_inodes_per_block v * ev_inode_size v \<le> ev_block_size v \<and>
     (\<forall>i. 1 \<le> i \<and> i \<le> unat (sp_inodes_count (ev_superblock v)) \<longrightarrow>
        (\<exists>lba offset. inode_position v i = Some (Inr (lba, offset)) \<and> lba < ev_block_count v)) \<and>
     inj_on (inode_position v) {1 .. unat (sp_inodes_count (ev_superblock v))}"

definition raw_inode_at :: "u8 list list \<Rightarrow> nat \<times> nat \<Rightarrow> RawInode" where
  "raw_inode_at disk = (\<lambda>(lba, offset). read_raw_inode (slice_of (disk ! lba) offset (offset + 128)))"

lemma inode_position_offset:
  assumes "inode_position v i = Some (Inr (lba, offset))"
  obtains k where "offset = k * ev_inode_size v" "k < ev_inodes_per_block v"
proof -
  obtain index where "offset = index mod ev_inodes_per_block v * ev_inode_size v" "0 < ev_inodes_per_block v"
    using assms by (auto simp: inode_position_def mul32_def assert_rust_def split: option.splits if_splits)
  then show ?thesis using that [of "index mod ev_inodes_per_block v"] by simp
qed

lemma inode_offset_fits:
  assumes "inode_tables_ok v" "inode_position v i = Some (Inr (lba, offset))"
  shows "offset + 128 \<le> ev_block_size v"
proof -
  obtain k where k: "offset = k * ev_inode_size v" "k < ev_inodes_per_block v" using inode_position_offset [OF assms(2)] .
  have "k * ev_inode_size v + ev_inode_size v \<le> ev_inodes_per_block v * ev_inode_size v"
    using mult_le_mono1 [of "Suc k" "ev_inodes_per_block v" "ev_inode_size v"] k(2) by simp
  then show ?thesis using assms(1) k(1) by (simp add: inode_tables_ok_def)
qed

text \<open>Two places that differ do not overlap.\<close>

lemma inode_places_disjoint:
  assumes "inode_tables_ok v" "inode_position v i = Some (Inr (lba, a))" "inode_position v j = Some (Inr (lba, b))" "a \<noteq> b"
  shows "a + 128 \<le> b \<or> b + 128 \<le> a"
proof -
  obtain k l where k: "a = k * ev_inode_size v" "b = l * ev_inode_size v" using inode_position_offset assms(2,3) by metis
  then have "k < l \<or> l < k" using assms(4) by auto
  then show ?thesis using k assms(1) mult_le_mono1 [of "Suc k" l "ev_inode_size v"] mult_le_mono1 [of "Suc l" k "ev_inode_size v"]
    by (auto simp: inode_tables_ok_def)
qed

lemma slice_splice_outside:
  assumes "a + length ys \<le> length xs" "c \<le> a \<or> a + length ys \<le> b" "c \<le> length xs" "b \<le> c"
  shows "slice_of (splice_at xs a ys) b c = slice_of xs b c"
proof (rule nth_equalityI)
  show "length (slice_of (splice_at xs a ys) b c) = length (slice_of xs b c)" using assms by (simp add: length_slice length_splice_at)
  fix i assume "i < length (slice_of (splice_at xs a ys) b c)"
  then have "i < c - b" using assms by (simp add: length_slice length_splice_at)
  then show "slice_of (splice_at xs a ys) b c ! i = slice_of xs b c ! i" using assms by (auto simp: nth_slice nth_splice_at length_splice_at)
qed

lemma slice_splice_inside: "a + length ys \<le> length xs \<Longrightarrow> n = length ys \<Longrightarrow> slice_of (splice_at xs a ys) a (a + n) = ys"
  by (simp add: slice_of_def splice_at_def)

lemma raw_inode_at_update:
  assumes ok: "inode_tables_ok v" and pos: "inode_position v i = Some (Inr (lba, a))" "inode_position v j = Some (Inr (k, b))"
    and disk: "uniform (ev_block_size v) disk" "lba < length disk" "k < length disk" and raw: "raw_inode_wf raw"
  defines "block \<equiv> splice_at (disk ! lba) a (raw_inode_bytes raw)"
  shows "raw_inode_at (disk[lba := block]) (lba, a) = raw"
    "(lba, a) \<noteq> (k, b) \<Longrightarrow> raw_inode_at (disk[lba := block]) (k, b) = raw_inode_at disk (k, b)"
proof -
  have len: "length (raw_inode_bytes raw) = 128" by (rule length_raw_inode_bytes [OF raw])
  have bl: "length (disk ! lba) = ev_block_size v" "length (disk ! k) = ev_block_size v" using disk by (simp_all add: uniform_nth)
  have fit: "a + 128 \<le> ev_block_size v" "b + 128 \<le> ev_block_size v" using inode_offset_fits [OF ok] pos by blast+
  show "raw_inode_at (disk[lba := block]) (lba, a) = raw"
  proof -
    have "slice_of block a (a + 128) = raw_inode_bytes raw" unfolding block_def by (rule slice_splice_inside) (use fit bl len in simp_all)
    then show ?thesis using disk(2) read_raw_inode_bytes [OF raw] by (simp add: raw_inode_at_def)
  qed
  assume "(lba, a) \<noteq> (k, b)"
  then consider "k \<noteq> lba" | "k = lba" "a \<noteq> b" by auto
  then show "raw_inode_at (disk[lba := block]) (k, b) = raw_inode_at disk (k, b)"
  proof cases
    case 2
    then have "inode_position v j = Some (Inr (lba, b))" using pos(2) by simp
    then have "b + 128 \<le> a \<or> a + 128 \<le> b" using inode_places_disjoint [OF ok pos(1) _ 2(2)] by blast
    then have "slice_of block b (b + 128) = slice_of (disk ! lba) b (b + 128)"
      unfolding block_def using fit bl len by (intro slice_splice_outside) simp_all
    then show ?thesis using disk(2) 2(1) by (simp add: raw_inode_at_def)
  qed (simp add: raw_inode_at_def)
qed

context ext2_on_file
begin

lemma block_length: "ok (w, v) \<Longrightarrow> lba < ev_block_count v \<Longrightarrow> length (volume_disk bytes (w, v) ! lba) = bs"
  using bdev.geometry [of "(w, v)"] uniform_nth [of bs "volume_disk bytes (w, v)" lba] by (simp add: volume_disk_def del: nth_chunks)

lemma read_into_disk:
  assumes "ok (w, v)" "lba < ev_block_count v"
  shows "\<exists>w' c. read_into env lba (replicate bs 0) (w, v) = Some (Inr (volume_disk bytes (w, v) ! lba), w', v\<lparr>ev_block_cache := c\<rparr>) \<and>
    ok (w', v\<lparr>ev_block_cache := c\<rparr>) \<and> bytes w' = bytes w"
  using read_block_disk [OF assms, of "replicate bs 0"] by (auto simp: read_into_def)

lemma get_inode_disk:
  assumes ok: "ok (w, v)" and tables: "inode_tables_ok v" and i: "1 \<le> i" "i \<le> unat (sp_inodes_count (ev_superblock v))"
    and pos: "inode_position v i = Some (Inr (lba, offset))"
  shows "\<exists>w' c. get_inode env i parent (w, v) =
      (case inode_from_raw (raw_inode_at (volume_disk bytes (w, v)) (lba, offset)) i parent of
         None \<Rightarrow> None | Some x \<Rightarrow> Some (Inr x, w', v\<lparr>ev_block_cache := c\<rparr>)) \<and>
    ok (w', v\<lparr>ev_block_cache := c\<rparr>) \<and> bytes w' = bytes w"
proof -
  have bs: "ev_block_size v = bs" using ok by (simp add: volume_ok_def volume_geometry_def)
  have lba: "lba < ev_block_count v" using tables i pos by (fastforce simp: inode_tables_ok_def)
  obtain w' c where r: "read_into env lba (replicate bs 0) (w, v) = Some (Inr (volume_disk bytes (w, v) ! lba), w', v\<lparr>ev_block_cache := c\<rparr>)"
      "ok (w', v\<lparr>ev_block_cache := c\<rparr>)" "bytes w' = bytes w"
    using read_into_disk [OF ok lba] by blast
  have "length (volume_disk bytes (w, v) ! lba) = bs" by (rule block_length [OF ok lba])
  then have "get_inode env i parent (w, v) =
      (case inode_from_raw (raw_inode_at (volume_disk bytes (w, v)) (lba, offset)) i parent of
         None \<Rightarrow> None | Some x \<Rightarrow> Some (Inr x, w', v\<lparr>ev_block_cache := c\<rparr>))"
    using r(1) i pos bs inode_offset_fits [OF tables pos]
    by (simp add: get_inode_def io_bind_def io_result_def io_panics_def slice_get_def raw_inode_at_def del: bind_eq_Some_iff split: option.splits)
  then show ?thesis using r by blast
qed

lemma get_inode_value:
  assumes "ok (w, v)" "inode_tables_ok v" "1 \<le> i" "i \<le> unat (sp_inodes_count (ev_superblock v))"
    "inode_position v i = Some (Inr (lba, offset))"
  shows "map_option fst (get_inode env i parent (w, v)) = map_option Inr (inode_from_raw (raw_inode_at (volume_disk bytes (w, v)) (lba, offset)) i parent)"
  using get_inode_disk [OF assms, of parent]
  by (cases "inode_from_raw (raw_inode_at (volume_disk bytes (w, v)) (lba, offset)) i parent") auto

lemma update_inode_raw_disk:
  assumes ok: "ok (w, v)" and tables: "inode_tables_ok v" and i: "1 \<le> i" "i \<le> unat (sp_inodes_count (ev_superblock v))"
    and pos: "inode_position v i = Some (Inr (lba, offset))" and raw: "raw_inode_wf raw"
  shows "\<exists>w' c. update_inode_raw env i raw (w, v) = Some (Inr (), w', v\<lparr>ev_block_cache := c\<rparr>) \<and> ok (w', v\<lparr>ev_block_cache := c\<rparr>) \<and>
    volume_disk bytes (w', v) = (volume_disk bytes (w, v))[lba := splice_at (volume_disk bytes (w, v) ! lba) offset (raw_inode_bytes raw)]"
proof -
  let ?disk = "volume_disk bytes (w, v)"
  let ?b = "splice_at (?disk ! lba) offset (raw_inode_bytes raw)"
  have bs: "ev_block_size v = bs" "length (bytes w) = ev_block_count v * bs" using ok by (simp_all add: volume_ok_def volume_geometry_def)
  have lba: "lba < ev_block_count v" using tables i pos by (fastforce simp: inode_tables_ok_def)
  obtain w1 c1 where r: "read_into env lba (replicate bs 0) (w, v) = Some (Inr (?disk ! lba), w1, v\<lparr>ev_block_cache := c1\<rparr>)"
      "ok (w1, v\<lparr>ev_block_cache := c1\<rparr>)" "bytes w1 = bytes w"
    using read_into_disk [OF ok lba] by blast
  have len: "length (?disk ! lba) = bs" by (rule block_length [OF ok lba])
  have fit: "offset + 128 \<le> bs" using inode_offset_fits [OF tables pos] bs(1) by simp
  have lenb: "length ?b = bs" using len fit length_raw_inode_bytes [OF raw] by (simp add: length_splice_at)
  obtain w2 c2 where q: "ext2_write_block env lba ?b (w1, v\<lparr>ev_block_cache := c1\<rparr>) = Some (Inr bs, w2, v\<lparr>ev_block_cache := c1, ev_block_cache := c2\<rparr>)"
      "ok (w2, v\<lparr>ev_block_cache := c1, ev_block_cache := c2\<rparr>)" "bytes w2 = splice_at (bytes w1) (lba * bs) ?b"
    using write_block_disk [OF r(2), of lba ?b] lba lenb by auto
  have "update_inode_raw env i raw (w, v) = Some (Inr (), w2, v\<lparr>ev_block_cache := c2\<rparr>)"
    using r(1) q(1) pos bs(1) len fit length_raw_inode_bytes [OF raw]
    by (simp add: update_inode_raw_def io_bind_def io_result_def io_panics_def io_ok_def copy_from_slice_def del: bind_eq_Some_iff)
  moreover have "volume_disk bytes (w2, v) = ?disk[lba := ?b]"
    using chunks_splice [OF bs(2) lenb lba] bs(1) q(3) r(3) by (simp add: volume_disk_def)
  ultimately show ?thesis using q(2) by auto
qed

end

end
