(* ===== verification/Pata_Volume.thy ===== *)
theory Pata_Volume
  imports Pata_File Ext2_Blocks
begin

text \<open>
  Volumes on disks: a device file of the PATA driver, opened through the device file system, is a
  \<open>byte_file\<close>, so an ext2 volume on it reads and writes sectors through the controller's
  registers, the driver's handle cache, the device file system and its own block cache.
\<close>

definition pata_dev_env :: "'h PortIO \<Rightarrow> (drive_id \<Rightarrow> Partition option \<Rightarrow> nat) \<Rightarrow> (PataFsFileHandle DevFs \<Rightarrow> nat) \<Rightarrow>
    (PataFsFileHandle, 'h PataWorld) DevEnv \<Rightarrow> (PataFsFileHandle, 'h PataWorld) DevEnv" where
  "pata_dev_env io arc heap env = env\<lparr>de_driver := (de_driver env)(PATA := pata_driver io arc heap)\<rparr>"

text \<open>The contents and the position of an open device file, and when it can be used.\<close>

definition device_bytes :: "('h \<Rightarrow> u8 list list) \<Rightarrow> nat \<Rightarrow> PataFsFileHandle DevFs \<times> 'h PataWorld \<Rightarrow> u8 list" where
  "device_bytes sectors handle = (\<lambda>(fs, s).
     case dev_get_handle_data fs handle of None \<Rightarrow> [] | Some hdl \<Rightarrow> range_bytes (ph_disk_range hdl) (sectors (pw_hw s)))"

definition device_pos :: "nat \<Rightarrow> PataFsFileHandle DevFs \<times> 'h PataWorld \<Rightarrow> nat" where
  "device_pos handle = (\<lambda>(fs, s). case dev_get_handle_data fs handle of None \<Rightarrow> 0 | Some hdl \<Rightarrow> ph_position hdl)"

definition device_ok ::
    "PataController \<Rightarrow> ('h \<Rightarrow> u8 list list) \<Rightarrow> ('h \<Rightarrow> bool) \<Rightarrow> nat \<Rightarrow> PataFsFileHandle DevFs \<times> 'h PataWorld \<Rightarrow> bool" where
  "device_ok c sectors idle handle = (\<lambda>(fs, s).
     \<exists>hook hdl. df_handles fs handle = Some (HookHandle hook hdl) \<and> hk_driver hook = PATA \<and> handle_ready sectors handle fs s hdl \<and>
       pw_controllers s (ph_controller hdl) = c \<and> pc_generation c = ph_generation hdl \<and>
       ph_position hdl \<le> length (range_bytes (ph_disk_range hdl) (sectors (pw_hw s))) \<and> ata_drive.disk_ok c sectors idle (pw_hw s))"

lemma handle_data [simp]: "df_handles fs handle = Some (HookHandle hook hdl) \<Longrightarrow> dev_get_handle_data fs handle = Some hdl"
  by (simp add: dev_get_handle_data_def get_handle_data_def)

lemma set_handle_data:
  assumes "df_handles fs handle = Some (HookHandle hook hdl)"
  shows "df_handles (dev_set_handle_data fs handle d) handle = Some (HookHandle hook d)"
  using assms by (simp add: dev_set_handle_data_def)

lemma device_okI:
  assumes "df_handles fs handle = Some (HookHandle hook hdl)" "hk_driver hook = PATA"
    "handle \<in> pw_handles s" "is_present (pw_controllers s (ph_controller hdl))" "PataFsFileHandle.ph_mode hdl AND OPEN_MODE_READ \<noteq> 0"
    "range_ok (ph_disk_range hdl) (sectors (pw_hw s))" "cache_ok hdl (sectors (pw_hw s))"
    "pw_controllers s (ph_controller hdl) = c" "pc_generation c = ph_generation hdl"
    "ph_position hdl \<le> length (range_bytes (ph_disk_range hdl) (sectors (pw_hw s)))" "ata_drive.disk_ok c sectors idle (pw_hw s)"
  shows "device_ok c sectors idle handle (fs, s)" "device_bytes sectors handle (fs, s) = range_bytes (ph_disk_range hdl) (sectors (pw_hw s))"
    "device_pos handle (fs, s) = ph_position hdl"
  using assms by (auto simp: device_ok_def handle_ready_def device_bytes_def device_pos_def)

lemma splice_slice:
  assumes "length ys = n" "a + x + n \<le> b" "b \<le> length xs"
  shows "slice_of (splice_at xs (a + x) ys) a b = splice_at (slice_of xs a b) x ys"
proof (rule nth_equalityI)
  have len: "length (splice_at xs (a + x) ys) = length xs" using assms by (simp add: length_splice_at)
  have len2: "length (slice_of xs a b) = b - a" using assms(3) by (simp add: length_slice)
  show l: "length (slice_of (splice_at xs (a + x) ys) a b) = length (splice_at (slice_of xs a b) x ys)"
    using assms len len2 by (simp add: length_slice length_splice_at)
  fix i assume "i < length (slice_of (splice_at xs (a + x) ys) a b)"
  then have i: "i < b - a" using assms(3) len by (simp add: length_slice)
  have "x + length ys \<le> length (slice_of xs a b)" using assms len2 by simp
  then show "slice_of (splice_at xs (a + x) ys) a b ! i = splice_at (slice_of xs a b) x ys ! i"
    using i assms len len2 by (auto simp: nth_slice nth_splice_at)
qed

section \<open>Device files are byte files\<close>

context ata_drive
begin

abbreviation pops :: "(drive_id \<Rightarrow> Partition option \<Rightarrow> nat) \<Rightarrow> (PataFsFileHandle DevFs \<Rightarrow> nat) \<Rightarrow>
    (PataFsFileHandle, 'h PataWorld) DevEnv \<Rightarrow> (PataFsFileHandle DevFs \<times> 'h PataWorld) FsOps" where
  "pops arc heap env \<equiv> devfs_ops (pata_dev_env io arc heap env)"

lemma device_seek_ok:
  assumes ok: "device_ok c sectors idle (f_handle f) w" and p: "p \<le> length (device_bytes sectors (f_handle f) w)"
  shows "\<exists>w'. file_seek (pops arc heap env) f (FromStart p) w = Some (Inr p, w') \<and> device_ok c sectors idle (f_handle f) w' \<and>
    device_bytes sectors (f_handle f) w' = device_bytes sectors (f_handle f) w \<and> device_pos (f_handle f) w' = p"
proof -
  let ?h = "f_handle f"
  obtain fs s where w: "w = (fs, s)" by force
  obtain hook hdl where o: "df_handles fs ?h = Some (HookHandle hook hdl)" "hk_driver hook = PATA" "handle_ready sectors ?h fs s hdl"
    "pw_controllers s (ph_controller hdl) = c" "pc_generation c = ph_generation hdl" "disk_ok (pw_hw s)"
    using ok by (auto simp: w device_ok_def)
  have r: "range_ok (ph_disk_range hdl) (sectors (pw_hw s))" using o(3) by (simp add: handle_ready_def)
  have d: "uniform 512 (sectors (pw_hw s))" "length (sectors (pw_hw s)) = sector_count c" using o(6) by (simp_all add: disk_ok_def)
  have b: "device_bytes sectors ?h w = range_bytes (ph_disk_range hdl) (sectors (pw_hw s))" using o(1) by (simp add: w device_bytes_def)
  have "length (range_bytes (ph_disk_range hdl) (sectors (pw_hw s))) \<le> sector_count c * 512"
    unfolding range_bytes_length [OF r d(1)] using r d(2) by (intro mult_le_mono1) (auto simp: range_ok_def)
  then have "p \<le> sector_count c * 512" using p b by simp
  then have "file_seek (pops arc heap env) f (FromStart p) w =
      Some (Inr p, dev_set_handle_data fs ?h (hdl\<lparr>ph_position := p\<rparr>), s)"
    using o(1-4) sector_count_bound [of c]
    by (simp add: w file_seek_def devfs_ops_def devfs_fseek_def dispatch_def get_handle_data_def pata_dev_env_def pata_driver_def
        pata_fseek_def pata_with_handle_def handle_ready_def size_bytes_def mul64_def io_ok_def Let_def del: bind_eq_Some_iff)
  moreover have "device_ok c sectors idle ?h (dev_set_handle_data fs ?h (hdl\<lparr>ph_position := p\<rparr>), s)"
      "device_bytes sectors ?h (dev_set_handle_data fs ?h (hdl\<lparr>ph_position := p\<rparr>), s) = device_bytes sectors ?h w"
      "device_pos ?h (dev_set_handle_data fs ?h (hdl\<lparr>ph_position := p\<rparr>), s) = p"
    using device_okI [OF set_handle_data [OF o(1), of "hdl\<lparr>ph_position := p\<rparr>"] o(2), of s sectors c idle] o p b
    by (simp_all add: handle_ready_def cache_ok_def)
  ultimately show ?thesis by blast
qed

lemma device_read_ok:
  fixes buf :: "u8 list"
  assumes ok: "device_ok c sectors idle (f_handle f) w"
    and fits: "device_pos (f_handle f) w + length buf \<le> length (device_bytes sectors (f_handle f) w)"
  shows "\<exists>w'. file_read (pops arc heap env) f buf w = Some (Inr (length buf,
      slice_of (device_bytes sectors (f_handle f) w) (device_pos (f_handle f) w) (device_pos (f_handle f) w + length buf)), w') \<and>
    device_ok c sectors idle (f_handle f) w' \<and> device_bytes sectors (f_handle f) w' = device_bytes sectors (f_handle f) w"
proof -
  let ?h = "f_handle f"
  obtain fs s where w: "w = (fs, s)" by force
  obtain hook hdl where o: "df_handles fs ?h = Some (HookHandle hook hdl)" "hk_driver hook = PATA" "handle_ready sectors ?h fs s hdl"
    "pw_controllers s (ph_controller hdl) = c" "pc_generation c = ph_generation hdl" "disk_ok (pw_hw s)"
    "ph_position hdl \<le> length (range_bytes (ph_disk_range hdl) (sectors (pw_hw s)))"
    using ok by (auto simp: w device_ok_def)
  let ?b = "range_bytes (ph_disk_range hdl) (sectors (pw_hw s))"
  have b: "device_bytes sectors ?h w = ?b" "device_pos ?h w = ph_position hdl" using o(1) by (simp_all add: w device_bytes_def device_pos_def)
  have n: "length buf = min (length buf) (length ?b - ph_position hdl)" using fits b by simp
  obtain hdl' h' where r: "pata_fread io ?h buf (fs, s) =
      Some (Inr (length buf, splice_at buf 0 (slice_of ?b (ph_position hdl) (ph_position hdl + length buf))),
        dev_set_handle_data fs ?h hdl', s\<lparr>pw_hw := h'\<rparr>)"
    "sectors h' = sectors (pw_hw s)" "cache_ok hdl' (sectors h')" "disk_ok h'"
    "hdl' = hdl\<lparr>ph_position := ph_position hdl + length buf, ph_last_sector := ph_last_sector hdl', ph_sector_cache := ph_sector_cache hdl'\<rparr>"
    by (rule pata_fread_step [of io s hdl sectors tf idle sending receiving ?h fs "length buf" buf]) (use o n ata_drive_axioms in simp_all)
  have k: "PataFsFileHandle.ph_mode hdl' = PataFsFileHandle.ph_mode hdl" "ph_controller hdl' = ph_controller hdl" "ph_generation hdl' = ph_generation hdl"
    "ph_disk_range hdl' = ph_disk_range hdl" "ph_position hdl' = ph_position hdl + length buf"
    by (subst r(5), simp)+
  have full: "splice_at buf 0 (slice_of ?b (ph_position hdl) (ph_position hdl + length buf)) = slice_of ?b (ph_position hdl) (ph_position hdl + length buf)"
    using fits b by (simp add: splice_at_def length_slice)
  have "file_read (pops arc heap env) f buf w = Some (Inr (length buf, slice_of ?b (ph_position hdl) (ph_position hdl + length buf)),
      dev_set_handle_data fs ?h hdl', s\<lparr>pw_hw := h'\<rparr>)"
    using o(1,2) r(1) full by (simp add: w file_read_def devfs_ops_def devfs_fread_def dispatch_def get_handle_data_def pata_dev_env_def pata_driver_def)
  moreover have "device_ok c sectors idle ?h (dev_set_handle_data fs ?h hdl', s\<lparr>pw_hw := h'\<rparr>)"
      "device_bytes sectors ?h (dev_set_handle_data fs ?h hdl', s\<lparr>pw_hw := h'\<rparr>) = ?b"
    using device_okI [OF set_handle_data [OF o(1), of hdl'] o(2), of "s\<lparr>pw_hw := h'\<rparr>" sectors c idle] o r(2-4) k fits b
    by (simp_all add: handle_ready_def)
  ultimately show ?thesis using b by auto
qed

lemma device_write_ok:
  fixes buf :: "u8 list"
  assumes ok: "device_ok c sectors idle (f_handle f) w"
    and fits: "device_pos (f_handle f) w + length buf \<le> length (device_bytes sectors (f_handle f) w)"
  shows "\<exists>w'. file_write (pops arc heap env) f buf w = Some (Inr (length buf), w') \<and> device_ok c sectors idle (f_handle f) w' \<and>
    device_bytes sectors (f_handle f) w' = splice_at (device_bytes sectors (f_handle f) w) (device_pos (f_handle f) w) buf"
proof -
  let ?h = "f_handle f"
  obtain fs s where w: "w = (fs, s)" by force
  obtain hook hdl where o: "df_handles fs ?h = Some (HookHandle hook hdl)" "hk_driver hook = PATA" "handle_ready sectors ?h fs s hdl"
    "pw_controllers s (ph_controller hdl) = c" "pc_generation c = ph_generation hdl" "disk_ok (pw_hw s)"
    "ph_position hdl \<le> length (range_bytes (ph_disk_range hdl) (sectors (pw_hw s)))"
    using ok by (auto simp: w device_ok_def)
  let ?b = "range_bytes (ph_disk_range hdl) (sectors (pw_hw s))"
  have b: "device_bytes sectors ?h w = ?b" "device_pos ?h w = ph_position hdl" using o(1) by (simp_all add: w device_bytes_def device_pos_def)
  have n: "length buf = min (length buf) (length ?b - ph_position hdl)" using fits b by simp
  obtain hdl' h' where r: "pata_fwrite io ?h buf (fs, s) = Some (Inr (length buf), dev_set_handle_data fs ?h hdl', s\<lparr>pw_hw := h'\<rparr>)"
    "cache_ok hdl' (sectors h')" "disk_ok h'" "concat (sectors h') = splice_at (concat (sectors (pw_hw s))) (disk_offset hdl) (take (length buf) buf)"
    "hdl' = hdl\<lparr>ph_position := ph_position hdl + length buf, ph_last_sector := ph_last_sector hdl', ph_sector_cache := ph_sector_cache hdl'\<rparr>"
    by (rule pata_fwrite_step [of io s hdl sectors tf idle sending receiving ?h fs "length buf" buf]) (use o n ata_drive_axioms in simp_all)
  have k: "PataFsFileHandle.ph_mode hdl' = PataFsFileHandle.ph_mode hdl" "ph_controller hdl' = ph_controller hdl" "ph_generation hdl' = ph_generation hdl"
    "ph_disk_range hdl' = ph_disk_range hdl" "ph_position hdl' = ph_position hdl + length buf"
    by (subst r(5), simp)+
  have len: "length (sectors h') = length (sectors (pw_hw s))" using r(3) o(6) by (simp add: disk_ok_def)
  have ro: "range_ok (ph_disk_range hdl) (sectors (pw_hw s))" using o(3) by (simp add: handle_ready_def)
  have u: "uniform 512 (sectors (pw_hw s))" using o(6) by (simp add: disk_ok_def)
  let ?a = "dr_start (ph_disk_range hdl) * 512" and ?e = "dr_end (ph_disk_range hdl) * 512"
  have e: "?a + ph_position hdl + length buf \<le> ?e" "?e \<le> length (concat (sectors (pw_hw s)))"
    using fits b ro range_bytes_length [OF ro u] length_concat_uniform [OF u] by (auto simp: range_ok_def diff_mult_distrib)
  have bytes': "range_bytes (ph_disk_range hdl) (sectors h') = splice_at ?b (ph_position hdl) buf"
    using splice_slice [OF refl e] r(4) by (simp add: range_bytes_def disk_offset_def)
  have "file_write (pops arc heap env) f buf w = Some (Inr (length buf), dev_set_handle_data fs ?h hdl', s\<lparr>pw_hw := h'\<rparr>)"
    using o(1,2) r(1) by (simp add: w file_write_def devfs_ops_def devfs_fwrite_def dispatch_def get_handle_data_def pata_dev_env_def pata_driver_def)
  moreover have "device_ok c sectors idle ?h (dev_set_handle_data fs ?h hdl', s\<lparr>pw_hw := h'\<rparr>)"
      "device_bytes sectors ?h (dev_set_handle_data fs ?h hdl', s\<lparr>pw_hw := h'\<rparr>) = splice_at ?b (ph_position hdl) buf"
    using device_okI [OF set_handle_data [OF o(1), of hdl'] o(2), of "s\<lparr>pw_hw := h'\<rparr>" sectors c idle] o r(2,3) k fits b bytes' len
    by (simp_all add: handle_ready_def range_ok_def length_splice_at)
  ultimately show ?thesis using b by auto
qed

end

sublocale ata_drive \<subseteq> pbf: byte_file "devfs_ops (pata_dev_env io arc heap env)" f "device_bytes sectors (f_handle f)"
    "device_pos (f_handle f)" "device_ok c sectors idle (f_handle f)"
  for arc heap env f
  by unfold_locales (rule device_seek_ok device_read_ok device_write_ok; assumption)+

section \<open>Properties of volumes\<close>

lemma ext2_on_fileI: "byte_file (ex_ops env) f bytes pos fok \<Longrightarrow> lru_cache (ex_blocks env) view \<Longrightarrow> 0 < bs \<Longrightarrow>
    ext2_on_file env f bytes pos fok view bs"
  by (simp add: ext2_on_file_def ext2_on_file_axioms_def)


text \<open>A drive of eight sectors that holds a volume of four blocks, with the inode table in the last one, for the witnesses.\<close>

definition vol_ids :: "u16 list" where
  "vol_ids = replicate 60 1 @ [8, 0] @ replicate 194 1"

definition vol_handle :: PataFsFileHandle where
  "vol_handle = \<lparr>PataFsFileHandle.ph_mode = 3, ph_controller = (Primary, Master), ph_position = 0, ph_last_sector = None,
     ph_sector_cache = replicate 512 0, ph_generation = 0, ph_disk_range = \<lparr>dr_start = 0, dr_end = 8\<rparr>\<rparr>"

definition vol_drive :: Drive where
  "vol_drive = \<lparr>dv_sectors = replicate 8 (replicate 512 0), dv_tf = (\<lambda>_. (0, 0)), dv_phase = PhaseIdle\<rparr>"

definition vol_world :: "PataFsFileHandle DevFs \<times> Drive PataWorld" where
  "vol_world = ((devfs_init [demo_pci])\<lparr>df_handles := [4096 \<mapsto> HookHandle \<lparr>hk_driver = PATA,
       hk_file = \<lparr>vf_kind = KBlockDevice 1, vf_name = ''pata_pm'', vf_size = 0, vf_parent_fs = 3, vf_fs = 3, vf_specific = OtherSpecific 1\<rparr>,
       hk_kind = Device, hk_generation = 0, hk_device_id = 0\<rparr> vol_handle]\<rparr>,
     \<lparr>pw_pci_device = demo_pci, pw_handles = {4096}, pw_controllers = (\<lambda>_. controller_of Primary Master vol_ids), pw_hw = vol_drive\<rparr>)"

definition vol_file :: File where
  "vol_file = \<lparr>f_mode = 3, f_path = ''/dev/pata_pm'', f_fs = 3, f_file = \<lparr>vf_kind = KBlockDevice 1, vf_name = ''pata_pm'', vf_size = 0,
     vf_parent_fs = 3, vf_fs = 3, vf_specific = OtherSpecific 1\<rparr>, f_handle = 4096\<rparr>"

definition vol_volume :: "(nat \<times> (nat \<times> u8 list) list, nat \<times> (nat \<times> GroupAllocator) list) Ext2Volume" where
  "vol_volume = \<lparr>ev_device = vol_file, ev_read_only = False,
     ev_superblock = demo_superblock\<lparr>sp_inodes_count := 8, sp_blocks_count := 4, sp_inodes_per_group := 8\<rparr>,
     ev_block_size = 1024, ev_sectors_per_block = 2, ev_block_count = 4, ev_block_group_count = 1, ev_blocks_per_group = 8,
     ev_block_group_descriptor_table = [\<lparr>gd_block_usage_bitmap = 3, gd_inode_usage_bitmap = 3, gd_inode_table_block = 3,
       gd_free_blocks_count = 0, gd_free_inodes_count = 0, gd_directory_count = 0\<rparr>],
     ev_inode_size = 128, ev_inodes_per_block = 8, ev_block_cache = (1, []), ev_group_block_bitmap_caches = (1, []),
     ev_group_inode_bitmap_caches = (1, [])\<rparr>"

definition vol_env :: "(PataFsFileHandle, Drive PataWorld) DevEnv \<Rightarrow>
    (PataFsFileHandle DevFs \<times> Drive PataWorld, nat \<times> (nat \<times> u8 list) list, nat \<times> (nat \<times> GroupAllocator) list) Ext2Env" where
  "vol_env env = \<lparr>ex_ops = devfs_ops (pata_dev_env (drive_io 0x1F0) (\<lambda>_ _. 0) (\<lambda>_. 0) env), ex_blocks = alist_lru, ex_groups = alist_lru,
     ex_align = (\<lambda>_. (0, 0)), ex_uninit = []\<rparr>"

abbreviation vol_fok :: "PataFsFileHandle DevFs \<times> Drive PataWorld \<Rightarrow> bool" where
  "vol_fok \<equiv> device_ok (controller_of Primary Master vol_ids) dv_sectors drive_idle 4096"

lemma vol_byte_file: "byte_file (ex_ops (vol_env env)) vol_file (device_bytes dv_sectors 4096) (device_pos 4096) vol_fok"
  using drv.pbf.byte_file_axioms [where bus = Primary and drive = Master and ids = vol_ids and arc = "\<lambda>_ _. 0" and heap = "\<lambda>_. 0"
      and env = env and f = vol_file]
  by (simp add: vol_env_def vol_file_def)

lemma vol_lru: "lru_cache (ex_blocks (vol_env env)) alist_view"
  using alru.lru_cache_axioms by (simp add: vol_env_def)

interpretation pvol: ext2_on_file "vol_env env" vol_file "device_bytes dv_sectors 4096" "device_pos 4096" vol_fok alist_view 1024 for env
  by (rule ext2_on_fileI [OF vol_byte_file vol_lru]) simp

lemma vol_sector_count: "sector_count (controller_of Primary Master vol_ids) = 8"
  by (simp add: sector_count_def controller_of_def vol_ids_def nth_append)

lemma concat_replicate_replicate: "concat (replicate n (replicate m x)) = replicate (n * m) x"
  by (induction n) (simp_all add: replicate_add)

lemma vol_device: "vol_fok vol_world" "device_bytes dv_sectors 4096 vol_world = replicate 4096 0"
proof -
  have c: "is_present (controller_of Primary Master vol_ids)" by (simp add: is_present_def controller_of_def vol_ids_def slice_of_def)
  have b: "range_bytes \<lparr>dr_start = 0, dr_end = 8\<rparr> (dv_sectors vol_drive) = replicate 4096 0"
    by (simp add: range_bytes_def vol_drive_def concat_replicate_replicate slice_of_def)
  have d: "ata_drive.disk_ok (controller_of Primary Master vol_ids) dv_sectors drive_idle vol_drive"
    using vol_sector_count by (simp add: drv.disk_ok_def [of Primary Master vol_ids, simplified] vol_drive_def drive_idle_def uniform_def)
  show "vol_fok vol_world" "device_bytes dv_sectors 4096 vol_world = replicate 4096 0"
    using device_okI [of "fst vol_world" 4096 _ vol_handle "snd vol_world" dv_sectors "controller_of Primary Master vol_ids" drive_idle] c b d
    by (simp_all add: vol_world_def vol_handle_def OPEN_MODE_READ_def range_ok_def cache_ok_def vol_drive_def controller_of_def pata_new_def)
qed

lemma vol_ok: "volume_ok vol_fok (device_bytes dv_sectors 4096) vol_file alist_view 1024 (vol_world, vol_volume)"
  using vol_device by (simp add: volume_ok_def volume_geometry_def cache_coherent_def vol_volume_def alist_view_def)



lemma vol_inode_position: "1 \<le> i \<Longrightarrow> i \<le> 8 \<Longrightarrow> inode_position vol_volume i = Some (Inr (3, (i - 1) * 128))"
proof -
  assume "1 \<le> i" "i \<le> 8"
  then have "i - 1 < 8" by simp
  moreover from this have "(i - 1) * 128 < 2 ^ 32" by simp
  ultimately show ?thesis using \<open>1 \<le> i\<close>
    by (simp add: inode_position_def vol_volume_def get_inode_group_def get_inode_index_in_group_def demo_superblock_def sub64_def
        get_block_group_descriptor_def mul32_def add32_def del: bind_eq_Some_iff)
qed

lemma vol_tables: "inode_tables_ok vol_volume" "unat (sp_inodes_count (ev_superblock vol_volume)) = 8"
proof -
  show n: "unat (sp_inodes_count (ev_superblock vol_volume)) = 8" by (simp add: vol_volume_def)
  have "inj_on (inode_position vol_volume) {1 .. 8}" by (rule inj_onI) (auto simp: vol_inode_position)
  moreover have "ev_inode_size vol_volume = 128" "ev_inodes_per_block vol_volume = 8" "ev_block_size vol_volume = 1024"
    "ev_block_count vol_volume = 4" by (simp_all add: vol_volume_def)
  ultimately show "inode_tables_ok vol_volume" unfolding inode_tables_ok_def n using vol_inode_position by auto
qed


end
