(* ===== verification/Ext2_Cursor.thy ===== *)
theory Ext2_Cursor
  imports Ext2_Blocks
begin

text \<open>
  \<^verbatim>\<open>CachedInodeReadingLocation\<close> of \<^verbatim>\<open>drivers/fs/phys/ext2/inode.rs\<close>: a position in
  the blocks of a file, with one cached table of pointers per level of indirection. The three
  tables have the same fields and code in the source; here they are three \<open>PointerTable\<close>s. An
  operation acts on the cursor and on the world of the volume.
\<close>

section \<open>Effects on a part of the state\<close>

definition zoom :: "('c \<Rightarrow> 't) \<Rightarrow> ('t \<Rightarrow> 'c \<Rightarrow> 'c) \<Rightarrow> ('t \<times> 's, 'a) vio \<Rightarrow> ('c \<times> 's, 'a) vio" where
  "zoom get put m = (\<lambda>(c, s). case m (get c, s) of None \<Rightarrow> None | Some (r, t, s') \<Rightarrow> Some (r, put t c, s'))"

definition self_get :: "('c \<Rightarrow> 'a) \<Rightarrow> ('c \<times> 's, 'a) vio" where
  "self_get f = io_get (\<lambda>(c, s). f c)"

definition self_modify :: "('c \<Rightarrow> 'c) \<Rightarrow> ('c \<times> 's, unit) vio" where
  "self_modify f = io_modify (\<lambda>(c, s). (f c, s))"

definition vol_get :: "(('b, 'g, 'z) Ext2Volume_scheme \<Rightarrow> 'a) \<Rightarrow> ('c \<times> ('w, 'b, 'g, 'z) vol_world, 'a) vio" where
  "vol_get f = io_get (\<lambda>(c, w, v). f v)"

text \<open>A value that is an error or a panic.\<close>

definition io_try :: "'a vresult panics \<Rightarrow> ('w, 'a) vio" where
  "io_try m = io_bind (io_panics m) io_result"

section \<open>Tables of pointers\<close>

record PointerTable =
  tb_data :: "u8 list"
  tb_addr :: nat
  tb_dirty :: bool

definition save_if_addresses_differ ::
    "('w, 'b, 'g) Ext2Env \<Rightarrow> nat \<Rightarrow> (PointerTable \<times> ('w, 'b, 'g, 'z) vol_world, unit) vio" where
  "save_if_addresses_differ env to_load_addr = (\<lambda>(t, s).
     if tb_dirty t \<and> tb_addr t \<noteq> 0 \<and> tb_addr t \<noteq> to_load_addr
     then io_bind (on_snd (ext2_write_block env (tb_addr t) (tb_data t))) (\<lambda>n.
          io_bind (vol_get ev_block_size) (\<lambda>bs.
          if n \<noteq> bs then io_err UnknownError else self_modify (\<lambda>t. t\<lparr>tb_dirty := False\<rparr>))) (t, s)
     else io_ok () (t, s))"

text \<open>The part that \<^verbatim>\<open>check_table1\<close>, \<^verbatim>\<open>check_table2\<close> and \<^verbatim>\<open>check_table3\<close> share.\<close>

definition load_table :: "('w, 'b, 'g) Ext2Env \<Rightarrow> nat \<Rightarrow> (PointerTable \<times> ('w, 'b, 'g, 'z) vol_world, unit) vio" where
  "load_table env addr =
     io_bind (save_if_addresses_differ env addr) (\<lambda>_ (t, s).
       if addr = 0 then io_ok () (t\<lparr>tb_addr := 0\<rparr>, s)
       else if tb_addr t \<noteq> addr
       then (case ext2_read_block env addr (tb_data t) s of
               None \<Rightarrow> None
             | Some ((Inr _, data), s') \<Rightarrow> io_ok () (t\<lparr>tb_data := data, tb_addr := addr\<rparr>, s')
             | Some ((Inl e, data), s') \<Rightarrow> io_err e (t\<lparr>tb_data := data, tb_addr := 0\<rparr>, s'))
       else io_ok () (t, s))"

text \<open>Reading and writing an entry through a raw pointer: outside the table that is undefined behaviour.\<close>

definition entry_get :: "PointerTable \<Rightarrow> nat \<Rightarrow> nat panics" where
  "entry_get t idx = do { bytes \<leftarrow> slice_get (tb_data t) (idx * 4) (idx * 4 + 4); Some (unat (from_le_bytes bytes :: u32)) }"

definition entry_set :: "nat \<Rightarrow> nat \<Rightarrow> PointerTable \<Rightarrow> PointerTable panics" where
  "entry_set idx value t = do {
     data \<leftarrow> copy_from_slice (tb_data t) (idx * 4) (idx * 4 + 4) (to_le_bytes (of_nat value :: u32));
     Some (t\<lparr>tb_data := data, tb_dirty := True\<rparr>)
   }"

definition follow :: "PointerTable \<Rightarrow> nat \<Rightarrow> nat vresult panics" where
  "follow t idx = (if idx * 4 < length (tb_data t) then map_option Inr (entry_get t idx) else Some (Inl OutOfBounds))"

section \<open>The cursor\<close>

record CachedInodeReadingLocation =
  cl_location :: InodeReadingLocation
  cl_inode :: Inode
  cl_max_block_exclusive :: int
  cl_block_size :: nat
  cl_table1 :: PointerTable
  cl_table2 :: PointerTable
  cl_table3 :: PointerTable
  cl_inode_dirty :: bool

type_synonym ('w, 'b, 'g, 'z, 'a) cursor_io = "(CachedInodeReadingLocation \<times> ('w, 'b, 'g, 'z) vol_world, 'a) vio"

definition volume_size64 :: "('b, 'g, 'z) Ext2Volume_scheme \<Rightarrow> bool" where
  "volume_size64 v = ro_has (sp_readonly_or_support_features (ev_superblock v)) FileSize64"

text \<open>\<^verbatim>\<open>get_size(..).div_ceil(..).try_into()\<close>; a block size of 0 divides by zero.\<close>

definition blocks_of_inode :: "('b, 'g, 'z) Ext2Volume_scheme \<Rightarrow> nat \<Rightarrow> Inode \<Rightarrow> int vresult panics" where
  "blocks_of_inode v block_size inode = do {
     _ \<leftarrow> assert_rust (block_size \<noteq> 0);
     let n = div_ceil (inode_get_size (volume_size64 v) inode) block_size;
     Some (if n < 2 ^ 63 then Inr (int n) else Inl (DriverError ''TryFromIntError''))
   }"

definition new_table :: "('w, 'b, 'g) Ext2Env \<Rightarrow> nat \<Rightarrow> PointerTable" where
  "new_table env bs = \<lparr>tb_data = alloc_boxed_slice (ex_uninit env) bs, tb_addr = 0, tb_dirty = False\<rparr>"

definition cursor_new :: "('w, 'b, 'g) Ext2Env \<Rightarrow> Inode \<Rightarrow> (('w, 'b, 'g, 'z) vol_world, CachedInodeReadingLocation) vio" where
  "cursor_new env inode = (\<lambda>(w, v).
     let bs = ev_block_size v
     in io_bind (io_panics (location_new (bs div 4) 0)) (\<lambda>location.
        io_bind (io_try (blocks_of_inode v bs inode)) (\<lambda>max_block_exclusive.
        io_ok \<lparr>cl_location = location, cl_inode = inode, cl_max_block_exclusive = max_block_exclusive, cl_block_size = bs,
          cl_table1 = new_table env bs, cl_table2 = new_table env bs, cl_table3 = new_table env bs, cl_inode_dirty = False\<rparr>)) (w, v))"

definition on_table1 :: "(PointerTable \<times> 's, 'a) vio \<Rightarrow> (CachedInodeReadingLocation \<times> 's, 'a) vio" where
  "on_table1 = zoom cl_table1 (\<lambda>t c. c\<lparr>cl_table1 := t\<rparr>)"

definition on_table2 :: "(PointerTable \<times> 's, 'a) vio \<Rightarrow> (CachedInodeReadingLocation \<times> 's, 'a) vio" where
  "on_table2 = zoom cl_table2 (\<lambda>t c. c\<lparr>cl_table2 := t\<rparr>)"

definition on_table3 :: "(PointerTable \<times> 's, 'a) vio \<Rightarrow> (CachedInodeReadingLocation \<times> 's, 'a) vio" where
  "on_table3 = zoom cl_table3 (\<lambda>t c. c\<lparr>cl_table3 := t\<rparr>)"

definition table1_target :: "CachedInodeReadingLocation \<Rightarrow> nat" where
  "table1_target c =
     (case loc_location (cl_location c) of
        Direct _ \<Rightarrow> 0
      | Single _ \<Rightarrow> unat (in_single_indirect_block_pointer (cl_inode c))
      | Double _ _ \<Rightarrow> unat (in_double_indirect_block_pointer (cl_inode c))
      | Triple _ _ _ \<Rightarrow> unat (in_triple_indirect_block_pointer (cl_inode c)))"

definition check_table1 :: "('w, 'b, 'g) Ext2Env \<Rightarrow> ('w, 'b, 'g, 'z, unit) cursor_io" where
  "check_table1 env = io_bind (self_get table1_target) (\<lambda>addr. on_table1 (load_table env addr))"

definition table2_target :: "CachedInodeReadingLocation \<Rightarrow> nat vresult panics" where
  "table2_target c =
     (case loc_location (cl_location c) of
        Direct _ \<Rightarrow> Some (Inr 0)
      | Single _ \<Rightarrow> Some (Inr 0)
      | Double p1 _ \<Rightarrow> follow (cl_table1 c) p1
      | Triple p1 _ _ \<Rightarrow> follow (cl_table1 c) p1)"

definition check_table2 :: "('w, 'b, 'g) Ext2Env \<Rightarrow> ('w, 'b, 'g, 'z, unit) cursor_io" where
  "check_table2 env = io_bind (self_get table2_target) (\<lambda>m. io_bind (io_try m) (\<lambda>addr. on_table2 (load_table env addr)))"

definition table3_target :: "CachedInodeReadingLocation \<Rightarrow> nat vresult panics" where
  "table3_target c =
     (case loc_location (cl_location c) of
        Direct _ \<Rightarrow> Some (Inr 0)
      | Single _ \<Rightarrow> Some (Inr 0)
      | Double _ p2 \<Rightarrow> follow (cl_table2 c) p2
      | Triple _ p2 _ \<Rightarrow> follow (cl_table2 c) p2)"

definition check_table3 :: "('w, 'b, 'g) Ext2Env \<Rightarrow> ('w, 'b, 'g, 'z, unit) cursor_io" where
  "check_table3 env = io_bind (self_get table3_target) (\<lambda>m. io_bind (io_try m) (\<lambda>addr. on_table3 (load_table env addr)))"

definition check_tables :: "('w, 'b, 'g) Ext2Env \<Rightarrow> ('w, 'b, 'g, 'z, unit) cursor_io" where
  "check_tables env = io_bind (check_table1 env) (\<lambda>_. io_bind (check_table2 env) (\<lambda>_. check_table3 env))"

definition cursor_seek :: "('w, 'b, 'g) Ext2Env \<Rightarrow> nat \<Rightarrow> ('w, 'b, 'g, 'z, unit) cursor_io" where
  "cursor_seek env block =
     io_bind (vol_get ev_block_size) (\<lambda>bs.
     io_bind (io_panics (location_new (bs div 4) block)) (\<lambda>location.
     io_bind (self_modify (\<lambda>c. c\<lparr>cl_location := location\<rparr>)) (\<lambda>_. check_tables env)))"

definition get_next_block :: "CachedInodeReadingLocation \<Rightarrow> nat vresult panics" where
  "get_next_block c =
     (case loc_location (cl_location c) of
        Direct direct \<Rightarrow>
          (if 12 \<le> direct then Some (Inl (ext2_error (BadReadingLocation (cl_location c))))
           else do { p \<leftarrow> list_get (in_direct_block_pointers (cl_inode c)) direct; Some (Inr (unat p)) })
      | Single single \<Rightarrow> follow (cl_table1 c) single
      | Double _ double \<Rightarrow> follow (cl_table2 c) double
      | Triple _ _ triple \<Rightarrow> follow (cl_table3 c) triple)"

text \<open>How many bytes of the current block belong to the file.\<close>

definition block_fill :: "CachedInodeReadingLocation \<Rightarrow> nat \<Rightarrow> nat \<Rightarrow> nat panics" where
  "block_fill c bs block_idx =
     (if int block_idx < cl_max_block_exclusive c - 1 then Some bs
      else do {
        _ \<leftarrow> assert_rust (bs \<noteq> 0);
        let n = unat (in_size_lo (cl_inode c)) mod bs;
        Some (if n = 0 then bs else n)
      })"

definition cursor_read_block :: "('w, 'b, 'g) Ext2Env \<Rightarrow> u8 list \<Rightarrow> CachedInodeReadingLocation \<times> ('w, 'b, 'g, 'z) vol_world \<Rightarrow>
    ((nat vresult \<times> u8 list) \<times> CachedInodeReadingLocation \<times> ('w, 'b, 'g, 'z) vol_world) panics" where
  "cursor_read_block env buffer = (\<lambda>(c, w, v).
     if length buffer < ev_block_size v then Some ((Inl BadBufferSize, buffer), c, w, v)
     else do {
       next_block \<leftarrow> get_next_block c;
       (case next_block of
          Inl e \<Rightarrow> Some ((Inl e, buffer), c, w, v)
        | Inr block \<Rightarrow> do {
            block_idx \<leftarrow> current_block_idx (cl_location c);
            ((r, buffer'), s') \<leftarrow> ext2_read_block env block buffer (w, v);
            (case r of
               Inl e \<Rightarrow> Some ((Inl e, buffer'), c, s')
             | Inr _ \<Rightarrow> do { n \<leftarrow> block_fill c (ev_block_size v) block_idx; Some ((Inr n, buffer'), c, s') })
          })
     })"

definition cursor_write_block :: "('w, 'b, 'g) Ext2Env \<Rightarrow> u8 list \<Rightarrow> ('w, 'b, 'g, 'z, nat) cursor_io" where
  "cursor_write_block env buffer = (\<lambda>(c, w, v).
     if length buffer < ev_block_size v then io_err BadBufferSize (c, w, v)
     else io_bind (io_try (get_next_block c)) (\<lambda>block.
          io_bind (io_panics (current_block_idx (cl_location c))) (\<lambda>block_idx.
          io_bind (on_snd (ext2_write_block env block buffer)) (\<lambda>_.
          io_panics (block_fill c (ev_block_size v) block_idx)))) (c, w, v))"

definition cursor_advance :: "('w, 'b, 'g) Ext2Env \<Rightarrow> ('w, 'b, 'g, 'z, bool) cursor_io" where
  "cursor_advance env =
     io_bind (self_get (\<lambda>c. current_block_idx (cl_location c))) (\<lambda>m.
     io_bind (io_panics m) (\<lambda>block.
     io_bind (self_get (\<lambda>c. cl_max_block_exclusive c - 1 \<le> int block)) (\<lambda>at_end.
       if at_end then io_ok False
       else io_bind (self_get (\<lambda>c. location_advance (cl_location c))) (\<lambda>m.
            io_bind (io_panics m) (\<lambda>(moved, location).
            io_bind (self_modify (\<lambda>c. c\<lparr>cl_location := location\<rparr>)) (\<lambda>_.
              if moved then io_bind (check_tables env) (\<lambda>_. io_ok True) else io_ok False))))))"

definition cursor_update :: "('w, 'b, 'g, 'z, unit) cursor_io" where
  "cursor_update = (\<lambda>(c, w, v).
     io_bind (io_try (blocks_of_inode v (cl_block_size c) (cl_inode c))) (\<lambda>n. self_modify (\<lambda>c. c\<lparr>cl_max_block_exclusive := n\<rparr>)) (c, w, v))"

text \<open>\<^verbatim>\<open>as u32\<close> of a signed number.\<close>

definition block_count :: "CachedInodeReadingLocation \<Rightarrow> nat" where
  "block_count c = nat (cl_max_block_exclusive c mod 2 ^ 32)"

section \<open>Freeing and allocating blocks\<close>

definition no_allocator :: "nat \<Rightarrow> VfsError" where
  "no_allocator g = DriverError (''No block allocator for group '' @ to_string g)"

definition group_of_block :: "('b, 'g, 'z) Ext2Volume_scheme \<Rightarrow> nat \<Rightarrow> nat panics" where
  "group_of_block v block = do {
     i \<leftarrow> sub64 block 1;
     _ \<leftarrow> assert_rust (ev_blocks_per_group v \<noteq> 0);
     Some (i div ev_blocks_per_group v)
   }"

definition block_allocator :: "('w, 'b, 'g) Ext2Env \<Rightarrow> nat \<Rightarrow> (('w, 'b, 'g, 'z) vol_world, BlockAllocator) vio" where
  "block_allocator env g =
     io_bind (get_block_allocator_for_group env g) (\<lambda>found. io_result (ok_or found (no_allocator g)))"

text \<open>\<^verbatim>\<open>balloc.dealloc_block(..)?\<close> through the reference; the result is the allocator afterwards.\<close>

definition dealloc_through :: "('w, 'b, 'g) Ext2Env \<Rightarrow> nat \<Rightarrow> BlockAllocator \<Rightarrow> nat \<Rightarrow> (('w, 'b, 'g, 'z) vol_world, BlockAllocator) vio" where
  "dealloc_through env g a block =
     io_bind (io_panics (dealloc_block a block)) (\<lambda>(r, a').
     io_bind (put_block_allocator env g a') (\<lambda>_.
     io_bind (io_result r) (\<lambda>_. io_ok a')))"

definition on_entry :: "(PointerTable \<Rightarrow> PointerTable panics) \<Rightarrow> (PointerTable \<times> 's, unit) vio" where
  "on_entry f = (\<lambda>(t, s). case f t of None \<Rightarrow> None | Some t' \<Rightarrow> io_ok () (t', s))"

definition get_entry :: "nat \<Rightarrow> (PointerTable \<times> 's, nat) vio" where
  "get_entry idx = (\<lambda>(t, s). io_panics (entry_get t idx) (t, s))"

text \<open>The block a pointer at level 0 leads to is freed; when it was the first of its table, the table is freed too.\<close>

definition unlink_last :: "('w, 'b, 'g) Ext2Env \<Rightarrow> nat \<Rightarrow> BlockAllocator \<Rightarrow> InodeReadingLocationInfo \<Rightarrow> ('w, 'b, 'g, 'z, unit) cursor_io" where
  "unlink_last env g a location =
     (case location of
        Direct direct \<Rightarrow> (\<lambda>(c, s).
          if direct < length (in_direct_block_pointers (cl_inode c))
          then io_ok () (c\<lparr>cl_inode := (cl_inode c)\<lparr>in_direct_block_pointers := (in_direct_block_pointers (cl_inode c))[direct := 0]\<rparr>,
                 cl_inode_dirty := True\<rparr>, s)
          else None)
      | Single idx0 \<Rightarrow>
          io_bind (on_table1 (on_entry (entry_set idx0 0))) (\<lambda>_.
          if idx0 = 0
          then io_bind (self_modify (\<lambda>c. c\<lparr>cl_inode := (cl_inode c)\<lparr>in_single_indirect_block_pointer := 0\<rparr>, cl_inode_dirty := True\<rparr>)) (\<lambda>_.
               io_bind (self_get (\<lambda>c. tb_addr (cl_table1 c))) (\<lambda>addr.
               io_bind (on_snd (dealloc_through env g a addr)) (\<lambda>_. io_ok ())))
          else io_ok ())
      | Double idx0 idx1 \<Rightarrow>
          io_bind (on_table2 (on_entry (entry_set idx1 0))) (\<lambda>_.
          if idx1 = 0
          then io_bind (on_table1 (get_entry idx0)) (\<lambda>addr2.
               io_bind (on_snd (dealloc_through env g a addr2)) (\<lambda>a.
               io_bind (on_table1 (on_entry (entry_set idx0 0))) (\<lambda>_.
               if idx0 = 0
               then io_bind (self_modify (\<lambda>c. c\<lparr>cl_inode := (cl_inode c)\<lparr>in_double_indirect_block_pointer := 0\<rparr>, cl_inode_dirty := True\<rparr>)) (\<lambda>_.
                    io_bind (self_get (\<lambda>c. tb_addr (cl_table1 c))) (\<lambda>addr.
                    io_bind (on_snd (dealloc_through env g a addr)) (\<lambda>_. io_ok ())))
               else io_ok ())))
          else io_ok ())
      | Triple idx0 idx1 idx2 \<Rightarrow>
          io_bind (on_table3 (on_entry (entry_set idx2 0))) (\<lambda>_.
          if idx2 = 0
          then io_bind (on_table2 (get_entry idx1)) (\<lambda>addr3.
               io_bind (on_snd (dealloc_through env g a addr3)) (\<lambda>a.
               io_bind (on_table2 (on_entry (entry_set idx1 0))) (\<lambda>_.
               if idx1 = 0
               then io_bind (on_table1 (get_entry idx0)) (\<lambda>addr2.
                    io_bind (on_snd (dealloc_through env g a addr2)) (\<lambda>a.
                    io_bind (on_table1 (on_entry (entry_set idx0 0))) (\<lambda>_.
                    if idx0 = 0
                    then io_bind (self_modify (\<lambda>c. c\<lparr>cl_inode := (cl_inode c)\<lparr>in_triple_indirect_block_pointer := 0\<rparr>, cl_inode_dirty := True\<rparr>)) (\<lambda>_.
                         io_bind (self_get (\<lambda>c. tb_addr (cl_table1 c))) (\<lambda>addr.
                         io_bind (on_snd (dealloc_through env g a addr)) (\<lambda>_. io_ok ())))
                    else io_ok ())))
               else io_ok ())))
          else io_ok ()))"

definition free_last_block :: "('w, 'b, 'g) Ext2Env \<Rightarrow> ('w, 'b, 'g, 'z, unit) cursor_io" where
  "free_last_block env =
     io_bind (self_get cl_max_block_exclusive) (\<lambda>n.
       if n = 0 then io_ok ()
       else io_bind (self_get (\<lambda>c. sub64 (block_count c) 1)) (\<lambda>m.
            io_bind (io_panics m) (\<lambda>last_block.
            io_bind (cursor_seek env last_block) (\<lambda>_.
            io_bind (self_get get_next_block) (\<lambda>m.
            io_bind (io_try m) (\<lambda>block.
            io_bind (vol_get (\<lambda>v. group_of_block v block)) (\<lambda>m.
            io_bind (io_panics m) (\<lambda>g.
            io_bind (on_snd (block_allocator env g)) (\<lambda>a.
            io_bind (on_snd (dealloc_through env g a block)) (\<lambda>a.
            io_bind (self_get (\<lambda>c. loc_location (cl_location c))) (\<lambda>location.
            io_bind (unlink_last env g a location) (\<lambda>_.
            self_modify (\<lambda>c. c\<lparr>cl_max_block_exclusive := cl_max_block_exclusive c - 1\<rparr>)))))))))))))"

text \<open>The local function \<^verbatim>\<open>balloc\<close>: a block from the group \<open>g\<close> or else from any; the result is the block and its group.\<close>

definition balloc :: "('w, 'b, 'g) Ext2Env \<Rightarrow> nat \<Rightarrow> (('w, 'b, 'g, 'z) vol_world, nat \<times> nat) vio" where
  "balloc env g =
     io_bind (block_allocator env g) (\<lambda>a.
     io_bind (run_allocator (alloc_block (ex_align env) a) (put_block_allocator env g)) (\<lambda>r.
       case r of
         Inr block \<Rightarrow> io_ok (block, g)
       | Inl _ \<Rightarrow>
           io_bind (alloc_block_any env) (\<lambda>block.
           io_bind (io_get (\<lambda>(w, v). group_of_block v block)) (\<lambda>m.
           io_bind (io_panics m) (\<lambda>g'. io_ok (block, g'))))))"

text \<open>
  Filling an empty pointer: \<open>get\<close> reads it, \<open>set\<close> stores a new block and \<open>after\<close> follows.
  The result is the group of the last allocation and the number of allocations so far.
\<close>

definition fill_pointer ::
    "('w, 'b, 'g) Ext2Env \<Rightarrow> ('w, 'b, 'g, 'z, nat) cursor_io \<Rightarrow> (nat \<Rightarrow> ('w, 'b, 'g, 'z, unit) cursor_io) \<Rightarrow> ('w, 'b, 'g, 'z, unit) cursor_io \<Rightarrow>
     nat \<times> nat \<Rightarrow> ('w, 'b, 'g, 'z, nat \<times> nat) cursor_io" where
  "fill_pointer env get set_to after = (\<lambda>(g, count).
     io_bind get (\<lambda>p.
       if p = 0
       then io_bind (on_snd (balloc env g)) (\<lambda>(block, g').
            io_bind (set_to block) (\<lambda>_. io_bind after (\<lambda>_. io_ok (g', count + 1))))
       else io_ok (g, count)))"

definition set_inode :: "(Inode \<Rightarrow> Inode) \<Rightarrow> (CachedInodeReadingLocation \<times> 's, unit) vio" where
  "set_inode f = self_modify (\<lambda>c. c\<lparr>cl_inode := f (cl_inode c), cl_inode_dirty := True\<rparr>)"

definition link_new :: "('w, 'b, 'g) Ext2Env \<Rightarrow> InodeReadingLocationInfo \<Rightarrow> nat \<times> nat \<Rightarrow> ('w, 'b, 'g, 'z, nat \<times> nat) cursor_io" where
  "link_new env location st =
     (let top = (\<lambda>ptr upd. fill_pointer env (self_get (\<lambda>c. unat (ptr (cl_inode c)))) (\<lambda>block. set_inode (upd (of_nat block))) (check_table1 env))
      in case location of
        Direct direct \<Rightarrow>
          fill_pointer env (\<lambda>(c, s). io_panics (map_option unat (list_get (in_direct_block_pointers (cl_inode c)) direct)) (c, s))
            (\<lambda>block. set_inode (\<lambda>i. i\<lparr>in_direct_block_pointers := (in_direct_block_pointers i)[direct := of_nat block]\<rparr>)) (io_ok ()) st
      | Single idx0 \<Rightarrow>
          io_bind (top in_single_indirect_block_pointer (\<lambda>p i. i\<lparr>in_single_indirect_block_pointer := p\<rparr>) st)
            (fill_pointer env (on_table1 (get_entry idx0)) (\<lambda>b. on_table1 (on_entry (entry_set idx0 b))) (io_ok ()))
      | Double idx0 idx1 \<Rightarrow>
          io_bind (top in_double_indirect_block_pointer (\<lambda>p i. i\<lparr>in_double_indirect_block_pointer := p\<rparr>) st) (\<lambda>st.
          io_bind (fill_pointer env (on_table1 (get_entry idx0)) (\<lambda>b. on_table1 (on_entry (entry_set idx0 b))) (check_table2 env) st)
            (fill_pointer env (on_table2 (get_entry idx1)) (\<lambda>b. on_table2 (on_entry (entry_set idx1 b))) (io_ok ())))
      | Triple idx0 idx1 idx2 \<Rightarrow>
          io_bind (top in_triple_indirect_block_pointer (\<lambda>p i. i\<lparr>in_triple_indirect_block_pointer := p\<rparr>) st) (\<lambda>st.
          io_bind (fill_pointer env (on_table1 (get_entry idx0)) (\<lambda>b. on_table1 (on_entry (entry_set idx0 b))) (check_table2 env) st) (\<lambda>st.
          io_bind (fill_pointer env (on_table2 (get_entry idx1)) (\<lambda>b. on_table2 (on_entry (entry_set idx1 b))) (check_table3 env) st)
            (fill_pointer env (on_table3 (get_entry idx2)) (\<lambda>b. on_table3 (on_entry (entry_set idx2 b))) (io_ok ())))))"

text \<open>The result is the number of blocks allocated, tables included.\<close>

definition allocate_new_block :: "('w, 'b, 'g) Ext2Env \<Rightarrow> ('w, 'b, 'g, 'z, nat) cursor_io" where
  "allocate_new_block env =
     io_bind (self_get cl_max_block_exclusive) (\<lambda>n.
     io_bind
       (if n = 0 then io_bind (cursor_seek env 0) (\<lambda>_. io_ok 0)
        else io_bind (self_get (\<lambda>c. sub64 (block_count c) 1)) (\<lambda>m.
             io_bind (io_panics m) (\<lambda>last_block.
             io_bind (cursor_seek env last_block) (\<lambda>_.
             io_bind (self_get get_next_block) (\<lambda>m.
             io_bind (io_try m) (\<lambda>block.
             io_bind (vol_get (\<lambda>v. group_of_block v block)) (\<lambda>m.
             io_bind (io_panics m) (\<lambda>g.
             io_bind (self_get (\<lambda>c. location_advance (cl_location c))) (\<lambda>m.
             io_bind (io_panics m) (\<lambda>(moved, location).
             io_bind (self_modify (\<lambda>c. c\<lparr>cl_location := location\<rparr>)) (\<lambda>_.
             if moved then io_ok g else io_err MaximumSizeReached))))))))))) (\<lambda>g.
     io_bind (vol_get ev_sectors_per_block) (\<lambda>sectors_per_block.
     io_bind (self_get (\<lambda>c. mul32 (block_count c) sectors_per_block)) (\<lambda>m.
     io_bind (io_panics m) (\<lambda>current_sector_count.
       if 2 ^ 32 - 1 < current_sector_count + 4 * sectors_per_block then io_err MaximumSizeReached
       else io_bind (self_get (\<lambda>c. loc_location (cl_location c))) (\<lambda>location.
            io_bind (link_new env location (g, 0)) (\<lambda>(_, alloc_count).
            io_bind (self_modify (\<lambda>c. c\<lparr>cl_max_block_exclusive := cl_max_block_exclusive c + 1\<rparr>)) (\<lambda>_.
            io_ok alloc_count))))))))"

definition flush_table :: "('w, 'b, 'g) Ext2Env \<Rightarrow> (PointerTable \<times> ('w, 'b, 'g, 'z) vol_world, unit) vio" where
  "flush_table env = (\<lambda>(t, s).
     if tb_dirty t \<and> tb_addr t \<noteq> 0
     then io_bind (on_snd (ext2_write_block env (tb_addr t) (tb_data t))) (\<lambda>_. self_modify (\<lambda>t. t\<lparr>tb_dirty := False\<rparr>)) (t, s)
     else io_ok () (t, s))"

definition cursor_flush :: "('w, 'b, 'g) Ext2Env \<Rightarrow> ('w, 'b, 'g, 'z, unit) cursor_io" where
  "cursor_flush env =
     io_bind (on_table1 (flush_table env)) (\<lambda>_.
     io_bind (on_table2 (flush_table env)) (\<lambda>_.
     io_bind (on_table3 (flush_table env)) (\<lambda>_ (c, s).
       if cl_inode_dirty c
       then io_bind (on_snd (update_inode env (cl_inode c))) (\<lambda>_. self_modify (\<lambda>c. c\<lparr>cl_inode_dirty := False\<rparr>)) (c, s)
       else io_ok () (c, s))))"

section \<open>Pointers on disk\<close>

text \<open>The specification: the pointer at an index of a table block, and the block of a location of a file.\<close>

definition pointer_at :: "u8 list list \<Rightarrow> nat \<Rightarrow> nat \<Rightarrow> nat" where
  "pointer_at disk addr idx = unat (from_le_bytes (slice_of (disk ! addr) (idx * 4) (idx * 4 + 4)) :: u32)"

fun file_block :: "u8 list list \<Rightarrow> Inode \<Rightarrow> InodeReadingLocationInfo \<Rightarrow> nat" where
  "file_block disk i (Direct a) = unat (in_direct_block_pointers i ! a)"
| "file_block disk i (Single a) = pointer_at disk (unat (in_single_indirect_block_pointer i)) a"
| "file_block disk i (Double a b) = pointer_at disk (pointer_at disk (unat (in_double_indirect_block_pointer i)) a) b"
| "file_block disk i (Triple a b c) =
     pointer_at disk (pointer_at disk (pointer_at disk (unat (in_triple_indirect_block_pointer i)) a) b) c"

text \<open>The tables on the way to a block exist, and so does the block.\<close>

definition block_exists :: "u8 list list \<Rightarrow> nat \<Rightarrow> bool" where
  "block_exists disk n \<longleftrightarrow> 0 < n \<and> n < length disk"

fun mapped :: "u8 list list \<Rightarrow> Inode \<Rightarrow> InodeReadingLocationInfo \<Rightarrow> bool" where
  "mapped disk i (Direct a) \<longleftrightarrow> a < length (in_direct_block_pointers i) \<and> block_exists disk (file_block disk i (Direct a))"
| "mapped disk i (Single a) \<longleftrightarrow> block_exists disk (unat (in_single_indirect_block_pointer i)) \<and> block_exists disk (file_block disk i (Single a))"
| "mapped disk i (Double a b) \<longleftrightarrow> block_exists disk (unat (in_double_indirect_block_pointer i)) \<and>
     block_exists disk (pointer_at disk (unat (in_double_indirect_block_pointer i)) a) \<and> block_exists disk (file_block disk i (Double a b))"
| "mapped disk i (Triple a b c) \<longleftrightarrow> block_exists disk (unat (in_triple_indirect_block_pointer i)) \<and>
     block_exists disk (pointer_at disk (unat (in_triple_indirect_block_pointer i)) a) \<and>
     block_exists disk (pointer_at disk (pointer_at disk (unat (in_triple_indirect_block_pointer i)) a) b) \<and>
     block_exists disk (file_block disk i (Triple a b c))"

text \<open>A table as the disk has it, with nothing to write back.\<close>

definition table_clean :: "nat \<Rightarrow> u8 list list \<Rightarrow> PointerTable \<Rightarrow> bool" where
  "table_clean bs disk t \<longleftrightarrow> length (tb_data t) = bs \<and> \<not> tb_dirty t \<and>
     (tb_addr t \<noteq> 0 \<longrightarrow> tb_addr t < length disk \<and> tb_data t = disk ! tb_addr t)"

definition cursor_clean :: "nat \<Rightarrow> u8 list list \<Rightarrow> CachedInodeReadingLocation \<Rightarrow> bool" where
  "cursor_clean bs disk c \<longleftrightarrow> table_clean bs disk (cl_table1 c) \<and> table_clean bs disk (cl_table2 c) \<and>
     table_clean bs disk (cl_table3 c) \<and> \<not> cl_inode_dirty c"

lemma follow_clean:
  assumes "table_clean bs disk t" "tb_addr t = addr" "0 < addr" "idx * 4 + 4 \<le> bs"
  shows "follow t idx = Some (Inr (pointer_at disk addr idx))"
  using assms by (auto simp: follow_def entry_get_def table_clean_def pointer_at_def slice_get_def)

text \<open>What the checks of the three tables do to a clean cursor.\<close>

definition tables_moved :: "CachedInodeReadingLocation \<Rightarrow> CachedInodeReadingLocation \<Rightarrow> bool" where
  "tables_moved c c' \<longleftrightarrow> (\<exists>t1 t2 t3. c' = c\<lparr>cl_table1 := t1, cl_table2 := t2, cl_table3 := t3\<rparr>)"

text \<open>The \<open>i\<close>-th block of a file, and a cursor that stands on it.\<close>

definition file_location :: "nat \<Rightarrow> nat \<Rightarrow> InodeReadingLocationInfo" where
  "file_location bs i = loc_location (the (location_new (bs div 4) i))"

definition block_of_file :: "nat \<Rightarrow> u8 list list \<Rightarrow> Inode \<Rightarrow> nat \<Rightarrow> nat" where
  "block_of_file bs disk inode i = file_block disk inode (file_location bs i)"

definition file_mapped :: "nat \<Rightarrow> u8 list list \<Rightarrow> Inode \<Rightarrow> nat \<Rightarrow> bool" where
  "file_mapped bs disk inode n \<longleftrightarrow> 4 \<le> bs \<and> bs < 2 ^ 18 \<and> n \<le> loc_capacity (bs div 4) \<and> n \<le> 2 ^ 32 \<and> (\<forall>i < n. mapped disk inode (file_location bs i))"

definition cursor_at :: "nat \<Rightarrow> u8 list list \<Rightarrow> nat \<Rightarrow> CachedInodeReadingLocation \<Rightarrow> bool" where
  "cursor_at bs disk i c \<longleftrightarrow> cursor_clean bs disk c \<and> loc_ok (cl_location c) \<and> loc_table_size (cl_location c) = bs div 4 \<and>
     loc_index (cl_location c) = i \<and> get_next_block c = Some (Inr (block_of_file bs disk (cl_inode c) i))"

definition cursor_same :: "CachedInodeReadingLocation \<Rightarrow> CachedInodeReadingLocation \<Rightarrow> bool" where
  "cursor_same c c' \<longleftrightarrow> cl_inode c' = cl_inode c \<and> cl_max_block_exclusive c' = cl_max_block_exclusive c \<and> cl_block_size c' = cl_block_size c"

lemma file_location_of: "loc_ok l \<Longrightarrow> loc_table_size l = bs div 4 \<Longrightarrow> bs < 2 ^ 18 \<Longrightarrow> file_location bs (loc_index l) = loc_location l"
  using location_new_index [of l] by (simp add: file_location_def)

lemma file_mapped_index: "file_mapped bs disk inode n \<Longrightarrow> i < n \<Longrightarrow> i < 2 ^ 32"
  by (simp add: file_mapped_def)

context ext2_on_file
begin

lemma load_table_clean:
  assumes ok: "ok (w, v)" and t: "table_clean bs (volume_disk bytes (w, v)) t" and addr: "addr = 0 \<or> addr < ev_block_count v"
  shows "\<exists>t' w' c. load_table env addr (t, w, v) = Some (Inr (), t', w', v\<lparr>ev_block_cache := c\<rparr>) \<and>
    table_clean bs (volume_disk bytes (w, v)) t' \<and> tb_addr t' = addr \<and> ok (w', v\<lparr>ev_block_cache := c\<rparr>) \<and> bytes w' = bytes w"
proof -
  have save: "save_if_addresses_differ env addr (t, w, v) = Some (Inr (), t, w, v)"
    using t by (simp add: save_if_addresses_differ_def table_clean_def io_ok_def)
  have same: "v\<lparr>ev_block_cache := ev_block_cache v\<rparr> = v" by simp
  consider "addr = 0" | "addr \<noteq> 0" "tb_addr t = addr" | "addr \<noteq> 0" "tb_addr t \<noteq> addr" by blast
  then show ?thesis
  proof cases
    case 1
    then show ?thesis using save t ok same
      by (intro exI [of _ "t\<lparr>tb_addr := 0\<rparr>"] exI [of _ w] exI [of _ "ev_block_cache v"])
        (simp add: load_table_def io_bind_def io_ok_def table_clean_def)
  next
    case 2
    then show ?thesis using save t ok same
      by (intro exI [of _ t] exI [of _ w] exI [of _ "ev_block_cache v"]) (simp add: load_table_def io_bind_def io_ok_def)
  next
    case 3
    then have lba: "addr < ev_block_count v" using addr by simp
    obtain w' c where r: "ext2_read_block env addr (tb_data t) (w, v) = Some ((Inr bs, volume_disk bytes (w, v) ! addr), w', v\<lparr>ev_block_cache := c\<rparr>)"
      "ok (w', v\<lparr>ev_block_cache := c\<rparr>)" "bytes w' = bytes w"
      using read_block_disk [OF ok lba, of "tb_data t"] t by (auto simp: table_clean_def)
    let ?t = "t\<lparr>tb_data := volume_disk bytes (w, v) ! addr, tb_addr := addr\<rparr>"
    have "load_table env addr (t, w, v) = Some (Inr (), ?t, w', v\<lparr>ev_block_cache := c\<rparr>)"
      using save 3 r(1) by (simp add: load_table_def io_bind_def io_ok_def)
    moreover have "table_clean bs (volume_disk bytes (w, v)) ?t"
      using t lba block_length [OF ok lba] by (simp add: table_clean_def volume_disk_def)
    ultimately show ?thesis using r(2,3) by (intro exI [of _ ?t]) auto
  qed
qed

text \<open>The state a read-only step leaves: the same bytes, a coherent volume that differs in its cache.\<close>

definition read_step :: "('w, 'b, 'g, 'z) vol_world \<Rightarrow> ('w, 'b, 'g, 'z) vol_world \<Rightarrow> bool" where
  "read_step s s' \<longleftrightarrow> ok s' \<and> bytes (fst s') = bytes (fst s) \<and> (\<exists>k. snd s' = (snd s)\<lparr>ev_block_cache := k\<rparr>)"

lemma read_step_refl: "ok s \<Longrightarrow> read_step s s"
  by (cases s) (simp add: read_step_def exI [of _ "ev_block_cache (snd s)"])

lemma read_step_trans: "read_step s s' \<Longrightarrow> read_step s' s'' \<Longrightarrow> read_step s s''"
  by (auto simp: read_step_def)

lemma read_step_simps:
  assumes "read_step s s'"
  shows "volume_disk bytes s' = volume_disk bytes s" "ok s'" "ev_block_size (snd s') = ev_block_size (snd s)"
    "ev_block_count (snd s') = ev_block_count (snd s)" "ev_superblock (snd s') = ev_superblock (snd s)"
  using assms by (cases s; cases s'; auto simp: read_step_def volume_disk_def)+

lemma load_step:
  assumes "ok s" "table_clean bs (volume_disk bytes s) t" "addr = 0 \<or> addr < ev_block_count (snd s)"
  obtains t' s' where "load_table env addr (t, s) = Some (Inr (), t', s')" "table_clean bs (volume_disk bytes s) t'" "tb_addr t' = addr" "read_step s s'"
proof -
  obtain w v where s: "s = (w, v)" by force
  obtain t' w' c where l: "load_table env addr (t, w, v) = Some (Inr (), t', w', v\<lparr>ev_block_cache := c\<rparr>)"
      "table_clean bs (volume_disk bytes (w, v)) t'" "tb_addr t' = addr" "ok (w', v\<lparr>ev_block_cache := c\<rparr>)" "bytes w' = bytes w"
    using load_table_clean [of w v t addr] assms unfolding s snd_conv by blast
  have "read_step s (w', v\<lparr>ev_block_cache := c\<rparr>)"
    unfolding read_step_def s by (intro conjI exI [of _ c]) (simp_all add: l)
  then show ?thesis using that [of t' "(w', v\<lparr>ev_block_cache := c\<rparr>)"] l(1-3) unfolding s by blast
qed

lemma check_tables_clean:
  assumes ok: "ok s" and clean: "cursor_clean bs (volume_disk bytes s) c" and loc: "loc_ok (cl_location c)" "loc_table_size (cl_location c) = bs div 4"
    and map: "mapped (volume_disk bytes s) (cl_inode c) (loc_location (cl_location c))"
  shows "\<exists>c' s'. check_tables env (c, s) = Some (Inr (), c', s') \<and> tables_moved c c' \<and> cursor_clean bs (volume_disk bytes s) c' \<and> read_step s s' \<and>
    get_next_block c' = Some (Inr (file_block (volume_disk bytes s) (cl_inode c) (loc_location (cl_location c))))"
proof -
  let ?d = "volume_disk bytes s" and ?l = "loc_location (cl_location c)" and ?i = "cl_inode c"
  have n: "length ?d = ev_block_count (snd s)" by (cases s) (simp add: volume_disk_def)
  have idx: "k * 4 + 4 \<le> bs" if "k < bs div 4" for k using that by linarith
  obtain t1 s1 where t1: "load_table env (table1_target c) (cl_table1 c, s) = Some (Inr (), t1, s1)" "table_clean bs ?d t1" "tb_addr t1 = table1_target c"
      "read_step s s1"
    by (rule load_step [OF ok, of "cl_table1 c" "table1_target c"])
      (use clean map n in \<open>auto simp: cursor_clean_def table1_target_def block_exists_def split: InodeReadingLocationInfo.splits\<close>)
  let ?c1 = "c\<lparr>cl_table1 := t1\<rparr>"
  define a2 where "a2 = (case ?l of Double p _ \<Rightarrow> pointer_at ?d (table1_target c) p | Triple p _ _ \<Rightarrow> pointer_at ?d (table1_target c) p | _ \<Rightarrow> 0)"
  have tt2: "table2_target ?c1 = Some (Inr a2)"
    using follow_clean [OF t1(2,3)] map loc idx
    by (cases ?l) (auto simp: table2_target_def a2_def table1_target_def block_exists_def loc_ok_def Let_def)
  note r1 = read_step_simps [OF t1(4)]
  obtain t2 s2 where t2: "load_table env a2 (cl_table2 c, s1) = Some (Inr (), t2, s2)" "table_clean bs ?d t2" "tb_addr t2 = a2" "read_step s1 s2"
    by (rule load_step [OF r1(2), of "cl_table2 c" a2, unfolded r1(1,4)])
      (use clean map n in \<open>auto simp: cursor_clean_def a2_def table1_target_def block_exists_def split: InodeReadingLocationInfo.splits\<close>)
  let ?c2 = "?c1\<lparr>cl_table2 := t2\<rparr>"
  define a3 where "a3 = (case ?l of Double _ p \<Rightarrow> pointer_at ?d a2 p | Triple _ p _ \<Rightarrow> pointer_at ?d a2 p | _ \<Rightarrow> 0)"
  have tt3: "table3_target ?c2 = Some (Inr a3)"
    using follow_clean [OF t2(2,3)] map loc idx
    by (cases ?l) (auto simp: table3_target_def a3_def a2_def table1_target_def block_exists_def loc_ok_def Let_def)
  note r2 = read_step_simps [OF read_step_trans [OF t1(4) t2(4)]]
  obtain t3 s3 where t3: "load_table env a3 (cl_table3 c, s2) = Some (Inr (), t3, s3)" "table_clean bs ?d t3" "tb_addr t3 = a3" "read_step s2 s3"
    by (rule load_step [OF r2(2), of "cl_table3 c" a3, unfolded r2(1,4)])
      (use clean map n in \<open>auto simp: cursor_clean_def a3_def a2_def table1_target_def block_exists_def split: InodeReadingLocationInfo.splits\<close>)
  let ?c3 = "?c2\<lparr>cl_table3 := t3\<rparr>"
  have run: "check_tables env (c, s) = Some (Inr (), ?c3, s3)"
    using t1(1) t2(1) t3(1) tt2 tt3
    by (simp add: check_tables_def check_table1_def check_table2_def check_table3_def io_bind_def self_get_def io_get_def io_try_def io_panics_def
        io_result_def on_table1_def on_table2_def on_table3_def zoom_def)
  have "get_next_block ?c3 = Some (Inr (file_block ?d ?i ?l))"
    using follow_clean [OF t1(2,3)] follow_clean [OF t2(2,3)] follow_clean [OF t3(2,3)] map loc idx
    by (cases ?l)
      (auto simp: get_next_block_def a3_def a2_def table1_target_def block_exists_def loc_ok_def Let_def list_get_def)
  moreover have "tables_moved c ?c3" unfolding tables_moved_def by blast
  moreover have "cursor_clean bs ?d ?c3" using clean t1(2) t2(2) t3(2) by (simp add: cursor_clean_def)
  ultimately show ?thesis using run read_step_trans [OF read_step_trans [OF t1(4) t2(4)] t3(4)] by blast
qed

lemma arrive:
  assumes ok: "ok s" and clean: "cursor_clean bs (volume_disk bytes s) c" and loc: "loc_ok (cl_location c)" "loc_table_size (cl_location c) = bs div 4"
    "loc_index (cl_location c) = i" and map: "file_mapped bs (volume_disk bytes s) (cl_inode c) n" "i < n"
  obtains c' s' where "check_tables env (c, s) = Some (Inr (), c', s')" "cursor_at bs (volume_disk bytes s) i c'" "cursor_same c c'" "read_step s s'"
proof -
  have l: "file_location bs i = loc_location (cl_location c)"
    using file_location_of [OF loc(1,2)] map(1) loc(3) by (simp add: file_mapped_def)
  then have "mapped (volume_disk bytes s) (cl_inode c) (loc_location (cl_location c))" using map by (auto simp: file_mapped_def)
  from check_tables_clean [OF ok clean loc(1,2) this] obtain c' s' where c': "check_tables env (c, s) = Some (Inr (), c', s')" "tables_moved c c'"
      "cursor_clean bs (volume_disk bytes s) c'" "read_step s s'"
      "get_next_block c' = Some (Inr (file_block (volume_disk bytes s) (cl_inode c) (loc_location (cl_location c))))"
    by blast
  show ?thesis
    by (rule that [OF c'(1) _ _ c'(4)]) (use c'(2,3,5) loc l in \<open>auto simp: tables_moved_def cursor_at_def cursor_same_def block_of_file_def\<close>)
qed

lemma cursor_seek_clean:
  assumes ok: "ok s" and clean: "cursor_clean bs (volume_disk bytes s) c" and map: "file_mapped bs (volume_disk bytes s) (cl_inode c) n" "i < n"
  obtains c' s' where "cursor_seek env i (c, s) = Some (Inr (), c', s')" "cursor_at bs (volume_disk bytes s) i c'" "cursor_same c c'" "read_step s s'"
proof -
  have ts: "0 < bs div 4" "bs div 4 < 2 ^ 16" "i < loc_capacity (bs div 4)" using map by (auto simp: file_mapped_def)
  obtain l where l: "location_new (bs div 4) i = Some l" "loc_table_size l = bs div 4" "loc_index l = i" and lok: "loc_ok l"
    by (rule location_new_Some [OF ts(1,2), of i]) (use ts(3) in auto)
  let ?c = "c\<lparr>cl_location := l\<rparr>"
  obtain c' s' where c': "check_tables env (?c, s) = Some (Inr (), c', s')" "cursor_at bs (volume_disk bytes s) i c'" "cursor_same ?c c'" "read_step s s'"
    by (rule arrive [OF ok, of ?c i n]) (use clean map l lok in \<open>simp_all add: cursor_clean_def\<close>)
  have "ev_block_size (snd s) = bs" using ok by (cases s) (simp add: volume_ok_def volume_geometry_def)
  then have "cursor_seek env i (c, s) = Some (Inr (), c', s')"
    using c'(1) l(1) by (cases s) (simp add: cursor_seek_def io_bind_def vol_get_def io_get_def io_panics_def self_modify_def io_modify_def)
  then show ?thesis using that c'(2-4) by (simp add: cursor_same_def)
qed

lemma cursor_advance_clean:
  assumes ok: "ok s" and at: "cursor_at bs (volume_disk bytes s) i c" and map: "file_mapped bs (volume_disk bytes s) (cl_inode c) n" "i + 1 < n"
    and max: "cl_max_block_exclusive c = int n"
  obtains c' s' where "cursor_advance env (c, s) = Some (Inr True, c', s')" "cursor_at bs (volume_disk bytes s) (i + 1) c'" "cursor_same c c'" "read_step s s'"
proof -
  have l: "loc_ok (cl_location c)" "loc_table_size (cl_location c) = bs div 4" "loc_index (cl_location c) = i" "cursor_clean bs (volume_disk bytes s) c"
    using at by (simp_all add: cursor_at_def)
  have ts: "0 < loc_table_size (cl_location c)" using map(1) l(2) by (auto simp: file_mapped_def)
  have "\<not> loc_index (cl_location c) + 1 = loc_capacity (loc_table_size (cl_location c))" using map l by (simp add: file_mapped_def)
  then obtain l' where l': "location_advance (cl_location c) = Some (True, l')" "loc_ok l'" "loc_table_size l' = bs div 4" "loc_index l' = i + 1"
    using location_advance_step [OF l(1) ts] l by auto
  let ?c = "c\<lparr>cl_location := l'\<rparr>"
  obtain c' s' where c': "check_tables env (?c, s) = Some (Inr (), c', s')" "cursor_at bs (volume_disk bytes s) (i + 1) c'" "cursor_same ?c c'" "read_step s s'"
    by (rule arrive [OF ok, of ?c "i + 1" n]) (use l(4) map l' in \<open>simp_all add: cursor_clean_def\<close>)
  have "current_block_idx (cl_location c) = Some i" using current_block_idx_exact [of "cl_location c"] l(3) map by (simp add: file_mapped_def)
  then have "cursor_advance env (c, s) = Some (Inr True, c', s')"
    using c'(1) l'(1) max map(2)
    by (cases s) (simp add: cursor_advance_def io_bind_def self_get_def io_get_def io_panics_def self_modify_def io_modify_def io_ok_def del: current_block_idx.simps)
  then show ?thesis using that c'(2-4) by (simp add: cursor_same_def)
qed

lemma cursor_read_at:
  assumes ok: "ok s" and at: "cursor_at bs (volume_disk bytes s) i c" and map: "file_mapped bs (volume_disk bytes s) (cl_inode c) n" "i < n"
    and buf: "length buf = bs" and max: "cl_max_block_exclusive c = int n"
  obtains s' fill where "cursor_read_block env buf (c, s) = Some ((Inr fill, volume_disk bytes s ! block_of_file bs (volume_disk bytes s) (cl_inode c) i), c, s')"
    "read_step s s'" "i + 1 < n \<longrightarrow> fill = bs" "fill \<le> bs"
proof -
  obtain w v where s: "s = (w, v)" by force
  let ?b = "block_of_file bs (volume_disk bytes s) (cl_inode c) i"
  have "mapped (volume_disk bytes s) (cl_inode c) (file_location bs i)" using map by (simp add: file_mapped_def)
  then have "block_exists (volume_disk bytes s) ?b" by (cases "file_location bs i") (simp_all add: block_of_file_def)
  then have lba: "?b < ev_block_count v" by (simp add: s block_exists_def volume_disk_def)
  obtain w' k where rd: "ext2_read_block env ?b buf (w, v) = Some ((Inr bs, volume_disk bytes s ! ?b), w', v\<lparr>ev_block_cache := k\<rparr>)"
      "ok (w', v\<lparr>ev_block_cache := k\<rparr>)" "bytes w' = bytes w"
    using read_block_disk [of w v ?b buf] ok lba buf unfolding s by blast
  have bs: "ev_block_size v = bs" using ok by (simp add: s volume_ok_def volume_geometry_def)
  have idx: "current_block_idx (cl_location c) = Some i" "get_next_block c = Some (Inr ?b)"
    using current_block_idx_exact [of "cl_location c"] at map by (simp_all add: cursor_at_def file_mapped_def)
  define fill where "fill = (if i + 1 < n then bs else if unat (in_size_lo (cl_inode c)) mod bs = 0 then bs else unat (in_size_lo (cl_inode c)) mod bs)"
  have f: "block_fill c bs i = Some fill" using bs_positive max by (simp add: block_fill_def fill_def)
  have "read_step s (w', v\<lparr>ev_block_cache := k\<rparr>)"
    unfolding read_step_def s by (intro conjI exI [of _ k]) (simp_all add: rd)
  moreover have "fill \<le> bs" using bs_positive by (simp add: fill_def less_imp_le)
  moreover have "cursor_read_block env buf (c, s) = Some ((Inr fill, volume_disk bytes s ! ?b), c, w', v\<lparr>ev_block_cache := k\<rparr>)"
    using rd(1) buf bs idx f by (simp add: s cursor_read_block_def del: bind_eq_Some_iff current_block_idx.simps)
  ultimately show ?thesis using that [of fill "(w', v\<lparr>ev_block_cache := k\<rparr>)"] by (simp add: fill_def)
qed

end

end
