(* ===== verification/Ext2_File.thy ===== *)
theory Ext2_File
  imports Ext2_Cursor DevFs
begin

text \<open>
  Open files of an ext2 volume: \<^verbatim>\<open>FileHandle\<close> of \<^verbatim>\<open>drivers/fs/phys/ext2/file.rs\<close>, a
  cursor, an offset and the current block of the file in a buffer. Loops whose progress depends on
  the volume are \<^theory_text>\<open>partial_function (option)\<close>; not returning is \<open>None\<close>.
\<close>

record BlockCacheInfo =
  bi_block :: nat
  bi_size :: nat
  bi_dirty :: bool

record FileHandle =
  fh_location :: CachedInodeReadingLocation
  fh_open_mode :: u64
  fh_offset :: nat
  fh_size :: nat
  fh_block_cache :: "u8 list"
  fh_block_cache_info :: "BlockCacheInfo option"

type_synonym ('w, 'b, 'g, 'z, 'a) file_io = "(FileHandle \<times> ('w, 'b, 'g, 'z) vol_world, 'a) vio"

definition on_location :: "(CachedInodeReadingLocation \<times> 's, 'a) vio \<Rightarrow> (FileHandle \<times> 's, 'a) vio" where
  "on_location = zoom fh_location (\<lambda>l h. h\<lparr>fh_location := l\<rparr>)"

definition fh_new :: "('w, 'b, 'g) Ext2Env \<Rightarrow> Inode \<Rightarrow> u64 \<Rightarrow> (('w, 'b, 'g, 'z) vol_world, FileHandle) vio" where
  "fh_new env inode open_mode =
     io_bind (io_get (\<lambda>(w, v). (ev_block_size v, inode_get_size (volume_size64 v) inode))) (\<lambda>(bs, size_bytes).
     io_bind (cursor_new env inode) (\<lambda>location.
     io_ok \<lparr>fh_location = location, fh_open_mode = open_mode, fh_offset = 0, fh_size = size_bytes,
       fh_block_cache = alloc_boxed_slice (ex_uninit env) bs, fh_block_cache_info = None\<rparr>))"

definition set_info_dirty :: "bool \<Rightarrow> FileHandle \<Rightarrow> FileHandle" where
  "set_info_dirty d h = h\<lparr>fh_block_cache_info := map_option (\<lambda>i. i\<lparr>bi_dirty := d\<rparr>) (fh_block_cache_info h)\<rparr>"

definition info_is_dirty :: "FileHandle \<Rightarrow> bool" where
  "info_is_dirty h = (case fh_block_cache_info h of None \<Rightarrow> False | Some i \<Rightarrow> bi_dirty i)"

definition fh_flush :: "('w, 'b, 'g) Ext2Env \<Rightarrow> ('w, 'b, 'g, 'z, unit) file_io" where
  "fh_flush env =
     io_bind (on_location (cursor_flush env)) (\<lambda>_ (h, s).
       if info_is_dirty h
       then io_bind (on_location (cursor_write_block env (fh_block_cache h))) (\<lambda>_. self_modify (set_info_dirty False)) (h, s)
       else io_ok () (h, s))"

definition internal_update_buffer :: "('w, 'b, 'g) Ext2Env \<Rightarrow> ('w, 'b, 'g, 'z, unit) file_io" where
  "internal_update_buffer env = (\<lambda>(h, s).
     case cursor_read_block env (fh_block_cache h) (fh_location h, s) of
       None \<Rightarrow> None
     | Some ((Inr n, data), l, s') \<Rightarrow> do {
         idx \<leftarrow> current_block_idx (cl_location l);
         io_ok () (h\<lparr>fh_location := l, fh_block_cache := data,
           fh_block_cache_info := Some \<lparr>bi_block = idx, bi_size = n mod 2 ^ 32, bi_dirty = False\<rparr>\<rparr>, s')
       }
     | Some ((Inl e, data), l, s') \<Rightarrow> io_err e (h\<lparr>fh_location := l, fh_block_cache := data, fh_block_cache_info := None\<rparr>, s'))"

text \<open>\<^verbatim>\<open>try_into::<u32>\<close>.\<close>

definition try_u32 :: "nat \<Rightarrow> nat vresult" where
  "try_u32 n = (if n < 2 ^ 32 then Inr n else Inl (DriverError ''TryFromIntError''))"

definition div_checked :: "nat \<Rightarrow> nat \<Rightarrow> nat panics" where
  "div_checked a b = (if b = 0 then None else Some (a div b))"

definition fh_seek :: "('w, 'b, 'g) Ext2Env \<Rightarrow> SeekPosition \<Rightarrow> ('w, 'b, 'g, 'z, unit) file_io" where
  "fh_seek env p = (\<lambda>(h, w, v).
     io_bind (io_result (ok_or (fseek_helper p (fh_offset h) (fh_size h)) InvalidSeekPosition)) (\<lambda>new_offset.
     io_bind (io_panics (div_checked new_offset (ev_block_size v))) (\<lambda>q.
     io_bind (io_result (try_u32 q)) (\<lambda>block_offset.
     io_bind (self_modify (\<lambda>h. h\<lparr>fh_offset := new_offset\<rparr>)) (\<lambda>_.
     io_bind (on_location (cursor_seek env block_offset)) (\<lambda>_.
     internal_update_buffer env))))) (h, w, v))"

definition set_file_size :: "('w, 'b, 'g) Ext2Env \<Rightarrow> nat \<Rightarrow> (Inode \<Rightarrow> Inode panics) \<Rightarrow> ('w, 'b, 'g, 'z, unit) file_io" where
  "set_file_size env new_size adjust = (\<lambda>(h, w, v). do {
     inode \<leftarrow> adjust (inode_set_size (volume_size64 v) new_size (cl_inode (fh_location h)));
     let h' = h\<lparr>fh_size := new_size, fh_location := (fh_location h)\<lparr>cl_inode := inode\<rparr>\<rparr>;
     on_snd (update_inode env inode) (h', w, v)
   })"

partial_function (option) truncate_loop :: "('w, 'b, 'g) Ext2Env \<Rightarrow> nat \<Rightarrow> FileHandle \<times> ('w, 'b, 'g, 'z) vol_world \<Rightarrow>
    (unit vresult \<times> FileHandle \<times> ('w, 'b, 'g, 'z) vol_world) panics" where
  [code]: "truncate_loop env new_block_count s =
     (if new_block_count < block_count (fh_location (fst s))
      then (case on_location (free_last_block env) s of
              None \<Rightarrow> None
            | Some (r, s') \<Rightarrow> (case r of Inl e \<Rightarrow> Some (Inl e, s') | Inr _ \<Rightarrow> truncate_loop env new_block_count s'))
      else Some (Inr (), s))"

definition fh_truncate :: "('w, 'b, 'g) Ext2Env \<Rightarrow> nat \<Rightarrow> ('w, 'b, 'g, 'z, unit) file_io" where
  "fh_truncate env new_size = (\<lambda>(h, w, v).
     if fh_size h < new_size then io_err InvalidArgument (h, w, v)
     else do {
       _ \<leftarrow> assert_rust (ev_block_size v \<noteq> 0);
       io_bind (io_result (try_u32 (div_ceil new_size (ev_block_size v)))) (\<lambda>new_block_count.
       io_bind (truncate_loop env new_block_count) (\<lambda>_.
       io_bind (set_file_size env new_size Some) (\<lambda>_.
       io_bind (fh_flush env) (\<lambda>_.
       io_bind (self_modify (\<lambda>h. h\<lparr>fh_block_cache_info := None\<rparr>)) (\<lambda>_.
       fh_seek env (FromStart new_size)))))) (h, w, v)
     })"

partial_function (option) grow_loop :: "('w, 'b, 'g) Ext2Env \<Rightarrow> nat \<Rightarrow> nat \<Rightarrow> FileHandle \<times> ('w, 'b, 'g, 'z) vol_world \<Rightarrow>
    (nat vresult \<times> FileHandle \<times> ('w, 'b, 'g, 'z) vol_world) panics" where
  [code]: "grow_loop env new_block_count diff_alloc s =
     (if block_count (fh_location (fst s)) < new_block_count
      then (case on_location (allocate_new_block env) s of
              None \<Rightarrow> None
            | Some (r, s') \<Rightarrow>
                (case r of
                   Inl e \<Rightarrow> Some (Inl e, s')
                 | Inr n \<Rightarrow> do { diff \<leftarrow> add32 diff_alloc n; grow_loop env new_block_count diff s' }))
      else Some (Inr diff_alloc, s))"

definition fh_grow :: "('w, 'b, 'g) Ext2Env \<Rightarrow> nat \<Rightarrow> ('w, 'b, 'g, 'z, unit) file_io" where
  "fh_grow env new_size = (\<lambda>(h, w, v).
     if new_size < fh_size h then io_err InvalidArgument (h, w, v)
     else do {
       _ \<leftarrow> assert_rust (ev_block_size v \<noteq> 0);
       io_bind (io_result (try_u32 (div_ceil new_size (ev_block_size v)))) (\<lambda>new_block_count.
       io_bind (grow_loop env new_block_count 0) (\<lambda>diff_alloc.
       io_bind (set_file_size env new_size (\<lambda>inode. do {
           sectors \<leftarrow> mul32 diff_alloc (ev_sectors_per_block v);
           n \<leftarrow> add32 (unat (in_sectors_count inode)) sectors;
           Some (inode\<lparr>in_sectors_count := of_nat n\<rparr>)
         })) (\<lambda>_.
       io_bind (fh_flush env) (\<lambda>_.
       io_bind (self_modify (\<lambda>h. h\<lparr>fh_block_cache_info := None\<rparr>)) (\<lambda>_.
       fh_seek env (FromStart (fh_offset h))))))) (h, w, v)
     })"

text \<open>The buffer keeps what was copied into it when a later step fails. \<open>info_size\<close> is the size recorded before the loop.\<close>

partial_function (option) fh_read_loop ::
    "('w, 'b, 'g) Ext2Env \<Rightarrow> nat \<Rightarrow> nat \<Rightarrow> nat \<Rightarrow> u8 list \<Rightarrow> FileHandle \<times> ('w, 'b, 'g, 'z) vol_world \<Rightarrow>
     ((nat vresult \<times> u8 list) \<times> FileHandle \<times> ('w, 'b, 'g, 'z) vol_world) panics" where
  [code]: "fh_read_loop env max_count info_size n buffer s =
     (if n < max_count
      then (case on_location (cursor_advance env) s of
              None \<Rightarrow> None
            | Some (r, s1) \<Rightarrow>
                (case r of
                   Inl e \<Rightarrow> Some ((Inl e, buffer), s1)
                 | Inr moved \<Rightarrow>
                     (if \<not> moved then Some ((Inr n, buffer), s1)
                      else (case internal_update_buffer env s1 of
                              None \<Rightarrow> None
                            | Some (q, h2, w2) \<Rightarrow>
                                (case q of
                                   Inl e \<Rightarrow> Some ((Inl e, buffer), h2, w2)
                                 | Inr _ \<Rightarrow> do {
                                     let rem_copy = min (max_count - n) info_size;
                                     part \<leftarrow> slice_get (fh_block_cache h2) 0 rem_copy;
                                     buffer' \<leftarrow> copy_from_slice buffer n (n + rem_copy) part;
                                     offset \<leftarrow> add64 (fh_offset h2) rem_copy;
                                     fh_read_loop env max_count info_size (n + rem_copy) buffer' (h2\<lparr>fh_offset := offset\<rparr>, w2)
                                   })))))
      else Some ((Inr n, buffer), s))"

definition first_copy :: "nat \<Rightarrow> nat \<Rightarrow> u8 list \<Rightarrow> FileHandle \<Rightarrow> (nat \<times> u8 list \<times> FileHandle) panics" where
  "first_copy bs max_count buffer h = do {
     let curr_off = fh_offset h mod bs;
     let to_copy = min max_count (bs - curr_off);
     part \<leftarrow> slice_get (fh_block_cache h) curr_off (curr_off + to_copy);
     buffer' \<leftarrow> copy_from_slice buffer 0 to_copy part;
     offset \<leftarrow> add64 (fh_offset h) to_copy;
     Some (to_copy, buffer', h\<lparr>fh_offset := offset\<rparr>)
   }"

definition ensure_buffer :: "('w, 'b, 'g) Ext2Env \<Rightarrow> ('w, 'b, 'g, 'z, unit) file_io" where
  "ensure_buffer env = (\<lambda>(h, s). if fh_block_cache_info h = None then internal_update_buffer env (h, s) else io_ok () (h, s))"

definition fh_read :: "('w, 'b, 'g) Ext2Env \<Rightarrow> u8 list \<Rightarrow> FileHandle \<times> ('w, 'b, 'g, 'z) vol_world \<Rightarrow>
    ((nat vresult \<times> u8 list) \<times> FileHandle \<times> ('w, 'b, 'g, 'z) vol_world) panics" where
  "fh_read env buffer = (\<lambda>(h, w, v). do {
     avail \<leftarrow> sub64 (fh_size h) (fh_offset h);
     let max_count = min (length buffer) avail;
     let bs = ev_block_size v;
     (r, h2, w2) \<leftarrow> io_bind (fh_flush env) (\<lambda>_.
       io_bind (io_panics (div_checked (fh_offset h) bs)) (\<lambda>q. io_bind (ensure_buffer env) (\<lambda>_. io_ok (q mod 2 ^ 32)))) (h, w, v);
     (case r of
        Inl e \<Rightarrow> Some ((Inl e, buffer), h2, w2)
      | Inr current_block \<Rightarrow>
          (case fh_block_cache_info h2 of
             None \<Rightarrow> Some ((Inr 0, buffer), h2, w2)
           | Some info \<Rightarrow> do {
               (n, buffer', h3) \<leftarrow> (if current_block = bi_block info then first_copy bs max_count buffer h2 else Some (0, buffer, h2));
               fh_read_loop env max_count (bi_size info) n buffer' (h3, w2)
             }))
   })"

partial_function (option) fh_write_loop ::
    "('w, 'b, 'g) Ext2Env \<Rightarrow> nat \<Rightarrow> nat \<Rightarrow> nat \<Rightarrow> nat \<Rightarrow> u8 list \<Rightarrow> FileHandle \<times> ('w, 'b, 'g, 'z) vol_world \<Rightarrow>
     (nat vresult \<times> FileHandle \<times> ('w, 'b, 'g, 'z) vol_world) panics" where
  [code]: "fh_write_loop env bs max_count info_size n buffer s =
     (if n < max_count
      then (case io_bind (fh_flush env) (\<lambda>_. on_location (cursor_advance env)) s of
              None \<Rightarrow> None
            | Some (r, s1) \<Rightarrow>
                (case r of
                   Inl e \<Rightarrow> Some (Inl e, s1)
                 | Inr moved \<Rightarrow>
                     (if \<not> moved then Some (Inr n, s1)
                      else (case (if min (max_count - n) info_size \<noteq> bs then internal_update_buffer env s1 else io_ok () s1) of
                              None \<Rightarrow> None
                            | Some (q, h2, w2) \<Rightarrow>
                                (case q of
                                   Inl e \<Rightarrow> Some (Inl e, h2, w2)
                                 | Inr _ \<Rightarrow> do {
                                     let rem_copy = min (max_count - n) info_size;
                                     part \<leftarrow> slice_get buffer n (n + rem_copy);
                                     cache \<leftarrow> copy_from_slice (fh_block_cache h2) 0 rem_copy part;
                                     offset \<leftarrow> add64 (fh_offset h2) rem_copy;
                                     fh_write_loop env bs max_count info_size (n + rem_copy) buffer
                                       (set_info_dirty True (h2\<lparr>fh_block_cache := cache, fh_offset := offset\<rparr>), w2)
                                   })))))
      else Some (Inr n, s))"

definition first_store :: "nat \<Rightarrow> nat \<Rightarrow> u8 list \<Rightarrow> FileHandle \<Rightarrow> (nat \<times> FileHandle) panics" where
  "first_store bs max_count buffer h = do {
     let curr_off = fh_offset h mod bs;
     let to_copy = min max_count (bs - curr_off);
     part \<leftarrow> slice_get buffer 0 to_copy;
     cache \<leftarrow> copy_from_slice (fh_block_cache h) curr_off (curr_off + to_copy) part;
     offset \<leftarrow> add64 (fh_offset h) to_copy;
     Some (to_copy, set_info_dirty True (h\<lparr>fh_block_cache := cache, fh_offset := offset\<rparr>))
   }"

text \<open>\<^verbatim>\<open>checked_next_multiple_of(..).unwrap_or(..)\<close>.\<close>

definition round_up_or :: "nat \<Rightarrow> nat \<Rightarrow> nat" where
  "round_up_or n bs = (if bs = 0 \<or> 2 ^ 64 \<le> next_multiple_of n bs then n else next_multiple_of n bs)"

definition fh_write :: "('w, 'b, 'g) Ext2Env \<Rightarrow> u8 list \<Rightarrow> ('w, 'b, 'g, 'z, nat) file_io" where
  "fh_write env buffer = (\<lambda>(h, w, v). do {
     let bs = ev_block_size v;
     avail \<leftarrow> sub64 (round_up_or (fh_size h) bs) (fh_offset h);
     let max_count = min (length buffer) avail;
     let begin_offset = fh_offset h;
     io_bind (fh_flush env) (\<lambda>_.
     io_bind (io_panics (div_checked begin_offset bs)) (\<lambda>q.
     io_bind (ensure_buffer env) (\<lambda>_.
     io_bind (\<lambda>(h2, w2).
        case fh_block_cache_info h2 of
          None \<Rightarrow> io_ok 0 (h2, w2)
        | Some info \<Rightarrow> do {
            (n, h3) \<leftarrow> (if q mod 2 ^ 32 = bi_block info then first_store bs max_count buffer h2 else Some (0, h2));
            fh_write_loop env bs max_count (bi_size info) n buffer (h3, w2)
          }) (\<lambda>n.
     io_bind (io_panics (add64 begin_offset n)) (\<lambda>end_offset.
     io_bind (self_get (\<lambda>h. max (fh_size h) end_offset)) (\<lambda>new_size.
     io_bind (self_get (\<lambda>h. new_size \<noteq> fh_size h)) (\<lambda>grown.
     io_bind (if grown then set_file_size env new_size Some else io_ok ()) (\<lambda>_. io_ok n)))))))) (h, w, v)
   })"

definition is_eof :: "FileHandle \<Rightarrow> bool" where
  "is_eof h \<longleftrightarrow> fh_size h \<le> fh_offset h"

section \<open>Contents of files\<close>

definition file_blocks :: "nat \<Rightarrow> u8 list list \<Rightarrow> Inode \<Rightarrow> nat \<Rightarrow> u8 list list" where
  "file_blocks bs disk inode n = map (\<lambda>i. disk ! block_of_file bs disk inode i) [0..<n]"

definition file_contents :: "nat \<Rightarrow> u8 list list \<Rightarrow> Inode \<Rightarrow> nat \<Rightarrow> u8 list" where
  "file_contents bs disk inode size_bytes = take size_bytes (concat (file_blocks bs disk inode (div_ceil size_bytes bs)))"

text \<open>
  An open file with nothing to write back, whose cursor stands on block \<open>i\<close>: the offset is in
  that block or at its end, and the buffer, when it is filled, holds the block.
\<close>

definition buffer_holds :: "nat \<Rightarrow> u8 list list \<Rightarrow> nat \<Rightarrow> nat \<Rightarrow> FileHandle \<Rightarrow> BlockCacheInfo \<Rightarrow> bool" where
  "buffer_holds bs disk n i h info \<longleftrightarrow> \<not> bi_dirty info \<and> bi_block info = i \<and> (i + 1 < n \<longrightarrow> bi_size info = bs) \<and>
     fh_block_cache h = disk ! block_of_file bs disk (cl_inode (fh_location h)) i"

definition handle_at :: "nat \<Rightarrow> u8 list list \<Rightarrow> nat \<Rightarrow> FileHandle \<Rightarrow> bool" where
  "handle_at bs disk i h \<longleftrightarrow> cursor_at bs disk i (fh_location h) \<and>
     (let n = div_ceil (fh_size h) bs
      in file_mapped bs disk (cl_inode (fh_location h)) n \<and> cl_max_block_exclusive (fh_location h) = int n \<and> i < n \<and>
         length (fh_block_cache h) = bs \<and> fh_offset h \<le> fh_size h \<and> fh_size h < 2 ^ 64 \<and> i * bs \<le> fh_offset h \<and> fh_offset h \<le> (i + 1) * bs \<and>
         (\<forall>info. fh_block_cache_info h = Some info \<longrightarrow> buffer_holds bs disk n i h info))"

lemma handle_at_fill:
  assumes at: "handle_at bs disk i h" and l: "length (disk ! block_of_file bs disk (cl_inode (fh_location h)) i) = bs"
    and info: "\<not> bi_dirty info" "bi_block info = i" "i + 1 < div_ceil (fh_size h) bs \<longrightarrow> bi_size info = bs"
  shows "handle_at bs disk i (h\<lparr>fh_block_cache := disk ! block_of_file bs disk (cl_inode (fh_location h)) i, fh_block_cache_info := Some info\<rparr>)"
  using assms by (simp add: handle_at_def buffer_holds_def Let_def)

lemma slice_take: "b \<le> k \<Longrightarrow> slice_of (take k xs) a b = slice_of xs a b"
  by (cases "a \<le> b") (simp_all add: slice_of_def drop_take min_def)

lemma length_concat_blocks: "uniform bs disk \<Longrightarrow> file_mapped bs disk inode n \<Longrightarrow> uniform bs (file_blocks bs disk inode n)"
proof -
  assume u: "uniform bs disk" and m: "file_mapped bs disk inode n"
  have "block_of_file bs disk inode i < length disk" if "i < n" for i
  proof -
    have "mapped disk inode (file_location bs i)" using m that by (simp add: file_mapped_def)
    then show ?thesis by (cases "file_location bs i") (simp_all add: block_of_file_def block_exists_def)
  qed
  then show ?thesis using u by (auto simp: uniform_def file_blocks_def)
qed

text \<open>A piece of the contents that lies in one block.\<close>

lemma contents_slice:
  assumes u: "uniform bs disk" and m: "file_mapped bs disk inode (div_ceil sz bs)" and i: "i < div_ceil sz bs"
    and fit: "p + k \<le> bs" "i * bs + p + k \<le> sz"
  shows "slice_of (file_contents bs disk inode sz) (i * bs + p) (i * bs + p + k) = slice_of (disk ! block_of_file bs disk inode i) p (p + k)"
proof -
  note ub = length_concat_blocks [OF u m]
  have "slice_of (file_contents bs disk inode sz) (i * bs + p) (i * bs + p + k) =
      slice_of (concat (file_blocks bs disk inode (div_ceil sz bs))) (i * bs + p) (i * bs + p + k)"
    unfolding file_contents_def using fit(2) by (intro slice_take) simp
  also have "\<dots> = slice_of (file_blocks bs disk inode (div_ceil sz bs) ! i) p (p + k)"
    by (rule slice_concat_uniform [OF ub]) (use i fit(1) in \<open>simp_all add: file_blocks_def\<close>)
  finally show ?thesis using i by (simp add: file_blocks_def)
qed

lemma length_contents:
  assumes "uniform bs disk" "file_mapped bs disk inode (div_ceil sz bs)"
  shows "length (file_contents bs disk inode sz) = sz"
proof -
  have "0 < bs" using assms(2) by (simp add: file_mapped_def)
  then have "sz \<le> div_ceil sz bs * bs" by (rule div_ceil_mult_ge)
  then show ?thesis using length_concat_uniform [OF length_concat_blocks [OF assms]] by (simp add: file_contents_def file_blocks_def)
qed

context ext2_on_file
begin

lemma disk_uniform: "ok s \<Longrightarrow> uniform bs (volume_disk bytes s)"
  using bdev.geometry by blast

lemma flush_clean:
  assumes "cursor_clean bs disk (fh_location h)" "\<not> info_is_dirty h"
  shows "fh_flush env (h, s) = Some (Inr (), h, s)"
  using assms
  by (simp add: fh_flush_def on_location_def zoom_def cursor_flush_def on_table1_def on_table2_def on_table3_def flush_table_def cursor_clean_def
      table_clean_def io_bind_def io_ok_def)

lemma update_buffer_at:
  assumes ok: "ok s" and at: "cursor_at bs (volume_disk bytes s) i (fh_location h)" and map: "file_mapped bs (volume_disk bytes s) (cl_inode (fh_location h)) n" "i < n"
    and max: "cl_max_block_exclusive (fh_location h) = int n" and len: "length (fh_block_cache h) = bs"
  obtains info s' where "internal_update_buffer env (h, s) =
      Some (Inr (), h\<lparr>fh_block_cache := volume_disk bytes s ! block_of_file bs (volume_disk bytes s) (cl_inode (fh_location h)) i, fh_block_cache_info := Some info\<rparr>, s')"
    "read_step s s'" "\<not> bi_dirty info" "bi_block info = i" "i + 1 < n \<longrightarrow> bi_size info = bs"
proof -
  let ?b = "volume_disk bytes s ! block_of_file bs (volume_disk bytes s) (cl_inode (fh_location h)) i"
  obtain s' fill where r: "cursor_read_block env (fh_block_cache h) (fh_location h, s) = Some ((Inr fill, ?b), fh_location h, s')" "read_step s s'"
      "i + 1 < n \<longrightarrow> fill = bs" "fill \<le> bs"
    by (rule cursor_read_at [OF ok at map len max])
  have "bs < 2 ^ 32" using map(1) by (simp add: file_mapped_def)
  moreover have "current_block_idx (cl_location (fh_location h)) = Some i"
    using current_block_idx_exact [of "cl_location (fh_location h)"] at map by (simp add: cursor_at_def file_mapped_def)
  ultimately have "internal_update_buffer env (h, s) =
      Some (Inr (), h\<lparr>fh_block_cache := ?b, fh_block_cache_info := Some \<lparr>bi_block = i, bi_size = fill, bi_dirty = False\<rparr>\<rparr>, s')"
    using r(1,4) by (simp add: internal_update_buffer_def io_ok_def del: bind_eq_Some_iff current_block_idx.simps)
  then show ?thesis using that r(2,3) by simp
qed

lemma ensure_buffer_at:
  assumes ok: "ok s" and at: "handle_at bs (volume_disk bytes s) i h"
  obtains h' info s' where "ensure_buffer env (h, s) = Some (Inr (), h', s')" "read_step s s'" "handle_at bs (volume_disk bytes s) i h'"
    "fh_block_cache_info h' = Some info" "fh_location h' = fh_location h" "fh_offset h' = fh_offset h" "fh_size h' = fh_size h" "fh_open_mode h' = fh_open_mode h"
proof (cases "fh_block_cache_info h")
  case (Some info)
  then show ?thesis using that [of h s info] at read_step_refl [OF ok] by (simp add: ensure_buffer_def io_ok_def)
next
  case None
  let ?n = "div_ceil (fh_size h) bs"
  obtain info s' where u: "internal_update_buffer env (h, s) =
      Some (Inr (), h\<lparr>fh_block_cache := volume_disk bytes s ! block_of_file bs (volume_disk bytes s) (cl_inode (fh_location h)) i, fh_block_cache_info := Some info\<rparr>, s')"
    "read_step s s'" "\<not> bi_dirty info" "bi_block info = i" "i + 1 < ?n \<longrightarrow> bi_size info = bs"
    by (rule update_buffer_at [OF ok, of i h ?n]) (use at in \<open>auto simp: handle_at_def Let_def\<close>)
  have "block_of_file bs (volume_disk bytes s) (cl_inode (fh_location h)) i < length (volume_disk bytes s)"
  proof -
    have "mapped (volume_disk bytes s) (cl_inode (fh_location h)) (file_location bs i)" using at by (simp add: handle_at_def file_mapped_def Let_def)
    then show ?thesis by (cases "file_location bs i") (simp_all add: block_of_file_def block_exists_def)
  qed
  then have l: "length (volume_disk bytes s ! block_of_file bs (volume_disk bytes s) (cl_inode (fh_location h)) i) = bs"
    using uniform_nth [OF disk_uniform [OF ok]] by blast
  have e: "ensure_buffer env (h, s) = internal_update_buffer env (h, s)" using None by (simp add: ensure_buffer_def)
  have "handle_at bs (volume_disk bytes s) i
      (h\<lparr>fh_block_cache := volume_disk bytes s ! block_of_file bs (volume_disk bytes s) (cl_inode (fh_location h)) i, fh_block_cache_info := Some info\<rparr>)"
    by (rule handle_at_fill [OF at l u(3-5)])
  then show ?thesis using that [OF e [THEN trans, OF u(1)] u(2)] by simp
qed

lemma read_loop_exact:
  assumes "ok s" "handle_at bs (volume_disk bytes s) i h" "n \<le> max_count" "max_count \<le> length buf" "fh_offset h + (max_count - n) \<le> fh_size h"
    "n < max_count \<longrightarrow> fh_offset h = (i + 1) * bs \<and> info_size = bs"
  shows "\<exists>h' s' i'. fh_read_loop env max_count info_size n buf (h, s) =
      Some ((Inr max_count, splice_at buf n (slice_of (file_contents bs (volume_disk bytes s) (cl_inode (fh_location h)) (fh_size h))
        (fh_offset h) (fh_offset h + (max_count - n)))), h', s') \<and>
    read_step s s' \<and> handle_at bs (volume_disk bytes s) i' h' \<and> fh_offset h' = fh_offset h + (max_count - n) \<and>
    cl_inode (fh_location h') = cl_inode (fh_location h) \<and> fh_size h' = fh_size h"
  using assms
proof (induction "max_count - n" arbitrary: n i buf h s rule: less_induct)
  case less
  note ok = less.prems(1) and at = less.prems(2)
  show ?case
  proof (cases "n < max_count")
    case False
    then show ?thesis using less.prems read_step_refl [OF ok] by (subst fh_read_loop.simps) auto
  next
    case True
    let ?d = "volume_disk bytes s" and ?N = "div_ceil (fh_size h) bs" and ?c = "fh_location h"
    have off: "fh_offset h = (i + 1) * bs" "info_size = bs" using less.prems(6) True by simp_all
    have h: "cursor_at bs ?d i ?c" "file_mapped bs ?d (cl_inode ?c) ?N" "cl_max_block_exclusive ?c = int ?N" "i < ?N" "length (fh_block_cache h) = bs"
      "fh_size h < 2 ^ 64" using at by (simp_all add: handle_at_def Let_def)
    have "(i + 1) * bs < fh_size h" using less.prems(5) True off(1) by simp
    then have iN: "i + 1 < ?N" using div_ceil_le_iff [OF bs_positive, of "fh_size h" "i + 1"] by simp
    obtain c' s1 where a: "cursor_advance env (?c, s) = Some (Inr True, c', s1)" "cursor_at bs ?d (i + 1) c'" "cursor_same ?c c'" "read_step s s1"
      by (rule cursor_advance_clean [OF ok h(1,2) iN h(3)])
    note r1 = read_step_simps [OF a(4)]
    have c': "cl_inode c' = cl_inode ?c" "cl_max_block_exclusive c' = int ?N" using a(3) h(3) by (simp_all add: cursor_same_def)
    let ?h1 = "h\<lparr>fh_location := c'\<rparr>" and ?b = "?d ! block_of_file bs ?d (cl_inode ?c) (i + 1)"
    obtain info s2 where u: "internal_update_buffer env (?h1, s1) = Some (Inr (), ?h1\<lparr>fh_block_cache := ?b, fh_block_cache_info := Some info\<rparr>, s2)"
      "read_step s1 s2" "\<not> bi_dirty info" "bi_block info = i + 1" "i + 1 + 1 < ?N \<longrightarrow> bi_size info = bs"
      by (rule update_buffer_at [OF r1(2), of "i + 1" ?h1 ?N, unfolded r1(1)]) (use a(2) h(2,5) c' iN in simp_all)
    let ?k = "min (max_count - n) bs"
    have "block_of_file bs ?d (cl_inode ?c) (i + 1) < length ?d"
    proof -
      have "mapped ?d (cl_inode ?c) (file_location bs (i + 1))" using h(2) iN by (simp add: file_mapped_def)
      then show ?thesis by (cases "file_location bs (i + 1)") (simp_all add: block_of_file_def block_exists_def)
    qed
    then have lb: "length ?b = bs" using uniform_nth [OF disk_uniform [OF ok]] by blast
    let ?part = "slice_of ?b 0 ?k" and ?h2 = "?h1\<lparr>fh_block_cache := ?b, fh_block_cache_info := Some info, fh_offset := fh_offset h + ?k\<rparr>"
    have lp: "length ?part = ?k" using lb by (simp add: length_slice)
    have k: "0 < ?k" "n + ?k \<le> max_count" using True bs_positive by auto
    have fits: "fh_offset h + ?k < 2 ^ 64" using k(2) less.prems(5) h(6) by linarith
    let ?buf = "splice_at buf n ?part"
    have step: "fh_read_loop env max_count info_size n buf (h, s) = fh_read_loop env max_count info_size (n + ?k) ?buf (?h2, s2)"
      using True a(1) u(1) off(2) lb lp k less.prems(4) fits
      by (subst fh_read_loop.simps)
        (simp add: on_location_def zoom_def slice_get_def copy_from_slice_def add64_def Let_def del: bind_eq_Some_iff)
    have r2: "read_step s s2" by (rule read_step_trans [OF a(4) u(2)])
    have more: "n + ?k < max_count \<Longrightarrow> fh_offset ?h2 = (i + 1 + 1) * bs" using off(1) by simp
    have at2: "handle_at bs ?d (i + 1) ?h2"
    proof -
      have o: "(i + 1) * bs \<le> fh_offset h + ?k" "fh_offset h + ?k \<le> (i + 1 + 1) * bs" "fh_offset h + ?k \<le> fh_size h"
        using off(1) k(2) less.prems(5) by simp_all
      show ?thesis unfolding handle_at_def buffer_holds_def Let_def using a(2) h(2,6) c' iN lb u(3-5) o by simp
    qed
    obtain h' s' i' where ih: "fh_read_loop env max_count info_size (n + ?k) ?buf (?h2, s2) =
        Some ((Inr max_count, splice_at ?buf (n + ?k) (slice_of (file_contents bs ?d (cl_inode ?c) (fh_size h))
          (fh_offset h + ?k) (fh_offset h + ?k + (max_count - (n + ?k))))), h', s')" "read_step s2 s'" "handle_at bs ?d i' h'"
        "fh_offset h' = fh_offset h + ?k + (max_count - (n + ?k))" "cl_inode (fh_location h') = cl_inode ?c" "fh_size h' = fh_size h"
    proof -
      have p: "max_count - (n + ?k) < max_count - n" "max_count \<le> length ?buf" "fh_offset ?h2 + (max_count - (n + ?k)) \<le> fh_size ?h2"
        using True k less.prems(4,5) lp by (simp_all add: length_splice_at, linarith+)
      have q: "n + ?k < max_count \<longrightarrow> fh_offset ?h2 = (i + 1 + 1) * bs \<and> info_size = bs" using more off(2) by blast
      show ?thesis
        using less.hyps [OF p(1) read_step_simps(2) [OF r2], unfolded read_step_simps(1) [OF r2], OF at2 k(2) p(2,3) q] that c'(1) by simp blast
    qed
    have e: "fh_offset h + ?k + (max_count - (n + ?k)) = fh_offset h + (max_count - n)" using k by simp
    have first: "?part = slice_of (file_contents bs ?d (cl_inode ?c) (fh_size h)) (fh_offset h) (fh_offset h + ?k)"
      using contents_slice [OF disk_uniform [OF ok] h(2) iN, of 0 ?k] off(1) less.prems(5) k by simp
    have "splice_at ?buf (n + ?k) (slice_of (file_contents bs ?d (cl_inode ?c) (fh_size h)) (fh_offset h + ?k) (fh_offset h + (max_count - n))) =
        splice_at buf n (slice_of (file_contents bs ?d (cl_inode ?c) (fh_size h)) (fh_offset h) (fh_offset h + (max_count - n)))"
    proof -
      let ?cont = "file_contents bs ?d (cl_inode ?c) (fh_size h)" and ?e = "fh_offset h + (max_count - n)"
      have "length ?cont = fh_size h" by (rule length_contents [OF disk_uniform [OF ok] h(2)])
      then have l: "n + ?k + length (slice_of ?cont (fh_offset h + ?k) ?e) \<le> length buf"
        using less.prems(4,5) k by (simp add: length_slice)
      have j: "?part @ slice_of ?cont (fh_offset h + ?k) ?e = slice_of ?cont (fh_offset h) ?e"
        unfolding first by (rule slice_append_slice) (use k in simp_all)
      have "splice_at ?buf (n + ?k) (slice_of ?cont (fh_offset h + ?k) ?e) = splice_at buf n (?part @ slice_of ?cont (fh_offset h + ?k) ?e)"
        by (rule splice_extend [OF lp l])
      then show ?thesis unfolding j .
    qed
    then show ?thesis using step ih e read_step_trans [OF r2 ih(2)] by (intro exI [of _ h'] exI [of _ s'] exI [of _ i']) simp
  qed
qed

text \<open>The copy out of the current block, and the state it leaves for the loop.\<close>

lemma first_copy_at:
  assumes ok: "ok s" and at: "handle_at bs (volume_disk bytes s) i h" and info: "fh_block_cache_info h = Some info"
    and m: "m \<le> length buf" "m \<le> fh_size h - fh_offset h" and inside: "fh_offset h < (i + 1) * bs"
  obtains k h' where "first_copy bs m buf h =
      Some (k, splice_at buf 0 (slice_of (file_contents bs (volume_disk bytes s) (cl_inode (fh_location h)) (fh_size h)) (fh_offset h) (fh_offset h + k)), h')"
    "h' = h\<lparr>fh_offset := fh_offset h + k\<rparr>" "k \<le> m" "handle_at bs (volume_disk bytes s) i h'"
    "k < m \<longrightarrow> fh_offset h + k = (i + 1) * bs \<and> bi_size info = bs"
proof -
  let ?d = "volume_disk bytes s" and ?N = "div_ceil (fh_size h) bs"
  have h: "file_mapped bs ?d (cl_inode (fh_location h)) ?N" "i < ?N" "fh_offset h \<le> fh_size h" "fh_size h < 2 ^ 64" "i * bs \<le> fh_offset h"
    "length (fh_block_cache h) = bs" "buffer_holds bs ?d ?N i h info"
    using at info by (simp_all add: handle_at_def Let_def)
  let ?p = "fh_offset h mod bs"
  let ?k = "min m (bs - ?p)"
  have "fh_offset h - i * bs < bs" using inside h(5) by (simp add: less_diff_conv2)
  then have "(i * bs + (fh_offset h - i * bs)) mod bs = fh_offset h - i * bs" by (simp add: mod_less)
  then have p: "?p = fh_offset h - i * bs" using h(5) by simp
  have pb: "?p < bs" using bs_positive by simp
  have o: "fh_offset h = i * bs + ?p" using p h(5) by simp
  have last: "?k < m \<longrightarrow> fh_offset h + ?k = (i + 1) * bs" using o pb by auto
  have "?k < m \<longrightarrow> (i + 1) * bs < fh_size h" using last m(2) by linarith
  then have "?k < m \<longrightarrow> i + 1 < ?N" using div_ceil_le_iff [OF bs_positive, of "fh_size h" "i + 1"] by (metis linorder_not_less)
  then have size: "?k < m \<longrightarrow> bi_size info = bs" using h(7) by (simp add: buffer_holds_def)
  have fits: "fh_offset h + ?k < 2 ^ 64" "fh_offset h + ?k \<le> fh_size h" using h(3,4) m(2) by linarith+
  have "(i + 1) * bs = i * bs + bs" by simp
  then have "fh_offset h + ?k \<le> (i + 1) * bs" using o pb by linarith
  note fits = fits this
  have part: "slice_of (fh_block_cache h) ?p (?p + ?k) =
      slice_of (file_contents bs ?d (cl_inode (fh_location h)) (fh_size h)) (fh_offset h) (fh_offset h + ?k)"
    using contents_slice [OF disk_uniform [OF ok] h(1,2), of ?p ?k] h(7) o fits(2) pb by (simp add: buffer_holds_def)
  have room: "?p + ?k \<le> bs" "?k \<le> length buf" using pb m(1) by linarith+
  have "length (slice_of (fh_block_cache h) ?p (?p + ?k)) = ?k" using h(6) pb by (simp add: length_slice)
  then have "first_copy bs m buf h =
      Some (?k, splice_at buf 0 (slice_of (fh_block_cache h) ?p (?p + ?k)), h\<lparr>fh_offset := fh_offset h + ?k\<rparr>)"
    using h(6) room fits(1) by (simp add: first_copy_def slice_get_def copy_from_slice_def add64_def Let_def del: bind_eq_Some_iff)
  moreover have "handle_at bs ?d i (h\<lparr>fh_offset := fh_offset h + ?k\<rparr>)"
    using at fits(2,3) h(5) by (simp add: handle_at_def buffer_holds_def Let_def)
  ultimately show ?thesis using that [of ?k "h\<lparr>fh_offset := fh_offset h + ?k\<rparr>"] part last size by simp
qed

lemma fh_read_exact:
  fixes buf :: "u8 list"
  assumes ok: "ok s" and at: "handle_at bs (volume_disk bytes s) i h"
  defines "m \<equiv> min (length buf) (fh_size h - fh_offset h)"
  shows "\<exists>h' s' i'. fh_read env buf (h, s) =
      Some ((Inr m, splice_at buf 0 (slice_of (file_contents bs (volume_disk bytes s) (cl_inode (fh_location h)) (fh_size h))
        (fh_offset h) (fh_offset h + m))), h', s') \<and>
    read_step s s' \<and> handle_at bs (volume_disk bytes s) i' h' \<and> fh_offset h' = fh_offset h + m \<and>
    cl_inode (fh_location h') = cl_inode (fh_location h) \<and> fh_size h' = fh_size h"
proof -
  obtain w v where s: "s = (w, v)" by force
  let ?d = "volume_disk bytes s" and ?N = "div_ceil (fh_size h) bs"
  let ?cont = "file_contents bs ?d (cl_inode (fh_location h)) (fh_size h)"
  have h: "cursor_clean bs ?d (fh_location h)" "file_mapped bs ?d (cl_inode (fh_location h)) ?N" "i < ?N" "fh_offset h \<le> fh_size h" "i * bs \<le> fh_offset h" "fh_offset h \<le> (i + 1) * bs"
    using at by (simp_all add: handle_at_def cursor_at_def Let_def)
  have clean: "\<not> info_is_dirty h" using at by (auto simp: handle_at_def info_is_dirty_def buffer_holds_def Let_def split: option.splits)
  have bs: "ev_block_size v = bs" using ok by (simp add: s volume_ok_def volume_geometry_def)
  obtain h1 info s1 where e: "ensure_buffer env (h, s) = Some (Inr (), h1, s1)" "read_step s s1" "handle_at bs ?d i h1" "fh_block_cache_info h1 = Some info"
      "fh_location h1 = fh_location h" "fh_offset h1 = fh_offset h" "fh_size h1 = fh_size h"
    by (rule ensure_buffer_at [OF ok at]) blast
  note r1 = read_step_simps [OF e(2)]
  have bi: "bi_block info = i" using e(3,4) by (simp add: handle_at_def buffer_holds_def Let_def)
  have i32: "i + 1 \<le> 2 ^ 32" using h(2,3) by (simp add: file_mapped_def)
  have start: "fh_read env buf (h, s) = (do {
      (n, buffer', h3) \<leftarrow> (if fh_offset h div bs mod 2 ^ 32 = i then first_copy bs m buf h1 else Some (0, buf, h1));
      fh_read_loop env m (bi_size info) n buffer' (h3, s1) })"
    using e(1,4) flush_clean [OF h(1) clean, of s] h(4) bs bs_positive bi
    by (simp add: fh_read_def s sub64_def m_def Let_def div_checked_def io_bind_def io_panics_def io_ok_def del: bind_eq_Some_iff)
  have loop: "\<exists>h' s' i'. fh_read_loop env m (bi_size info) n (splice_at buf 0 (slice_of ?cont (fh_offset h) (fh_offset h + n))) (h1\<lparr>fh_offset := fh_offset h + n\<rparr>, s1) =
      Some ((Inr m, splice_at buf 0 (slice_of ?cont (fh_offset h) (fh_offset h + m))), h', s') \<and> read_step s s' \<and> handle_at bs ?d i' h' \<and>
      fh_offset h' = fh_offset h + m \<and> cl_inode (fh_location h') = cl_inode (fh_location h) \<and> fh_size h' = fh_size h"
    if n: "n \<le> m" "handle_at bs ?d i (h1\<lparr>fh_offset := fh_offset h + n\<rparr>)" "n < m \<longrightarrow> fh_offset h + n = (i + 1) * bs \<and> bi_size info = bs" for n
  proof -
    have len: "length ?cont = fh_size h" by (rule length_contents [OF disk_uniform [OF ok] h(2)])
    have m: "m \<le> length buf" "fh_offset h + m \<le> fh_size h" using h(4) by (simp_all add: m_def)
    let ?buf = "splice_at buf 0 (slice_of ?cont (fh_offset h) (fh_offset h + n))"
    have l: "length (slice_of ?cont (fh_offset h) (fh_offset h + n)) = n" "length (slice_of ?cont (fh_offset h + n) (fh_offset h + m)) = m - n"
      using len m n(1) by (simp_all add: length_slice)
    have lb: "m \<le> length ?buf" using l(1) m n(1) by (simp add: length_splice_at)
    have joined: "splice_at ?buf n (slice_of ?cont (fh_offset h + n) (fh_offset h + m)) = splice_at buf 0 (slice_of ?cont (fh_offset h) (fh_offset h + m))"
      using splice_extend [OF l(1), of 0 "slice_of ?cont (fh_offset h + n) (fh_offset h + m)" buf] l m n(1)
        slice_append_slice [of "fh_offset h" "fh_offset h + n" "fh_offset h + m" ?cont] by simp
    have em: "fh_offset h + n + (m - n) = fh_offset h + m" using n(1) by simp
    show ?thesis
      using read_loop_exact [OF r1(2), unfolded r1(1), OF n(2) n(1) lb _ , of "bi_size info"] n(3) m(2) e(5,7) joined em read_step_trans [OF e(2)]
      by simp blast
  qed
  have same: "h1\<lparr>fh_offset := fh_offset h\<rparr> = h1" using e(6) by simp
  show ?thesis
  proof (cases "fh_offset h < (i + 1) * bs")
    case True
    have q: "fh_offset h div bs mod 2 ^ 32 = i"
      using True h(5) i32 div_nat_eqI [of bs i "fh_offset h"] by (simp add: mult.commute)
    obtain k h3 where k: "first_copy bs m buf h1 = Some (k, splice_at buf 0 (slice_of ?cont (fh_offset h) (fh_offset h + k)), h3)"
        "h3 = h1\<lparr>fh_offset := fh_offset h + k\<rparr>" "k \<le> m" "handle_at bs ?d i h3" "k < m \<longrightarrow> fh_offset h + k = (i + 1) * bs \<and> bi_size info = bs"
      by (rule first_copy_at [OF r1(2), unfolded r1(1), OF e(3,4), of m buf]) (use True e(5-7) in \<open>simp_all add: m_def\<close>)
    show ?thesis using start q k(1) loop [OF k(3) k(4)[unfolded k(2)] k(5)] k(2) by simp
  next
    case False
    then have o: "fh_offset h = (i + 1) * bs" using h(6) by simp
    then have "fh_offset h div bs = i + 1" using bs_positive by simp
    moreover have "(i + 1) mod 2 ^ 32 \<noteq> i" using i32 by (cases "i + 1 = 2 ^ 32") auto
    ultimately have q: "fh_offset h div bs mod 2 ^ 32 \<noteq> i" by simp
    have "bi_size info = bs" if "0 < m"
    proof -
      have "(i + 1) * bs < fh_size h" using that o h(4) by (simp add: m_def)
      then have "i + 1 < ?N" using div_ceil_le_iff [OF bs_positive, of "fh_size h" "i + 1"] by simp
      then show ?thesis using e(3,4,7) by (simp add: handle_at_def buffer_holds_def Let_def)
    qed
    then show ?thesis using start q loop [of 0] e(3) o unfolding add_0_right same by simp
  qed
qed

end

end
