(* ===== verification/Ext2_Reading.thy ===== *)
theory Ext2_Reading
  imports Pata_Volume Ext2_File
begin

text \<open>
  Reading whole files of an ext2 volume: opening a file gives a handle at its first block, and any
  sequence of reads returns the contents of the file in order. The result is stated for volumes on
  any device file that keeps the contract of \<open>byte_file\<close>, and applied to a volume on a PATA drive.
\<close>

text \<open>The bytes that successive reads into the given buffers return.\<close>

fun fh_reads :: "('w, 'b, 'g) Ext2Env \<Rightarrow> u8 list list \<Rightarrow> FileHandle \<times> ('w, 'b, 'g, 'z) vol_world \<Rightarrow>
    (u8 list vresult \<times> FileHandle \<times> ('w, 'b, 'g, 'z) vol_world) panics" where
  "fh_reads env [] s = Some (Inr [], s)"
| "fh_reads env (buf # bufs) s =
     (case fh_read env buf s of
        None \<Rightarrow> None
      | Some ((Inl e, _), s') \<Rightarrow> Some (Inl e, s')
      | Some ((Inr n, data), s') \<Rightarrow>
          (case fh_reads env bufs s' of
             None \<Rightarrow> None
           | Some (Inl e, s'') \<Rightarrow> Some (Inl e, s'')
           | Some (Inr rest, s'') \<Rightarrow> Some (Inr (take n data @ rest), s'')))"

lemma take_splice_0: "length xs \<le> length zs \<Longrightarrow> take (length xs) (splice_at zs 0 xs) = xs"
  by (simp add: splice_at_def)

context ext2_on_file
begin

lemma fh_new_at:
  fixes v :: "('b, 'g, 'z) Ext2Volume_scheme" and w :: 'w
  assumes ok: "ok (w, v)" and map: "file_mapped bs (volume_disk bytes (w, v)) inode (div_ceil (inode_get_size (volume_size64 v) inode) bs)"
    and size: "0 < inode_get_size (volume_size64 v) inode"
  obtains h where "fh_new env inode mode (w, v) = Some (Inr h, w, v)" "handle_at bs (volume_disk bytes (w, v)) 0 h" "fh_offset h = 0"
    "fh_size h = inode_get_size (volume_size64 v) inode" "cl_inode (fh_location h) = inode"
proof -
  let ?sz = "inode_get_size (volume_size64 v) inode" and ?d = "volume_disk bytes (w, v)"
  let ?n = "div_ceil ?sz bs"
  have bs: "ev_block_size v = bs" using ok by (simp add: volume_ok_def volume_geometry_def)
  have ts: "0 < bs div 4" "bs div 4 < 2 ^ 16" "?n \<le> 2 ^ 32" "4 \<le> bs" using map by (auto simp: file_mapped_def)
  have n: "0 < ?n" using size div_ceil_le_iff [OF bs_positive, of ?sz 0] by simp
  have "bs div 4 * (bs div 4) < 2 ^ 16 * 2 ^ 16" using ts(2) by (intro mult_strict_mono) auto
  then have l: "location_new (bs div 4) i = Some \<lparr>loc_location = Direct i, loc_table_size = bs div 4\<rparr>" if "i < 12" for i
    using that by (simp add: location_new_def mul32_def)
  have m: "mapped ?d inode (Direct 0)" using map n l [of 0] by (auto simp: file_mapped_def file_location_def)
  have "unat (in_size_lo inode) < 2 ^ 64" using unsigned_less [of "in_size_lo inode"] by (rule less_trans) simp
  moreover have "unat x < 2 ^ 64" for x :: u64 using unsigned_less [of x] by simp
  ultimately have sz: "?sz < 2 ^ 64" unfolding inode_get_size_def by (simp only: split: if_split) blast
  let ?c = "\<lparr>cl_location = \<lparr>loc_location = Direct 0, loc_table_size = bs div 4\<rparr>, cl_inode = inode, cl_max_block_exclusive = int ?n, cl_block_size = bs,
      cl_table1 = new_table env bs, cl_table2 = new_table env bs, cl_table3 = new_table env bs, cl_inode_dirty = False\<rparr>"
  let ?h = "\<lparr>fh_location = ?c, fh_open_mode = mode, fh_offset = 0, fh_size = ?sz, fh_block_cache = alloc_boxed_slice (ex_uninit env) bs,
      fh_block_cache_info = None\<rparr>"
  have "cursor_new env inode (w, v) = Some (Inr ?c, w, v)"
    using l [of 0] bs bs_positive ts(3) by (simp add: cursor_new_def blocks_of_inode_def io_bind_def io_panics_def io_try_def io_result_def io_ok_def Let_def)
  then have "fh_new env inode mode (w, v) = Some (Inr ?h, w, v)"
    using bs by (simp add: fh_new_def io_bind_def io_get_def io_ok_def)
  moreover have "cursor_at bs ?d 0 ?c"
    using l [of 0] m ts(1,2) by (simp add: cursor_at_def cursor_clean_def table_clean_def new_table_def loc_ok_def get_next_block_def list_get_def
        block_of_file_def file_location_def loc_index_def)
  then have "handle_at bs ?d 0 ?h" using map n sz by (simp add: handle_at_def Let_def)
  ultimately show ?thesis by (rule that) simp_all
qed

lemma fh_reads_exact:
  assumes "ok s" "handle_at bs (volume_disk bytes s) i h"
  shows "\<exists>t. fh_reads env bufs (h, s) =
    Some (Inr (take (sum_list (map length bufs)) (drop (fh_offset h) (file_contents bs (volume_disk bytes s) (cl_inode (fh_location h)) (fh_size h)))), t)"
  using assms
proof (induction bufs arbitrary: i h s)
  case Nil
  then show ?case by simp
next
  case (Cons buf bufs)
  let ?cont = "file_contents bs (volume_disk bytes s) (cl_inode (fh_location h)) (fh_size h)"
  let ?m = "min (length buf) (fh_size h - fh_offset h)" and ?rest = "sum_list (map length bufs)"
  obtain h' s' i' where r: "fh_read env buf (h, s) = Some ((Inr ?m, splice_at buf 0 (slice_of ?cont (fh_offset h) (fh_offset h + ?m))), h', s')"
      "read_step s s'" "handle_at bs (volume_disk bytes s) i' h'" "fh_offset h' = fh_offset h + ?m"
      "cl_inode (fh_location h') = cl_inode (fh_location h)" "fh_size h' = fh_size h"
    using fh_read_exact [OF Cons.prems, of buf] by blast
  obtain t where t: "fh_reads env bufs (h', s') = Some (Inr (take ?rest (drop (fh_offset h + ?m) ?cont)), t)"
    using Cons.IH [OF read_step_simps(2) [OF r(2)], unfolded read_step_simps(1) [OF r(2)], OF r(3)] r(4-6) by auto
  have h: "file_mapped bs (volume_disk bytes s) (cl_inode (fh_location h)) (div_ceil (fh_size h) bs)" "fh_offset h \<le> fh_size h"
    using Cons.prems(2) by (simp_all add: handle_at_def Let_def)
  have len: "length ?cont = fh_size h" by (rule length_contents [OF disk_uniform [OF Cons.prems(1)] h(1)])
  have part: "slice_of ?cont (fh_offset h) (fh_offset h + ?m) = take (length buf) (drop (fh_offset h) ?cont)"
    using len by (simp add: slice_of_def min_def)
  have l: "length (take (length buf) (drop (fh_offset h) ?cont)) = ?m" using len by simp
  then have cut: "take ?m (splice_at buf 0 (take (length buf) (drop (fh_offset h) ?cont))) = take (length buf) (drop (fh_offset h) ?cont)"
    using take_splice_0 [of "take (length buf) (drop (fh_offset h) ?cont)" buf] by simp
  have "drop (fh_offset h + ?m) ?cont = drop (length buf) (drop (fh_offset h) ?cont)" using len h(2) by (auto simp: min_def add.commute)
  then have "take (length buf) (drop (fh_offset h) ?cont) @ take ?rest (drop (fh_offset h + ?m) ?cont) =
      take (length buf + ?rest) (drop (fh_offset h) ?cont)"
    by (simp add: take_add)
  then show ?case using r(1) t cut unfolding part by (cases t) simp
qed

end

section \<open>Reading a file\<close>

text \<open>
  C39: On a volume in a coherent state, over such a device and cache: opening a file that is not
  empty and whose blocks are all allocated inside the volume, and reading it into any sequence
  of buffers returns exactly the contents of the file, block after block through the direct,
  single, double and triple indirect pointers, up to the space in the buffers; no read fails.
\<close>

theorem ext2_file_reads:
  assumes dev: "byte_file (ex_ops env) f bytes pos fok" and lru: "lru_cache (ex_blocks env) view" and bs: "0 < bs"
    and ok: "volume_ok fok bytes f view bs (w, v)" and size: "file_size = inode_get_size (volume_size64 v) inode" "0 < file_size"
    and map: "file_mapped bs (volume_disk bytes (w, v)) inode (div_ceil file_size bs)"
  shows "\<exists>h t. fh_new env inode mode (w, v) = Some (Inr h, w, v) \<and>
    fh_reads env bufs (h, w, v) =
      Some (Inr (take (sum_list (map length bufs)) (file_contents bs (volume_disk bytes (w, v)) inode file_size)), t)"
proof -
  note vol = ext2_on_fileI [OF dev lru bs]
  obtain h where h: "fh_new env inode mode (w, v) = Some (Inr h, w, v)" "handle_at bs (volume_disk bytes (w, v)) 0 h" "fh_offset h = 0"
    "fh_size h = file_size" "cl_inode (fh_location h) = inode"
    by (rule ext2_on_file.fh_new_at [OF vol ok, of inode mode]) (use map size in auto)
  then show ?thesis using ext2_on_file.fh_reads_exact [OF vol ok h(2), of bufs] by auto
qed

text \<open>A file of five bytes in block 2 of the volume of four blocks.\<close>

definition vol_inode :: Inode where
  "vol_inode = demo_inode\<lparr>in_direct_block_pointers := 2 # replicate 11 0\<rparr>"

lemma vol_file_mapped: "file_mapped 1024 (volume_disk (device_bytes dv_sectors 4096) (vol_world, vol_volume)) vol_inode (div_ceil 5 1024)"
proof -
  have "location_new 256 0 = Some \<lparr>loc_location = Direct 0, loc_table_size = 256\<rparr>" by (simp add: location_new_def mul32_def)
  moreover have "length (volume_disk (device_bytes dv_sectors 4096) (vol_world, vol_volume)) = 4" by (simp add: volume_disk_def vol_volume_def)
  ultimately show ?thesis
    by (simp add: file_mapped_def div_ceil_def file_location_def block_exists_def vol_inode_def loc_capacity_def)
qed

theorem ext2_file_reads_witness:
  "\<forall>env. \<exists>h t. fh_new (vol_env env) vol_inode 1 (vol_world, vol_volume) = Some (Inr h, vol_world, vol_volume) \<and>
     fh_reads (vol_env env) [[9, 9, 9], [9, 9, 9]] (h, vol_world, vol_volume) = Some (Inr [0, 0, 0, 0, 0], t)"
proof
  fix env
  let ?d = "volume_disk (device_bytes dv_sectors 4096) (vol_world, vol_volume)"
  have size: "5 = inode_get_size (volume_size64 vol_volume) vol_inode"
    by (simp add: inode_get_size_def vol_inode_def demo_inode_def)
  have "location_new 256 0 = Some \<lparr>loc_location = Direct 0, loc_table_size = 256\<rparr>" by (simp add: location_new_def mul32_def)
  moreover have "?d ! 2 = replicate 1024 0"
    using vol_device(2) by (simp add: volume_disk_def vol_volume_def slice_of_def)
  ultimately have "file_contents 1024 ?d vol_inode 5 = [0, 0, 0, 0, 0]"
    by (simp add: file_contents_def file_blocks_def div_ceil_def block_of_file_def file_location_def vol_inode_def) (simp add: numeral_eq_Suc)
  then show "\<exists>h t. fh_new (vol_env env) vol_inode 1 (vol_world, vol_volume) = Some (Inr h, vol_world, vol_volume) \<and>
     fh_reads (vol_env env) [[9, 9, 9], [9, 9, 9]] (h, vol_world, vol_volume) = Some (Inr [0, 0, 0, 0, 0], t)"
    using ext2_file_reads [OF vol_byte_file vol_lru _ vol_ok size _ vol_file_mapped, of env 1 "[[9, 9, 9], [9, 9, 9]]"] by simp
qed

end
