(* ===== verification/Ext2_Dir.thy ===== *)
theory Ext2_Dir
  imports Ext2_Reading
begin

text \<open>
  Directories of an ext2 volume: \<^verbatim>\<open>DirectoryIterator\<close> and \<^verbatim>\<open>Directory\<close> of
  \<^verbatim>\<open>drivers/fs/phys/ext2/file.rs\<close>. Entries are read and written through raw pointers into the
  buffer of the iterator; an access outside it is undefined behaviour, \<open>None\<close> here.
\<close>

datatype DirectoryEntryType = UnknownEntry | FileEntry | DirectoryEntryKind | CharacterDeviceEntry | BlockDeviceEntry
  | BufferFileEntry | SocketFileEntry | SymlinkEntry

fun entry_type_code :: "DirectoryEntryType \<Rightarrow> u8" where
  "entry_type_code UnknownEntry = 0"
| "entry_type_code FileEntry = 1"
| "entry_type_code DirectoryEntryKind = 2"
| "entry_type_code CharacterDeviceEntry = 3"
| "entry_type_code BlockDeviceEntry = 4"
| "entry_type_code BufferFileEntry = 5"
| "entry_type_code SocketFileEntry = 6"
| "entry_type_code SymlinkEntry = 7"

definition entry_type_of :: "u8 \<Rightarrow> DirectoryEntryType option" where
  "entry_type_of value =
     (if value = 0 then Some UnknownEntry
      else if value = 1 then Some FileEntry
      else if value = 2 then Some DirectoryEntryKind
      else if value = 3 then Some CharacterDeviceEntry
      else if value = 4 then Some BlockDeviceEntry
      else if value = 5 then Some BufferFileEntry
      else if value = 6 then Some SocketFileEntry
      else if value = 7 then Some SymlinkEntry
      else None)"

lemma entry_type_roundtrip: "entry_type_of c = Some t \<longleftrightarrow> entry_type_code t = c"
  by (cases t) (auto simp: entry_type_of_def)

record DirectoryEntryRaw =
  de_inode :: u32
  de_entry_size :: u16
  de_len_lo :: u8
  de_type_or_len_hi :: u8

definition raw_entry_bytes :: "DirectoryEntryRaw \<Rightarrow> u8 list" where
  "raw_entry_bytes e = to_le_bytes (de_inode e) @ to_le_bytes (de_entry_size e) @ [de_len_lo e, de_type_or_len_hi e]"

definition read_raw_entry :: "u8 list \<Rightarrow> DirectoryEntryRaw" where
  "read_raw_entry bs = \<lparr>de_inode = from_le_bytes (slice_of bs 0 4), de_entry_size = from_le_bytes (slice_of bs 4 6),
     de_len_lo = bs ! 6, de_type_or_len_hi = bs ! 7\<rparr>"

definition get_raw_entry :: "u8 list \<Rightarrow> nat \<Rightarrow> DirectoryEntryRaw panics" where
  "get_raw_entry buffer idx = map_option read_raw_entry (slice_get buffer idx (idx + 8))"

definition put_raw_entry :: "DirectoryEntryRaw \<Rightarrow> nat \<Rightarrow> u8 list \<Rightarrow> u8 list panics" where
  "put_raw_entry e idx buffer = copy_from_slice buffer idx (idx + 8) (raw_entry_bytes e)"

record DirectoryEntry =
  dn_inode :: nat
  dn_name :: string

definition has_name :: "DirectoryEntry \<Rightarrow> string \<Rightarrow> bool" where
  "has_name e name \<longleftrightarrow> dn_name e = name"

record DirectoryIteratorEntry =
  ie_entry :: DirectoryEntry
  ie_prev_entry_offset :: "nat option"
  ie_offset :: nat
  ie_rec_len :: nat

record DirectoryIterator =
  di_handle :: FileHandle
  di_size :: nat
  di_buffer :: "u8 list"
  di_buffer_idx :: nat
  di_idx :: nat
  di_have_type_field :: bool
  di_last_entry_offset :: "nat option"

type_synonym ('w, 'b, 'g, 'z, 'a) dir_io = "(DirectoryIterator \<times> ('w, 'b, 'g, 'z) vol_world, 'a) vio"

definition on_handle :: "(FileHandle \<times> 's, 'a) vio \<Rightarrow> (DirectoryIterator \<times> 's, 'a) vio" where
  "on_handle = zoom di_handle (\<lambda>h d. d\<lparr>di_handle := h\<rparr>)"

definition iterator_new :: "('w, 'b, 'g) Ext2Env \<Rightarrow> Inode \<Rightarrow> u64 \<Rightarrow> (('w, 'b, 'g, 'z) vol_world, DirectoryIterator) vio" where
  "iterator_new env inode open_mode = (\<lambda>(w, v).
     let have_type_field = sp_required_features (ev_superblock v) AND required_feature_bit DirectoryEntriesHaveTypeField \<noteq> 0;
         bytes = inode_get_size (volume_size64 v) inode;
         bs = ev_block_size v
     in if bs = 0 then None
        else if bytes mod bs \<noteq> 0 then io_err InvalidDataStructure (w, v)
        else io_bind (fh_new env inode open_mode) (\<lambda>handle.
             io_ok \<lparr>di_handle = handle, di_size = bytes, di_buffer = alloc_boxed_slice (ex_uninit env) bs,
               di_buffer_idx = 2 ^ 64 - 1, di_idx = 0, di_have_type_field = have_type_field, di_last_entry_offset = None\<rparr>) (w, v))"

text \<open>The next block is read from where the handle stands; the buffer keeps what a failed read stored.\<close>

definition read_buffer :: "('w, 'b, 'g) Ext2Env \<Rightarrow> ('w, 'b, 'g, 'z, nat) dir_io" where
  "read_buffer env = (\<lambda>(d, w, v). do {
     _ \<leftarrow> assert_rust (ev_block_size v \<noteq> 0);
     let buffer_idx = di_idx d div ev_block_size v;
     let idx = di_idx d mod ev_block_size v;
     if buffer_idx \<noteq> di_buffer_idx d
     then (case fh_read env (di_buffer d) (di_handle d, w, v) of
             None \<Rightarrow> None
           | Some ((Inl e, buffer), h, s) \<Rightarrow> io_err e (d\<lparr>di_handle := h, di_buffer := buffer\<rparr>, s)
           | Some ((Inr _, buffer), h, s) \<Rightarrow> io_ok idx (d\<lparr>di_handle := h, di_buffer := buffer, di_buffer_idx := buffer_idx\<rparr>, s))
     else io_ok idx (d, w, v)
   })"

definition entry_name_len :: "bool \<Rightarrow> DirectoryEntryRaw \<Rightarrow> nat" where
  "entry_name_len have_type_field e =
     (if have_type_field then unat (de_len_lo e) else unat (de_type_or_len_hi e) * 2 ^ 8 + unat (de_len_lo e))"

definition move_to_entry :: "('w, 'b, 'g) Ext2Env \<Rightarrow> DirectoryIteratorEntry \<Rightarrow> ('w, 'b, 'g, 'z, unit) dir_io" where
  "move_to_entry env entry =
     io_bind (self_modify (\<lambda>d. d\<lparr>di_idx := ie_offset entry\<rparr>)) (\<lambda>_. io_bind (read_buffer env) (\<lambda>_. io_ok ()))"

section \<open>Iteration\<close>

text \<open>The entry at the iterator's position. The header is read at \<^verbatim>\<open>self.idx\<close>, the name at its place in the block.\<close>

definition current_entry :: "DirectoryIterator \<Rightarrow> nat \<Rightarrow> (DirectoryEntryRaw \<times> string) panics" where
  "current_entry d idx = do {
     entry_raw \<leftarrow> get_raw_entry (di_buffer d) (di_idx d);
     let name_offset = idx + 8;
     name \<leftarrow> slice_get (di_buffer d) name_offset (name_offset + entry_name_len (di_have_type_field d) entry_raw);
     Some (entry_raw, map (char_of \<circ> unat) name)
   }"

text \<open>\<^verbatim>\<open>next\<close>: an error of the volume ends the iteration.\<close>

partial_function (option) dir_next :: "('w, 'b, 'g) Ext2Env \<Rightarrow> DirectoryIterator \<times> ('w, 'b, 'g, 'z) vol_world \<Rightarrow>
    (DirectoryIteratorEntry option \<times> DirectoryIterator \<times> ('w, 'b, 'g, 'z) vol_world) panics" where
  [code]: "dir_next env s =
     (if di_size (fst s) \<le> di_idx (fst s) then Some (None, s)
      else case read_buffer env s of
             None \<Rightarrow> None
           | Some (r, d, w) \<Rightarrow>
               (case r of
                  Inl _ \<Rightarrow> Some (None, d, w)
                | Inr idx \<Rightarrow>
                    (case current_entry d idx of
                       None \<Rightarrow> None
                     | Some (entry_raw, name) \<Rightarrow>
                         (case add64 (di_idx d) (unat (de_entry_size entry_raw)) of
                            None \<Rightarrow> None
                          | Some idx' \<Rightarrow>
                              (if de_inode entry_raw \<noteq> 0
                               then Some (Some \<lparr>ie_entry = \<lparr>dn_inode = unat (de_inode entry_raw), dn_name = name\<rparr>,
                                       ie_prev_entry_offset = di_last_entry_offset d, ie_offset = di_idx d, ie_rec_len = unat (de_entry_size entry_raw)\<rparr>,
                                     d\<lparr>di_idx := idx', di_last_entry_offset := Some (di_idx d)\<rparr>, w)
                               else if de_entry_size entry_raw = 0 then Some (None, d\<lparr>di_idx := idx'\<rparr>, w)
                               else dir_next env (d\<lparr>di_idx := idx'\<rparr>, w))))))"

section \<open>Changes\<close>

definition with_buffer :: "(DirectoryIterator \<Rightarrow> u8 list panics) \<Rightarrow> ('w, 'b, 'g, 'z, unit) dir_io" where
  "with_buffer f = (\<lambda>(d, s). case f d of None \<Rightarrow> None | Some b \<Rightarrow> io_ok () (d\<lparr>di_buffer := b\<rparr>, s))"

text \<open>The macros \<^verbatim>\<open>done!\<close>: the buffer is written to its place in the file.\<close>

definition store_buffer :: "('w, 'b, 'g) Ext2Env \<Rightarrow> ('w, 'b, 'g, 'z, unit) dir_io" where
  "store_buffer env = (\<lambda>(d, w, v).
     io_bind (io_panics (mul64 (di_buffer_idx d) (ev_block_size v))) (\<lambda>pos.
     io_bind (on_handle (fh_seek env (FromStart pos))) (\<lambda>_.
     io_bind (on_handle (fh_write env (di_buffer d))) (\<lambda>_.
     on_handle (fh_flush env)))) (d, w, v))"

definition finish_delete :: "('w, 'b, 'g) Ext2Env \<Rightarrow> DirectoryIteratorEntry \<Rightarrow> ('w, 'b, 'g, 'z, unit) dir_io" where
  "finish_delete env entry =
     io_bind (store_buffer env) (\<lambda>_.
     io_bind (io_panics (add64 (ie_offset entry) (ie_rec_len entry))) (\<lambda>idx.
     io_bind (self_modify (\<lambda>d. d\<lparr>di_idx := idx\<rparr>)) (\<lambda>_.
     io_bind (read_buffer env) (\<lambda>_. io_ok ()))))"

definition same_block :: "DirectoryIterator \<Rightarrow> nat \<Rightarrow> nat option \<Rightarrow> bool" where
  "same_block d bs previous = (case previous of None \<Rightarrow> False | Some p \<Rightarrow> p div bs = di_buffer_idx d)"

text \<open>The name is cleared and the header emptied; the size is kept unless the entry before takes it over.\<close>

definition blank_entry :: "DirectoryIterator \<Rightarrow> nat \<Rightarrow> nat \<Rightarrow> DirectoryIteratorEntry \<Rightarrow> u8 list panics" where
  "blank_entry d bs idx entry = do {
     entry_raw \<leftarrow> get_raw_entry (di_buffer d) (di_idx d);
     let name_len = entry_name_len (di_have_type_field d) entry_raw;
     let name_offset = idx + 8;
     buffer \<leftarrow> copy_from_slice (di_buffer d) name_offset (name_offset + name_len) (replicate name_len 0);
     put_raw_entry (entry_raw\<lparr>de_inode := 0, de_type_or_len_hi := 0, de_len_lo := 0,
         de_entry_size := (if same_block d bs (ie_prev_entry_offset entry) then 0 else de_entry_size entry_raw)\<rparr>) (di_idx d) buffer
   }"

definition extend_entry :: "DirectoryIterator \<Rightarrow> nat \<Rightarrow> nat \<Rightarrow> u8 list panics" where
  "extend_entry d idx rec_len = do {
     prev_entry_raw \<leftarrow> get_raw_entry (di_buffer d) idx;
     let n = unat (de_entry_size prev_entry_raw) + rec_len;
     put_raw_entry (if n < 2 ^ 16 then prev_entry_raw\<lparr>de_entry_size := of_nat n\<rparr> else prev_entry_raw) idx (di_buffer d)
   }"

definition iterator_delete_entry :: "('w, 'b, 'g) Ext2Env \<Rightarrow> DirectoryIteratorEntry \<Rightarrow> ('w, 'b, 'g, 'z, unit) dir_io" where
  "iterator_delete_entry env entry =
     io_bind (self_modify (\<lambda>d. d\<lparr>di_idx := ie_offset entry\<rparr>)) (\<lambda>_.
     io_bind (read_buffer env) (\<lambda>idx.
     io_bind (vol_get ev_block_size) (\<lambda>bs.
     io_bind (with_buffer (\<lambda>d. blank_entry d bs idx entry)) (\<lambda>_.
     io_bind (self_get (\<lambda>d. same_block d bs (ie_prev_entry_offset entry))) (\<lambda>coalesce.
       case ie_prev_entry_offset entry of
         None \<Rightarrow> finish_delete env entry
       | Some previous \<Rightarrow>
           if \<not> coalesce then finish_delete env entry
           else io_bind (self_modify (\<lambda>d. d\<lparr>di_idx := previous\<rparr>)) (\<lambda>_.
                io_bind (with_buffer (\<lambda>d. extend_entry d (previous mod bs) (ie_rec_len entry))) (\<lambda>_.
                finish_delete env entry)))))))"

definition type_byte :: "DirectoryIterator \<Rightarrow> DirectoryEntryType \<Rightarrow> u8" where
  "type_byte d t = (if di_have_type_field d then entry_type_code t else 0)"

text \<open>The header and the name of an entry at a place in the buffer.\<close>

definition write_entry :: "DirectoryEntryRaw \<Rightarrow> u8 list \<Rightarrow> nat \<Rightarrow> u8 list \<Rightarrow> u8 list panics" where
  "write_entry e name idx buffer = do {
     let name_offset = idx + 8;
     buffer' \<leftarrow> copy_from_slice buffer name_offset (name_offset + length name) name;
     put_raw_entry e idx buffer'
   }"

definition finish_insert :: "('w, 'b, 'g) Ext2Env \<Rightarrow> DirectoryIterator \<times> ('w, 'b, 'g, 'z) vol_world \<Rightarrow>
    (DirectoryIteratorEntry vresult \<times> DirectoryIterator \<times> ('w, 'b, 'g, 'z) vol_world) panics" where
  "finish_insert env =
     io_bind (store_buffer env) (\<lambda>_ s. case dir_next env s of
         None \<Rightarrow> None
       | Some (None, s') \<Rightarrow> io_err UnknownError s'
       | Some (Some e, s') \<Rightarrow> io_ok e s')"

definition reuse_entry :: "('w, 'b, 'g) Ext2Env \<Rightarrow> nat \<Rightarrow> u8 list \<Rightarrow> DirectoryEntryType \<Rightarrow> DirectoryIteratorEntry \<Rightarrow>
    ('w, 'b, 'g, 'z, DirectoryIteratorEntry) dir_io" where
  "reuse_entry env inode_i name entry_type entry =
     io_bind (self_modify (\<lambda>d. d\<lparr>di_idx := ie_offset entry\<rparr>)) (\<lambda>_.
     io_bind (read_buffer env) (\<lambda>idx.
     io_bind (with_buffer (\<lambda>d. do {
         entry_raw \<leftarrow> get_raw_entry (di_buffer d) idx;
         write_entry (entry_raw\<lparr>de_inode := of_nat inode_i, de_type_or_len_hi := type_byte d entry_type, de_len_lo := of_nat (length name)\<rparr>)
           name idx (di_buffer d)
       })) (\<lambda>_. finish_insert env)))"

definition split_entry :: "('w, 'b, 'g) Ext2Env \<Rightarrow> nat \<Rightarrow> u8 list \<Rightarrow> DirectoryEntryType \<Rightarrow> DirectoryIteratorEntry \<Rightarrow> nat \<Rightarrow> nat \<Rightarrow>
    ('w, 'b, 'g, 'z, DirectoryIteratorEntry) dir_io" where
  "split_entry env inode_i name entry_type entry intrinsic_size free_size =
     io_bind (self_modify (\<lambda>d. d\<lparr>di_idx := ie_offset entry\<rparr>)) (\<lambda>_.
     io_bind (read_buffer env) (\<lambda>idx.
     io_bind (with_buffer (\<lambda>d. do {
         old_entry_raw \<leftarrow> get_raw_entry (di_buffer d) idx;
         put_raw_entry (old_entry_raw\<lparr>de_entry_size := of_nat intrinsic_size\<rparr>) idx (di_buffer d)
       })) (\<lambda>_.
     io_bind (self_modify (\<lambda>d. d\<lparr>di_idx := di_idx d + intrinsic_size\<rparr>)) (\<lambda>_.
     io_bind (with_buffer (\<lambda>d. do {
         entry_raw \<leftarrow> get_raw_entry (di_buffer d) (idx + intrinsic_size);
         write_entry (entry_raw\<lparr>de_entry_size := of_nat free_size, de_inode := of_nat inode_i, de_type_or_len_hi := type_byte d entry_type,
             de_len_lo := of_nat (length name)\<rparr>) name (idx + intrinsic_size) (di_buffer d)
       })) (\<lambda>_. finish_insert env)))))"

text \<open>
  The loop that looks for room: an empty entry that is large enough, or one with enough room after
  its name. \<open>Inr None\<close>: there is none.
\<close>

partial_function (option) find_room :: "('w, 'b, 'g) Ext2Env \<Rightarrow> nat \<Rightarrow> u8 list \<Rightarrow> DirectoryEntryType \<Rightarrow> nat \<Rightarrow>
    DirectoryIterator \<times> ('w, 'b, 'g, 'z) vol_world \<Rightarrow>
    (DirectoryIteratorEntry option vresult \<times> DirectoryIterator \<times> ('w, 'b, 'g, 'z) vol_world) panics" where
  [code]: "find_room env inode_i name entry_type needed_space s =
     (case dir_next env s of
        None \<Rightarrow> None
      | Some (r, s1) \<Rightarrow>
          (case r of
             None \<Rightarrow> Some (Inr None, s1)
           | Some entry \<Rightarrow>
               (if dn_inode (ie_entry entry) = 0 \<and> needed_space \<le> ie_rec_len entry
                then io_bind (reuse_entry env inode_i name entry_type entry) (\<lambda>e. io_ok (Some e)) s1
                else let intrinsic_size = 8 + next_multiple_of (length (dn_name (ie_entry entry))) 4
                     in case sub64 (ie_rec_len entry) intrinsic_size of
                          None \<Rightarrow> None
                        | Some free_size \<Rightarrow>
                            (if needed_space \<le> free_size
                             then io_bind (split_entry env inode_i name entry_type entry intrinsic_size free_size) (\<lambda>e. io_ok (Some e)) s1
                             else find_room env inode_i name entry_type needed_space s1))))"

definition append_entry :: "('w, 'b, 'g) Ext2Env \<Rightarrow> nat \<Rightarrow> u8 list \<Rightarrow> DirectoryEntryType \<Rightarrow> ('w, 'b, 'g, 'z, DirectoryIteratorEntry) dir_io" where
  "append_entry env inode_i name entry_type =
     io_bind (vol_get ev_block_size) (\<lambda>bs (d, w, v).
       if 2 ^ 16 - 1 < bs then io_err InvalidDataStructure (d, w, v)
       else do {
         _ \<leftarrow> assert_rust (bs \<noteq> 0);
         if di_idx d mod bs \<noteq> 0 then io_err InvalidDataStructure (d, w, v)
         else do {
           new_size \<leftarrow> add64 (di_size d) bs;
           io_bind (on_handle (fh_grow env new_size)) (\<lambda>_.
           io_bind (self_modify (\<lambda>d. d\<lparr>di_buffer_idx := di_idx d div bs, di_buffer := replicate (length (di_buffer d)) 0\<rparr>)) (\<lambda>_.
           io_bind (with_buffer (\<lambda>d. write_entry \<lparr>de_inode = of_nat inode_i, de_entry_size = of_nat bs, de_len_lo = of_nat (length name),
               de_type_or_len_hi = type_byte d entry_type\<rparr> name 0 (di_buffer d))) (\<lambda>_.
           finish_insert env))) (d\<lparr>di_idx := di_size d, di_size := new_size\<rparr>, w, v)
         }
       })"

definition insert_entry :: "('w, 'b, 'g) Ext2Env \<Rightarrow> nat \<Rightarrow> u8 list \<Rightarrow> DirectoryEntryType \<Rightarrow> ('w, 'b, 'g, 'z, DirectoryIteratorEntry) dir_io" where
  "insert_entry env inode_i name entry_type =
     (if 255 < length name then io_err NameTooLong
      else io_bind (find_room env inode_i name entry_type (next_multiple_of (length name) 4 + 8)) (\<lambda>r.
        case r of Some e \<Rightarrow> io_ok e | None \<Rightarrow> append_entry env inode_i name entry_type))"

section \<open>Directories\<close>

record Directory =
  dy_entries :: "DirectoryEntry list"
  dy_inode :: Inode

partial_function (option) collect_entries :: "('w, 'b, 'g) Ext2Env \<Rightarrow> DirectoryEntry list \<Rightarrow> DirectoryIterator \<times> ('w, 'b, 'g, 'z) vol_world \<Rightarrow>
    (DirectoryEntry list \<times> DirectoryIterator \<times> ('w, 'b, 'g, 'z) vol_world) panics" where
  [code]: "collect_entries env acc s =
     (case dir_next env s of
        None \<Rightarrow> None
      | Some (r, s') \<Rightarrow> (case r of None \<Rightarrow> Some (acc, s') | Some e \<Rightarrow> collect_entries env (acc @ [ie_entry e]) s'))"

definition directory_new :: "('w, 'b, 'g) Ext2Env \<Rightarrow> Inode \<Rightarrow> u64 \<Rightarrow> (('w, 'b, 'g, 'z) vol_world, Directory) vio" where
  "directory_new env inode open_mode =
     io_bind (iterator_new env inode open_mode) (\<lambda>d s.
       case collect_entries env [] (d, s) of
         None \<Rightarrow> None
       | Some (entries, _, s') \<Rightarrow> io_ok \<lparr>dy_entries = entries, dy_inode = inode\<rparr> s')"

partial_function (option) delete_matching :: "('w, 'b, 'g) Ext2Env \<Rightarrow> nat \<Rightarrow> DirectoryIterator \<times> ('w, 'b, 'g, 'z) vol_world \<Rightarrow>
    (unit vresult \<times> DirectoryIterator \<times> ('w, 'b, 'g, 'z) vol_world) panics" where
  [code]: "delete_matching env entry_inode s =
     (case dir_next env s of
        None \<Rightarrow> None
      | Some (r, s') \<Rightarrow>
          (case r of
             None \<Rightarrow> Some (Inl EntryNotFound, s')
           | Some e \<Rightarrow>
               (if dn_inode (ie_entry e) = entry_inode then iterator_delete_entry env e s'
                else delete_matching env entry_inode s')))"

definition directory_delete_entry :: "('w, 'b, 'g) Ext2Env \<Rightarrow> Inode \<Rightarrow> nat \<Rightarrow> (('w, 'b, 'g, 'z) vol_world, unit) vio" where
  "directory_delete_entry env inode entry_inode =
     io_bind (iterator_new env inode OPEN_MODE_WRITE) (\<lambda>d s.
       case delete_matching env entry_inode (d, s) of None \<Rightarrow> None | Some (r, _, s') \<Rightarrow> Some (r, s'))"

section \<open>Listing a directory\<close>

text \<open>
  The specification: a block of a directory is a sequence of slots, each a header, a name and
  padding; a slot whose inode is 0 is free.
\<close>

record DirSlot =
  sl_inode :: u32
  sl_type :: u8
  sl_name :: "u8 list"
  sl_pad :: "u8 list"

definition slot_len :: "DirSlot \<Rightarrow> nat" where
  "slot_len sl = 8 + length (sl_name sl) + length (sl_pad sl)"

definition slot_ok :: "DirSlot \<Rightarrow> bool" where
  "slot_ok sl \<longleftrightarrow> length (sl_name sl) < 256 \<and> slot_len sl < 2 ^ 16"

definition slot_raw :: "bool \<Rightarrow> DirSlot \<Rightarrow> DirectoryEntryRaw" where
  "slot_raw have_type_field sl = \<lparr>de_inode = sl_inode sl, de_entry_size = of_nat (slot_len sl), de_len_lo = of_nat (length (sl_name sl)),
     de_type_or_len_hi = (if have_type_field then sl_type sl else 0)\<rparr>"

definition slot_bytes :: "bool \<Rightarrow> DirSlot \<Rightarrow> u8 list" where
  "slot_bytes have_type_field sl = raw_entry_bytes (slot_raw have_type_field sl) @ sl_name sl @ sl_pad sl"

definition block_of_slots :: "bool \<Rightarrow> DirSlot list \<Rightarrow> u8 list" where
  "block_of_slots have_type_field slots = concat (map (slot_bytes have_type_field) slots)"

definition slot_entry :: "DirSlot \<Rightarrow> DirectoryEntry" where
  "slot_entry sl = \<lparr>dn_inode = unat (sl_inode sl), dn_name = map (char_of \<circ> unat) (sl_name sl)\<rparr>"

definition used_entries :: "DirSlot list \<Rightarrow> DirectoryEntry list" where
  "used_entries slots = map slot_entry (filter (\<lambda>sl. sl_inode sl \<noteq> 0) slots)"

lemma length_raw_entry_bytes [simp]: "length (raw_entry_bytes e) = 8"
  by (simp add: raw_entry_bytes_def)

lemma read_raw_entry_bytes: "read_raw_entry (raw_entry_bytes e) = e"
  by (simp add: read_raw_entry_def raw_entry_bytes_def slice_of_def nth_append from_to_le_bytes)

lemma get_put_raw_entry:
  assumes "idx + 8 \<le> length buffer"
  shows "\<exists>b. put_raw_entry e idx buffer = Some b \<and> get_raw_entry b idx = Some e"
  using assms read_raw_entry_bytes [of e]
  by (simp add: put_raw_entry_def copy_from_slice_def get_raw_entry_def slice_get_def length_splice_at) (simp add: splice_at_def slice_of_def)

lemma length_slot_bytes [simp]: "length (slot_bytes f sl) = slot_len sl"
  by (simp add: slot_bytes_def slot_len_def)

lemma slice_between: "slice_of (xs @ ys @ zs) (length xs) (length xs + length ys) = ys"
  by (simp add: slice_of_def)

lemma current_entry_slot:
  assumes "di_buffer d = pre @ slot_bytes (di_have_type_field d) sl @ post" "di_idx d = length pre" "slot_ok sl"
  shows "current_entry d (length pre) = Some (slot_raw (di_have_type_field d) sl, map (char_of \<circ> unat) (sl_name sl))"
proof -
  let ?r = "slot_raw (di_have_type_field d) sl"
  have b: "di_buffer d = pre @ raw_entry_bytes ?r @ sl_name sl @ sl_pad sl @ post" using assms(1) by (simp add: slot_bytes_def)
  have "slice_of (di_buffer d) (length pre) (length pre + 8) = raw_entry_bytes ?r" unfolding b using slice_between [of pre "raw_entry_bytes ?r"] by simp
  then have raw: "get_raw_entry (di_buffer d) (length pre) = Some ?r"
    using b by (simp add: get_raw_entry_def slice_get_def read_raw_entry_bytes)
  have n: "entry_name_len (di_have_type_field d) ?r = length (sl_name sl)"
    using assms(3) by (simp add: entry_name_len_def slot_raw_def slot_ok_def unat_of_nat take_bit_eq_mod)
  have "slice_of (di_buffer d) (length pre + 8) (length pre + 8 + length (sl_name sl)) = sl_name sl"
    unfolding b using slice_between [of "pre @ raw_entry_bytes ?r" "sl_name sl"] by simp
  then have "slice_get (di_buffer d) (length pre + 8) (length pre + 8 + length (sl_name sl)) = Some (sl_name sl)"
    using b by (simp add: slice_get_def)
  then show ?thesis using raw n assms(2) by (simp add: current_entry_def Let_def del: bind_eq_Some_iff)
qed

text \<open>An iterator that has read the only block of a directory and stands between two slots of it.\<close>

definition stands_at :: "nat \<Rightarrow> DirSlot list \<Rightarrow> DirSlot list \<Rightarrow> DirectoryIterator \<Rightarrow> bool" where
  "stands_at bs pre post d \<longleftrightarrow> di_buffer d = block_of_slots (di_have_type_field d) (pre @ post) \<and>
     length (block_of_slots (di_have_type_field d) (pre @ post)) = bs \<and> di_size d = bs \<and>
     di_buffer_idx d = 0 \<and> di_idx d = length (block_of_slots (di_have_type_field d) pre) \<and> list_all slot_ok post \<and> bs < 2 ^ 64"

lemma dir_next_end:
  assumes "stands_at bs pre [] d"
  shows "dir_next env (d, s) = Some (None, d, s)"
proof -
  have "di_size d = di_idx d" using assms by (simp add: stands_at_def)
  then show ?thesis by (subst dir_next.simps) simp
qed

lemma dir_next_slot:
  assumes at: "stands_at bs pre (sl # post) d" and bs: "ev_block_size v = bs"
  obtains d' where "stands_at bs (pre @ [sl]) post d'"
    "sl_inode sl = 0 \<longrightarrow> dir_next env (d, w, v) = dir_next env (d', w, v)"
    "sl_inode sl \<noteq> 0 \<longrightarrow> (\<exists>e. dir_next env (d, w, v) = Some (Some e, d', w, v) \<and> ie_entry e = slot_entry sl)"
proof -
  let ?f = "di_have_type_field d"
  let ?k = "length (block_of_slots ?f pre)"
  have d: "di_buffer d = block_of_slots ?f pre @ slot_bytes ?f sl @ block_of_slots ?f post" "di_idx d = ?k" "slot_ok sl" "di_size d = bs"
    "di_buffer_idx d = 0" "bs = ?k + slot_len sl + length (block_of_slots ?f post)" "bs < 2 ^ 64"
    using at by (auto simp: stands_at_def block_of_slots_def)
  have k: "?k < bs" using d(6) by (simp add: slot_len_def)
  then have rb: "read_buffer env (d, w, v) = Some (Inr ?k, d, w, v)"
    using d(2,5) bs by (simp add: read_buffer_def Let_def io_ok_def)
  have len: "unat (de_entry_size (slot_raw ?f sl)) = slot_len sl" "de_entry_size (slot_raw ?f sl) \<noteq> 0"
  proof -
    have e: "unat (of_nat (slot_len sl) :: u16) = slot_len sl" using d(3) by (simp add: slot_ok_def unat_of_nat take_bit_eq_mod)
    then show "unat (de_entry_size (slot_raw ?f sl)) = slot_len sl" by (simp add: slot_raw_def)
    have "slot_len sl \<noteq> 0" by (simp add: slot_len_def)
    then show "de_entry_size (slot_raw ?f sl) \<noteq> 0" using e by (metis slot_raw_def DirectoryEntryRaw.select_convs(2) unsigned_0)
  qed
  have step: "add64 ?k (slot_len sl) = Some (?k + slot_len sl)" using d(6,7) by (simp add: add64_def)
  have inode: "de_inode (slot_raw ?f sl) = sl_inode sl" by (simp add: slot_raw_def)
  let ?d0 = "d\<lparr>di_idx := ?k + slot_len sl\<rparr>"
  let ?d = "if sl_inode sl = 0 then ?d0 else ?d0\<lparr>di_last_entry_offset := Some ?k\<rparr>"
  have "stands_at bs (pre @ [sl]) post ?d" using at by (simp add: stands_at_def block_of_slots_def)
  moreover have "sl_inode sl = 0 \<longrightarrow> dir_next env (d, w, v) = dir_next env (?d, w, v)"
    using k d(2,4) rb current_entry_slot [OF d(1,2,3)] len step inode by (subst dir_next.simps) (simp del: bind_eq_Some_iff)
  moreover have "sl_inode sl \<noteq> 0 \<longrightarrow> (\<exists>e. dir_next env (d, w, v) = Some (Some e, ?d, w, v) \<and> ie_entry e = slot_entry sl)"
    using k d(2,4) rb current_entry_slot [OF d(1,2,3)] len step inode by (subst dir_next.simps) (simp add: slot_entry_def del: bind_eq_Some_iff)
  ultimately show ?thesis by (rule that)
qed

lemma collect_slots:
  assumes "stands_at bs pre post d" "ev_block_size v = bs"
  shows "\<exists>d'. collect_entries env acc (d, w, v) = Some (acc @ used_entries post, d', w, v)"
  using assms(1)
proof (induction post arbitrary: pre d acc)
  case Nil
  have "dir_next env (d, w, v) = Some (None, d, w, v)" by (rule dir_next_end [OF Nil])
  then show ?case by (subst collect_entries.simps) (simp add: used_entries_def)
next
  case (Cons sl post)
  obtain d' where d': "stands_at bs (pre @ [sl]) post d'"
    "sl_inode sl = 0 \<longrightarrow> dir_next env (d, w, v) = dir_next env (d', w, v)"
    "sl_inode sl \<noteq> 0 \<longrightarrow> (\<exists>e. dir_next env (d, w, v) = Some (Some e, d', w, v) \<and> ie_entry e = slot_entry sl)"
    by (rule dir_next_slot [OF Cons.prems assms(2)])
  show ?case
  proof (cases "sl_inode sl = 0")
    case True
    then have "collect_entries env acc (d, w, v) = collect_entries env acc (d', w, v)"
      using d'(2) by (subst (1 2) collect_entries.simps) simp
    then show ?thesis using Cons.IH [OF d'(1), of acc] True by (simp add: used_entries_def)
  next
    case False
    then obtain e where e: "dir_next env (d, w, v) = Some (Some e, d', w, v)" "ie_entry e = slot_entry sl" using d'(3) by blast
    have "collect_entries env acc (d, w, v) = collect_entries env (acc @ [slot_entry sl]) (d', w, v)"
      using e by (subst collect_entries.simps) simp
    then show ?thesis using Cons.IH [OF d'(1), of "acc @ [slot_entry sl]"] False by (simp add: used_entries_def)
  qed
qed

lemma div_ceil_self: "0 < n \<Longrightarrow> div_ceil n n = 1"
  by (cases n) (simp_all add: div_ceil_def)

context ext2_on_file
begin

lemma directory_new_slots:
  fixes v :: "('b, 'g, 'z) Ext2Volume_scheme" and w :: 'w
  assumes ok: "ok (w, v)" and size: "inode_get_size (volume_size64 v) inode = bs"
    and map: "file_mapped bs (volume_disk bytes (w, v)) inode 1"
    and block: "volume_disk bytes (w, v) ! block_of_file bs (volume_disk bytes (w, v)) inode 0 =
      block_of_slots (sp_required_features (ev_superblock v) AND required_feature_bit DirectoryEntriesHaveTypeField \<noteq> 0) slots"
    and slots: "list_all slot_ok slots"
  shows "\<exists>s. directory_new env inode mode (w, v) = Some (Inr \<lparr>dy_entries = used_entries slots, dy_inode = inode\<rparr>, s)"
proof -
  let ?f = "sp_required_features (ev_superblock v) AND required_feature_bit DirectoryEntriesHaveTypeField \<noteq> 0" and ?D = "volume_disk bytes (w, v)"
  have bs: "ev_block_size v = bs" using ok by (simp add: volume_ok_def volume_geometry_def)
  have one: "div_ceil bs bs = 1" by (rule div_ceil_self [OF bs_positive])
  obtain h where h: "fh_new env inode mode (w, v) = Some (Inr h, w, v)" "handle_at bs ?D 0 h" "fh_offset h = 0" "fh_size h = bs"
      "cl_inode (fh_location h) = inode"
    by (rule fh_new_at [OF ok, of inode mode]) (use map size one bs_positive in auto)
  have big: "bs < 2 ^ 64" using h(2,4) by (simp add: handle_at_def Let_def)
  let ?buf = "alloc_boxed_slice (ex_uninit env) bs"
  let ?d = "\<lparr>di_handle = h, di_size = bs, di_buffer = ?buf, di_buffer_idx = 2 ^ 64 - 1, di_idx = 0, di_have_type_field = ?f, di_last_entry_offset = None\<rparr>"
  have new: "iterator_new env inode mode (w, v) = Some (Inr ?d, w, v)"
    using h(1) bs size bs_positive by (simp add: iterator_new_def Let_def io_bind_def io_ok_def)
  have cont: "file_contents bs ?D inode bs = block_of_slots ?f slots" "length (block_of_slots ?f slots) = bs"
  proof -
    have l: "length (file_contents bs ?D inode bs) = bs" by (rule length_contents [OF disk_uniform [OF ok]]) (use map one in simp)
    have "block_of_file bs ?D inode 0 < length ?D"
    proof -
      have "mapped ?D inode (file_location bs 0)" using map by (simp add: file_mapped_def)
      then show ?thesis by (cases "file_location bs 0") (simp_all add: block_of_file_def block_exists_def)
    qed
    then have "length (block_of_slots ?f slots) = bs" using block uniform_nth [OF disk_uniform [OF ok]] by metis
    then show "file_contents bs ?D inode bs = block_of_slots ?f slots"
      using block by (simp add: file_contents_def file_blocks_def one)
    then show "length (block_of_slots ?f slots) = bs" using l by simp
  qed
  obtain h' w' v' where r: "fh_read env ?buf (h, w, v) = Some ((Inr bs, block_of_slots ?f slots), h', w', v')" "read_step (w, v) (w', v')"
    using fh_read_exact [OF ok h(2), of ?buf] h(3-5) cont by (auto simp: slice_of_def splice_at_def)
  have bs': "ev_block_size v' = bs" using read_step_simps(3) [OF r(2)] bs by simp
  let ?d' = "?d\<lparr>di_handle := h', di_buffer := block_of_slots ?f slots, di_buffer_idx := 0\<rparr>"
  have "read_buffer env (?d, w, v) = Some (Inr 0, ?d', w', v')"
    using r(1) bs bs_positive by (simp add: read_buffer_def Let_def io_ok_def)
  moreover have "read_buffer env (?d', w', v') = Some (Inr 0, ?d', w', v')"
    using bs' bs_positive by (simp add: read_buffer_def Let_def io_ok_def)
  ultimately have "dir_next env (?d, w, v) = dir_next env (?d', w', v')" using bs_positive by (subst (1 2) dir_next.simps) simp
  then have "collect_entries env [] (?d, w, v) = collect_entries env [] (?d', w', v')" by (subst (1 2) collect_entries.simps) simp
  moreover have "stands_at bs [] slots ?d'" using cont(2) slots big by (simp add: stands_at_def block_of_slots_def)
  ultimately show ?thesis using collect_slots [of bs "[]" slots ?d' v' env "[]" w'] bs' new
    by (auto simp: directory_new_def io_bind_def io_ok_def)
qed

end

text \<open>
  C40: On a volume in a coherent state, over such a device and cache: listing a directory of
  exactly one allocated block that holds a sequence of well-formed slots terminates without a
  panic or an out-of-bounds access and returns exactly the names and inodes of the slots in
  use, in order; free slots are skipped.
\<close>

theorem directory_lists_slots:
  assumes dev: "byte_file (ex_ops env) f bytes pos fok" and lru: "lru_cache (ex_blocks env) view" and bs: "0 < bs"
    and ok: "volume_ok fok bytes f view bs (w, v)" and size: "inode_get_size (volume_size64 v) inode = bs"
    and map: "file_mapped bs (volume_disk bytes (w, v)) inode 1"
    and block: "volume_disk bytes (w, v) ! block_of_file bs (volume_disk bytes (w, v)) inode 0 =
      block_of_slots (sp_required_features (ev_superblock v) AND required_feature_bit DirectoryEntriesHaveTypeField \<noteq> 0) slots"
    and slots: "list_all slot_ok slots"
  shows "\<exists>s. directory_new env inode mode (w, v) = Some (Inr \<lparr>dy_entries = used_entries slots, dy_inode = inode\<rparr>, s)"
  by (rule ext2_on_file.directory_new_slots [OF ext2_on_fileI [OF dev lru bs] ok size map block slots])

text \<open>
  The directory \<^verbatim>\<open>.\<close>, \<^verbatim>\<open>..\<close> and a file that was removed, in block 2 of the volume of four blocks,
  stored by a write to the volume.
\<close>

definition vol_slots :: "DirSlot list" where
  "vol_slots = [\<lparr>sl_inode = 2, sl_type = 2, sl_name = [46], sl_pad = [0, 0, 0]\<rparr>, \<lparr>sl_inode = 0, sl_type = 1, sl_name = [97, 98], sl_pad = [0, 0]\<rparr>,
     \<lparr>sl_inode = 5, sl_type = 2, sl_name = [46, 46], sl_pad = replicate 990 0\<rparr>]"

definition vol_dir_inode :: Inode where
  "vol_dir_inode = vol_inode\<lparr>in_type := InodeType.Directory, in_size_lo := 1024\<rparr>"

lemma char_of_dot: "char_of (46 :: nat) = CHR ''.''"
  by code_simp

lemma vol_slots_ok: "list_all slot_ok vol_slots" "length (block_of_slots f vol_slots) = 1024"
  "used_entries vol_slots = [\<lparr>dn_inode = 2, dn_name = ''.''\<rparr>, \<lparr>dn_inode = 5, dn_name = ''..''\<rparr>]"
  by (simp_all add: vol_slots_def slot_ok_def slot_len_def block_of_slots_def used_entries_def slot_entry_def char_of_dot)

theorem directory_lists_slots_witness:
  "\<forall>env. \<exists>s s'. ext2_write_block (vol_env env) 2 (block_of_slots False vol_slots) (vol_world, vol_volume) = Some (Inr 1024, s) \<and>
     directory_new (vol_env env) vol_dir_inode 1 s =
       Some (Inr \<lparr>dy_entries = [\<lparr>dn_inode = 2, dn_name = ''.''\<rparr>, \<lparr>dn_inode = 5, dn_name = ''..''\<rparr>], dy_inode = vol_dir_inode\<rparr>, s')"
proof
  fix env
  let ?b = "device_bytes dv_sectors 4096" and ?B = "block_of_slots False vol_slots"
  have pos: "0 < (1024 :: nat)" and lba: "2 < ev_block_count vol_volume" by (simp_all add: vol_volume_def)
  note vol = ext2_on_fileI [OF vol_byte_file vol_lru pos]
  obtain w' c where w': "ext2_write_block (vol_env env) 2 ?B (vol_world, vol_volume) = Some (Inr 1024, w', vol_volume\<lparr>ev_block_cache := c\<rparr>)"
    "volume_ok vol_fok ?b vol_file alist_view 1024 (w', vol_volume\<lparr>ev_block_cache := c\<rparr>)" "?b w' = splice_at (?b vol_world) (2 * 1024) ?B"
    using ext2_on_file.write_block_disk [OF vol vol_ok lba vol_slots_ok(2), of env False] by blast
  let ?v = "vol_volume\<lparr>ev_block_cache := c\<rparr>"
  have disk: "length (volume_disk ?b (w', ?v)) = 4" "volume_disk ?b (w', ?v) ! 2 = ?B"
    using w'(3) vol_device(2) vol_slots_ok(2) [of False] by (simp_all add: volume_disk_def vol_volume_def splice_at_def slice_of_def)
  have l: "location_new 256 0 = Some \<lparr>loc_location = Direct 0, loc_table_size = 256\<rparr>" by (simp add: location_new_def mul32_def)
  have at: "block_of_file 1024 (volume_disk ?b (w', ?v)) vol_dir_inode 0 = 2"
    using l by (simp add: block_of_file_def file_location_def vol_dir_inode_def vol_inode_def)
  have map: "file_mapped 1024 (volume_disk ?b (w', ?v)) vol_dir_inode 1"
    using l disk(1) by (simp add: file_mapped_def file_location_def block_exists_def vol_dir_inode_def vol_inode_def loc_capacity_def)
  have size: "inode_get_size (volume_size64 ?v) vol_dir_inode = 1024" by (simp add: inode_get_size_def vol_dir_inode_def)
  have f: "(sp_required_features (ev_superblock ?v) AND required_feature_bit DirectoryEntriesHaveTypeField \<noteq> 0) = False"
  proof -
    have "from_le_bytes [0, 0, 0, 0] AND 2 = (0 :: u32)" by code_simp
    then show ?thesis by (simp add: vol_volume_def demo_superblock_def superblock_read_def slice_of_def numeral_eq_Suc)
  qed
  obtain s' where "directory_new (vol_env env) vol_dir_inode 1 (w', ?v) = Some (Inr \<lparr>dy_entries = used_entries vol_slots, dy_inode = vol_dir_inode\<rparr>, s')"
    using directory_lists_slots [OF vol_byte_file vol_lru pos w'(2) size map _ vol_slots_ok(1), of env 1] at disk(2) f by auto
  then show "\<exists>s s'. ext2_write_block (vol_env env) 2 ?B (vol_world, vol_volume) = Some (Inr 1024, s) \<and>
     directory_new (vol_env env) vol_dir_inode 1 s =
       Some (Inr \<lparr>dy_entries = [\<lparr>dn_inode = 2, dn_name = ''.''\<rparr>, \<lparr>dn_inode = 5, dn_name = ''..''\<rparr>], dy_inode = vol_dir_inode\<rparr>, s')"
    using w'(1) vol_slots_ok(3) by (simp only:) blast
qed

end
