(* ===== verification/Elf.thy ===== *)
theory Elf
  imports FileApi
begin

text \<open>
  The ELF format: \<^verbatim>\<open>formats/elf.rs\<close>, lines 25 to 434. The header of 64 bytes, the conversion of its
  fields to enumerations, reading a file through the file interface, and the iterator over the
  program headers. The buffer for the contents comes from the kernel heap; \<open>uninit\<close> is what it
  holds before it is read.
\<close>

section \<open>Errors\<close>

datatype InvalidElfFileReason = NoHeader | InvalidMagic "u8 list" | InvalidField string

datatype ElfError =
    InputOutput VfsError
  | InvalidElfFile InvalidElfFileReason
  | InvalidPageTableAllocation
  | InvalidSegmentOffset nat nat

type_synonym ('w, 'a) eio = "'w \<Rightarrow> ((ElfError + 'a) \<times> 'w) panics"

definition eio_ok :: "'a \<Rightarrow> ('w, 'a) eio" where
  "eio_ok x w = Some (Inr x, w)"

definition eio_err :: "ElfError \<Rightarrow> ('w, 'a) eio" where
  "eio_err e w = Some (Inl e, w)"

definition eio_bind :: "('w, 'a) eio \<Rightarrow> ('a \<Rightarrow> ('w, 'b) eio) \<Rightarrow> ('w, 'b) eio" where
  "eio_bind m f w = (case m w of None \<Rightarrow> None | Some (Inl e, w') \<Rightarrow> Some (Inl e, w') | Some (Inr x, w') \<Rightarrow> f x w')"

text \<open>\<^verbatim>\<open>impl From<VfsError> for ElfError\<close>, where the operator \<^verbatim>\<open>?\<close> applies it.\<close>

definition eio_vfs :: "('w, 'a) vio \<Rightarrow> ('w, 'a) eio" where
  "eio_vfs m w = (case m w of None \<Rightarrow> None | Some (Inl e, w') \<Rightarrow> Some (Inl (InputOutput e), w') | Some (Inr x, w') \<Rightarrow> Some (Inr x, w'))"

definition elf_bind :: "ElfError + 'a \<Rightarrow> ('a \<Rightarrow> ElfError + 'b) \<Rightarrow> ElfError + 'b" where
  "elf_bind r f = (case r of Inl e \<Rightarrow> Inl e | Inr x \<Rightarrow> f x)"

section \<open>Enumerations\<close>

datatype ElfClass = ElfClassNone | Class32 | Class64

definition elf_class_of :: "u8 \<Rightarrow> ElfError + ElfClass" where
  "elf_class_of value = (if value = 1 then Inr Class32 else if value = 2 then Inr Class64 else Inl (InvalidElfFile (InvalidField ''bits'')))"

datatype ElfEndianness = ElfEndiannessNone | Little | Big

definition elf_endianness_of :: "u8 \<Rightarrow> ElfError + ElfEndianness" where
  "elf_endianness_of value = (if value = 1 then Inr Little else if value = 2 then Inr Big else Inl (InvalidElfFile (InvalidField ''endianness'')))"

datatype ElfType = ElfTypeNone | Relocatable | Executable | Shared | Core

definition elf_type_of :: "u16 \<Rightarrow> ElfError + ElfType" where
  "elf_type_of value =
     (if value = 1 then Inr Relocatable else if value = 2 then Inr Executable else if value = 3 then Inr Shared else if value = 4 then Inr Core
      else Inl (InvalidElfFile (InvalidField ''elf_type'')))"

datatype ElfMachine = ElfMachineNone | X86_64

definition elf_machine_of :: "u16 \<Rightarrow> ElfError + ElfMachine" where
  "elf_machine_of value = (if value = 62 then Inr X86_64 else Inl (InvalidElfFile (InvalidField ''instruction_set'')))"

datatype ElfHeaderVersion = ElfHeaderVersionNone | HeaderCurrent

definition elf_header_version_of :: "u8 \<Rightarrow> ElfError + ElfHeaderVersion" where
  "elf_header_version_of value = (if value = 1 then Inr HeaderCurrent else Inl (InvalidElfFile (InvalidField ''header_version'')))"

datatype ElfVersion = ElfVersionNone | ElfCurrent

definition elf_version_of :: "u32 \<Rightarrow> ElfError + ElfVersion" where
  "elf_version_of value = (if value = 1 then Inr ElfCurrent else Inl (InvalidElfFile (InvalidField ''elf_version'')))"

section \<open>The header\<close>

record Elf64HeaderRaw =
  rh_magic :: "u8 list"
  rh_bits :: u8
  rh_endianness :: u8
  rh_header_version :: u8
  rh_os_abi :: u8
  rh_padding :: "u8 list"
  rh_elf_type :: u16
  rh_instruction_set :: u16
  rh_elf_version :: u32
  rh_entry_offset :: u64
  rh_program_header_table_offset :: u64
  rh_section_header_table_offset :: u64
  rh_flags :: u32
  rh_header_size :: u16
  rh_program_header_entry_size :: u16
  rh_program_header_entry_count :: u16
  rh_section_header_entry_size :: u16
  rh_section_header_entry_count :: u16
  rh_index_of_section_header_string_table :: u16

definition read_elf_header :: "u8 list \<Rightarrow> Elf64HeaderRaw" where
  "read_elf_header bs =
     \<lparr>rh_magic = slice_of bs 0 4, rh_bits = bs ! 4, rh_endianness = bs ! 5, rh_header_version = bs ! 6, rh_os_abi = bs ! 7,
      rh_padding = slice_of bs 8 16, rh_elf_type = from_le_bytes (slice_of bs 16 18), rh_instruction_set = from_le_bytes (slice_of bs 18 20),
      rh_elf_version = from_le_bytes (slice_of bs 20 24), rh_entry_offset = from_le_bytes (slice_of bs 24 32),
      rh_program_header_table_offset = from_le_bytes (slice_of bs 32 40), rh_section_header_table_offset = from_le_bytes (slice_of bs 40 48),
      rh_flags = from_le_bytes (slice_of bs 48 52), rh_header_size = from_le_bytes (slice_of bs 52 54),
      rh_program_header_entry_size = from_le_bytes (slice_of bs 54 56), rh_program_header_entry_count = from_le_bytes (slice_of bs 56 58),
      rh_section_header_entry_size = from_le_bytes (slice_of bs 58 60), rh_section_header_entry_count = from_le_bytes (slice_of bs 60 62),
      rh_index_of_section_header_string_table = from_le_bytes (slice_of bs 62 64)\<rparr>"

record Elf64Header =
  eh_magic :: "u8 list"
  eh_bits :: ElfClass
  eh_endianness :: ElfEndianness
  eh_header_version :: ElfHeaderVersion
  eh_os_abi :: u8
  eh_padding :: "u8 list"
  eh_elf_type :: ElfType
  eh_instruction_set :: ElfMachine
  eh_elf_version :: ElfVersion
  eh_entry_offset :: u64
  eh_program_header_table_offset :: u64
  eh_section_header_table_offset :: u64
  eh_flags :: u32
  eh_header_size :: u16
  eh_program_header_entry_size :: u16
  eh_program_header_entry_count :: u16
  eh_section_header_entry_size :: u16
  eh_section_header_entry_count :: u16
  eh_index_of_section_header_string_table :: u16

text \<open>The version of the file is converted from the version of the header.\<close>

definition elf_header_of :: "Elf64HeaderRaw \<Rightarrow> ElfError + Elf64Header" where
  "elf_header_of value =
     elf_bind (elf_class_of (rh_bits value)) (\<lambda>bits.
     elf_bind (elf_endianness_of (rh_endianness value)) (\<lambda>endianness.
     elf_bind (elf_header_version_of (rh_header_version value)) (\<lambda>header_version.
     elf_bind (elf_type_of (rh_elf_type value)) (\<lambda>elf_type.
     elf_bind (elf_machine_of (rh_instruction_set value)) (\<lambda>instruction_set.
     elf_bind (elf_version_of (ucast (rh_header_version value))) (\<lambda>elf_version.
     Inr \<lparr>eh_magic = rh_magic value, eh_bits = bits, eh_endianness = endianness, eh_header_version = header_version,
       eh_os_abi = rh_os_abi value, eh_padding = rh_padding value, eh_elf_type = elf_type, eh_instruction_set = instruction_set,
       eh_elf_version = elf_version, eh_entry_offset = rh_entry_offset value,
       eh_program_header_table_offset = rh_program_header_table_offset value, eh_section_header_table_offset = rh_section_header_table_offset value,
       eh_flags = rh_flags value, eh_header_size = rh_header_size value, eh_program_header_entry_size = rh_program_header_entry_size value,
       eh_program_header_entry_count = rh_program_header_entry_count value, eh_section_header_entry_size = rh_section_header_entry_size value,
       eh_section_header_entry_count = rh_section_header_entry_count value,
       eh_index_of_section_header_string_table = rh_index_of_section_header_string_table value\<rparr>))))))"

section \<open>Program headers\<close>

record Elf64ProgramHeaderRaw =
  rp_segment_type :: u32
  rp_flags :: u32
  rp_offset :: u64
  rp_vaddr :: u64
  rp_paddr :: u64
  rp_filesz :: u64
  rp_memsz :: u64
  rp_align :: u64

definition read_program_header :: "u8 list \<Rightarrow> Elf64ProgramHeaderRaw" where
  "read_program_header bs =
     \<lparr>rp_segment_type = from_le_bytes (slice_of bs 0 4), rp_flags = from_le_bytes (slice_of bs 4 8), rp_offset = from_le_bytes (slice_of bs 8 16),
      rp_vaddr = from_le_bytes (slice_of bs 16 24), rp_paddr = from_le_bytes (slice_of bs 24 32), rp_filesz = from_le_bytes (slice_of bs 32 40),
      rp_memsz = from_le_bytes (slice_of bs 40 48), rp_align = from_le_bytes (slice_of bs 48 56)\<rparr>"

datatype ElfSegmentType = SegNone | SegLoad | SegDynamic | SegInterpreter | SegNote | SegOther u32

datatype ElfProgramHeaderFlag = PhExecutable | PhWritable | PhReadable

fun ph_flag_value :: "ElfProgramHeaderFlag \<Rightarrow> u32" where
  "ph_flag_value PhExecutable = 1"
| "ph_flag_value PhWritable = 2"
| "ph_flag_value PhReadable = 4"

definition ph_flags_has :: "u32 \<Rightarrow> ElfProgramHeaderFlag \<Rightarrow> bool" where
  "ph_flags_has flags flag \<longleftrightarrow> flags AND ph_flag_value flag \<noteq> 0"

record Elf64ProgramHeader =
  ph_segment_type :: ElfSegmentType
  ph_flags :: u32
  ph_offset :: nat
  ph_vaddr :: nat
  ph_paddr :: nat
  ph_filesz :: nat
  ph_memsz :: nat
  ph_align :: nat

definition program_header_of :: "Elf64ProgramHeaderRaw \<Rightarrow> Elf64ProgramHeader" where
  "program_header_of value =
     \<lparr>ph_segment_type =
        (if rp_segment_type value = 1 then SegLoad else if rp_segment_type value = 2 then SegDynamic
         else if rp_segment_type value = 3 then SegInterpreter else if rp_segment_type value = 4 then SegNote
         else SegOther (rp_segment_type value)),
      ph_flags = rp_flags value, ph_offset = unat (rp_offset value), ph_vaddr = unat (rp_vaddr value), ph_paddr = unat (rp_paddr value),
      ph_filesz = unat (rp_filesz value), ph_memsz = unat (rp_memsz value), ph_align = unat (rp_align value)\<rparr>"

section \<open>Files\<close>

record Elf64File =
  ef_contents :: "u8 list"
  ef_header :: Elf64Header

definition ELF_MAGIC :: "u8 list" where
  "ELF_MAGIC = [0x7F, 0x45, 0x4C, 0x46]"

definition elf_try_parse :: "'w FsOps \<Rightarrow> u8 list \<Rightarrow> File \<Rightarrow> ('w, Elf64File) eio" where
  "elf_try_parse ops uninit file =
     eio_bind (eio_vfs (file_seek ops file (FromStart 0))) (\<lambda>_.
     eio_bind (eio_vfs (file_read ops file (replicate 64 0))) (\<lambda>(size, buffer).
     if size \<noteq> 64 then eio_err (InvalidElfFile NoHeader)
     else eio_bind (eio_vfs (file_stats ops file)) (\<lambda>stats.
          let header_raw = read_elf_header buffer
          in if rh_magic header_raw \<noteq> ELF_MAGIC then eio_err (InvalidElfFile (InvalidMagic (rh_magic header_raw)))
             else eio_bind (\<lambda>w. Some (elf_header_of header_raw, w)) (\<lambda>header.
                  eio_bind (eio_vfs (file_seek ops file (FromStart 0))) (\<lambda>_.
                  eio_bind (eio_vfs (file_read ops file (alloc_boxed_slice uninit (st_size stats)))) (\<lambda>(size, contents).
                  if size \<noteq> st_size stats then eio_err (InputOutput ShortRead)
                  else eio_ok \<lparr>ef_contents = contents, ef_header = header\<rparr>))))))"

text \<open>One call of the iterator: the header found and the index after it. The sum for the position is checked, the others wrap.\<close>

definition ph_iter_next :: "Elf64File \<Rightarrow> nat \<Rightarrow> (Elf64ProgramHeader option \<times> nat) panics" where
  "ph_iter_next elf idx =
     (if unat (eh_program_header_entry_count (ef_header elf)) \<le> idx then Some (None, idx)
      else do {
        off \<leftarrow> mul64 idx (unat (eh_program_header_entry_size (ef_header elf)));
        ptr \<leftarrow> add64 (unat (eh_program_header_table_offset (ef_header elf))) off;
        let len = length (ef_contents elf);
        if len \<le> ptr \<or> len < (ptr + 56) mod 2 ^ 64 \<or> (ptr + 56) mod 2 ^ 64 \<le> ptr then Some (None, idx)
        else Some (Some (program_header_of (read_program_header (slice_of (ef_contents elf) ptr (ptr + 56)))), idx + 1)
      })"

lemma ph_iter_progress:
  "ph_iter_next elf idx = Some (Some ph, idx') \<Longrightarrow> idx' = idx + 1 \<and> idx < unat (eh_program_header_entry_count (ef_header elf))"
  by (auto simp: ph_iter_next_def Let_def split: if_splits)

function iter_program_headers_from :: "Elf64File \<Rightarrow> nat \<Rightarrow> Elf64ProgramHeader list panics" where
  "iter_program_headers_from elf idx =
     (case ph_iter_next elf idx of
        None \<Rightarrow> None
      | Some (None, _) \<Rightarrow> Some []
      | Some (Some ph, idx') \<Rightarrow> map_option (\<lambda>phs. ph # phs) (iter_program_headers_from elf idx'))"
  by pat_completeness auto
termination
  by (relation "measure (\<lambda>(elf, idx). unat (eh_program_header_entry_count (ef_header elf)) - idx)") (auto dest: ph_iter_progress)

declare iter_program_headers_from.simps [simp del]

definition iter_program_headers :: "Elf64File \<Rightarrow> Elf64ProgramHeader list panics" where
  "iter_program_headers elf = iter_program_headers_from elf 0"

section \<open>Properties\<close>

lemmas elf_convert_defs = elf_class_of_def elf_endianness_of_def elf_header_version_of_def elf_type_of_def elf_machine_of_def elf_version_of_def elf_bind_def

text \<open>What a header that was converted looks like; the four values of a type are those of the format.\<close>

definition header_typed :: "Elf64HeaderRaw \<Rightarrow> Elf64Header \<Rightarrow> bool" where
  "header_typed r h \<longleftrightarrow> elf_class_of (rh_bits r) = Inr (eh_bits h) \<and> elf_endianness_of (rh_endianness r) = Inr (eh_endianness h) \<and>
     elf_type_of (rh_elf_type r) = Inr (eh_elf_type h) \<and> eh_bits h \<noteq> ElfClassNone \<and> eh_endianness h \<noteq> ElfEndiannessNone \<and>
     eh_elf_type h \<noteq> ElfTypeNone \<and> eh_instruction_set h = X86_64 \<and> eh_header_version h = HeaderCurrent \<and> eh_elf_version h = ElfCurrent \<and>
     eh_magic h = rh_magic r \<and> eh_entry_offset h = rh_entry_offset r \<and>
     eh_program_header_table_offset h = rh_program_header_table_offset r \<and>
     eh_program_header_entry_size h = rh_program_header_entry_size r \<and> eh_program_header_entry_count h = rh_program_header_entry_count r"

lemma elf_header_of_typed: "elf_header_of r = Inr h \<Longrightarrow> header_typed r h"
  by (auto simp: elf_header_of_def elf_convert_defs header_typed_def split: if_splits)

lemma elf_header_of_iff:
  "(\<exists>h. elf_header_of r = Inr h) \<longleftrightarrow> rh_bits r \<in> {1, 2} \<and> rh_endianness r \<in> {1, 2} \<and> rh_header_version r = 1 \<and>
     rh_elf_type r \<in> {1, 2, 3, 4} \<and> rh_instruction_set r = 62"
  by (auto simp: elf_header_of_def elf_convert_defs split: if_splits)

lemma eio_bind_Inr: "eio_bind m f w = Some (Inr y, w') \<longleftrightarrow> (\<exists>x w1. m w = Some (Inr x, w1) \<and> f x w1 = Some (Inr y, w'))"
  by (auto simp: eio_bind_def split: option.splits sum.splits)

lemma eio_vfs_Inr: "eio_vfs m w = Some (Inr y, w') \<longleftrightarrow> m w = Some (Inr y, w')"
  by (auto simp: eio_vfs_def split: option.splits sum.splits)

text \<open>
  A file is accepted as an ELF file only if its first 64 bytes could be read, start with the
  magic number and convert field by field to a header for x86-64 without a None value, and the
  contents are the whole file read from its start.
\<close>

theorem elf_parse_typed:
  assumes "elf_try_parse ops uninit file w = Some (Inr elf, w')"
  shows "\<exists>w1 w2 w3 w4 n buf stats. file_seek ops file (FromStart 0) w = Some (Inr n, w1) \<and>
    file_read ops file (replicate 64 0) w1 = Some (Inr (64, buf), w2) \<and> file_stats ops file w2 = Some (Inr stats, w3) \<and>
    slice_of buf 0 4 = ELF_MAGIC \<and> header_typed (read_elf_header buf) (ef_header elf) \<and>
    (\<exists>n. file_seek ops file (FromStart 0) w3 = Some (Inr n, w4)) \<and>
    file_read ops file (alloc_boxed_slice uninit (st_size stats)) w4 = Some (Inr (st_size stats, ef_contents elf), w')"
proof -
  obtain n w1 buf w2 stats w3 header n' w4 contents where
    1: "file_seek ops file (FromStart 0) w = Some (Inr n, w1)" "file_read ops file (replicate 64 0) w1 = Some (Inr (64, buf), w2)"
    and 2: "file_stats ops file w2 = Some (Inr stats, w3)" "rh_magic (read_elf_header buf) = ELF_MAGIC"
    and 3: "elf_header_of (read_elf_header buf) = Inr header" "file_seek ops file (FromStart 0) w3 = Some (Inr n', w4)"
      "file_read ops file (alloc_boxed_slice uninit (st_size stats)) w4 = Some (Inr (st_size stats, contents), w')"
      "elf = \<lparr>ef_contents = contents, ef_header = header\<rparr>"
    using assms unfolding elf_try_parse_def
    by (auto simp: eio_bind_Inr eio_vfs_Inr eio_err_def eio_ok_def Let_def if_distrib [where f = "\<lambda>m. m _"] split: if_splits)
  have "header_typed (read_elf_header buf) (ef_header elf)" using elf_header_of_typed 3(1,4) by simp
  moreover have "slice_of buf 0 4 = ELF_MAGIC" using 2(2) by (simp add: read_elf_header_def)
  ultimately show ?thesis using 1 2(1) 3(2-4) by auto
qed

text \<open>The position of a program header, and whether it lies in the file.\<close>

definition ph_ptr :: "Elf64File \<Rightarrow> nat \<Rightarrow> nat" where
  "ph_ptr elf i = unat (eh_program_header_table_offset (ef_header elf)) + i * unat (eh_program_header_entry_size (ef_header elf))"

definition ph_in_file :: "Elf64File \<Rightarrow> nat \<Rightarrow> bool" where
  "ph_in_file elf i \<longleftrightarrow> ph_ptr elf i + 56 \<le> length (ef_contents elf)"

definition ph_at :: "Elf64File \<Rightarrow> nat \<Rightarrow> Elf64ProgramHeader" where
  "ph_at elf i = program_header_of (read_program_header (slice_of (ef_contents elf) (ph_ptr elf i) (ph_ptr elf i + 56)))"

lemma ph_iter_next_eq:
  assumes "length (ef_contents elf) < 2 ^ 63" "\<forall>j < idx. ph_in_file elf j"
  shows "ph_iter_next elf idx = Some (if idx < unat (eh_program_header_entry_count (ef_header elf)) \<and> ph_in_file elf idx
    then (Some (ph_at elf idx), idx + 1) else (None, idx))"
proof (cases "unat (eh_program_header_entry_count (ef_header elf)) \<le> idx")
  case False
  let ?e = "unat (eh_program_header_entry_size (ef_header elf))" and ?o = "unat (eh_program_header_table_offset (ef_header elf))"
  have e: "?e < 2 ^ 16" and o: "?o < 2 ^ 64"
    using unsigned_less [of "eh_program_header_entry_size (ef_header elf)", where 'a = nat]
      unsigned_less [of "eh_program_header_table_offset (ef_header elf)", where 'a = nat] by simp_all
  have small: "ph_ptr elf idx < 2 ^ 64"
  proof (cases idx)
    case 0
    then show ?thesis using o by (simp add: ph_ptr_def)
  next
    case (Suc j)
    then have "ph_ptr elf j + 56 \<le> length (ef_contents elf)" using assms(2) by (simp add: ph_in_file_def)
    moreover have "ph_ptr elf idx = ph_ptr elf j + ?e" by (simp add: ph_ptr_def Suc)
    ultimately show ?thesis using assms(1) e by simp
  qed
  have ptr: "mul64 idx ?e = Some (idx * ?e)" "add64 ?o (idx * ?e) = Some (ph_ptr elf idx)"
    using small by (simp_all add: mul64_def add64_def ph_ptr_def)
  have "length (ef_contents elf) \<le> ph_ptr elf idx \<or> length (ef_contents elf) < (ph_ptr elf idx + 56) mod 2 ^ 64 \<or> (ph_ptr elf idx + 56) mod 2 ^ 64 \<le> ph_ptr elf idx
      \<longleftrightarrow> \<not> ph_in_file elf idx"
  proof (cases "length (ef_contents elf) \<le> ph_ptr elf idx")
    case False
    then have "(ph_ptr elf idx + 56) mod 2 ^ 64 = ph_ptr elf idx + 56" using assms(1) by simp
    then show ?thesis using False by (auto simp: ph_in_file_def)
  qed (simp add: ph_in_file_def)
  then show ?thesis using False ptr by (simp add: ph_iter_next_def ph_at_def Let_def del: bind_eq_Some_iff)
qed (simp add: ph_iter_next_def)

lemma iter_program_headers_from_eq:
  assumes "length (ef_contents elf) < 2 ^ 63" "\<forall>j < idx. ph_in_file elf j"
  shows "iter_program_headers_from elf idx =
    Some (map (ph_at elf) (takeWhile (ph_in_file elf) [idx..<unat (eh_program_header_entry_count (ef_header elf))]))"
  using assms(2)
proof (induction "unat (eh_program_header_entry_count (ef_header elf)) - idx" arbitrary: idx)
  case 0
  then show ?case by (subst iter_program_headers_from.simps) (simp add: ph_iter_next_def)
next
  case (Suc n)
  let ?c = "unat (eh_program_header_entry_count (ef_header elf))"
  have idx: "idx < ?c" "n = ?c - (idx + 1)" using Suc.hyps(2) by simp_all
  note e = ph_iter_next_eq [OF assms(1) Suc.prems]
  show ?case
  proof (cases "ph_in_file elf idx")
    case True
    then have "\<forall>j < idx + 1. ph_in_file elf j" using Suc.prems by (simp add: less_Suc_eq)
    from Suc.hyps(1) [OF idx(2) this] show ?thesis
      using e True idx(1) by (subst iter_program_headers_from.simps) (simp add: upt_conv_Cons)
  next
    case False
    then show ?thesis using e idx(1) by (subst iter_program_headers_from.simps) (simp add: upt_conv_Cons)
  qed
qed

text \<open>
  C27: Whatever the header of the file says, iterating over the program headers ends, reads inside
  the file only and yields the headers of the table up to the first that does not lie in the
  file whole; no sum overflows for a file of less than 2^63 bytes.
\<close>

theorem elf_program_headers_exact:
  assumes "length (ef_contents elf) < 2 ^ 63"
  shows "iter_program_headers elf =
    Some (map (ph_at elf) (takeWhile (ph_in_file elf) [0..<unat (eh_program_header_entry_count (ef_header elf))]))"
  unfolding iter_program_headers_def by (rule iter_program_headers_from_eq [OF assms]) simp

text \<open>
  A file for the witnesses: a header, and one program header that loads the 120 bytes of the file at
  \<open>0x400000\<close> into a segment of 8192 bytes. It is read at the start only.
\<close>

definition demo_elf :: "u8 list" where
  "demo_elf = ELF_MAGIC @ [2, 1, 1, 0] @ replicate 8 0 @ [2, 0, 62, 0, 1, 0, 0, 0] @ [0x78, 0, 0x40, 0, 0, 0, 0, 0] @ [64, 0, 0, 0, 0, 0, 0, 0] @
     replicate 12 0 @ [64, 0, 56, 0, 1, 0] @ replicate 6 0 @
     [1, 0, 0, 0, 5, 0, 0, 0] @ replicate 8 0 @ [0, 0, 0x40, 0, 0, 0, 0, 0] @ [0, 0, 0x40, 0, 0, 0, 0, 0] @
     [120, 0, 0, 0, 0, 0, 0, 0] @ [0, 0x20, 0, 0, 0, 0, 0, 0] @ [0, 0x10, 0, 0, 0, 0, 0, 0]"

definition demo_elf_ops :: "PipeFs FsOps" where
  "demo_elf_ops = (pipefs_ops demo_heap)\<lparr>fo_fseek := (\<lambda>_ _ _. io_ok 0),
     fo_fread := (\<lambda>_ _ buf. io_ok (min (length buf) 120, take (length buf) demo_elf)),
     fo_fstat := (\<lambda>_ _. io_ok \<lparr>st_size = 120, st_created_at = 0, st_modified_at = 0, st_permissions = 0, st_is_file = True, st_is_directory = False,
        st_is_symlink = False, st_owner_id = 0, st_group_id = 0, st_flags = 0\<rparr>)\<rparr>"

definition demo_elf_file :: File where
  "demo_elf_file = \<lparr>f_mode = 1, f_path = ''/bin/demo'', f_fs = 7, f_file = pipefs_get_root pipefs_init, f_handle = 1\<rparr>"

definition demo_header :: Elf64Header where
  "demo_header = \<lparr>eh_magic = ELF_MAGIC, eh_bits = Class64, eh_endianness = Little, eh_header_version = HeaderCurrent, eh_os_abi = 0,
     eh_padding = replicate 8 0, eh_elf_type = Executable, eh_instruction_set = X86_64, eh_elf_version = ElfCurrent, eh_entry_offset = 0x400078,
     eh_program_header_table_offset = 64, eh_section_header_table_offset = 0, eh_flags = 0, eh_header_size = 64,
     eh_program_header_entry_size = 56, eh_program_header_entry_count = 1, eh_section_header_entry_size = 0, eh_section_header_entry_count = 0,
     eh_index_of_section_header_string_table = 0\<rparr>"

definition demo_elf64 :: Elf64File where
  "demo_elf64 = \<lparr>ef_contents = demo_elf, ef_header = demo_header\<rparr>"

lemma demo_read_header: "elf_header_of (read_elf_header (take 64 demo_elf)) = Inr demo_header" "rh_magic (read_elf_header (take 64 demo_elf)) = ELF_MAGIC"
  by code_simp+

lemma demo_parse: "elf_try_parse demo_elf_ops [] demo_elf_file pipefs_init = Some (Inr demo_elf64, pipefs_init)"
proof -
  have l: "length demo_elf = 120" by (simp add: demo_elf_def ELF_MAGIC_def)
  then show ?thesis
    by (simp add: elf_try_parse_def eio_bind_def eio_vfs_def eio_ok_def file_seek_def file_read_def file_stats_def demo_elf_ops_def io_ok_def
        demo_read_header demo_elf64_def)
qed

theorem elf_parse_typed_witness: "header_typed (read_elf_header (take 64 demo_elf)) demo_header \<and> eh_elf_type demo_header = Executable"
  using elf_parse_typed [OF demo_parse]
  by (auto simp: demo_elf_ops_def file_read_def io_ok_def demo_elf64_def demo_header_def)

theorem elf_program_headers_exact_witness:
  "iter_program_headers demo_elf64 = Some [\<lparr>ph_segment_type = SegLoad, ph_flags = 5, ph_offset = 0, ph_vaddr = 0x400000, ph_paddr = 0x400000,
     ph_filesz = 120, ph_memsz = 0x2000, ph_align = 0x1000\<rparr>]"
proof -
  have c: "eh_program_header_entry_count demo_header = 1" "eh_program_header_entry_size demo_header = 56" "eh_program_header_table_offset demo_header = 64"
    by (simp_all add: demo_header_def)
  have l: "length demo_elf = 120" by (simp add: demo_elf_def ELF_MAGIC_def)
  have "ph_in_file demo_elf64 0" "ph_ptr demo_elf64 0 = 64" by (simp_all add: ph_in_file_def ph_ptr_def demo_elf64_def c l)
  moreover have "read_program_header (slice_of demo_elf 64 (64 + 56)) =
    \<lparr>rp_segment_type = 1, rp_flags = 5, rp_offset = 0, rp_vaddr = 0x400000, rp_paddr = 0x400000, rp_filesz = 120, rp_memsz = 0x2000, rp_align = 0x1000\<rparr>"
    by code_simp
  moreover have "length (ef_contents demo_elf64) < 2 ^ 63" by (simp add: demo_elf64_def l)
  from elf_program_headers_exact [OF this] have "iter_program_headers demo_elf64 = Some (map (ph_at demo_elf64) (takeWhile (ph_in_file demo_elf64) [0]))"
    by (simp add: demo_elf64_def c)
  ultimately show ?thesis by (simp add: ph_at_def demo_elf64_def program_header_of_def)
qed

end
