(* ===== verification/Paging.thy ===== *)
theory Paging
  imports Mem
begin

text \<open>
  Page tables: \<^verbatim>\<open>paging.rs\<close>. Physical memory is seen through the direct mapping, as pages of
  512 words at their virtual addresses; the tables, and the list of free pages of
  \<^verbatim>\<open>SimplePageAllocator\<close>, live in it. A \<^verbatim>\<open>PageAllocator\<close> is a record of operations on its own
  state and that memory. The processor's \<^verbatim>\<open>cr3\<close> is part of the world, and so is the sequence of
  invalidations of cached translations.
\<close>

section \<open>Effects that may return nothing\<close>

text \<open>A computation on a state that panics (\<open>None\<close>), or returns a Rust \<^verbatim>\<open>Option\<close> with the state reached.\<close>

type_synonym ('s, 'r) pio = "'s \<Rightarrow> ('r option \<times> 's) panics"

definition pio_some :: "'r \<Rightarrow> ('s, 'r) pio" where
  "pio_some r s = Some (Some r, s)"

definition pio_none :: "('s, 'r) pio" where
  "pio_none s = Some (None, s)"

text \<open>The operator \<^verbatim>\<open>?\<close>.\<close>

definition pio_bind :: "('s, 'a) pio \<Rightarrow> ('a \<Rightarrow> ('s, 'b) pio) \<Rightarrow> ('s, 'b) pio" where
  "pio_bind m f s = (case m s of None \<Rightarrow> None | Some (None, s') \<Rightarrow> Some (None, s') | Some (Some x, s') \<Rightarrow> f x s')"

definition pio_panics :: "'r panics \<Rightarrow> ('s, 'r) pio" where
  "pio_panics m s = (case m of None \<Rightarrow> None | Some r \<Rightarrow> Some (Some r, s))"

fun pio_for :: "('x \<Rightarrow> ('s, unit) pio) \<Rightarrow> 'x list \<Rightarrow> ('s, unit) pio" where
  "pio_for f [] = pio_some ()"
| "pio_for f (x # xs) = pio_bind (f x) (\<lambda>_. pio_for f xs)"

text \<open>A result that is ignored.\<close>

definition pio_ignore :: "('s, 'r) pio \<Rightarrow> ('s, unit) pio" where
  "pio_ignore m s = (case m s of None \<Rightarrow> None | Some (_, s') \<Rightarrow> Some (Some (), s'))"

section \<open>Memory and allocators of pages\<close>

type_synonym page_mem = "nat \<Rightarrow> nat \<Rightarrow> u64"

type_synonym 'a store = "'a \<times> page_mem"

definition set_word :: "page_mem \<Rightarrow> nat \<Rightarrow> nat \<Rightarrow> u64 \<Rightarrow> page_mem" where
  "set_word m p i x = m(p := (m p)(i := x))"

definition zero_page :: "page_mem \<Rightarrow> nat \<Rightarrow> page_mem" where
  "zero_page m p = m(p := (\<lambda>i. if i < 512 then 0 else m p i))"

record 'a PageAllocator =
  pa_alloc :: "('a store, nat) pio"
  pa_free :: "nat \<Rightarrow> 'a store \<Rightarrow> 'a store panics"

record SimplePageAllocator =
  sa_min_addr :: nat
  sa_max_addr :: nat
  sa_free_head :: nat

text \<open>\<^verbatim>\<open>FreePage\<close>: the first word of a free page is the next one, the second the number of pages of the run.\<close>

definition write_free_page :: "page_mem \<Rightarrow> nat \<Rightarrow> nat \<Rightarrow> nat \<Rightarrow> page_mem" where
  "write_free_page m p nxt n = set_word (set_word m p 0 (of_nat nxt)) p 1 (of_nat n)"

definition simple_alloc_page :: "(SimplePageAllocator store, nat) pio" where
  "simple_alloc_page = (\<lambda>(a, m).
     let free_page = sa_free_head a
     in if free_page = 0 then Some (None, a, m)
        else let nxt = unat (m free_page 0); n = unat (m free_page 1)
             in if n = 1 then Some (Some free_page, a\<lparr>sa_free_head := nxt\<rparr>, m)
                else do {
                  next_page \<leftarrow> add64 free_page 4096;
                  if next_page < sa_max_addr a
                  then do {
                    n' \<leftarrow> sub64 n 1;
                    Some (Some free_page, a\<lparr>sa_free_head := next_page\<rparr>, write_free_page m next_page nxt n')
                  }
                  else Some (Some free_page, a\<lparr>sa_free_head := nxt\<rparr>, m)
                })"

definition simple_free_page :: "nat \<Rightarrow> SimplePageAllocator store \<Rightarrow> SimplePageAllocator store panics" where
  "simple_free_page page = (\<lambda>(a, m).
     if page AND 0xFFF \<noteq> 0 then Some (a, m)
     else Some (a\<lparr>sa_free_head := page\<rparr>, write_free_page m page (sa_free_head a) 1))"

definition simple_pages :: "SimplePageAllocator PageAllocator" where
  "simple_pages = \<lparr>pa_alloc = simple_alloc_page, pa_free = simple_free_page\<rparr>"

text \<open>\<^verbatim>\<open>KernelPageTablesAllocator\<close>: pages of the kernel heap.\<close>

definition page_layout :: Layout where
  "page_layout = \<lparr>layout_size = 4096, layout_align = 4096\<rparr>"

definition kernel_alloc_page :: "(main_allocator store, nat) pio" where
  "kernel_alloc_page = (\<lambda>(g, m). do {
     (addr, g') \<leftarrow> global_alloc g page_layout;
     Some (if addr = 0 then None else Some addr, g', m)
   })"

definition kernel_free_page :: "nat \<Rightarrow> main_allocator store \<Rightarrow> main_allocator store panics" where
  "kernel_free_page page = (\<lambda>(g, m). do { g' \<leftarrow> global_dealloc g page page_layout; Some (g', m) })"

definition kernel_pages :: "main_allocator PageAllocator" where
  "kernel_pages = \<lparr>pa_alloc = kernel_alloc_page, pa_free = kernel_free_page\<rparr>"

text \<open>\<^verbatim>\<open>impl PageAllocator for ()\<close>.\<close>

definition no_pages :: "unit PageAllocator" where
  "no_pages = \<lparr>pa_alloc = (\<lambda>_. None), pa_free = (\<lambda>_ _. None)\<rparr>"

section \<open>Entries and addresses\<close>

abbreviation PAGE_PRESENT :: u64 where "PAGE_PRESENT \<equiv> 1"
abbreviation PAGE_RW :: u64 where "PAGE_RW \<equiv> 2"
abbreviation PAGE_USER :: u64 where "PAGE_USER \<equiv> 4"
abbreviation PAGE_ACCESSED :: u64 where "PAGE_ACCESSED \<equiv> 0x20"
abbreviation PAGE_HUGE :: u64 where "PAGE_HUGE \<equiv> 0x80"
abbreviation ADDR_MASK :: u64 where "ADDR_MASK \<equiv> 0x000FFFFFFFFFF000"

definition KB4 :: nat where
  "KB4 = 4 * 1024"

definition PAGE_SIZE_2MB :: nat where
  "PAGE_SIZE_2MB = 2 * 1024 * 1024"

definition split_virt_addr :: "nat \<Rightarrow> nat \<times> nat \<times> nat \<times> nat" where
  "split_virt_addr addr = (drop_bit 39 addr AND 0x1FF, drop_bit 30 addr AND 0x1FF, drop_bit 21 addr AND 0x1FF, drop_bit 12 addr AND 0x1FF)"

definition join_virt_addr :: "nat \<Rightarrow> nat \<Rightarrow> nat \<Rightarrow> nat \<Rightarrow> nat \<Rightarrow> nat" where
  "join_virt_addr pml4 pdpt pd pt offset =
     (let addr = push_bit 39 pml4 OR push_bit 30 pdpt OR push_bit 21 pd OR push_bit 12 pt OR (offset AND 0xFFF)
      in if bit addr 47 then addr OR 0xFFFF000000000000 else addr)"

definition present :: "u64 \<Rightarrow> bool" where
  "present e \<longleftrightarrow> e AND PAGE_PRESENT \<noteq> 0"

definition huge :: "u64 \<Rightarrow> bool" where
  "huge e \<longleftrightarrow> e AND PAGE_HUGE \<noteq> 0"

text \<open>Where an entry points, in the direct mapping.\<close>

definition entry_target :: "u64 \<Rightarrow> nat panics" where
  "entry_target e = add64 (unat (e AND ADDR_MASK)) DIRECT_MAPPING_OFFSET"

definition get_table :: "'a PageAllocator \<Rightarrow> bool \<Rightarrow> nat \<Rightarrow> nat \<Rightarrow> u64 \<Rightarrow> u64 \<Rightarrow> ('a store, nat) pio" where
  "get_table ops add_if_empty table idx sub_flags disallowed_flags =
     pio_bind
       (\<lambda>(a, m).
          if present (m table idx) then pio_some () (a, m)
          else if add_if_empty
          then pio_bind (pa_alloc ops) (\<lambda>ptr.
               pio_bind (pio_panics (sub64 ptr DIRECT_MAPPING_OFFSET)) (\<lambda>phys (a, m).
               pio_some () (a, set_word (zero_page m ptr) table idx (of_nat phys OR sub_flags)))) (a, m)
          else pio_none (a, m)) (\<lambda>_ (a, m).
       let value = m table idx
       in if value AND disallowed_flags \<noteq> 0 then pio_none (a, m)
          else pio_panics (entry_target value) (a, m))"

definition table_remove :: "'a PageAllocator \<Rightarrow> nat \<Rightarrow> nat \<Rightarrow> ('a store, unit) pio" where
  "table_remove ops table idx = (\<lambda>(a, m). do {
     (a', m') \<leftarrow> (if present (m table idx) then do { ptr \<leftarrow> entry_target (m table idx); pa_free ops ptr (a, m) } else Some (a, m));
     pio_some () (a', set_word m' table idx 0)
   })"

definition table_empty :: "page_mem \<Rightarrow> nat \<Rightarrow> bool" where
  "table_empty m table \<longleftrightarrow> list_all (\<lambda>i. m table i = 0) [0..<512]"

definition set_entry :: "nat \<Rightarrow> nat \<Rightarrow> u64 \<Rightarrow> ('a store, unit) pio" where
  "set_entry table idx value = (\<lambda>(a, m). pio_some () (a, set_word m table idx value))"

section \<open>Page tables\<close>

record PageTable =
  pt_owns_allocator :: bool
  pt_pml4_phys :: nat
  pt_allocator_owns_pml4 :: bool
  pt_readonly :: bool

datatype TlbOp = Invlpg nat | Cr3Write nat

record 'a PagingWorld =
  pg_store :: "'a store"
  pg_cr3 :: nat
  pg_tlb :: "TlbOp list"

definition on_store :: "('a store, 'r) pio \<Rightarrow> ('a PagingWorld, 'r) pio" where
  "on_store m w = (case m (pg_store w) of None \<Rightarrow> None | Some (r, s) \<Rightarrow> Some (r, w\<lparr>pg_store := s\<rparr>))"

definition invlpg :: "bool \<Rightarrow> nat \<Rightarrow> ('a PagingWorld, unit) pio" where
  "invlpg invalidate virt w = pio_some () (if invalidate then w\<lparr>pg_tlb := pg_tlb w @ [Invlpg virt]\<rparr> else w)"

definition cr3_write :: "nat \<Rightarrow> 'a PagingWorld \<Rightarrow> 'a PagingWorld" where
  "cr3_write x w = w\<lparr>pg_cr3 := x, pg_tlb := pg_tlb w @ [Cr3Write x]\<rparr>"

definition new_with_alloc :: "nat \<Rightarrow> PageTable" where
  "new_with_alloc pml4_phys = \<lparr>pt_owns_allocator = False, pt_pml4_phys = pml4_phys, pt_allocator_owns_pml4 = False, pt_readonly = False\<rparr>"

definition temporary_this :: "'a PagingWorld \<Rightarrow> PageTable" where
  "temporary_this w = \<lparr>pt_owns_allocator = False, pt_pml4_phys = pg_cr3 w, pt_allocator_owns_pml4 = False, pt_readonly = True\<rparr>"

text \<open>
  \<^verbatim>\<open>alloc_new\<close>, with the pages of the kernel heap. The allocator object has no bytes; the heap
  still takes a page for it, which a \<^verbatim>\<open>dealloc\<close> of size 0 does not give back
  (\<open>global_dealloc\<close>), on the error path too. The pointer given to \<^verbatim>\<open>write_bytes\<close> is a
  pointer to bytes, so one byte of the new table is cleared.
\<close>

definition unit_layout :: Layout where
  "unit_layout = \<lparr>layout_size = 0, layout_align = 1\<rparr>"

definition alloc_new :: "(main_allocator store, PageTable) pio" where
  "alloc_new = (\<lambda>(g, m). do {
     (allocator, g1) \<leftarrow> global_alloc g unit_layout;
     (r, s) \<leftarrow> pa_alloc kernel_pages (g1, m);
     (case r of
        None \<Rightarrow> do {
          g2 \<leftarrow> global_dealloc (fst s) allocator unit_layout;
          Some (None, g2, snd s)
        }
      | Some pml4 \<Rightarrow> do {
          phys \<leftarrow> sub64 pml4 DIRECT_MAPPING_OFFSET;
          Some (Some \<lparr>pt_owns_allocator = True, pt_pml4_phys = phys, pt_allocator_owns_pml4 = True, pt_readonly = False\<rparr>,
            fst s, set_word (snd s) pml4 0 (snd s pml4 0 AND NOT 0xFF))
        })
   })"

definition table_flags :: "nat \<Rightarrow> u64" where
  "table_flags virt =
     (if 0xFFFF800000000000 \<le> virt then PAGE_PRESENT OR PAGE_RW OR PAGE_ACCESSED
      else PAGE_PRESENT OR PAGE_RW OR PAGE_ACCESSED OR PAGE_USER)"

definition root_table :: "PageTable \<Rightarrow> nat panics" where
  "root_table t = add64 (pt_pml4_phys t) DIRECT_MAPPING_OFFSET"

text \<open>The directory and the table of a page; \<open>add\<close> tells whether missing tables are added.\<close>

definition walk_pd :: "'a PageAllocator \<Rightarrow> bool \<Rightarrow> PageTable \<Rightarrow> u64 \<Rightarrow> nat \<Rightarrow> nat \<Rightarrow> ('a store, nat \<times> nat \<times> nat) pio" where
  "walk_pd ops add t sub_flags i j =
     pio_bind (pio_panics (root_table t)) (\<lambda>pml4.
     pio_bind (get_table ops add pml4 i sub_flags 0) (\<lambda>pdpt.
     pio_bind (get_table ops add pdpt j sub_flags 0) (\<lambda>pd. pio_some (pml4, pdpt, pd))))"

definition map_4kb :: "'a PageAllocator \<Rightarrow> PageTable \<Rightarrow> nat \<Rightarrow> nat \<Rightarrow> u64 \<Rightarrow> bool \<Rightarrow> ('a PagingWorld, unit) pio" where
  "map_4kb ops t virt phys flags invalidate =
     (if pt_readonly t then pio_none
      else let (i, j, k, l) = split_virt_addr virt; sub_flags = table_flags virt
           in pio_bind (on_store
                (pio_bind (walk_pd ops True t sub_flags i j) (\<lambda>(_, _, pd).
                 pio_bind (get_table ops True pd k sub_flags PAGE_HUGE) (\<lambda>pt.
                 pio_bind (pio_panics (align_down phys PAGE_SIZE)) (\<lambda>base.
                 set_entry pt l (of_nat base OR flags)))))) (\<lambda>_. invlpg invalidate virt))"

definition map_2mb :: "'a PageAllocator \<Rightarrow> PageTable \<Rightarrow> nat \<Rightarrow> nat \<Rightarrow> u64 \<Rightarrow> bool \<Rightarrow> ('a PagingWorld, unit) pio" where
  "map_2mb ops t virt phys flags invalidate =
     (if pt_readonly t then pio_none
      else let (i, j, k, _) = split_virt_addr virt; sub_flags = table_flags virt
           in pio_bind (on_store
                (pio_bind (walk_pd ops True t sub_flags i j) (\<lambda>(_, _, pd).
                 pio_bind (pio_panics (align_down phys PAGE_SIZE_2MB)) (\<lambda>base.
                 set_entry pd k (of_nat base OR PAGE_HUGE OR flags))))) (\<lambda>_. invlpg invalidate virt))"

text \<open>Tables that have become empty are removed, from the bottom up.\<close>

definition prune_pdpt :: "'a PageAllocator \<Rightarrow> nat \<Rightarrow> nat \<Rightarrow> nat \<Rightarrow> ('a store, unit) pio" where
  "prune_pdpt ops pml4 pdpt i = (\<lambda>(a, m). if table_empty m pdpt then table_remove ops pml4 i (a, m) else pio_some () (a, m))"

definition prune_pd :: "'a PageAllocator \<Rightarrow> nat \<Rightarrow> nat \<Rightarrow> nat \<Rightarrow> nat \<Rightarrow> nat \<Rightarrow> ('a store, unit) pio" where
  "prune_pd ops pml4 pdpt pd i j = (\<lambda>(a, m).
     if table_empty m pd then pio_bind (table_remove ops pdpt j) (\<lambda>_. prune_pdpt ops pml4 pdpt i) (a, m) else pio_some () (a, m))"

definition prune_pt :: "'a PageAllocator \<Rightarrow> nat \<Rightarrow> nat \<Rightarrow> nat \<Rightarrow> nat \<Rightarrow> nat \<Rightarrow> nat \<Rightarrow> nat \<Rightarrow> ('a store, unit) pio" where
  "prune_pt ops pml4 pdpt pd pt i j k = (\<lambda>(a, m).
     if table_empty m pt then pio_bind (table_remove ops pd k) (\<lambda>_. prune_pd ops pml4 pdpt pd i j) (a, m) else pio_some () (a, m))"

definition unmap_4kb :: "'a PageAllocator \<Rightarrow> PageTable \<Rightarrow> nat \<Rightarrow> bool \<Rightarrow> ('a PagingWorld, unit) pio" where
  "unmap_4kb ops t virt invalidate =
     (if pt_readonly t then pio_none
      else let (i, j, k, l) = split_virt_addr virt
           in pio_bind (on_store
                (pio_bind (walk_pd ops False t 0 i j) (\<lambda>(pml4, pdpt, pd).
                 pio_bind (get_table ops False pd k 0 PAGE_HUGE) (\<lambda>pt.
                 pio_bind (set_entry pt l 0) (\<lambda>_. prune_pt ops pml4 pdpt pd pt i j k))))) (\<lambda>_. invlpg invalidate virt))"

definition unmap_2mb :: "'a PageAllocator \<Rightarrow> PageTable \<Rightarrow> nat \<Rightarrow> bool \<Rightarrow> ('a PagingWorld, unit) pio" where
  "unmap_2mb ops t virt invalidate =
     (if pt_readonly t then pio_none
      else let (i, j, k, _) = split_virt_addr virt
           in pio_bind (on_store
                (pio_bind (walk_pd ops False t 0 i j) (\<lambda>(pml4, pdpt, pd).
                 pio_bind (set_entry pd k 0) (\<lambda>_. prune_pd ops pml4 pdpt pd i j)))) (\<lambda>_. invlpg invalidate virt))"

definition translate :: "'a PageAllocator \<Rightarrow> PageTable \<Rightarrow> nat \<Rightarrow> ('a store, nat) pio" where
  "translate ops t virt =
     (let (i, j, k, l) = split_virt_addr virt
      in pio_bind (walk_pd ops False t 0 i j) (\<lambda>(_, _, pd) (a, m).
         let pd_entry = m pd k
         in if present pd_entry \<and> huge pd_entry
            then pio_panics (add64 (unat (pd_entry AND ADDR_MASK)) (virt mod PAGE_SIZE_2MB)) (a, m)
            else pio_bind (get_table ops False pd k 0 PAGE_HUGE) (\<lambda>pt (a, m).
                 let pt_entry = m pt l
                 in if present pt_entry then pio_panics (add64 (unat (pt_entry AND ADDR_MASK)) (virt mod PAGE_SIZE)) (a, m)
                    else pio_none (a, m)) (a, m)))"

section \<open>Ranges\<close>

text \<open>The addresses of a loop from \<open>lo\<close> to \<open>hi\<close> by \<open>step\<close>.\<close>

definition addr_range :: "nat \<Rightarrow> nat \<Rightarrow> nat \<Rightarrow> nat list" where
  "addr_range lo hi step = map (\<lambda>k. lo + k * step) [0..<div_ceil (hi - lo) step]"

definition invalidate :: "PageTable \<Rightarrow> 'a PagingWorld \<Rightarrow> 'a PagingWorld" where
  "invalidate t w = (if pg_cr3 w = pt_pml4_phys t then cr3_write (pg_cr3 w) w else w)"

definition load :: "PageTable \<Rightarrow> 'a PagingWorld \<Rightarrow> 'a PagingWorld" where
  "load t = cr3_write (pt_pml4_phys t)"

definition map_memory :: "'a PageAllocator \<Rightarrow> PageTable \<Rightarrow> nat \<Rightarrow> nat \<Rightarrow> nat \<Rightarrow> u64 \<Rightarrow> bool \<Rightarrow> ('a PagingWorld, unit) pio" where
  "map_memory ops t addr len virt_offset flags inval =
     (if pt_readonly t then pio_none
      else pio_bind (pio_panics (do {
             begin_2mb \<leftarrow> align_up addr MB2;
             e \<leftarrow> add64 addr len;
             end_2mb \<leftarrow> align_down e MB2;
             begin_4kb \<leftarrow> align_down addr KB4;
             end_4kb \<leftarrow> align_up e KB4;
             a \<leftarrow> sub64 end_2mb begin_2mb;
             b \<leftarrow> sub64 begin_2mb begin_4kb;
             c \<leftarrow> sub64 end_4kb end_2mb;
             Some (begin_2mb, end_2mb, begin_4kb, end_4kb, a div MB2 + b div KB4 + c div KB4)
           })) (\<lambda>(begin_2mb, end_2mb, begin_4kb, end_4kb, count_maps).
           let invalidate_each = (inval \<and> 32 < count_maps);
               at = (\<lambda>f addr. pio_bind (pio_panics (add64 addr virt_offset)) (\<lambda>virt. f virt addr))
           in pio_bind (pio_for (at (\<lambda>virt phys. map_2mb ops t virt phys flags invalidate_each)) (addr_range begin_2mb end_2mb MB2)) (\<lambda>_.
              pio_bind (pio_for (at (\<lambda>virt phys. map_4kb ops t virt phys (PAGE_ACCESSED OR PAGE_RW) invalidate_each))
                (addr_range begin_4kb begin_2mb KB4)) (\<lambda>_.
              pio_bind (pio_for (at (\<lambda>virt phys. map_4kb ops t virt phys flags invalidate_each)) (addr_range end_2mb end_4kb KB4)) (\<lambda>_ w.
              pio_some () (if inval \<and> \<not> invalidate_each then invalidate t w else w))))))"

text \<open>
  The entries of the first table that belong to the kernel: code, stack, direct mapping and
  devices. Copying them from the kernel's table shares its lower tables.
\<close>

definition copy_words :: "page_mem \<Rightarrow> nat \<Rightarrow> nat \<Rightarrow> nat \<Rightarrow> nat \<Rightarrow> page_mem" where
  "copy_words m src dst lo hi = m(dst := (\<lambda>i. if lo \<le> i \<and> i < hi then m src i else m dst i))"

definition clear_words :: "page_mem \<Rightarrow> nat \<Rightarrow> nat \<Rightarrow> nat \<Rightarrow> page_mem" where
  "clear_words m dst lo hi = m(dst := (\<lambda>i. if lo \<le> i \<and> i < hi then 0 else m dst i))"

definition map_global_higher_half :: "PageTable \<Rightarrow> PageTable \<Rightarrow> 'a store \<Rightarrow> 'a store panics" where
  "map_global_higher_half k t = (\<lambda>(a, m).
     if pt_readonly t then Some (a, m)
     else do {
       k_pml4 \<leftarrow> root_table k;
       pml4 \<leftarrow> root_table t;
       let m = copy_words m k_pml4 pml4 256 288;
       let m = copy_words m k_pml4 pml4 288 320;
       let m = copy_words m k_pml4 pml4 320 352;
       Some (a, copy_words m k_pml4 pml4 352 384)
     })"

definition unmap_global_higher_half :: "PageTable \<Rightarrow> 'a store \<Rightarrow> 'a store panics" where
  "unmap_global_higher_half t = (\<lambda>(a, m).
     if pt_readonly t then Some (a, m)
     else do {
       pml4 \<leftarrow> root_table t;
       let m = clear_words m pml4 256 288;
       let m = clear_words m pml4 288 320;
       let m = clear_words m pml4 320 352;
       Some (a, clear_words m pml4 352 384)
     })"

section \<open>Iteration over the mapped pages\<close>

datatype PageSize = Kb4 | Mb2 | Gb1

record PageTableEntry =
  pe_virt :: nat
  pe_phys :: nat
  pe_page_size :: PageSize

record PageTableIter =
  pi_position :: nat
  pi_end_exclusive :: nat

definition iter_range :: "nat \<Rightarrow> nat \<Rightarrow> PageTableIter" where
  "iter_range begin_inclusive end_exclusive = \<lparr>pi_position = begin_inclusive, pi_end_exclusive = end_exclusive\<rparr>"

text \<open>What one round of the loop finds: an entry and the position after it, the position to continue at, or the end.\<close>

datatype IterStep = Found PageTableEntry nat | GoTo nat | Stop

definition skip_pdpt :: "nat \<Rightarrow> nat \<Rightarrow> nat" where
  "skip_pdpt i j =
     (let (next_pml4, next_pdpt) = (if 512 \<le> j then (i + 1, 0) else (i, j + 1))
      in join_virt_addr next_pml4 next_pdpt 0 0 0)"

definition skip_pd :: "nat \<Rightarrow> nat \<Rightarrow> nat \<Rightarrow> nat" where
  "skip_pd i j k =
     (let (next_pdpt, next_pd) = (if 512 \<le> k + 1 then (j + 1, 0) else (j, k + 1));
          (next_pml4, next_pdpt) = (if 512 \<le> next_pdpt then (i + 1, 0) else (i, next_pdpt))
      in join_virt_addr next_pml4 next_pdpt next_pd 0 0)"

definition no_entry :: "page_mem \<Rightarrow> nat \<Rightarrow> nat \<Rightarrow> u64 \<Rightarrow> bool" where
  "no_entry m table idx disallowed_flags \<longleftrightarrow> \<not> present (m table idx) \<or> m table idx AND disallowed_flags \<noteq> 0"

definition iter_step :: "PageTable \<Rightarrow> page_mem \<Rightarrow> nat \<Rightarrow> IterStep panics" where
  "iter_step t m pos =
     (if 0x0000800000000000 \<le> pos \<and> pos < 0xFFFF800000000000 then Some (GoTo 0xFFFF800000000000)
      else let (i, j, k, l) = split_virt_addr pos
           in do {
             pml4 \<leftarrow> root_table t;
             if no_entry m pml4 i 0 then Some (if 512 \<le> i + 1 then Stop else GoTo (join_virt_addr (i + 1) 0 0 0 0))
             else do {
               pdpt \<leftarrow> entry_target (m pml4 i);
               if no_entry m pdpt j 0 then Some (GoTo (skip_pdpt i j))
               else do {
                 pd \<leftarrow> entry_target (m pdpt j);
                 let pd_entry = m pd k;
                 if present pd_entry \<and> huge pd_entry
                 then do {
                   p \<leftarrow> add64 pos PAGE_SIZE_2MB;
                   Some (Found \<lparr>pe_virt = pos, pe_phys = unat (pd_entry AND ADDR_MASK), pe_page_size = Mb2\<rparr> p)
                 }
                 else if no_entry m pd k PAGE_HUGE then Some (GoTo (skip_pd i j k))
                 else do {
                   pt \<leftarrow> entry_target pd_entry;
                   p \<leftarrow> add64 pos PAGE_SIZE;
                   Some (if present (m pt l) then Found \<lparr>pe_virt = pos, pe_phys = unat (m pt l AND ADDR_MASK), pe_page_size = Kb4\<rparr> p else GoTo p)
                 }
               }
             }
           })"

partial_function (option) iter_next :: "PageTable \<Rightarrow> page_mem \<Rightarrow> PageTableIter \<Rightarrow> (PageTableEntry option \<times> PageTableIter) panics" where
  [code]: "iter_next t m it =
     (if pi_position it < pi_end_exclusive it
      then case iter_step t m (pi_position it) of
             None \<Rightarrow> None
           | Some s \<Rightarrow>
               (case s of
                  Found e p \<Rightarrow> Some (Some e, it\<lparr>pi_position := p\<rparr>)
                | Stop \<Rightarrow> Some (None, it)
                | GoTo p \<Rightarrow> iter_next t m (it\<lparr>pi_position := p\<rparr>))
      else Some (None, it))"

section \<open>Dropping a page table\<close>

definition expect_some :: "('s, unit) pio \<Rightarrow> ('s, unit) pio" where
  "expect_some m s = (case m s of Some (Some x, s') \<Rightarrow> Some (Some x, s') | _ \<Rightarrow> None)"

partial_function (option) drop_loop :: "'a PageAllocator \<Rightarrow> PageTable \<Rightarrow> PageTableIter \<Rightarrow> 'a PagingWorld \<Rightarrow> (unit option \<times> 'a PagingWorld) panics" where
  [code]: "drop_loop ops t it w =
     (case iter_next t (snd (pg_store w)) it of
        None \<Rightarrow> None
      | Some (r, it') \<Rightarrow>
          (case r of
             None \<Rightarrow> Some (Some (), w)
           | Some e \<Rightarrow>
               (case expect_some (case pe_page_size e of
                       Kb4 \<Rightarrow> unmap_4kb ops t (pe_virt e) False
                     | Mb2 \<Rightarrow> unmap_2mb ops t (pe_virt e) False
                     | Gb1 \<Rightarrow> (\<lambda>_. None)) w of
                  None \<Rightarrow> None
                | Some (_, w') \<Rightarrow> drop_loop ops t it' w')))"

text \<open>The allocator itself is never released: its flag is cleared before it is tested.\<close>

definition drop_page_table :: "'a PageAllocator \<Rightarrow> PageTable \<Rightarrow> 'a PagingWorld \<Rightarrow> 'a PagingWorld panics" where
  "drop_page_table ops t w =
     (if pt_pml4_phys t = 0 \<or> pt_readonly t then Some w
      else if pg_cr3 w = pt_pml4_phys t then None
      else do {
        s \<leftarrow> unmap_global_higher_half t (pg_store w);
        (_, w1) \<leftarrow> drop_loop ops t (iter_range 0 0xFFFFFFFFFFFFFFFF) (w\<lparr>pg_store := s\<rparr>);
        if pt_allocator_owns_pml4 t
        then do { pml4 \<leftarrow> root_table t; s \<leftarrow> pa_free ops pml4 (pg_store w1); Some (w1\<lparr>pg_store := s\<rparr>) }
        else Some w1
      })"

section \<open>Start of the kernel\<close>

definition unmap_region :: "SimplePageAllocator PageAllocator \<Rightarrow> PageTable \<Rightarrow> OsMemoryRegion \<Rightarrow> (SimplePageAllocator PagingWorld, unit) pio" where
  "unmap_region ops t region =
     (if region_usable region = 0 \<or> region_start region < 1024 * 1024 then pio_some ()
      else pio_bind (pio_panics (do {
             aligned_start \<leftarrow> align_up (region_start region) MB2;
             aligned_end \<leftarrow> align_down (region_end region) MB2;
             kb4_aligned_start \<leftarrow> align_up (region_start region) KB4;
             kb4_aligned_end \<leftarrow> align_down (region_end region) KB4;
             Some (aligned_start, aligned_end, kb4_aligned_start, kb4_aligned_end)
           })) (\<lambda>(aligned_start, aligned_end, kb4_aligned_start, kb4_aligned_end).
           pio_bind (pio_for (\<lambda>a. pio_ignore (unmap_2mb ops t a False)) (addr_range aligned_start aligned_end MB2)) (\<lambda>_.
           pio_bind (pio_for (\<lambda>a. pio_ignore (unmap_4kb ops t a False)) (addr_range kb4_aligned_start aligned_start KB4)) (\<lambda>_.
           pio_for (\<lambda>a. pio_ignore (unmap_4kb ops t a False)) (addr_range aligned_end kb4_aligned_end KB4)))))"

text \<open>The regions are those of the memory layout the boot loader leaves; the result is the kernel's page table.\<close>

definition init_paging :: "OsMemoryRegion list \<Rightarrow> nat \<Rightarrow> nat \<Rightarrow> nat \<Rightarrow> page_mem \<Rightarrow> nat \<Rightarrow> (PageTable \<times> SimplePageAllocator PagingWorld) panics" where
  "init_paging regions pml4_ptr_phys page_alloc_curr page_alloc_end m cr3 = do {
     len \<leftarrow> sub64 page_alloc_end page_alloc_curr;
     let free_page_count = len div 4096;
     _ \<leftarrow> assert_rust (free_page_count \<noteq> 0);
     min_addr \<leftarrow> physical_to_virtual pml4_ptr_phys;
     max_addr \<leftarrow> physical_to_virtual page_alloc_end;
     free_head \<leftarrow> physical_to_virtual page_alloc_curr;
     let a = \<lparr>sa_min_addr = min_addr, sa_max_addr = max_addr, sa_free_head = free_head\<rparr>;
     let w = \<lparr>pg_store = (a, write_free_page m free_head 0 free_page_count), pg_cr3 = cr3, pg_tlb = []\<rparr>;
     let t = new_with_alloc pml4_ptr_phys;
     (_, w1) \<leftarrow> pio_for (\<lambda>i. pio_ignore (unmap_4kb simple_pages t (i * KB4) False)) [0..<256] w;
     (_, w2) \<leftarrow> pio_for (unmap_region simple_pages t) regions w1;
     Some (t, load t w2)
   }"

end
