(* ===== verification/Paging_Tree.thy ===== *)
theory Paging_Tree
  imports Paging "HOL-Library.Sublist"
begin

text \<open>
  Page tables as trees. A path of indices N leads from the first table to a lower one; in a well-formed
  tree different paths lead to different tables, and none of them is a free page. Mapping and
  unmapping a page then change what that page translates to and nothing else, whichever allocator
  provides the tables, as long as it keeps the contract \<open>table_allocator\<close>; the allocator of free
  runs that the kernel starts with is an instance.
\<close>

section \<open>Entries\<close>

definition page_ok :: "nat \<Rightarrow> bool" where
  "page_ok p \<longleftrightarrow> DIRECT_MAPPING_OFFSET \<le> p \<and> p < 2 ^ 64 \<and> p mod 4096 = 0"

definition target :: "u64 \<Rightarrow> nat" where
  "target e = unat (e AND ADDR_MASK) + DIRECT_MAPPING_OFFSET"

lemma addr_mask_eq: "ADDR_MASK = push_bit 12 (mask 40)"
  by (simp add: mask_eq_exp_minus_1)

lemma bit_addr_mask: "bit ADDR_MASK n \<longleftrightarrow> 12 \<le> n \<and> n < 52"
  unfolding addr_mask_eq by (auto simp: bit_simps)

lemma page_word_mask:
  assumes "p mod 4096 = 0" "p < 2 ^ 52"
  shows "(of_nat p :: u64) AND ADDR_MASK = of_nat p"
proof (rule bit_eqI)
  fix n assume "possible_bit TYPE(u64) n"
  have "bit p n \<Longrightarrow> 12 \<le> n \<and> n < 52"
  proof -
    assume b: "bit p n"
    have "p = 2 ^ 12 * (p div 4096)" using assms(1) by auto
    then have "p = push_bit 12 (p div 4096)" by (simp add: push_bit_eq_mult)
    then have "12 \<le> n" using b by (metis bit_push_bit_iff_nat)
    moreover have "take_bit 52 p = p" using assms(2) by (simp add: take_bit_nat_eq_self)
    then have "n < 52" using b by (metis bit_take_bit_iff)
    ultimately show ?thesis by blast
  qed
  then show "bit ((of_nat p :: u64) AND ADDR_MASK) n = bit (of_nat p :: u64) n"
    unfolding bit_and_iff bit_addr_mask bit_of_nat_iff by blast
qed

text \<open>The entry that \<^verbatim>\<open>get_table\<close> writes for a new table.\<close>

lemma new_table_entry:
  assumes "page_ok q"
  shows "target (of_nat (q - DIRECT_MAPPING_OFFSET) OR table_flags virt) = q"
    "present (of_nat (q - DIRECT_MAPPING_OFFSET) OR table_flags virt)"
    "(of_nat (q - DIRECT_MAPPING_OFFSET) OR table_flags virt) AND PAGE_HUGE = 0"
proof -
  let ?p = "q - DIRECT_MAPPING_OFFSET" and ?f = "table_flags virt"
  have "4096 dvd q" "4096 dvd DIRECT_MAPPING_OFFSET" using assms by (simp_all add: page_ok_def DIRECT_MAPPING_OFFSET_def mod_eq_0_iff_dvd)
  then have "4096 dvd ?p" by (rule dvd_diff_nat)
  then have "?p mod 4096 = 0" by simp
  moreover have "?p < 2 ^ 52" using assms by (auto simp: page_ok_def DIRECT_MAPPING_OFFSET_def)
  ultimately have al: "?p mod 4096 = 0" "?p < 2 ^ 52" .
  have m: "(of_nat ?p :: u64) AND ADDR_MASK = of_nat ?p" by (rule page_word_mask [OF al])
  have f: "?f AND ADDR_MASK = 0" "?f AND PAGE_PRESENT = 1" "?f AND PAGE_HUGE = 0" by (simp_all add: table_flags_def)
  have "(of_nat ?p OR ?f) AND ADDR_MASK = of_nat ?p" using m f(1) by (simp add: bit.conj_disj_distrib2)
  moreover have "unat (of_nat ?p :: u64) = ?p" using al(2) by (simp add: unat_of_nat)
  ultimately show "target (of_nat ?p OR ?f) = q" using assms by (simp add: target_def page_ok_def)
  have low: "(of_nat ?p :: u64) AND PAGE_HUGE = 0"
  proof -
    have "(of_nat ?p :: u64) AND PAGE_HUGE = of_nat ?p AND (ADDR_MASK AND PAGE_HUGE)" by (subst m [symmetric]) (simp add: and.assoc)
    then show ?thesis by simp
  qed
  show "present (of_nat ?p OR ?f)"
  proof -
    have "bit (of_nat ?p OR ?f) 0" using f(2) by (metis bit_0 bit_or_iff even_and_iff odd_one)
    then show ?thesis by (simp add: present_def bit_0 and_one_eq odd_iff_mod_2_eq_one)
  qed
  show "(of_nat ?p OR ?f) AND PAGE_HUGE = 0" using low f(3) by (simp add: bit.conj_disj_distrib2)
qed

section \<open>Tables and paths\<close>

abbreviation levels :: "u64 list" where
  "levels \<equiv> [0, 0, PAGE_HUGE]"

text \<open>The table a path of indices N leads to; the flags say which entries of a level are not tables.\<close>

fun tab :: "page_mem \<Rightarrow> u64 list \<Rightarrow> nat \<Rightarrow> nat list \<Rightarrow> nat option" where
  "tab m ds p [] = Some p"
| "tab m [] p (i # is) = None"
| "tab m (d # ds) p (i # is) = (if no_entry m p i d then None else tab m ds (target (m p i)) is)"

abbreviation table_at :: "page_mem \<Rightarrow> nat \<Rightarrow> nat list \<Rightarrow> nat option" where
  "table_at m r \<equiv> tab m levels r"

text \<open>Paths of indices that start among the first \<open>N\<close> entries of the root: 512 for a whole table, 256 for the user half of a process.\<close>

definition indices :: "nat \<Rightarrow> nat list \<Rightarrow> bool" where
  "indices N xs \<longleftrightarrow> list_all (\<lambda>i. i < 512) xs \<and> (xs = [] \<or> hd xs < N)"

lemma indices_simps [simp]:
  "indices N []" "indices N (i # xs) \<longleftrightarrow> i < 512 \<and> i < N \<and> list_all (\<lambda>i. i < 512) xs"
  "indices N (xs @ [i]) \<longleftrightarrow> indices N xs \<and> i < 512 \<and> (xs = [] \<longrightarrow> i < N)"
  by (auto simp: indices_def hd_append)

lemma indices_prefix: "indices N (xs @ ys) \<Longrightarrow> indices N xs" "indices N (xs @ j # ys) \<Longrightarrow> j < 512"
  by (auto simp: indices_def hd_append split: if_splits)

lemma tab_snoc:
  "tab m ds p (xs @ [i]) = (case tab m ds p xs of None \<Rightarrow> None | Some q \<Rightarrow>
     if length xs < length ds \<and> \<not> no_entry m q i (ds ! length xs) then Some (target (m q i)) else None)"
proof (induction m ds p xs rule: tab.induct)
  case (1 m ds p)
  then show ?case by (cases ds) simp_all
qed (simp_all split: option.split)

lemma tab_length: "tab m ds p xs = Some q \<Longrightarrow> length xs \<le> length ds"
  by (induction m ds p xs rule: tab.induct) (auto split: if_splits)

text \<open>The entry at an index of the table of a path: 0 where there is no such table.\<close>

definition word_at :: "page_mem \<Rightarrow> nat \<Rightarrow> nat list \<Rightarrow> nat \<Rightarrow> u64" where
  "word_at m r xs i = (case table_at m r xs of None \<Rightarrow> 0 | Some p \<Rightarrow> m p i)"

text \<open>What a page translates to: the entry of a large page, or of a small one.\<close>

definition leaf :: "page_mem \<Rightarrow> nat \<Rightarrow> nat \<times> nat \<times> nat \<times> nat \<Rightarrow> (bool \<times> u64) option" where
  "leaf m r = (\<lambda>(i, j, k, l).
     let e = word_at m r [i, j] k; e' = word_at m r [i, j, k] l
     in if present e \<and> huge e then Some (True, e) else if present e' then Some (False, e') else None)"

definition tree_ok :: "nat \<Rightarrow> page_mem \<Rightarrow> nat \<Rightarrow> nat set \<Rightarrow> bool" where
  "tree_ok N m r A \<longleftrightarrow>
     (\<forall>xs ys p. indices N xs \<and> indices N ys \<and> table_at m r xs = Some p \<and> table_at m r ys = Some p \<longrightarrow> xs = ys) \<and>
     (\<forall>xs p. indices N xs \<and> table_at m r xs = Some p \<longrightarrow> p \<notin> A \<and> page_ok p)"

lemma tree_same: "tree_ok N m r A \<Longrightarrow> indices N xs \<Longrightarrow> indices N ys \<Longrightarrow> table_at m r xs = Some p \<Longrightarrow> table_at m r ys = Some p \<Longrightarrow> xs = ys"
  by (simp add: tree_ok_def)

lemma tree_page: "tree_ok N m r A \<Longrightarrow> indices N xs \<Longrightarrow> table_at m r xs = Some p \<Longrightarrow> p \<notin> A \<and> page_ok p"
  by (simp add: tree_ok_def)

lemma entry_target_ok: "page_ok (target e) \<Longrightarrow> entry_target e = Some (target e)"
  by (simp add: entry_target_def target_def page_ok_def add64_def)

text \<open>Memory outside the tables does not matter.\<close>

lemma table_at_frame:
  assumes "\<And>xs p i. indices N xs \<Longrightarrow> table_at m r xs = Some p \<Longrightarrow> i < 512 \<Longrightarrow> m' p i = m p i" "indices N ys"
  shows "table_at m' r ys = table_at m r ys"
  using assms(2)
proof (induction ys rule: rev_induct)
  case (snoc j ys)
  then show ?case using assms(1) [of ys] by (auto simp: tab_snoc no_entry_def simp del: tab.simps split: option.splits)
qed simp

lemma word_at_frame:
  assumes "\<And>xs p i. indices N xs \<Longrightarrow> table_at m r xs = Some p \<Longrightarrow> i < 512 \<Longrightarrow> m' p i = m p i" "indices N ys" "n < 512"
  shows "word_at m' r ys n = word_at m r ys n"
proof -
  have "table_at m' r ys = table_at m r ys" using assms(1,2) by (rule table_at_frame)
  then show ?thesis using assms by (auto simp: word_at_def split: option.split)
qed

section \<open>Changing one entry\<close>

text \<open>A path that does not pass through the entry leads to the same table.\<close>

lemma table_at_set:
  assumes tree: "tree_ok N m r A" and xs: "indices N xs" "table_at m r xs = Some t" "i < 512" and ys: "indices N ys" "\<not> prefix (xs @ [i]) ys"
  shows "table_at (set_word m t i e) r ys = table_at m r ys"
  using ys
proof (induction ys rule: rev_induct)
  case (snoc j ys)
  have IH: "table_at (set_word m t i e) r ys = table_at m r ys" using snoc.IH snoc.prems by (metis indices_prefix(1) prefix_append)
  show ?case
  proof (cases "table_at m r ys")
    case (Some q)
    have "set_word m t i e q j = m q j"
    proof (cases "q = t")
      case True
      then have "ys = xs" using tree_same [OF tree _ xs(1) Some] snoc.prems(1) xs(2) by simp
      then have "j \<noteq> i" using snoc.prems(2) by auto
      then show ?thesis by (simp add: set_word_def)
    qed (simp add: set_word_def)
    then show ?thesis using IH Some by (simp add: tab_snoc no_entry_def del: tab.simps)
  qed (use IH in \<open>simp add: tab_snoc del: tab.simps\<close>)
qed simp

text \<open>An entry of a lowest table, or any entry whose change leaves the tables as they are.\<close>

lemma word_at_set:
  assumes tree: "tree_ok N m r A" and xs: "indices N xs" "table_at m r xs = Some t" "i < 512"
    and ys: "indices N ys" "n < 512" "\<not> prefix (xs @ [i]) ys"
  shows "word_at (set_word m t i e) r ys n = (if ys = xs \<and> n = i then e else word_at m r ys n)"
proof (cases "table_at m r ys")
  case (Some q)
  have "ys = xs" if "q = t" using tree_same [OF tree ys(1) xs(1) Some] xs(2) that by simp
  then show ?thesis using table_at_set [OF tree xs ys(1,3)] Some xs(2) by (auto simp: word_at_def set_word_def)
next
  case None
  then show ?thesis using table_at_set [OF tree xs ys(1,3)] xs(2) by (auto simp: word_at_def)
qed

lemma no_table_below: "table_at m r xs = None \<Longrightarrow> table_at m r (xs @ ys) = None"
proof (induction ys rule: rev_induct)
  case (snoc j ys)
  then show ?case by (simp add: tab_snoc append_assoc [symmetric] del: tab.simps append_assoc)
qed simp

text \<open>An empty table has no table below it.\<close>

lemma empty_table_below:
  assumes q: "table_at m r xs = Some q" "\<And>n. n < 512 \<Longrightarrow> m q n = 0" and ys: "prefix xs ys" "ys \<noteq> xs" "indices N ys"
  shows "table_at m r ys = None"
proof -
  obtain j zs where z: "ys = (xs @ [j]) @ zs" using ys(1,2) by (metis append.assoc append_Cons append_Nil prefix_def neq_Nil_conv append_Nil2)
  then have "m q j = 0" using q(2) indices_prefix(2) [of N xs j zs] ys(3) by simp
  then have "table_at m r (xs @ [j]) = None" using q(1) by (simp add: tab_snoc no_entry_def present_def del: tab.simps)
  then show ?thesis unfolding z by (rule no_table_below)
qed

lemma tree_ok_frame:
  assumes "tree_ok N m r A" "\<And>xs p i. indices N xs \<Longrightarrow> table_at m r xs = Some p \<Longrightarrow> i < 512 \<Longrightarrow> m' p i = m p i"
  shows "tree_ok N m' r A"
proof -
  have "table_at m' r ys = table_at m r ys" if "indices N ys" for ys using assms(2) that by (rule table_at_frame)
  then show ?thesis using assms(1) unfolding tree_ok_def by metis
qed

lemma not_prefix_snoc: "\<not> prefix (xs @ [i]) xs"
  by (auto simp: prefix_def)

text \<open>Storing an entry that is not a table cuts off what was below it.\<close>

lemma cut:
  assumes tree: "tree_ok N m r A" and xs: "indices N xs" "table_at m r xs = Some t" "i < 512"
    and e: "length xs < 3 \<Longrightarrow> \<not> present e \<or> e AND levels ! length xs \<noteq> 0" and m': "m' = set_word m t i e"
  shows "indices N ys \<Longrightarrow> table_at m' r ys = (if prefix (xs @ [i]) ys then None else table_at m r ys)"
    and "indices N ys \<Longrightarrow> n < 512 \<Longrightarrow>
      word_at m' r ys n = (if ys = xs \<and> n = i then e else if prefix (xs @ [i]) ys then 0 else word_at m r ys n)"
    and "tree_ok N m' r A"
proof -
  have "table_at m' r xs = Some t" using table_at_set [OF tree xs xs(1) not_prefix_snoc] xs(2) m' by simp
  then have none: "table_at m' r (xs @ [i]) = None"
    using e by (auto simp: tab_snoc no_entry_def m' set_word_def simp del: tab.simps)
  have t: "table_at m' r ys = (if prefix (xs @ [i]) ys then None else table_at m r ys)" if ys: "indices N ys" for ys
  proof (cases "prefix (xs @ [i]) ys")
    case True
    then show ?thesis using no_table_below [OF none] by (auto elim!: prefixE)
  next
    case False
    then show ?thesis using table_at_set [OF tree xs ys False] m' by simp
  qed
  show "indices N ys \<Longrightarrow> table_at m' r ys = (if prefix (xs @ [i]) ys then None else table_at m r ys)" by (rule t)
  show "word_at m' r ys n = (if ys = xs \<and> n = i then e else if prefix (xs @ [i]) ys then 0 else word_at m r ys n)"
    if ys: "indices N ys" "n < 512"
  proof (cases "prefix (xs @ [i]) ys")
    case True
    then have "ys \<noteq> xs" using not_prefix_snoc [of xs i] by auto
    then show ?thesis using True t [OF ys(1)] by (simp add: word_at_def)
  next
    case False
    then show ?thesis using word_at_set [OF tree xs ys False] m' by simp
  qed
  show "tree_ok N m' r A" using tree t unfolding tree_ok_def by (metis option.distinct(1))
qed

text \<open>Adding an empty table from the free pages.\<close>

lemma link:
  assumes tree: "tree_ok N m r A" and xs: "indices N xs" "table_at m r xs = Some t" "i < 512" "length xs < 3"
    and free: "\<not> present (m t i)" and q: "q \<in> A" "page_ok q" and m1: "\<And>p. p \<notin> A \<Longrightarrow> m1 p = m p"
    and e: "target e = q" "present e" "e AND PAGE_HUGE = 0" and m': "m' = set_word (zero_page m1 q) t i e"
  shows "table_at m' r (xs @ [i]) = Some q" and "tree_ok N m' r (A - {q})"
    and "indices N ys \<Longrightarrow> n < 512 \<Longrightarrow> word_at m' r ys n = (if ys = xs \<and> n = i then e else word_at m r ys n)"
proof -
  let ?m2 = "zero_page m1 q"
  have agree: "?m2 p n = m p n" if "indices N zs" "table_at m r zs = Some p" "n < 512" for zs p n
    using tree_page [OF tree that(1,2)] q(1) m1 by (auto simp: zero_page_def)
  have same: "table_at ?m2 r zs = table_at m r zs" if "indices N zs" for zs using agree that by (rule table_at_frame)
  have words: "word_at ?m2 r zs n = word_at m r zs n" if "indices N zs" "n < 512" for zs n using agree that by (rule word_at_frame)
  have tree2: "tree_ok N ?m2 r A" using tree agree by (rule tree_ok_frame)
  have xs2: "table_at ?m2 r xs = Some t" using same xs(1,2) by simp
  have tq: "t \<noteq> q" using tree_page [OF tree xs(1,2)] q(1) by blast
  have zero: "m' q n = 0" if "n < 512" for n using that tq by (simp add: m' set_word_def zero_page_def)
  have other: "table_at m' r zs = table_at m r zs" if "indices N zs" "\<not> prefix (xs @ [i]) zs" for zs
    using table_at_set [OF tree2 xs(1) xs2 xs(3) that] same that m' by simp
  have "e AND levels ! length xs = 0" using e(3) xs(4) by (auto simp: less_Suc_eq numeral_3_eq_3)
  then show new: "table_at m' r (xs @ [i]) = Some q"
    using other [OF xs(1) not_prefix_snoc] xs(2,4) e by (simp add: tab_snoc no_entry_def m' set_word_def del: tab.simps)
  have deeper: "table_at m' r zs = None" if "indices N zs" "prefix (xs @ [i]) zs" "zs \<noteq> xs @ [i]" for zs
    by (rule empty_table_below [OF new zero that(2,3,1)])
  have before: "table_at m r zs = None" if "prefix (xs @ [i]) zs" for zs
  proof -
    have "table_at m r (xs @ [i]) = None" using xs(2) free by (simp add: tab_snoc no_entry_def del: tab.simps)
    from no_table_below [OF this] that show ?thesis by (auto elim!: prefixE)
  qed
  have cases: "table_at m' r zs = Some p \<Longrightarrow> (zs = xs @ [i] \<and> p = q) \<or> table_at m r zs = Some p" if "indices N zs" for zs p
    using other [OF that] deeper [OF that] new by (metis option.distinct(1) option.inject)
  show "tree_ok N m' r (A - {q})"
    unfolding tree_ok_def
  proof (intro conjI allI impI)
    fix zs p assume a: "indices N zs \<and> table_at m' r zs = Some p"
    then show "p \<notin> A - {q}" "page_ok p" using cases [of zs p] tree_page [OF tree, of zs p] q(2) by auto
  next
    fix zs ys p assume a: "indices N zs \<and> indices N ys \<and> table_at m' r zs = Some p \<and> table_at m' r ys = Some p"
    then show "zs = ys" using cases [of zs p] cases [of ys p] tree_same [OF tree, of zs ys p] tree_page [OF tree, of _ p] q(1) by blast
  qed
  show "word_at m' r ys n = (if ys = xs \<and> n = i then e else word_at m r ys n)" if ys: "indices N ys" "n < 512"
  proof (cases "prefix (xs @ [i]) ys")
    case True
    then have "ys \<noteq> xs" using not_prefix_snoc [of xs i] by auto
    then show ?thesis using before [OF True] deeper [OF ys(1) True] new zero [OF ys(2)] by (cases "ys = xs @ [i]") (auto simp: word_at_def)
  next
    case False
    then show ?thesis using word_at_set [OF tree2 xs(1) xs2 xs(3) ys False] words [OF ys] m' by simp
  qed
qed

text \<open>Removing an empty table and giving its page back.\<close>

lemma unlink:
  assumes tree: "tree_ok N m r A" and xs: "indices N xs" "table_at m r xs = Some t" "i < 512"
    and q: "table_at m r (xs @ [i]) = Some q" "\<And>n. n < 512 \<Longrightarrow> m q n = 0" and m1: "\<And>p. p \<notin> insert q A \<Longrightarrow> m1 p = m p"
    and m': "m' = set_word m1 t i 0" and xi: "indices N (xs @ [i])"
  shows "tree_ok N m' r (insert q A)"
    and "indices N ys \<Longrightarrow> n < 512 \<Longrightarrow> word_at m' r ys n = (if ys = xs \<and> n = i then 0 else word_at m r ys n)"
    and "indices N ys \<Longrightarrow> \<not> prefix (xs @ [i]) ys \<Longrightarrow> table_at m' r ys = table_at m r ys"
proof -
  let ?m2 = "set_word m t i 0"
  note c = cut [OF tree xs, of 0 ?m2, simplified present_def, simplified]
  have "p \<noteq> q" if "indices N zs" "table_at ?m2 r zs = Some p" for zs p
    using that c(1) [OF that(1)] tree_same [OF tree that(1) xi _ q(1)] by (auto split: if_splits)
  then have tree2: "tree_ok N ?m2 r (insert q A)" using c(3) unfolding tree_ok_def by blast
  have agree: "m' p n = ?m2 p n" if "indices N zs" "table_at ?m2 r zs = Some p" "n < 512" for zs p n
    using tree_page [OF tree2 that(1,2)] m1 m' by (auto simp: set_word_def)
  show "tree_ok N m' r (insert q A)" using tree2 agree by (rule tree_ok_frame)
  have below: "word_at m r ys n = 0" if "indices N ys" "n < 512" "prefix (xs @ [i]) ys" for ys n
    using empty_table_below [OF q that(3) _ that(1)] q that by (cases "ys = xs @ [i]") (auto simp: word_at_def)
  show "word_at m' r ys n = (if ys = xs \<and> n = i then 0 else word_at m r ys n)" if ys: "indices N ys" "n < 512"
  proof -
    have "word_at m' r ys n = word_at ?m2 r ys n" using agree ys by (rule word_at_frame)
    then show ?thesis using c(2) [OF ys] below [OF ys] by auto
  qed
  show "table_at m' r ys = table_at m r ys" if "indices N ys" "\<not> prefix (xs @ [i]) ys"
  proof -
    have "table_at m' r ys = table_at ?m2 r ys" using agree that(1) by (rule table_at_frame)
    then show ?thesis using c(1) [OF that(1)] that(2) by simp
  qed
qed

section \<open>Leaves\<close>

definition index4 :: "nat \<Rightarrow> nat \<times> nat \<times> nat \<times> nat \<Rightarrow> bool" where
  "index4 N = (\<lambda>(i, j, k, l). i < 512 \<and> i < N \<and> j < 512 \<and> k < 512 \<and> l < 512)"

definition same_leaves :: "nat \<Rightarrow> page_mem \<Rightarrow> page_mem \<Rightarrow> nat \<Rightarrow> bool" where
  "same_leaves N m m' r \<longleftrightarrow> (\<forall>x. index4 N x \<longrightarrow> leaf m' r x = leaf m r x)"

lemma same_leaves_refl: "same_leaves N m m r"
  by (simp add: same_leaves_def)

lemma same_leaves_trans: "same_leaves N m m' r \<Longrightarrow> same_leaves N m' m'' r \<Longrightarrow> same_leaves N m m'' r"
  by (simp add: same_leaves_def)

text \<open>An entry that turns from absent to an empty table, or back, translates nothing.\<close>

lemma leaf_relink:
  assumes words: "\<And>ys n. indices N ys \<Longrightarrow> n < 512 \<Longrightarrow> word_at m' r ys n = (if ys = xs \<and> n = i then e else word_at m r ys n)"
    and xs: "length xs < 3" and plain: "\<not> (present e \<and> huge e)"
      "length xs = 2 \<Longrightarrow> \<not> (present (word_at m r xs i) \<and> huge (word_at m r xs i))"
    and below: "\<And>n. n < 512 \<Longrightarrow> word_at m r (xs @ [i]) n = 0"
  shows "same_leaves N m m' r"
  unfolding same_leaves_def
proof (intro allI impI)
  fix x :: "nat \<times> nat \<times> nat \<times> nat" assume "index4 N x"
  then obtain a b c d where x: "x = (a, b, c, d)" and idx: "a < 512" "b < 512" "c < 512" "d < 512" "a < N" by (cases x) (auto simp: index4_def)
  have w: "word_at m' r [a, b] c = (if [a, b] = xs \<and> c = i then e else word_at m r [a, b] c)"
    "word_at m' r [a, b, c] d = word_at m r [a, b, c] d"
    using words [of "[a, b]" c] words [of "[a, b, c]" d] idx xs by auto
  show "leaf m' r x = leaf m r x"
  proof (cases "[a, b] = xs \<and> c = i")
    case True
    then have "word_at m r [a, b, c] d = 0" "length xs = 2" using below [OF idx(4)] by auto
    then show ?thesis using True w plain by (auto simp: leaf_def x present_def)
  next
    case False
    then have "word_at m' r [a, b] c = word_at m r [a, b] c" using w(1) by auto
    then show ?thesis using w(2) by (simp add: leaf_def x)
  qed
qed

text \<open>Storing a small page, a large page, or nothing.\<close>

lemma leaf_small:
  assumes tree: "tree_ok N m r A" and t: "table_at m r [i, j, k] = Some t" "i < 512" "j < 512" "k < 512" "l < 512" "i < N" and x: "index4 N x"
  shows "leaf (set_word m t l e) r x = (if x = (i, j, k, l) then if present e then Some (False, e) else None else leaf m r x)"
proof -
  obtain a b c d where x': "x = (a, b, c, d)" "a < 512" "b < 512" "c < 512" "d < 512" "a < N" using x by (cases x) (auto simp: index4_def)
  have idx: "indices N [i, j, k]" using t by simp
  note c = cut(2) [OF tree idx t(1) t(5) _ refl, of e, simplified]
  have up: "\<not> (present (word_at m r [i, j] k) \<and> huge (word_at m r [i, j] k))"
    using t(1) tab_snoc [of m levels r "[i, j]" k] by (auto simp: word_at_def no_entry_def huge_def split: option.splits if_splits)
  have "word_at (set_word m t l e) r [a, b] c = word_at m r [a, b] c" using c [of "[a, b]" c] x' by simp
  moreover have "word_at (set_word m t l e) r [a, b, c] d = (if (a, b, c, d) = (i, j, k, l) then e else word_at m r [a, b, c] d)"
    using c [of "[a, b, c]" d] x' by auto
  ultimately show ?thesis using up by (auto simp: leaf_def x')
qed

lemma leaf_large:
  assumes tree: "tree_ok N m r A" and t: "table_at m r [i, j] = Some t" "i < 512" "j < 512" "k < 512" "i < N" and x: "index4 N x"
    and e: "\<not> present e \<or> huge e"
  shows "leaf (set_word m t k e) r x =
    (if (\<exists>l. x = (i, j, k, l)) then if present e then Some (True, e) else None else leaf m r x)"
proof -
  obtain a b c d where x': "x = (a, b, c, d)" "a < 512" "b < 512" "c < 512" "d < 512" "a < N" using x by (cases x) (auto simp: index4_def)
  have idx: "indices N [i, j]" using t by simp
  have e': "length [i, j] < 3 \<Longrightarrow> \<not> present e \<or> e AND levels ! length [i, j] \<noteq> 0" using e by (simp add: huge_def)
  note c = cut(2) [OF tree idx t(1) t(4) e' refl, simplified]
  have "word_at (set_word m t k e) r [a, b] c = (if (a, b, c) = (i, j, k) then e else word_at m r [a, b] c)"
    using c [of "[a, b]" c] x' by auto
  moreover have "word_at (set_word m t k e) r [a, b, c] d = (if (a, b, c) = (i, j, k) then 0 else word_at m r [a, b, c] d)"
    using c [of "[a, b, c]" d] x' by auto
  ultimately show ?thesis using e by (auto simp: leaf_def x' present_def)
qed

section \<open>Allocators of tables\<close>

text \<open>A store whose tables form a tree with a given root, apart from the free pages.\<close>

definition page_tree_of :: "nat \<Rightarrow> ('a store \<Rightarrow> nat set) \<Rightarrow> ('a store \<Rightarrow> bool) \<Rightarrow> 'a store \<Rightarrow> nat \<Rightarrow> bool" where
  "page_tree_of N avail ok s r \<longleftrightarrow> ok s \<and> tree_ok N (snd s) r (avail s)"

locale table_allocator =
  fixes ops :: "'a PageAllocator" and avail :: "'a store \<Rightarrow> nat set" and room :: "'a store \<Rightarrow> nat" and inv :: "'a store \<Rightarrow> bool"
  assumes alloc_law: "inv s \<Longrightarrow> (pa_alloc ops s = Some (None, s) \<and> room s = 0) \<or>
      (\<exists>p s'. pa_alloc ops s = Some (Some p, s') \<and> inv s' \<and> page_ok p \<and> p \<in> avail s \<and> avail s' = avail s - {p} \<and> room s = Suc (room s') \<and>
         (\<forall>q. q \<notin> avail s \<longrightarrow> snd s' q = snd s q))"
    and frame_law: "inv (a, m) \<Longrightarrow> (\<And>q. q \<in> avail (a, m) \<Longrightarrow> m' q = m q) \<Longrightarrow>
      inv (a, m') \<and> avail (a, m') = avail (a, m) \<and> room (a, m') = room (a, m)"
    and free_law: "inv s \<Longrightarrow> p \<notin> avail s \<Longrightarrow> page_ok p \<Longrightarrow>
      \<exists>s'. pa_free ops p s = Some s' \<and> inv s' \<and> avail s' = insert p (avail s) \<and> (\<forall>q. q \<notin> insert p (avail s) \<longrightarrow> snd s' q = snd s q)"
begin

abbreviation page_tree :: "nat \<Rightarrow> 'a store \<Rightarrow> nat \<Rightarrow> bool" where
  "page_tree N \<equiv> page_tree_of N avail inv"

lemma page_tree_set:
  assumes "page_tree N (a, m) r" "indices N xs" "table_at m r xs = Some t" "tree_ok N (set_word m t i e) r (avail (a, m))"
  shows "page_tree N (a, set_word m t i e) r" "room (a, set_word m t i e) = room (a, m)"
proof -
  have "t \<notin> avail (a, m)" using assms(1-3) tree_page by (auto simp: page_tree_of_def)
  then have "inv (a, set_word m t i e) \<and> avail (a, set_word m t i e) = avail (a, m) \<and> room (a, set_word m t i e) = room (a, m)"
    using assms(1) by (intro frame_law) (auto simp: page_tree_of_def set_word_def)
  then show "page_tree N (a, set_word m t i e) r" "room (a, set_word m t i e) = room (a, m)" using assms(4) by (simp_all add: page_tree_of_def)
qed

text \<open>The table an entry leads to, when it is one.\<close>

lemma found_table:
  assumes "tree_ok N m r A" "indices N (xs @ [i])" "table_at m r xs = Some t" "length xs < 3" "present (m t i)"
  shows "(if m t i AND levels ! length xs \<noteq> 0 then pio_none s else pio_panics (entry_target (m t i)) s) = Some (table_at m r (xs @ [i]), s)"
proof -
  have t: "table_at m r (xs @ [i]) = (if m t i AND levels ! length xs \<noteq> 0 then None else Some (target (m t i)))"
    using assms(3,4,5) by (simp add: tab_snoc no_entry_def del: tab.simps)
  then show ?thesis using tree_page [OF assms(1,2), of "target (m t i)"]
    by (auto simp: pio_none_def pio_panics_def entry_target_ok)
qed

lemma get_table_find:
  assumes "page_tree N s r" "indices N (xs @ [i])" "table_at (snd s) r xs = Some t" "length xs < 3"
  shows "get_table ops False t i f (levels ! length xs) s = Some (table_at (snd s) r (xs @ [i]), s)"
proof -
  obtain a m where s: "s = (a, m)" by force
  show ?thesis
  proof (cases "present (m t i)")
    case True
    have "tree_ok N m r (avail s)" "table_at m r xs = Some t" using assms(1,3) by (simp_all add: s page_tree_of_def)
    from found_table [OF this(1) assms(2) this(2) assms(4) True, of "(a, m)"] True show ?thesis
      by (simp add: s get_table_def pio_bind_def pio_some_def Let_def split: if_splits)
  next
    case False
    then show ?thesis using assms(3) by (simp add: s get_table_def pio_bind_def pio_none_def tab_snoc no_entry_def del: tab.simps)
  qed
qed

lemma get_table_add:
  assumes pt: "page_tree N s r" and xs: "indices N xs" "table_at (snd s) r xs = Some t" "length xs < 3" "i < 512" and xi: "indices N (xs @ [i])"
  obtains res s' where "get_table ops True t i (table_flags v) (levels ! length xs) s = Some (res, s')" "page_tree N s' r"
    "same_leaves N (snd s) (snd s') r" "\<forall>q. res = Some q \<longrightarrow> table_at (snd s') r (xs @ [i]) = Some q"
    "res = None \<longrightarrow> room s' = 0 \<or> s' = s \<and> present (snd s t i) \<and> snd s t i AND levels ! length xs \<noteq> 0"
    "room s \<le> Suc (room s')"
proof -
  obtain a m where s: "s = (a, m)" by force
  have inv: "inv s" and tree: "tree_ok N m r (avail s)" using pt by (simp_all add: page_tree_of_def s)
  have t: "table_at m r xs = Some t" using xs(2) by (simp add: s)
  show ?thesis
  proof (cases "present (m t i)")
    case True
    then have "get_table ops True t i (table_flags v) (levels ! length xs) s = Some (table_at m r (xs @ [i]), s)"
      using found_table [OF tree xi t xs(3) True, of "(a, m)"] True
      by (simp add: s get_table_def pio_bind_def pio_some_def Let_def split: if_splits)
    moreover have "m t i AND levels ! length xs \<noteq> 0" if "table_at m r (xs @ [i]) = None"
      using that t True xs(3) by (auto simp: tab_snoc no_entry_def simp del: tab.simps split: if_splits)
    ultimately show ?thesis using that [of _ s] pt same_leaves_refl True by (simp add: s)
  next
    case False
    show ?thesis
    proof (cases "pa_alloc ops s = Some (None, s)")
      case True
      then have "get_table ops True t i (table_flags v) (levels ! length xs) s = Some (None, s)"
        using False by (simp add: s get_table_def pio_bind_def)
      moreover have "room s = 0" using alloc_law [OF inv] True by auto
      ultimately show ?thesis using that [of None s] pt same_leaves_refl by simp
    next
      case False
      obtain q a1 m1 where q: "pa_alloc ops s = Some (Some q, a1, m1)" "inv (a1, m1)" "q \<in> avail s" "avail (a1, m1) = avail s - {q}"
        "\<And>p. p \<notin> avail s \<Longrightarrow> m1 p = m p" and qok: "page_ok q" and room: "room s = Suc (room (a1, m1))"
        using alloc_law [OF inv] False by (auto simp: s)
      let ?e = "of_nat (q - DIRECT_MAPPING_OFFSET) OR table_flags v"
      let ?m' = "set_word (zero_page m1 q) t i ?e"
      note new = new_table_entry [OF qok, of v]
      note ln = link [OF tree xs(1) t xs(4,3) \<open>\<not> present (m t i)\<close> q(3) qok q(5) new refl]
      have lv: "?e AND levels ! length xs = 0" using new(3) xs(3) by (auto simp: less_Suc_eq numeral_3_eq_3)
      have "sub64 q DIRECT_MAPPING_OFFSET = Some (q - DIRECT_MAPPING_OFFSET)" using qok by (simp add: sub64_def page_ok_def)
      moreover have "entry_target ?e = Some q" using entry_target_ok [of ?e] new(1) qok by simp
      ultimately have run: "get_table ops True t i (table_flags v) (levels ! length xs) s = Some (Some q, a1, ?m')"
        using q(1) \<open>\<not> present (m t i)\<close> lv by (simp add: s get_table_def pio_bind_def pio_panics_def pio_some_def set_word_def Let_def)
      have tq: "t \<notin> avail s" using tree_page [OF tree xs(1) t] by simp
      have "inv (a1, ?m') \<and> avail (a1, ?m') = avail (a1, m1) \<and> room (a1, ?m') = room (a1, m1)"
        using q(2) q(4) tq by (intro frame_law) (auto simp: set_word_def zero_page_def)
      then have "page_tree N (a1, ?m') r" "room s \<le> Suc (room (a1, ?m'))" using ln(2) q(4) room by (simp_all add: page_tree_of_def)
      moreover have "same_leaves N m ?m' r"
      proof (rule leaf_relink [OF ln(3) xs(3)])
        have "huge ?e = False" using new(3) by (simp add: huge_def)
        then show "\<not> (present ?e \<and> huge ?e)" by simp
        show "\<not> (present (word_at m r xs i) \<and> huge (word_at m r xs i))" using \<open>\<not> present (m t i)\<close> t by (simp add: word_at_def)
        show "word_at m r (xs @ [i]) n = 0" for n
          using \<open>\<not> present (m t i)\<close> t by (simp add: word_at_def tab_snoc no_entry_def del: tab.simps)
      qed
      ultimately show ?thesis using that [OF run] ln(1) by (simp add: s)
    qed
  qed
qed

lemma remove_empty:
  assumes pt: "page_tree N s r" and xs: "indices N xs" "table_at (snd s) r xs = Some t" "i < 512" and xi: "indices N (xs @ [i])"
    and q: "table_at (snd s) r (xs @ [i]) = Some q" "table_empty (snd s) q"
  obtains s' where "table_remove ops t i s = Some (Some (), s')" "page_tree N s' r" "same_leaves N (snd s) (snd s') r"
    "\<And>ys. indices N ys \<Longrightarrow> \<not> prefix (xs @ [i]) ys \<Longrightarrow> table_at (snd s') r ys = table_at (snd s) r ys"
proof -
  obtain a m where s: "s = (a, m)" by force
  have inv: "inv s" and tree: "tree_ok N m r (avail s)" using pt by (simp_all add: page_tree_of_def s)
  have t: "table_at m r xs = Some t" "table_at m r (xs @ [i]) = Some q" using xs(2) q(1) by (simp_all add: s)
  have e: "present (m t i)" "target (m t i) = q" "length xs < 3" "m t i AND levels ! length xs = 0"
    using t by (auto simp: tab_snoc no_entry_def simp del: tab.simps split: if_splits)
  have qok: "q \<notin> avail s" "page_ok q" using tree_page [OF tree xi t(2)] by simp_all
  obtain a1 m1 where f: "pa_free ops q s = Some (a1, m1)" "inv (a1, m1)" "avail (a1, m1) = insert q (avail s)"
    "\<And>p. p \<notin> insert q (avail s) \<Longrightarrow> m1 p = m p"
    using free_law [OF inv qok] by (auto simp: s)
  have zero: "m q n = 0" if "n < 512" for n using q(2) that by (auto simp: table_empty_def s list_all_iff)
  note u = unlink [OF tree xs(1) t(1) xs(3) t(2) zero f(4) refl xi]
  have tq: "t \<notin> insert q (avail s)" using tree_page [OF tree xs(1) t(1)] tree_same [OF tree xs(1) xi t(1)] t(2) by auto
  have "inv (a1, set_word m1 t i 0) \<and> avail (a1, set_word m1 t i 0) = avail (a1, m1) \<and> room (a1, set_word m1 t i 0) = room (a1, m1)"
    using f(2,3) tq by (intro frame_law) (auto simp: set_word_def)
  then have "page_tree N (a1, set_word m1 t i 0) r" using u(1) f(3) by (simp add: page_tree_of_def)
  moreover have "table_remove ops t i s = Some (Some (), a1, set_word m1 t i 0)"
    using e(1,2) f(1) entry_target_ok [of "m t i"] qok(2) by (simp add: s table_remove_def pio_some_def del: bind_eq_Some_iff)
  moreover have "same_leaves N m (set_word m1 t i 0) r"
  proof (rule leaf_relink [OF u(2) e(3)])
    show "\<not> (present (0 :: u64) \<and> huge 0)" by (simp add: present_def)
    show "word_at m r (xs @ [i]) n = 0" if "n < 512" for n using t(2) zero [OF that] by (simp add: word_at_def)
    show "\<not> (present (word_at m r xs i) \<and> huge (word_at m r xs i))" if "length xs = 2"
      using e(4) t(1) that by (simp add: word_at_def huge_def)
  qed
  ultimately show ?thesis using that u(3) by (simp add: s)
qed

lemma pio_bind_run:
  "m s = Some (Some x, s') \<Longrightarrow> pio_bind m f s = f x s'" "m s = Some (None, s') \<Longrightarrow> pio_bind m f s = Some (None, s')"
  by (simp_all add: pio_bind_def)

text \<open>Removing the tables of a path that have become empty.\<close>

lemma prune_pdpt_ok:
  assumes "page_tree N s r" "table_at (snd s) r [i] = Some pdpt" "i < 512" "i < N"
  obtains s' where "prune_pdpt ops r pdpt i s = Some (Some (), s')" "page_tree N s' r" "same_leaves N (snd s) (snd s') r"
proof (cases "table_empty (snd s) pdpt")
  case True
  obtain s' where "table_remove ops r i s = Some (Some (), s')" "page_tree N s' r" "same_leaves N (snd s) (snd s') r"
    by (rule remove_empty [OF assms(1), of "[]" r i pdpt]) (use assms True in simp_all)
  then show ?thesis using that [of s'] True by (cases s) (simp add: prune_pdpt_def)
next
  case False
  then show ?thesis using that [of s] assms(1) same_leaves_refl by (cases s) (simp add: prune_pdpt_def pio_some_def)
qed

lemma prune_pd_ok:
  assumes pt: "page_tree N s r" and t: "table_at (snd s) r [i] = Some pdpt" "table_at (snd s) r [i, j] = Some pd" "i < 512" "j < 512" "i < N"
  obtains s' where "prune_pd ops r pdpt pd i j s = Some (Some (), s')" "page_tree N s' r" "same_leaves N (snd s) (snd s') r"
proof (cases "table_empty (snd s) pd")
  case True
  obtain s1 where s1: "table_remove ops pdpt j s = Some (Some (), s1)" "page_tree N s1 r" "same_leaves N (snd s) (snd s1) r"
      "\<And>ys. indices N ys \<Longrightarrow> \<not> prefix ([i] @ [j]) ys \<Longrightarrow> table_at (snd s1) r ys = table_at (snd s) r ys"
    by (rule remove_empty [OF pt, of "[i]" pdpt j pd]) (use t True in simp_all)
  have "table_at (snd s1) r [i] = Some pdpt" using s1(4) [of "[i]"] t by simp
  then obtain s2 where s2: "prune_pdpt ops r pdpt i s1 = Some (Some (), s2)" "page_tree N s2 r" "same_leaves N (snd s1) (snd s2) r"
    by (rule prune_pdpt_ok [OF s1(2) _ t(3,5)])
  then have "prune_pd ops r pdpt pd i j s = Some (Some (), s2)" using True s1(1) by (cases s) (simp add: prune_pd_def pio_bind_run(1))
  then show ?thesis using that s2(2) same_leaves_trans [OF s1(3) s2(3)] by blast
next
  case False
  then show ?thesis using that [of s] assms(1) same_leaves_refl by (cases s) (simp add: prune_pd_def pio_some_def)
qed

lemma prune_pt_ok:
  assumes pt: "page_tree N s r" and t: "table_at (snd s) r [i] = Some pdpt" "table_at (snd s) r [i, j] = Some pd"
    "table_at (snd s) r [i, j, k] = Some q" "i < 512" "j < 512" "k < 512" "i < N"
  obtains s' where "prune_pt ops r pdpt pd q i j k s = Some (Some (), s')" "page_tree N s' r" "same_leaves N (snd s) (snd s') r"
proof (cases "table_empty (snd s) q")
  case True
  obtain s1 where s1: "table_remove ops pd k s = Some (Some (), s1)" "page_tree N s1 r" "same_leaves N (snd s) (snd s1) r"
      "\<And>ys. indices N ys \<Longrightarrow> \<not> prefix ([i, j] @ [k]) ys \<Longrightarrow> table_at (snd s1) r ys = table_at (snd s) r ys"
    by (rule remove_empty [OF pt, of "[i, j]" pd k q]) (use t True in simp_all)
  have "table_at (snd s1) r [i] = Some pdpt" "table_at (snd s1) r [i, j] = Some pd" using s1(4) [of "[i]"] s1(4) [of "[i, j]"] t by simp_all
  then obtain s2 where s2: "prune_pd ops r pdpt pd i j s1 = Some (Some (), s2)" "page_tree N s2 r" "same_leaves N (snd s1) (snd s2) r"
    by (rule prune_pd_ok [OF s1(2) _ _ t(4,5,7)])
  then have "prune_pt ops r pdpt pd q i j k s = Some (Some (), s2)" using True s1(1) by (cases s) (simp add: prune_pt_def pio_bind_run(1))
  then show ?thesis using that s2(2) same_leaves_trans [OF s1(3) s2(3)] by blast
next
  case False
  then show ?thesis using that [of s] assms(1) same_leaves_refl by (cases s) (simp add: prune_pt_def pio_some_def)
qed

section \<open>Operations on a tree\<close>

lemma root_of_tree: "page_tree N s r \<Longrightarrow> page_ok r"
  using tree_page [of N "snd s" r "avail s" "[]" r] by (simp add: page_tree_of_def)

lemma walk_pd_find:
  assumes pt: "page_tree N s r" and root: "root_table t = Some r" and ij: "i < 512" "j < 512" "i < N"
  shows "walk_pd ops False t f i j s =
    Some (case table_at (snd s) r [i] of None \<Rightarrow> None | Some pdpt \<Rightarrow> map_option (\<lambda>pd. (r, pdpt, pd)) (table_at (snd s) r [i, j]), s)"
proof -
  have g1: "get_table ops False r i f 0 s = Some (table_at (snd s) r [i], s)"
    using get_table_find [OF pt, where xs = "[]" and t = r and i = i and f = f] ij by simp
  show ?thesis
  proof (cases "table_at (snd s) r [i]")
    case None
    then show ?thesis using g1 root by (simp add: walk_pd_def pio_bind_def pio_panics_def)
  next
    case (Some pdpt)
    then have "get_table ops False pdpt j f 0 s = Some (table_at (snd s) r [i, j], s)"
      using get_table_find [OF pt, where xs = "[i]" and t = pdpt and i = j and f = f] ij by simp
    then show ?thesis using g1 root Some by (cases "table_at (snd s) r [i, j]") (simp_all add: walk_pd_def pio_bind_def pio_panics_def pio_some_def)
  qed
qed

lemma walk_pd_add:
  assumes pt: "page_tree N s r" and root: "root_table t = Some r" and ij: "i < 512" "j < 512" "i < N"
  obtains res s' where "walk_pd ops True t (table_flags v) i j s = Some (res, s')" "page_tree N s' r" "same_leaves N (snd s) (snd s') r"
    "\<forall>x. res = Some x \<longrightarrow> table_at (snd s') r [i, j] = Some (snd (snd x))" "res = None \<longrightarrow> room s' = 0"
    "room s \<le> room s' + 2"
proof -
  obtain r1 s1 where g1: "get_table ops True r i (table_flags v) 0 s = Some (r1, s1)" "page_tree N s1 r" "same_leaves N (snd s) (snd s1) r"
      "\<forall>q. r1 = Some q \<longrightarrow> table_at (snd s1) r [i] = Some q" "r1 = None \<longrightarrow> room s1 = 0" "room s \<le> Suc (room s1)"
    using get_table_add [OF pt, of "[]" r i v] ij by auto
  show ?thesis
  proof (cases r1)
    case None
    then show ?thesis using that [of None s1] g1 root by (simp add: walk_pd_def pio_bind_def pio_panics_def)
  next
    case (Some pdpt)
    then have "table_at (snd s1) r [i] = Some pdpt" using g1(4) by simp
    then obtain r2 s2 where g2: "get_table ops True pdpt j (table_flags v) 0 s1 = Some (r2, s2)" "page_tree N s2 r" "same_leaves N (snd s1) (snd s2) r"
        "\<forall>q. r2 = Some q \<longrightarrow> table_at (snd s2) r [i, j] = Some q" "r2 = None \<longrightarrow> room s2 = 0" "room s1 \<le> Suc (room s2)"
      using get_table_add [OF g1(2), of "[i]" pdpt j v] ij by auto
    have leaves: "same_leaves N (snd s) (snd s2) r" "room s \<le> room s2 + 2"
      using same_leaves_trans [OF g1(3) g2(3)] Some g1(6) g2(6) by simp_all
    show ?thesis
    proof (cases r2)
      case None
      then show ?thesis using that [of None s2] g1(1) g2 Some root leaves by (simp add: walk_pd_def pio_bind_def pio_panics_def)
    next
      case (Some pd)
      then show ?thesis using that [of "Some (r, pdpt, pd)" s2] g1(1) g2 \<open>r1 = Some pdpt\<close> root leaves
        by (simp add: walk_pd_def pio_bind_def pio_panics_def pio_some_def)
    qed
  qed
qed

end

lemma and_mask_9: "n AND 0x1FF = (n :: nat) mod 512"
proof -
  have "n AND mask 9 = n mod 512" unfolding take_bit_eq_mask [symmetric] by (simp add: take_bit_eq_mod)
  then show ?thesis by (simp add: mask_eq_exp_minus_1)
qed

lemma split_virt_addr_eq: "split_virt_addr v = (v div 2 ^ 39 mod 512, v div 2 ^ 30 mod 512, v div 2 ^ 21 mod 512, v div 2 ^ 12 mod 512)"
  unfolding split_virt_addr_def and_mask_9 by (simp add: drop_bit_eq_div)

definition in_half :: "nat \<Rightarrow> nat \<Rightarrow> bool" where
  "in_half N v \<longleftrightarrow> v div 2 ^ 39 mod 512 < N"

lemma in_half_all [simp]: "in_half 512 v"
  by (simp add: in_half_def)

lemma index4_split: "in_half N v \<Longrightarrow> index4 N (split_virt_addr v)"
  by (simp add: split_virt_addr_eq index4_def in_half_def)

text \<open>Two addresses have the same indices N when bits 12 to 47 agree.\<close>

lemma split_same_page: "split_virt_addr v = split_virt_addr v' \<longleftrightarrow> v div 4096 mod 2 ^ 36 = v' div 4096 mod 2 ^ 36"
proof -
  have d: "v div 4096 mod 2 ^ 36 = ((v div 2 ^ 39 mod 512 * 512 + v div 2 ^ 30 mod 512) * 512 + v div 2 ^ 21 mod 512) * 512 + v div 2 ^ 12 mod 512" for v :: nat
  proof -
    have "n mod (512 * (512 * (512 * 512))) =
        512 * (512 * (512 * (n div 512 div 512 div 512 mod 512) + n div 512 div 512 mod 512) + n div 512 mod 512) + n mod 512" for n :: nat
      by (simp only: mod_mult2_eq)
    from this [of "v div 4096"] show ?thesis by (simp add: div_mult2_eq [symmetric] mult.commute)
  qed
  have digit: "a * 512 + b = c * 512 + d' \<longleftrightarrow> a = c \<and> b = d'" if "b < 512" "d' < 512" for a b c d' :: nat
  proof
    assume e: "a * 512 + b = c * 512 + d'"
    have "(a * 512 + b) div 512 = a" "(c * 512 + d') div 512 = c" using that by (simp_all add: div_add1_eq)
    then show "a = c \<and> b = d'" using e by simp
  qed simp
  have less: "x mod 512 < 512" for x :: nat by simp
  show ?thesis unfolding d split_virt_addr_eq prod.inject digit [OF less less] by blast
qed

lemma align_down_page:
  assumes "p mod 4096 = 0" "p < 2 ^ 64"
  shows "align_down p PAGE_SIZE = Some p"
proof -
  have "p AND push_bit 12 (mask 52) = p"
  proof (rule bit_eqI)
    fix n
    have "bit p n \<Longrightarrow> 12 \<le> n \<and> n < 64"
    proof -
      assume b: "bit p n"
      have "p = push_bit 12 (p div 4096)" using assms(1) by (auto simp: push_bit_eq_mult)
      then have "12 \<le> n" using b by (metis bit_push_bit_iff_nat)
      moreover have "take_bit 64 p = p" using assms(2) by (simp add: take_bit_nat_eq_self)
      then have "n < 64" using b by (metis bit_take_bit_iff)
      ultimately show ?thesis by blast
    qed
    then show "bit (p AND push_bit 12 (mask 52)) n = bit p n" by (auto simp: bit_simps)
  qed
  then show ?thesis by (simp add: align_down_def sub64_def PAGE_SIZE_def mask_eq_exp_minus_1)
qed

text \<open>The translation of an address that a tree of tables describes.\<close>

definition translation :: "page_mem \<Rightarrow> nat \<Rightarrow> nat \<Rightarrow> nat option" where
  "translation m r v = map_option (\<lambda>(large, e). unat (e AND ADDR_MASK) + v mod (if large then PAGE_SIZE_2MB else PAGE_SIZE)) (leaf m r (split_virt_addr v))"

lemma masked_addr: "unat (e AND ADDR_MASK) < 2 ^ 52"
proof -
  have t: "take_bit 52 (e AND ADDR_MASK) = e AND ADDR_MASK"
    by (rule bit_eqI) (unfold bit_take_bit_iff bit_and_iff bit_addr_mask, blast)
  have "unat (take_bit 52 (e AND ADDR_MASK)) = take_bit 52 (unat (e AND ADDR_MASK))" by (rule unsigned_take_bit_eq)
  moreover have "take_bit 52 (unat (e AND ADDR_MASK)) < 2 ^ 52" by (rule take_bit_nat_less_exp)
  ultimately show ?thesis unfolding t by (simp only:)
qed

context table_allocator
begin

lemma translate_eq:
  assumes pt: "page_tree N s r" and root: "root_table t = Some r" and v: "in_half N v"
  shows "translate ops t v s = Some (translation (snd s) r v, s)"
proof -
  obtain a m where s: "s = (a, m)" by force
  obtain i j k l where x: "split_virt_addr v = (i, j, k, l)" by (cases "split_virt_addr v") auto
  have idx: "i < 512" "j < 512" "k < 512" "l < 512" "i < N" using index4_split [OF v] by (simp_all add: x index4_def)
  have fits: "add64 (unat (e AND ADDR_MASK)) (v mod PAGE_SIZE_2MB) = Some (unat (e AND ADDR_MASK) + v mod PAGE_SIZE_2MB)"
    "add64 (unat (e AND ADDR_MASK)) (v mod PAGE_SIZE) = Some (unat (e AND ADDR_MASK) + v mod PAGE_SIZE)" for e
  proof -
    have "v mod PAGE_SIZE_2MB < 2 ^ 21" "v mod PAGE_SIZE < 2 ^ 12" by (simp_all add: PAGE_SIZE_2MB_def PAGE_SIZE_def)
    then show "add64 (unat (e AND ADDR_MASK)) (v mod PAGE_SIZE_2MB) = Some (unat (e AND ADDR_MASK) + v mod PAGE_SIZE_2MB)"
      "add64 (unat (e AND ADDR_MASK)) (v mod PAGE_SIZE) = Some (unat (e AND ADDR_MASK) + v mod PAGE_SIZE)"
      unfolding add64_def using masked_addr [of e] by auto
  qed
  note w = walk_pd_find [OF pt root idx(1,2,5), of 0]
  show ?thesis
  proof (cases "table_at m r [i, j]")
    case None
    then have "table_at m r [i, j, k] = None" using no_table_below [of m r "[i, j]" "[k]"] by simp
    then have "leaf m r (i, j, k, l) = None" using None by (simp add: leaf_def word_at_def present_def)
    then show ?thesis using w None by (auto simp: translate_def x s pio_bind_def translation_def split: option.split)
  next
    case (Some pd)
    then obtain pdpt where pdpt: "table_at m r [i] = Some pdpt"
      using no_table_below [of m r "[i]" "[j]"] by (cases "table_at m r [i]") auto
    have w': "walk_pd ops False t 0 i j (a, m) = Some (Some (r, pdpt, pd), a, m)" using w Some pdpt by (simp add: s)
    have g: "get_table ops False pd k 0 PAGE_HUGE (a, m) = Some (table_at m r [i, j, k], a, m)"
      using get_table_find [OF pt, where xs = "[i, j]" and t = pd and i = k and f = 0] idx Some by (simp add: s)
    show ?thesis
    proof (cases "present (m pd k) \<and> huge (m pd k)")
      case True
      then have "leaf m r (i, j, k, l) = Some (True, m pd k)" using Some by (simp add: leaf_def word_at_def)
      then show ?thesis using True w' fits by (simp add: translate_def x s pio_bind_def translation_def pio_panics_def)
    next
      case False
      then have "leaf m r (i, j, k, l) = (let e = word_at m r [i, j, k] l in if present e then Some (False, e) else None)"
        using Some by (auto simp: leaf_def word_at_def [of m r "[i, j]"] Let_def)
      then show ?thesis using False w' fits g
        by (cases "table_at m r [i, j, k]")
          (auto simp: translate_def x s pio_bind_def translation_def pio_panics_def pio_none_def word_at_def present_def Let_def)
    qed
  qed
qed

end

declare tab.simps(2,3) [simp del]

end
