(* ===== verification/Paging_Map.thy ===== *)
theory Paging_Map
  imports Paging_Tree
begin

text \<open>
  Mapping and unmapping pages: what the four operations of \<^verbatim>\<open>PageTable\<close> do to the translation, the
  allocator of free runs as a \<open>table_allocator\<close>, and the properties of page tables.
\<close>

context table_allocator
begin

lemma map_4kb_ok:
  assumes pt: "page_tree N (pg_store w) r" and root: "root_table t = Some r" and rw: "\<not> pt_readonly t" and v: "in_half N virt"
    and phys: "align_down phys PAGE_SIZE = Some base"
  obtains res w' where "map_4kb ops t virt phys flags inval w = Some (res, w')" "page_tree N (pg_store w') r"
    "\<forall>x. index4 N x \<longrightarrow> leaf (snd (pg_store w')) r x =
       (if res \<noteq> None \<and> x = split_virt_addr virt then if present (of_nat base OR flags) then Some (False, of_nat base OR flags) else None
        else leaf (snd (pg_store w)) r x)"
    "res = None \<longrightarrow> room (pg_store w') = 0 \<or> (\<exists>e. leaf (snd (pg_store w)) r (split_virt_addr virt) = Some (True, e))"
    "room (pg_store w) \<le> room (pg_store w') + 3"
proof -
  let ?s = "pg_store w" and ?e = "of_nat base OR flags :: u64"
  obtain i j k l where x: "split_virt_addr virt = (i, j, k, l)" by (cases "split_virt_addr virt") auto
  have idx: "i < 512" "j < 512" "k < 512" "l < 512" "i < N" using index4_split [OF v] by (simp_all add: x index4_def)
  obtain r1 s1 where w1: "walk_pd ops True t (table_flags virt) i j ?s = Some (r1, s1)" "page_tree N s1 r" "same_leaves N (snd ?s) (snd s1) r"
      "\<forall>x. r1 = Some x \<longrightarrow> table_at (snd s1) r [i, j] = Some (snd (snd x))" "r1 = None \<longrightarrow> room s1 = 0" "room ?s \<le> room s1 + 2"
    by (rule walk_pd_add [OF pt root idx(1,2,5)])
  show ?thesis
  proof (cases r1)
    case None
    then show ?thesis using that [of None "w\<lparr>pg_store := s1\<rparr>"] w1 rw
      by (simp add: map_4kb_def x on_store_def pio_bind_def Let_def same_leaves_def)
  next
    case (Some tabs)
    obtain pml4 pdpt pd where tabs: "tabs = (pml4, pdpt, pd)" by (cases tabs)
    have pd: "table_at (snd s1) r [i, j] = Some pd" using w1(4) Some tabs by simp
    obtain r2 s2 where g2: "get_table ops True pd k (table_flags virt) (levels ! length [i, j]) s1 = Some (r2, s2)" "page_tree N s2 r"
        "same_leaves N (snd s1) (snd s2) r" "\<forall>q. r2 = Some q \<longrightarrow> table_at (snd s2) r ([i, j] @ [k]) = Some q"
        "room s1 \<le> Suc (room s2)" "r2 = None \<longrightarrow> room s2 = 0 \<or> s2 = s1 \<and> present (snd s1 pd k) \<and> snd s1 pd k AND levels ! length [i, j] \<noteq> 0"
      by (rule get_table_add [OF w1(2) _ pd _ idx(3)]) (use idx in simp_all)
    obtain a2 m2 where s2: "s2 = (a2, m2)" by force
    have g: "get_table ops True pd k (table_flags virt) PAGE_HUGE s1 = Some (r2, a2, m2)" "page_tree N (a2, m2) r"
        "same_leaves N (snd s1) m2 r" "\<forall>q. r2 = Some q \<longrightarrow> table_at m2 r [i, j, k] = Some q" using g2 by (simp_all add: s2)
    have room: "room ?s \<le> room (a2, m2) + 3" using w1(6) g2(5) by (simp add: s2)
    have leaves: "same_leaves N (snd ?s) m2 r" by (rule same_leaves_trans [OF w1(3) g(3)])
    show ?thesis
    proof (cases r2)
      case None
      have "room (a2, m2) = 0 \<or> (\<exists>e. leaf (snd ?s) r (i, j, k, l) = Some (True, e))"
      proof (cases "room (a2, m2) = 0")
        case False
        then have "present (snd s1 pd k)" "huge (snd s1 pd k)" using g2(6) None by (simp_all add: s2 huge_def)
        then have "leaf (snd s1) r (i, j, k, l) = Some (True, snd s1 pd k)" using pd by (simp add: leaf_def word_at_def)
        then show ?thesis using w1(3) idx by (auto simp: same_leaves_def index4_def)
      qed simp
      then show ?thesis using that [of None "w\<lparr>pg_store := (a2, m2)\<rparr>"] w1(1) Some tabs g leaves rw None room
        by (simp add: map_4kb_def x on_store_def pio_bind_def Let_def same_leaves_def)
    next
      case (Some q)
      then have q: "table_at m2 r [i, j, k] = Some q" using g(4) by simp
      have tree: "tree_ok N m2 r (avail (a2, m2))" using g(2) by (simp add: page_tree_of_def)
      have ijk: "indices N [i, j, k]" using idx by simp
      have "tree_ok N (set_word m2 q l ?e) r (avail (a2, m2))" using cut(3) [OF tree ijk q idx(4) _ refl] by simp
      then have tr: "page_tree N (a2, set_word m2 q l ?e) r" "room (a2, set_word m2 q l ?e) = room (a2, m2)" by (rule page_tree_set [OF g(2) ijk q])+
      let ?w1 = "w\<lparr>pg_store := (a2, set_word m2 q l ?e)\<rparr>"
      let ?w = "if inval then ?w1\<lparr>pg_tlb := pg_tlb w @ [Invlpg virt]\<rparr> else ?w1"
      have run: "map_4kb ops t virt phys flags inval w = Some (Some (), ?w)"
        using w1(1) \<open>r1 = Some tabs\<close> tabs g(1) Some rw phys
        by (simp add: map_4kb_def x on_store_def pio_bind_def Let_def pio_panics_def set_entry_def pio_some_def invlpg_def)
      show ?thesis
      proof (rule that [OF run])
        show "page_tree N (pg_store ?w) r" "room ?s \<le> room (pg_store ?w) + 3" using tr room by simp_all
        show "\<forall>x. index4 N x \<longrightarrow> leaf (snd (pg_store ?w)) r x =
            (if Some () \<noteq> None \<and> x = split_virt_addr virt then if present ?e then Some (False, ?e) else None else leaf (snd ?s) r x)"
          using leaf_small [OF tree q idx] leaves by (simp add: x same_leaves_def)
      qed simp
    qed
  qed
qed

lemma map_2mb_ok:
  assumes pt: "page_tree N (pg_store w) r" and root: "root_table t = Some r" and rw: "\<not> pt_readonly t" and v: "in_half N virt"
    and phys: "align_down phys PAGE_SIZE_2MB = Some base"
  obtains res w' where "map_2mb ops t virt phys flags inval w = Some (res, w')" "page_tree N (pg_store w') r"
    "\<forall>x. index4 N x \<longrightarrow> leaf (snd (pg_store w')) r x =
       (if res \<noteq> None \<and> (\<exists>i j k l l'. split_virt_addr virt = (i, j, k, l) \<and> x = (i, j, k, l'))
        then if present (of_nat base OR PAGE_HUGE OR flags) then Some (True, of_nat base OR PAGE_HUGE OR flags) else None
        else leaf (snd (pg_store w)) r x)"
proof -
  let ?s = "pg_store w" and ?e = "of_nat base OR PAGE_HUGE OR flags :: u64"
  have h: "huge ?e"
  proof -
    have "bit ?e 7" by (simp add: bit_or_iff)
    then have "bit (?e AND PAGE_HUGE) 7" by (simp add: bit_and_iff)
    then show ?thesis unfolding huge_def by (metis bit_0_eq bot_apply bot_bool_def)
  qed
  obtain i j k l where x: "split_virt_addr virt = (i, j, k, l)" by (cases "split_virt_addr virt") auto
  have idx: "i < 512" "j < 512" "k < 512" "l < 512" "i < N" using index4_split [OF v] by (simp_all add: x index4_def)
  obtain r1 s1 where w0: "walk_pd ops True t (table_flags virt) i j ?s = Some (r1, s1)" "page_tree N s1 r" "same_leaves N (snd ?s) (snd s1) r"
      "\<forall>x. r1 = Some x \<longrightarrow> table_at (snd s1) r [i, j] = Some (snd (snd x))" "r1 = None \<longrightarrow> room s1 = 0" "room ?s \<le> room s1 + 2"
    by (rule walk_pd_add [OF pt root idx(1,2,5)])
  obtain a1 m1 where s1: "s1 = (a1, m1)" by force
  note w1 = w0 [unfolded s1 snd_conv]
  show ?thesis
  proof (cases r1)
    case None
    then show ?thesis using that [of None "w\<lparr>pg_store := (a1, m1)\<rparr>"] w1 rw
      by (simp add: map_2mb_def x on_store_def pio_bind_def Let_def same_leaves_def)
  next
    case (Some tabs)
    obtain pml4 pdpt pd where tabs: "tabs = (pml4, pdpt, pd)" by (cases tabs)
    have pd: "table_at m1 r [i, j] = Some pd" using w1(4) Some tabs by simp
    have tree: "tree_ok N m1 r (avail (a1, m1))" using w1(2) by (simp add: page_tree_of_def)
    have ij: "indices N [i, j]" using idx by simp
    have "tree_ok N (set_word m1 pd k ?e) r (avail (a1, m1))" using cut(3) [OF tree ij pd idx(3) _ refl, of ?e] h by (simp add: huge_def)
    then have tr: "page_tree N (a1, set_word m1 pd k ?e) r" by (rule page_tree_set [OF w1(2) ij pd])
    let ?w1 = "w\<lparr>pg_store := (a1, set_word m1 pd k ?e)\<rparr>"
    let ?w = "if inval then ?w1\<lparr>pg_tlb := pg_tlb w @ [Invlpg virt]\<rparr> else ?w1"
    have run: "map_2mb ops t virt phys flags inval w = Some (Some (), ?w)"
      using w1(1) Some tabs rw phys
      by (simp add: map_2mb_def x on_store_def pio_bind_def Let_def pio_panics_def set_entry_def pio_some_def invlpg_def)
    show ?thesis
    proof (rule that [OF run])
      show "page_tree N (pg_store ?w) r" using tr by simp
      show "\<forall>y. index4 N y \<longrightarrow> leaf (snd (pg_store ?w)) r y =
          (if Some () \<noteq> None \<and> (\<exists>i j k l l'. split_virt_addr virt = (i, j, k, l) \<and> y = (i, j, k, l'))
           then if present ?e then Some (True, ?e) else None else leaf (snd ?s) r y)"
        using leaf_large [OF tree pd idx(1-3,5) _ disjI2 [OF h]] w1(3) by (simp add: x same_leaves_def)
    qed
  qed
qed

text \<open>Unmapping: it fails, and changes nothing, where the tables of the page are missing.\<close>

lemma unmap_4kb_ok:
  assumes pt: "page_tree N (pg_store w) r" and root: "root_table t = Some r" and rw: "\<not> pt_readonly t" and v: "in_half N virt"
  obtains res w' where "unmap_4kb ops t virt inval w = Some (res, w')" "page_tree N (pg_store w') r"
    "\<forall>x. index4 N x \<longrightarrow> leaf (snd (pg_store w')) r x = (if res \<noteq> None \<and> x = split_virt_addr virt then None else leaf (snd (pg_store w)) r x)"
    "res = None \<longrightarrow> leaf (snd (pg_store w)) r (split_virt_addr virt) = None \<or> (\<exists>e. leaf (snd (pg_store w)) r (split_virt_addr virt) = Some (True, e))"
proof -
  obtain a m where s: "pg_store w = (a, m)" by force
  obtain i j k l where x: "split_virt_addr virt = (i, j, k, l)" by (cases "split_virt_addr virt") auto
  have idx: "i < 512" "j < 512" "k < 512" "l < 512" "i < N" using index4_split [OF v] by (simp_all add: x index4_def)
  note wk = walk_pd_find [OF pt root idx(1,2,5), of 0]
  show ?thesis
  proof (cases "table_at m r [i, j, k]")
    case None
    have "unmap_4kb ops t virt inval w = Some (None, w)"
    proof (cases "table_at m r [i, j]")
      case None
      then show ?thesis using wk rw by (auto simp: unmap_4kb_def x on_store_def pio_bind_def Let_def s split: option.split)
    next
      case (Some pd)
      then obtain pdpt where "table_at m r [i] = Some pdpt" using no_table_below [of m r "[i]" "[j]"] by (cases "table_at m r [i]") auto
      moreover have "get_table ops False pd k 0 PAGE_HUGE (a, m) = Some (None, a, m)"
        using get_table_find [OF pt, where xs = "[i, j]" and t = pd and i = k and f = 0] idx Some None by (simp add: s)
      ultimately show ?thesis using wk rw Some by (simp add: unmap_4kb_def x on_store_def pio_bind_def Let_def s)
    qed
    moreover have "leaf m r (i, j, k, l) = None \<or> (\<exists>e. leaf m r (i, j, k, l) = Some (True, e))"
      using None by (simp add: leaf_def word_at_def [of m r "[i, j, k]"] present_def Let_def)
    ultimately show ?thesis using that [of None w] pt by (simp add: s x)
  next
    case (Some q)
    then obtain pd where pd: "table_at m r [i, j] = Some pd" using no_table_below [of m r "[i, j]" "[k]"] by (cases "table_at m r [i, j]") auto
    then obtain pdpt where pdpt: "table_at m r [i] = Some pdpt" using no_table_below [of m r "[i]" "[j]"] by (cases "table_at m r [i]") auto
    have g: "get_table ops False pd k 0 PAGE_HUGE (a, m) = Some (Some q, a, m)"
      using get_table_find [OF pt, where xs = "[i, j]" and t = pd and i = k and f = 0] idx pd Some by (simp add: s)
    have tree: "tree_ok N m r (avail (a, m))" and pt': "page_tree N (a, m) r" using pt by (simp_all add: page_tree_of_def s)
    have ijk: "indices N [i, j, k]" using idx by simp
    let ?m = "set_word m q l 0"
    note c = cut [OF tree ijk Some idx(4) _ refl, of 0, simplified]
    have tr: "page_tree N (a, ?m) r" by (rule page_tree_set [OF pt' ijk Some c(3)])
    have keep: "table_at ?m r [i] = Some pdpt" "table_at ?m r [i, j] = Some pd" "table_at ?m r [i, j, k] = Some q"
      using c(1) [of "[i]"] c(1) [of "[i, j]"] c(1) [of "[i, j, k]"] idx pdpt pd Some by simp_all
    obtain s' where p: "prune_pt ops r pdpt pd q i j k (a, ?m) = Some (Some (), s')" "page_tree N s' r" "same_leaves N ?m (snd s') r"
      by (rule prune_pt_ok [OF tr, of i pdpt j pd k q]) (use keep idx in simp_all)
    let ?w1 = "w\<lparr>pg_store := s'\<rparr>"
    let ?w = "if inval then ?w1\<lparr>pg_tlb := pg_tlb w @ [Invlpg virt]\<rparr> else ?w1"
    have run: "unmap_4kb ops t virt inval w = Some (Some (), ?w)"
      using wk pd pdpt g p(1) rw by (simp add: unmap_4kb_def x on_store_def pio_bind_def Let_def s set_entry_def pio_some_def invlpg_def)
    show ?thesis
    proof (rule that [OF run])
      show "page_tree N (pg_store ?w) r" using p(2) by simp
      show "\<forall>y. index4 N y \<longrightarrow> leaf (snd (pg_store ?w)) r y =
          (if Some () \<noteq> None \<and> y = split_virt_addr virt then None else leaf (snd (pg_store w)) r y)"
        using p(3) leaf_small [OF tree Some idx, of _ 0] by (simp add: x s same_leaves_def present_def)
    qed simp
  qed
qed

lemma unmap_2mb_ok:
  assumes pt: "page_tree N (pg_store w) r" and root: "root_table t = Some r" and rw: "\<not> pt_readonly t" and v: "in_half N virt"
  obtains res w' where "unmap_2mb ops t virt inval w = Some (res, w')" "page_tree N (pg_store w') r"
    "\<forall>x. index4 N x \<longrightarrow> leaf (snd (pg_store w')) r x =
       (if res \<noteq> None \<and> (\<exists>i j k l l'. split_virt_addr virt = (i, j, k, l) \<and> x = (i, j, k, l')) then None else leaf (snd (pg_store w)) r x)"
proof -
  obtain a m where s: "pg_store w = (a, m)" by force
  obtain i j k l where x: "split_virt_addr virt = (i, j, k, l)" by (cases "split_virt_addr virt") auto
  have idx: "i < 512" "j < 512" "k < 512" "l < 512" "i < N" using index4_split [OF v] by (simp_all add: x index4_def)
  note wk = walk_pd_find [OF pt root idx(1,2,5), of 0]
  show ?thesis
  proof (cases "table_at m r [i, j]")
    case None
    then have "unmap_2mb ops t virt inval w = Some (None, w)"
      using wk rw by (auto simp: unmap_2mb_def x on_store_def pio_bind_def Let_def s split: option.split)
    then show ?thesis using that [of None w] pt by simp
  next
    case (Some pd)
    then obtain pdpt where pdpt: "table_at m r [i] = Some pdpt" using no_table_below [of m r "[i]" "[j]"] by (cases "table_at m r [i]") auto
    have tree: "tree_ok N m r (avail (a, m))" and pt': "page_tree N (a, m) r" using pt by (simp_all add: page_tree_of_def s)
    have ij: "indices N [i, j]" using idx by simp
    let ?m = "set_word m pd k 0"
    note c = cut [OF tree ij Some idx(3) _ refl, of 0, simplified present_def, simplified]
    have tr: "page_tree N (a, ?m) r" by (rule page_tree_set [OF pt' ij Some c(3)])
    have keep: "table_at ?m r [i] = Some pdpt" "table_at ?m r [i, j] = Some pd"
      using c(1) [of "[i]"] c(1) [of "[i, j]"] idx pdpt Some by simp_all
    obtain s' where p: "prune_pd ops r pdpt pd i j (a, ?m) = Some (Some (), s')" "page_tree N s' r" "same_leaves N ?m (snd s') r"
      by (rule prune_pd_ok [OF tr, of i pdpt j pd]) (use keep idx in simp_all)
    let ?w1 = "w\<lparr>pg_store := s'\<rparr>"
    let ?w = "if inval then ?w1\<lparr>pg_tlb := pg_tlb w @ [Invlpg virt]\<rparr> else ?w1"
    have run: "unmap_2mb ops t virt inval w = Some (Some (), ?w)"
      using wk Some pdpt p(1) rw by (simp add: unmap_2mb_def x on_store_def pio_bind_def Let_def s set_entry_def pio_some_def invlpg_def)
    have z: "\<not> present (0 :: u64) \<or> huge (0 :: u64)" by (simp add: present_def)
    show ?thesis
    proof (rule that [OF run])
      show "page_tree N (pg_store ?w) r" using p(2) by simp
      show "\<forall>y. index4 N y \<longrightarrow> leaf (snd (pg_store ?w)) r y =
          (if Some () \<noteq> None \<and> (\<exists>i j k l l'. split_virt_addr virt = (i, j, k, l) \<and> y = (i, j, k, l')) then None else leaf (snd (pg_store w)) r y)"
        using p(3) leaf_large [OF tree Some idx(1-3,5) _ z] by (simp add: x s same_leaves_def present_def)
    qed
  qed
qed

end

section \<open>The allocator of free runs\<close>

text \<open>The runs that the list of free pages stands for, and their pages.\<close>

fun free_runs :: "page_mem \<Rightarrow> nat \<Rightarrow> (nat \<times> nat) list \<Rightarrow> bool" where
  "free_runs m h [] \<longleftrightarrow> h = 0"
| "free_runs m h ((p, n) # rs) \<longleftrightarrow> h = p \<and> p \<noteq> 0 \<and> 0 < n \<and> unat (m p 1) = n \<and> free_runs m (unat (m p 0)) rs"

definition run_pages :: "nat \<times> nat \<Rightarrow> nat list" where
  "run_pages = (\<lambda>(p, n). map (\<lambda>i. p + 4096 * i) [0..<n])"

definition all_pages :: "(nat \<times> nat) list \<Rightarrow> nat list" where
  "all_pages rs = concat (map run_pages rs)"

definition simple_avail :: "SimplePageAllocator store \<Rightarrow> nat set" where
  "simple_avail = (\<lambda>(a, m). {p. \<exists>rs. free_runs m (sa_free_head a) rs \<and> p \<in> set (all_pages rs)})"

definition simple_inv :: "SimplePageAllocator store \<Rightarrow> bool" where
  "simple_inv = (\<lambda>(a, m). \<exists>rs. free_runs m (sa_free_head a) rs \<and> distinct (all_pages rs) \<and> list_all page_ok (all_pages rs) \<and>
     list_all (\<lambda>(p, n). 1 < n \<longrightarrow> p + 4096 * (n - 1) < sa_max_addr a) rs)"

lemma free_runs_unique: "free_runs m h rs \<Longrightarrow> free_runs m h rs' \<Longrightarrow> rs = rs'"
proof (induction rs arbitrary: h rs')
  case Nil
  then show ?case by (cases rs') auto
next
  case (Cons r rs)
  then show ?case by (cases r; cases rs') auto
qed

lemma simple_avail_eq:
  assumes "free_runs m (sa_free_head a) rs"
  shows "simple_avail (a, m) = set (all_pages rs)"
proof -
  have "rs' = rs" if "free_runs m (sa_free_head a) rs'" for rs' by (rule free_runs_unique [OF that assms])
  then show ?thesis using assms unfolding simple_avail_def by blast
qed

lemma head_page: "0 < n \<Longrightarrow> p \<in> set (run_pages (p, n))"
  by (auto simp: run_pages_def intro!: image_eqI [of _ _ 0])

lemma free_runs_frame: "free_runs m h rs \<Longrightarrow> (\<And>p. p \<in> set (all_pages rs) \<Longrightarrow> m' p = m p) \<Longrightarrow> free_runs m' h rs"
proof (induction rs arbitrary: h)
  case (Cons r rs)
  obtain p n where r: "r = (p, n)" by force
  have "m' p = m p" using Cons.prems head_page [of n p] by (auto simp: r all_pages_def)
  then show ?case using Cons by (auto simp: r all_pages_def)
qed simp

lemma run_pages_Cons: "0 < n \<Longrightarrow> run_pages (p, n) = p # run_pages (p + 4096, n - 1)"
  by (cases n) (simp_all add: run_pages_def map_upt_Suc add.assoc del: upt_Suc)

lemma run_pages_1: "run_pages (p, Suc 0) = [p]"
  by (simp add: run_pages_def)

text \<open>A run that lost its first page.\<close>

definition simple_room :: "SimplePageAllocator store \<Rightarrow> nat" where
  "simple_room s = card (simple_avail s)"

lemma simple_alloc_law:
  assumes "simple_inv s"
  shows "(simple_alloc_page s = Some (None, s) \<and> simple_avail s = {}) \<or>
    (\<exists>p s'. simple_alloc_page s = Some (Some p, s') \<and> simple_inv s' \<and> p \<in> simple_avail s \<and> simple_avail s' = simple_avail s - {p} \<and>
       (\<forall>q. q \<notin> simple_avail s \<longrightarrow> snd s' q = snd s q))"
proof -
  obtain a m where s: "s = (a, m)" by force
  obtain rs where rs: "free_runs m (sa_free_head a) rs" "distinct (all_pages rs)" "list_all page_ok (all_pages rs)"
    "list_all (\<lambda>(p, n). 1 < n \<longrightarrow> p + 4096 * (n - 1) < sa_max_addr a) rs"
    using assms by (auto simp: s simple_inv_def)
  show ?thesis
  proof (cases rs)
    case Nil
    then show ?thesis using rs(1) simple_avail_eq [OF rs(1)] by (simp add: s simple_alloc_page_def all_pages_def)
  next
    case (Cons x rest)
    obtain p n where x: "x = (p, n)" by force
    have f: "sa_free_head a = p" "p \<noteq> 0" "0 < n" "unat (m p 1) = n" "free_runs m (unat (m p 0)) rest" using rs(1) Cons x by auto
    have av: "simple_avail s = set (run_pages (p, n)) \<union> set (all_pages rest)" using simple_avail_eq [OF rs(1)] Cons x by (simp add: s all_pages_def)
    have pin: "p \<in> simple_avail s" using av head_page [OF f(3)] by simp
    have dist: "distinct (run_pages (p, n))" "distinct (all_pages rest)" "set (run_pages (p, n)) \<inter> set (all_pages rest) = {}"
      using rs(2) Cons x by (simp_all add: all_pages_def)
    show ?thesis
    proof (cases "n = 1")
      case True
      let ?s = "(a\<lparr>sa_free_head := unat (m p 0)\<rparr>, m)"
      have "simple_alloc_page s = Some (Some p, ?s)" using f True by (simp add: s simple_alloc_page_def)
      moreover have "simple_inv ?s" using f(5) rs(3,4) dist(2) Cons x by (auto simp: simple_inv_def all_pages_def intro!: exI [of _ rest])
      moreover have "simple_avail ?s = simple_avail s - {p}"
        using simple_avail_eq [of m "a\<lparr>sa_free_head := unat (m p 0)\<rparr>" rest] f(5) av dist(3) True by (auto simp: run_pages_1 s)
      ultimately show ?thesis using pin by (auto simp: s)
    next
      case False
      then have n: "1 < n" using f(3) by simp
      let ?q = "p + 4096"
      have q: "?q \<in> set (run_pages (p, n))" using run_pages_Cons [OF f(3)] head_page [of "n - 1" ?q] n by simp
      have qok: "page_ok ?q" using rs(3) q Cons x by (auto simp: all_pages_def list_all_iff)
      have "p + 4096 * (n - 1) < sa_max_addr a" using rs(4) Cons x n by simp
      moreover have "?q \<le> p + 4096 * (n - 1)" using n by simp
      ultimately have qmax: "?q < sa_max_addr a" by linarith
      let ?m = "write_free_page m ?q (unat (m p 0)) (n - 1)" and ?a = "a\<lparr>sa_free_head := ?q\<rparr>"
      have "n < 2 ^ 64" using f(4) unsigned_less [of "m p 1", where 'a = nat] by simp
      then have w: "unat (?m ?q 1) = n - 1" "unat (?m ?q 0) = unat (m p 0)"
        by (simp_all add: write_free_page_def set_word_def unat_of_nat)
      have out: "?m y = m y" if "y \<noteq> ?q" for y using that by (simp add: write_free_page_def set_word_def)
      have "free_runs ?m (unat (m p 0)) rest" using f(5) by (rule free_runs_frame) (rule out, use q dist(3) in auto)
      then have runs: "free_runs ?m (sa_free_head ?a) ((?q, n - 1) # rest)" using w n by simp
      have pages: "all_pages rs = p # all_pages ((?q, n - 1) # rest)" using Cons x run_pages_Cons [OF f(3), of p] by (simp add: all_pages_def)
      have "add64 p 4096 = Some ?q" "sub64 n 1 = Some (n - 1)" using qok n by (simp_all add: add64_def sub64_def page_ok_def)
      then have "simple_alloc_page s = Some (Some p, ?a, ?m)" using f False qmax by (simp add: s simple_alloc_page_def Let_def)
      moreover have "simple_inv (?a, ?m)"
        using runs rs(2-4) pages Cons x n by (auto simp: simple_inv_def intro!: exI [of _ "(?q, n - 1) # rest"])
      moreover have "simple_avail (?a, ?m) = simple_avail s - {p}"
        using simple_avail_eq [OF runs] simple_avail_eq [OF rs(1)] pages rs(2) by (simp add: s)
      moreover have "\<forall>y. y \<notin> simple_avail s \<longrightarrow> ?m y = m y"
      proof (intro allI impI)
        fix y assume "y \<notin> simple_avail s"
        then show "?m y = m y" using q av by (intro out) auto
      qed
      ultimately show ?thesis using pin by (auto simp: s)
    qed
  qed
qed

lemma simple_free_law:
  assumes "simple_inv s" "p \<notin> simple_avail s" "page_ok p"
  shows "\<exists>s'. simple_free_page p s = Some s' \<and> simple_inv s' \<and> simple_avail s' = insert p (simple_avail s) \<and>
    (\<forall>q. q \<notin> insert p (simple_avail s) \<longrightarrow> snd s' q = snd s q)"
proof -
  obtain a m where s: "s = (a, m)" by force
  obtain rs where rs: "free_runs m (sa_free_head a) rs" "distinct (all_pages rs)" "list_all page_ok (all_pages rs)"
    "list_all (\<lambda>(p, n). 1 < n \<longrightarrow> p + 4096 * (n - 1) < sa_max_addr a) rs"
    using assms(1) by (auto simp: s simple_inv_def)
  have av: "simple_avail s = set (all_pages rs)" using simple_avail_eq [OF rs(1)] by (simp add: s)
  have "sa_free_head a < 2 ^ 64"
  proof (cases rs)
    case (Cons x rest)
    then have "sa_free_head a \<in> set (all_pages rs)" using rs(1) head_page by (cases x) (auto simp: all_pages_def)
    then show ?thesis using rs(3) by (auto simp: list_all_iff page_ok_def)
  qed (use rs(1) in simp)
  then have h: "unat (of_nat (sa_free_head a) :: u64) = sa_free_head a" by (simp add: unat_of_nat)
  let ?m = "write_free_page m p (sa_free_head a) 1" and ?a = "a\<lparr>sa_free_head := p\<rparr>"
  have out: "?m q = m q" if "q \<noteq> p" for q using that by (simp add: write_free_page_def set_word_def)
  have "free_runs ?m (sa_free_head a) rs" using rs(1) by (rule free_runs_frame) (rule out, use assms(2) av in auto)
  then have runs: "free_runs ?m (sa_free_head ?a) ((p, 1) # rs)"
    using h assms(3) by (simp add: write_free_page_def set_word_def page_ok_def DIRECT_MAPPING_OFFSET_def)
  have pages: "all_pages ((p, 1) # rs) = p # all_pages rs" by (simp add: all_pages_def run_pages_1)
  have "p AND 0xFFF = p mod 4096"
  proof -
    have "p AND mask 12 = p mod 4096" unfolding take_bit_eq_mask [symmetric] by (simp add: take_bit_eq_mod)
    then show ?thesis by (simp add: mask_eq_exp_minus_1)
  qed
  then have "simple_free_page p s = Some (?a, ?m)" using assms(3) by (simp add: s simple_free_page_def page_ok_def)
  moreover have "simple_inv (?a, ?m)"
    unfolding simple_inv_def prod.case by (rule exI [of _ "(p, 1) # rs"]) (use runs rs(2-4) pages assms(2,3) av in auto)
  moreover have "simple_avail (?a, ?m) = insert p (simple_avail s)" using simple_avail_eq [OF runs] pages av by simp
  ultimately show ?thesis using out by (auto simp: s)
qed

lemma simple_avail_pages: "simple_inv s \<Longrightarrow> finite (simple_avail s) \<and> (\<forall>p \<in> simple_avail s. page_ok p)"
  using simple_avail_eq by (cases s) (auto simp: simple_inv_def list_all_iff)

interpretation sp: table_allocator simple_pages simple_avail simple_room simple_inv
proof unfold_locales
  fix s :: "SimplePageAllocator store" assume inv: "simple_inv s"
  have "simple_room s = Suc (simple_room s')" if "p \<in> simple_avail s" "simple_avail s' = simple_avail s - {p}" for p s'
    using that simple_avail_pages [OF inv] card.remove [of "simple_avail s" p] by (simp add: simple_room_def)
  then show "(pa_alloc simple_pages s = Some (None, s) \<and> simple_room s = 0) \<or> (\<exists>p s'. pa_alloc simple_pages s = Some (Some p, s') \<and> simple_inv s' \<and>
      page_ok p \<and> p \<in> simple_avail s \<and> simple_avail s' = simple_avail s - {p} \<and> simple_room s = Suc (simple_room s') \<and>
      (\<forall>q. q \<notin> simple_avail s \<longrightarrow> snd s' q = snd s q))"
    using simple_alloc_law [OF inv] simple_avail_pages [OF inv] by (fastforce simp: simple_pages_def simple_room_def)
next
  fix a :: SimplePageAllocator and m m' :: page_mem
  assume a: "simple_inv (a, m)" "\<And>q. q \<in> simple_avail (a, m) \<Longrightarrow> m' q = m q"
  obtain rs where rs: "free_runs m (sa_free_head a) rs" "distinct (all_pages rs)" "list_all page_ok (all_pages rs)"
    "list_all (\<lambda>(p, n). 1 < n \<longrightarrow> p + 4096 * (n - 1) < sa_max_addr a) rs"
    using a(1) by (auto simp: simple_inv_def)
  have "free_runs m' (sa_free_head a) rs" using rs(1) by (rule free_runs_frame) (use a(2) simple_avail_eq [OF rs(1)] in auto)
  then show "simple_inv (a, m') \<and> simple_avail (a, m') = simple_avail (a, m) \<and> simple_room (a, m') = simple_room (a, m)"
    using rs simple_avail_eq by (auto simp: simple_inv_def simple_room_def)
next
  fix s p assume "simple_inv s" "p \<notin> simple_avail s" "page_ok p"
  then show "\<exists>s'. pa_free simple_pages p s = Some s' \<and> simple_inv s' \<and> simple_avail s' = insert p (simple_avail s) \<and>
      (\<forall>q. q \<notin> insert p (simple_avail s) \<longrightarrow> snd s' q = snd s q)"
    using simple_free_law by (simp add: simple_pages_def)
qed

section \<open>Properties\<close>

text \<open>The entry of a small page with its flags.\<close>

lemma page_entry:
  assumes "phys mod 4096 = 0" "phys < 2 ^ 52" "flags AND ADDR_MASK = 0" "flags AND PAGE_PRESENT \<noteq> 0"
  shows "unat ((of_nat phys OR flags) AND ADDR_MASK) = phys" "present (of_nat phys OR flags)"
proof -
  have "(of_nat phys OR flags) AND ADDR_MASK = of_nat phys"
    using page_word_mask [OF assms(1,2)] assms(3) by (simp add: bit.conj_disj_distrib2)
  then show "unat ((of_nat phys OR flags) AND ADDR_MASK) = phys" using assms(2) by (simp add: unat_of_nat)
  have "odd flags" using assms(4) by (auto simp: and_one_eq odd_iff_mod_2_eq_one)
  then have "odd (of_nat phys OR flags)" by (simp add: even_or_iff)
  then show "present (of_nat phys OR flags)" by (simp add: present_def and_one_eq odd_iff_mod_2_eq_one)
qed

lemma align_down_any: "p < 2 ^ 64 \<Longrightarrow> align_down p PAGE_SIZE = Some (p - p mod 4096)"
  using and_high_mask [of p 12]
  by (simp add: align_down_def sub64_def PAGE_SIZE_def minus_mod_eq_mult_div)

text \<open>What an operation that succeeded has invalidated.\<close>

lemma map_4kb_tlb:
  "map_4kb ops t virt phys flags inval w = Some (res, w') \<Longrightarrow>
     pg_tlb w' = (if res = Some () \<and> inval then pg_tlb w @ [Invlpg virt] else pg_tlb w)"
  by (auto simp: map_4kb_def pio_none_def pio_some_def pio_bind_def on_store_def invlpg_def Let_def
      split: if_splits prod.splits option.splits)

lemma unmap_4kb_tlb:
  "unmap_4kb ops t virt inval w = Some (res, w') \<Longrightarrow>
     pg_tlb w' = (if res = Some () \<and> inval then pg_tlb w @ [Invlpg virt] else pg_tlb w)"
  by (auto simp: unmap_4kb_def pio_none_def pio_some_def pio_bind_def on_store_def invlpg_def Let_def
      split: if_splits prod.splits option.splits)

text \<open>
  C23: On a page table whose tables form a well-formed tree, over any allocator that keeps the
  contract table_allocator (the allocator of free runs and the kernel heap do), for the
  addresses below the first N entries of the root: mapping any physical address below 2^52,
  which is rounded down to its page, with flags that contain the present bit and no address
  bits never panics and keeps the tree well formed. When it succeeds every address of that 4
  KiB page translates into the physical page and all other addresses translate as before; when
  it fails every address translates as before, and the page table is read-only, the allocator
  has no page left or the page lies in a 2 MiB page. The TLB entry is invalidated exactly when
  the mapping succeeds and the invalidation was asked for; through a read-only page table the
  call fails and changes nothing.
\<close>

theorem paging_map_translate:
  assumes alloc: "table_allocator ops avail room ok" and tree: "page_tree_of N avail ok (pg_store w) r"
    and t: "root_table t = Some r" "in_half N virt"
    and phys: "phys < 2 ^ 52" and flags: "flags AND ADDR_MASK = 0" "flags AND PAGE_PRESENT \<noteq> 0"
  shows "\<exists>res w'. map_4kb ops t virt phys flags inval w = Some (res, w') \<and> page_tree_of N avail ok (pg_store w') r \<and>
    (\<forall>v. in_half N v \<longrightarrow> map_option fst (translate ops t v (pg_store w')) =
       (if res = Some () \<and> v div 4096 mod 2 ^ 36 = virt div 4096 mod 2 ^ 36 then Some (Some (phys - phys mod 4096 + v mod 4096))
        else map_option fst (translate ops t v (pg_store w)))) \<and>
    pg_tlb w' = (if res = Some () \<and> inval then pg_tlb w @ [Invlpg virt] else pg_tlb w) \<and>
    (pt_readonly t \<longrightarrow> res = None \<and> w' = w) \<and>
    (res = None \<longrightarrow> pt_readonly t \<or> room (pg_store w') = 0 \<or>
       (\<exists>e. leaf (snd (pg_store w)) r (split_virt_addr virt) = Some (True, e)))"
proof (cases "pt_readonly t")
  case True
  then show ?thesis using tree by (simp add: map_4kb_def pio_none_def)
next
  case rw: False
  let ?base = "phys - phys mod 4096"
  have base: "?base mod 4096 = 0" "?base < 2 ^ 52" "align_down phys PAGE_SIZE = Some ?base"
    using phys align_down_any [of phys] by (simp_all add: minus_mod_eq_mult_div)
  note e = page_entry [OF base(1,2) flags]
  obtain res w' where m: "map_4kb ops t virt phys flags inval w = Some (res, w')" "page_tree_of N avail ok (pg_store w') r"
    "\<forall>x. index4 N x \<longrightarrow> leaf (snd (pg_store w')) r x = (if res \<noteq> None \<and> x = split_virt_addr virt
       then if present (of_nat ?base OR flags) then Some (False, of_nat ?base OR flags) else None else leaf (snd (pg_store w)) r x)"
    "res = None \<longrightarrow> room (pg_store w') = 0 \<or> (\<exists>e. leaf (snd (pg_store w)) r (split_virt_addr virt) = Some (True, e))"
    by (rule table_allocator.map_4kb_ok [OF alloc tree t(1) rw t(2) base(3)])
  have tr: "translate ops t v (pg_store w) = Some (translation (snd (pg_store w)) r v, pg_store w)"
    "translate ops t v (pg_store w') = Some (translation (snd (pg_store w')) r v, pg_store w')" if "in_half N v" for v
    by (rule table_allocator.translate_eq [OF alloc tree t(1) that], rule table_allocator.translate_eq [OF alloc m(2) t(1) that])
  have "translation (snd (pg_store w')) r v = (if res = Some () \<and> v div 4096 mod 2 ^ 36 = virt div 4096 mod 2 ^ 36
      then Some (?base + v mod 4096) else translation (snd (pg_store w)) r v)" if "in_half N v" for v
    using m(3) [rule_format, OF index4_split [OF that]] e(1,2) unfolding split_same_page [symmetric]
    by (cases res) (simp_all add: translation_def PAGE_SIZE_def)
  then show ?thesis using m(1,2,4) tr rw map_4kb_tlb [OF m(1)] by auto
qed


text \<open>An empty page table with eight free pages behind it, for the witnesses.\<close>

definition demo_paging :: "SimplePageAllocator PagingWorld" where
  "demo_paging = \<lparr>pg_store = (\<lparr>sa_min_addr = DIRECT_MAPPING_OFFSET + 0x1000, sa_max_addr = DIRECT_MAPPING_OFFSET + 0xA000,
       sa_free_head = DIRECT_MAPPING_OFFSET + 0x2000\<rparr>, write_free_page (\<lambda>_ _. 0) (DIRECT_MAPPING_OFFSET + 0x2000) 0 8), pg_cr3 = 0, pg_tlb = []\<rparr>"

lemma demo_paging_tree: "page_tree_of N simple_avail simple_inv (pg_store demo_paging) (DIRECT_MAPPING_OFFSET + 0x1000)"
  "root_table (new_with_alloc 0x1000) = Some (DIRECT_MAPPING_OFFSET + 0x1000)"
proof -
  let ?r = "DIRECT_MAPPING_OFFSET + 0x1000" and ?p = "DIRECT_MAPPING_OFFSET + 0x2000"
  let ?m = "write_free_page (\<lambda>_ _. 0) ?p 0 8" and ?a = "fst (pg_store demo_paging)"
  have runs: "free_runs ?m (sa_free_head ?a) [(?p, 8)]"
    by (simp add: demo_paging_def write_free_page_def set_word_def DIRECT_MAPPING_OFFSET_def)
  have pages: "all_pages [(?p, 8)] = map (\<lambda>i. ?p + 4096 * i) [0..<8]" by (simp add: all_pages_def run_pages_def)
  have ok: "page_ok (?p + 4096 * i)" if "i < 8" for i
    using that by (simp add: page_ok_def DIRECT_MAPPING_OFFSET_def mod_add_eq [symmetric])
  have inv: "simple_inv (?a, ?m)"
    unfolding simple_inv_def prod.case
    by (rule exI [of _ "[(?p, 8)]"]) (use runs pages ok in \<open>auto simp: list_all_iff distinct_map inj_on_def demo_paging_def\<close>)
  have av: "simple_avail (?a, ?m) = (\<lambda>i. ?p + 4096 * i) ` {0..<8}" using simple_avail_eq [OF runs] pages by simp
  have zero: "?m ?r n = 0" for n by (simp add: write_free_page_def set_word_def)
  have root: "table_at ?m ?r [] = Some ?r" by simp
  have only: "table_at ?m ?r xs = Some p \<Longrightarrow> xs = [] \<and> p = ?r" if "indices N xs" for xs p
    using empty_table_below [OF root zero, of xs] that by (cases "xs = []") auto
  have "tree_ok N ?m ?r (simple_avail (?a, ?m))"
    unfolding tree_ok_def using only av by (auto simp: page_ok_def DIRECT_MAPPING_OFFSET_def dest: only)
  moreover have "pg_store demo_paging = (?a, ?m)" by (simp add: demo_paging_def)
  ultimately show "page_tree_of N simple_avail simple_inv (pg_store demo_paging) ?r" using inv unfolding page_tree_of_def by (metis snd_conv)
  show "root_table (new_with_alloc 0x1000) = Some ?r"
    by (simp add: root_table_def new_with_alloc_def add64_def DIRECT_MAPPING_OFFSET_def)
qed

lemmas paging_run = map_4kb_def unmap_4kb_def split_virt_addr_def walk_pd_def get_table_def pio_bind_def pio_panics_def pio_some_def pio_none_def
  on_store_def simple_pages_def simple_alloc_page_def table_flags_def new_with_alloc_def root_table_def entry_target_def set_entry_def
  present_def set_word_def zero_page_def write_free_page_def invlpg_def add64_def sub64_def align_down_def

lemma demo_map: "map_option fst (map_4kb simple_pages (new_with_alloc 0x1000) 0x400000 0x7000 (PAGE_PRESENT OR PAGE_RW) True demo_paging) = Some (Some ())"
  by (simp add: paging_run demo_paging_def DIRECT_MAPPING_OFFSET_def PAGE_SIZE_def)

theorem paging_map_translate_witness:
  "\<exists>w'. map_4kb simple_pages (new_with_alloc 0x1000) 0x400000 0x7000 (PAGE_PRESENT OR PAGE_RW) True demo_paging = Some (Some (), w') \<and>
     map_option fst (translate simple_pages (new_with_alloc 0x1000) 0x400123 (pg_store w')) = Some (Some 0x7123)"
proof -
  have "(0x7000 :: nat) < 2 ^ 52"
    "(PAGE_PRESENT OR PAGE_RW) AND ADDR_MASK = 0" "(PAGE_PRESENT OR PAGE_RW) AND PAGE_PRESENT \<noteq> 0" by simp_all
  from paging_map_translate [OF sp.table_allocator_axioms demo_paging_tree in_half_all [of "0x400000"] this, where inval = True]
  show ?thesis using demo_map by (auto dest: spec [of _ "0x400123"])
qed


section \<open>Behaviour to know about\<close>

text \<open>\<^verbatim>\<open>map_memory\<close> on a range that holds no boundary of 2 MiB: the number of large pages is computed as a negative difference.\<close>

lemma map_memory_small_range_panics:
  assumes "\<not> pt_readonly t"
  shows "map_memory ops t 0x1000 0x1000 virt_offset flags inval w = None"
  using assms by (simp add: map_memory_def pio_bind_def pio_panics_def align_up_def align_down_def MB2_def KB4_def add64_def sub64_def)

text \<open>The iterator, after an absent last entry of a third-level table with an odd index, goes back to the start of that table.\<close>

lemma iterator_steps_back:
  assumes "odd i"
  shows "skip_pdpt i 511 = join_virt_addr i 0 0 0 0"
proof -
  have "push_bit 39 i OR push_bit 30 512 = push_bit 39 i"
  proof (rule bit_eqI)
    fix n
    have "push_bit 30 512 = (push_bit 39 1 :: nat)" by simp
    then have "bit (push_bit 30 512 :: nat) n \<longleftrightarrow> n = 39" by (simp only: bit_push_bit_iff_nat bit_1_iff) auto
    moreover have "bit (push_bit 39 i) 39" using assms by (simp only: bit_push_bit_iff_nat) (simp add: bit_0)
    ultimately show "bit (push_bit 39 i OR push_bit 30 512) n = bit (push_bit 39 i) n" by (auto simp only: bit_or_iff)
  qed
  then show ?thesis by (simp add: skip_pdpt_def join_virt_addr_def)
qed

end
