(* ===== verification/Paging_Kernel.thy ===== *)
theory Paging_Kernel
  imports Paging_Map
begin

text \<open>
  The kernel heap as the allocator of page tables: \<^verbatim>\<open>KernelPageTablesAllocator\<close> of \<^verbatim>\<open>paging.rs\<close>
  meets the contract \<open>table_allocator\<close>, so what is proved about page tables holds for the tables
  of processes. The pages the heap has handed out as single pages are those whose byte of the
  order table is 0.
\<close>

definition kernel_held :: "ExtendedBuddyPageAllocator \<Rightarrow> nat set" where
  "kernel_held x = {p. p \<noteq> orders x \<and> (\<exists>i < page_count (allocator x). p = base_addr (allocator x) + PAGE_SIZE * i \<and> bytes x (orders x + i) = 0)}"

definition kernel_avail :: "main_allocator store \<Rightarrow> nat set" where
  "kernel_avail = (\<lambda>(g, m). case g of None \<Rightarrow> UNIV | Some x \<Rightarrow> - kernel_held x)"

definition kernel_room :: "main_allocator store \<Rightarrow> nat" where
  "kernel_room = (\<lambda>(g, m). case g of None \<Rightarrow> 0 | Some x \<Rightarrow> managed (allocator x) - allocated_pages (allocator x))"

definition kernel_inv :: "main_allocator store \<Rightarrow> bool" where
  "kernel_inv = (\<lambda>(g, m). case g of None \<Rightarrow> False | Some x \<Rightarrow> DIRECT_MAPPING_OFFSET \<le> base_addr (allocator x) \<and> (\<exists>V. ext_inv x V))"

lemma kernel_held_iff:
  assumes "ext_inv x V"
  shows "p \<in> kernel_held x \<longleftrightarrow> (p, 0) \<in> V"
proof -
  obtain k0 where k0: "(orders x, k0) \<notin> V" "alloc_inv (allocator x) (insert (orders x, k0) V)" "table_ok x (insert (orders x, k0) V)"
    using assms unfolding ext_inv_def by blast
  show ?thesis
  proof
    assume "p \<in> kernel_held x"
    then obtain i where i: "p \<noteq> orders x" "i < page_count (allocator x)" "p = base_addr (allocator x) + PAGE_SIZE * i" "bytes x (orders x + i) = 0"
      by (auto simp: kernel_held_def)
    then obtain k where k: "(p, k) \<in> insert (orders x, k0) V" using k0(3) unfolding table_ok_def by fastforce
    then have "bytes x (orders x + i) = of_nat k" using k0(3) unfolding table_ok_def i(3) by (elim conjE allE) (erule (1) mp)
    moreover have "k \<le> MAX_ORDER" using alloc_inv_page [OF k0(2) k] by blast
    ultimately have "k = 0" using order_byte [of k] i(4) by simp
    then show "(p, 0) \<in> V" using k i(1) by simp
  next
    assume p: "(p, 0) \<in> V"
    obtain i where i: "p = base_addr (allocator x) + PAGE_SIZE * i" "i < page_count (allocator x)"
      using alloc_inv_page [OF k0(2), of p 0] p by blast
    have "p \<noteq> orders x" using alloc_inv_same_addr [OF k0(2), of p 0 k0] p k0(1) by auto
    moreover have "bytes x (orders x + i) = 0" using k0(3) i(1) p unfolding table_ok_def by force
    ultimately show "p \<in> kernel_held x" using i by (auto simp: kernel_held_def)
  qed
qed

text \<open>Pages the heap still has, and that a request for one page fails only without any.\<close>

lemma full_when_refused:
  assumes "alloc_inv s V" "buddy_alloc s 1 = Some (None, s')"
  shows "managed s = allocated_pages s"
proof (rule buddy_alloc_cases [OF assms(1), of 1])
  fix U assume U: "buddy_inv s U" and r: "1 = (0::nat) \<or> no_free_run s U 1"
  obtain L where L: "buddy_ok s L U" "allocated_pages s = block_pages U" using U by (auto simp: buddy_inv_def)
  have t: "tiling (managed s) (FB L \<union> U)" "FB L \<inter> U = {}" using L(1) by (simp_all add: buddy_ok_def)
  have "FB L = {}"
  proof (rule equals0I)
    fix b assume b: "b \<in> FB L"
    obtain q k where qk: "b = (q, k)" by force
    have "q * 2 ^ k + 1 \<le> q * 2 ^ k + 2 ^ k" by simp
    moreover have "q * 2 ^ k + 2 ^ k \<le> managed s" using tiling_bound [OF t(1), of q k] b qk by (simp add: add.commute)
    ultimately have bd: "(q * 2 ^ k + 1) * 2 ^ 0 \<le> managed s" by (simp only: power_0 mult_1_right)
    then obtain c p where c: "c \<in> U" "covers (q * 2 ^ k, 0) p" "covers c p" using r unfolding no_free_run_def by fastforce
    then have "covers b p" by (auto simp: covers_def qk)
    then have "b = c" using tiling_unique [OF t(1), of b c p] b c by blast
    then show False using t(2) b c(1) by blast
  qed
  then show ?thesis using buddy_ok_accounts [OF L(1)] L(2) by (simp add: block_pages_def)
next
  fix q k s1 assume "buddy_alloc s 1 = Some (Some (baddr s k q, k), s1)"
  then show ?thesis using assms(2) by simp
qed simp

lemma alloc_inv_finite: "alloc_inv s V \<Longrightarrow> finite V"
  unfolding alloc_inv_def buddy_inv_def buddy_ok_def using tiling_finite by blast

lemma kernel_held_page:
  assumes "ext_inv x V" "DIRECT_MAPPING_OFFSET \<le> base_addr (allocator x)" "(p, k) \<in> V"
  shows "page_ok p"
proof -
  obtain k0 where "alloc_inv (allocator x) (insert (orders x, k0) V)" using assms(1) unfolding ext_inv_def by blast
  then have "addr_span (p, k) \<subseteq> {base_addr (allocator x) ..< base_addr (allocator x) + page_count (allocator x) * PAGE_SIZE}" "layout_ok (allocator x)"
    using alloc_inv_range [of _ _ p k] assms(3) alloc_inv_region by blast+
  moreover have "p \<in> addr_span (p, k)" by (simp add: addr_span_def PAGE_SIZE_def)
  ultimately have "base_addr (allocator x) \<le> p" "p < 2 ^ 64" by (auto simp: layout_ok_def)
  then show ?thesis using ext_alloc_aligned [OF assms(1,3)] assms(2) by (simp add: page_ok_def PAGE_SIZE_def)
qed

lemma kernel_alloc_law:
  assumes "kernel_inv s"
  shows "(kernel_alloc_page s = Some (None, s) \<and> kernel_room s = 0) \<or>
    (\<exists>p s'. kernel_alloc_page s = Some (Some p, s') \<and> kernel_inv s' \<and> page_ok p \<and> p \<in> kernel_avail s \<and> kernel_avail s' = kernel_avail s - {p} \<and>
       kernel_room s = Suc (kernel_room s') \<and> snd s' = snd s)"
proof -
  obtain x m V where s: "s = (Some x, m)" and x: "ext_inv x V" and base: "DIRECT_MAPPING_OFFSET \<le> base_addr (allocator x)"
    using assms by (auto simp: kernel_inv_def split: option.splits)
  obtain k0 where k0: "(orders x, k0) \<notin> V" "alloc_inv (allocator x) (insert (orders x, k0) V)"
    using x unfolding ext_inv_def by blast
  have one: "div_ceil 4096 PAGE_SIZE = 1" by (simp add: div_ceil_def PAGE_SIZE_def)
  have "(4096 :: nat) < 2 ^ 64" by simp
  from ext_alloc_inv [OF x this] show ?thesis
  proof (rule disjE; elim exE conjE)
    assume e: "ext_alloc x 4096 = Some (None, x)"
    obtain r b1 where r: "buddy_alloc (allocator x) 1 = Some (r, b1)" using e by (auto simp: ext_alloc_def one)
    have "r = None" using e r by (cases r) (auto simp: ext_alloc_def one)
    then have "buddy_alloc (allocator x) 1 = Some (None, b1)" using r by simp
    then have "kernel_room s = 0" using full_when_refused [OF k0(2)] by (simp add: kernel_room_def s)
    then show ?thesis using e by (simp add: kernel_alloc_page_def s global_alloc_def page_layout_def)
  next
    fix a k x' assume e: "ext_alloc x 4096 = Some (Some a, x')" "(a, k) \<notin> V" "ext_inv x' (insert (a, k) V)"
      "\<forall>j < k. 2 ^ j < div_ceil 4096 PAGE_SIZE" "page_count (allocator x') = page_count (allocator x)" "base_addr (allocator x') = base_addr (allocator x)"
    have k: "k = 0" using e(4) one by (metis gr_zeroI less_one nat_power_eq_Suc_0_iff not_less_iff_gr_or_eq power_0)
    obtain r b1 where r: "buddy_alloc (allocator x) 1 = Some (r, b1)" using e(1) by (auto simp: ext_alloc_def one)
    obtain o1 where b1: "buddy_alloc (allocator x) 1 = Some (Some (a, o1), b1)" "allocator x' = b1"
      using e(1) r by (cases r) (auto simp: ext_alloc_def one mark_used_def)
    note S = buddy_alloc_Some [OF k0(2) b1(1)]
    have o1: "o1 = 0" using S by (metis gr_zeroI less_irrefl power_0)
    let ?B = "insert (orders x, k0) V"
    have "alloc_inv b1 (insert (a, 0) ?B)" "(a, 0) \<notin> ?B" using S by (simp_all add: o1)
    from alloc_inv_accounts [OF this(1)] this(2) have "allocated_pages b1 = Suc (allocated_pages (allocator x))"
      unfolding alloc_inv_accounts [OF k0(2)] using alloc_inv_finite [OF k0(2)] by (simp only: sum.insert) simp
    moreover have "managed b1 = managed (allocator x)" using S by (simp add: managed_def)
    moreover have "allocated_pages b1 \<le> managed b1" using S alloc_inv_bound by blast
    ultimately have room: "kernel_room s = Suc (kernel_room (Some x', m))" by (simp add: kernel_room_def s b1(2))
    have a: "(a, 0) \<in> insert (a, k) V" using k by simp
    have al: "0 < a" "PAGE_SIZE dvd a" using ext_alloc_aligned [OF e(3) a] by auto
    have "page_ok a" using kernel_held_page [OF e(3) _ a] e(6) base by simp
    moreover have "kernel_held x' = insert a (kernel_held x)"
      using kernel_held_iff [OF e(3)] kernel_held_iff [OF x] by (auto simp: k)
    moreover have "a \<notin> kernel_held x" using kernel_held_iff [OF x] e(2) k by simp
    moreover have "kernel_inv (Some x', m)" using base e(3,6) by (auto simp: kernel_inv_def)
    moreover have "kernel_alloc_page s = Some (Some a, Some x', m)"
      using e(1) al by (simp add: kernel_alloc_page_def s global_alloc_def page_layout_def)
    ultimately show ?thesis using room by (auto simp: s kernel_avail_def)
  qed
qed

lemma kernel_free_law:
  assumes "kernel_inv s" "p \<notin> kernel_avail s"
  shows "\<exists>s'. kernel_free_page p s = Some s' \<and> kernel_inv s' \<and> kernel_avail s' = insert p (kernel_avail s) \<and> snd s' = snd s"
proof -
  obtain x m V where s: "s = (Some x, m)" and x: "ext_inv x V" and base: "DIRECT_MAPPING_OFFSET \<le> base_addr (allocator x)"
    using assms(1) by (auto simp: kernel_inv_def split: option.splits)
  have p: "(p, 0) \<in> V" using assms(2) kernel_held_iff [OF x] by (simp add: kernel_avail_def s)
  obtain x' where x': "ext_free x p = Some x'" "ext_inv x' (V - {(p, 0)})" "base_addr (allocator x') = base_addr (allocator x)"
    using ext_free_inv [OF x p] by blast
  have "kernel_free_page p s = Some (Some x', m)"
    using x'(1) by (simp add: kernel_free_page_def s global_dealloc_def page_layout_def)
  moreover have "kernel_held x' = kernel_held x - {p}" using kernel_held_iff [OF x] kernel_held_iff [OF x'(2)] by auto
  moreover have "kernel_inv (Some x', m)" using base x'(2,3) by (auto simp: kernel_inv_def)
  ultimately show ?thesis by (auto simp: s kernel_avail_def)
qed

interpretation kp: table_allocator kernel_pages kernel_avail kernel_room kernel_inv
proof unfold_locales
  show "pa_alloc kernel_pages s = Some (None, s) \<and> kernel_room s = 0 \<or>
      (\<exists>p s'. pa_alloc kernel_pages s = Some (Some p, s') \<and> kernel_inv s' \<and> page_ok p \<and> p \<in> kernel_avail s \<and> kernel_avail s' = kernel_avail s - {p} \<and>
         kernel_room s = Suc (kernel_room s') \<and> (\<forall>q. q \<notin> kernel_avail s \<longrightarrow> snd s' q = snd s q))" if "kernel_inv s" for s
    using kernel_alloc_law [OF that] by (auto simp: kernel_pages_def)
  show "\<exists>s'. pa_free kernel_pages p s = Some s' \<and> kernel_inv s' \<and> kernel_avail s' = insert p (kernel_avail s) \<and>
      (\<forall>q. q \<notin> insert p (kernel_avail s) \<longrightarrow> snd s' q = snd s q)" if "kernel_inv s" "p \<notin> kernel_avail s" "page_ok p" for s p
    using kernel_free_law [OF that(1,2)] by (auto simp: kernel_pages_def)
qed (auto simp: kernel_inv_def kernel_avail_def kernel_room_def split: option.splits)

section \<open>Pages set aside\<close>

text \<open>Pages that a client holds and that are neither free nor tables can be kept out of the tables.\<close>

context table_allocator
begin

lemma set_aside: "table_allocator ops (\<lambda>s. avail s \<union> B) room (\<lambda>s. inv s \<and> avail s \<inter> B = {})"
proof unfold_locales
  fix s assume s: "inv s \<and> avail s \<inter> B = {}"
  consider "pa_alloc ops s = Some (None, s)" "room s = 0"
    | p s' where "pa_alloc ops s = Some (Some p, s')" "inv s'" "page_ok p" "p \<in> avail s" "avail s' = avail s - {p}" "room s = Suc (room s')"
      "\<forall>q. q \<notin> avail s \<longrightarrow> snd s' q = snd s q"
    using alloc_law [OF conjunct1 [OF s]] by metis
  then show "pa_alloc ops s = Some (None, s) \<and> room s = 0 \<or>
      (\<exists>p s'. pa_alloc ops s = Some (Some p, s') \<and> (inv s' \<and> avail s' \<inter> B = {}) \<and> page_ok p \<and> p \<in> avail s \<union> B \<and>
         avail s' \<union> B = avail s \<union> B - {p} \<and> room s = Suc (room s') \<and> (\<forall>q. q \<notin> avail s \<union> B \<longrightarrow> snd s' q = snd s q))"
  proof cases
    case (2 p s')
    then show ?thesis using s by (intro disjI2 exI [of _ p] exI [of _ s']) auto
  qed simp
next
  fix s p assume s: "inv s \<and> avail s \<inter> B = {}" and p: "p \<notin> avail s \<union> B" "page_ok p"
  obtain s' where "pa_free ops p s = Some s'" "inv s'" "avail s' = insert p (avail s)" "\<forall>q. q \<notin> insert p (avail s) \<longrightarrow> snd s' q = snd s q"
    using free_law [of s p] s p by auto
  then show "\<exists>s'. pa_free ops p s = Some s' \<and> (inv s' \<and> avail s' \<inter> B = {}) \<and> avail s' \<union> B = insert p (avail s \<union> B) \<and>
      (\<forall>q. q \<notin> insert p (avail s \<union> B) \<longrightarrow> snd s' q = snd s q)"
    using s p by (intro exI [of _ s']) auto
next
  fix a m m' assume "inv (a, m) \<and> avail (a, m) \<inter> B = {}" "\<And>q. q \<in> avail (a, m) \<union> B \<Longrightarrow> m' q = m q"
  then show "(inv (a, m') \<and> avail (a, m') \<inter> B = {}) \<and> avail (a, m') \<union> B = avail (a, m) \<union> B \<and> room (a, m') = room (a, m)"
    using frame_law [of a m m'] by auto
qed

end

definition box_avail :: "nat set \<Rightarrow> main_allocator store \<Rightarrow> nat set" where
  "box_avail B s = kernel_avail s \<union> B"

definition box_inv :: "nat set \<Rightarrow> main_allocator store \<Rightarrow> bool" where
  "box_inv B s \<longleftrightarrow> kernel_inv s \<and> kernel_avail s \<inter> B = {}"

interpretation kb: table_allocator kernel_pages "box_avail B" kernel_room "box_inv B" for B
  unfolding box_avail_def [abs_def] box_inv_def [abs_def] by (rule kp.set_aside)

end
