(* ===== verification/Process_Memory.thy ===== *)
theory Process_Memory
  imports Paging_Kernel
begin

text \<open>
  The memory of a process: \<^verbatim>\<open>process/memory.rs\<close>, the code pages of \<^verbatim>\<open>process/proc.rs\<close> and the
  buffers of \<^verbatim>\<open>data/mod.rs\<close>. A buffer is a block of the kernel heap with its bytes; the page
  tables of processes take their pages from the same heap. What a process sees at an address is
  the byte of the buffer that the address translates to.
\<close>

section \<open>Buffers\<close>

type_synonym kernel = "main_allocator PagingWorld"

record Box =
  bx_ptr :: nat
  bx_bytes :: "u8 list"

definition byte_array :: "nat \<Rightarrow> Layout" where
  "byte_array n = \<lparr>layout_size = n, layout_align = 1\<rparr>"

text \<open>\<^verbatim>\<open>alloc_boxed_slice::<u8>\<close>: \<^verbatim>\<open>Layout::array\<close> refuses more than \<^verbatim>\<open>isize::MAX\<close> bytes; \<open>uninit\<close> is what the memory held.\<close>

definition alloc_box :: "u8 list \<Rightarrow> nat \<Rightarrow> kernel \<Rightarrow> (Box \<times> kernel) panics" where
  "alloc_box uninit n w = do {
     _ \<leftarrow> assert_rust (max n 1 < 2 ^ 63);
     (p, g) \<leftarrow> global_alloc (fst (pg_store w)) (byte_array (max n 1));
     if p = 0 then None
     else Some (\<lparr>bx_ptr = p, bx_bytes = alloc_boxed_slice uninit n\<rparr>, w\<lparr>pg_store := (g, snd (pg_store w))\<rparr>)
   }"

definition calloc_box :: "nat \<Rightarrow> kernel \<Rightarrow> (Box \<times> kernel) panics" where
  "calloc_box n w = do {
     (b, w') \<leftarrow> alloc_box [] n w;
     Some (b\<lparr>bx_bytes := replicate n 0\<rparr>, w')
   }"

text \<open>A buffer that goes out of scope; one without bytes is not given back.\<close>

definition drop_box :: "Box \<Rightarrow> kernel \<Rightarrow> kernel panics" where
  "drop_box b w =
     (if bx_bytes b = [] then Some w
      else do {
        g \<leftarrow> global_dealloc (fst (pg_store w)) (bx_ptr b) (byte_array (length (bx_bytes b)));
        Some (w\<lparr>pg_store := (g, snd (pg_store w))\<rparr>)
      })"

section \<open>Address spaces\<close>

datatype HigherHalfAddressSpace = GlobalKernelMappedCode | GlobalKernelStack | GlobalDirectMemoryMapping | GlobalMemoryMappedIo | ProcessKernelStack | HigherNone

datatype LowerHalfAddressSpace = ProcessStack | ProcessCode | ProcessHeapSpace | LowerNone

datatype VirtualAddressSpace = HigherHalf HigherHalfAddressSpace | LowerHalf LowerHalfAddressSpace

definition PROC_KERNEL_STACK_TOP :: nat where "PROC_KERNEL_STACK_TOP = 0xFFFFD00000000000"
definition GLOB_KERNEL_MMIO_TOP :: nat where "GLOB_KERNEL_MMIO_TOP = 0xFFFFC00000000000"
definition GLOB_KERNEL_DIRECT_MAPPED_TOP :: nat where "GLOB_KERNEL_DIRECT_MAPPED_TOP = DIRECT_MAPPING_OFFSET + 0x0000100000000000"
definition GLOB_KERNEL_STACK_TOP :: nat where "GLOB_KERNEL_STACK_TOP = 0xFFFFA00000000000"
definition GLOB_KERNEL_CODE_TOP :: nat where "GLOB_KERNEL_CODE_TOP = 0xFFFF900000000000"
definition HIGHER_HALF_BEGIN :: nat where "HIGHER_HALF_BEGIN = 0xFFFF800000000000"
definition LOWER_HALF_END :: nat where "LOWER_HALF_END = 0x0000800000000000"
definition LOWER_HALF_SAFEGUARD_END :: nat where "LOWER_HALF_SAFEGUARD_END = 0x0000100000000000"
definition PROC_USER_STACK_TOP :: nat where "PROC_USER_STACK_TOP = 0x0000200000000000"
definition PROC_MAPPED_CODE_TOP :: nat where "PROC_MAPPED_CODE_TOP = 0x0000300000000000"
definition PROC_HEAP_TOP :: nat where "PROC_HEAP_TOP = 0x0000400000000000"

definition get_address_space :: "nat \<Rightarrow> VirtualAddressSpace option" where
  "get_address_space addr =
     (if HIGHER_HALF_BEGIN \<le> addr then
        (if addr < GLOB_KERNEL_CODE_TOP then Some (HigherHalf GlobalKernelMappedCode)
         else if addr < GLOB_KERNEL_STACK_TOP then Some (HigherHalf GlobalKernelStack)
         else if addr < GLOB_KERNEL_DIRECT_MAPPED_TOP then Some (HigherHalf GlobalDirectMemoryMapping)
         else if addr < GLOB_KERNEL_MMIO_TOP then Some (HigherHalf GlobalMemoryMappedIo)
         else if addr < PROC_KERNEL_STACK_TOP then Some (HigherHalf ProcessKernelStack)
         else Some (HigherHalf HigherNone))
      else if addr < LOWER_HALF_END then
        (if addr < LOWER_HALF_SAFEGUARD_END then Some (LowerHalf LowerNone)
         else if addr < PROC_USER_STACK_TOP then Some (LowerHalf ProcessStack)
         else if addr < PROC_MAPPED_CODE_TOP then Some (LowerHalf ProcessCode)
         else if addr < PROC_HEAP_TOP then Some (LowerHalf ProcessHeapSpace)
         else Some (LowerHalf LowerNone))
      else None)"

section \<open>Stacks\<close>

record ThreadStack =
  stack_top :: nat
  stack_size :: nat
  stack_buffers :: "Box list"

definition stack_new :: "nat \<Rightarrow> ThreadStack" where
  "stack_new st_top = \<lparr>stack_top = st_top, stack_size = 0, stack_buffers = []\<rparr>"

definition get_bottom :: "ThreadStack \<Rightarrow> nat panics" where
  "get_bottom s = sub64 (stack_top s) (stack_size s)"

text \<open>The result of \<^verbatim>\<open>map_4kb\<close> is not looked at; a buffer of another size is dropped.\<close>

definition grow_using_existing_buffer :: "PageTable \<Rightarrow> u64 \<Rightarrow> Box \<Rightarrow> ThreadStack \<Rightarrow> kernel \<Rightarrow> (bool \<times> ThreadStack \<times> kernel) panics" where
  "grow_using_existing_buffer t flags b s w =
     (if length (bx_bytes b) \<noteq> PAGE_SIZE then do { w' \<leftarrow> drop_box b w; Some (False, s, w') }
      else do {
        size \<leftarrow> add64 (stack_size s) PAGE_SIZE;
        phys \<leftarrow> sub64 (bx_ptr b) DIRECT_MAPPING_OFFSET;
        proc_virt \<leftarrow> get_bottom (s\<lparr>stack_size := size\<rparr>);
        (_, w') \<leftarrow> map_4kb kernel_pages t proc_virt phys flags True w;
        Some (True, s\<lparr>stack_size := size, stack_buffers := stack_buffers s @ [b]\<rparr>, w')
      })"

definition grow :: "PageTable \<Rightarrow> u64 \<Rightarrow> ThreadStack \<Rightarrow> kernel \<Rightarrow> (bool \<times> ThreadStack \<times> kernel) panics" where
  "grow t flags s w = do {
     (b, w') \<leftarrow> calloc_box PAGE_SIZE w;
     grow_using_existing_buffer t flags b s w'
   }"

fun new_with_pages_loop :: "PageTable \<Rightarrow> u64 \<Rightarrow> nat \<Rightarrow> ThreadStack \<Rightarrow> kernel \<Rightarrow> (ThreadStack \<times> kernel) panics" where
  "new_with_pages_loop t flags 0 s w = Some (s, w)"
| "new_with_pages_loop t flags (Suc n) s w = do {
     (_, s', w') \<leftarrow> grow t flags s w;
     new_with_pages_loop t flags n s' w'
   }"

definition new_with_pages :: "nat \<Rightarrow> nat \<Rightarrow> PageTable \<Rightarrow> u64 \<Rightarrow> kernel \<Rightarrow> (ThreadStack \<times> kernel) panics" where
  "new_with_pages st_top num_pages t flags w = new_with_pages_loop t flags num_pages (stack_new st_top) w"

fun grow_all :: "PageTable \<Rightarrow> u64 \<Rightarrow> Box list \<Rightarrow> ThreadStack \<Rightarrow> kernel \<Rightarrow> (ThreadStack \<times> kernel) panics" where
  "grow_all t flags [] s w = Some (s, w)"
| "grow_all t flags (b # bs) s w = do {
     (_, s', w') \<leftarrow> grow_using_existing_buffer t flags b s w;
     grow_all t flags bs s' w'
   }"

text \<open>\<^verbatim>\<open>slice::chunks\<close>.\<close>

fun slice_chunks :: "nat \<Rightarrow> 'a list \<Rightarrow> 'a list list" where
  "slice_chunks n xs = (if xs = [] \<or> n = 0 then [] else take n xs # slice_chunks n (drop n xs))"

declare slice_chunks.simps [simp del]

text \<open>
  \<^verbatim>\<open>ThreadStack::build\<close>: every chunk is reversed into a block of its own. A full one becomes the page; a
  short one is copied to the end of a cleared page, and its own block is released after that.
\<close>

definition build_chunk :: "PageTable \<Rightarrow> u64 \<Rightarrow> u8 list \<Rightarrow> ThreadStack \<Rightarrow> kernel \<Rightarrow> (ThreadStack \<times> kernel) panics" where
  "build_chunk t flags chunk s w = do {
     (reverse, w1) \<leftarrow> alloc_box (rev chunk) (length chunk) w;
     if length chunk = PAGE_SIZE
     then do { (_, s', w2) \<leftarrow> grow_using_existing_buffer t flags reverse s w1; Some (s', w2) }
     else do {
       (buffer, w2) \<leftarrow> calloc_box PAGE_SIZE w1;
       at \<leftarrow> sub64 PAGE_SIZE (length chunk);
       bs \<leftarrow> copy_from_slice (bx_bytes buffer) at PAGE_SIZE (rev chunk);
       (_, s', w3) \<leftarrow> grow_using_existing_buffer t flags (buffer\<lparr>bx_bytes := bs\<rparr>) s w2;
       w4 \<leftarrow> drop_box reverse w3;
       Some (s', w4)
     }
   }"

fun build_loop :: "PageTable \<Rightarrow> u64 \<Rightarrow> u8 list list \<Rightarrow> ThreadStack \<Rightarrow> kernel \<Rightarrow> (ThreadStack \<times> kernel) panics" where
  "build_loop t flags [] s w = Some (s, w)"
| "build_loop t flags (chunk # cs) s w = do {
     (s', w') \<leftarrow> build_chunk t flags chunk s w;
     build_loop t flags cs s' w'
   }"

definition stack_build :: "nat \<Rightarrow> u8 list \<Rightarrow> PageTable \<Rightarrow> u64 \<Rightarrow> kernel \<Rightarrow> (ThreadStack \<times> kernel) panics" where
  "stack_build st_top data t flags w = build_loop t flags (slice_chunks PAGE_SIZE data) (stack_new st_top) w"

definition drop_boxes :: "Box list \<Rightarrow> kernel \<Rightarrow> kernel panics" where
  "drop_boxes = fold_panics drop_box"

definition unmap_pages :: "PageTable \<Rightarrow> nat list \<Rightarrow> kernel \<Rightarrow> kernel panics" where
  "unmap_pages t = fold_panics (\<lambda>v w. map_option snd (unmap_4kb kernel_pages t v True w))"

definition stack_free :: "PageTable \<Rightarrow> ThreadStack \<Rightarrow> kernel \<Rightarrow> (ThreadStack \<times> kernel) panics" where
  "stack_free t s w = do {
     bottom \<leftarrow> get_bottom s;
     w1 \<leftarrow> unmap_pages t (addr_range bottom (stack_top s) PAGE_SIZE) w;
     w2 \<leftarrow> drop_boxes (stack_buffers s) w1;
     Some (s\<lparr>stack_size := 0, stack_buffers := []\<rparr>, w2)
   }"

section \<open>Code and heap\<close>

record ProcessAllocatedCode =
  allocs :: "(nat \<times> Box) list"

definition code_free :: "PageTable \<Rightarrow> ProcessAllocatedCode \<Rightarrow> kernel \<Rightarrow> (ProcessAllocatedCode \<times> kernel) panics" where
  "code_free t c w = do {
     w1 \<leftarrow> unmap_pages t (map fst (allocs c)) w;
     w2 \<leftarrow> drop_boxes (map snd (allocs c)) w1;
     Some (\<lparr>allocs = []\<rparr>, w2)
   }"

datatype ProcessHeap = ProcessHeap

definition heap_free :: "PageTable \<Rightarrow> ProcessHeap \<Rightarrow> kernel \<Rightarrow> kernel panics" where
  "heap_free t h w = Some w"

section \<open>The user half of an address space\<close>

text \<open>
  The tables of the user half form a tree apart from the free pages and from the pages \<open>B\<close> of
  buffers, and hold no large pages. The other half may share tables with the kernel.
\<close>

definition space_ok :: "PageTable \<Rightarrow> nat set \<Rightarrow> kernel \<Rightarrow> bool" where
  "space_ok t B w \<longleftrightarrow> \<not> pt_readonly t \<and> (\<exists>r. root_table t = Some r \<and> page_tree_of 256 (box_avail B) (box_inv B) (pg_store w) r \<and>
     (\<forall>x e. index4 256 x \<longrightarrow> leaf (snd (pg_store w)) r x \<noteq> Some (True, e)))"

definition vaddr :: "PageTable \<Rightarrow> kernel \<Rightarrow> nat \<Rightarrow> nat option" where
  "vaddr t w v = (case translate kernel_pages t v (pg_store w) of None \<Rightarrow> None | Some (p, _) \<Rightarrow> p)"

abbreviation free_pages :: "kernel \<Rightarrow> nat" where
  "free_pages w \<equiv> kernel_room (pg_store w)"

lemma space_page: "space_ok t B w \<Longrightarrow> p \<in> B \<Longrightarrow> page_ok p"
proof -
  assume "space_ok t B w" "p \<in> B"
  then have "kernel_inv (pg_store w)" "p \<notin> kernel_avail (pg_store w)" by (auto simp: space_ok_def page_tree_of_def box_inv_def)
  then obtain x V where "ext_inv x V" "DIRECT_MAPPING_OFFSET \<le> base_addr (allocator x)" "p \<in> kernel_held x"
    by (auto simp: kernel_inv_def kernel_avail_def split: option.splits)
  then show "page_ok p" using kernel_held_page kernel_held_iff by blast
qed

lemma user_half: "v < 2 ^ 47 \<Longrightarrow> in_half 256 v"
  unfolding in_half_def by (rule le_less_trans [OF mod_less_eq_dividend]) (simp add: less_mult_imp_div_less)

lemma user_page: "(v :: nat) < 2 ^ 47 \<Longrightarrow> v div 4096 mod 2 ^ 36 = v div 4096"
  by (rule mod_less) (simp add: less_mult_imp_div_less)

lemma vaddr_eq:
  assumes "page_tree_of 256 (box_avail B) (box_inv B) (pg_store w) r" "root_table t = Some r" "v < 2 ^ 47"
  shows "vaddr t w v = translation (snd (pg_store w)) r v"
  unfolding vaddr_def using kb.translate_eq [OF assms(1,2) user_half [OF assms(3)]] by simp

lemma user_map:
  assumes sp: "space_ok t B w" and v: "virt < 2 ^ 47" and p: "page_ok p" and room: "3 < free_pages w"
    and flags: "flags AND ADDR_MASK = 0" "flags AND PAGE_PRESENT \<noteq> 0"
  obtains w' where "map_4kb kernel_pages t virt (p - DIRECT_MAPPING_OFFSET) flags inval w = Some (Some (), w')" "space_ok t B w'"
    "free_pages w \<le> free_pages w' + 3"
    "\<forall>v < 2 ^ 47. vaddr t w' v = (if v div 4096 = virt div 4096 then Some (p - DIRECT_MAPPING_OFFSET + v mod 4096) else vaddr t w v)"
proof -
  let ?p = "p - DIRECT_MAPPING_OFFSET"
  have dm: "DIRECT_MAPPING_OFFSET mod 4096 = 0" by (simp add: DIRECT_MAPPING_OFFSET_def)
  have phys: "?p mod 4096 = 0" "?p < 2 ^ 52"
    using p mod_diff_right_eq dm by (auto simp: page_ok_def DIRECT_MAPPING_OFFSET_def mod_eq_0_iff_dvd intro: dvd_diff_nat)
  have al: "align_down ?p PAGE_SIZE = Some ?p" using phys by (intro align_down_page) simp_all
  note e = page_entry [OF phys flags]
  obtain r where r: "root_table t = Some r" "page_tree_of 256 (box_avail B) (box_inv B) (pg_store w) r" "\<not> pt_readonly t"
    "\<forall>x e. index4 256 x \<longrightarrow> leaf (snd (pg_store w)) r x \<noteq> Some (True, e)" using sp by (auto simp: space_ok_def)
  have vh: "in_half 256 virt" by (rule user_half [OF v])
  obtain res w' where m: "map_4kb kernel_pages t virt ?p flags inval w = Some (res, w')" "page_tree_of 256 (box_avail B) (box_inv B) (pg_store w') r"
    "\<forall>x. index4 256 x \<longrightarrow> leaf (snd (pg_store w')) r x = (if res \<noteq> None \<and> x = split_virt_addr virt
       then if present (of_nat ?p OR flags) then Some (False, of_nat ?p OR flags) else None else leaf (snd (pg_store w)) r x)"
    "res = None \<longrightarrow> kernel_room (pg_store w') = 0 \<or> (\<exists>e. leaf (snd (pg_store w)) r (split_virt_addr virt) = Some (True, e))"
    "kernel_room (pg_store w) \<le> kernel_room (pg_store w') + 3"
    by (rule kb.map_4kb_ok [OF r(2,1,3) vh al])
  have "res \<noteq> None" using m(4,5) room r(4) index4_split [OF vh] by auto
  then have res: "res = Some ()" by simp
  have "vaddr t w' v = (if v div 4096 = virt div 4096 then Some (?p + v mod 4096) else vaddr t w v)" if u: "v < 2 ^ 47" for v
    using m(3) [rule_format, OF index4_split [OF user_half [OF u]]] e(1,2) res split_same_page [of v virt] user_page [OF u] user_page [OF v]
    by (simp add: vaddr_eq [OF m(2) r(1) u] vaddr_eq [OF r(2,1) u] translation_def PAGE_SIZE_def)
  moreover have "space_ok t B w'" unfolding space_ok_def using r m(2,3) by auto
  ultimately show ?thesis using that m(1,5) res by simp
qed

lemma user_unmap:
  assumes sp: "space_ok t B w" and v: "virt < 2 ^ 47"
  obtains res w' where "unmap_4kb kernel_pages t virt inval w = Some (res, w')" "space_ok t B w'"
    "\<forall>v < 2 ^ 47. vaddr t w' v = (if v div 4096 = virt div 4096 then None else vaddr t w v)"
proof -
  obtain r where r: "root_table t = Some r" "page_tree_of 256 (box_avail B) (box_inv B) (pg_store w) r" "\<not> pt_readonly t"
    "\<forall>x e. index4 256 x \<longrightarrow> leaf (snd (pg_store w)) r x \<noteq> Some (True, e)" using sp by (auto simp: space_ok_def)
  have vh: "in_half 256 virt" by (rule user_half [OF v])
  obtain res w' where m: "unmap_4kb kernel_pages t virt inval w = Some (res, w')" "page_tree_of 256 (box_avail B) (box_inv B) (pg_store w') r"
    "\<forall>x. index4 256 x \<longrightarrow> leaf (snd (pg_store w')) r x = (if res \<noteq> None \<and> x = split_virt_addr virt then None else leaf (snd (pg_store w)) r x)"
    "res = None \<longrightarrow> leaf (snd (pg_store w)) r (split_virt_addr virt) = None \<or> (\<exists>e. leaf (snd (pg_store w)) r (split_virt_addr virt) = Some (True, e))"
    by (rule kb.unmap_4kb_ok [OF r(2,1,3) vh])
  have "vaddr t w' v = (if v div 4096 = virt div 4096 then None else vaddr t w v)" if u: "v < 2 ^ 47" for v
    using m(3) [rule_format, OF index4_split [OF user_half [OF u]]] m(4) r(4) [rule_format, OF index4_split [OF vh]]
      split_same_page [of v virt] user_page [OF u] user_page [OF v]
    by (cases res) (auto simp: vaddr_eq [OF m(2) r(1) u] vaddr_eq [OF r(2,1) u] translation_def)
  moreover have "space_ok t B w'" unfolding space_ok_def using r m(2,3) by auto
  ultimately show ?thesis using that m(1) by simp
qed

text \<open>Taking a page for a buffer, and giving it back.\<close>

lemma space_ok_store:
  assumes "space_ok t B w" "kernel_inv s" "kernel_avail s \<inter> B' = {}" "kernel_avail s \<union> B' = kernel_avail (pg_store w) \<union> B" "snd s = snd (pg_store w)"
  shows "space_ok t B' (w\<lparr>pg_store := s\<rparr>)" "v < 2 ^ 47 \<Longrightarrow> vaddr t (w\<lparr>pg_store := s\<rparr>) v = vaddr t w v"
proof -
  obtain r where r: "root_table t = Some r" "page_tree_of 256 (box_avail B) (box_inv B) (pg_store w) r" "\<not> pt_readonly t"
    "\<forall>x e. index4 256 x \<longrightarrow> leaf (snd (pg_store w)) r x \<noteq> Some (True, e)" using assms(1) by (auto simp: space_ok_def)
  have s: "page_tree_of 256 (box_avail B') (box_inv B') s r" using r(2) assms(2-5) by (simp add: page_tree_of_def box_avail_def box_inv_def)
  show "space_ok t B' (w\<lparr>pg_store := s\<rparr>)" unfolding space_ok_def using r s assms(5) by auto
  show "vaddr t (w\<lparr>pg_store := s\<rparr>) v = vaddr t w v" if "v < 2 ^ 47"
    using vaddr_eq [OF r(2,1) that] vaddr_eq [of B' "w\<lparr>pg_store := s\<rparr>" r t v] s r(1) that assms(5) by simp
qed

lemma page_sized_box:
  "global_alloc g (byte_array PAGE_SIZE) = global_alloc g page_layout"
  "global_dealloc g p (byte_array PAGE_SIZE) = global_dealloc g p page_layout"
  by (cases g; simp add: global_alloc_def global_dealloc_def byte_array_def page_layout_def PAGE_SIZE_def)+

lemma box_page:
  assumes sp: "space_ok t B w" and room: "0 < free_pages w"
  obtains p w' where "alloc_box uninit PAGE_SIZE w = Some (\<lparr>bx_ptr = p, bx_bytes = alloc_boxed_slice uninit PAGE_SIZE\<rparr>, w')"
    "space_ok t (insert p B) w'" "page_ok p" "p \<notin> B" "free_pages w = Suc (free_pages w')" "\<And>v. v < 2 ^ 47 \<Longrightarrow> vaddr t w' v = vaddr t w v"
proof -
  have inv: "kernel_inv (pg_store w)" "kernel_avail (pg_store w) \<inter> B = {}" using sp by (auto simp: space_ok_def page_tree_of_def box_inv_def)
  obtain p s' where p: "kernel_alloc_page (pg_store w) = Some (Some p, s')" "kernel_inv s'" "page_ok p" "p \<in> kernel_avail (pg_store w)"
    "kernel_avail s' = kernel_avail (pg_store w) - {p}" "free_pages w = Suc (kernel_room s')" "snd s' = snd (pg_store w)"
    using kernel_alloc_law [OF inv(1)] room by auto
  have "p \<noteq> 0" using p(3) by (auto simp: page_ok_def DIRECT_MAPPING_OFFSET_def)
  moreover obtain g' where "global_alloc (fst (pg_store w)) page_layout = Some (p, g')" "s' = (g', snd (pg_store w))"
    using p(1) by (cases "pg_store w") (auto simp: kernel_alloc_page_def split: if_splits)
  moreover have "max PAGE_SIZE 1 = PAGE_SIZE" "PAGE_SIZE < 2 ^ 63" by (simp_all add: PAGE_SIZE_def)
  ultimately have run: "alloc_box uninit PAGE_SIZE w = Some (\<lparr>bx_ptr = p, bx_bytes = alloc_boxed_slice uninit PAGE_SIZE\<rparr>, w\<lparr>pg_store := s'\<rparr>)"
    by (simp add: alloc_box_def page_sized_box del: bind_eq_Some_iff)
  have a: "kernel_avail s' \<inter> insert p B = {}" "kernel_avail s' \<union> insert p B = kernel_avail (pg_store w) \<union> B"
    using inv(2) p(4,5) by blast+
  have sp': "space_ok t (insert p B) (w\<lparr>pg_store := s'\<rparr>)" "\<And>v. v < 2 ^ 47 \<Longrightarrow> vaddr t (w\<lparr>pg_store := s'\<rparr>) v = vaddr t w v"
    by (rule space_ok_store(1) [OF sp p(2) a p(7)], rule space_ok_store(2) [OF sp p(2) a p(7)])
  have "p \<notin> B" using inv(2) p(4) by blast
  then show ?thesis using that [OF run sp'(1) p(3) _ _ sp'(2)] p(6) by simp
qed

lemma drop_page:
  assumes sp: "space_ok t B w" and b: "bx_ptr b \<in> B" "length (bx_bytes b) = PAGE_SIZE"
  obtains w' where "drop_box b w = Some w'" "space_ok t (B - {bx_ptr b}) w'" "\<And>v. v < 2 ^ 47 \<Longrightarrow> vaddr t w' v = vaddr t w v"
    "kernel_avail (pg_store w') = insert (bx_ptr b) (kernel_avail (pg_store w))"
proof -
  have inv: "kernel_inv (pg_store w)" "kernel_avail (pg_store w) \<inter> B = {}" using sp by (auto simp: space_ok_def page_tree_of_def box_inv_def)
  obtain s' where s': "kernel_free_page (bx_ptr b) (pg_store w) = Some s'" "kernel_inv s'"
    "kernel_avail s' = insert (bx_ptr b) (kernel_avail (pg_store w))" "snd s' = snd (pg_store w)"
    using kernel_free_law [OF inv(1), of "bx_ptr b"] inv(2) b(1) by blast
  obtain g' where "global_dealloc (fst (pg_store w)) (bx_ptr b) page_layout = Some g'" "s' = (g', snd (pg_store w))"
    using s'(1) by (cases "pg_store w") (auto simp: kernel_free_page_def)
  moreover have "bx_bytes b \<noteq> []" using b(2) by (auto simp: PAGE_SIZE_def)
  ultimately have run: "drop_box b w = Some (w\<lparr>pg_store := s'\<rparr>)"
    by (simp add: drop_box_def b(2) page_sized_box del: bind_eq_Some_iff)
  have a: "kernel_avail s' \<inter> (B - {bx_ptr b}) = {}" "kernel_avail s' \<union> (B - {bx_ptr b}) = kernel_avail (pg_store w) \<union> B"
    using inv(2) b(1) unfolding s'(3) by auto
  have sp': "space_ok t (B - {bx_ptr b}) (w\<lparr>pg_store := s'\<rparr>)" "\<And>v. v < 2 ^ 47 \<Longrightarrow> vaddr t (w\<lparr>pg_store := s'\<rparr>) v = vaddr t w v"
    by (rule space_ok_store(1) [OF sp s'(2) a s'(4)], rule space_ok_store(2) [OF sp s'(2) a s'(4)])
  have "kernel_avail (pg_store (w\<lparr>pg_store := s'\<rparr>)) = insert (bx_ptr b) (kernel_avail (pg_store w))" using s'(3) by simp
  with run sp' show ?thesis by (rule that)
qed

end
