(* ===== verification/Process_Stack.thy ===== *)
theory Process_Stack
  imports Process_Memory
begin

text \<open>
  Stacks and code pages in the address space of a process: growing a stack maps one more page
  under the ones it has, and freeing a stack or the code unmaps exactly its pages and gives the
  buffers back to the heap.
\<close>

section \<open>Buffers that are mapped\<close>

text \<open>The buffer that a process sees as the page with a number.\<close>

definition box_at :: "PageTable \<Rightarrow> kernel \<Rightarrow> nat \<Rightarrow> Box \<Rightarrow> bool" where
  "box_at t w n b \<longleftrightarrow> length (bx_bytes b) = PAGE_SIZE \<and> (\<forall>k < 4096. vaddr t w (4096 * n + k) = Some (bx_ptr b - DIRECT_MAPPING_OFFSET + k))"

definition stack_ok :: "PageTable \<Rightarrow> nat set \<Rightarrow> ThreadStack \<Rightarrow> kernel \<Rightarrow> bool" where
  "stack_ok t B s w \<longleftrightarrow> stack_top s mod 4096 = 0 \<and> stack_top s \<le> 2 ^ 47 \<and>
     stack_size s = 4096 * length (stack_buffers s) \<and> stack_size s \<le> stack_top s \<and>
     distinct (map bx_ptr (stack_buffers s)) \<and> bx_ptr ` set (stack_buffers s) \<subseteq> B \<and>
     (\<forall>i < length (stack_buffers s). box_at t w (stack_top s div 4096 - (i + 1)) (stack_buffers s ! i))"

lemma box_at_other:
  assumes "box_at t w n b" "n < 2 ^ 35" "\<forall>v < 2 ^ 47. v div 4096 = n \<longrightarrow> vaddr t w' v = vaddr t w v"
  shows "box_at t w' n b"
  unfolding box_at_def
proof (intro conjI allI impI)
  fix k :: nat assume k: "k < 4096"
  then have "4096 * n + k < 2 ^ 47" "(4096 * n + k) div 4096 = n" using assms(2) by simp_all
  then show "vaddr t w' (4096 * n + k) = Some (bx_ptr b - DIRECT_MAPPING_OFFSET + k)" using assms(1,3) k by (simp add: box_at_def)
qed (use assms(1) in \<open>simp add: box_at_def\<close>)

lemma grow_buffer_ok:
  assumes sp: "space_ok t B w" and st: "stack_ok t B s w" and b: "bx_ptr b \<in> B" "page_ok (bx_ptr b)" "length (bx_bytes b) = PAGE_SIZE"
    "bx_ptr b \<notin> bx_ptr ` set (stack_buffers s)" and fits: "stack_size s + 4096 \<le> stack_top s" and room: "3 < free_pages w"
    and flags: "flags AND ADDR_MASK = 0" "flags AND PAGE_PRESENT \<noteq> 0"
  obtains s' w' where "grow_using_existing_buffer t flags b s w = Some (True, s', w')"
    "s' = s\<lparr>stack_size := stack_size s + 4096, stack_buffers := stack_buffers s @ [b]\<rparr>" "space_ok t B w'" "stack_ok t B s' w'"
    "free_pages w \<le> free_pages w' + 3"
    "\<forall>v < 2 ^ 47. v div 4096 \<noteq> (stack_top s - stack_size s) div 4096 - 1 \<longrightarrow> vaddr t w' v = vaddr t w v"
proof -
  let ?n = "length (stack_buffers s)" and ?T = "stack_top s div 4096"
  let ?s = "s\<lparr>stack_size := stack_size s + 4096, stack_buffers := stack_buffers s @ [b]\<rparr>"
  have top: "stack_top s = 4096 * ?T" "stack_size s = 4096 * ?n" "stack_top s \<le> 2 ^ 47" using st by (auto simp: stack_ok_def)
  have T: "?n + 1 \<le> ?T" "?T \<le> 2 ^ 35"
    using top(1,2) fits div_le_mono [OF top(3), of 4096] by simp_all
  define q where "q = ?T - (?n + 1)"
  have bottom: "stack_top s - (stack_size s + 4096) = 4096 * q" "(stack_top s - stack_size s) div 4096 - 1 = q"
    using top T by (simp_all add: q_def right_diff_distrib')
  have v: "4096 * q < 2 ^ 47" using T q_def by simp
  obtain w' where w': "map_4kb kernel_pages t (4096 * q) (bx_ptr b - DIRECT_MAPPING_OFFSET) flags True w = Some (Some (), w')" "space_ok t B w'"
    "free_pages w \<le> free_pages w' + 3"
    "\<forall>v < 2 ^ 47. vaddr t w' v = (if v div 4096 = 4096 * q div 4096 then Some (bx_ptr b - DIRECT_MAPPING_OFFSET + v mod 4096) else vaddr t w v)"
    by (rule user_map [OF sp v b(2) room flags])
  have "add64 (stack_size s) PAGE_SIZE = Some (stack_size s + 4096)" using fits top(3) by (simp add: add64_def PAGE_SIZE_def)
  moreover have "sub64 (bx_ptr b) DIRECT_MAPPING_OFFSET = Some (bx_ptr b - DIRECT_MAPPING_OFFSET)" using b(2) by (simp add: sub64_def page_ok_def)
  moreover have "get_bottom (s\<lparr>stack_size := stack_size s + 4096\<rparr>) = Some (4096 * q)" using fits bottom by (simp add: get_bottom_def sub64_def)
  ultimately have run: "grow_using_existing_buffer t flags b s w = Some (True, ?s, w')"
    using b(3) w'(1) by (simp add: grow_using_existing_buffer_def del: bind_eq_Some_iff)
  have new: "box_at t w' q b"
    unfolding box_at_def
  proof (intro conjI allI impI)
    fix k :: nat assume "k < 4096"
    then have "4096 * q + k < 2 ^ 47" "(4096 * q + k) div 4096 = q" "(4096 * q + k) mod 4096 = k" using T q_def by simp_all
    then show "vaddr t w' (4096 * q + k) = Some (bx_ptr b - DIRECT_MAPPING_OFFSET + k)" using w'(4) by simp
  qed (use b(3) in simp)
  have old: "box_at t w' (?T - (i + 1)) (stack_buffers s ! i)" if i: "i < ?n" for i
  proof (rule box_at_other)
    show "box_at t w (?T - (i + 1)) (stack_buffers s ! i)" using st i by (simp add: stack_ok_def)
    show "?T - (i + 1) < 2 ^ 35" using T i by simp
    have "?T - (i + 1) \<noteq> q" using T(1) i by (simp add: q_def)
    then show "\<forall>v < 2 ^ 47. v div 4096 = ?T - (i + 1) \<longrightarrow> vaddr t w' v = vaddr t w v" using w'(4) by simp
  qed
  have "box_at t w' (?T - (i + 1)) ((stack_buffers s @ [b]) ! i)" if "i < ?n + 1" for i
    using old new that by (cases "i = ?n") (simp_all add: nth_append q_def)
  then have "stack_ok t B ?s w'" using st b(1,4) fits top unfolding stack_ok_def by auto
  then show ?thesis using that [OF run refl w'(2) _ w'(3)] w'(4) bottom(2) by simp
qed

lemma unmap_pages_ok:
  assumes "space_ok t B w" "\<forall>v \<in> set vs. v < 2 ^ 47"
  shows "\<exists>w'. unmap_pages t vs w = Some w' \<and> space_ok t B w' \<and>
    (\<forall>v < 2 ^ 47. vaddr t w' v = (if v div 4096 \<in> (\<lambda>x. x div 4096) ` set vs then None else vaddr t w v))"
  using assms
proof (induction vs arbitrary: w)
  case Nil
  then show ?case by (simp add: unmap_pages_def)
next
  case (Cons x vs)
  obtain res w1 where w1: "unmap_4kb kernel_pages t x True w = Some (res, w1)" "space_ok t B w1"
    "\<forall>v < 2 ^ 47. vaddr t w1 v = (if v div 4096 = x div 4096 then None else vaddr t w v)"
    by (rule user_unmap [OF Cons.prems(1), of x]) (use Cons.prems(2) in simp)
  obtain w' where "unmap_pages t vs w1 = Some w'" "space_ok t B w'"
    "\<forall>v < 2 ^ 47. vaddr t w' v = (if v div 4096 \<in> (\<lambda>x. x div 4096) ` set vs then None else vaddr t w1 v)"
    using Cons.IH [OF w1(2)] Cons.prems(2) by auto
  then show ?case using w1 by (intro exI [of _ w']) (simp add: unmap_pages_def del: bind_eq_Some_iff)
qed

lemma drop_boxes_ok:
  assumes "space_ok t B w" "distinct (map bx_ptr bs)" "bx_ptr ` set bs \<subseteq> B" "\<forall>b \<in> set bs. length (bx_bytes b) = PAGE_SIZE"
  shows "\<exists>w'. drop_boxes bs w = Some w' \<and> space_ok t (B - bx_ptr ` set bs) w' \<and> (\<forall>v < 2 ^ 47. vaddr t w' v = vaddr t w v) \<and>
    kernel_avail (pg_store w') = bx_ptr ` set bs \<union> kernel_avail (pg_store w)"
  using assms
proof (induction bs arbitrary: w B)
  case Nil
  then show ?case by (simp add: drop_boxes_def)
next
  case (Cons b bs)
  obtain w1 where w1: "drop_box b w = Some w1" "space_ok t (B - {bx_ptr b}) w1" "\<And>v. v < 2 ^ 47 \<Longrightarrow> vaddr t w1 v = vaddr t w v"
      "kernel_avail (pg_store w1) = insert (bx_ptr b) (kernel_avail (pg_store w))"
    by (rule drop_page [OF Cons.prems(1), of b]) (use Cons.prems in auto)
  obtain w' where w': "drop_boxes bs w1 = Some w'" "space_ok t (B - {bx_ptr b} - bx_ptr ` set bs) w'" "\<forall>v < 2 ^ 47. vaddr t w' v = vaddr t w1 v"
      "kernel_avail (pg_store w') = bx_ptr ` set bs \<union> kernel_avail (pg_store w1)"
    using Cons.IH [OF w1(2)] Cons.prems by auto
  have "B - {bx_ptr b} - bx_ptr ` set bs = B - bx_ptr ` set (b # bs)" by auto
  then show ?case using w1 w' by (intro exI [of _ w']) (simp add: drop_boxes_def del: bind_eq_Some_iff)
qed

lemma stack_ok_cong:
  assumes "stack_ok t B s w" "B \<subseteq> B'" "\<forall>v < 2 ^ 47. vaddr t w' v = vaddr t w v"
  shows "stack_ok t B' s w'"
proof -
  let ?T = "stack_top s div 4096"
  have "?T \<le> 2 ^ 35" using assms(1) div_le_mono [of "stack_top s" "2 ^ 47" 4096] by (simp add: stack_ok_def)
  moreover have "0 < ?T" if "i < length (stack_buffers s)" for i using assms(1) that by (auto simp: stack_ok_def div_greater_zero_iff)
  ultimately have small: "?T - (i + 1) < 2 ^ 35" if "i < length (stack_buffers s)" for i using that by fastforce
  have at: "\<forall>i < length (stack_buffers s). box_at t w (?T - (i + 1)) (stack_buffers s ! i)" using assms(1) unfolding stack_ok_def by (elim conjE)
  have "\<forall>i < length (stack_buffers s). box_at t w' (?T - (i + 1)) (stack_buffers s ! i)"
    by (intro allI impI, rule box_at_other [OF at [rule_format] small]) (use assms(3) in auto)
  moreover have "bx_ptr ` set (stack_buffers s) \<subseteq> B'" by (rule subset_trans [OF _ assms(2)]) (use assms(1) in \<open>simp add: stack_ok_def\<close>)
  ultimately show ?thesis using assms(1) unfolding stack_ok_def by (elim conjE) (intro conjI; assumption)
qed

lemma other_page:
  assumes "stack_ok t B s w" "stack_size s + 4096 \<le> stack_top s" "v < stack_top s - stack_size s - 4096 \<or> stack_top s - stack_size s \<le> v"
  shows "v div 4096 \<noteq> (stack_top s - stack_size s) div 4096 - 1"
proof -
  have "stack_top s mod 4096 = 0" "stack_size s = 4096 * length (stack_buffers s)" using assms(1) by (simp_all add: stack_ok_def)
  then obtain n where "stack_top s = 4096 * n" "stack_size s = 4096 * length (stack_buffers s)" by (metis mod_eq_0_iff_dvd dvdE)
  then show ?thesis using assms(2,3) by (auto simp: diff_mult_distrib2 [symmetric])
qed

lemma grow_all_ok:
  assumes "space_ok t B w" "stack_ok t B s w" "bx_ptr ` set bs \<subseteq> B" "distinct (map bx_ptr bs)" "\<forall>b \<in> set bs. length (bx_bytes b) = PAGE_SIZE"
    "bx_ptr ` set bs \<inter> bx_ptr ` set (stack_buffers s) = {}" "stack_size s + 4096 * length bs \<le> stack_top s" "3 * length bs < free_pages w"
    and flags: "flags AND ADDR_MASK = 0" "flags AND PAGE_PRESENT \<noteq> 0"
  shows "\<exists>s' w'. grow_all t flags bs s w = Some (s', w') \<and> s' = s\<lparr>stack_size := stack_size s + 4096 * length bs, stack_buffers := stack_buffers s @ bs\<rparr> \<and>
    space_ok t B w' \<and> stack_ok t B s' w' \<and> free_pages w \<le> free_pages w' + 3 * length bs \<and>
    (\<forall>v < 2 ^ 47. v < stack_top s - stack_size s - 4096 * length bs \<or> stack_top s - stack_size s \<le> v \<longrightarrow> vaddr t w' v = vaddr t w v)"
  using assms(1-8)
proof (induction bs arbitrary: s w)
  case Nil
  then show ?case by simp
next
  case (Cons b bs)
  have b: "bx_ptr b \<in> B" "page_ok (bx_ptr b)" "length (bx_bytes b) = PAGE_SIZE" "bx_ptr b \<notin> bx_ptr ` set (stack_buffers s)"
    "stack_size s + 4096 \<le> stack_top s" "3 < free_pages w"
    using Cons.prems space_page [OF Cons.prems(1)] by auto
  obtain s1 w1 where g: "grow_using_existing_buffer t flags b s w = Some (True, s1, w1)"
    "s1 = s\<lparr>stack_size := stack_size s + 4096, stack_buffers := stack_buffers s @ [b]\<rparr>" "space_ok t B w1" "stack_ok t B s1 w1"
    "free_pages w \<le> free_pages w1 + 3"
    "\<forall>v < 2 ^ 47. v div 4096 \<noteq> (stack_top s - stack_size s) div 4096 - 1 \<longrightarrow> vaddr t w1 v = vaddr t w v"
    by (rule grow_buffer_ok [OF Cons.prems(1,2) b flags])
  have "bx_ptr ` set bs \<subseteq> B" "distinct (map bx_ptr bs)" "\<forall>b \<in> set bs. length (bx_bytes b) = PAGE_SIZE"
    "bx_ptr ` set bs \<inter> bx_ptr ` set (stack_buffers s1) = {}" "stack_size s1 + 4096 * length bs \<le> stack_top s1" "3 * length bs < free_pages w1"
    using Cons.prems g(2,5) by auto
  from Cons.IH [OF g(3,4) this] obtain w' where w': "grow_all t flags bs s1 w1 = Some (s1\<lparr>stack_size := stack_size s1 + 4096 * length bs, stack_buffers := stack_buffers s1 @ bs\<rparr>, w')"
    "space_ok t B w'" "stack_ok t B (s1\<lparr>stack_size := stack_size s1 + 4096 * length bs, stack_buffers := stack_buffers s1 @ bs\<rparr>) w'"
    "free_pages w1 \<le> free_pages w' + 3 * length bs"
    "\<forall>v < 2 ^ 47. v < stack_top s1 - stack_size s1 - 4096 * length bs \<or> stack_top s1 - stack_size s1 \<le> v \<longrightarrow> vaddr t w' v = vaddr t w1 v"
    by blast
  have same: "vaddr t w' v = vaddr t w v"
    if "v < 2 ^ 47" "v < stack_top s - stack_size s - 4096 * length (b # bs) \<or> stack_top s - stack_size s \<le> v" for v
  proof -
    have "v < stack_top s1 - stack_size s1 - 4096 * length bs \<or> stack_top s1 - stack_size s1 \<le> v" using that(2) by (auto simp: g(2))
    then have "vaddr t w' v = vaddr t w1 v" using w'(5) that(1) by blast
    moreover have "v div 4096 \<noteq> (stack_top s - stack_size s) div 4096 - 1"
      by (rule other_page [OF Cons.prems(2) b(5)]) (use that(2) in auto)
    ultimately show ?thesis using g(6) that(1) by simp
  qed
  let ?s = "s\<lparr>stack_size := stack_size s + 4096 * length (b # bs), stack_buffers := stack_buffers s @ b # bs\<rparr>"
  have s': "s1\<lparr>stack_size := stack_size s1 + 4096 * length bs, stack_buffers := stack_buffers s1 @ bs\<rparr> = ?s" by (simp add: g(2) algebra_simps)
  have "grow_all t flags (b # bs) s w = Some (?s, w')" using g(1) w'(1) unfolding s' by (simp del: bind_eq_Some_iff)
  moreover have "free_pages w \<le> free_pages w' + 3 * length (b # bs)" using g(5) w'(4) by simp
  ultimately show ?case using w'(2,3) same unfolding s' by blast
qed

section \<open>An address space with nothing mapped\<close>

lemma empty_space:
  assumes s: "kernel_inv (pg_store w)" "kernel_avail (pg_store w) \<inter> B = {}" and p: "page_ok p" "p \<notin> kernel_avail (pg_store w)" "p \<notin> B"
    and t: "root_table t = Some p" "\<not> pt_readonly t" and zero: "\<forall>i < 256. \<not> present (snd (pg_store w) p i)"
  shows "space_ok t B w" "v < 2 ^ 47 \<Longrightarrow> vaddr t w v = None"
proof -
  let ?m = "snd (pg_store w)"
  have only: "xs = []" if "indices 256 xs" "table_at ?m p xs = Some q" for xs q
    using that zero by (cases xs) (simp_all add: no_entry_def tab.simps)
  have "tree_ok 256 ?m p (kernel_avail (pg_store w) \<union> B)"
    unfolding tree_ok_def using only p by (auto dest: only)
  then have tree: "page_tree_of 256 (box_avail B) (box_inv B) (pg_store w) p" using s by (simp add: page_tree_of_def box_avail_def box_inv_def)
  have leaf: "leaf ?m p x = None" if "index4 256 x" for x
  proof -
    obtain i j k l where x: "x = (i, j, k, l)" by (cases x)
    have "table_at ?m p [i, j] = None" "table_at ?m p [i, j, k] = None" using that zero by (auto simp: x index4_def no_entry_def tab.simps)
    then show ?thesis by (simp add: x leaf_def word_at_def present_def)
  qed
  then show "space_ok t B w" unfolding space_ok_def using t tree by auto
  show "vaddr t w v = None" if "v < 2 ^ 47"
    using vaddr_eq [OF tree t(1) that] leaf [OF index4_split [OF user_half [OF that]]] by (simp add: translation_def)
qed

text \<open>A kernel with a heap of 1000 pages and a process without pages, for the witnesses.\<close>

lemma demo_space: "\<exists>t w. space_ok t {} w \<and> (\<forall>v < 2 ^ 47. vaddr t w v = None) \<and> 900 < free_pages w"
proof -
  let ?base = "DIRECT_MAPPING_OFFSET + 0x100000"
  obtain b where b: "buddy_new (\<lambda>_. \<lparr>fb_next = None, fb_order = 0\<rparr>) ?base 1000 = Some b" "buddy_inv b {}" "base_addr b = ?base" "page_count b = 1000"
    using buddy_new_inv [of ?base 1000 "\<lambda>_. \<lparr>fb_next = None, fb_order = 0\<rparr>"] by (auto simp: PAGE_SIZE_def DIRECT_MAPPING_OFFSET_def)
  have "alloc_inv b {}" unfolding alloc_inv_def using b(2) by blast
  then obtain x j where x: "ext_inv x {}" "page_count (allocator x) = 1000" "base_addr (allocator x) = ?base"
      "allocated_pages (allocator x) = 2 ^ j" "\<forall>i < j. 2 ^ i < div_ceil 1000 PAGE_SIZE"
    using ext_new_inv [of b "\<lambda>_. 0"] b by auto
  have "j = 0" using x(5) by (cases j) (auto simp: div_ceil_def PAGE_SIZE_def)
  then have room: "kernel_room (Some x, \<lambda>_ _. 0) = 999" using x(2,4) by (simp add: kernel_room_def managed_def MAX_ORDER_def)
  have "kernel_inv (Some x, \<lambda>_ _. 0)" using x by (auto simp: kernel_inv_def)
  then obtain p s where p: "kernel_inv s" "page_ok p" "kernel_avail s = kernel_avail (Some x, \<lambda>_ _. 0) - {p}" "999 = Suc (kernel_room s)" "snd s = (\<lambda>_ _. 0)"
    using kernel_alloc_law [of "(Some x, \<lambda>_ _. 0)"] room by auto
  let ?t = "\<lparr>pt_owns_allocator = True, pt_pml4_phys = p - DIRECT_MAPPING_OFFSET, pt_allocator_owns_pml4 = True, pt_readonly = False\<rparr>"
  let ?w = "\<lparr>pg_store = s, pg_cr3 = 0, pg_tlb = []\<rparr>"
  have "root_table ?t = Some p" using p(2) by (simp add: root_table_def add64_def page_ok_def)
  then have "space_ok ?t {} ?w" "\<forall>v < 2 ^ 47. vaddr ?t ?w v = None"
    using empty_space [of ?w "{}" p ?t] p by (simp_all add: present_def)
  then show ?thesis using p(4) by (intro exI [of _ ?t] exI [of _ ?w]) simp
qed

lemma new_stack_ok: "st_top mod 4096 = 0 \<Longrightarrow> st_top \<le> 2 ^ 47 \<Longrightarrow> stack_ok t B (stack_new st_top) w"
  by (simp add: stack_ok_def stack_new_def)

section \<open>Properties\<close>

text \<open>
  Growing the stack.
\<close>

theorem thread_stack_grow:
  assumes sp: "space_ok t B w" and st: "stack_ok t B s w" and fits: "stack_size s + 4096 \<le> stack_top s" and room: "4 < free_pages w"
    and flags: "flags AND ADDR_MASK = 0" "flags AND PAGE_PRESENT \<noteq> 0"
  shows "\<exists>b w'. grow t flags s w = Some (True, s\<lparr>stack_size := stack_size s + 4096, stack_buffers := stack_buffers s @ [b]\<rparr>, w') \<and>
    bx_bytes b = replicate 4096 0 \<and> bx_ptr b \<notin> B \<and> space_ok t (insert (bx_ptr b) B) w' \<and>
    stack_ok t (insert (bx_ptr b) B) (s\<lparr>stack_size := stack_size s + 4096, stack_buffers := stack_buffers s @ [b]\<rparr>) w' \<and>
    (\<forall>v < 2 ^ 47. v < stack_top s - stack_size s - 4096 \<or> stack_top s - stack_size s \<le> v \<longrightarrow> vaddr t w' v = vaddr t w v)"
proof -
  obtain p w1 where p: "alloc_box [] PAGE_SIZE w = Some (\<lparr>bx_ptr = p, bx_bytes = alloc_boxed_slice [] PAGE_SIZE\<rparr>, w1)"
    "space_ok t (insert p B) w1" "page_ok p" "p \<notin> B" "free_pages w = Suc (free_pages w1)" "\<And>v. v < 2 ^ 47 \<Longrightarrow> vaddr t w1 v = vaddr t w v"
    by (rule box_page [OF sp]) (use room in auto)
  let ?b = "\<lparr>bx_ptr = p, bx_bytes = replicate 4096 0\<rparr>"
  have c: "calloc_box PAGE_SIZE w = Some (?b, w1)" using p(1) by (simp add: calloc_box_def PAGE_SIZE_def del: bind_eq_Some_iff)
  have st1: "stack_ok t (insert p B) s w1" by (rule stack_ok_cong [OF st]) (use p(6) in auto)
  have fresh: "bx_ptr ?b \<notin> bx_ptr ` set (stack_buffers s)" using st p(4) by (auto simp: stack_ok_def)
  obtain s' w' where g: "grow_using_existing_buffer t flags ?b s w1 = Some (True, s', w')"
    "s' = s\<lparr>stack_size := stack_size s + 4096, stack_buffers := stack_buffers s @ [?b]\<rparr>" "space_ok t (insert p B) w'" "stack_ok t (insert p B) s' w'"
    "\<forall>v < 2 ^ 47. v div 4096 \<noteq> (stack_top s - stack_size s) div 4096 - 1 \<longrightarrow> vaddr t w' v = vaddr t w1 v"
    by (rule grow_buffer_ok [OF p(2) st1 _ _ _ fresh fits _ flags]) (use p(3,5) room in \<open>simp_all add: PAGE_SIZE_def\<close>)
  note other = other_page [OF st fits]
  have "\<forall>v < 2 ^ 47. v < stack_top s - stack_size s - 4096 \<or> stack_top s - stack_size s \<le> v \<longrightarrow> vaddr t w' v = vaddr t w v"
    using g(5) p(6) other by metis
  moreover have "grow t flags s w = Some (True, s', w')" using c g(1) by (simp add: grow_def del: bind_eq_Some_iff)
  ultimately show ?thesis using g(2-4) p(4) by (intro exI [of _ ?b] exI [of _ w']) simp
qed

theorem thread_stack_grow_witness:
  "\<exists>t w b s w'. grow t (PAGE_PRESENT OR PAGE_RW) (stack_new 0x800000000000) w = Some (True, s, w') \<and>
     stack_buffers s = [b] \<and> vaddr t w' 0x7FFFFFFFF123 = Some (bx_ptr b - DIRECT_MAPPING_OFFSET + 0x123)"
proof -
  obtain t w where w: "space_ok t {} w" "900 < free_pages w" using demo_space by blast
  have "stack_ok t {} (stack_new 0x800000000000) w" by (rule new_stack_ok) simp_all
  from thread_stack_grow [OF w(1) this, of "PAGE_PRESENT OR PAGE_RW"] w(2)
  obtain b w' where b: "grow t (PAGE_PRESENT OR PAGE_RW) (stack_new 0x800000000000) w =
      Some (True, stack_new 0x800000000000\<lparr>stack_size := 4096, stack_buffers := [b]\<rparr>, w')"
    "stack_ok t (insert (bx_ptr b) {}) (stack_new 0x800000000000\<lparr>stack_size := 4096, stack_buffers := [b]\<rparr>) w'"
    by (auto simp: stack_new_def)
  have "vaddr t w' (4096 * 34359738367 + 0x123) = Some (bx_ptr b - DIRECT_MAPPING_OFFSET + 0x123)"
    using b(2) unfolding stack_ok_def box_at_def by (auto simp: stack_new_def dest: spec [of _ "0x123"])
  then show ?thesis using b(1) by (intro exI conjI) (assumption, simp_all)
qed

lemma stack_pages:
  assumes "stack_ok t B s w"
  shows "addr_range (stack_top s - stack_size s) (stack_top s) PAGE_SIZE =
    map (\<lambda>k. stack_top s - stack_size s + k * 4096) [0..<length (stack_buffers s)]"
proof -
  have "stack_top s - (stack_top s - stack_size s) = 4096 * length (stack_buffers s)" using assms by (simp add: stack_ok_def)
  then show ?thesis by (simp add: addr_range_def div_ceil_def PAGE_SIZE_def)
qed

text \<open>
  C26: In a well-formed address space, freeing a stack whose pages are mapped as the stack records
  never panics, unmaps exactly the addresses of the stack, makes every one of its pages
  available in the heap again and leaves the address space well formed without them.
\<close>

theorem thread_stack_free:
  assumes sp: "space_ok t B w" and st: "stack_ok t B s w"
  shows "\<exists>w'. stack_free t s w = Some (stack_new (stack_top s), w') \<and> space_ok t (B - bx_ptr ` set (stack_buffers s)) w' \<and>
    bx_ptr ` set (stack_buffers s) \<subseteq> kernel_avail (pg_store w') \<and>
    (\<forall>v < 2 ^ 47. vaddr t w' v = (if stack_top s - stack_size s \<le> v \<and> v < stack_top s then None else vaddr t w v))"
proof -
  let ?n = "length (stack_buffers s)" and ?b = "stack_top s - stack_size s"
  have "stack_top s mod 4096 = 0" "stack_size s = 4096 * ?n" "stack_size s \<le> stack_top s" "stack_top s \<le> 2 ^ 47"
    and d: "distinct (map bx_ptr (stack_buffers s))" "bx_ptr ` set (stack_buffers s) \<subseteq> B"
    using st by (simp_all add: stack_ok_def)
  moreover define q where "q = stack_top s div 4096 - ?n"
  ultimately have q: "?b = 4096 * q" "stack_top s = 4096 * (q + ?n)" "4096 * (q + ?n) \<le> 2 ^ 47" by auto
  let ?vs = "map (\<lambda>k. ?b + k * 4096) [0..<?n]"
  have vs: "\<forall>v \<in> set ?vs. v < 2 ^ 47" using q by (auto simp: less_le_trans [of _ "4096 * (q + ?n)"])
  have pages: "v div 4096 \<in> (\<lambda>x. x div 4096) ` set ?vs \<longleftrightarrow> ?b \<le> v \<and> v < stack_top s" for v
  proof -
    have "(\<lambda>x. x div 4096) ` set ?vs = {q ..< q + ?n}"
    proof -
      have "(4096 * q + k * 4096) div 4096 = q + k" for k by simp
      then have "(\<lambda>x. x div 4096) ` set ?vs = (\<lambda>k. q + k) ` {0..<?n}" unfolding q(1) by (simp add: image_image)
      then show ?thesis by (simp add: add.commute)
    qed
    moreover have "v div 4096 \<in> {q ..< q + ?n} \<longleftrightarrow> 4096 * q \<le> v \<and> v < 4096 * (q + ?n)"
      by (simp add: less_eq_div_iff_mult_less_eq div_less_iff_less_mult mult.commute)
    ultimately show ?thesis using q(1,2) by simp
  qed
  obtain w1 where w1: "unmap_pages t ?vs w = Some w1" "space_ok t B w1"
    "\<forall>v < 2 ^ 47. vaddr t w1 v = (if v div 4096 \<in> (\<lambda>x. x div 4096) ` set ?vs then None else vaddr t w v)"
    using unmap_pages_ok [OF sp vs] by blast
  have "\<forall>b \<in> set (stack_buffers s). length (bx_bytes b) = PAGE_SIZE" using st by (auto simp: stack_ok_def box_at_def in_set_conv_nth)
  then obtain w2 where w2: "drop_boxes (stack_buffers s) w1 = Some w2" "space_ok t (B - bx_ptr ` set (stack_buffers s)) w2"
    "\<forall>v < 2 ^ 47. vaddr t w2 v = vaddr t w1 v" "bx_ptr ` set (stack_buffers s) \<subseteq> kernel_avail (pg_store w2)"
    using drop_boxes_ok [OF w1(2) d] by blast
  have "get_bottom s = Some ?b" using st by (simp add: get_bottom_def sub64_def stack_ok_def)
  then have "stack_free t s w = Some (stack_new (stack_top s), w2)"
    using w1(1) w2(1) stack_pages [OF st] by (simp add: stack_free_def stack_new_def del: bind_eq_Some_iff)
  then show ?thesis using w1(3) w2(2-4) pages by (intro exI [of _ w2]) simp
qed

theorem thread_stack_free_witness:
  "\<exists>t w s w'. stack_size s = 4096 \<and> vaddr t w 0x7FFFFFFFF123 \<noteq> None \<and>
     stack_free t s w = Some (stack_new 0x800000000000, w') \<and> vaddr t w' 0x7FFFFFFFF123 = None"
proof -
  obtain t w where w: "space_ok t {} w" "900 < free_pages w" using demo_space by blast
  let ?s = "stack_new 0x800000000000" and ?f = "PAGE_PRESENT OR PAGE_RW"
  obtain p w1 where p: "space_ok t (insert p {}) w1" "page_ok p" "free_pages w = Suc (free_pages w1)" by (rule box_page [OF w(1)]) (use w(2) in auto)
  let ?b = "\<lparr>bx_ptr = p, bx_bytes = replicate PAGE_SIZE 0\<rparr>"
  have st: "stack_ok t {p} ?s w1" by (rule new_stack_ok) simp_all
  obtain s w2 where s: "s = ?s\<lparr>stack_size := stack_size ?s + 4096, stack_buffers := stack_buffers ?s @ [?b]\<rparr>" "space_ok t {p} w2" "stack_ok t {p} s w2"
    by (rule grow_buffer_ok [OF p(1) st, of ?b ?f]) (use p w(2) in \<open>simp_all add: stack_new_def\<close>)
  have "vaddr t w2 (4096 * 34359738367 + 0x123) \<noteq> None"
    using s(3) unfolding stack_ok_def box_at_def by (auto simp: s(1) stack_new_def dest: spec [of _ "0x123"])
  moreover obtain w' where "stack_free t s w2 = Some (stack_new (stack_top s), w')"
    "\<forall>v < 2 ^ 47. vaddr t w' v = (if stack_top s - stack_size s \<le> v \<and> v < stack_top s then None else vaddr t w2 v)"
    using thread_stack_free [OF s(2,3)] by blast
  moreover have "stack_top s = 0x800000000000" "stack_size s = 4096" by (simp_all add: s(1) stack_new_def)
  ultimately show ?thesis by (intro exI [of _ t] exI [of _ w2] exI [of _ s] exI [of _ w']) simp
qed

text \<open>The code pages of a process, the same way.\<close>

lemma code_free_ok:
  assumes sp: "space_ok t B w" and c: "distinct (map (bx_ptr \<circ> snd) (allocs c))" "(bx_ptr \<circ> snd) ` set (allocs c) \<subseteq> B"
    "\<forall>(v, b) \<in> set (allocs c). length (bx_bytes b) = PAGE_SIZE \<and> v < 2 ^ 47"
  shows "\<exists>w'. code_free t c w = Some (\<lparr>allocs = []\<rparr>, w') \<and> space_ok t (B - (bx_ptr \<circ> snd) ` set (allocs c)) w' \<and>
    (\<forall>v < 2 ^ 47. vaddr t w' v = (if v div 4096 \<in> (\<lambda>x. fst x div 4096) ` set (allocs c) then None else vaddr t w v))"
proof -
  have "\<forall>v \<in> set (map fst (allocs c)). v < 2 ^ 47" using c(3) by auto
  then obtain w1 where w1: "unmap_pages t (map fst (allocs c)) w = Some w1" "space_ok t B w1"
    "\<forall>v < 2 ^ 47. vaddr t w1 v = (if v div 4096 \<in> (\<lambda>x. x div 4096) ` set (map fst (allocs c)) then None else vaddr t w v)"
    using unmap_pages_ok [OF sp] by blast
  have "bx_ptr ` set (map snd (allocs c)) = (bx_ptr \<circ> snd) ` set (allocs c)" "map bx_ptr (map snd (allocs c)) = map (bx_ptr \<circ> snd) (allocs c)"
    "\<forall>b \<in> set (map snd (allocs c)). length (bx_bytes b) = PAGE_SIZE" using c(3) by (auto simp: image_image)
  then obtain w2 where "drop_boxes (map snd (allocs c)) w1 = Some w2" "space_ok t (B - (bx_ptr \<circ> snd) ` set (allocs c)) w2"
    "\<forall>v < 2 ^ 47. vaddr t w2 v = vaddr t w1 v" using drop_boxes_ok [OF w1(2), of "map snd (allocs c)"] c(1,2) by auto
  then show ?thesis using w1(1,3) by (intro exI [of _ w2]) (simp add: code_free_def image_image del: bind_eq_Some_iff)
qed

end
