(* ===== verification/Elf_Load.thy ===== *)
theory Elf_Load
  imports Elf Process_Stack
begin

text \<open>
  Making a process of an ELF file: \<^verbatim>\<open>formats/elf.rs\<close>, lines 436 to 697. \<^verbatim>\<open>build_stack\<close> lays out the
  arguments, the environment and the auxiliary vector in pages that become the top of the stack;
  \<^verbatim>\<open>create_process\<close> copies the segments of the file into pages of the new address space. The command
  line and the environment are given as the bytes of their strings.
\<close>

section \<open>Writing into pages\<close>

definition write_byte :: "Box list \<Rightarrow> nat \<Rightarrow> u8 \<Rightarrow> Box list panics" where
  "write_byte pages offset b =
     (let page_idx = offset div PAGE_SIZE; page_off = offset mod PAGE_SIZE
      in if page_idx < length pages \<and> page_off < length (bx_bytes (pages ! page_idx))
         then Some (pages[page_idx := (pages ! page_idx)\<lparr>bx_bytes := (bx_bytes (pages ! page_idx))[page_off := b]\<rparr>])
         else None)"

fun write_bytes_from :: "Box list \<Rightarrow> nat \<Rightarrow> u8 list \<Rightarrow> Box list panics" where
  "write_bytes_from pages offset [] = Some pages"
| "write_bytes_from pages offset (b # bs) = do { pages' \<leftarrow> write_byte pages offset b; write_bytes_from pages' (offset + 1) bs }"

definition write_u64 :: "Box list \<Rightarrow> nat \<Rightarrow> nat \<Rightarrow> Box list panics" where
  "write_u64 pages offset val = write_bytes_from pages offset (to_le_bytes (of_nat val :: u64))"

section \<open>The initial stack\<close>

text \<open>The strings with their terminators: the pages, the offset reached and the addresses of the strings.\<close>

fun write_strings :: "nat \<Rightarrow> u8 list list \<Rightarrow> Box list \<Rightarrow> nat \<Rightarrow> (Box list \<times> nat \<times> nat list) panics" where
  "write_strings stack_bottom [] pages idx = Some (pages, idx, [])"
| "write_strings stack_bottom (s # ss) pages idx = do {
     pages1 \<leftarrow> write_bytes_from pages idx s;
     pages2 \<leftarrow> write_byte pages1 (idx + length s) 0;
     (pages3, idx', ptrs) \<leftarrow> write_strings stack_bottom ss pages2 (idx + length s + 1);
     Some (pages3, idx', (stack_bottom + idx) # ptrs)
   }"

text \<open>Words one after another; \<open>tmp_idx\<close> is an address of the stack.\<close>

fun write_words :: "nat \<Rightarrow> nat list \<Rightarrow> Box list \<Rightarrow> nat \<Rightarrow> (Box list \<times> nat) panics" where
  "write_words stack_bottom [] pages tmp_idx = Some (pages, tmp_idx)"
| "write_words stack_bottom (x # xs) pages tmp_idx = do {
     off \<leftarrow> sub64 tmp_idx stack_bottom;
     pages' \<leftarrow> write_u64 pages off x;
     write_words stack_bottom xs pages' (tmp_idx + 8)
   }"

fun calloc_pages :: "nat \<Rightarrow> kernel \<Rightarrow> (Box list \<times> kernel) panics" where
  "calloc_pages 0 w = Some ([], w)"
| "calloc_pages (Suc n) w = do {
     (b, w1) \<leftarrow> calloc_box PAGE_SIZE w;
     (bs, w2) \<leftarrow> calloc_pages n w1;
     Some (b # bs, w2)
   }"

definition strings_size :: "u8 list list \<Rightarrow> nat" where
  "strings_size ss = sum_list (map (\<lambda>s. length s + 1) ss)"

definition stack_total :: "u8 list list \<Rightarrow> u8 list list \<Rightarrow> (nat \<times> nat) list \<Rightarrow> nat" where
  "stack_total args env aux = 8 + (length args + 1) * 8 + (length env + 1) * 8 + (length aux + 1) * 16 + strings_size args + strings_size env"

text \<open>What is written after the pages are there: the offset reached and the pages.\<close>

definition fill_stack :: "nat \<Rightarrow> u8 list list \<Rightarrow> u8 list list \<Rightarrow> (nat \<times> nat) list \<Rightarrow> Box list \<Rightarrow> (nat \<times> Box list) panics" where
  "fill_stack stack_bottom args env aux pages = do {
     pages \<leftarrow> write_u64 pages 0 (length args);
     let argv_ptr = stack_bottom + 8;
     let envp_ptr = argv_ptr + (length args + 1) * 8;
     let auxv_ptr = envp_ptr + (length env + 1) * 8;
     (pages, idx, string_ptrs) \<leftarrow> write_strings stack_bottom (args @ env) pages (auxv_ptr + (length aux + 1) * 16 - stack_bottom);
     (pages, tmp_idx) \<leftarrow> write_words stack_bottom (take (length args) string_ptrs) pages argv_ptr;
     off \<leftarrow> sub64 tmp_idx stack_bottom;
     pages \<leftarrow> write_u64 pages off 0;
     (pages, tmp_idx) \<leftarrow> write_words stack_bottom (drop (length args) string_ptrs) pages envp_ptr;
     off \<leftarrow> sub64 tmp_idx stack_bottom;
     pages \<leftarrow> write_u64 pages off 0;
     (pages, tmp_idx) \<leftarrow> write_words stack_bottom (concat (map (\<lambda>(key, val). [key, val]) aux)) pages auxv_ptr;
     off \<leftarrow> sub64 tmp_idx stack_bottom;
     pages \<leftarrow> write_u64 pages off 0;
     off \<leftarrow> sub64 (tmp_idx + 8) stack_bottom;
     pages \<leftarrow> write_u64 pages off 0;
     Some (idx, pages)
   }"

definition build_stack ::
    "nat \<Rightarrow> PageTable \<Rightarrow> u64 \<Rightarrow> u8 list list \<Rightarrow> u8 list list \<Rightarrow> (nat \<times> nat) list \<Rightarrow> kernel \<Rightarrow> ((ThreadStack \<times> nat \<times> nat \<times> nat) \<times> kernel) panics" where
  "build_stack st_top t flags args env aux w = do {
     _ \<leftarrow> assert_rust (stack_total args env aux < 2 ^ 64);
     let num_pages = div_ceil (stack_total args env aux) PAGE_SIZE;
     (pages, w1) \<leftarrow> calloc_pages num_pages w;
     total_alloc_size \<leftarrow> mul64 num_pages PAGE_SIZE;
     stack_bottom \<leftarrow> sub64 st_top total_alloc_size;
     (idx, pages) \<leftarrow> fill_stack stack_bottom args env aux pages;
     _ \<leftarrow> assert_rust (idx \<le> total_alloc_size);
     (s, w2) \<leftarrow> grow_all t flags (rev pages) (stack_new st_top) w1;
     Some ((s, stack_bottom, stack_bottom + 8, stack_bottom + 8 + (length args + 1) * 8), w2)
   }"

section \<open>Segments\<close>

definition fill_zero :: "u8 list \<Rightarrow> nat \<Rightarrow> nat \<Rightarrow> u8 list panics" where
  "fill_zero buf a b = (if a \<le> b \<and> b \<le> length buf then Some (splice_at buf a (replicate (b - a) 0)) else None)"

text \<open>One page of a segment: its bytes, and how much of the data has been used after it.\<close>

definition fill_page :: "nat \<Rightarrow> nat \<Rightarrow> u8 list \<Rightarrow> nat \<Rightarrow> nat \<Rightarrow> u8 list \<Rightarrow> (u8 list \<times> nat) panics" where
  "fill_page p_vaddr end_code segment_data virt code_i buffer =
     (let filesz = length segment_data
      in if virt < p_vaddr then do {
           let zeros = p_vaddr - virt;
           room \<leftarrow> sub64 PAGE_SIZE zeros;
           left \<leftarrow> sub64 filesz code_i;
           let rem = min room left;
           b1 \<leftarrow> fill_zero buffer 0 zeros;
           b2 \<leftarrow> (if zeros + rem < PAGE_SIZE then fill_zero b1 (zeros + rem) (length b1) else Some b1);
           src \<leftarrow> slice_get segment_data code_i (code_i + rem);
           b3 \<leftarrow> copy_from_slice b2 zeros (zeros + rem) src;
           Some (b3, code_i + rem)
         }
         else do {
           next_page \<leftarrow> add64 virt PAGE_SIZE;
           if end_code \<le> next_page then do {
             rem \<leftarrow> sub64 filesz code_i;
             src \<leftarrow> slice_get segment_data code_i filesz;
             b1 \<leftarrow> copy_from_slice buffer 0 rem src;
             b2 \<leftarrow> fill_zero b1 rem (length b1);
             Some (b2, code_i + rem)
           }
           else if filesz \<le> code_i then do {
             b1 \<leftarrow> fill_zero buffer 0 (length buffer);
             Some (b1, code_i + PAGE_SIZE)
           }
           else do {
             let rem = min (filesz - code_i) PAGE_SIZE;
             src \<leftarrow> slice_get segment_data code_i (code_i + rem);
             b1 \<leftarrow> copy_from_slice buffer 0 rem src;
             Some (b1, code_i + rem)
           }
         })"

definition USER_FLAGS :: u64 where
  "USER_FLAGS = PAGE_USER OR PAGE_ACCESSED OR PAGE_RW OR PAGE_PRESENT"

text \<open>The pages of a segment in turn; what \<^verbatim>\<open>map_4kb\<close> returns is not looked at. \<open>uninit\<close> is what the heap held at an address.\<close>

fun load_pages :: "(nat \<Rightarrow> u8 list) \<Rightarrow> PageTable \<Rightarrow> nat \<Rightarrow> nat \<Rightarrow> u8 list \<Rightarrow> nat list \<Rightarrow> nat \<Rightarrow> kernel \<Rightarrow> ((nat \<times> Box) list \<times> kernel) panics" where
  "load_pages uninit t p_vaddr end_code segment_data [] code_i w = Some ([], w)"
| "load_pages uninit t p_vaddr end_code segment_data (virt # vs) code_i w = do {
     (b, w1) \<leftarrow> alloc_box (uninit virt) PAGE_SIZE w;
     (bs, code_i') \<leftarrow> fill_page p_vaddr end_code segment_data virt code_i (bx_bytes b);
     phys \<leftarrow> sub64 (bx_ptr b) DIRECT_MAPPING_OFFSET;
     (_, w2) \<leftarrow> map_4kb kernel_pages t virt phys USER_FLAGS False w1;
     (rest, w3) \<leftarrow> load_pages uninit t p_vaddr end_code segment_data vs code_i' w2;
     Some ((virt, b\<lparr>bx_bytes := bs\<rparr>) # rest, w3)
   }"

definition load_segment :: "(nat \<Rightarrow> u8 list) \<Rightarrow> PageTable \<Rightarrow> Elf64File \<Rightarrow> Elf64ProgramHeader \<Rightarrow> kernel \<Rightarrow> ((ElfError + (nat \<times> Box) list) \<times> kernel) panics" where
  "load_segment uninit t elf ph w = do {
     end_code \<leftarrow> add64 (ph_vaddr ph) (ph_filesz ph);
     end_data \<leftarrow> add64 (ph_offset ph) (ph_filesz ph);
     case slice_get (ef_contents elf) (ph_offset ph) end_data of
       None \<Rightarrow> Some (Inl (InvalidSegmentOffset (ph_offset ph) (ph_filesz ph)), w)
     | Some segment_data \<Rightarrow> do {
         begin_map \<leftarrow> align_down (ph_vaddr ph) PAGE_SIZE;
         e \<leftarrow> add64 (ph_vaddr ph) (ph_memsz ph);
         end_map \<leftarrow> align_up e PAGE_SIZE;
         (code, w') \<leftarrow> load_pages uninit t (ph_vaddr ph) end_code segment_data (addr_range begin_map end_map PAGE_SIZE) 0 w;
         Some (Inr code, w')
       }
   }"

text \<open>The loop over the program headers; \<open>code\<close> is what earlier segments allocated.\<close>

function load_segments :: "(nat \<Rightarrow> u8 list) \<Rightarrow> PageTable \<Rightarrow> Elf64File \<Rightarrow> nat \<Rightarrow> (nat \<times> Box) list \<Rightarrow> kernel
    \<Rightarrow> ((ElfError option \<times> (nat \<times> Box) list) \<times> kernel) panics" where
  "load_segments uninit t elf idx code w =
     (case ph_iter_next elf idx of
        None \<Rightarrow> None
      | Some (None, _) \<Rightarrow> Some ((None, code), w)
      | Some (Some ph, idx') \<Rightarrow>
          (if ph_segment_type ph \<noteq> SegLoad then load_segments uninit t elf idx' code w
           else case load_segment uninit t elf ph w of
                  None \<Rightarrow> None
                | Some (Inl e, w') \<Rightarrow> Some ((Some e, code), w')
                | Some (Inr new_code, w') \<Rightarrow> load_segments uninit t elf idx' (code @ new_code) w'))"
  by pat_completeness auto
termination
  by (relation "measure (\<lambda>(_, _, elf, idx, _, _). unat (eh_program_header_entry_count (ef_header elf)) - idx)") (auto dest: ph_iter_progress)

declare load_segments.simps [simp del]

section \<open>Creating a process\<close>

record ExecutableInstantiateOptions =
  io_name :: string
  io_cmdline :: "u8 list list"
  io_cwd :: string
  io_environment :: "u8 list list"
  io_uid :: nat
  io_gid :: nat
  io_supplementary_gids :: "nat list"

record ThreadGPRegisters =
  r_rax :: nat  r_rbx :: nat  r_rcx :: nat  r_rdx :: nat  r_rdi :: nat  r_rsi :: nat  r_r8 :: nat
  r_r9 :: nat  r_r10 :: nat  r_r11 :: nat  r_r12 :: nat  r_r13 :: nat  r_r14 :: nat  r_r15 :: nat

record ThreadState =
  ts_gpregs :: ThreadGPRegisters
  ts_rip :: nat
  ts_rsp :: nat
  ts_rbp :: nat
  ts_rflags :: u64
  ts_fs_base :: nat
  ts_gs_base :: nat

datatype ProcessSyscallABI = Linux

record CreateProcessOptions =
  cp_name :: string
  cp_cmdline :: "u8 list list"
  cp_cwd :: string
  cp_uid :: nat
  cp_gid :: nat
  cp_supplementary_gids :: "nat list"
  cp_page_table :: PageTable
  cp_main_thread_state :: ThreadState
  cp_allocated_code :: ProcessAllocatedCode
  cp_syscalls :: ProcessSyscallABI
  cp_main_thread_stack :: ThreadStack

abbreviation RFlag_InterruptFlag :: u64 where "RFlag_InterruptFlag \<equiv> push_bit 9 1"
abbreviation RFlag_IOPL3 :: u64 where "RFlag_IOPL3 \<equiv> push_bit 12 3"

definition initial_regs :: "nat \<Rightarrow> nat \<Rightarrow> nat \<Rightarrow> ThreadGPRegisters" where
  "initial_regs argc argv envp = \<lparr>r_rax = 0, r_rbx = 0, r_rcx = 0, r_rdx = envp, r_rdi = argc, r_rsi = argv, r_r8 = 0,
     r_r9 = 0, r_r10 = 0, r_r11 = 0, r_r12 = 0, r_r13 = 0, r_r14 = 0, r_r15 = 0\<rparr>"

text \<open>\<open>k\<close> is the kernel's page table. On an error the code pages and then the page table are dropped.\<close>

definition create_process :: "PageTable \<Rightarrow> (nat \<Rightarrow> u8 list) \<Rightarrow> Elf64File \<Rightarrow> ExecutableInstantiateOptions \<Rightarrow> (kernel, CreateProcessOptions) eio" where
  "create_process k uninit elf options w = do {
     (r, w1) \<leftarrow> on_store alloc_new w;
     case r of
       None \<Rightarrow> Some (Inl InvalidPageTableAllocation, w1)
     | Some pt \<Rightarrow> do {
         s \<leftarrow> map_global_higher_half k pt (pg_store w1);
         ((err, code), w2) \<leftarrow> load_segments uninit pt elf 0 [] (w1\<lparr>pg_store := s\<rparr>);
         case err of
           Some e \<Rightarrow> do {
             w3 \<leftarrow> drop_boxes (map snd code) w2;
             w4 \<leftarrow> drop_page_table kernel_pages pt w3;
             Some (Inl e, w4)
           }
         | None \<Rightarrow> do {
             let stack_flags = PAGE_ACCESSED OR PAGE_USER OR PAGE_RW OR PAGE_PRESENT;
             ((st, rsp, argv, envp), w3) \<leftarrow> build_stack 0x0000800000000000 pt stack_flags (io_cmdline options) (io_environment options) [] w2;
             (_, st', w4) \<leftarrow> grow pt stack_flags st w3;
             Some (Inr \<lparr>cp_name = io_name options, cp_cmdline = io_cmdline options, cp_cwd = io_cwd options, cp_uid = io_uid options,
               cp_gid = io_gid options, cp_supplementary_gids = io_supplementary_gids options, cp_page_table = pt,
               cp_main_thread_state = \<lparr>ts_gpregs = initial_regs (length (io_cmdline options)) argv envp,
                 ts_rip = unat (eh_entry_offset (ef_header elf)), ts_rsp = rsp, ts_rbp = 0,
                 ts_rflags = RFlag_InterruptFlag OR RFlag_IOPL3, ts_fs_base = 0, ts_gs_base = 0\<rparr>,
               cp_allocated_code = \<lparr>allocs = code\<rparr>, cp_syscalls = Linux, cp_main_thread_stack = st'\<rparr>, w4)
           }
       }
   }"

end
