(* ===== verification/Elf_Stack.thy ===== *)
theory Elf_Stack
  imports Elf_Load Block_Device
begin

text \<open>
  The initial stack of a process: the pages that \<^verbatim>\<open>build_stack\<close> fills hold the number of arguments, the
  pointers to the arguments and to the environment, the auxiliary vector and the strings, in the
  order a program expects them, and the process finds them from its stack pointer upwards.
\<close>

section \<open>Pages as one buffer\<close>

definition flat :: "Box list \<Rightarrow> u8 list" where
  "flat pages = concat (map bx_bytes pages)"

abbreviation paged :: "Box list \<Rightarrow> bool" where
  "paged pages \<equiv> uniform 4096 (map bx_bytes pages)"

text \<open>The pages after bytes have been written at an offset.\<close>

definition wrote :: "Box list \<Rightarrow> nat \<Rightarrow> u8 list \<Rightarrow> Box list \<Rightarrow> bool" where
  "wrote pages off bs pages' \<longleftrightarrow> paged pages' \<and> map bx_ptr pages' = map bx_ptr pages \<and> flat pages' = splice_at (flat pages) off bs"

lemma wrote_length: "wrote pages off bs pages' \<Longrightarrow> length pages' = length pages"
  unfolding wrote_def by (metis length_map)

lemma length_flat: "paged pages \<Longrightarrow> length (flat pages) = 4096 * length pages"
  unfolding flat_def using length_concat_uniform by fastforce

lemma wrote_more:
  assumes "wrote pages off xs p1" "wrote p1 (off + length xs) ys p2" "paged pages" "off + length xs + length ys \<le> 4096 * length pages"
  shows "wrote pages off (xs @ ys) p2"
  using assms splice_extend [OF refl, of off xs ys "flat pages"] length_flat [OF assms(3)] by (simp add: wrote_def)

lemma write_byte_ok:
  assumes "paged pages" "off < 4096 * length pages"
  obtains pages' where "write_byte pages off b = Some pages'" "wrote pages off [b] pages'"
proof -
  let ?i = "off div 4096" and ?o = "off mod 4096"
  let ?b = "pages ! ?i"
  let ?pages = "pages[?i := ?b\<lparr>bx_bytes := (bx_bytes ?b)[?o := b]\<rparr>]"
  have i: "?i < length pages" using assms(2) by (simp add: less_mult_imp_div_less mult.commute)
  have l: "length (bx_bytes ?b) = 4096" using uniform_nth [OF assms(1), of ?i] i by simp
  have e: "map bx_bytes ?pages = (map bx_bytes pages)[?i := splice_at (map bx_bytes pages ! ?i) ?o [b]]"
    using i l by (simp add: map_update splice_at_def upd_conv_take_nth_drop take_map drop_map)
  have "flat ?pages = splice_at (flat pages) (?i * 4096 + ?o) [b]"
    unfolding flat_def e using i by (intro splice_concat_uniform [OF assms(1)]) (simp_all add: Suc_leI)
  moreover have "paged ?pages" unfolding e using i l by (intro uniform_update [OF assms(1)]) (simp add: length_splice_at Suc_leI)
  moreover have "map bx_ptr ?pages = map bx_ptr pages" using i by (simp add: map_update list_update_same_conv)
  ultimately have "wrote pages off [b] ?pages" by (simp add: wrote_def)
  moreover have "write_byte pages off b = Some ?pages" using i l by (simp add: write_byte_def PAGE_SIZE_def Let_def)
  ultimately show ?thesis using that by blast
qed

lemma wrote_Nil: "paged pages \<Longrightarrow> wrote pages off [] pages"
  by (simp add: wrote_def)

lemma write_bytes_from_ok:
  assumes "paged pages" "off + length bs \<le> 4096 * length pages"
  shows "\<exists>pages'. write_bytes_from pages off bs = Some pages' \<and> wrote pages off bs pages'"
  using assms
proof (induction bs arbitrary: pages off)
  case Nil
  then show ?case by (simp add: wrote_Nil)
next
  case (Cons b bs)
  obtain p1 where p1: "write_byte pages off b = Some p1" "wrote pages off [b] p1"
    by (rule write_byte_ok [OF Cons.prems(1)]) (use Cons.prems(2) in auto)
  have "paged p1" "off + 1 + length bs \<le> 4096 * length p1" using p1(2) wrote_length [OF p1(2)] Cons.prems(2) by (simp_all add: wrote_def)
  from Cons.IH [OF this] obtain p2 where p2: "write_bytes_from p1 (off + 1) bs = Some p2" "wrote p1 (off + 1) bs p2" by blast
  then have "wrote pages off ([b] @ bs) p2" using Cons.prems p1(2) by (intro wrote_more [of pages off "[b]" p1]) simp_all
  then show ?case using p1(1) p2(1) by (simp del: bind_eq_Some_iff)
qed

definition le64 :: "nat \<Rightarrow> u8 list" where
  "le64 x = to_le_bytes (of_nat x :: u64)"

lemma length_le64 [simp]: "length (le64 x) = 8"
  by (simp add: le64_def)

lemma length_le64s [simp]: "length (concat (map le64 xs)) = 8 * length xs"
  by (induction xs) simp_all

lemma write_u64_ok:
  assumes "paged pages" "off + 8 \<le> 4096 * length pages"
  shows "\<exists>pages'. write_u64 pages off x = Some pages' \<and> wrote pages off (le64 x) pages'"
  unfolding write_u64_def le64_def using assms by (intro write_bytes_from_ok) simp_all

lemma write_words_ok:
  assumes "paged pages" "stack_bottom \<le> tmp" "tmp - stack_bottom + 8 * length xs \<le> 4096 * length pages"
  shows "\<exists>pages'. write_words stack_bottom xs pages tmp = Some (pages', tmp + 8 * length xs) \<and>
    wrote pages (tmp - stack_bottom) (concat (map le64 xs)) pages'"
  using assms
proof (induction xs arbitrary: pages tmp)
  case Nil
  then show ?case by (simp add: wrote_Nil)
next
  case (Cons x xs)
  have f: "tmp - stack_bottom + 8 \<le> 4096 * length pages" "tmp + 8 - stack_bottom = tmp - stack_bottom + 8" using Cons.prems by simp_all
  obtain p1 where p1: "write_u64 pages (tmp - stack_bottom) x = Some p1" "wrote pages (tmp - stack_bottom) (le64 x) p1"
    using write_u64_ok [OF Cons.prems(1) f(1)] by blast
  have "paged p1" "stack_bottom \<le> tmp + 8" "tmp + 8 - stack_bottom + 8 * length xs \<le> 4096 * length p1"
    using p1(2) wrote_length [OF p1(2)] Cons.prems f(2) by (simp_all add: wrote_def)
  from Cons.IH [OF this] obtain p2 where p2: "write_words stack_bottom xs p1 (tmp + 8) = Some (p2, tmp + 8 + 8 * length xs)"
    "wrote p1 (tmp - stack_bottom + 8) (concat (map le64 xs)) p2" unfolding f(2) by blast
  then have "wrote pages (tmp - stack_bottom) (le64 x @ concat (map le64 xs)) p2"
    using Cons.prems p1(2) by (intro wrote_more [of pages _ "le64 x" p1]) simp_all
  then show ?case using p1(1) p2(1) Cons.prems(2) by (simp add: sub64_def del: bind_eq_Some_iff)
qed

text \<open>The strings with their terminators, and their addresses from an address on.\<close>

definition strings_image :: "u8 list list \<Rightarrow> u8 list" where
  "strings_image ss = concat (map (\<lambda>s. s @ [0]) ss)"

fun string_ptrs :: "nat \<Rightarrow> u8 list list \<Rightarrow> nat list" where
  "string_ptrs a [] = []"
| "string_ptrs a (s # ss) = a # string_ptrs (a + length s + 1) ss"

lemma length_string_ptrs [simp]: "length (string_ptrs a ss) = length ss"
  by (induction ss arbitrary: a) simp_all

lemma length_strings_image [simp]: "length (strings_image ss) = strings_size ss"
  by (induction ss) (simp_all add: strings_image_def strings_size_def)

lemma write_strings_ok:
  assumes "paged pages" "idx + strings_size ss \<le> 4096 * length pages"
  shows "\<exists>pages'. write_strings stack_bottom ss pages idx = Some (pages', idx + strings_size ss, string_ptrs (stack_bottom + idx) ss) \<and>
    wrote pages idx (strings_image ss) pages'"
  using assms
proof (induction ss arbitrary: pages idx)
  case Nil
  then show ?case by (simp add: wrote_Nil strings_image_def strings_size_def)
next
  case (Cons s ss)
  have sz: "strings_size (s # ss) = length s + 1 + strings_size ss" by (simp add: strings_size_def)
  obtain p1 where p1: "write_bytes_from pages idx s = Some p1" "wrote pages idx s p1"
    using write_bytes_from_ok [OF Cons.prems(1), of idx s] Cons.prems(2) sz by auto
  have p1': "paged p1" "length p1 = length pages" using p1(2) wrote_length by (auto simp: wrote_def)
  obtain p2 where p2: "write_byte p1 (idx + length s) 0 = Some p2" "wrote p1 (idx + length s) [0] p2"
    by (rule write_byte_ok [OF p1'(1)]) (use Cons.prems(2) sz p1'(2) in auto)
  have w2: "wrote pages idx (s @ [0]) p2" by (rule wrote_more [OF p1(2) p2(2) Cons.prems(1)]) (use Cons.prems(2) sz in simp)
  have "paged p2" "idx + length s + 1 + strings_size ss \<le> 4096 * length p2"
    using w2 wrote_length [OF w2] Cons.prems(2) sz by (simp_all add: wrote_def)
  from Cons.IH [OF this] obtain p3 where p3:
    "write_strings stack_bottom ss p2 (idx + length s + 1) = Some (p3, idx + length s + 1 + strings_size ss, string_ptrs (stack_bottom + (idx + length s + 1)) ss)"
    "wrote p2 (idx + length s + 1) (strings_image ss) p3" by blast
  then have "wrote pages idx ((s @ [0]) @ strings_image ss) p3"
    using Cons.prems w2 sz by (intro wrote_more [of pages idx "s @ [0]" p2]) simp_all
  then show ?case using p1(1) p2(1) p3(1) sz by (simp add: strings_image_def ac_simps del: bind_eq_Some_iff)
qed

section \<open>The image of the stack\<close>

definition strings_offset :: "u8 list list \<Rightarrow> u8 list list \<Rightarrow> (nat \<times> nat) list \<Rightarrow> nat" where
  "strings_offset args env aux = 8 + (length args + 1) * 8 + (length env + 1) * 8 + (length aux + 1) * 16"

definition stack_image :: "nat \<Rightarrow> u8 list list \<Rightarrow> u8 list list \<Rightarrow> (nat \<times> nat) list \<Rightarrow> u8 list" where
  "stack_image stack_bottom args env aux =
     (let ptrs = string_ptrs (stack_bottom + strings_offset args env aux) (args @ env)
      in le64 (length args) @
         (concat (map le64 (take (length args) ptrs)) @ le64 0) @
         (concat (map le64 (drop (length args) ptrs)) @ le64 0) @
         (concat (map le64 (concat (map (\<lambda>(key, val). [key, val]) aux))) @ le64 0 @ le64 0) @
         strings_image (args @ env))"

lemma length_pairs [simp]: "length (concat (map (\<lambda>(key, val). [key, val]) aux)) = 2 * length aux"
  by (induction aux) auto

lemma strings_size_append: "strings_size (xs @ ys) = strings_size xs + strings_size ys"
  by (simp add: strings_size_def)

lemma length_stack_image: "length (stack_image stack_bottom args env aux) = stack_total args env aux"
  by (simp add: stack_image_def stack_total_def strings_size_append Let_def)

lemma splice_part: "length B = length xs \<Longrightarrow> n = length A \<Longrightarrow> splice_at (A @ B @ C) n xs = A @ xs @ C"
  by (simp add: splice_at_def)

lemma split_front: "n \<le> length xs \<Longrightarrow> \<exists>ys zs. xs = ys @ zs \<and> length ys = n"
  by (rule exI [of _ "take n xs"], rule exI [of _ "drop n xs"]) simp

text \<open>Five regions, each overwritten once: the first, the last, then the others in order.\<close>

lemma splice_regions:
  assumes "length F \<ge> length a + length b + length c + length d + length e"
  shows "splice_at (splice_at (splice_at (splice_at (splice_at F 0 a) (length a + length b + length c + length d) e)
      (length a) b) (length a + length b) c) (length a + length b + length c) d = splice_at F 0 (a @ b @ c @ d @ e)"
proof -
  obtain A F1 where 1: "F = A @ F1" "length A = length a" using split_front [of "length a" F] assms by auto
  obtain B F2 where 2: "F1 = B @ F2" "length B = length b" using split_front [of "length b" F1] assms 1 by auto
  obtain C F3 where 3: "F2 = C @ F3" "length C = length c" using split_front [of "length c" F2] assms 1 2 by auto
  obtain D F4 where 4: "F3 = D @ F4" "length D = length d" using split_front [of "length d" F3] assms 1 2 3 by auto
  obtain E R where 5: "F4 = E @ R" "length E = length e" using split_front [of "length e" F4] assms 1 2 3 4 by auto
  have F: "F = A @ B @ C @ D @ E @ R" by (simp add: 1(1) 2(1) 3(1) 4(1) 5(1))
  note l = 1(2) 2(2) 3(2) 4(2) 5(2)
  have "splice_at F 0 a = a @ B @ C @ D @ E @ R" unfolding F using splice_part [of A a 0 "[]"] l by (simp add: add.assoc)
  moreover have "splice_at (a @ B @ C @ D @ E @ R) (length a + length b + length c + length d) e = a @ B @ C @ D @ e @ R"
    using splice_part [of E e _ "a @ B @ C @ D" R] l by (simp add: add.assoc)
  moreover have "splice_at (a @ B @ C @ D @ e @ R) (length a) b = a @ b @ C @ D @ e @ R"
    using splice_part [of B b _ a "C @ D @ e @ R"] l by (simp add: add.assoc)
  moreover have "splice_at (a @ b @ C @ D @ e @ R) (length a + length b) c = a @ b @ c @ D @ e @ R"
    using splice_part [of C c _ "a @ b" "D @ e @ R"] l by (simp add: add.assoc)
  moreover have "splice_at (a @ b @ c @ D @ e @ R) (length a + length b + length c) d = a @ b @ c @ d @ e @ R"
    using splice_part [of D d _ "a @ b @ c" "e @ R"] l by (simp add: add.assoc)
  moreover have "splice_at F 0 (a @ b @ c @ d @ e) = (a @ b @ c @ d @ e) @ R"
    unfolding F using splice_part [of "A @ B @ C @ D @ E" "a @ b @ c @ d @ e" 0 "[]" R] l by (simp add: add.assoc)
  ultimately show ?thesis by simp
qed

lemma fill_stack_ok:
  assumes pages: "paged pages" and fits: "stack_total args env aux \<le> 4096 * length pages"
  shows "\<exists>pages'. fill_stack stack_bottom args env aux pages = Some (stack_total args env aux, pages') \<and>
    wrote pages 0 (stack_image stack_bottom args env aux) pages'"
proof -
  let ?n = "length args" and ?m = "length env" and ?k = "length aux"
  let ?so = "strings_offset args env aux"
  let ?ptrs = "string_ptrs (stack_bottom + ?so) (args @ env)"
  let ?b = "concat (map le64 (take ?n ?ptrs)) @ le64 0" and ?c = "concat (map le64 (drop ?n ?ptrs)) @ le64 0"
  let ?pairs = "concat (map (\<lambda>(key, val). [key, val]) aux)"
  let ?d = "concat (map le64 ?pairs) @ le64 0 @ le64 0"
  have total: "stack_total args env aux = ?so + strings_size (args @ env)"
    by (simp add: stack_total_def strings_offset_def strings_size_append)
  have so: "?so = 8 + (8 * ?n + 8) + (8 * ?m + 8) + (16 * ?k + 16)" by (simp add: strings_offset_def)
  have len: "length ?b = 8 * ?n + 8" "length ?c = 8 * ?m + 8" "length ?d = 16 * ?k + 16" by simp_all
  obtain p1 where p1: "write_u64 pages 0 ?n = Some p1" "wrote pages 0 (le64 ?n) p1"
    using write_u64_ok [OF pages, of 0 ?n] fits total so by auto
  have l1: "paged p1" "length p1 = length pages" using p1(2) wrote_length by (auto simp: wrote_def)
  obtain p2 where p2: "write_strings stack_bottom (args @ env) p1 ?so = Some (p2, stack_total args env aux, ?ptrs)" "wrote p1 ?so (strings_image (args @ env)) p2"
    using write_strings_ok [OF l1(1), of ?so "args @ env" stack_bottom] fits total l1(2) by auto
  have l2: "paged p2" "length p2 = length pages" using p2(2) wrote_length l1(2) by (auto simp: wrote_def)
  obtain p3 where p3: "write_words stack_bottom (take ?n ?ptrs) p2 (stack_bottom + 8) = Some (p3, stack_bottom + 8 + 8 * ?n)"
    "wrote p2 8 (concat (map le64 (take ?n ?ptrs))) p3"
    using write_words_ok [OF l2(1), of stack_bottom "stack_bottom + 8" "take ?n ?ptrs"] fits total so l2(2) by auto
  have l3: "paged p3" "length p3 = length pages" using p3(2) wrote_length l2(2) by (auto simp: wrote_def)
  obtain p4 where p4: "write_u64 p3 (8 + 8 * ?n) 0 = Some p4" "wrote p3 (8 + 8 * ?n) (le64 0) p4"
    using write_u64_ok [OF l3(1), of "8 + 8 * ?n" 0] fits total so l3(2) by auto
  have w4: "wrote p2 8 ?b p4" by (rule wrote_more [OF p3(2) _ l2(1)]) (use p4(2) fits total so l2(2) in simp_all)
  have l4: "paged p4" "length p4 = length pages" using p4(2) wrote_length l3(2) by (auto simp: wrote_def)
  obtain p5 where p5: "write_words stack_bottom (drop ?n ?ptrs) p4 (stack_bottom + 16 + 8 * ?n) = Some (p5, stack_bottom + 16 + 8 * ?n + 8 * ?m)"
    "wrote p4 (16 + 8 * ?n) (concat (map le64 (drop ?n ?ptrs))) p5"
    using write_words_ok [OF l4(1), of stack_bottom "stack_bottom + 16 + 8 * ?n" "drop ?n ?ptrs"] fits total so l4(2) by auto
  have l5: "paged p5" "length p5 = length pages" using p5(2) wrote_length l4(2) by (auto simp: wrote_def)
  obtain p6 where p6: "write_u64 p5 (16 + 8 * ?n + 8 * ?m) 0 = Some p6" "wrote p5 (16 + 8 * ?n + 8 * ?m) (le64 0) p6"
    using write_u64_ok [OF l5(1), of "16 + 8 * ?n + 8 * ?m" 0] fits total so l5(2) by auto
  have w6: "wrote p4 (16 + 8 * ?n) ?c p6" by (rule wrote_more [OF p5(2) _ l4(1)]) (use p6(2) fits total so l4(2) in simp_all)
  have l6: "paged p6" "length p6 = length pages" using p6(2) wrote_length l5(2) by (auto simp: wrote_def)
  let ?x = "24 + 8 * ?n + 8 * ?m"
  obtain p7 where p7: "write_words stack_bottom ?pairs p6 (stack_bottom + ?x) = Some (p7, stack_bottom + ?x + 16 * ?k)"
    "wrote p6 ?x (concat (map le64 ?pairs)) p7"
    using write_words_ok [OF l6(1), of stack_bottom "stack_bottom + ?x" ?pairs] fits total so l6(2) by auto
  have l7: "paged p7" "length p7 = length pages" using p7(2) wrote_length l6(2) by (auto simp: wrote_def)
  obtain p8 where p8: "write_u64 p7 (?x + 16 * ?k) 0 = Some p8" "wrote p7 (?x + 16 * ?k) (le64 0) p8"
    using write_u64_ok [OF l7(1), of "?x + 16 * ?k" 0] fits total so l7(2) by auto
  have l8: "paged p8" "length p8 = length pages" using p8(2) wrote_length l7(2) by (auto simp: wrote_def)
  obtain p9 where p9: "write_u64 p8 (?x + 16 * ?k + 8) 0 = Some p9" "wrote p8 (?x + 16 * ?k + 8) (le64 0) p9"
    using write_u64_ok [OF l8(1), of "?x + 16 * ?k + 8" 0] fits total so l8(2) by auto
  have "wrote p7 (?x + 16 * ?k) (le64 0 @ le64 0) p9" by (rule wrote_more [OF p8(2) _ l7(1)]) (use p9(2) fits total so l7(2) in simp_all)
  then have w9: "wrote p6 ?x ?d p9" by (intro wrote_more [OF p7(2) _ l6(1)]) (use fits total so l6(2) in simp_all)
  have "flat p9 = splice_at (splice_at (splice_at (splice_at (splice_at (flat pages) 0 (le64 ?n)) ?so (strings_image (args @ env))) 8 ?b) (16 + 8 * ?n) ?c) ?x ?d"
    using p1(2) p2(2) w4 w6 w9 by (simp add: wrote_def)
  also have "\<dots> = splice_at (flat pages) 0 (stack_image stack_bottom args env aux)"
  proof -
    have "length (le64 ?n) + length ?b + length ?c + length ?d + length (strings_image (args @ env)) \<le> length (flat pages)"
      unfolding len length_flat [OF pages] length_le64 length_strings_image using fits unfolding total so by linarith
    from splice_regions [OF this] show ?thesis
      unfolding len length_le64 stack_image_def Let_def by (simp add: so ac_simps)
  qed
  finally have "wrote pages 0 (stack_image stack_bottom args env aux) p9"
    using p1(2) p2(2) w4 w6 w9 by (simp add: wrote_def)
  moreover have "fill_stack stack_bottom args env aux pages = Some (stack_total args env aux, p9)"
  proof -
    have "stack_bottom + 8 + (?n + 1) * 8 + (?m + 1) * 8 + (?k + 1) * 16 - stack_bottom = ?so" by (simp add: so)
    then show ?thesis using p1(1) p2(1) p3(1) p4(1) p5(1) p6(1) p7(1) p8(1) p9(1)
      by (simp add: fill_stack_def Let_def sub64_def ac_simps del: bind_eq_Some_iff)
  qed
  ultimately show ?thesis by blast
qed

section \<open>What the process sees\<close>

text \<open>The byte at an address: that of the buffer among \<open>bs\<close> which the address translates to.\<close>

definition user_byte :: "PageTable \<Rightarrow> kernel \<Rightarrow> Box list \<Rightarrow> nat \<Rightarrow> u8 option" where
  "user_byte t w bs v = (case vaddr t w v of
     None \<Rightarrow> None
   | Some p \<Rightarrow> map_option (\<lambda>b. bx_bytes b ! (p - (bx_ptr b - DIRECT_MAPPING_OFFSET)))
       (List.find (\<lambda>b. bx_ptr b - DIRECT_MAPPING_OFFSET \<le> p \<and> p < bx_ptr b - DIRECT_MAPPING_OFFSET + 4096) bs))"

text \<open>Buffers that lie apart.\<close>

definition boxes_apart :: "Box list \<Rightarrow> bool" where
  "boxes_apart bs \<longleftrightarrow> distinct (map bx_ptr bs) \<and> (\<forall>b \<in> set bs. page_ok (bx_ptr b))"

lemma page_frame: "page_ok p \<Longrightarrow> \<exists>a. p - DIRECT_MAPPING_OFFSET = 4096 * a"
proof -
  assume "page_ok p"
  moreover have "4096 dvd DIRECT_MAPPING_OFFSET" by (simp add: DIRECT_MAPPING_OFFSET_def)
  ultimately have "4096 dvd p - DIRECT_MAPPING_OFFSET" by (intro dvd_diff_nat) (simp_all add: page_ok_def mod_eq_0_iff_dvd)
  then show ?thesis by (elim dvdE) blast
qed

lemma same_page_box:
  assumes "page_ok p" "page_ok q" "q - DIRECT_MAPPING_OFFSET \<le> p - DIRECT_MAPPING_OFFSET + k" "p - DIRECT_MAPPING_OFFSET + k < q - DIRECT_MAPPING_OFFSET + 4096" "k < 4096"
  shows "q = p"
proof -
  obtain a b where "p - DIRECT_MAPPING_OFFSET = 4096 * a" "q - DIRECT_MAPPING_OFFSET = 4096 * b"
    using page_frame [OF assms(1)] page_frame [OF assms(2)] by blast
  moreover from this have "a = b" using assms(3-5) by simp
  ultimately have "p - DIRECT_MAPPING_OFFSET = q - DIRECT_MAPPING_OFFSET" by simp
  then show ?thesis using assms(1,2) unfolding page_ok_def by (metis le_add_diff_inverse)
qed

lemma user_byte_box:
  assumes "box_at t w n b" "b \<in> set bs" "boxes_apart bs" "k < 4096"
  shows "user_byte t w bs (4096 * n + k) = Some (bx_bytes b ! k)"
proof -
  let ?p = "bx_ptr b - DIRECT_MAPPING_OFFSET + k"
  let ?P = "\<lambda>b. bx_ptr b - DIRECT_MAPPING_OFFSET \<le> ?p \<and> ?p < bx_ptr b - DIRECT_MAPPING_OFFSET + 4096"
  have v: "vaddr t w (4096 * n + k) = Some ?p" using assms(1,4) by (simp add: box_at_def)
  have only: "c = b" if "c \<in> set bs" "?P c" for c
  proof -
    have "bx_ptr c = bx_ptr b" by (rule same_page_box [of "bx_ptr b" "bx_ptr c" k]) (use that assms in \<open>auto simp: boxes_apart_def\<close>)
    then show ?thesis using assms(2,3) that(1) by (auto simp: boxes_apart_def distinct_map inj_on_def)
  qed
  have "?P b" using assms(4) by simp
  then obtain c where c: "List.find ?P bs = Some c" using assms(2) find_None_iff [of ?P bs] by (cases "List.find ?P bs") blast+
  then have "c \<in> set bs" "?P c" by (auto simp: find_Some_iff)
  then have "c = b" by (rule only)
  then show ?thesis using v c by (simp add: user_byte_def)
qed

lemma calloc_pages_ok:
  assumes "space_ok t B w" "n \<le> free_pages w"
  shows "\<exists>bs w'. calloc_pages n w = Some (bs, w') \<and> length bs = n \<and> paged bs \<and> distinct (map bx_ptr bs) \<and> bx_ptr ` set bs \<inter> B = {} \<and>
    space_ok t (B \<union> bx_ptr ` set bs) w' \<and> free_pages w = free_pages w' + n \<and> (\<forall>v < 2 ^ 47. vaddr t w' v = vaddr t w v)"
  using assms
proof (induction n arbitrary: B w)
  case 0
  then show ?case by (simp add: uniform_def)
next
  case (Suc n)
  obtain p w1 where p: "alloc_box [] PAGE_SIZE w = Some (\<lparr>bx_ptr = p, bx_bytes = alloc_boxed_slice [] PAGE_SIZE\<rparr>, w1)"
    "space_ok t (insert p B) w1" "p \<notin> B" "free_pages w = Suc (free_pages w1)" "\<And>v. v < 2 ^ 47 \<Longrightarrow> vaddr t w1 v = vaddr t w v"
    by (rule box_page [OF Suc.prems(1)]) (use Suc.prems(2) in auto)
  let ?b = "\<lparr>bx_ptr = p, bx_bytes = replicate PAGE_SIZE 0\<rparr>"
  have c: "calloc_box PAGE_SIZE w = Some (?b, w1)" using p(1) by (simp add: calloc_box_def del: bind_eq_Some_iff)
  have "n \<le> free_pages w1" using Suc.prems(2) p(4) by simp
  from Suc.IH [OF p(2) this] obtain bs w' where bs: "calloc_pages n w1 = Some (bs, w')" "length bs = n" "paged bs" "distinct (map bx_ptr bs)"
    "bx_ptr ` set bs \<inter> insert p B = {}" "space_ok t (insert p B \<union> bx_ptr ` set bs) w'" "free_pages w1 = free_pages w' + n"
    "\<forall>v < 2 ^ 47. vaddr t w' v = vaddr t w1 v" by blast
  have "calloc_pages (Suc n) w = Some (?b # bs, w')" using c bs(1) by (simp del: bind_eq_Some_iff)
  moreover have "paged (?b # bs)" using bs(3) by (simp add: uniform_def PAGE_SIZE_def)
  moreover have "B \<union> bx_ptr ` set (?b # bs) = insert p B \<union> bx_ptr ` set bs" by auto
  ultimately show ?case using bs p(3-5) by (intro exI [of _ "?b # bs"] exI [of _ w']) auto
qed

lemma stack_user_byte:
  assumes "stack_ok t B s w" "space_ok t B w" "stack_buffers s = rev pages" "n < 4096 * length pages"
  shows "user_byte t w (stack_buffers s) (stack_top s - stack_size s + n) = Some (flat pages ! n)"
proof -
  let ?N = "length pages" and ?T = "stack_top s div 4096" and ?j = "n div 4096"
  have st: "stack_top s = 4096 * ?T" "stack_size s = 4096 * ?N" "?N \<le> ?T" "distinct (map bx_ptr (stack_buffers s))" "bx_ptr ` set (stack_buffers s) \<subseteq> B"
    "\<forall>i < ?N. box_at t w (?T - (i + 1)) (rev pages ! i)"
    using assms(1) by (auto simp: stack_ok_def assms(3))
  have j: "?j < ?N" using assms(4) by (simp add: less_mult_imp_div_less mult.commute)
  then have i: "?N - 1 - ?j < ?N" "?T - (?N - 1 - ?j + 1) = ?T - ?N + ?j" using st(3) by simp_all
  then have at: "box_at t w (?T - ?N + ?j) (pages ! ?j)" using st(6) [rule_format, OF i(1)] j by (simp add: rev_nth)
  have len: "\<forall>b \<in> set pages. length (bx_bytes b) = 4096"
  proof
    fix b assume "b \<in> set pages"
    then obtain i where "i < ?N" "b = rev pages ! i" by (metis in_set_conv_nth length_rev set_rev)
    then show "length (bx_bytes b) = 4096" using st(6) by (auto simp: box_at_def PAGE_SIZE_def)
  qed
  then have "paged pages" by (simp add: uniform_def)
  from slice_concat_uniform [OF this, of ?j "n mod 4096" 1] j
  have "slice_of (flat pages) n (n + 1) = slice_of (bx_bytes (pages ! ?j)) (n mod 4096) (n mod 4096 + 1)" by (simp add: flat_def Suc_leI)
  moreover have "slice_of xs m (m + 1) = [xs ! m]" if "m < length xs" for m and xs :: "u8 list"
    using that by (simp add: slice_of_def take_Suc_conv_app_nth Cons_nth_drop_Suc [symmetric])
  ultimately have "flat pages ! n = bx_bytes (pages ! ?j) ! (n mod 4096)"
    using assms(4) length_flat [OF \<open>paged pages\<close>] len j by simp
  moreover have "boxes_apart (stack_buffers s)" using st(4,5) space_page [OF assms(2)] by (auto simp: boxes_apart_def)
  moreover have "stack_top s - stack_size s + n = 4096 * (?T - ?N + ?j) + n mod 4096"
    using st(1-3) by (simp add: diff_mult_distrib2 algebra_simps)
  moreover have "pages ! ?j \<in> set (stack_buffers s)" using j by (simp add: assms(3))
  ultimately show ?thesis using user_byte_box [OF at, of "stack_buffers s" "n mod 4096"] by (simp only: mod_less_divisor zero_less_numeral)
qed



end
