(* ===== verification/Elf_Image.thy ===== *)
theory Elf_Image
  imports Elf_Stack
begin

text \<open>
  The memory image of a process: whatever the buffer of a page held before, \<open>fill_page\<close> leaves in it
  the bytes of the file where the segment has them and zeros elsewhere, and hands on how many
  bytes of the segment it has used.
\<close>

section \<open>Pages of a segment\<close>

definition seg_byte :: "nat \<Rightarrow> u8 list \<Rightarrow> nat \<Rightarrow> u8" where
  "seg_byte v data a = (if v \<le> a \<and> a < v + length data then data ! (a - v) else 0)"

definition seg_page :: "nat \<Rightarrow> u8 list \<Rightarrow> nat \<Rightarrow> u8 list" where
  "seg_page v data virt = map (\<lambda>k. seg_byte v data (virt + k)) [0..<4096]"

lemma length_seg_page [simp]: "length (seg_page v data virt) = 4096"
  by (simp add: seg_page_def)

lemma fill_zero_ok: "a \<le> b \<Longrightarrow> b \<le> length buf \<Longrightarrow> fill_zero buf a b = Some (splice_at buf a (replicate (b - a) 0))"
  by (simp add: fill_zero_def)

lemma copy_ok: "a \<le> b \<Longrightarrow> b \<le> length buf \<Longrightarrow> length src = b - a \<Longrightarrow> copy_from_slice buf a b src = Some (splice_at buf a src)"
  by (simp add: copy_from_slice_def)

lemma fill_page_ok:
  assumes buf: "length buf = 4096" and v: "v < virt + 4096" "virt + 4096 < 2 ^ 64"
  shows "fill_page v (v + length data) data virt (min (length data) (virt - v)) buf =
    Some (seg_page v data virt, min (length data) (virt + 4096 - v))"
proof -
  let ?f = "length data" and ?c = "min (length data) (virt - v)"
  consider (first) "virt < v" | (last) "v \<le> virt" "v + ?f \<le> virt + 4096" | (inner) "v \<le> virt" "virt + 4096 < v + ?f" by linarith
  then show ?thesis
  proof cases
    case first
    define z where "z = v - virt"
    define r where "r = min (4096 - z) ?f"
    have c: "?c = 0" using first by simp
    have z: "z < 4096" "z + r \<le> 4096" "r \<le> ?f" "v = virt + z" using v(1) first by (auto simp: z_def r_def)
    let ?b1 = "splice_at buf 0 (replicate z 0)"
    let ?b2 = "splice_at ?b1 (z + r) (replicate (4096 - (z + r)) 0)"
    have l1: "length ?b1 = 4096" using buf z by (simp add: length_splice_at)
    have l2: "length ?b2 = 4096" using l1 z by (simp add: length_splice_at)
    have l: "length (slice_of data 0 r) = r" using z(3) by (simp add: length_slice)
    have "splice_at ?b2 z (slice_of data 0 r) = seg_page v data virt"
    proof (rule nth_equalityI)
      show len: "length (splice_at ?b2 z (slice_of data 0 r)) = length (seg_page v data virt)" using l2 z l by (simp add: length_splice_at)
      fix k assume "k < length (splice_at ?b2 z (slice_of data 0 r))"
      then have k: "k < 4096" using len by simp
      have n: "splice_at ?b2 z (slice_of data 0 r) ! k = (if z \<le> k \<and> k < z + r then slice_of data 0 r ! (k - z) else ?b2 ! k)"
        using nth_splice_at [of z "slice_of data 0 r" ?b2 k] l l2 k z(2) by simp
      have "splice_at ?b2 z (slice_of data 0 r) ! k = seg_byte v data (virt + k)"
      proof (cases "z \<le> k \<and> k < z + r")
        case True
        then have "slice_of data 0 r ! (k - z) = data ! (k - z)" using z(3) by (subst nth_slice) auto
        then show ?thesis using n True z(3,4) by (simp add: seg_byte_def)
      next
        case False
        have "?b2 ! k = 0"
        proof (cases "z + r \<le> k")
          case True
          then show ?thesis using nth_splice_at [of "z + r" "replicate (4096 - (z + r)) 0" ?b1 k] l1 k z(2) by simp
        next
          case F: False
          then show ?thesis using nth_splice_at [of "z + r" "replicate (4096 - (z + r)) 0" ?b1 k] nth_splice_at [of 0 "replicate z 0" buf k] l1 buf k z(1,2) False by simp
        qed
        moreover have "\<not> (v \<le> virt + k \<and> virt + k < v + ?f)" using False z(4) k by (auto simp: r_def)
        ultimately show ?thesis using n False unfolding seg_byte_def by (simp only: if_False)
      qed
      then show "splice_at ?b2 z (slice_of data 0 r) ! k = seg_page v data virt ! k" using k by (simp add: seg_page_def)
    qed
    moreover have "(if z + r < 4096 then fill_zero ?b1 (z + r) (length ?b1) else Some ?b1) = Some ?b2"
      using l1 z(2) by (cases "z + r < 4096") (simp_all add: fill_zero_ok)
    moreover have "fill_zero buf 0 z = Some ?b1" using z(1) buf by (simp add: fill_zero_ok)
    moreover have "copy_from_slice ?b2 z (z + r) (slice_of data 0 r) = Some (splice_at ?b2 z (slice_of data 0 r))"
      using l2 z(2) l by (intro copy_ok) simp_all
    moreover have "slice_get data 0 r = Some (slice_of data 0 r)" using z(3) by (simp add: slice_get_def)
    moreover have "sub64 4096 z = Some (4096 - z)" using z(1) by (simp add: sub64_def)
    moreover have f0: "sub64 ?f 0 = Some ?f" by (simp add: sub64_def)
    moreover note z_def [symmetric] r_def [symmetric]
    ultimately have "fill_page v (v + ?f) data virt 0 buf = Some (seg_page v data virt, r)"
      using first by (simp only: fill_page_def PAGE_SIZE_def Let_def if_True Option.bind_lunit f0 add_0)
    moreover have "r = min ?f (virt + 4096 - v)" using z(1,4) by (simp add: r_def min.commute)
    ultimately show ?thesis unfolding c by simp
  next
    case last
    define c where "c = ?c"
    define r where "r = ?f - c"
    have r: "r \<le> 4096" "c + r = ?f" "c \<le> ?f" using last by (auto simp: r_def c_def)
    let ?b1 = "splice_at buf 0 (slice_of data c ?f)"
    let ?b2 = "splice_at ?b1 r (replicate (4096 - r) 0)"
    have l: "length (slice_of data c ?f) = r" by (simp add: length_slice r_def)
    have l1: "length ?b1 = 4096" using buf r l by (simp add: length_splice_at)
    have "?b2 = seg_page v data virt"
    proof (rule nth_equalityI)
      fix k assume "k < length ?b2"
      then have k: "k < 4096" using l1 r by (simp add: length_splice_at)
      have "?b2 ! k = (if k < r then data ! (c + k) else 0)"
      proof (cases "k < r")
        case True
        then have "?b2 ! k = slice_of data c ?f ! k"
          using nth_splice_at [of r "replicate (4096 - r) 0" ?b1 k] nth_splice_at [of 0 "slice_of data c ?f" buf k] l l1 r(1) buf k by simp
        then show ?thesis using True r by (simp add: nth_slice r_def)
      next
        case False
        then show ?thesis using nth_splice_at [of r "replicate (4096 - r) 0" ?b1 k] l1 r(1) k by simp
      qed
      also have "\<dots> = seg_byte v data (virt + k)" using last by (auto simp: seg_byte_def r_def c_def min_def)
      finally show "?b2 ! k = seg_page v data virt ! k" using k by (simp add: seg_page_def)
    qed (use l1 r in \<open>simp add: length_splice_at\<close>)
    moreover have "copy_from_slice buf 0 r (slice_of data c ?f) = Some ?b1" using buf r l by (intro copy_ok) simp_all
    moreover have "fill_zero ?b1 r (length ?b1) = Some ?b2" using l1 r by (simp add: fill_zero_ok)
    moreover have "slice_get data c ?f = Some (slice_of data c ?f)" "sub64 ?f c = Some r" using r by (simp_all add: slice_get_def sub64_def)
    moreover have "add64 virt 4096 = Some (virt + 4096)" using v(2) by (simp add: add64_def)
    moreover have "\<not> virt < v" using last by simp
    ultimately have "fill_page v (v + ?f) data virt c buf = Some (seg_page v data virt, c + r)"
      using last(2) by (simp only: fill_page_def PAGE_SIZE_def Let_def if_True if_False Option.bind_lunit)
    moreover have "c + r = min ?f (virt + 4096 - v)" using last r(2) by simp
    ultimately show ?thesis by (simp add: c_def)
  next
    case inner
    have c: "?c = virt - v" "\<not> ?f \<le> ?c" "min (?f - ?c) 4096 = 4096" "virt - v + 4096 \<le> ?f" using inner by linarith+
    let ?b1 = "splice_at buf 0 (slice_of data ?c (?c + 4096))"
    have "?b1 = seg_page v data virt"
    proof (rule nth_equalityI)
      fix k assume "k < length ?b1"
      then have k: "k < 4096" using buf c by (simp add: length_splice_at length_slice)
      then have "?b1 ! k = data ! (?c + k)" using buf c by (simp add: nth_splice_at length_slice nth_slice)
      also have "\<dots> = seg_byte v data (virt + k)" using inner k c(1) by (auto simp: seg_byte_def)
      finally show "?b1 ! k = seg_page v data virt ! k" using k by (simp add: seg_page_def)
    qed (use buf c in \<open>simp add: length_splice_at length_slice\<close>)
    moreover have "copy_from_slice buf 0 4096 (slice_of data ?c (?c + 4096)) = Some ?b1" using buf c by (intro copy_ok) (simp_all add: length_slice)
    moreover have "slice_get data ?c (?c + 4096) = Some (slice_of data ?c (?c + 4096))" "?c + 4096 = min ?f (virt + 4096 - v)"
      using inner c by (auto simp: slice_get_def)
    moreover have "add64 virt 4096 = Some (virt + 4096)" using v(2) by (simp add: add64_def)
    moreover have "\<not> virt < v" "\<not> v + ?f \<le> virt + 4096" using inner by simp_all
    ultimately show ?thesis using c(2,3) by (simp only: fill_page_def PAGE_SIZE_def Let_def if_False Option.bind_lunit)
  qed
qed

end
