(* ===== verification/Spec2Isabelle.thy ===== *)
theory Spec2Isabelle
  imports Mem Bitmap FileTable FileApi Ext2_Dir Elf_Image
begin

text \<open>
  A verification library for the Campix kernel (the Rust sources under \<^verbatim>\<open>src/src/\<close>).

  \<^bold>\<open>The program.\<close> Campix is a 64-bit kernel. Physical memory is handed out by a buddy allocator
  (\<^verbatim>\<open>memory/buddy_alloc.rs\<close>) that the kernel heap (\<^verbatim>\<open>memory/mem.rs\<close>) wraps with a
  table of block orders. Page tables (\<^verbatim>\<open>paging.rs\<close>) take their pages from a list of free runs at
  boot and from the heap afterwards; on them rest the stacks and the code pages of processes
  (\<^verbatim>\<open>process/memory.rs\<close>, \<^verbatim>\<open>process/proc.rs\<close>), which the ELF loader
  (\<^verbatim>\<open>formats/elf.rs\<close>) fills. Files are reached through a virtual file system
  (\<^verbatim>\<open>drivers/vfs.rs\<close>): a tree of mount points, each with a driver behind the trait
  \<^verbatim>\<open>FileSystem\<close>. The drivers are the pipe file system (\<^verbatim>\<open>drivers/fs/virt/pipefs.rs\<close>), the
  device file system (\<^verbatim>\<open>drivers/fs/virt/devfs.rs\<close>) with the PATA disk driver
  (\<^verbatim>\<open>drivers/disk/pata.rs\<close>) behind it, and ext2 (\<^verbatim>\<open>drivers/fs/phys/ext2/\<close>), which keeps a
  volume on a device file. \<^verbatim>\<open>data/file.rs\<close> is the interface the rest of the kernel opens files
  with, \<^verbatim>\<open>process/io/\<close> the descriptor tables of processes, \<^verbatim>\<open>data/partition/\<close> the
  partition tables of disks, and \<^verbatim>\<open>data/bitmap.rs\<close> the bitmaps ext2 keeps its free space in.

  \<^bold>\<open>Conventions.\<close> A computation that can panic has a type \<open>'a panics\<close> (\<open>None\<close> is the
  panic); \<^verbatim>\<open>Result<T, VfsError>\<close> is a sum with the error on the left; an operation with
  effects takes its state and returns it. Integers whose arithmetic the compiler checks are
  natural numbers with the check written out (\<open>add64\<close>, \<open>sub64\<close>, \<open>add32\<close>, \dots), as in
  the development profile; data that is shifted and masked stays at its width as a word.
  References (\<^verbatim>\<open>Arc\<close>) are numbers, trait objects are records of functions on the world they
  act on. Code outside the repository is a parameter: port instructions (\<open>PortIO\<close>), the split that
  \<^verbatim>\<open>slice::align_to\<close> makes, the address the heap gives a new handle, the memory an
  uninitialised buffer holds (\<open>uninit\<close>), and the caches of the crate \<^verbatim>\<open>lru\<close>
  (\<open>LruOps\<close>, with the contract \<open>lru_cache\<close>).

  \<^bold>\<open>The theories.\<close>

  \<^item> \<open>Prelude\<close>: checked arithmetic, slices with their bounds checks, little-endian encodings,
    ordered maps; \<open>Data_Utils\<close>: decimal numbers and file handles.
  \<^item> \<open>Buddy\<close> models the allocator over the memory its free lists live in. \<open>Buddy_Tiling\<close> shows that
    free and handed-out blocks always tile the managed pages, with no two free buddies, and
    \<open>Buddy_Spec\<close> states the contract (locale \<open>page_allocator\<close>): disjoint aligned blocks, failure
    only when no run is free, freeing never panics and merges everything back.
  \<^item> \<open>Mem\<close> models the heap on top (locale \<open>addr_heap\<close>): sizes to pages, the order table,
    \<^verbatim>\<open>calloc\<close> byte by byte, the global allocator for every layout, and what init does
    with every memory map.
  \<^item> \<open>Paging\<close> models \<^verbatim>\<open>paging.rs\<close>: the two allocators of pages, the entries, mapping,
    unmapping, translation, the iterator and the destructor. \<open>Paging_Tree\<close> gives tables the
    shape of a tree and states the contract \<open>table_allocator\<close> of an allocator of tables;
    \<open>Paging_Map\<close> proves mapping and unmapping against the translation for every such allocator
    and interprets the contract on the list of free runs, \<open>Paging_Kernel\<close> on the kernel heap.
  \<^item> \<open>Process_Memory\<close>, \<open>Process_Stack\<close>: buffers of the heap, address spaces, stacks that grow page
    by page, and freeing stacks and code.
  \<^item> \<open>Elf\<close>: the header, its conversion and the program headers, read inside the file only;
    \<open>Elf_Load\<close>: \<^verbatim>\<open>build_stack\<close> and \<^verbatim>\<open>create_process\<close>; \<open>Elf_Stack\<close>: the initial
    stack that the process reads; \<open>Elf_Image\<close>: the contents of the pages of a segment.
  \<^item> \<open>Bitmap\<close>: single bits with their exact panics, and the word-wise searches against the least
    unset or set bit.
  \<^item> \<open>Pool\<close> is the locale of allocators of numbered resources; \<open>FileTable\<close> (descriptors) and
    \<open>Ext2_Alloc\<close> (blocks and inodes) interpret it.
  \<^item> \<open>Vfs_Types\<close>, \<open>Vfs_Path\<close>, \<open>Mounts\<close>, \<open>Vfs\<close>: files and errors, the path splitter against
    the list of components, the mount tree as a refinement of a finite map (locale
    \<open>mount_table\<close>), path traversal across mounts, mounting and unmounting for any driver that
    keeps the contract \<open>mountable_fs\<close>.
  \<^item> \<open>Pipe\<close>, \<open>PipeFs\<close>: the ring buffer as a bounded queue (locale \<open>bounded_queue\<close>), and the pipe
    file system as a transition system. Its states carry the ends that unmounting dropped;
    the counts of a pipe are its open and its dropped ends in every reachable state.
  \<^item> \<open>FileApi\<close>: the file interface, instantiated with the pipe file system.
  \<^item> \<open>Block_Device\<close>: the byte view of a block device, proved once in the locale
    \<open>block_device\<close>; \<open>Partition\<close>: MBR and GPT tables read through it.
  \<^item> \<open>Pata\<close>: the register protocol. The locale \<open>ata_drive\<close> states what the ATA command set
    documents of a drive; under it the controller is a \<open>block_device\<close>. A concrete drive
    (\<open>drive_io\<close>) shows the contract can be met and serves the witnesses.
  \<^item> \<open>DevFs\<close>, \<open>Pata_File\<close>: the device file system over records of driver operations, and the PATA
    driver as one of them, with its cache of one sector per handle.
  \<^item> \<open>Ext2_Alloc\<close>, \<open>Ext2_Inode\<close>, \<open>Ext2_Super\<close>: the allocators of a block group with their
    write-back, inodes in memory and on disk, the location of a block in the pointer tables, the
    superblock, the group descriptors and the groups with copies of them.
  \<^item> \<open>Ext2_Volume\<close> models the volume: blocks through a cache, inodes, allocation across groups,
    flushing and mounting. \<open>Ext2_Blocks\<close> states what it relies on (\<open>byte_file\<close> of the device,
    \<open>lru_cache\<close> of the cache, together \<open>ext2_on_file\<close>) and shows that a volume is a
    \<open>block_device\<close>; \<open>Pata_Volume\<close> shows that a device file of a PATA disk is a \<open>byte_file\<close>.
  \<^item> \<open>Ext2_Cursor\<close>, \<open>Ext2_File\<close>, \<open>Ext2_Reading\<close>, \<open>Ext2_Dir\<close>: the cursor through the pointer
    tables, open files (reading, writing, seeking, truncating), that reading returns the contents
    of the file, and directories as lists of slots.

  \<^bold>\<open>Bounds.\<close> No model runs on fuel: loops are \<^theory_text>\<open>fun\<close> or \<^theory_text>\<open>function\<close> with a
  measure where one exists for every input, and \<^theory_text>\<open>partial_function (option)\<close> where the
  code may loop: \<open>required_order_loop\<close> and \<open>remove_walk\<close> of the buddy allocator, the two loops of
  \<open>Block_Device\<close>, the searches for powers of \<open>Ext2_Super\<close>, the loops over the blocks of a file
  and the entries of a directory, and the iteration over page tables. The theorems about them
  show that they return; \<open>truncate_loop\<close>, \<open>grow_loop\<close>, \<open>fh_write_loop\<close>, \<open>find_room\<close>,
  \<open>delete_matching\<close>, \<open>iter_next\<close> and \<open>drop_loop\<close> are modelled and no property is stated of them.

  \<^bold>\<open>What the modelling showed.\<close> A descriptor freed twice is handed out twice; a layout of size 0
  takes a block that is never given back; the buddy allocator never hands out pages past the first
  $2^{29} - 1$ of its region; unmounting the pipe file system drops open handles and leaves the
  counts of their pipes; a file system mounted on the root is never entered; the search for
  backup groups lists one group too many. These are part of the theorems about the operations.
  Others are visible in the definitions only: a partition's block device ignores its first block, a
  seek on a partition's device file is bounded by the whole disk, a new page table is cleared in
  one byte, the allocator of a group with larger blocks starts one block too late.

  \<^bold>\<open>Not modelled.\<close> Interrupt tables and controllers, segment and model-specific registers, context
  switches and boot code (assembly and port writes), the screens and log ports, the enumeration of
  PCI devices; the scheduler and the system calls, which run on interrupted register states; the
  keyboard decoder. Of ext2 the implementation of the trait \<^verbatim>\<open>FileSystem\<close> on top of the volume is not
  modelled. Locking is not modelled: every operation runs under the lock the code takes for its
  whole duration.
\<close>

end
